(* ===== verification/Prelude.thy ===== *)
theory Prelude
  imports Main "HOL-Library.Word" "HOL-Library.AList" "HOL-Library.Char_ord"
    "HOL-Library.List_Lexorder"
begin

text \<open>
  The vocabulary every component shares: fixed-width integers with Rust's checked and
  saturating operations, the \<open>Result\<close> type with its \<open>?\<close> operator (\<open>rbind\<close>), loops that stop
  at the first error, lookups in \<open>HashMap\<close>s kept as association lists, big-endian encodings
  of integers, ASCII case folding, and the collections of simplification rules the component
  proofs use.
\<close>

section \<open>Names for the types of the model\<close>

type_synonym byte = "8 word"
type_synonym bytes = "byte list"
type_synonym u16 = "16 word"
type_synonym u32 = "32 word"
type_synonym u64 = "64 word"
type_synonym uuid = "128 word"
type_synonym instant = nat

text \<open>
  A \<open>Uuid\<close> is its 128-bit value (\<open>Uuid::as_u128\<close>); an \<open>Instant\<close> of the monotonic clock is a
  natural number of ticks; a Rust \<open>String\<close> is the list of its UTF-8 bytes, so \<open>length\<close> is
  \<open>str::len\<close>.
\<close>

abbreviation uuid_nil :: uuid where "uuid_nil \<equiv> 0"

named_theorems result_simps \<open>unfolding of the error-handling combinators\<close>
named_theorems int_simps \<open>saturating and checked arithmetic\<close>
named_theorems eval_simps \<open>evaluation of the executable definitions on concrete inputs\<close>

section \<open>Results\<close>

datatype ('a, 'e) result = Ok 'a | Err 'e

fun rbind :: "('a, 'e) result \<Rightarrow> ('a \<Rightarrow> ('b, 'e) result) \<Rightarrow> ('b, 'e) result" where
  "rbind (Ok x) f = f x"
| "rbind (Err e) f = Err e"

fun is_ok :: "('a, 'e) result \<Rightarrow> bool" where
  "is_ok (Ok x) = True"
| "is_ok (Err e) = False"

fun result_ok :: "('a, 'e) result \<Rightarrow> 'a option" where
  "result_ok (Ok x) = Some x"
| "result_ok (Err e) = None"

fun ok_or :: "'a option \<Rightarrow> 'e \<Rightarrow> ('a, 'e) result" where
  "ok_or (Some x) e = Ok x"
| "ok_or None e = Err e"

definition bail_if :: "bool \<Rightarrow> 'e \<Rightarrow> (unit, 'e) result" where
  "bail_if c e = (if c then Err e else Ok ())"

fun for_each :: "('a \<Rightarrow> (unit, 'e) result) \<Rightarrow> 'a list \<Rightarrow> (unit, 'e) result" where
  "for_each f [] = Ok ()"
| "for_each f (x # xs) = rbind (f x) (\<lambda>_. for_each f xs)"

text \<open>A loop that inserts a key of every element into a fresh \<open>HashSet\<close> and fails when the
  key was there already (\<open>if !ids.insert(k) { bail!(e) }\<close>), after a check of the element.\<close>

fun for_each_unique :: "('a \<Rightarrow> (unit, 'e) result) \<Rightarrow> ('a \<Rightarrow> 'k) \<Rightarrow> ('a \<Rightarrow> 'e) \<Rightarrow> 'k set
    \<Rightarrow> 'a list \<Rightarrow> (unit, 'e) result" where
  "for_each_unique f k e seen [] = Ok ()"
| "for_each_unique f k e seen (x # xs) =
     rbind (f x) (\<lambda>_. if k x \<in> seen then Err (e x)
                      else for_each_unique f k e (insert (k x) seen) xs)"

text \<open>The same loop with the element's keys tested together with a condition on the element, before
  the check: \<open>if bad(x) || !ids.insert(k) { bail!(e) } f(x)?\<close>.\<close>

fun for_each_fresh :: "('a \<Rightarrow> bool) \<Rightarrow> ('a \<Rightarrow> 'k set) \<Rightarrow> 'e \<Rightarrow> ('a \<Rightarrow> (unit, 'e) result) \<Rightarrow> 'k set
    \<Rightarrow> 'a list \<Rightarrow> (unit, 'e) result" where
  "for_each_fresh bad keys e f seen [] = Ok ()"
| "for_each_fresh bad keys e f seen (x # xs) =
     (if bad x \<or> keys x \<inter> seen \<noteq> {} then Err e
      else rbind (f x) (\<lambda>_. for_each_fresh bad keys e f (keys x \<union> seen) xs))"

text \<open>\<open>iter().map(f).collect::<Result<Vec<_>>>()\<close>.\<close>

fun map_result :: "('a \<Rightarrow> ('b, 'e) result) \<Rightarrow> 'a list \<Rightarrow> ('b list, 'e) result" where
  "map_result f [] = Ok []"
| "map_result f (x # xs) = rbind (f x) (\<lambda>y. rbind (map_result f xs) (\<lambda>ys. Ok (y # ys)))"

lemma rbind_eq_Ok [simp, result_simps]:
  "rbind m f = Ok y \<longleftrightarrow> (\<exists>x. m = Ok x \<and> f x = Ok y)"
  by (cases m) auto

lemma rbind_eq_Err: "rbind m f = Err e \<longleftrightarrow> m = Err e \<or> (\<exists>x. m = Ok x \<and> f x = Err e)"
  by (cases m) auto

lemma rbind_Ok_right [simp]: "rbind m Ok = m"
  by (cases m) auto

lemma rbind_assoc: "rbind (rbind m f) g = rbind m (\<lambda>x. rbind (f x) g)"
  by (cases m) auto

lemma bail_if_Ok [simp, result_simps]: "bail_if c e = Ok u \<longleftrightarrow> \<not> c"
  by (simp add: bail_if_def)

lemma bail_if_Err [simp]: "bail_if c e = Err e' \<longleftrightarrow> c \<and> e' = e"
  by (auto simp: bail_if_def)

lemma ok_or_Ok [simp, result_simps]: "ok_or m e = Ok x \<longleftrightarrow> m = Some x"
  by (cases m) auto

lemma ok_or_Err [simp]: "ok_or m e = Err e' \<longleftrightarrow> m = None \<and> e' = e"
  by (cases m) auto

lemma is_ok_iff: "is_ok m \<longleftrightarrow> (\<exists>x. m = Ok x)"
  by (cases m) auto

lemma result_ok_Some [simp]: "result_ok m = Some x \<longleftrightarrow> m = Ok x"
  by (cases m) auto

lemma for_each_Ok [simp, result_simps]: "for_each f xs = Ok u \<longleftrightarrow> (\<forall>x \<in> set xs. f x = Ok ())"
  by (induction xs) auto

lemma for_each_unique_Ok:
  "for_each_unique f k e seen xs = Ok u \<longleftrightarrow>
     (\<forall>x \<in> set xs. f x = Ok ()) \<and> distinct (map k xs) \<and> set (map k xs) \<inter> seen = {}"
  by (induction xs arbitrary: seen) auto

lemma for_each_unique_empty_Ok [simp, result_simps]:
  "for_each_unique f k e {} xs = Ok u \<longleftrightarrow>
     (\<forall>x \<in> set xs. f x = Ok ()) \<and> distinct (map k xs)"
  by (simp add: for_each_unique_Ok)

lemma for_each_fresh_Ok:
  "for_each_fresh bad keys e f seen xs = Ok u \<longleftrightarrow>
     (\<forall>x \<in> set xs. \<not> bad x \<and> f x = Ok () \<and> keys x \<inter> seen = {})
     \<and> sorted_wrt (\<lambda>x y. keys x \<inter> keys y = {}) xs"
  by (induction xs arbitrary: seen) auto

lemma sorted_wrt_keys: "sorted_wrt (\<lambda>x y. {k x} \<inter> {k y} = {}) xs \<longleftrightarrow> distinct (map k xs)"
  by (induction xs) (auto, metis image_eqI)

lemma for_each_fresh_key_Ok [simp, result_simps]:
  "for_each_fresh bad (\<lambda>x. {k x}) e f {} xs = Ok u \<longleftrightarrow>
     (\<forall>x \<in> set xs. \<not> bad x \<and> f x = Ok ()) \<and> distinct (map k xs)"
  unfolding for_each_fresh_Ok sorted_wrt_keys by auto

lemma map_result_Ok: "map_result f xs = Ok ys \<longleftrightarrow> list_all2 (\<lambda>x y. f x = Ok y) xs ys"
  by (induction xs arbitrary: ys) (auto simp: list_all2_Cons1)

lemma map_result_total: "(\<And>x. x \<in> set xs \<Longrightarrow> f x = Ok (g x)) \<Longrightarrow> map_result f xs = Ok (map g xs)"
  by (induction xs) auto

lemma for_each_unique_ErrD:
  "for_each_unique f k e seen xs = Err err \<Longrightarrow> \<exists>x \<in> set xs. f x = Err err \<or> err = e x"
  by (induction xs arbitrary: seen) (auto simp: rbind_eq_Err split: if_splits)

section \<open>Saturating and checked integer operations\<close>

definition sat_add :: "'a::len word \<Rightarrow> 'a word \<Rightarrow> 'a word" where
  "sat_add a b = (if unat a + unat b < 2 ^ LENGTH('a) then a + b else - 1)"

definition sat_sub :: "'a::len word \<Rightarrow> 'a word \<Rightarrow> 'a word" where
  "sat_sub a b = (if b \<le> a then a - b else 0)"

definition sat_mul :: "'a::len word \<Rightarrow> 'a word \<Rightarrow> 'a word" where
  "sat_mul a b = (if unat a * unat b < 2 ^ LENGTH('a) then a * b else - 1)"

definition checked_add :: "'a::len word \<Rightarrow> 'a word \<Rightarrow> 'a word option" where
  "checked_add a b = (if unat a + unat b < 2 ^ LENGTH('a) then Some (a + b) else None)"

text \<open>\<open>n as u64\<close> for a \<open>usize\<close> length.\<close>

definition len64 :: "'b list \<Rightarrow> u64" where
  "len64 xs = word_of_nat (length xs)"

lemma unat_lt2p: "unat (x :: 'a::len word) < 2 ^ LENGTH('a)"
  by (rule unsigned_less)

lemma unat_max_word: "unat (- 1 :: 'a::len word) = 2 ^ LENGTH('a) - 1"
  by (simp add: unsigned_minus_1_eq_mask mask_eq_exp_minus_1)

lemma power_256: "(256 :: nat) ^ n = 2 ^ (8 * n)"
  by (simp add: power_mult)

lemma unat_sat_add [int_simps]:
  "unat (sat_add a b) = min (unat a + unat b) (2 ^ LENGTH('a) - 1)" for a b :: "'a::len word"
proof (cases "unat a + unat b < 2 ^ LENGTH('a)")
  case True
  then show ?thesis
    by (simp add: sat_add_def unat_word_ariths)
next
  case False
  then show ?thesis
    by (simp add: sat_add_def unat_max_word)
qed

lemma unat_sat_sub [int_simps]: "unat (sat_sub a b) = unat a - unat b"
  by (auto simp: sat_sub_def unat_sub word_le_nat_alt)

lemma sat_sub_self [simp]: "sat_sub a a = 0"
  by (simp add: sat_sub_def)

lemma unat_checked_add: "checked_add a b = Some c \<Longrightarrow> unat c = unat a + unat b"
  by (auto simp: checked_add_def unat_word_ariths split: if_splits)

lemma checked_add_less: "checked_add a 1 = Some c \<Longrightarrow> a < c"
  by (simp add: word_less_nat_alt unat_checked_add)

lemma sat_add_ge: "a \<le> sat_add a b" for a b :: "'a::len word"
proof -
  have "unat a \<le> 2 ^ LENGTH('a) - 1"
    using unat_lt2p [of a] by linarith
  then show ?thesis
    by (simp add: word_le_nat_alt unat_sat_add)
qed

lemma unat_len64: "length xs < 2 ^ 64 \<Longrightarrow> unat (len64 xs) = length xs"
  by (simp add: len64_def unat_of_nat)

section \<open>Finding elements\<close>

text \<open>\<open>iter().find(p)\<close>, \<open>iter().position(p)\<close> and \<open>max_by_key\<close>, which keeps the last of equal
  maxima.\<close>

fun find_index :: "('a \<Rightarrow> bool) \<Rightarrow> 'a list \<Rightarrow> nat option" where
  "find_index p [] = None"
| "find_index p (x # xs) = (if p x then Some 0 else map_option Suc (find_index p xs))"

fun max_by_key :: "('a \<Rightarrow> 'k::linorder) \<Rightarrow> 'a list \<Rightarrow> 'a option" where
  "max_by_key k [] = None"
| "max_by_key k (x # xs) =
     (case max_by_key k xs of None \<Rightarrow> Some x | Some y \<Rightarrow> if k y < k x then Some x else Some y)"

lemma find_SomeD: "List.find p xs = Some x \<Longrightarrow> x \<in> set xs \<and> p x"
  by (induction xs) (auto split: if_splits)

lemma max_by_key_in: "max_by_key k xs = Some x \<Longrightarrow> x \<in> set xs"
  by (induction xs arbitrary: x) (auto split: option.splits if_splits)

lemma max_by_key_None [simp]: "max_by_key k xs = None \<longleftrightarrow> xs = []"
  by (induction xs) (auto split: option.splits)

lemma max_by_key_max: "max_by_key k xs = Some x \<Longrightarrow> y \<in> set xs \<Longrightarrow> k y \<le> k x"
proof (induction xs arbitrary: x y)
  case Nil
  then show ?case by simp
next
  case (Cons a xs)
  show ?case
  proof (cases "max_by_key k xs")
    case None
    with Cons.prems show ?thesis by auto
  next
    case (Some z)
    with Cons.prems Cons.IH[OF Some] show ?thesis
      by (fastforce split: if_splits)
  qed
qed

section \<open>Strings\<close>

definition ascii_lower :: "char \<Rightarrow> char" where
  "ascii_lower c = (let n = (of_char c :: nat) in
     if 65 \<le> n \<and> n \<le> 90 then char_of (n + 32) else c)"

definition to_ascii_lowercase :: "string \<Rightarrow> string" where
  "to_ascii_lowercase = map ascii_lower"

definition eq_ignore_ascii_case :: "string \<Rightarrow> string \<Rightarrow> bool" where
  "eq_ignore_ascii_case s t \<longleftrightarrow> to_ascii_lowercase s = to_ascii_lowercase t"

definition is_ascii_digit :: "char \<Rightarrow> bool" where
  "is_ascii_digit c \<longleftrightarrow> (let n = (of_char c :: nat) in 48 \<le> n \<and> n \<le> 57)"

definition is_ascii_alphanumeric :: "char \<Rightarrow> bool" where
  "is_ascii_alphanumeric c \<longleftrightarrow> is_ascii_digit c
     \<or> (let n = (of_char c :: nat) in (65 \<le> n \<and> n \<le> 90) \<or> (97 \<le> n \<and> n \<le> 122))"

definition is_ascii_hexdigit :: "char \<Rightarrow> bool" where
  "is_ascii_hexdigit c \<longleftrightarrow> is_ascii_digit c
     \<or> (let n = (of_char c :: nat) in (65 \<le> n \<and> n \<le> 70) \<or> (97 \<le> n \<and> n \<le> 102))"

lemma eq_ignore_ascii_case_refl [simp]: "eq_ignore_ascii_case s s"
  by (simp add: eq_ignore_ascii_case_def)

section \<open>Big-endian integers\<close>

fun be_bytes :: "nat \<Rightarrow> nat \<Rightarrow> bytes" where
  "be_bytes 0 x = []"
| "be_bytes (Suc n) x = be_bytes n (x div 256) @ [word_of_nat (x mod 256)]"

definition be_value :: "bytes \<Rightarrow> nat" where
  "be_value bs = foldl (\<lambda>a b. a * 256 + unat b) 0 bs"

definition to_be_bytes :: "'a::len word \<Rightarrow> bytes" where
  "to_be_bytes x = be_bytes (LENGTH('a) div 8) (unat x)"

definition from_be_bytes :: "bytes \<Rightarrow> 'a::len word" where
  "from_be_bytes bs = word_of_nat (be_value bs)"

lemma length_be_bytes [simp]: "length (be_bytes n x) = n"
  by (induction n arbitrary: x) auto

lemma be_bytes_numeral [eval_simps]:
  "be_bytes (numeral k) x = be_bytes (pred_numeral k) (x div 256) @ [word_of_nat (x mod 256)]"
  by (simp only: numeral_eq_Suc [of k] be_bytes.simps)

lemmas [eval_simps] = to_be_bytes_def from_be_bytes_def be_value_def sat_add_def sat_sub_def
  checked_add_def len64_def

lemma be_value_snoc: "be_value (bs @ [b]) = be_value bs * 256 + unat b"
  by (simp add: be_value_def)

lemma be_value_be_bytes: "be_value (be_bytes n x) = x mod 256 ^ n"
proof (induction n arbitrary: x)
  case 0
  then show ?case by (simp add: be_value_def)
next
  case (Suc n)
  have "unat (word_of_nat (x mod 256) :: byte) = x mod 256"
    by (simp add: unat_of_nat)
  then have "be_value (be_bytes (Suc n) x) = (x div 256) mod 256 ^ n * 256 + x mod 256"
    by (simp add: be_value_snoc Suc.IH)
  also have "\<dots> = x mod 256 ^ Suc n"
    by (simp add: mod_mult2_eq mult.commute)
  finally show ?case .
qed

lemma length_to_be_bytes [simp]: "length (to_be_bytes (x :: 'a::len word)) = LENGTH('a) div 8"
  by (simp add: to_be_bytes_def)

lemma from_to_be_bytes:
  assumes "8 dvd LENGTH('a::len)"
  shows "from_be_bytes (to_be_bytes x) = (x :: 'a word)"
proof -
  have "(256 :: nat) ^ (LENGTH('a) div 8) = 2 ^ LENGTH('a)"
    unfolding power_256 using assms by simp
  then show ?thesis
    using unat_lt2p [of x] by (simp add: from_be_bytes_def to_be_bytes_def be_value_be_bytes)
qed

lemma be_bytes_be_value: "be_bytes (length bs) (be_value bs) = bs"
proof (induction bs rule: rev_induct)
  case Nil
  then show ?case by simp
next
  case (snoc b bs)
  have "unat b < 256"
    using unat_lt2p [of b] by simp
  then show ?case
    using snoc by (simp add: be_value_snoc)
qed

lemma be_value_less: "be_value bs < 256 ^ length bs"
proof (induction bs rule: rev_induct)
  case Nil
  then show ?case by (simp add: be_value_def)
next
  case (snoc b bs)
  have "unat b < 256"
    using unat_lt2p [of b] by simp
  with snoc show ?case
    by (simp add: be_value_snoc)
qed

lemma to_from_be_bytes:
  assumes "length bs * 8 = LENGTH('a::len)"
  shows "to_be_bytes (from_be_bytes bs :: 'a word) = bs"
proof -
  have "(256 :: nat) ^ length bs = 2 ^ LENGTH('a)"
    unfolding power_256 using assms by (simp add: mult.commute)
  moreover have "be_value bs < 256 ^ length bs"
    by (rule be_value_less)
  ultimately have "unat (from_be_bytes bs :: 'a word) = be_value bs"
    by (simp add: from_be_bytes_def unat_of_nat)
  moreover have "LENGTH('a) div 8 = length bs"
    using assms by simp
  ultimately show ?thesis
    by (simp add: to_be_bytes_def be_bytes_be_value)
qed

section \<open>Strings as bytes\<close>

definition as_bytes :: "string \<Rightarrow> bytes" where
  "as_bytes str = map of_char str"

lemma as_bytes_inj: "as_bytes a = as_bytes b \<Longrightarrow> a = b"
proof (induction a arbitrary: b)
  case (Cons x a)
  then obtain y c where "b = y # c" "(of_char x :: byte) = of_char y" "as_bytes a = as_bytes c"
    by (cases b) (auto simp: as_bytes_def)
  moreover have "x = y" if "(of_char x :: byte) = of_char y"
  proof -
    have "(word_of_nat (of_char x) :: byte) = word_of_nat (of_char y)"
      using that by (simp add: of_nat_of_char)
    then have "unat (word_of_nat (of_char x) :: byte) = unat (word_of_nat (of_char y) :: byte)"
      by simp
    then show ?thesis by (simp add: unat_of_nat)
  qed
  ultimately show ?case
    using Cons.IH by simp
qed (simp add: as_bytes_def)

text \<open>\<open>checked_mul\<close>.\<close>

definition checked_mul :: "'a::len word \<Rightarrow> 'a word \<Rightarrow> 'a word option" where
  "checked_mul a b = (if unat a * unat b < 2 ^ LENGTH('a) then Some (a * b) else None)"

lemma unat_checked_mul: "checked_mul a b = Some c \<Longrightarrow> unat c = unat a * unat b"
  by (auto simp: checked_mul_def unat_word_ariths split: if_splits)

end
