(* ===== verification/Errors.thy ===== *)
theory Errors
  imports Prelude
begin

text \<open>
  Every \<open>bail!\<close>, \<open>anyhow!\<close> and \<open>io::Error\<close> of the modelled code as a value: one datatype per
  component, one constructor per message, and the sum \<open>error\<close> of them all, which is what
  \<open>anyhow::Error\<close> is to the callers.
\<close>

datatype io_kind = UnexpectedEof | InvalidData | InvalidInput | TimedOut | OtherIo

datatype flow_error =
    AckSplitFrame                 \<comment> \<open>ACK split a TCP data frame\<close>
  | TravelClosedFlow              \<comment> \<open>travel closed flow\<close>
  | HomeClosedFlow                \<comment> \<open>Home closed flow\<close>
  | UnackedLimit                  \<comment> \<open>unacknowledged-data limit reached\<close>
  | TargetFailed                  \<comment> \<open>target TCP failed\<close>
  | TargetTimeout                 \<comment> \<open>target TCP write or shutdown timed out\<close>
  | LocalFailed                   \<comment> \<open>local TCP failed\<close>
  | LocalWriteZero                \<comment> \<open>local TCP write returned zero\<close>
  | LocalTimeout                  \<comment> \<open>local TCP write or shutdown timed out\<close>
  | NonContiguousData             \<comment> \<open>Home sent non-contiguous TCP data\<close>
  | InvalidFlowFrame              \<comment> \<open>invalid TCP flow frame\<close>
  | DetachTimeout                 \<comment> \<open>home detached-flow timeout expired\<close>
  | AckUnsent                     \<comment> \<open>Home acknowledged unsent Travel data\<close>
  | AckBackwards                  \<comment> \<open>Home acknowledgement moved backwards\<close>
  | WinnerVanished                \<comment> \<open>winning carrier vanished\<close>
  | RecoveryExpired               \<comment> \<open>carrier recovery deadline expired\<close>
  | FlowChannelClosed             \<comment> \<open>flow event or carrier channel closed\<close>
  | FlowChangedService            \<comment> \<open>flow attempted to change services\<close>
  | FlowLimit                     \<comment> \<open>home active-flow limit reached\<close>
  | CarrierLimit                  \<comment> \<open>home active-Carrier limit reached\<close>
  | PerFlowCarrierLimit           \<comment> \<open>home per-flow Carrier limit reached\<close>
  | FlowClosedAttaching           \<comment> \<open>home flow closed while attaching carrier\<close>
  | HeartbeatTimeout              \<comment> \<open>carrier heartbeat timed out\<close>
  | ReceiveTimeoutPending         \<comment> \<open>carrier receive timed out while delivery was pending\<close>
  | RuntimeStopped                \<comment> \<open>Home runtime is stopped\<close>

datatype auth_error =
    AuthorityMismatch             \<comment> \<open>signed credential authority does not match the selected authority\<close>
  | PayloadAuthorityMismatch      \<comment> \<open>payload has a different authority id\<close>
  | WrongAuthorityEpoch           \<comment> \<open>credential uses the wrong authority epoch\<close>
  | ScopeOutsideHome              \<comment> \<open>Home authority attempted to sign outside its own Home\<close>
  | NotHexadecimal                \<comment> \<open>a key, payload or signature must be hexadecimal\<close>
  | NotP256Point                  \<comment> \<open>key must be an uncompressed P-256 point\<close>
  | BadSignature                  \<comment> \<open>invalid signature\<close>
  | BadPayload                    \<comment> \<open>payload is invalid (JSON decoding)\<close>
  | EncodeFailed                  \<comment> \<open>a payload or snapshot could not be encoded\<close>
  | BadSpkiPin                    \<comment> \<open>SPKI pin must be 64 hexadecimal characters\<close>
  | AuthorityInvalid              \<comment> \<open>authority id or epoch or Home id is empty\<close>
  | NoAuthorities                 \<comment> \<open>at least one trusted Travel authority is required\<close>
  | DuplicateAuthority            \<comment> \<open>duplicate Travel authority id\<close>
  | CredentialInvalid             \<comment> \<open>credential id, authority id, and Travel id must be non-empty\<close>
  | ScopeInvalid                  \<comment> \<open>scope has an empty Home or service id\<close>
  | ValidityEmpty                 \<comment> \<open>validity interval is empty\<close>
  | DeploymentIdEmpty             \<comment> \<open>deployment id must be non-empty\<close>
  | GenerationZero                \<comment> \<open>generation must be positive\<close>
  | UnknownAuthority              \<comment> \<open>unknown Travel authority\<close>
  | OtherDeployment               \<comment> \<open>belongs to a different deployment\<close>
  | DuplicateCredential           \<comment> \<open>duplicate Travel credential id\<close>
  | RevocationInvalid             \<comment> \<open>revocation has an invalid time or reason\<close>
  | RevocationUnknown             \<comment> \<open>revocation references unknown credential\<close>

datatype auth_use_error =
    RevocationDuplicate           \<comment> \<open>duplicate revocation\<close>
  | NotCovered                    \<comment> \<open>certificate is not covered by a signed credential\<close>
  | CertificateInactive           \<comment> \<open>certificate is expired or not yet valid\<close>
  | IndexInconsistent             \<comment> \<open>credential index is inconsistent\<close>
  | CredentialInactive            \<comment> \<open>credential is revoked, expired, or not yet valid\<close>
  | NotAuthorizedForHome          \<comment> \<open>identity is not authorized for Home\<close>
  | WrongBusinessCertificate      \<comment> \<open>business certificate does not match the routed credential\<close>
  | GenerationRollback            \<comment> \<open>authorization generation rollback detected\<close>
  | ContentChanged                \<comment> \<open>content changed without a generation increase\<close>
  | RevocationRemoved             \<comment> \<open>snapshot removed a prior revocation\<close>
  | NotInitialized                \<comment> \<open>authorization state is not initialized\<close>
  | NotSynchronized               \<comment> \<open>authorization has not synchronized from Server\<close>
  | UnknownCredential             \<comment> \<open>unknown Travel credential\<close>

datatype deploy_error =
    TrustUnsupported              \<comment> \<open>unsupported or invalid deployment trust\<close>
  | CertificateInvalid            \<comment> \<open>deployment-trusted CA must contain exactly one certificate\<close>
  | NoServerKeys                  \<comment> \<open>at least one Server control key\<close>
  | ServerKeyInvalid              \<comment> \<open>Server control key id/epoch pairs must be non-empty and unique\<close>
  | NoHomeEndpoints               \<comment> \<open>at least one Home endpoint\<close>
  | HomeEndpointInvalid           \<comment> \<open>Home endpoint ids must be non-empty and unique\<close>
  | HomePinsEmpty                 \<comment> \<open>Home endpoint pins must be non-empty\<close>
  | HomeAuthorityInvalid          \<comment> \<open>Home enrollment authority id/epoch must be unique, issuer trusted\<close>
  | AuthorityOwnerAbsent          \<comment> \<open>authority owner is absent from the Home endpoints\<close>
  | NotYetValid                   \<comment> \<open>not yet valid\<close>
  | Expired                       \<comment> \<open>expired\<close>
  | NoSuchServerKey               \<comment> \<open>Server has no certified control signing key at epoch\<close>
  | NoSuchHomeEndpoint            \<comment> \<open>Home endpoint is not deployment-trusted\<close>
  | NoSuchHomeAuthority           \<comment> \<open>Home enrollment authority is not deployment-trusted\<close>
  | NoSuchTravelAuthority         \<comment> \<open>Travel authority is not deployment-trusted\<close>
  | EndpointOtherHome             \<comment> \<open>endpoint credential belongs to a different Home\<close>
  | EndpointUnsupported           \<comment> \<open>unsupported or invalid Home endpoint credential\<close>
  | TooManyDelegations            \<comment> \<open>delegates too many Travel authorities\<close>
  | DelegationOtherHome           \<comment> \<open>delegated authority belongs to a different Home\<close>
  | DelegationNeedsBundle         \<comment> \<open>delegated authorities require a signed issuer-bundle digest\<close>
  | OutsideTrustValidity          \<comment> \<open>endpoint credential is outside deployment trust validity\<close>
  | PayloadTooLarge               \<comment> \<open>payload exceeds the signed payload limit\<close>

datatype control_error =
    SnapshotUnsupported           \<comment> \<open>unsupported or invalid control snapshot\<close>
  | SnapshotTtl                   \<comment> \<open>validity exceeds the maximum TTL\<close>
  | SnapshotFuture                \<comment> \<open>control snapshot is from the future\<close>
  | DirectoryInvalid              \<comment> \<open>Relay directory is empty, too large or has no generation\<close>
  | DirectoryEntryInvalid         \<comment> \<open>Relay directory contains empty or duplicate endpoints\<close>
  | CatalogInvalid                \<comment> \<open>Catalog contains too many Homes\<close>
  | CatalogHomeInvalid            \<comment> \<open>Catalog contains empty or duplicate Home ids\<close>
  | CatalogServiceInvalid         \<comment> \<open>Catalog contains an invalid or duplicate logical service\<close>
  | KeyNotCertified               \<comment> \<open>Server control private key is not certified\<close>
  | SigningFailed                 \<comment> \<open>failed to sign\<close>
  | StateInconsistent             \<comment> \<open>Travel control high-water state is inconsistent\<close>
  | TrustRollback                 \<comment> \<open>deployment trust generation rollback detected\<close>
  | TrustConflict                 \<comment> \<open>conflicting deployment trust documents use the same generation\<close>
  | SignerRollback                \<comment> \<open>Server control signer epoch rollback detected\<close>
  | SnapshotConflict              \<comment> \<open>conflicting control snapshots use the same generation\<close>
  | OtherSubject                  \<comment> \<open>control snapshot is bound to a different Travel identity\<close>
  | RelayAbsent                   \<comment> \<open>authenticated Relay is absent from the signed directory\<close>
  | RelaySpkiConflict             \<comment> \<open>authenticated Relay SPKI conflicts with the signed directory\<close>
  | DirectoryConflict             \<comment> \<open>different Relay directories with the same generation\<close>
  | ForeignDeployment             \<comment> \<open>control snapshot or trust belongs to a different deployment\<close>
  | StateUnsupported              \<comment> \<open>unsupported Travel control high-water state\<close>
  | StorageFailed                 \<comment> \<open>a durable write failed\<close>

datatype server_error =
    GenerationExhausted           \<comment> \<open>generation exhausted\<close>
  | EndpointConflict              \<comment> \<open>Home already has different endpoint authorization\<close>
  | GrantConflict                 \<comment> \<open>business Home already has a different signed service grant\<close>
  | GrantEndpointChanged          \<comment> \<open>business Home retry changed its signed endpoint credential\<close>
  | GenericHomeRestriction        \<comment> \<open>an existing generic Home cannot acquire a restriction\<close>
  | StaticHomeReplace             \<comment> \<open>business enrollment cannot replace a statically trusted Home\<close>
  | EndpointMissing               \<comment> \<open>business Home is missing its endpoint credential\<close>
  | NotIssuedByHome               \<comment> \<open>credential or authority is not assigned to this Home\<close>
  | CredentialMaterialConflict    \<comment> \<open>credential id is already assigned to different material\<close>
  | RequestAlreadyUsed            \<comment> \<open>enrollment request was already used\<close>
  | StateTooLarge                 \<comment> \<open>authorization state exceeds limits\<close>
  | StateVersion                  \<comment> \<open>unsupported authorization state version\<close>
  | UsedRequestOmitted            \<comment> \<open>state omitted a used enrollment request fingerprint\<close>
  | GrantWithoutEndpoint          \<comment> \<open>persisted grant has no matching trusted endpoint\<close>
  | InstallInvalid                \<comment> \<open>installation acknowledgement does not fit the credential\<close>
  | SessionSuperseded             \<comment> \<open>Relay session was superseded\<close>
  | SessionNil                    \<comment> \<open>Travel session id must not be nil\<close>
  | AnotherSession                \<comment> \<open>another session for this Travel credential is already online\<close>
  | NoLoginSession                \<comment> \<open>Travel has no active login session\<close>
  | WorkMismatch                  \<comment> \<open>Relay work readiness does not match the authorized Relay grant\<close>
  | TravelIdMismatch              \<comment> \<open>Travel credential identity does not match\<close>
  | HomeNotAuthorized             \<comment> \<open>not authorized for the requested Home\<close>
  | HomeNoCatalog                 \<comment> \<open>requested Home has no active authorized service catalog\<close>
  | TrustChangedInMemory          \<comment> \<open>Server deployment trust changed unexpectedly in memory\<close>
  | ManagementCaMismatch          \<comment> \<open>Server management CA does not match deployment trust\<close>
  | SigningKeyAmbiguous           \<comment> \<open>control signing key must match exactly one trusted epoch\<close>
  | ControlGenerationZero         \<comment> \<open>Server control generation must be positive\<close>
  | AdvertisementInvalid          \<comment> \<open>Relay endpoint advertisement is not directly connectable\<close>
  | HomeUnavailable               \<comment> \<open>Home Agent is unavailable\<close>
  | PendingLimit                  \<comment> \<open>server pending-work or pending-enrollment limit reached\<close>
  | QueueDeadline                 \<comment> \<open>control queue admission timed out or its deadline expired\<close>
  | QueueClosed                   \<comment> \<open>control session queue closed\<close>
  | EnrollmentInvalid             \<comment> \<open>remote enrollment request is invalid\<close>
  | EnrollmentInFlight            \<comment> \<open>remote enrollment is already in flight\<close>
  | WrongResponder                \<comment> \<open>response came from the wrong Home or lifecycle stage\<close>

datatype relay_error =
    UnknownRoute                  \<comment> \<open>unknown or expired route or work id\<close>
  | RouteExpired                  \<comment> \<open>direct route ticket expired\<close>
  | WrongSide                     \<comment> \<open>preface identifier is bound to the wrong side\<close>
  | BadMac                        \<comment> \<open>invalid direct route preface MAC\<close>
  | DuplicateSide                 \<comment> \<open>duplicate direct route side\<close>
  | RequestDuplicate              \<comment> \<open>RequestError::Duplicate\<close>
  | RequestQueueClosed            \<comment> \<open>RequestError::QueueClosed\<close>
  | RequestResponseClosed         \<comment> \<open>RequestError::ResponseClosed\<close>
  | RequestTimedOut               \<comment> \<open>RequestError::TimedOut\<close>

datatype business_error =
    BadToken                      \<comment> \<open>business identifiers must be bounded ASCII tokens\<close>
  | CapabilitiesInvalid           \<comment> \<open>one to sixteen distinct capabilities\<close>
  | ServicesInvalid               \<comment> \<open>one to 256 services with unique ids\<close>
  | GrantUnsupported              \<comment> \<open>unsupported Home service grant\<close>
  | ServiceOutsideGrant           \<comment> \<open>Home advertises a service outside its signed grant\<close>
  | GrantBindingMismatch          \<comment> \<open>grant does not bind this serving-only endpoint\<close>
  | GrantNotCurrent               \<comment> \<open>grant is not currently valid\<close>
  | DescriptorUnsupported         \<comment> \<open>unsupported business descriptor\<close>
  | DescriptorApprover            \<comment> \<open>approval Home does not match its grant issuer\<close>
  | DescriptorService             \<comment> \<open>descriptor requests an unapproved service\<close>
  | ApprovalUnsupported           \<comment> \<open>unsupported or invalid approval\<close>
  | ApprovalUntrusted             \<comment> \<open>approval has an untrusted authority\<close>
  | ApprovalExceedsIssuer         \<comment> \<open>approval exceeds its issuing Home authorization\<close>
  | ApprovalMismatch              \<comment> \<open>approval does not match the exact request\<close>
  | KeySizeInvalid                \<comment> \<open>invalid signature or public key size\<close>
  | ClassTrustInactive            \<comment> \<open>service class deployment trust is not active\<close>
  | ClassNeedsGlobal              \<comment> \<open>service class approval requires the requested Global issuer\<close>

datatype stats_error =
    ReportShape                   \<comment> \<open>statistics report shape is invalid\<close>
  | ReportDimension               \<comment> \<open>statistics report dimension is invalid\<close>
  | ReportAggregate               \<comment> \<open>aggregates are inconsistent\<close>
  | ReportConflict                \<comment> \<open>conflicting reports use the same revision\<close>
  | ReportWindow                  \<comment> \<open>outside the accepted time window\<close>
  | ReportOwnership               \<comment> \<open>metric family is not owned by this reporter role\<close>
  | KeyPartTooLong                \<comment> \<open>ordered key part exceeds 65535 bytes\<close>
  | ReporterInconsistent          \<comment> \<open>reporter identity is inconsistent\<close>
  | ReporterInactive              \<comment> \<open>reporter has no active Travel credential\<close>
  | ReportUnbound                 \<comment> \<open>report is not bound to the authenticated control peer\<close>
  | OutboxInvalid                 \<comment> \<open>the outbox contains an invalid value\<close>
  | CertificateOversized          \<comment> \<open>signing certificate is missing or oversized\<close>

datatype ledger_error =
    RequestIdReused               \<comment> \<open>request id was reused with different request content\<close>
  | AlreadyInLedger               \<comment> \<open>ledger already contains this enrollment request\<close>
  | NotInLedger                   \<comment> \<open>ledger does not contain credential\<close>
  | LedgerGenerationZero          \<comment> \<open>published generation must be non-zero\<close>
  | LedgerVersion                 \<comment> \<open>unsupported issuance ledger version\<close>
  | LedgerDuplicateCredential     \<comment> \<open>ledger contains a duplicate credential id\<close>
  | LedgerDuplicateRequest        \<comment> \<open>ledger contains a duplicate enrollment request\<close>
  | LedgerInconsistent            \<comment> \<open>inconsistent enrollment request in a record\<close>
  | LedgerInvalidRecord           \<comment> \<open>ledger contains an invalid record\<close>
  | ValidityBoth                  \<comment> \<open>specify either valid_days or valid_minutes, not both\<close>
  | MinutesOverflow               \<comment> \<open>Travel validity overflow\<close>
  | RequestedValidityRange        \<comment> \<open>validity must be between 1 minute or day and the maximum\<close>
  | ClassNeedsRequest             \<comment> \<open>class approval requires a complete class enrollment request\<close>
  | GlobalMissing                 \<comment> \<open>global super authorization is not configured\<close>
  | ScopeRefused                  \<comment> \<open>Home authority may sign only this Home's configured services\<close>
  | ScopeNotRequested             \<comment> \<open>enrollment must approve exactly what was requested\<close>
  | IntentMismatch                \<comment> \<open>request was already used for a different authorization\<close>
  | RecordInactive                \<comment> \<open>already issued, but its credential is no longer active\<close>
  | IssuerBusy                    \<comment> \<open>another sensitive issuer operation is already running\<close>
  | PasswordEmpty                 \<comment> \<open>private-key password must not be empty\<close>
  | PublicationFailed             \<comment> \<open>the Server did not confirm the signed credential\<close>
  | ListenInvalid                 \<comment> \<open>invalid Home UI listen address\<close>
  | ListenNotLoopback             \<comment> \<open>issuer UI must listen on a loopback address\<close>
  | DefaultValidityRange          \<comment> \<open>default validity must be between 1 day and the maximum\<close>
  | IssuerCaMismatch              \<comment> \<open>issuer CA certificates do not match deployment trust\<close>
  | IssuerUntrusted               \<comment> \<open>issuer authority is not trusted\<close>
  | IssuerWrongAuthority          \<comment> \<open>issuer authority does not match this Home's trusted authority\<close>
  | EnrollmentAuthorityMissing    \<comment> \<open>global issuer must configure Home enrollment authority material\<close>
  | EnrollmentAuthorityUntrusted  \<comment> \<open>Home enrollment authority is not trusted\<close>
  | EnrollmentAuthorityForeign    \<comment> \<open>Home enrollment authority is not assigned to this Home\<close>
  | TestKeysDisabled              \<comment> \<open>unencrypted issuer keys are disabled\<close>
  | RevocationReason              \<comment> \<open>revocation reason must contain 1 to 256 bytes\<close>
  | IssuerNotSynchronized         \<comment> \<open>Travel authorization has not synchronized\<close>
  | RevokedUnknown                \<comment> \<open>unknown Travel credential\<close>
  | RevokedElsewhere              \<comment> \<open>credential was not issued by this Home\<close>

datatype inbox_error =
    InboxRequestInvalid           \<comment> \<open>request is missing, oversized or unreadable\<close>
  | InboxOtherHome                \<comment> \<open>request or acknowledgement targets a different Home\<close>
  | InboxIdentityMismatch         \<comment> \<open>request does not match the authenticated transport identity\<close>
  | InboxTokenLength              \<comment> \<open>first enrollment retrieval token has an invalid length\<close>
  | InboxNeedsGlobal              \<comment> \<open>enrollment requires a global Home issuer\<close>
  | InboxConflict                 \<comment> \<open>conflicting reuse of remote enrollment request id\<close>
  | InboxFull                     \<comment> \<open>inbox capacity is exhausted\<close>
  | InboxUnknown                  \<comment> \<open>unknown remote enrollment request\<close>
  | InboxUnreadable               \<comment> \<open>inbox contains an invalid record\<close>
  | InboxAckIdentity              \<comment> \<open>acknowledgement identity does not match the inbox\<close>
  | InboxAckConflict              \<comment> \<open>conflicting installed credential acknowledgement\<close>
  | InboxNotApproved              \<comment> \<open>remote enrollment has no approved response\<close>
  | InboxCredentialMismatch       \<comment> \<open>installed credential does not match the approved response\<close>
  | InboxBindingInvalid           \<comment> \<open>inbox record has an invalid identity binding\<close>
  | PageInvalid                   \<comment> \<open>page or page_size is out of range\<close>

datatype key_error =
    KeyNotOpened                  \<comment> \<open>failed to open or inspect private key\<close>
  | KeyNotRegular                 \<comment> \<open>private key must be a regular file\<close>
  | KeyAccessible                 \<comment> \<open>private key must not be accessible by others\<close>
  | KeyNotOwned                   \<comment> \<open>private key must be owned by the current user\<close>
  | KeyTooLarge                   \<comment> \<open>private key exceeds 1 MiB\<close>
  | KeyNeedsPassword              \<comment> \<open>encrypted private key requires a password\<close>
  | KeyPemInvalid                 \<comment> \<open>private key PEM is unreadable\<close>
  | KeyLabelInvalid               \<comment> \<open>encrypted private key has an unexpected PEM label\<close>
  | KeyNotDecrypted               \<comment> \<open>failed to decrypt private key\<close>
  | KeyUnencrypted                \<comment> \<open>unencrypted private keys are forbidden\<close>
  | KeyNotEncrypted               \<comment> \<open>failed to re-encrypt private key\<close>
  | KeyChanged                    \<comment> \<open>staged private key changed key material\<close>
  | CurrentPasswordEmpty          \<comment> \<open>current private-key password must not be empty\<close>
  | NewPasswordShort              \<comment> \<open>new private-key password has too few characters\<close>
  | PasswordsEqual                \<comment> \<open>new password must differ from the current one\<close>
  | NoTargets                     \<comment> \<open>rotation requires at least one key\<close>
  | DirectoryUnresolved           \<comment> \<open>failed to resolve the directory\<close>
  | TargetNameInvalid             \<comment> \<open>private key has an invalid file name\<close>
  | TargetsApart                  \<comment> \<open>all rotated keys must be in one directory\<close>
  | TargetsNotUnique              \<comment> \<open>rotation targets must be unique\<close>
  | JournalExists                 \<comment> \<open>rotation journal already exists\<close>
  | JournalUnreadable             \<comment> \<open>failed to parse the rotation journal\<close>
  | JournalMismatch               \<comment> \<open>journal does not match this version or key set\<close>
  | JournalEntryInvalid           \<comment> \<open>journal contains an invalid entry\<close>
  | StagedHashMismatch            \<comment> \<open>staged key hash does not match the journal\<close>
  | UnsafeRecovery                \<comment> \<open>cannot determine a safe recovery state\<close>
  | SeveralJournals               \<comment> \<open>multiple journals require manual recovery\<close>

datatype home_error =
    CredentialRevoked             \<comment> \<open>Travel credential was revoked\<close>
  | CredentialExpired             \<comment> \<open>Travel credential expired\<close>
  | TargetConnectTimeout          \<comment> \<open>target TCP connection timed out\<close>
  | ServiceConnectFailed string   \<comment> \<open>failed to connect service (its id)\<close>
  | DrainTimeout                  \<comment> \<open>Carrier final acknowledgement drain timed out\<close>
  | WorkExpired                   \<comment> \<open>direct Relay work expired before Home connection\<close>
  | FirstFrameNotOpen             \<comment> \<open>first business frame must be OPEN\<close>
  | UnknownService                \<comment> \<open>unknown or mismatched service\<close>
  | ServiceNotAuthorized          \<comment> \<open>credential is not authorized for this logical service\<close>
  | PeerRoleMismatch              \<comment> \<open>peer role mismatch\<close>
  | PeerIdMismatch                \<comment> \<open>peer id mismatch\<close>
  | PeerSpkiMismatch              \<comment> \<open>peer SPKI is not allowlisted\<close>
  | InvalidUdpFrame               \<comment> \<open>invalid UDP flow frame\<close>
  | UdpIdle                       \<comment> \<open>UDP association idle timeout\<close>
  | UdpTimeout                    \<comment> \<open>UDP network or application write timed out\<close>
  | CarrierReceiverClosed         \<comment> \<open>carrier flow event receiver closed\<close>

datatype enroll_error =
    NoPeerCertificate             \<comment> \<open>peer presented no certificate\<close>
  | CertificateUnreadable         \<comment> \<open>failed to parse a certificate\<close>
  | IdentityRole                  \<comment> \<open>identity URI has an invalid role, or a role that is not admitted\<close>
  | IdentityEmpty                 \<comment> \<open>identity URI has an empty id\<close>
  | IdentityRepeated              \<comment> \<open>certificate must contain exactly one identity URI\<close>
  | IdentityMissing               \<comment> \<open>certificate has no FlowSplice URI SAN\<close>
  | ValidityBeforeEpoch           \<comment> \<open>certificate validity predates the Unix epoch\<close>
  | NoCertificateInPem            \<comment> \<open>PEM contains no certificate\<close>
  | SeveralCertificates           \<comment> \<open>PEM must contain exactly one certificate\<close>
  | PemUnreadable                 \<comment> \<open>failed to parse PEM\<close>
  | TrustAnchorInvalid            \<comment> \<open>CA contains an invalid trust anchor\<close>
  | NotChained                    \<comment> \<open>certificate does not chain to its CA\<close>
  | KeyUsageInvalid               \<comment> \<open>leaf certificate lacks an extended key usage\<close>
  | KeyFileUnsafe                 \<comment> \<open>private key must be a private regular file of the user\<close>
  | RequestInvalid                \<comment> \<open>unsupported or invalid enrollment request\<close>
  | TravelIdInvalid               \<comment> \<open>Travel id has an invalid character or length\<close>
  | RequestStale                  \<comment> \<open>enrollment request is stale or from the future\<close>
  | CsrInvalid                    \<comment> \<open>invalid CSR or proof of possession\<close>
  | CsrAlgorithm                  \<comment> \<open>CSR must use ECDSA P-256/SHA-256\<close>
  | CsrIdentity                   \<comment> \<open>CSR has an invalid FlowSplice identity\<close>
  | KeysNotDistinct               \<comment> \<open>management and business enrollment keys must be distinct\<close>
  | ApprovalInvalid               \<comment> \<open>unsupported or invalid enrollment approval\<close>
  | ValidityRange                 \<comment> \<open>validity must be between 1 second and the maximum\<close>
  | ValidityOverflow              \<comment> \<open>Travel validity overflow\<close>
  | IntervalInvalid               \<comment> \<open>enrollment approval has an invalid validity interval\<close>
  | ResponseInvalid               \<comment> \<open>unsupported or invalid enrollment response\<close>
  | ResponseNotYetValid           \<comment> \<open>enrollment response is not yet valid\<close>
  | ResponseExpired               \<comment> \<open>enrollment response is already expired\<close>
  | OutsideAuthorityWindow        \<comment> \<open>validity is outside the deployment-trusted authority window\<close>
  | WrongResponseAuthority        \<comment> \<open>signed Travel credential has the wrong authority id\<close>
  | ExceedsEndpoint               \<comment> \<open>validity exceeds the issuing Home endpoint validity\<close>
  | AuthorityUntrusted            \<comment> \<open>Travel authority is not trusted\<close>
  | CredentialMismatch            \<comment> \<open>signed Travel credential does not match the approved request\<close>
  | IssuedCertificateMismatch     \<comment> \<open>issued certificate does not match its approved credential\<close>
  | LocalMismatch                 \<comment> \<open>enrollment response does not match the local enrollment request\<close>
  | LocalKeyMismatch              \<comment> \<open>local private key does not match enrollment state\<close>
  | ConflictingFile               \<comment> \<open>refusing to replace conflicting enrollment file\<close>
  | CaMismatch                    \<comment> \<open>issuer CA certificates do not match deployment trust\<close>
  | CaKeyMismatch                 \<comment> \<open>CA certificate does not match its private key\<close>
  | CaIssuerInvalid               \<comment> \<open>failed to load CA issuer\<close>
  | LeafTimeInvalid               \<comment> \<open>a leaf validity is outside the range of dates\<close>
  | LeafSigning                   \<comment> \<open>failed to sign a certificate\<close>
  | KeyUnreadable                 \<comment> \<open>failed to parse a private key\<close>
  | AuthorityKeyMismatch          \<comment> \<open>authorization private key does not match the expected public key\<close>
  | EnrollmentFormat              \<comment> \<open>unsupported business enrollment format\<close>
  | ClientLabelInvalid            \<comment> \<open>client label must contain 1 to 64 bytes without control characters\<close>
  | OtherApprover                 \<comment> \<open>enrollment targets a different approving Home\<close>
  | RequestSubstituted            \<comment> \<open>response substituted the enrollment request\<close>
  | EnrollmentDisagrees           \<comment> \<open>approval and certificate enrollment disagree\<close>
  | ApprovalNotExact              \<comment> \<open>approval must name exactly what was requested\<close>
  | UnexpectedApprover            \<comment> \<open>approved by an unexpected Home or authority\<close>

datatype error =
    Io io_kind
  | Flow flow_error
  | Auth auth_error
  | AuthUse auth_use_error
  | Deploy deploy_error
  | Control control_error
  | Server server_error
  | Relay relay_error
  | Business business_error
  | Stats stats_error
  | Ledger ledger_error
  | Inbox inbox_error
  | Key key_error
  | Serving home_error
  | Enroll enroll_error

type_synonym 'a res = "('a, error) result"

end
