(* ===== verification/Protocol.thy ===== *)
theory Protocol
  imports Errors
begin

text \<open>
  The wire data of FlowSplice (\<open>internal/flowsplice-core/src/protocol.rs\<close> and the signed
  objects of \<open>authorization.rs\<close>, \<open>deployment.rs\<close> and \<open>business.rs\<close>): roles, services, the
  catalog and Relay directory, the business-data frames, and the records that carry a signed
  payload as hexadecimal text. Field names carry a short prefix for their struct.
\<close>

section \<open>Constants\<close>

definition DATA_FRAME_LIMIT :: nat where "DATA_FRAME_LIMIT = 1024 * 1024"
definition MAX_DATA_PAYLOAD :: nat where "MAX_DATA_PAYLOAD = 64 * 1024"
definition DATA_PROTOCOL_BINARY_V1 :: u16 where "DATA_PROTOCOL_BINARY_V1 = 1"

section \<open>Roles, services, catalog and directory\<close>

datatype role = RServer | RRelay | RHome | RTravel

fun as_uri_part :: "role \<Rightarrow> string" where
  "as_uri_part RServer = ''server''"
| "as_uri_part RRelay = ''relay''"
| "as_uri_part RHome = ''home''"
| "as_uri_part RTravel = ''travel''"

datatype service_protocol = Tcp | Udp

record service =
  svc_id :: string
  svc_alias :: string
  svc_protocol :: service_protocol
  svc_target :: string

record signed_home_endpoint_credential =
  she_authority_id :: string
  she_payload_hex :: string
  she_signature_hex :: string

record signed_home_service_grant =
  shg_authority_id :: string
  shg_payload_hex :: string
  shg_signature_hex :: string

record home_catalog =
  hc_home_id :: string
  hc_home_alias :: string
  hc_endpoint_credential :: "signed_home_endpoint_credential option"
  hc_service_grant :: "signed_home_service_grant option"
  hc_services :: "service list"

record catalog =
  cat_generation :: u64
  cat_homes :: "home_catalog list"

record relay_endpoint =
  re_id :: string
  re_management_addr :: string
  re_data_public_addr :: string
  re_management_spki_sha256 :: string

record relay_directory =
  rd_generation :: u64
  rd_relays :: "relay_endpoint list"

section \<open>Business-data frames\<close>

datatype data_frame =
    Open uuid uuid string service_protocol u16  \<comment> \<open>flow, carrier, service, protocol, version\<close>
  | OpenOk uuid uuid u64 u64 u16                \<comment> \<open>flow, carrier, receive offset, send offset, version\<close>
  | OpenError uuid uuid string                  \<comment> \<open>flow, carrier, reason\<close>
  | Race uuid uuid u64                          \<comment> \<open>flow, race, next offset\<close>
  | RaceAck uuid uuid uuid                      \<comment> \<open>flow, race, winning carrier\<close>
  | RaceDuplicate uuid uuid uuid                \<comment> \<open>flow, race, winning carrier\<close>
  | Data uuid u64 bytes                         \<comment> \<open>flow, offset, bytes\<close>
  | Ack uuid u64                                \<comment> \<open>flow, next offset\<close>
  | Duplicate uuid u64 uuid                     \<comment> \<open>flow, next offset, winning carrier\<close>
  | Datagram uuid u64 bytes                     \<comment> \<open>flow, sequence, bytes\<close>
  | Fin uuid u64                                \<comment> \<open>flow, final offset\<close>
  | FinAck uuid u64                             \<comment> \<open>flow, final offset\<close>
  | Close uuid string                           \<comment> \<open>flow, reason\<close>
  | Ping u64
  | Pong u64

section \<open>Signed objects\<close>

datatype travel_credential_scope =
    ScopeGlobal
  | ScopeServiceClass string service_protocol         \<comment> \<open>application protocol, transport\<close>
  | ScopeHome string                                  \<comment> \<open>Home id\<close>
  | ScopeService string string service_protocol       \<comment> \<open>Home id, service id, transport\<close>

record authority_data =
  ta_id_field :: string
  ta_epoch_field :: u64
  ta_home_id_field :: string
  ta_public_key_field :: string

datatype trusted_travel_authority = AuthorityGlobal authority_data | AuthorityHome authority_data

record travel_credential =
  tc_version :: u32
  tc_object_type :: string
  tc_deployment_id :: string
  tc_deployment_trust_sha256 :: string
  tc_credential_id :: uuid
  tc_authority_id :: string
  tc_authority_epoch :: u64
  tc_enrollment_request_id :: uuid
  tc_enrollment_nonce :: string
  tc_enrollment_request_sha256 :: string
  tc_travel_id :: string
  tc_management_spki_sha256 :: string
  tc_business_spki_sha256 :: string
  tc_management_ca_sha256 :: string
  tc_business_ca_sha256 :: string
  tc_management_certificate_sha256 :: string
  tc_business_certificate_sha256 :: string
  tc_scope :: travel_credential_scope
  tc_not_before_unix_secs :: u64
  tc_not_after_unix_secs :: u64

record signed_travel_credential =
  stc_authority_id :: string
  stc_payload_hex :: string
  stc_signature_hex :: string

record travel_revocation =
  rv_credential_id :: uuid
  rv_revoked_at_unix_secs :: u64
  rv_reason :: string

record travel_authorization_snapshot =
  tas_generation :: u64
  tas_home_endpoint_credentials :: "signed_home_endpoint_credential list"
  tas_credentials :: "signed_travel_credential list"
  tas_revocations :: "travel_revocation list"

end
