(* ===== verification/Flow_Window.thy ===== *)
theory Flow_Window
  imports Protocol
begin

text \<open>
  The reliability window both ends of a TCP flow keep (\<open>tcp_flow.rs\<close> of Home and of Travel): the
  segments sent but not acknowledged, the loop that retires acknowledged segments, and what a
  window says about the byte stream it was cut from. The stream is the list of the chunks read
  from the local socket, so a window is a suffix of that list. The locale \<open>send_window\<close> is what
  a flow endpoint promises about its window; Home and Travel interpret it.
\<close>

section \<open>Segments and acknowledgements\<close>

record segment =
  seg_offset :: u64
  seg_bytes :: bytes

definition seg_end :: "segment \<Rightarrow> u64" where
  "seg_end s = sat_add (seg_offset s) (len64 (seg_bytes s))"

text \<open>The \<open>while let Some(segment) = unacked.front()\<close> loop of \<open>acknowledge\<close>.\<close>

fun pop_acked :: "u64 \<Rightarrow> segment list \<Rightarrow> nat \<Rightarrow> segment list \<times> nat" where
  "pop_acked n [] ub = ([], ub)"
| "pop_acked n (s # ss) ub =
     (if n < seg_end s then (s # ss, ub) else pop_acked n ss (ub - length (seg_bytes s)))"

fun front_before :: "segment list \<Rightarrow> u64 \<Rightarrow> bool" where
  "front_before [] n = False"
| "front_before (s # ss) n \<longleftrightarrow> seg_offset s < n"

text \<open>The frames \<open>retransmit\<close> sends: every unacknowledged segment, then the end of stream.\<close>

definition retransmit_frames :: "uuid \<Rightarrow> segment list \<Rightarrow> bool \<Rightarrow> u64 \<Rightarrow> data_frame list" where
  "retransmit_frames flow_id unacked eof send_offset =
     map (\<lambda>s. Data flow_id (seg_offset s) (seg_bytes s)) unacked
       @ (if eof then [Fin flow_id send_offset] else [])"

text \<open>The sending half of a carrier's \<open>mpsc\<close> channel.\<close>

record carrier_tx =
  tx_open :: bool
  tx_queue :: "data_frame list"

definition tx_send :: "data_frame \<Rightarrow> carrier_tx \<Rightarrow> carrier_tx" where
  "tx_send frame tx = (if tx_open tx then tx\<lparr>tx_queue := tx_queue tx @ [frame]\<rparr> else tx)"

section \<open>Chunks of a stream\<close>

definition chunk_pos :: "bytes list \<Rightarrow> nat \<Rightarrow> nat" where
  "chunk_pos C k = length (concat (take k C))"

text \<open>A stream a flow can carry: chunks as the readers produce them, fewer than \<open>2^64\<close> bytes.\<close>

definition stream_ok :: "bytes list \<Rightarrow> bool" where
  "stream_ok C \<longleftrightarrow> list_all (\<lambda>c. c \<noteq> [] \<and> length c \<le> MAX_DATA_PAYLOAD) C
     \<and> length (concat C) < 2 ^ 64"

fun segs_from :: "nat \<Rightarrow> bytes list \<Rightarrow> segment list" where
  "segs_from a [] = []"
| "segs_from a (c # cs) = \<lparr>seg_offset = word_of_nat a, seg_bytes = c\<rparr> # segs_from (a + length c) cs"

record window =
  wn_unacked :: "segment list"
  wn_unacked_bytes :: nat
  wn_send_acked :: u64
  wn_send_offset :: u64

definition window_at :: "bytes list \<Rightarrow> nat \<Rightarrow> window \<Rightarrow> bool" where
  "window_at C k w \<longleftrightarrow> k \<le> length C
     \<and> wn_unacked w = segs_from (chunk_pos C k) (drop k C)
     \<and> wn_unacked_bytes w = length (concat (drop k C))
     \<and> unat (wn_send_acked w) = chunk_pos C k
     \<and> unat (wn_send_offset w) = length (concat C)"

definition window_ok :: "bytes list \<Rightarrow> window \<Rightarrow> bool" where
  "window_ok C w \<longleftrightarrow> (\<exists>k. window_at C k w)"

definition window_push :: "bytes \<Rightarrow> window \<Rightarrow> window" where
  "window_push b w = w\<lparr>wn_unacked := wn_unacked w @ [\<lparr>seg_offset = wn_send_offset w, seg_bytes = b\<rparr>],
     wn_unacked_bytes := wn_unacked_bytes w + length b,
     wn_send_offset := sat_add (wn_send_offset w) (len64 b)\<rparr>"

definition window_ack :: "u64 \<Rightarrow> window \<Rightarrow> window res" where
  "window_ack n w =
     (let (ss, ub) = pop_acked n (wn_unacked w) (wn_unacked_bytes w)
      in if front_before ss n then Err (Flow AckSplitFrame)
         else Ok (w\<lparr>wn_unacked := ss, wn_unacked_bytes := ub, wn_send_acked := n\<rparr>))"

definition window_init :: window where
  "window_init = \<lparr>wn_unacked = [], wn_unacked_bytes = 0, wn_send_acked = 0, wn_send_offset = 0\<rparr>"

section \<open>Positions\<close>

lemma chunk_pos_0 [simp]: "chunk_pos C 0 = 0"
  by (simp add: chunk_pos_def)

lemma chunk_pos_all: "length C \<le> k \<Longrightarrow> chunk_pos C k = length (concat C)"
  by (simp add: chunk_pos_def)

lemma chunk_pos_Suc: "k < length C \<Longrightarrow> chunk_pos C (Suc k) = chunk_pos C k + length (C ! k)"
  by (simp add: chunk_pos_def take_Suc_conv_app_nth)

lemma chunk_pos_le: "chunk_pos C k \<le> length (concat C)"
proof -
  have "length (concat C) = length (concat (take k C)) + length (concat (drop k C))"
    by (metis append_take_drop_id concat_append length_append)
  then show ?thesis by (simp add: chunk_pos_def)
qed

lemma chunk_pos_append [simp]: "k \<le> length C \<Longrightarrow> chunk_pos (C @ D) k = chunk_pos C k"
  by (simp add: chunk_pos_def)

lemma chunk_pos_mono: "j \<le> k \<Longrightarrow> chunk_pos C j \<le> chunk_pos C k"
  by (metis chunk_pos_def chunk_pos_le min.absorb1 take_take)

lemma chunk_pos_less:
  assumes "stream_ok C" "j < k" "k \<le> length C"
  shows "chunk_pos C j < chunk_pos C k"
proof -
  have "C ! j \<noteq> []"
    using assms by (simp add: stream_ok_def list_all_length)
  then have "chunk_pos C j < chunk_pos C (Suc j)"
    using assms by (simp add: chunk_pos_Suc)
  also have "\<dots> \<le> chunk_pos C k"
    using assms(2) by (intro chunk_pos_mono) simp
  finally show ?thesis .
qed

lemma chunk_pos_inj:
  "\<lbrakk>stream_ok C; j \<le> length C; k \<le> length C\<rbrakk> \<Longrightarrow> chunk_pos C j = chunk_pos C k \<longleftrightarrow> j = k"
  using chunk_pos_less [of C j k] chunk_pos_less [of C k j] by (cases j k rule: linorder_cases) auto

lemma chunk_pos_le_iff:
  "\<lbrakk>stream_ok C; j \<le> length C; k \<le> length C\<rbrakk> \<Longrightarrow> chunk_pos C j \<le> chunk_pos C k \<longleftrightarrow> j \<le> k"
  using chunk_pos_less [of C k j] chunk_pos_mono [of j k C] by (metis leD linorder_not_le)

lemma chunk_pos_lt64: "stream_ok C \<Longrightarrow> chunk_pos C k < 2 ^ 64"
  using chunk_pos_le [of C k] by (simp add: stream_ok_def)

lemma unat_pos: "stream_ok C \<Longrightarrow> unat (word_of_nat (chunk_pos C k) :: u64) = chunk_pos C k"
  using chunk_pos_lt64 [of C k] by (simp add: unat_of_nat)

lemma word_pos: "unat (x :: u64) = n \<Longrightarrow> word_of_nat n = x"
  by auto

lemma unat_sat_add_len64:
  assumes "unat x + length b < 2 ^ 64"
  shows "unat (sat_add x (len64 b)) = unat x + length b"
  using assms by (simp add: unat_sat_add unat_len64)

lemma stream_ok_prefix: "stream_ok (C @ D) \<Longrightarrow> stream_ok C"
  by (simp add: stream_ok_def)

lemma stream_ok_nth: "stream_ok C \<Longrightarrow> k < length C \<Longrightarrow> C ! k \<noteq> [] \<and> length (C ! k) \<le> MAX_DATA_PAYLOAD"
  by (simp add: stream_ok_def list_all_length)

lemma stream_ok_Nil: "stream_ok []"
  by (simp add: stream_ok_def)

section \<open>Segments of a suffix\<close>

lemma segs_from_append: "segs_from a (C @ D) = segs_from a C @ segs_from (a + length (concat C)) D"
  by (induction C arbitrary: a) (auto simp: add.assoc)

lemma segs_from_drop:
  "k < length C \<Longrightarrow> segs_from (chunk_pos C k) (drop k C) =
     \<lparr>seg_offset = word_of_nat (chunk_pos C k), seg_bytes = C ! k\<rparr>
       # segs_from (chunk_pos C (Suc k)) (drop (Suc k) C)"
  by (simp add: Cons_nth_drop_Suc [symmetric] chunk_pos_Suc)

lemma segs_from_set:
  assumes "s \<in> set (segs_from (chunk_pos C k) (drop k C))"
  shows "\<exists>j. k \<le> j \<and> j < length C \<and> s = \<lparr>seg_offset = word_of_nat (chunk_pos C j), seg_bytes = C ! j\<rparr>"
  using assms
proof (induction "length C - k" arbitrary: k)
  case 0
  then show ?case by simp
next
  case (Suc n)
  then have k: "k < length C" by simp
  with Suc.prems show ?case
    using Suc.hyps(1) [of "Suc k"] Suc.hyps(2) Suc_leD
    by (fastforce simp: segs_from_drop)
qed

lemma seg_end_pos:
  assumes "stream_ok C" "j < length C"
  shows "unat (seg_end \<lparr>seg_offset = word_of_nat (chunk_pos C j), seg_bytes = C ! j\<rparr>) = chunk_pos C (Suc j)"
proof -
  have "chunk_pos C j + length (C ! j) < 2 ^ 64"
    using chunk_pos_lt64 [OF assms(1), of "Suc j"] assms(2) by (simp add: chunk_pos_Suc)
  then show ?thesis
    using assms by (simp add: seg_end_def unat_sat_add_len64 unat_pos chunk_pos_Suc)
qed

lemma concat_drop_Suc:
  "k < length C \<Longrightarrow> length (concat (drop k C)) = length (C ! k) + length (concat (drop (Suc k) C))"
  by (metis Cons_nth_drop_Suc concat.simps(2) length_append)

lemma pop_acked_between:
  assumes "stream_ok C" "k \<le> j" "j \<le> length C"
    and "chunk_pos C j \<le> unat n" "j < length C \<Longrightarrow> unat n < chunk_pos C (Suc j)"
  shows "pop_acked n (segs_from (chunk_pos C k) (drop k C)) (length (concat (drop k C)))
     = (segs_from (chunk_pos C j) (drop j C), length (concat (drop j C)))"
  using assms(2)
proof (induction "length C - k" arbitrary: k)
  case 0
  with assms(3) show ?case by simp
next
  case (Suc d)
  then have k: "k < length C" by simp
  let ?s = "\<lparr>seg_offset = word_of_nat (chunk_pos C k), seg_bytes = C ! k\<rparr> :: segment"
  show ?case
  proof (cases "j = k")
    case True
    with k assms(5) seg_end_pos [OF assms(1) k] show ?thesis
      by (simp add: segs_from_drop word_less_nat_alt)
  next
    case False
    with Suc.prems have j: "Suc k \<le> j" by simp
    then have "chunk_pos C (Suc k) \<le> unat n"
      using chunk_pos_mono [OF j, of C] assms(4) by simp
    then have "\<not> n < seg_end ?s"
      using seg_end_pos [OF assms(1) k] by (simp add: word_less_nat_alt)
    with j k Suc.hyps(1) [of "Suc k"] Suc.hyps(2) show ?thesis
      by (simp add: segs_from_drop concat_drop_Suc)
  qed
qed

lemma pop_acked_pos:
  assumes "stream_ok C" "k \<le> j" "j \<le> length C" "unat n = chunk_pos C j"
  shows "pop_acked n (segs_from (chunk_pos C k) (drop k C)) (length (concat (drop k C)))
     = (segs_from (chunk_pos C j) (drop j C), length (concat (drop j C)))"
  using assms chunk_pos_less [OF assms(1), of j "Suc j"] by (intro pop_acked_between) auto

text \<open>The last chunk boundary at or before a position.\<close>

lemma boundary_before:
  assumes "chunk_pos C k \<le> n" "k \<le> length C"
  shows "\<exists>j. k \<le> j \<and> j \<le> length C \<and> chunk_pos C j \<le> n \<and> (j < length C \<longrightarrow> n < chunk_pos C (Suc j))"
  using assms
proof (induction "length C - k" arbitrary: k)
  case 0
  then show ?case by auto
next
  case (Suc d)
  then have k: "k < length C" by simp
  show ?case
  proof (cases "n < chunk_pos C (Suc k)")
    case True
    with k Suc.prems show ?thesis by auto
  next
    case False
    with k Suc.hyps(1) [of "Suc k"] Suc.hyps(2) show ?thesis
      by (metis Suc_diff_Suc Suc_leI diff_Suc_1 not_less Suc_leD)
  qed
qed

lemma front_before_pos:
  assumes "stream_ok C" "j \<le> length C" "unat n = chunk_pos C j"
  shows "\<not> front_before (segs_from (chunk_pos C j) (drop j C)) n"
proof (cases "j < length C")
  case True
  then show ?thesis
    using assms by (simp add: segs_from_drop word_less_nat_alt unat_pos)
next
  case False
  with assms(2) show ?thesis by simp
qed

section \<open>The window follows the stream\<close>

lemma window_ok_init: "window_ok [] window_init"
  by (simp add: window_ok_def window_at_def window_init_def)

lemma window_at_push:
  assumes "window_at C k w" "stream_ok (C @ [b])"
  shows "window_at (C @ [b]) k (window_push b w)"
proof -
  have k: "k \<le> length C" "unat (wn_send_offset w) = length (concat C)"
    using assms(1) by (auto simp: window_at_def)
  have sum: "chunk_pos C k + length (concat (drop k C)) = length (concat C)"
    by (metis append_take_drop_id chunk_pos_def concat_append length_append)
  have "unat (sat_add (wn_send_offset w) (len64 b)) = length (concat C) + length b"
    using assms(2) k by (subst unat_sat_add_len64) (auto simp: stream_ok_def)
  with assms k sum show ?thesis
    by (simp add: window_at_def window_push_def segs_from_append word_pos)
qed

lemma window_at_ack:
  assumes "window_at C k w" "stream_ok C" "k \<le> j" "j \<le> length C" "unat n = chunk_pos C j"
  shows "\<exists>w'. window_ack n w = Ok w' \<and> window_at C j w' \<and> wn_send_acked w' = n"
  using assms pop_acked_pos [OF assms(2, 3, 4, 5)] front_before_pos [OF assms(2, 4, 5)]
  by (simp add: window_ack_def window_at_def)

lemma window_at_unique:
  assumes "window_at C k w" "window_at C j w" "stream_ok C"
  shows "k = j"
  using assms chunk_pos_inj [of C k j] by (auto simp: window_at_def)

lemma window_ok_bounds:
  assumes "window_ok C w" "stream_ok C"
  shows "wn_send_acked w \<le> wn_send_offset w"
    and "unat (wn_send_acked w) + wn_unacked_bytes w = unat (wn_send_offset w)"
proof -
  obtain k where k: "window_at C k w" using assms by (auto simp: window_ok_def)
  have "chunk_pos C k + length (concat (drop k C)) = length (concat C)"
    by (metis append_take_drop_id chunk_pos_def concat_append length_append)
  with k show "wn_send_acked w \<le> wn_send_offset w"
    and "unat (wn_send_acked w) + wn_unacked_bytes w = unat (wn_send_offset w)"
    by (auto simp: window_at_def word_le_nat_alt)
qed

lemma window_ok_empty:
  assumes "window_ok C w" "stream_ok C" "wn_unacked w = []"
  shows "wn_send_acked w = wn_send_offset w"
proof -
  obtain k where k: "window_at C k w" using assms by (auto simp: window_ok_def)
  then have "k = length C"
    using assms(3) by (cases "k < length C") (auto simp: window_at_def segs_from_drop)
  with k show ?thesis
    by (auto simp: window_at_def chunk_pos_all word_unat_eq_iff)
qed

text \<open>An acknowledgement in range either lands on a chunk boundary or splits a frame.\<close>

lemma window_ack_cases:
  assumes "window_at C k w" "stream_ok C" "wn_send_acked w \<le> n" "n \<le> wn_send_offset w"
  shows "(\<exists>j w'. k \<le> j \<and> j \<le> length C \<and> unat n = chunk_pos C j \<and> window_ack n w = Ok w'
            \<and> window_at C j w' \<and> wn_send_acked w' = n)
       \<or> (\<forall>j \<le> length C. unat n \<noteq> chunk_pos C j) \<and> window_ack n w = Err (Flow AckSplitFrame)"
proof -
  have k: "k \<le> length C" "chunk_pos C k \<le> unat n" "unat n \<le> length (concat C)"
    using assms by (auto simp: window_at_def word_le_nat_alt)
  then obtain j where j: "k \<le> j" "j \<le> length C" "chunk_pos C j \<le> unat n"
      "j < length C \<Longrightarrow> unat n < chunk_pos C (Suc j)"
    using boundary_before by blast
  show ?thesis
  proof (cases "unat n = chunk_pos C j")
    case True
    then show ?thesis
      using window_at_ack [OF assms(1, 2) j(1, 2)] j by blast
  next
    case False
    with j k have lt: "j < length C" "chunk_pos C j < unat n"
      by (cases "j < length C", auto simp: chunk_pos_all)
    have "unat n \<noteq> chunk_pos C i" if "i \<le> length C" for i
      using lt j(4) chunk_pos_le_iff [OF assms(2) that, of j] chunk_pos_le_iff [OF assms(2) _ that, of "Suc j"]
      by (metis Suc_leI j(2) not_less not_less_eq_eq)
    moreover have "front_before (segs_from (chunk_pos C j) (drop j C)) n"
      using lt assms(2) by (simp add: segs_from_drop word_less_nat_alt unat_pos)
    ultimately show ?thesis
      using pop_acked_between [OF assms(2) j(1, 2, 3)] j(4) assms(1)
      by (simp add: window_ack_def window_at_def)
  qed
qed

section \<open>What an endpoint promises of its window\<close>

datatype window_op = PushOp bytes | AckOp u64

fun pushed :: "window_op list \<Rightarrow> bytes list" where
  "pushed [] = []"
| "pushed (PushOp b # ops) = b # pushed ops"
| "pushed (AckOp n # ops) = pushed ops"

locale send_window =
  fixes view :: "'s \<Rightarrow> window"
    and max_unacked :: "'c \<Rightarrow> nat"
    and on_data :: "'c \<Rightarrow> bytes \<Rightarrow> 's \<Rightarrow> 's \<times> unit res"
    and on_ack :: "u64 \<Rightarrow> 's \<Rightarrow> 's \<times> unit res"
  assumes on_data_ok: "on_data c b s = (s', Ok u) \<Longrightarrow>
        view s' = window_push b (view s) \<and> wn_unacked_bytes (view s) + length b \<le> max_unacked c"
    and on_data_limit: "wn_unacked_bytes (view s) + length b \<le> max_unacked c \<Longrightarrow>
        snd (on_data c b s) = Ok ()"
    and on_ack_ok: "on_ack n s = (s', Ok u) \<Longrightarrow> window_ack n (view s) = Ok (view s')"
    and on_ack_total: "window_ack n (view s) = Ok w \<Longrightarrow> snd (on_ack n s) = Ok ()"
begin

text \<open>Operations in the order the endpoint performs them; an acknowledgement outside
  \<open>send_acked..=send_offset\<close> does not reach \<open>on_ack\<close>.\<close>

fun run_ops :: "'c \<Rightarrow> window_op list \<Rightarrow> 's \<Rightarrow> 's option" where
  "run_ops c [] s = Some s"
| "run_ops c (PushOp b # ops) s =
     (case on_data c b s of (s', Ok u) \<Rightarrow> run_ops c ops s' | (s', Err e) \<Rightarrow> None)"
| "run_ops c (AckOp n # ops) s =
     (if wn_send_acked (view s) \<le> n \<and> n \<le> wn_send_offset (view s)
      then (case on_ack n s of (s', Ok u) \<Rightarrow> run_ops c ops s' | (s', Err e) \<Rightarrow> None)
      else None)"

lemma run_window_ok:
  assumes "run_ops c ops s = Some s'" "window_ok C (view s)" "stream_ok (C @ pushed ops)"
    and "wn_unacked_bytes (view s) \<le> max_unacked c"
  shows "window_ok (C @ pushed ops) (view s') \<and> wn_unacked_bytes (view s') \<le> max_unacked c"
  using assms
proof (induction ops arbitrary: s C rule: pushed.induct)
  case 1
  then show ?case by simp
next
  case (2 b ops)
  then obtain s1 where s1: "on_data c b s = (s1, Ok ())" "run_ops c ops s1 = Some s'"
    by (auto split: prod.splits result.splits)
  from on_data_ok [OF s1(1)] have v: "view s1 = window_push b (view s)"
    and l: "wn_unacked_bytes (view s) + length b \<le> max_unacked c" by auto
  have ok: "stream_ok (C @ [b])"
    using "2.prems"(3) stream_ok_prefix [of "C @ [b]" "pushed ops"] by simp
  then have "window_ok (C @ [b]) (view s1)"
    using "2.prems"(2) v window_at_push unfolding window_ok_def by metis
  then show ?case
    using "2.IH" [OF s1(2), of "C @ [b]"] "2.prems"(3) v l by (simp add: window_push_def)
next
  case (3 n ops)
  then obtain s1 where s1: "on_ack n s = (s1, Ok ())" "run_ops c ops s1 = Some s'"
    and r: "wn_send_acked (view s) \<le> n" "n \<le> wn_send_offset (view s)"
    by (auto split: prod.splits result.splits if_splits)
  have ok: "stream_ok C"
    using "3.prems"(3) stream_ok_prefix [of C] by simp
  obtain k where k: "window_at C k (view s)"
    using "3.prems"(2) by (auto simp: window_ok_def)
  from window_ack_cases [OF k ok r] on_ack_ok [OF s1(1)]
  obtain j where j: "k \<le> j" "window_at C j (view s1)" by auto
  then have "wn_unacked_bytes (view s1) \<le> wn_unacked_bytes (view s)"
    using k chunk_pos_mono [OF j(1), of C] window_ok_bounds(2) [of C "view s1"] ok
      window_ok_bounds(2) [of C "view s"] by (fastforce simp: window_at_def window_ok_def)
  then show ?case
    using "3.IH" [OF s1(2), of C] j "3.prems"(3, 4) by (auto simp: window_ok_def)
qed

end

section \<open>What an endpoint promises as a receiver\<close>

definition received :: "bytes list \<Rightarrow> nat \<Rightarrow> bytes \<Rightarrow> u64 \<Rightarrow> bool" where
  "received C j out recv \<longleftrightarrow> j \<le> length C \<and> unat recv = chunk_pos C j \<and> out = concat (take j C)"

lemma received_offset:
  assumes "received C j out recv" "stream_ok C" "k < length C"
  shows "word_of_nat (chunk_pos C k) = recv \<longleftrightarrow> k = j"
    and "sat_add (word_of_nat (chunk_pos C k)) (len64 (C ! k)) \<le> recv \<longleftrightarrow> k < j"
proof -
  have j: "j \<le> length C" "unat recv = chunk_pos C j"
    using assms(1) by (auto simp: received_def)
  have "word_of_nat (chunk_pos C k) = recv \<longleftrightarrow> chunk_pos C k = chunk_pos C j"
    using j assms(2) by (metis unat_pos word_pos)
  then show "word_of_nat (chunk_pos C k) = recv \<longleftrightarrow> k = j"
    using j assms by (simp add: chunk_pos_inj)
  show "sat_add (word_of_nat (chunk_pos C k)) (len64 (C ! k)) \<le> recv \<longleftrightarrow> k < j"
    using seg_end_pos [OF assms(2, 3)] chunk_pos_le_iff [OF assms(2), of "Suc k" j] j assms(3)
    by (simp add: seg_end_def word_le_nat_alt Suc_le_eq)
qed

lemma received_next:
  assumes "received C j out recv" "stream_ok C" "j < length C"
  shows "received C (Suc j) (out @ C ! j) (sat_add recv (len64 (C ! j)))"
proof -
  have "word_of_nat (chunk_pos C j) = recv"
    using received_offset(1) [OF assms] by simp
  then show ?thesis
    using assms seg_end_pos [OF assms(2, 3)]
    by (simp add: received_def seg_end_def take_Suc_conv_app_nth)
qed

lemma received_extend: "received C j out recv \<Longrightarrow> received (C @ D) j out recv"
  by (simp add: received_def)

locale stream_receiver =
  fixes ready :: "'x \<Rightarrow> 's \<Rightarrow> bool"
    and flow :: "'x \<Rightarrow> 's \<Rightarrow> uuid"
    and out :: "'s \<Rightarrow> bytes"
    and recv :: "'s \<Rightarrow> u64"
    and on_frame :: "'x \<Rightarrow> data_frame \<Rightarrow> 's \<Rightarrow> 's \<times> unit res"
  assumes accept: "\<lbrakk>ready x s; length bs \<le> MAX_DATA_PAYLOAD; off = recv s\<rbrakk> \<Longrightarrow>
        \<exists>s'. on_frame x (Data (flow x s) off bs) s = (s', Ok ()) \<and> out s' = out s @ bs
          \<and> recv s' = sat_add off (len64 bs) \<and> ready x s' \<and> flow x s' = flow x s"
    and duplicate: "\<lbrakk>ready x s; length bs \<le> MAX_DATA_PAYLOAD; off \<noteq> recv s;
          sat_add off (len64 bs) \<le> recv s\<rbrakk> \<Longrightarrow>
        \<exists>s'. on_frame x (Data (flow x s) off bs) s = (s', Ok ()) \<and> out s' = out s
          \<and> recv s' = recv s \<and> ready x s' \<and> flow x s' = flow x s"
begin

fun feed :: "'x \<Rightarrow> data_frame list \<Rightarrow> 's \<Rightarrow> 's \<times> unit res" where
  "feed x [] s = (s, Ok ())"
| "feed x (f # fs) s = (case on_frame x f s of (s', Ok u) \<Rightarrow> feed x fs s' | (s', Err e) \<Rightarrow> (s', Err e))"

lemma on_chunk:
  assumes "ready x s" "received C j (out s) (recv s)" "stream_ok C" "k < length C" "k \<le> j"
  shows "\<exists>s'. on_frame x (Data (flow x s) (word_of_nat (chunk_pos C k)) (C ! k)) s = (s', Ok ())
     \<and> received C (max j (Suc k)) (out s') (recv s') \<and> ready x s' \<and> flow x s' = flow x s"
proof (cases "k = j")
  case True
  then show ?thesis
    using accept [OF assms(1), of "C ! k" "word_of_nat (chunk_pos C k)"]
      received_offset(1) [OF assms(2, 3, 4)] received_next [OF assms(2, 3)]
      stream_ok_nth [OF assms(3, 4)] assms(4) by (auto simp: max_def)
next
  case False
  with assms(5) have "max j (Suc k) = j" by simp
  with False show ?thesis
    using duplicate [OF assms(1), of "C ! k" "word_of_nat (chunk_pos C k)"]
      received_offset [OF assms(2, 3, 4)] stream_ok_nth [OF assms(3, 4)] assms(2, 5) by auto
qed

text \<open>Retransmission on a fresh carrier brings the receiver to the end of the stream, however
  much of it had arrived before.\<close>

lemma recovery:
  assumes "ready x s" "received C j (out s) (recv s)" "stream_ok C" "k \<le> j"
  shows "\<exists>s'. feed x (map (\<lambda>g. Data (flow x s) (seg_offset g) (seg_bytes g))
           (segs_from (chunk_pos C k) (drop k C))) s = (s', Ok ())
     \<and> received C (length C) (out s') (recv s') \<and> ready x s' \<and> flow x s' = flow x s"
  using assms
proof (induction "length C - k" arbitrary: k j s)
  case 0
  then have "j = length C" by (simp add: received_def)
  with 0 show ?case by auto
next
  case (Suc d)
  then have k: "k < length C" by simp
  from on_chunk [OF Suc.prems(1, 2, 3) k Suc.prems(4)]
  obtain s1 where s1: "on_frame x (Data (flow x s) (word_of_nat (chunk_pos C k)) (C ! k)) s = (s1, Ok ())"
      "received C (max j (Suc k)) (out s1) (recv s1)" "ready x s1" "flow x s1 = flow x s"
    by blast
  with Suc.hyps(1) [of "Suc k" s1 "max j (Suc k)"] Suc.hyps(2) Suc.prems(3) k show ?case
    by (auto simp: segs_from_drop)
qed

end

end
