(* ===== verification/Home_Flow.thy ===== *)
theory Home_Flow
  imports Flow_Window
begin

text \<open>
  The Home end of a TCP flow (\<open>crates/flowsplice-home-core/src/tcp_flow.rs\<close>): the state the
  task \<open>run_flow\<close> keeps in its local variables, one function per arm of its \<open>select!\<close> loop, and
  the registry of flows. A handler takes the outcome of its I/O as an argument and returns the
  new state with the result of its \<open>?\<close>: \<open>Ok\<close> continues the loop, \<open>Err\<close> ends the flow. A
  \<open>mpsc::Sender\<close> to a carrier is the queue of frames it has accepted and whether its receiver
  is still there. Metrics are the list of the calls made to the recorder.
\<close>

section \<open>State\<close>

record metric =
  mt_unix_secs :: u64
  mt_family :: string
  mt_dimensions :: "(string \<times> string) list"
  mt_value :: u64
  mt_sample :: "u64 option"

record flow_key =
  fk_credential_id :: uuid
  fk_travel_id :: string
  fk_flow_id :: uuid

record home_config =
  hcf_key :: flow_key
  hcf_service_id :: string
  hcf_max_unacked_bytes :: nat
  hcf_detach_timeout :: nat

record home_flow =
  hf_carriers :: "(uuid \<times> carrier_tx) list"
  hf_carrier_tasks :: "uuid list"
  hf_carrier_relays :: "(uuid \<times> string) list"
  hf_active_carrier :: "uuid option"
  hf_receive_offset :: u64
  hf_send_offset :: u64
  hf_send_acked :: u64
  hf_unacked :: "segment list"
  hf_unacked_bytes :: nat
  hf_race_winners :: "uuid \<rightharpoonup> uuid"
  hf_race_order :: "uuid list"
  hf_detached_deadline :: "instant option"
  hf_target_eof :: bool
  hf_target_fin_acked :: bool
  hf_travel_eof :: bool
  hf_selected_once :: bool
  hf_target_written :: bytes
  hf_target_shutdown :: bool
  hf_metrics :: "metric list"

text \<open>\<open>hf_target_written\<close> is what the target's write half has been given, \<open>hf_target_shutdown\<close>
  whether it was shut down.\<close>

datatype io_outcome = IoDone | IoFailed nat | IoTimedOut nat

text \<open>Failure and timeout of \<open>write_all\<close> come after some bytes were written.\<close>

record home_io =
  io_now :: instant
  io_unix :: "u64 option"
  io_target :: io_outcome

datatype home_event =
    CarrierFrame uuid data_frame
  | CarrierClosed uuid string
  | TargetData bytes
  | TargetEof
  | TargetError string

section \<open>Helpers\<close>

definition dims :: "home_config \<Rightarrow> string option \<Rightarrow> (string \<times> string) list" where
  "dims cfg relay_id =
     [(''travel_id'', fk_travel_id (hcf_key cfg)), (''service_id'', hcf_service_id cfg),
      (''protocol'', ''tcp'')]
     @ (case relay_id of Some r \<Rightarrow> [(''relay_id'', r)] | None \<Rightarrow> [])"

definition record_home_tcp_metric_sample :: "home_config \<Rightarrow> home_io \<Rightarrow> string option \<Rightarrow> string \<Rightarrow> u64
    \<Rightarrow> u64 option \<Rightarrow> home_flow \<Rightarrow> home_flow" where
  "record_home_tcp_metric_sample cfg io relay_id family value sample h =
     (case io_unix io of
        None \<Rightarrow> h
      | Some now \<Rightarrow> h\<lparr>hf_metrics := hf_metrics h @ [\<lparr>mt_unix_secs = now, mt_family = family,
            mt_dimensions = dims cfg relay_id, mt_value = value, mt_sample = sample\<rparr>]\<rparr>)"

definition record_home_tcp_metric :: "home_config \<Rightarrow> home_io \<Rightarrow> string option \<Rightarrow> string \<Rightarrow> u64
    \<Rightarrow> home_flow \<Rightarrow> home_flow" where
  "record_home_tcp_metric cfg io relay_id family value h =
     record_home_tcp_metric_sample cfg io relay_id family value None h"

definition home_send_to :: "uuid \<Rightarrow> data_frame \<Rightarrow> home_flow \<Rightarrow> home_flow" where
  "home_send_to carrier_id frame h =
     (case map_of (hf_carriers h) carrier_id of
        None \<Rightarrow> h
      | Some tx \<Rightarrow> h\<lparr>hf_carriers := AList.update carrier_id (tx_send frame tx) (hf_carriers h)\<rparr>)"

definition home_retransmit :: "uuid \<Rightarrow> uuid \<Rightarrow> home_flow \<Rightarrow> home_flow" where
  "home_retransmit carrier_id flow_id h =
     fold (home_send_to carrier_id)
       (retransmit_frames flow_id (hf_unacked h) (hf_target_eof h) (hf_send_offset h)) h"

definition home_acknowledge :: "u64 \<Rightarrow> home_flow \<Rightarrow> home_flow \<times> unit res" where
  "home_acknowledge next_offset h =
     (let (unacked, unacked_bytes) = pop_acked next_offset (hf_unacked h) (hf_unacked_bytes h);
          h' = h\<lparr>hf_unacked := unacked, hf_unacked_bytes := unacked_bytes\<rparr>
      in if front_before unacked next_offset then (h', Err (Flow AckSplitFrame))
         else (h'\<lparr>hf_send_acked := next_offset\<rparr>, Ok ()))"

text \<open>\<open>while race_order.len() > 32\<close>: forget the oldest races.\<close>

fun trim_races :: "uuid list \<Rightarrow> (uuid \<rightharpoonup> uuid) \<Rightarrow> uuid list \<times> (uuid \<rightharpoonup> uuid)" where
  "trim_races [] winners = ([], winners)"
| "trim_races (old # order) winners =
     (if 32 < length (old # order) then trim_races order (winners(old := None))
      else (old # order, winners))"

section \<open>Handlers of the loop\<close>

definition home_init :: "home_config \<Rightarrow> instant \<Rightarrow> home_flow" where
  "home_init cfg now = \<lparr>hf_carriers = [], hf_carrier_tasks = [], hf_carrier_relays = [],
     hf_active_carrier = None, hf_receive_offset = 0, hf_send_offset = 0, hf_send_acked = 0,
     hf_unacked = [], hf_unacked_bytes = 0, hf_race_winners = Map.empty, hf_race_order = [],
     hf_detached_deadline = Some (now + hcf_detach_timeout cfg), hf_target_eof = False,
     hf_target_fin_acked = False, hf_travel_eof = False, hf_selected_once = False,
     hf_target_written = [], hf_target_shutdown = False, hf_metrics = []\<rparr>"

definition home_finished :: "home_flow \<Rightarrow> bool" where
  "home_finished h \<longleftrightarrow> hf_travel_eof h \<and> hf_target_eof h \<and> hf_target_fin_acked h \<and> hf_unacked h = []"

text \<open>A carrier arrives on \<open>incoming\<close>. \<open>opened\<close> is the outcome of writing \<open>OpenOk\<close> to it and
  \<open>spawned\<close> of starting its pump; the frame written is part of the result.\<close>

definition home_attach :: "home_config \<Rightarrow> uuid \<Rightarrow> string \<Rightarrow> u16 \<Rightarrow> (unit, io_kind) result \<Rightarrow> bool \<Rightarrow> home_flow
    \<Rightarrow> home_flow \<times> data_frame option \<times> unit res" where
  "home_attach cfg carrier_id relay_id codec_version opened spawned h =
     (if map_of (hf_carriers h) carrier_id \<noteq> None then (h, None, Ok ())
      else
        let h1 = h\<lparr>hf_carrier_relays := AList.update carrier_id relay_id (hf_carrier_relays h)\<rparr>;
            frame = OpenOk (fk_flow_id (hcf_key cfg)) carrier_id (hf_receive_offset h)
                      (hf_send_acked h) codec_version
        in (case opened of
              Err k \<Rightarrow> (h1, None, Err (Io k))
            | Ok _ \<Rightarrow>
                let h2 = h1\<lparr>hf_carriers :=
                       AList.update carrier_id \<lparr>tx_open = True, tx_queue = []\<rparr> (hf_carriers h1)\<rparr>
                in if spawned
                   then (h2\<lparr>hf_carrier_tasks := List.insert carrier_id (hf_carrier_tasks h2)\<rparr>,
                         Some frame, Ok ())
                   else (h2, Some frame, Err (Flow RuntimeStopped))))"

definition home_on_race :: "home_config \<Rightarrow> uuid \<Rightarrow> uuid \<Rightarrow> home_flow \<Rightarrow> home_flow" where
  "home_on_race cfg carrier_id race_id h =
     (let flow_id = fk_flow_id (hcf_key cfg) in
      case hf_race_winners h race_id of
        Some winner \<Rightarrow> home_send_to carrier_id (RaceDuplicate flow_id race_id winner) h
      | None \<Rightarrow>
          let (order, winners) = trim_races (hf_race_order h @ [race_id])
                                   ((hf_race_winners h)(race_id \<mapsto> carrier_id));
              h1 = h\<lparr>hf_race_winners := winners, hf_race_order := order,
                     hf_active_carrier := Some carrier_id, hf_selected_once := True,
                     hf_detached_deadline := None\<rparr>;
              h2 = home_send_to carrier_id (RaceAck flow_id race_id carrier_id) h1
          in home_retransmit carrier_id flow_id h2)"

definition write_target :: "io_outcome \<Rightarrow> bytes \<Rightarrow> home_flow \<Rightarrow> home_flow \<times> unit res" where
  "write_target outcome bs h =
     (case outcome of
        IoDone \<Rightarrow> (h\<lparr>hf_target_written := hf_target_written h @ bs\<rparr>, Ok ())
      | IoFailed n \<Rightarrow> (h\<lparr>hf_target_written := hf_target_written h @ take n bs\<rparr>, Err (Flow TargetFailed))
      | IoTimedOut n \<Rightarrow> (h\<lparr>hf_target_written := hf_target_written h @ take n bs\<rparr>, Err (Flow TargetTimeout)))"

definition home_on_data :: "home_config \<Rightarrow> home_io \<Rightarrow> uuid \<Rightarrow> u64 \<Rightarrow> bytes \<Rightarrow> home_flow
    \<Rightarrow> home_flow \<times> unit res" where
  "home_on_data cfg io carrier_id offset bs h =
     (let flow_id = fk_flow_id (hcf_key cfg);
          end_offset = sat_add offset (len64 bs)
      in if offset = hf_receive_offset h \<and> hf_active_carrier h = Some carrier_id then
           (case write_target (io_target io) bs h of
              (h1, Err e) \<Rightarrow> (h1, Err e)
            | (h1, Ok _) \<Rightarrow>
                let h2 = h1\<lparr>hf_receive_offset := end_offset\<rparr>;
                    h3 = record_home_tcp_metric cfg io (map_of (hf_carrier_relays h2) carrier_id)
                           ''delivered_upload_bytes'' (len64 bs) h2
                in (home_send_to carrier_id (Ack flow_id (hf_receive_offset h3)) h3, Ok ()))
         else if end_offset \<le> hf_receive_offset h then
           (home_send_to carrier_id
              (Duplicate flow_id (hf_receive_offset h)
                 (case hf_active_carrier h of Some a \<Rightarrow> a | None \<Rightarrow> carrier_id)) h, Ok ())
         else (home_send_to carrier_id (Close flow_id ''non-contiguous TCP data'') h, Ok ()))"

definition home_on_fin :: "home_config \<Rightarrow> home_io \<Rightarrow> uuid \<Rightarrow> u64 \<Rightarrow> home_flow \<Rightarrow> home_flow \<times> unit res" where
  "home_on_fin cfg io carrier_id final_offset h =
     (let ack = home_send_to carrier_id (FinAck (fk_flow_id (hcf_key cfg)) final_offset)
      in if hf_travel_eof h then (ack h, Ok ())
         else (case io_target io of
                 IoDone \<Rightarrow> (ack (h\<lparr>hf_target_shutdown := True, hf_travel_eof := True\<rparr>), Ok ())
               | IoFailed n \<Rightarrow> (h, Err (Flow TargetFailed))
               | IoTimedOut n \<Rightarrow> (h, Err (Flow TargetTimeout))))"

text \<open>The \<open>match frame\<close> of \<open>FlowEvent::CarrierFrame\<close>, with its guards.\<close>

definition home_on_frame :: "home_config \<Rightarrow> home_io \<Rightarrow> uuid \<Rightarrow> data_frame \<Rightarrow> home_flow
    \<Rightarrow> home_flow \<times> unit res" where
  "home_on_frame cfg io carrier_id frame h =
     (let key_flow = fk_flow_id (hcf_key cfg);
          in_window = (\<lambda>n. hf_send_acked h \<le> n \<and> n \<le> hf_send_offset h);
          invalid = (home_send_to carrier_id (Close key_flow ''invalid TCP flow frame'') h, Ok ())
      in case frame of
           Race flow_id race_id next_offset \<Rightarrow>
             if flow_id = key_flow \<and> next_offset \<le> hf_receive_offset h
             then (home_on_race cfg carrier_id race_id h, Ok ()) else invalid
         | Data flow_id offset bs \<Rightarrow>
             if flow_id = key_flow \<and> length bs \<le> MAX_DATA_PAYLOAD
             then home_on_data cfg io carrier_id offset bs h else invalid
         | Ack flow_id next_offset \<Rightarrow>
             if flow_id = key_flow \<and> in_window next_offset
             then home_acknowledge next_offset h else invalid
         | Duplicate flow_id next_offset winner \<Rightarrow>
             if flow_id = key_flow \<and> in_window next_offset
             then home_acknowledge next_offset h else invalid
         | Fin flow_id final_offset \<Rightarrow>
             if flow_id = key_flow \<and> final_offset = hf_receive_offset h
             then home_on_fin cfg io carrier_id final_offset h else invalid
         | FinAck flow_id final_offset \<Rightarrow>
             if flow_id = key_flow \<and> hf_target_eof h \<and> final_offset = hf_send_offset h
             then (h\<lparr>hf_target_fin_acked := True\<rparr>, Ok ()) else invalid
         | Close flow_id reason \<Rightarrow>
             if flow_id = key_flow then (h, Err (Flow TravelClosedFlow)) else invalid
         | _ \<Rightarrow> invalid)"

definition home_on_closed :: "home_config \<Rightarrow> home_io \<Rightarrow> uuid \<Rightarrow> home_flow \<Rightarrow> home_flow" where
  "home_on_closed cfg io carrier_id h =
     (let h1 = h\<lparr>hf_carriers := AList.delete carrier_id (hf_carriers h),
                 hf_carrier_tasks := remove1 carrier_id (hf_carrier_tasks h),
                 hf_carrier_relays := AList.delete carrier_id (hf_carrier_relays h)\<rparr>
      in if hf_active_carrier h1 = Some carrier_id
         then h1\<lparr>hf_active_carrier := None,
                 hf_detached_deadline := Some (io_now io + hcf_detach_timeout cfg)\<rparr>
         else h1)"

definition home_on_target_data :: "home_config \<Rightarrow> home_io \<Rightarrow> bytes \<Rightarrow> home_flow
    \<Rightarrow> home_flow \<times> unit res" where
  "home_on_target_data cfg io bs h =
     (if hcf_max_unacked_bytes cfg < hf_unacked_bytes h + length bs
      then (h, Err (Flow UnackedLimit))
      else
        let segment = \<lparr>seg_offset = hf_send_offset h, seg_bytes = bs\<rparr>;
            relay = (case hf_active_carrier h of
                       Some c \<Rightarrow> map_of (hf_carrier_relays h) c | None \<Rightarrow> None);
            h1 = record_home_tcp_metric cfg io relay ''home_flow_download_observed_bytes''
                   (len64 bs) h;
            h2 = h1\<lparr>hf_send_offset := sat_add (hf_send_offset h1) (len64 bs),
                    hf_unacked_bytes := hf_unacked_bytes h1 + length bs\<rparr>;
            h3 = (case hf_active_carrier h2 of
                    Some c \<Rightarrow> home_send_to c (Data (fk_flow_id (hcf_key cfg)) (seg_offset segment) bs) h2
                  | None \<Rightarrow> h2)
        in (h3\<lparr>hf_unacked := hf_unacked h3 @ [segment]\<rparr>, Ok ()))"

definition home_on_target_eof :: "home_config \<Rightarrow> home_flow \<Rightarrow> home_flow" where
  "home_on_target_eof cfg h =
     (let h1 = h\<lparr>hf_target_eof := True\<rparr>
      in case hf_active_carrier h1 of
           Some c \<Rightarrow> home_send_to c (Fin (fk_flow_id (hcf_key cfg)) (hf_send_offset h1)) h1
         | None \<Rightarrow> h1)"

definition home_handle_event :: "home_config \<Rightarrow> home_io \<Rightarrow> home_event \<Rightarrow> home_flow
    \<Rightarrow> home_flow \<times> unit res" where
  "home_handle_event cfg io event h =
     (case event of
        CarrierFrame carrier_id frame \<Rightarrow> home_on_frame cfg io carrier_id frame h
      | CarrierClosed carrier_id reason \<Rightarrow> (home_on_closed cfg io carrier_id h, Ok ())
      | TargetData bs \<Rightarrow> home_on_target_data cfg io bs h
      | TargetEof \<Rightarrow> (home_on_target_eof cfg h, Ok ())
      | TargetError reason \<Rightarrow> (h, Err (Flow TargetFailed)))"

definition home_on_deadline :: "instant \<Rightarrow> home_flow \<Rightarrow> unit res" where
  "home_on_deadline now h =
     (case hf_detached_deadline h of
        Some d \<Rightarrow> if d \<le> now then Err (Flow DetachTimeout) else Ok ()
      | None \<Rightarrow> Ok ())"

section \<open>What the helpers leave unchanged\<close>

named_theorems home_defs \<open>definitions of the Home handlers\<close>

lemmas [home_defs] = home_on_race_def home_on_data_def home_on_fin_def home_on_frame_def
  home_on_closed_def home_on_target_data_def home_on_target_eof_def home_handle_event_def
  write_target_def

definition hf_window :: "home_flow \<Rightarrow> window" where
  "hf_window h = \<lparr>wn_unacked = hf_unacked h, wn_unacked_bytes = hf_unacked_bytes h,
     wn_send_acked = hf_send_acked h, wn_send_offset = hf_send_offset h\<rparr>"

definition home_queued :: "home_flow \<Rightarrow> (uuid \<times> data_frame) set" where
  "home_queued h = {(c, f). \<exists>tx. map_of (hf_carriers h) c = Some tx \<and> f \<in> set (tx_queue tx)}"

text \<open>Everything but the carriers' queues and the metrics.\<close>

definition home_core :: "home_flow \<Rightarrow> home_flow" where
  "home_core h = h\<lparr>hf_carriers := [], hf_metrics := []\<rparr>"

lemma home_core_send_to [simp]: "home_core (home_send_to c f h) = home_core h"
  by (simp add: home_core_def home_send_to_def split: option.splits)

lemma home_core_metric [simp]: "home_core (record_home_tcp_metric cfg io r fam v h) = home_core h"
  by (simp add: home_core_def record_home_tcp_metric_def record_home_tcp_metric_sample_def
      split: option.splits)

lemma home_core_fold_send [simp]: "home_core (fold (home_send_to c) fs h) = home_core h"
  by (induction fs arbitrary: h) simp_all

lemma home_core_retransmit [simp]: "home_core (home_retransmit c i h) = home_core h"
  by (simp add: home_retransmit_def)

lemma home_core_sel:
  assumes "home_core h = home_core g"
  shows "hf_active_carrier h = hf_active_carrier g" "hf_receive_offset h = hf_receive_offset g"
    "hf_send_offset h = hf_send_offset g" "hf_send_acked h = hf_send_acked g"
    "hf_unacked h = hf_unacked g" "hf_unacked_bytes h = hf_unacked_bytes g"
    "hf_target_written h = hf_target_written g" "hf_travel_eof h = hf_travel_eof g"
    "hf_target_eof h = hf_target_eof g" "hf_target_fin_acked h = hf_target_fin_acked g"
    "hf_target_shutdown h = hf_target_shutdown g" "hf_race_winners h = hf_race_winners g"
    "hf_race_order h = hf_race_order g" "hf_detached_deadline h = hf_detached_deadline g"
    "hf_carrier_relays h = hf_carrier_relays g"
  using assms by (cases h; cases g; simp add: home_core_def)+

lemmas home_send_sel [simp] = home_core_sel [OF home_core_send_to]
lemmas home_metric_sel [simp] = home_core_sel [OF home_core_metric]
lemmas home_retransmit_sel [simp] = home_core_sel [OF home_core_retransmit]

lemma metric_carriers [simp]: "hf_carriers (record_home_tcp_metric cfg io r fam v h) = hf_carriers h"
  by (simp add: record_home_tcp_metric_def record_home_tcp_metric_sample_def split: option.splits)

lemma home_queued_metric [simp]: "home_queued (record_home_tcp_metric cfg io r fam v h) = home_queued h"
  by (simp add: home_queued_def)

lemma home_queued_send: "home_queued (home_send_to c f h) \<subseteq> insert (c, f) (home_queued h)"
  by (auto simp: home_queued_def home_send_to_def tx_send_def update_conv'
      split: option.splits if_splits)

lemma home_queued_fold_send:
  "home_queued (fold (home_send_to c) fs h) \<subseteq> home_queued h \<union> {c} \<times> set fs"
proof (induction fs arbitrary: h)
  case (Cons f fs)
  then show ?case
    using home_queued_send [of c f h] by fastforce
qed simp

lemma home_queued_retransmit:
  "home_queued (home_retransmit c i h) \<subseteq> home_queued h
     \<union> {c} \<times> set (retransmit_frames i (hf_unacked h) (hf_target_eof h) (hf_send_offset h))"
  using home_queued_fold_send by (simp add: home_retransmit_def)

lemma home_queued_update [simp]:
  "home_queued (h\<lparr>hf_receive_offset := x\<rparr>) = home_queued h"
  "home_queued (h\<lparr>hf_target_written := w\<rparr>) = home_queued h"
  "home_queued (h\<lparr>hf_unacked := u\<rparr>) = home_queued h"
  "home_queued (h\<lparr>hf_send_offset := x, hf_unacked_bytes := y\<rparr>) = home_queued h"
  "home_queued (h\<lparr>hf_target_eof := b\<rparr>) = home_queued h"
  by (simp_all add: home_queued_def)

section \<open>Home keeps the window contract\<close>

lemma hf_window_sel [simp]:
  "wn_unacked (hf_window h) = hf_unacked h" "wn_unacked_bytes (hf_window h) = hf_unacked_bytes h"
  "wn_send_acked (hf_window h) = hf_send_acked h" "wn_send_offset (hf_window h) = hf_send_offset h"
  by (simp_all add: hf_window_def)

lemma home_on_target_data_window:
  assumes "home_on_target_data cfg io b h = (h', Ok u)"
  shows "hf_window h' = window_push b (hf_window h)
     \<and> hf_unacked_bytes h + length b \<le> hcf_max_unacked_bytes cfg"
  using assms
  by (auto simp: home_on_target_data_def hf_window_def window_push_def Let_def
      split: if_splits option.splits)

lemma home_acknowledge_window:
  "(case window_ack n (hf_window h) of
      Ok w \<Rightarrow> \<exists>h'. home_acknowledge n h = (h', Ok ()) \<and> hf_window h' = w
    | Err e \<Rightarrow> \<exists>h'. home_acknowledge n h = (h', Err e))"
  by (auto simp: home_acknowledge_def window_ack_def hf_window_def split: prod.splits)

interpretation home_window: send_window hf_window
  "\<lambda>(cfg, io). hcf_max_unacked_bytes cfg" "\<lambda>(cfg, io) b h. home_on_target_data cfg io b h"
  home_acknowledge
proof unfold_locales
  fix n :: u64 and s s' :: home_flow and u :: unit and w
  show "home_acknowledge n s = (s', Ok u) \<Longrightarrow> window_ack n (hf_window s) = Ok (hf_window s')"
    using home_acknowledge_window [of n s] by (auto split: result.splits)
  show "window_ack n (hf_window s) = Ok w \<Longrightarrow> snd (home_acknowledge n s) = Ok ()"
    using home_acknowledge_window [of n s] by auto
qed (auto simp: home_on_target_data_window home_on_target_data_def Let_def)

section \<open>Home as a receiver\<close>

definition home_ready :: "home_config \<times> home_io \<times> uuid \<Rightarrow> home_flow \<Rightarrow> bool" where
  "home_ready x h = (case x of (cfg, io, c) \<Rightarrow> hf_active_carrier h = Some c \<and> io_target io = IoDone)"

interpretation home_receiver: stream_receiver home_ready
  "\<lambda>(cfg, io, c) h. fk_flow_id (hcf_key cfg)" hf_target_written hf_receive_offset
  "\<lambda>(cfg, io, c) f h. home_on_frame cfg io c f h"
  by unfold_locales
     (auto simp: home_ready_def home_on_frame_def home_on_data_def write_target_def Let_def)

section \<open>The memory of races\<close>

definition sample_home_config :: home_config where
  "sample_home_config = \<lparr>hcf_key = \<lparr>fk_credential_id = 1, fk_travel_id = ''t'', fk_flow_id = 5\<rparr>,
     hcf_service_id = ''s'', hcf_max_unacked_bytes = 100, hcf_detach_timeout = 1000\<rparr>"

definition race_memory_ok :: "home_flow \<Rightarrow> bool" where
  "race_memory_ok h \<longleftrightarrow> set (hf_race_order h) = dom (hf_race_winners h) \<and> distinct (hf_race_order h)
     \<and> length (hf_race_order h) \<le> 32"

lemma trim_races_ok:
  assumes "trim_races order w = (order', w')" "distinct order" "set order = dom w"
  shows "order' = drop (length order - 32) order \<and> w' = w |` set order'
     \<and> length order' \<le> 32 \<and> set order' = dom w'"
  using assms
proof (induction order w rule: trim_races.induct)
  case (1 w)
  then show ?case by (auto simp: restrict_map_def dom_def)
next
  case (2 old order w)
  show ?case
  proof (cases "32 < length (old # order)")
    case True
    have d: "set order = dom (w(old := None))" "distinct order"
      using "2.prems" by auto
    have "trim_races order (w(old := None)) = (order', w')"
      using "2.prems"(1) True by simp
    from "2.IH" [OF True this d(2, 1)] have ih: "order' = drop (length order - 32) order"
      "w' = (w(old := None)) |` set order'" "length order' \<le> 32" "set order' = dom w'" by blast+
    have "old \<notin> set order'"
      using "2.prems"(2) ih(1) in_set_dropD by fastforce
    then have "(w(old := None)) |` set order' = w |` set order'"
      by (auto simp: restrict_map_def fun_eq_iff)
    moreover have "length (old # order) - 32 = Suc (length order - 32)"
      using True by simp
    ultimately show ?thesis
      using ih by simp
  next
    case False
    with "2.prems" have "order' = old # order" "w' = w" by auto
    moreover have "w |` dom w = w"
      by (auto simp: restrict_map_def fun_eq_iff domIff)
    ultimately show ?thesis
      using False "2.prems"(3) by simp
  qed
qed

lemma home_on_race_known:
  "hf_race_winners h r = Some w \<Longrightarrow>
     home_on_race cfg c r h = home_send_to c (RaceDuplicate (fk_flow_id (hcf_key cfg)) r w) h"
  by (simp add: home_on_race_def)

lemma home_on_race_new:
  assumes "race_memory_ok h" and "hf_race_winners h r = None" and "home_on_race cfg c r h = h'"
  shows "race_memory_ok h'"
    and "hf_race_order h' = drop (length (hf_race_order h @ [r]) - 32) (hf_race_order h @ [r])"
    and "hf_race_winners h' = ((hf_race_winners h)(r \<mapsto> c)) |` set (hf_race_order h')"
    and "hf_active_carrier h' = Some c"
proof -
  obtain order winners where t: "trim_races (hf_race_order h @ [r]) ((hf_race_winners h)(r \<mapsto> c)) = (order, winners)"
    by (metis surj_pair)
  have d: "distinct (hf_race_order h @ [r])" "set (hf_race_order h @ [r]) = dom ((hf_race_winners h)(r \<mapsto> c))"
    using assms(1, 2) by (auto simp: race_memory_ok_def)
  note ok = trim_races_ok [OF t d]
  have h': "hf_race_winners h' = winners" "hf_race_order h' = order" "hf_active_carrier h' = Some c"
    using assms(2, 3) t by (auto simp: home_on_race_def Let_def)
  have "distinct order"
    using ok d(1) distinct_drop by blast
  then show "race_memory_ok h'"
    unfolding race_memory_ok_def h' using ok by blast
  show "hf_active_carrier h' = Some c"
      "hf_race_order h' = drop (length (hf_race_order h @ [r]) - 32) (hf_race_order h @ [r])"
      "hf_race_winners h' = ((hf_race_winners h)(r \<mapsto> c)) |` set (hf_race_order h')"
    unfolding h' using ok by blast+
qed

section \<open>Runs of the loop\<close>

text \<open>What \<open>run_flow\<close> waits for: a Carrier with the outcomes of answering it, an event, its deadline. An
  \<open>Err\<close> ends the run; the check for \<open>home_finished\<close> at the top of the loop, which ends it with success,
  is left out, so these runs may go on longer than those of the code.\<close>

datatype home_input =
    InAttach uuid string u16 "(unit, io_kind) result" bool
  | InEvent home_io home_event
  | InDeadline instant

definition home_on_input :: "home_config \<Rightarrow> home_input \<Rightarrow> home_flow \<Rightarrow> home_flow \<times> unit res" where
  "home_on_input cfg input h =
     (case input of
        InAttach c relay v opened spawned \<Rightarrow> (case home_attach cfg c relay v opened spawned h of (h', frame, r) \<Rightarrow> (h', r))
      | InEvent io event \<Rightarrow> home_handle_event cfg io event h
      | InDeadline now \<Rightarrow> (h, home_on_deadline now h))"

fun home_flow_run :: "home_config \<Rightarrow> home_input list \<Rightarrow> home_flow \<Rightarrow> home_flow \<times> unit res" where
  "home_flow_run cfg [] h = (h, Ok ())"
| "home_flow_run cfg (input # inputs) h =
     (case home_on_input cfg input h of
        (h', Ok u) \<Rightarrow> home_flow_run cfg inputs h'
      | (h', Err e) \<Rightarrow> (h', Err e))"

text \<open>The races a list of inputs names.\<close>

fun named_race :: "home_input \<Rightarrow> uuid set" where
  "named_race (InEvent io (CarrierFrame c (Race f r n))) = {r}"
| "named_race i = {}"

definition named_races :: "home_input list \<Rightarrow> uuid set" where
  "named_races inputs = \<Union> (named_race ` set inputs)"

lemma acknowledge_races [simp]:
  "home_acknowledge n h = (h', x) \<Longrightarrow>
     hf_race_winners h' = hf_race_winners h \<and> hf_race_order h' = hf_race_order h"
  by (auto simp: home_acknowledge_def Let_def split: prod.splits if_splits)

lemma home_on_data_races:
  "home_on_data cfg io c off bs h = (h', x) \<Longrightarrow>
     hf_race_winners h' = hf_race_winners h \<and> hf_race_order h' = hf_race_order h"
  by (auto simp: home_on_data_def write_target_def Let_def split: if_splits io_outcome.splits)

lemma home_on_fin_races:
  "home_on_fin cfg io c off h = (h', x) \<Longrightarrow>
     hf_race_winners h' = hf_race_winners h \<and> hf_race_order h' = hf_race_order h"
  by (auto simp: home_on_fin_def Let_def split: if_splits io_outcome.splits)

text \<open>An input either decides or answers a race, or leaves the memory of races alone.\<close>

lemma home_on_input_races:
  assumes "home_on_input cfg input h = (h', x)"
  shows "(\<exists>c r. named_race input = {r} \<and> h' = home_on_race cfg c r h)
     \<or> hf_race_winners h' = hf_race_winners h \<and> hf_race_order h' = hf_race_order h"
proof (cases input)
  case (InAttach c relay v opened spawned)
  with assms show ?thesis
    by (auto simp: home_on_input_def home_attach_def Let_def split: if_splits result.splits prod.splits)
next
  case (InDeadline now)
  with assms show ?thesis by (simp add: home_on_input_def)
next
  case (InEvent io event)
  show ?thesis
  proof (cases event)
    case (CarrierFrame c f)
    with InEvent assms have "home_on_frame cfg io c f h = (h', x)"
      by (simp add: home_on_input_def home_handle_event_def)
    then show ?thesis
      using InEvent CarrierFrame
      by (cases f) (auto simp: home_on_frame_def Let_def dest: home_on_data_races home_on_fin_races
          split: if_splits)
  qed (use InEvent assms in \<open>auto simp: home_on_input_def home_handle_event_def home_on_closed_def
        home_on_target_data_def home_on_target_eof_def Let_def split: if_splits option.splits\<close>)
qed

lemma home_on_input_memory_ok:
  assumes "race_memory_ok h" "home_on_input cfg input h = (h', x)"
  shows "race_memory_ok h'"
proof -
  have "race_memory_ok (home_on_race cfg c r h)" for c r
    using assms(1) home_on_race_new(1) [OF assms(1) _ refl, of r cfg c] home_on_race_known [of h r]
    by (cases "hf_race_winners h r") (auto simp: race_memory_ok_def)
  with home_on_input_races [OF assms(2)] assms(1) show ?thesis
    by (auto simp: race_memory_ok_def)
qed

lemma home_flow_run_memory_ok:
  "\<lbrakk>race_memory_ok h; home_flow_run cfg inputs h = (h', x)\<rbrakk> \<Longrightarrow> race_memory_ok h'"
proof (induction inputs arbitrary: h)
  case (Cons i js)
  obtain h1 r1 where h1: "home_on_input cfg i h = (h1, r1)" by (metis surj_pair)
  note ok = home_on_input_memory_ok [OF Cons.prems(1) h1]
  with Cons.IH [OF ok] Cons.prems(2) h1 show ?case
    by (cases r1) simp_all
qed simp

text \<open>A verdict with the races decided after it.\<close>

definition verdict :: "uuid \<Rightarrow> uuid \<Rightarrow> uuid set \<Rightarrow> home_flow \<Rightarrow> bool" where
  "verdict r c S h \<longleftrightarrow> hf_race_winners h r = Some c
     \<and> (\<exists>xs ys. hf_race_order h = xs @ r # ys \<and> set ys \<subseteq> S)"

lemma drop_before:
  "n \<le> length xs \<Longrightarrow> \<exists>us. drop n (xs @ ys) = us @ ys"
  by (simp add: drop_append)

lemma verdict_race:
  assumes "race_memory_ok h" "verdict r c S h" "finite S" "card (insert q S - {r}) < 32"
    and "home_on_race cfg d q h = h'"
  shows "verdict r c (insert q S) h'"
proof (cases "hf_race_winners h q")
  case (Some w)
  with assms(5) have "hf_race_winners h' = hf_race_winners h" "hf_race_order h' = hf_race_order h"
    by (auto simp: home_on_race_known)
  with assms(2) show ?thesis
    unfolding verdict_def by (metis subset_insertI2)
next
  case None
  obtain xs ys where o: "hf_race_order h = xs @ r # ys" "set ys \<subseteq> S" and w: "hf_race_winners h r = Some c"
    using assms(2) by (auto simp: verdict_def)
  note new = home_on_race_new [OF assms(1) None assms(5)]
  have dist: "distinct (xs @ r # ys)" "q \<notin> set (xs @ r # ys)"
    using assms(1) None o(1) unfolding race_memory_ok_def by (metis, metis domIff)
  then have "length (ys @ [q]) = card (set (ys @ [q]))"
    by (simp add: distinct_card)
  also have "... \<le> card (insert q S - {r})"
    by (rule card_mono) (use assms(3) o(2) dist in auto)
  finally have "length ys < 31" using assms(4) by simp
  then have "length (hf_race_order h @ [q]) - 32 \<le> length xs"
    using o(1) by simp
  then obtain us where us: "hf_race_order h' = us @ r # ys @ [q]"
    using new(2) o(1) drop_before [of _ xs "r # ys @ [q]"] by auto
  have "hf_race_winners h' r = Some c"
    using new(3) w us None by (auto simp: restrict_map_def)
  with us o(2) show ?thesis
    unfolding verdict_def by fastforce
qed

lemma verdict_input:
  assumes "race_memory_ok h" "verdict r c S h" "finite S" "card (named_race i \<union> S - {r}) < 32"
    and "home_on_input cfg i h = (h', x)"
  shows "verdict r c (named_race i \<union> S) h'"
  using home_on_input_races [OF assms(5)]
proof (elim disjE exE conjE)
  fix d q
  assume "named_race i = {q}" "h' = home_on_race cfg d q h"
  with verdict_race [OF assms(1-3)] assms(4) show ?thesis by auto
next
  assume "hf_race_winners h' = hf_race_winners h" "hf_race_order h' = hf_race_order h"
  with assms(2) show ?thesis by (auto simp: verdict_def)
qed

lemma verdict_run:
  "\<lbrakk>race_memory_ok h; verdict r c S h; finite S; card (named_races inputs \<union> S - {r}) < 32;
    home_flow_run cfg inputs h = (h', x)\<rbrakk> \<Longrightarrow> verdict r c (named_races inputs \<union> S) h'"
proof (induction inputs arbitrary: h S)
  case Nil
  then show ?case by (simp add: named_races_def)
next
  case (Cons i js)
  obtain h1 r1 where h1: "home_on_input cfg i h = (h1, r1)" by (metis surj_pair)
  have fin: "finite (named_race j)" for j by (cases j rule: named_race.cases) auto
  have U: "named_races (i # js) \<union> S = named_races js \<union> (named_race i \<union> S)"
    by (auto simp: named_races_def)
  have "card (named_race i \<union> S - {r}) \<le> card (named_races (i # js) \<union> S - {r})"
    by (rule card_mono) (use fin Cons.prems(3) in \<open>auto simp: named_races_def\<close>)
  then have v: "verdict r c (named_race i \<union> S) h1"
    using verdict_input [OF Cons.prems(1-3) _ h1] Cons.prems(4) by simp
  show ?case
  proof (cases r1)
    case (Ok u)
    with Cons.IH [OF home_on_input_memory_ok [OF Cons.prems(1) h1] v] Cons.prems fin h1 U show ?thesis
      by simp
  next
    case (Err e)
    with h1 Cons.prems(5) v show ?thesis
      by (auto simp: verdict_def U)
  qed
qed

text \<open>C8: Home decides a race once. In any run of a Home flow, the first carrier whose \<open>Race\<close> arrives for a
  race without a verdict becomes its winner and the active carrier; after any further inputs - frames,
  carriers that come and close, socket events, deadlines - that name fewer than 32 other races, the verdict
  is still that carrier, and every further \<open>Race\<close> of that race leaves the selection alone and is answered
  with it. At most 32 races are remembered, so a race older than that may be decided again.\<close>

theorem home_race_decided_once:
  assumes "home_flow_run cfg earlier (home_init cfg now) = (h0, Ok ())"
    and "hf_race_winners h0 r = None" "n \<le> hf_receive_offset h0"
    and "home_on_input cfg (InEvent io (CarrierFrame c (Race (fk_flow_id (hcf_key cfg)) r n))) h0 = (h1, x1)"
    and "home_flow_run cfg later h1 = (h2, x2)" "card (named_races later - {r}) < 32"
  shows "hf_active_carrier h1 = Some c \<and> x1 = Ok () \<and> hf_race_winners h2 r = Some c
     \<and> (\<forall>io' c' n'. n' \<le> hf_receive_offset h2 \<longrightarrow>
          home_on_input cfg (InEvent io' (CarrierFrame c' (Race (fk_flow_id (hcf_key cfg)) r n'))) h2
            = (home_send_to c' (RaceDuplicate (fk_flow_id (hcf_key cfg)) r c) h2, Ok ()))
     \<and> card (dom (hf_race_winners h2)) \<le> 32"
proof -
  have "race_memory_ok (home_init cfg now)"
    by (simp add: race_memory_ok_def home_init_def)
  then have ok0: "race_memory_ok h0"
    using home_flow_run_memory_ok assms(1) by blast
  have h1: "h1 = home_on_race cfg c r h0" "x1 = Ok ()"
    using assms(3, 4) by (auto simp: home_on_input_def home_handle_event_def home_on_frame_def Let_def)
  note new = home_on_race_new [OF ok0 assms(2) h1(1) [symmetric]]
  have "length (hf_race_order h0 @ [r]) - 32 \<le> length (hf_race_order h0)"
    using ok0 by (simp add: race_memory_ok_def)
  then obtain us where "hf_race_order h1 = us @ [r]"
    using new(2) drop_before by metis
  then have "verdict r c {} h1"
    unfolding verdict_def using new(3) by (auto simp: restrict_map_def)
  then have v: "hf_race_winners h2 r = Some c"
    using verdict_run [OF new(1) _ _ _ assms(5), of r c "{}"] assms(6) by (simp add: verdict_def)
  have "race_memory_ok h2"
    using home_flow_run_memory_ok [OF new(1) assms(5)] .
  then have "card (dom (hf_race_winners h2)) \<le> 32"
    unfolding race_memory_ok_def by (metis card_length order_trans)
  with v h1(2) new(4) show ?thesis
    by (simp add: home_on_input_def home_handle_event_def home_on_frame_def home_on_race_known Let_def)
qed

theorem home_race_decided_once_witness:
  "\<exists>h1 h2. home_on_input sample_home_config (InEvent \<lparr>io_now = 0, io_unix = None, io_target = IoDone\<rparr>
          (CarrierFrame 7 (Race 5 9 0))) (home_init sample_home_config 0) = (h1, Ok ())
     \<and> home_flow_run sample_home_config [InAttach 8 ''r'' 1 (Ok ()) True,
          InEvent \<lparr>io_now = 0, io_unix = None, io_target = IoDone\<rparr> (CarrierFrame 8 (Race 5 10 0))] h1 = (h2, Ok ())
     \<and> hf_active_carrier h2 = Some 8 \<and> hf_race_winners h2 9 = Some 7"
proof -
  let ?io = "\<lparr>io_now = 0, io_unix = None, io_target = IoDone\<rparr>"
  let ?later = "[InAttach 8 ''r'' 1 (Ok ()) True, InEvent ?io (CarrierFrame 8 (Race 5 10 0))]"
  have i: "fk_flow_id (hcf_key sample_home_config) = 5" by (simp add: sample_home_config_def)
  obtain h1 where h1: "home_on_input sample_home_config (InEvent ?io (CarrierFrame 7 (Race 5 9 0)))
      (home_init sample_home_config 0) = (h1, Ok ())"
    by (simp add: home_on_input_def home_handle_event_def home_on_frame_def i home_init_def Let_def)
  have "\<exists>h2. home_flow_run sample_home_config ?later h1 = (h2, Ok ()) \<and> hf_active_carrier h2 = Some 8"
    using h1 by (auto simp: home_on_input_def home_handle_event_def home_on_frame_def i home_init_def Let_def
        home_attach_def home_on_race_def home_send_to_def home_retransmit_def retransmit_frames_def)
  then obtain h2 where h2: "home_flow_run sample_home_config ?later h1 = (h2, Ok ())" "hf_active_carrier h2 = Some 8"
    by blast
  have "card (named_races ?later - {9}) < 32"
    by (simp add: named_races_def)
  from home_race_decided_once [of sample_home_config "[]" 0, OF _ _ _ _ h2(1) this] h1 i
  have "hf_race_winners h2 9 = Some 7"
    by (simp add: home_init_def)
  with h1 h2 show ?thesis by blast
qed

end
