(* ===== verification/Travel_Flow.thy ===== *)
theory Travel_Flow
  imports Flow_Window
begin

text \<open>
  The Travel end of a TCP flow (\<open>crates/flowsplice-travel-core/src/tcp_flow.rs\<close>): the transfer
  state, the event handler shared by the main loop and the carrier race, and \<open>run_inner\<close> and
  \<open>perform_race\<close> as the steps between their \<open>await\<close> points. Calls to the shared application
  state (metrics, route diagnostics, the table of flow relays) are the list \<open>tf_calls\<close>.
\<close>

section \<open>State\<close>

record carrier_handle =
  cx_relay_id :: string
  cx_tx :: carrier_tx

record transfer_state =
  ts_flow_id :: uuid
  ts_local_written :: bytes
  ts_local_shutdown :: bool
  ts_send_offset :: u64
  ts_send_acked :: u64
  ts_receive_offset :: u64
  ts_unacked :: "segment list"
  ts_unacked_bytes :: nat
  ts_max_unacked_bytes :: nat
  ts_local_eof :: bool
  ts_local_fin_acked :: bool
  ts_remote_eof :: bool
  ts_uploaded_total :: u64
  ts_downloaded_total :: u64

datatype app_call =
    FlowMetric "string option" string u64 "string option" "u64 option"
      \<comment> \<open>record_flow_metric_sample: relay, family, value, result, histogram sample\<close>
  | RouteAttempt "string option" string "u64 option" "string option"
      \<comment> \<open>record_route_attempt: relay, outcome, latency, error\<close>
  | SelectRouteRelay string u64
  | MarkRouteRecovering string
  | UpdateRouteCounters u64 u64
  | FlowRelayInsert string
  | FlowRelayRemove
  | StatusChanged
  | ConnectedOk

record travel_flow =
  tf_transfer :: transfer_state
  tf_carriers :: "(uuid \<times> carrier_handle) list"
  tf_shutdowns :: "uuid list"
  tf_active :: "uuid option"
  tf_recovery_started :: instant
  tf_retry_backoff :: nat
  tf_recovery_jitter :: "nat option"
  tf_reevaluate_secs :: u64
  tf_next_reevaluation :: instant
  tf_connected :: bool
  tf_flow_relay :: "string option"
  tf_calls :: "app_call list"

text \<open>\<open>tf_shutdowns\<close> lists the carriers that were told to stop, \<open>tf_connected\<close> says whether the
  \<open>connected\<close> sender is still there, \<open>tf_flow_relay\<close> is the flow's entry in \<open>flow_relays\<close>.
  Instants and durations are in milliseconds.\<close>

record travel_config =
  tcf_max_unacked_bytes :: nat
  tcf_reevaluate_secs :: u64
  tcf_max_reevaluate_secs :: u64
  tcf_recovery_timeout_secs :: u64
  tcf_race_timeout_secs :: u64
  tcf_max_carriers_per_flow :: nat

datatype write_result = Wrote nat | WroteErr | WroteTimeout
datatype shutdown_result = ShutDone | ShutErr | ShutTimeout

record travel_io =
  tio_writes :: "write_result list"
  tio_shutdown :: shutdown_result

datatype travel_event =
    LocalData bytes
  | LocalEof
  | LocalError string
  | TCarrierFrame uuid data_frame
  | TCarrierClosed uuid string

section \<open>Helpers\<close>

definition app_call :: "app_call \<Rightarrow> travel_flow \<Rightarrow> travel_flow" where
  "app_call c tf = tf\<lparr>tf_calls := tf_calls tf @ [c]\<rparr>"

definition travel_send_to :: "uuid \<Rightarrow> data_frame \<Rightarrow> travel_flow \<Rightarrow> travel_flow" where
  "travel_send_to carrier_id frame tf =
     (case map_of (tf_carriers tf) carrier_id of
        None \<Rightarrow> tf
      | Some handle \<Rightarrow> tf\<lparr>tf_carriers := AList.update carrier_id
           (handle\<lparr>cx_tx := tx_send frame (cx_tx handle)\<rparr>) (tf_carriers tf)\<rparr>)"

definition travel_retransmit :: "uuid \<Rightarrow> travel_flow \<Rightarrow> travel_flow" where
  "travel_retransmit carrier_id tf =
     (let t = tf_transfer tf in
      fold (travel_send_to carrier_id)
        (retransmit_frames (ts_flow_id t) (ts_unacked t) (ts_local_eof t) (ts_send_offset t)) tf)"

definition travel_acknowledge :: "u64 \<Rightarrow> transfer_state \<Rightarrow> transfer_state \<times> unit res" where
  "travel_acknowledge next_offset t =
     (let (unacked, unacked_bytes) = pop_acked next_offset (ts_unacked t) (ts_unacked_bytes t);
          t' = t\<lparr>ts_unacked := unacked, ts_unacked_bytes := unacked_bytes\<rparr>
      in if front_before unacked next_offset then (t', Err (Flow AckSplitFrame))
         else (t'\<lparr>ts_send_acked := next_offset\<rparr>, Ok ()))"

definition close_carrier :: "uuid \<Rightarrow> travel_flow \<Rightarrow> travel_flow" where
  "close_carrier carrier_id tf =
     (if map_of (tf_carriers tf) carrier_id = None then tf
      else tf\<lparr>tf_carriers := AList.delete carrier_id (tf_carriers tf),
              tf_shutdowns := tf_shutdowns tf @ [carrier_id]\<rparr>)"

definition close_all :: "travel_flow \<Rightarrow> travel_flow" where
  "close_all tf = tf\<lparr>tf_carriers := [], tf_shutdowns := tf_shutdowns tf @ map fst (tf_carriers tf)\<rparr>"

definition advance_reevaluation :: "u64 \<Rightarrow> u64 \<Rightarrow> u64 \<Rightarrow> bool \<Rightarrow> u64 \<times> u64" where
  "advance_reevaluation current_secs initial_secs maximum_secs is_stable =
     (let delay_secs = (if is_stable then current_secs else initial_secs)
      in (delay_secs, min (sat_mul delay_secs 2) maximum_secs))"

definition uuid_seed :: "uuid \<Rightarrow> u64" where
  "uuid_seed i = xor (ucast i) (ucast (drop_bit 64 i))"

definition jittered_retry_delay :: "nat \<Rightarrow> u64 \<Rightarrow> nat" where
  "jittered_retry_delay base seed =
     (let spread = max (base div 5) 1;
          mixed = word_rotl 17 (seed * 0x9e3779b97f4a7c15);
          offset = unat mixed mod (spread * 2 + 1)
      in min (base - spread + offset) (2 ^ 64 - 1))"

section \<open>The event handler\<close>

text \<open>The \<open>while delivered < bytes.len()\<close> loop; no further result is a write that is still
  pending at the deadline.\<close>

fun local_write_loop :: "bytes \<Rightarrow> write_result list \<Rightarrow> transfer_state \<Rightarrow> transfer_state \<times> unit res" where
  "local_write_loop [] ws t = (t, Ok ())"
| "local_write_loop (b # bs) [] t = (t, Err (Flow LocalTimeout))"
| "local_write_loop (b # bs) (WroteTimeout # ws) t = (t, Err (Flow LocalTimeout))"
| "local_write_loop (b # bs) (WroteErr # ws) t = (t, Err (Flow LocalFailed))"
| "local_write_loop (b # bs) (Wrote n # ws) t =
     (let count = min n (length (b # bs)) in
      if count = 0 then (t, Err (Flow LocalWriteZero))
      else local_write_loop (drop count (b # bs)) ws
             (t\<lparr>ts_local_written := ts_local_written t @ take count (b # bs),
                ts_receive_offset := sat_add (ts_receive_offset t) (word_of_nat count),
                ts_downloaded_total := ts_downloaded_total t + word_of_nat count\<rparr>))"

definition travel_on_local_data :: "bytes \<Rightarrow> travel_flow \<Rightarrow> travel_flow \<times> unit res" where
  "travel_on_local_data bs tf =
     (let t = tf_transfer tf in
      if ts_max_unacked_bytes t < ts_unacked_bytes t + length bs then (tf, Err (Flow UnackedLimit))
      else
        let segment = \<lparr>seg_offset = ts_send_offset t, seg_bytes = bs\<rparr>;
            t1 = t\<lparr>ts_send_offset := sat_add (ts_send_offset t) (len64 bs),
                   ts_uploaded_total := ts_uploaded_total t + len64 bs,
                   ts_unacked_bytes := ts_unacked_bytes t + length bs\<rparr>;
            tf1 = tf\<lparr>tf_transfer := t1\<rparr>;
            tf2 = (case tf_active tf1 of
                     Some c \<Rightarrow> travel_send_to c (Data (ts_flow_id t1) (seg_offset segment) bs) tf1
                   | None \<Rightarrow> tf1)
        in (tf2\<lparr>tf_transfer := (tf_transfer tf2)\<lparr>ts_unacked := ts_unacked (tf_transfer tf2) @ [segment]\<rparr>\<rparr>,
            Ok ()))"

definition travel_on_local_eof :: "travel_flow \<Rightarrow> travel_flow" where
  "travel_on_local_eof tf =
     (let tf1 = tf\<lparr>tf_transfer := (tf_transfer tf)\<lparr>ts_local_eof := True\<rparr>\<rparr>;
          t = tf_transfer tf1
      in case tf_active tf1 of
           Some c \<Rightarrow> travel_send_to c (Fin (ts_flow_id t) (ts_send_offset t)) tf1
         | None \<Rightarrow> tf1)"

definition travel_on_data :: "travel_io \<Rightarrow> uuid \<Rightarrow> u64 \<Rightarrow> bytes \<Rightarrow> travel_flow \<Rightarrow> travel_flow \<times> unit res" where
  "travel_on_data io carrier_id offset bs tf =
     (let t = tf_transfer tf;
          end_offset = sat_add offset (len64 bs)
      in if offset = ts_receive_offset t then
           (case local_write_loop bs (tio_writes io) t of
              (t1, Err e) \<Rightarrow> (tf\<lparr>tf_transfer := t1\<rparr>, Err e)
            | (t1, Ok _) \<Rightarrow>
                (travel_send_to carrier_id (Ack (ts_flow_id t1) (ts_receive_offset t1))
                   (tf\<lparr>tf_transfer := t1\<rparr>), Ok ()))
         else if end_offset \<le> ts_receive_offset t then
           (travel_send_to carrier_id
              (Duplicate (ts_flow_id t) (ts_receive_offset t)
                 (case tf_active tf of Some a \<Rightarrow> a | None \<Rightarrow> carrier_id)) tf, Ok ())
         else (tf, Err (Flow NonContiguousData)))"

definition travel_on_fin :: "travel_io \<Rightarrow> uuid \<Rightarrow> u64 \<Rightarrow> travel_flow \<Rightarrow> travel_flow \<times> unit res" where
  "travel_on_fin io carrier_id final_offset tf =
     (let t = tf_transfer tf;
          ack = travel_send_to carrier_id (FinAck (ts_flow_id t) final_offset)
      in if ts_remote_eof t then (ack tf, Ok ())
         else (case tio_shutdown io of
                 ShutDone \<Rightarrow> (ack (tf\<lparr>tf_transfer := t\<lparr>ts_local_shutdown := True, ts_remote_eof := True\<rparr>\<rparr>), Ok ())
               | ShutErr \<Rightarrow> (tf, Err (Flow LocalFailed))
               | ShutTimeout \<Rightarrow> (tf, Err (Flow LocalTimeout))))"

definition travel_ack_frame :: "u64 \<Rightarrow> travel_flow \<Rightarrow> travel_flow \<times> unit res" where
  "travel_ack_frame next_offset tf =
     (let (t, r) = travel_acknowledge next_offset (tf_transfer tf) in (tf\<lparr>tf_transfer := t\<rparr>, r))"

definition travel_on_frame :: "travel_io \<Rightarrow> uuid \<Rightarrow> data_frame \<Rightarrow> travel_flow \<Rightarrow> travel_flow \<times> unit res" where
  "travel_on_frame io carrier_id frame tf =
     (let t = tf_transfer tf;
          in_window = (\<lambda>n. ts_send_acked t \<le> n \<and> n \<le> ts_send_offset t);
          invalid = (tf, Err (Flow InvalidFlowFrame))
      in case frame of
           RaceAck flow_id race_id winner \<Rightarrow> (tf, Ok ())
         | RaceDuplicate flow_id race_id winner \<Rightarrow> (tf, Ok ())
         | Data flow_id offset bs \<Rightarrow>
             if flow_id = ts_flow_id t \<and> length bs \<le> MAX_DATA_PAYLOAD
             then travel_on_data io carrier_id offset bs tf else invalid
         | Ack flow_id next_offset \<Rightarrow>
             if flow_id = ts_flow_id t \<and> in_window next_offset
             then travel_ack_frame next_offset tf else invalid
         | Duplicate flow_id next_offset winner \<Rightarrow>
             if flow_id = ts_flow_id t \<and> in_window next_offset
             then travel_ack_frame next_offset tf else invalid
         | Fin flow_id final_offset \<Rightarrow>
             if flow_id = ts_flow_id t \<and> final_offset = ts_receive_offset t
             then travel_on_fin io carrier_id final_offset tf else invalid
         | FinAck flow_id final_offset \<Rightarrow>
             if flow_id = ts_flow_id t \<and> ts_local_eof t \<and> final_offset = ts_send_offset t
             then (tf\<lparr>tf_transfer := t\<lparr>ts_local_fin_acked := True\<rparr>\<rparr>, Ok ()) else invalid
         | Close flow_id reason \<Rightarrow>
             if flow_id = ts_flow_id t then (tf, Err (Flow HomeClosedFlow)) else invalid
         | _ \<Rightarrow> invalid)"

text \<open>\<open>handle_event\<close>; the value of \<open>Ok\<close> says whether the active carrier closed.\<close>

definition handle_event :: "travel_io \<Rightarrow> travel_event \<Rightarrow> travel_flow \<Rightarrow> travel_flow \<times> bool res" where
  "handle_event io event tf =
     (let running = (\<lambda>(tf', r). (tf', rbind r (\<lambda>_. Ok False)))
      in case event of
           LocalData bs \<Rightarrow> running (travel_on_local_data bs tf)
         | LocalEof \<Rightarrow> (travel_on_local_eof tf, Ok False)
         | LocalError reason \<Rightarrow> (tf, Err (Flow LocalFailed))
         | TCarrierClosed carrier_id reason \<Rightarrow>
             (tf\<lparr>tf_carriers := AList.delete carrier_id (tf_carriers tf)\<rparr>,
              Ok (tf_active tf = Some carrier_id))
         | TCarrierFrame carrier_id frame \<Rightarrow> running (travel_on_frame io carrier_id frame tf))"

section \<open>The carrier race\<close>

record relay_candidate_ref =
  rc_expected_id :: "string option"
  rc_label :: string

record business_carrier =
  bc_carrier_id :: uuid
  bc_relay_id :: string
  bc_home_receive_offset :: u64
  bc_home_send_offset :: u64

record race_state =
  rs_race_id :: uuid
  rs_started :: instant
  rs_deadline :: instant
  rs_old_active :: "uuid option"
  rs_old_relay_id :: "string option"
  rs_candidate_ids :: "uuid list"
  rs_opens :: nat

text \<open>\<open>rs_opens\<close> is the number of carrier openings in flight. The loop that spawns them: at most
  \<open>available_slots\<close> candidates, without the Relay that carries the flow already, until no
  carrier permit is left.\<close>

fun spawn_opens :: "string option \<Rightarrow> nat \<Rightarrow> relay_candidate_ref list \<Rightarrow> relay_candidate_ref list" where
  "spawn_opens old_relay permits [] = []"
| "spawn_opens old_relay permits (r # rs) =
     (if rc_expected_id r \<noteq> None \<and> old_relay = rc_expected_id r then spawn_opens old_relay permits rs
      else (case permits of 0 \<Rightarrow> [] | Suc p \<Rightarrow> r # spawn_opens old_relay p rs))"

definition start_race :: "travel_config \<Rightarrow> instant \<Rightarrow> uuid \<Rightarrow> relay_candidate_ref list \<Rightarrow> nat
    \<Rightarrow> travel_flow \<Rightarrow> travel_flow \<times> race_state" where
  "start_race cfg now race_id candidates permits tf =
     (let old_active = tf_active tf;
          old_relay_id = (case old_active of
               Some c \<Rightarrow> map_option cx_relay_id (map_of (tf_carriers tf) c) | None \<Rightarrow> None);
          available_slots = tcf_max_carriers_per_flow cfg - (if old_active = None then 0 else 1);
          spawned = spawn_opens old_relay_id permits (take available_slots candidates);
          tf1 = app_call (RouteAttempt None ''started'' None None) tf;
          tf2 = (case old_active of
                   Some c \<Rightarrow> travel_send_to c
                     (Race (ts_flow_id (tf_transfer tf1)) race_id (ts_send_acked (tf_transfer tf1))) tf1
                 | None \<Rightarrow> tf1)
      in (tf2, \<lparr>rs_race_id = race_id, rs_started = now,
                rs_deadline = now + 1000 * unat (tcf_race_timeout_secs cfg),
                rs_old_active = old_active, rs_old_relay_id = old_relay_id,
                rs_candidate_ids = [], rs_opens = length spawned\<rparr>))"

datatype race_progress = RaceContinue | RaceBreak "uuid option"

definition race_exhausted :: "race_state \<Rightarrow> travel_flow \<Rightarrow> race_progress" where
  "race_exhausted rs tf =
     (if tf_active tf = None \<and> rs_opens rs = 0 \<and> rs_candidate_ids rs = []
      then RaceBreak None else RaceContinue)"

text \<open>One finished opening, in the arm of \<open>opens.join_next()\<close>.\<close>

definition race_opened :: "race_state \<Rightarrow> (business_carrier, string \<times> string) result \<Rightarrow> u64
    \<Rightarrow> travel_flow \<Rightarrow> travel_flow \<times> race_state \<times> race_progress res" where
  "race_opened rs opened latency_ms tf =
     (let rs1 = rs\<lparr>rs_opens := rs_opens rs - 1\<rparr> in
      case opened of
        Err (relay_id, reason) \<Rightarrow>
          let tf1 = app_call (FlowMetric (Some relay_id) ''carrier_attempt'' 1 (Some ''failed'') None) tf;
              tf2 = app_call (RouteAttempt (Some relay_id) ''failed'' (Some latency_ms) (Some reason)) tf1;
              tf3 = app_call (FlowMetric (Some relay_id) ''carrier_setup_latency_ms'' latency_ms
                                (Some ''failed'') (Some latency_ms)) tf2
          in (tf3, rs1, Ok (race_exhausted rs1 tf3))
      | Ok carrier \<Rightarrow>
          let relay_id = bc_relay_id carrier;
              tf1 = app_call (FlowMetric (Some relay_id) ''carrier_attempt'' 1 (Some ''accepted'') None) tf;
              tf2 = app_call (RouteAttempt (Some relay_id) ''succeeded'' (Some latency_ms) None) tf1;
              tf3 = app_call (FlowMetric (Some relay_id) ''carrier_setup_latency_ms'' latency_ms
                                (Some ''accepted'') (Some latency_ms)) tf2;
              t = tf_transfer tf3
          in if ts_send_offset t < bc_home_receive_offset carrier
             then (tf3, rs1, Err (Flow AckUnsent))
             else if bc_home_receive_offset carrier < ts_send_acked t
             then (tf3, rs1, Err (Flow AckBackwards))
             else (case travel_ack_frame (bc_home_receive_offset carrier) tf3 of
                     (tf4, Err e) \<Rightarrow> (tf4, rs1, Err e)
                   | (tf4, Ok _) \<Rightarrow>
                       let carrier_id = bc_carrier_id carrier;
                           tf5 = tf4\<lparr>tf_carriers := AList.update carrier_id
                                   \<lparr>cx_relay_id = relay_id, cx_tx = \<lparr>tx_open = True, tx_queue = []\<rparr>\<rparr>
                                   (tf_carriers tf4)\<rparr>;
                           rs2 = rs1\<lparr>rs_candidate_ids := List.insert carrier_id (rs_candidate_ids rs1)\<rparr>;
                           tf6 = travel_send_to carrier_id (Race (ts_flow_id (tf_transfer tf5))
                                   (rs_race_id rs2) (ts_send_acked (tf_transfer tf5))) tf5
                       in (tf6, rs2, Ok (race_exhausted rs2 tf6))))"

definition race_verdict :: "race_state \<Rightarrow> travel_event \<Rightarrow> travel_flow \<Rightarrow> uuid option" where
  "race_verdict rs event tf =
     (case event of
        TCarrierFrame carrier_id frame \<Rightarrow>
          (case frame of
             RaceAck flow_id race_id winner \<Rightarrow>
               if flow_id = ts_flow_id (tf_transfer tf) \<and> race_id = rs_race_id rs then Some winner else None
           | RaceDuplicate flow_id race_id winner \<Rightarrow>
               if flow_id = ts_flow_id (tf_transfer tf) \<and> race_id = rs_race_id rs then Some winner else None
           | _ \<Rightarrow> None)
      | _ \<Rightarrow> None)"

text \<open>One event of the flow while the race runs, in the arm of \<open>events.recv()\<close>.\<close>

definition race_event :: "travel_io \<Rightarrow> race_state \<Rightarrow> travel_event \<Rightarrow> travel_flow
    \<Rightarrow> travel_flow \<times> race_state \<times> race_progress res" where
  "race_event io rs event tf =
     (case race_verdict rs event tf of
        Some winner \<Rightarrow> (tf, rs, Ok (RaceBreak (Some winner)))
      | None \<Rightarrow>
          (case handle_event io event tf of
             (tf1, Err e) \<Rightarrow> (tf1, rs, Err e)
           | (tf1, Ok closed_active) \<Rightarrow>
               let tf2 = (if closed_active then tf1\<lparr>tf_active := None\<rparr> else tf1)
               in case event of
                    TCarrierClosed carrier_id reason \<Rightarrow>
                      let rs1 = rs\<lparr>rs_candidate_ids := remove1 carrier_id (rs_candidate_ids rs)\<rparr>
                      in (tf2, rs1, Ok (race_exhausted rs1 tf2))
                  | _ \<Rightarrow> (tf2, rs, Ok RaceContinue)))"

text \<open>What \<open>perform_race\<close> does after its loop, with a winner and without.\<close>

definition race_select :: "race_state \<Rightarrow> u64 \<Rightarrow> uuid \<Rightarrow> travel_flow \<Rightarrow> travel_flow" where
  "race_select rs race_latency_ms winner tf =
     (let losers = filter (\<lambda>c. c \<noteq> winner) (map fst (tf_carriers tf));
          tf1 = fold close_carrier losers tf;
          relay = map_option cx_relay_id (map_of (tf_carriers tf1) winner);
          tf2 = app_call (FlowMetric relay ''carrier_winner'' 1 None None) tf1;
          tf3 = (if rs_old_active rs \<noteq> None \<and> rs_old_active rs \<noteq> Some winner
                 then app_call (FlowMetric relay ''carrier_handover'' 1 None None) tf2 else tf2);
          tf4 = app_call (FlowMetric relay ''carrier_race_latency_ms'' race_latency_ms
                            (Some ''winner'') (Some race_latency_ms)) tf3;
          tf5 = tf4\<lparr>tf_active := Some winner\<rparr>
      in case relay of Some r \<Rightarrow> app_call (SelectRouteRelay r race_latency_ms) tf5 | None \<Rightarrow> tf5)"

definition race_won :: "race_state \<Rightarrow> u64 \<Rightarrow> uuid \<Rightarrow> travel_flow \<Rightarrow> travel_flow \<times> uuid option" where
  "race_won rs race_latency_ms winner tf =
     (case map_of (tf_carriers tf) winner of
        None \<Rightarrow> ((close_all tf)\<lparr>tf_active := None\<rparr>, None)
      | Some handle \<Rightarrow> (travel_retransmit winner (race_select rs race_latency_ms winner tf), Some winner))"

definition race_lost :: "race_state \<Rightarrow> u64 \<Rightarrow> travel_flow \<Rightarrow> travel_flow" where
  "race_lost rs race_latency_ms tf =
     (let tf1 = app_call (FlowMetric (rs_old_relay_id rs) ''carrier_race_failed'' 1 (Some ''no_winner'') None) tf;
          tf2 = app_call (RouteAttempt (rs_old_relay_id rs) ''failed'' (Some race_latency_ms)
                            (Some ''Carrier race timed out'')) tf1;
          tf3 = fold close_carrier (rs_candidate_ids rs) tf2
      in case rs_old_active rs of
           Some c \<Rightarrow>
             if map_of (tf_carriers tf3) c \<noteq> None then tf3\<lparr>tf_active := Some c\<rparr>
             else (close_all tf3)\<lparr>tf_active := None\<rparr>
         | None \<Rightarrow> (close_all tf3)\<lparr>tf_active := None\<rparr>)"

definition finish_race :: "race_state \<Rightarrow> u64 \<Rightarrow> uuid option \<Rightarrow> travel_flow \<Rightarrow> travel_flow \<times> uuid option" where
  "finish_race rs race_latency_ms winner tf =
     (case winner of
        Some w \<Rightarrow> race_won rs race_latency_ms w tf
      | None \<Rightarrow> (race_lost rs race_latency_ms tf, None))"

section \<open>The main loop\<close>

definition travel_finished :: "transfer_state \<Rightarrow> bool" where
  "travel_finished t \<longleftrightarrow> ts_local_eof t \<and> ts_remote_eof t \<and> ts_local_fin_acked t \<and> ts_unacked t = []"

definition race_due :: "instant \<Rightarrow> travel_flow \<Rightarrow> bool" where
  "race_due now tf \<longleftrightarrow> tf_active tf = None \<or> tf_next_reevaluation tf \<le> now"

text \<open>The head of the race branch of \<open>run_inner\<close>: the jitter is consumed by the sleep, and a flow
  without a carrier gives up after the recovery timeout.\<close>

definition before_race :: "travel_config \<Rightarrow> instant \<Rightarrow> travel_flow \<Rightarrow> travel_flow \<times> unit res" where
  "before_race cfg now tf =
     (let tf1 = (if tf_active tf = None then tf\<lparr>tf_recovery_jitter := None\<rparr> else tf)
      in if tf_active tf1 = None
            \<and> 1000 * unat (tcf_recovery_timeout_secs cfg) < now - tf_recovery_started tf1
         then (tf1, Err (Flow RecoveryExpired)) else (tf1, Ok ()))"

text \<open>The \<open>match\<close> on the result of \<open>perform_race\<close>; \<open>previous\<close> is the carrier that was active when
  it began.\<close>

definition after_race :: "travel_config \<Rightarrow> instant \<Rightarrow> uuid option \<Rightarrow> uuid option \<Rightarrow> travel_flow
    \<Rightarrow> travel_flow \<times> unit res" where
  "after_race cfg now previous result tf =
     (let advance = advance_reevaluation (tf_reevaluate_secs tf) (tcf_reevaluate_secs cfg)
                      (tcf_max_reevaluate_secs cfg)
      in case result of
           Some winner \<Rightarrow>
             (case map_of (tf_carriers tf) winner of
                None \<Rightarrow> (tf, Err (Flow WinnerVanished))
              | Some handle \<Rightarrow>
                  let relay_id = cx_relay_id handle;
                      tf1 = app_call StatusChanged (app_call (FlowRelayInsert relay_id)
                              (tf\<lparr>tf_active := Some winner, tf_flow_relay := Some relay_id\<rparr>));
                      tf2 = (if tf_connected tf1 then app_call ConnectedOk (tf1\<lparr>tf_connected := False\<rparr>)
                             else tf1);
                      (delay_secs, next_delay_secs) = advance (previous = Some winner)
                  in (tf2\<lparr>tf_recovery_started := now, tf_retry_backoff := 250,
                          tf_next_reevaluation := now + 1000 * unat delay_secs,
                          tf_reevaluate_secs := next_delay_secs\<rparr>, Ok ()))
         | None \<Rightarrow>
             if tf_active tf \<noteq> None then
               let (delay_secs, next_delay_secs) = advance False
               in (tf\<lparr>tf_next_reevaluation := now + 1000 * unat delay_secs,
                       tf_reevaluate_secs := next_delay_secs\<rparr>, Ok ())
             else
               let tf1 = app_call (MarkRouteRecovering ''No Relay won the carrier race'') tf
               in (tf1\<lparr>tf_retry_backoff := min (tf_retry_backoff tf1 * 2) 5000\<rparr>, Ok ()))"

definition main_event :: "travel_config \<Rightarrow> travel_io \<Rightarrow> instant \<Rightarrow> u64 \<Rightarrow> travel_event \<Rightarrow> travel_flow
    \<Rightarrow> travel_flow \<times> unit res" where
  "main_event cfg io now generation event tf =
     (case handle_event io event tf of
        (tf1, Err e) \<Rightarrow> (tf1, Err e)
      | (tf1, Ok closed_active) \<Rightarrow>
          let tf2 = (if closed_active then
                let a = app_call (MarkRouteRecovering ''The active Carrier closed'')
                          (tf1\<lparr>tf_active := None\<rparr>);
                    b = a\<lparr>tf_recovery_jitter := Some (unat (xor (uuid_seed (ts_flow_id (tf_transfer a)))
                             generation mod 251))\<rparr>;
                    c = (if tf_flow_relay b \<noteq> None
                         then app_call StatusChanged (app_call FlowRelayRemove (b\<lparr>tf_flow_relay := None\<rparr>))
                         else b)
                in c\<lparr>tf_recovery_started := now, tf_reevaluate_secs := tcf_reevaluate_secs cfg\<rparr>
                else tf1)
          in (app_call (UpdateRouteCounters (ts_send_offset (tf_transfer tf2))
                          (ts_receive_offset (tf_transfer tf2))) tf2, Ok ()))"

definition travel_init :: "travel_config \<Rightarrow> uuid \<Rightarrow> instant \<Rightarrow> u64 \<Rightarrow> u64 \<Rightarrow> bool \<Rightarrow> travel_flow" where
  "travel_init cfg flow_id now uploaded downloaded connected =
     \<lparr>tf_transfer = \<lparr>ts_flow_id = flow_id, ts_local_written = [], ts_local_shutdown = False,
        ts_send_offset = 0, ts_send_acked = 0, ts_receive_offset = 0, ts_unacked = [],
        ts_unacked_bytes = 0, ts_max_unacked_bytes = tcf_max_unacked_bytes cfg,
        ts_local_eof = False, ts_local_fin_acked = False, ts_remote_eof = False,
        ts_uploaded_total = uploaded, ts_downloaded_total = downloaded\<rparr>,
      tf_carriers = [], tf_shutdowns = [], tf_active = None, tf_recovery_started = now,
      tf_retry_backoff = 250, tf_recovery_jitter = None, tf_reevaluate_secs = tcf_reevaluate_secs cfg,
      tf_next_reevaluation = now, tf_connected = connected, tf_flow_relay = None, tf_calls = []\<rparr>"

section \<open>What the helpers leave unchanged\<close>

definition ts_window :: "transfer_state \<Rightarrow> window" where
  "ts_window t = \<lparr>wn_unacked = ts_unacked t, wn_unacked_bytes = ts_unacked_bytes t,
     wn_send_acked = ts_send_acked t, wn_send_offset = ts_send_offset t\<rparr>"

lemma ts_window_sel [simp]:
  "wn_unacked (ts_window t) = ts_unacked t" "wn_unacked_bytes (ts_window t) = ts_unacked_bytes t"
  "wn_send_acked (ts_window t) = ts_send_acked t" "wn_send_offset (ts_window t) = ts_send_offset t"
  by (simp_all add: ts_window_def)

definition travel_queued :: "travel_flow \<Rightarrow> (uuid \<times> data_frame) set" where
  "travel_queued tf = {(c, f). \<exists>h. map_of (tf_carriers tf) c = Some h \<and> f \<in> set (tx_queue (cx_tx h))}"

lemma app_call_sel [simp]:
  "tf_transfer (app_call c tf) = tf_transfer tf" "tf_carriers (app_call c tf) = tf_carriers tf"
  "tf_active (app_call c tf) = tf_active tf" "travel_queued (app_call c tf) = travel_queued tf"
  by (simp_all add: app_call_def travel_queued_def)

lemma travel_send_to_sel [simp]:
  "tf_transfer (travel_send_to c f tf) = tf_transfer tf"
  "tf_active (travel_send_to c f tf) = tf_active tf"
  by (simp_all add: travel_send_to_def split: option.splits)

lemma fold_travel_send_to_sel [simp]:
  "tf_transfer (fold (travel_send_to c) fs tf) = tf_transfer tf"
  "tf_active (fold (travel_send_to c) fs tf) = tf_active tf"
  by (induction fs arbitrary: tf) simp_all

lemma travel_retransmit_sel [simp]:
  "tf_transfer (travel_retransmit c tf) = tf_transfer tf"
  "tf_active (travel_retransmit c tf) = tf_active tf"
  by (simp_all add: travel_retransmit_def Let_def)

lemma travel_queued_send: "travel_queued (travel_send_to c f tf) \<subseteq> insert (c, f) (travel_queued tf)"
  by (auto simp: travel_queued_def travel_send_to_def tx_send_def update_conv'
      split: option.splits if_splits)

lemma travel_queued_fold_send:
  "travel_queued (fold (travel_send_to c) fs tf) \<subseteq> travel_queued tf \<union> {c} \<times> set fs"
proof (induction fs arbitrary: tf)
  case (Cons f fs)
  then show ?case
    using travel_queued_send [of c f tf] by fastforce
qed simp

lemma travel_queued_retransmit:
  "travel_queued (travel_retransmit c tf) \<subseteq> travel_queued tf \<union> {c} \<times> set (retransmit_frames
     (ts_flow_id (tf_transfer tf)) (ts_unacked (tf_transfer tf)) (ts_local_eof (tf_transfer tf))
     (ts_send_offset (tf_transfer tf)))"
  using travel_queued_fold_send by (simp add: travel_retransmit_def Let_def)

lemma travel_queued_update [simp]:
  "travel_queued (tf\<lparr>tf_transfer := t\<rparr>) = travel_queued tf"
  "travel_queued (tf\<lparr>tf_active := a\<rparr>) = travel_queued tf"
  "travel_queued (tf\<lparr>tf_recovery_jitter := j\<rparr>) = travel_queued tf"
  by (simp_all add: travel_queued_def)

lemma close_carrier_sel [simp]:
  "tf_transfer (close_carrier c tf) = tf_transfer tf" "tf_active (close_carrier c tf) = tf_active tf"
  by (simp_all add: close_carrier_def)

lemma close_all_sel [simp]:
  "tf_transfer (close_all tf) = tf_transfer tf" "tf_carriers (close_all tf) = []"
  "travel_queued (close_all tf) = {}"
  by (simp_all add: close_all_def travel_queued_def)

lemma close_carrier_carriers:
  "map_of (tf_carriers (close_carrier c tf)) d = (if d = c then None else map_of (tf_carriers tf) d)"
  by (auto simp: close_carrier_def delete_conv')

lemma fold_close_carrier_sel [simp]:
  "tf_transfer (fold close_carrier cs tf) = tf_transfer tf"
  by (induction cs arbitrary: tf) simp_all

lemma fold_close_carrier_carriers:
  "map_of (tf_carriers (fold close_carrier cs tf)) d =
     (if d \<in> set cs then None else map_of (tf_carriers tf) d)"
  by (induction cs arbitrary: tf) (auto simp: close_carrier_carriers)

lemma travel_queued_fold_close: "travel_queued (fold close_carrier cs tf) \<subseteq> travel_queued tf"
  by (auto simp: travel_queued_def fold_close_carrier_carriers split: if_splits)

lemma race_select_sel:
  "tf_transfer (race_select rs lat w tf) = tf_transfer tf"
  "travel_queued (race_select rs lat w tf) \<subseteq> travel_queued tf"
  "tf_active (race_select rs lat w tf) = Some w"
  "tf_carriers (race_select rs lat w tf) =
     tf_carriers (fold close_carrier (filter (\<lambda>c. c \<noteq> w) (map fst (tf_carriers tf))) tf)"
  using travel_queued_fold_close [of "filter (\<lambda>c. c \<noteq> w) (map fst (tf_carriers tf))" tf]
  by (auto simp: race_select_def Let_def split: option.splits)

section \<open>Travel keeps the window contract\<close>

lemma travel_on_local_data_window:
  assumes "travel_on_local_data b tf = (tf', Ok u)"
  shows "ts_window (tf_transfer tf') = window_push b (ts_window (tf_transfer tf))
     \<and> ts_unacked_bytes (tf_transfer tf) + length b \<le> ts_max_unacked_bytes (tf_transfer tf)"
  using assms
  by (auto simp: travel_on_local_data_def ts_window_def window_push_def Let_def
      split: if_splits option.splits)

lemma travel_acknowledge_window:
  "(case window_ack n (ts_window t) of
      Ok w \<Rightarrow> \<exists>t'. travel_acknowledge n t = (t', Ok ()) \<and> ts_window t' = w
    | Err e \<Rightarrow> \<exists>t'. travel_acknowledge n t = (t', Err e))"
  by (auto simp: travel_acknowledge_def window_ack_def ts_window_def split: prod.splits)

text \<open>The limit sits in the transfer state, so the contract is over a flow together with the
  limit it was started with.\<close>

definition travel_push :: "nat \<Rightarrow> bytes \<Rightarrow> travel_flow \<Rightarrow> travel_flow \<times> unit res" where
  "travel_push limit b tf =
     travel_on_local_data b (tf\<lparr>tf_transfer := (tf_transfer tf)\<lparr>ts_max_unacked_bytes := limit\<rparr>\<rparr>)"

lemma ts_window_limit [simp]: "ts_window (t\<lparr>ts_max_unacked_bytes := m\<rparr>) = ts_window t"
  by (simp add: ts_window_def)

interpretation travel_window: send_window "\<lambda>tf. ts_window (tf_transfer tf)" "\<lambda>limit. limit"
  travel_push travel_ack_frame
proof unfold_locales
  fix n :: u64 and s s' :: travel_flow and u :: unit and w and b and limit
  show "travel_ack_frame n s = (s', Ok u) \<Longrightarrow>
      window_ack n (ts_window (tf_transfer s)) = Ok (ts_window (tf_transfer s'))"
    using travel_acknowledge_window [of n "tf_transfer s"]
    by (auto simp: travel_ack_frame_def split: result.splits prod.splits)
  show "window_ack n (ts_window (tf_transfer s)) = Ok w \<Longrightarrow> snd (travel_ack_frame n s) = Ok ()"
    using travel_acknowledge_window [of n "tf_transfer s"] by (auto simp: travel_ack_frame_def)
  show "travel_push limit b s = (s', Ok u) \<Longrightarrow>
      ts_window (tf_transfer s') = window_push b (ts_window (tf_transfer s))
      \<and> wn_unacked_bytes (ts_window (tf_transfer s)) + length b \<le> limit"
    using travel_on_local_data_window by (fastforce simp: travel_push_def)
qed (auto simp: travel_push_def travel_on_local_data_def Let_def)

section \<open>Travel as a receiver\<close>

definition writes_all :: "write_result list \<Rightarrow> bool" where
  "writes_all ws \<longleftrightarrow> (\<forall>w \<in> set ws. \<exists>n. w = Wrote n \<and> 0 < n)
     \<and> MAX_DATA_PAYLOAD \<le> sum_list (map (\<lambda>w. case w of Wrote n \<Rightarrow> n | _ \<Rightarrow> 0) ws)"

text \<open>The loop delivers a prefix of the frame and counts exactly what it delivered, whatever the
  writes do; it succeeds when the whole frame was delivered.\<close>

definition ts_advance :: "bytes \<Rightarrow> transfer_state \<Rightarrow> transfer_state" where
  "ts_advance ds t = t\<lparr>ts_local_written := ts_local_written t @ ds,
     ts_receive_offset := sat_add (ts_receive_offset t) (len64 ds),
     ts_downloaded_total := ts_downloaded_total t + len64 ds\<rparr>"

lemma sat_add_len64:
  assumes "length xs + length ys < 2 ^ 64"
  shows "sat_add (sat_add x (len64 xs)) (len64 ys) = sat_add x (len64 (xs @ ys))"
  using assms by (auto simp: word_unat_eq_iff unat_sat_add unat_len64)

lemma len64_append: "len64 (xs @ ys) = len64 xs + len64 ys"
  by (simp add: len64_def)

lemma ts_advance_append:
  assumes "length xs + length ys < 2 ^ 64"
  shows "ts_advance ys (ts_advance xs t) = ts_advance (xs @ ys) t"
  using assms by (simp add: ts_advance_def sat_add_len64 len64_append add.assoc)

lemma ts_advance_Nil: "ts_advance [] t = t"
proof -
  have "sat_add x 0 = x" for x :: u64
    using unat_lt2p [of x] by (simp add: sat_add_def)
  then show ?thesis by (simp add: ts_advance_def len64_def)
qed

lemma local_write_loop_Wrote:
  assumes "0 < n" "c = min n (length (b # bs))"
  shows "local_write_loop (b # bs) (Wrote n # ws) t =
     local_write_loop (drop c (b # bs)) ws (ts_advance (take c (b # bs)) t)"
  using assms(1) by (cases n) (simp_all add: Let_def ts_advance_def len64_def assms(2))

lemma local_write_loop_prefix:
  "length bs < 2 ^ 64 \<Longrightarrow> \<exists>d r. local_write_loop bs ws t = (ts_advance (take d bs) t, r)
     \<and> d \<le> length bs \<and> (r = Ok () \<longrightarrow> d = length bs)"
proof (induction bs ws t rule: local_write_loop.induct)
  case (5 b bs n ws t)
  show ?case
  proof (cases "n = 0")
    case True
    then show ?thesis by (auto simp: ts_advance_Nil intro: exI [of _ 0])
  next
    case False
    define c where "c = min n (length (b # bs))"
    let ?t1 = "ts_advance (take c (b # bs)) t"
    have c: "c \<noteq> 0" "c \<le> length (b # bs)" using False by (auto simp: c_def min_def)
    have t1: "t\<lparr>ts_local_written := ts_local_written t @ take c (b # bs),
        ts_receive_offset := sat_add (ts_receive_offset t) (word_of_nat c),
        ts_downloaded_total := ts_downloaded_total t + word_of_nat c\<rparr> = ?t1"
      using c by (simp add: ts_advance_def len64_def min_def)
    have "length (drop c (b # bs)) < 2 ^ 64" using "5.prems" by simp
    from "5.IH" [OF c_def c(1) this] obtain d r where
      d: "local_write_loop (drop c (b # bs)) ws ?t1 = (ts_advance (take d (drop c (b # bs))) ?t1, r)"
        "d \<le> length (drop c (b # bs))" "r = Ok () \<longrightarrow> d = length (drop c (b # bs))"
      unfolding t1 by blast
    have "ts_advance (take d (drop c (b # bs))) ?t1 = ts_advance (take (c + d) (b # bs)) t"
      using "5.prems" d(2) c(2) by (subst ts_advance_append) (auto simp: take_add)
    moreover have "local_write_loop (b # bs) (Wrote n # ws) t =
        local_write_loop (drop c (b # bs)) ws ?t1"
      using False c_def by (intro local_write_loop_Wrote) simp_all
    ultimately show ?thesis
      using d c by (intro exI [of _ "c + d"] exI [of _ r]) auto
  qed
qed (auto simp: ts_advance_Nil intro: exI [of _ 0])

lemma local_write_loop_complete:
  "\<lbrakk>\<forall>w \<in> set ws. \<exists>n. w = Wrote n \<and> 0 < n;
    length bs \<le> sum_list (map (\<lambda>w. case w of Wrote n \<Rightarrow> n | _ \<Rightarrow> 0) ws)\<rbrakk> \<Longrightarrow>
     snd (local_write_loop bs ws t) = Ok ()"
proof (induction ws arbitrary: bs t)
  case Nil
  then show ?case by simp
next
  case (Cons w ws)
  then obtain n where w: "w = Wrote n" "0 < n" by auto
  show ?case
  proof (cases bs)
    case (Cons b bs')
    with w Cons.prems Cons.IH show ?thesis
      by (subst Cons, subst w(1), subst local_write_loop_Wrote [OF w(2) refl]) auto
  qed simp
qed

lemma travel_write_done:
  assumes "writes_all ws" "length bs \<le> MAX_DATA_PAYLOAD"
  shows "local_write_loop bs ws t = (ts_advance bs t, Ok ())"
proof -
  have l: "length bs < 2 ^ 64" using assms(2) by (simp add: MAX_DATA_PAYLOAD_def)
  have "snd (local_write_loop bs ws t) = Ok ()"
    using assms by (intro local_write_loop_complete) (auto simp: writes_all_def)
  with local_write_loop_prefix [OF l, of ws t] show ?thesis by auto
qed

lemma ts_advance_sel [simp]:
  "ts_flow_id (ts_advance ds t) = ts_flow_id t" "ts_window (ts_advance ds t) = ts_window t"
  "ts_local_written (ts_advance ds t) = ts_local_written t @ ds"
  "ts_receive_offset (ts_advance ds t) = sat_add (ts_receive_offset t) (len64 ds)"
  "ts_local_eof (ts_advance ds t) = ts_local_eof t" "ts_remote_eof (ts_advance ds t) = ts_remote_eof t"
  "ts_local_fin_acked (ts_advance ds t) = ts_local_fin_acked t"
  "ts_unacked (ts_advance ds t) = ts_unacked t"
  by (simp_all add: ts_advance_def ts_window_def)

interpretation travel_receiver: stream_receiver "\<lambda>(io, c) tf. writes_all (tio_writes io)"
  "\<lambda>x tf. ts_flow_id (tf_transfer tf)" "\<lambda>tf. ts_local_written (tf_transfer tf)"
  "\<lambda>tf. ts_receive_offset (tf_transfer tf)" "\<lambda>(io, c) f tf. travel_on_frame io c f tf"
  by unfold_locales
     (auto simp: travel_on_frame_def travel_on_data_def travel_write_done Let_def)

end
