(* ===== verification/Flow_System.thy ===== *)
theory Flow_System
  imports Home_Flow Travel_Flow "HOL-Library.Sublist"
begin

text \<open>
  A TCP flow as a whole: Travel, Home and the carriers between them, as a step relation whose
  steps are the handlers of \<open>Travel_Flow\<close> and \<open>Home_Flow\<close>. The carriers are as unreliable as
  the code has to expect: a frame that was put on the wire may arrive late, out of order with
  the frames of other carriers, more than once or never, carriers close at any moment, sockets
  fail at any byte, and races start, finish and time out at any time. The invariant is stated
  once for a direction (a sender with its stream, a receiver) and used for both.
\<close>

section \<open>States and steps\<close>

record flow_system =
  sy_travel :: travel_flow
  sy_race :: "race_state option"
  sy_travel_done :: "unit res option"
  sy_home :: home_flow
  sy_home_done :: "unit res option"
  sy_to_home :: "(uuid \<times> data_frame) list"
  sy_to_travel :: "(uuid \<times> data_frame) list"
  sy_local :: "bytes list"
  sy_target :: "bytes list"
  sy_epoch :: nat

text \<open>\<open>sy_local\<close> and \<open>sy_target\<close> are the chunks the flow has taken from the two socket readers. When
  \<open>run_flow\<close> has ended at Home, for whatever reason, the registry forgets the flow, and the next
  carrier with the same \<open>FlowKey\<close> starts it again: a new task, all offsets 0, and a new connection to
  the target (\<open>home_reopened\<close>). \<open>sy_epoch\<close> counts how often that happened; Home's part of the state
  and \<open>sy_target\<close> are those of the current task.\<close>

definition sys_init :: "travel_config \<Rightarrow> home_config \<Rightarrow> instant \<Rightarrow> flow_system" where
  "sys_init tc hc now = \<lparr>sy_travel = travel_init tc (fk_flow_id (hcf_key hc)) now 0 0 False,
     sy_race = None, sy_travel_done = None, sy_home = home_init hc now, sy_home_done = None,
     sy_to_home = [], sy_to_travel = [], sy_local = [], sy_target = [], sy_epoch = 0\<rparr>"

fun done_of :: "unit res \<Rightarrow> unit res option" where
  "done_of (Ok u) = None"
| "done_of (Err e) = Some (Err e)"

text \<open>The result of a race step: carry on, or leave \<open>perform_race\<close> and complete the branch of
  \<open>run_inner\<close> that called it.\<close>

definition race_conclude :: "travel_config \<Rightarrow> instant \<Rightarrow> u64
    \<Rightarrow> travel_flow \<times> race_state \<times> race_progress res \<Rightarrow> flow_system \<Rightarrow> flow_system" where
  "race_conclude tc now latency out s =
     (case out of
        (tf, rs, Err e) \<Rightarrow> s\<lparr>sy_travel := tf, sy_race := None, sy_travel_done := Some (Err e)\<rparr>
      | (tf, rs, Ok RaceContinue) \<Rightarrow> s\<lparr>sy_travel := tf, sy_race := Some rs\<rparr>
      | (tf, rs, Ok (RaceBreak w)) \<Rightarrow>
          (let (tf1, result) = finish_race rs latency w tf;
               (tf2, r) = after_race tc now (rs_old_active rs) result tf1
           in s\<lparr>sy_travel := tf2, sy_race := None, sy_travel_done := done_of r\<rparr>))"

definition travel_step :: "travel_config \<Rightarrow> travel_io \<Rightarrow> instant \<Rightarrow> u64 \<Rightarrow> u64 \<Rightarrow> travel_event
    \<Rightarrow> flow_system \<Rightarrow> flow_system" where
  "travel_step tc io now generation latency event s =
     (case sy_race s of
        None \<Rightarrow> (let (tf, r) = main_event tc io now generation event (sy_travel s)
                 in s\<lparr>sy_travel := tf, sy_travel_done := done_of r\<rparr>)
      | Some rs \<Rightarrow> race_conclude tc now latency (race_event io rs event (sy_travel s)) s)"

definition home_step :: "home_config \<Rightarrow> home_io \<Rightarrow> home_event \<Rightarrow> flow_system \<Rightarrow> flow_system" where
  "home_step hc io event s =
     (let (h, r) = home_handle_event hc io event (sy_home s)
      in s\<lparr>sy_home := h, sy_home_done := done_of r\<rparr>)"

text \<open>A carrier's pump takes the next frame of its queue to the wire; a carrier whose pump has
  ended accepts nothing more.\<close>

definition travel_pump :: "uuid \<Rightarrow> flow_system \<Rightarrow> flow_system" where
  "travel_pump c s =
     (case map_of (tf_carriers (sy_travel s)) c of
        Some h \<Rightarrow> (case tx_queue (cx_tx h) of
            f # q \<Rightarrow> s\<lparr>sy_travel := (sy_travel s)\<lparr>tf_carriers := AList.update c
                 (h\<lparr>cx_tx := (cx_tx h)\<lparr>tx_queue := q\<rparr>\<rparr>) (tf_carriers (sy_travel s))\<rparr>,
               sy_to_home := sy_to_home s @ [(c, f)]\<rparr>
          | [] \<Rightarrow> s)
      | None \<Rightarrow> s)"

definition home_pump :: "uuid \<Rightarrow> flow_system \<Rightarrow> flow_system" where
  "home_pump c s =
     (case map_of (hf_carriers (sy_home s)) c of
        Some tx \<Rightarrow> (case tx_queue tx of
            f # q \<Rightarrow> s\<lparr>sy_home := (sy_home s)\<lparr>hf_carriers := AList.update c
                 (tx\<lparr>tx_queue := q\<rparr>) (hf_carriers (sy_home s))\<rparr>,
               sy_to_travel := sy_to_travel s @ [(c, f)]\<rparr>
          | [] \<Rightarrow> s)
      | None \<Rightarrow> s)"

definition travel_tx_close :: "uuid \<Rightarrow> flow_system \<Rightarrow> flow_system" where
  "travel_tx_close c s =
     (case map_of (tf_carriers (sy_travel s)) c of
        Some h \<Rightarrow> s\<lparr>sy_travel := (sy_travel s)\<lparr>tf_carriers := AList.update c
            (h\<lparr>cx_tx := \<lparr>tx_open = False, tx_queue = []\<rparr>\<rparr>) (tf_carriers (sy_travel s))\<rparr>\<rparr>
      | None \<Rightarrow> s)"

definition home_tx_close :: "uuid \<Rightarrow> flow_system \<Rightarrow> flow_system" where
  "home_tx_close c s =
     (case map_of (hf_carriers (sy_home s)) c of
        Some tx \<Rightarrow> s\<lparr>sy_home := (sy_home s)\<lparr>hf_carriers := AList.update c
            \<lparr>tx_open = False, tx_queue = []\<rparr> (hf_carriers (sy_home s))\<rparr>\<rparr>
      | None \<Rightarrow> s)"

text \<open>\<open>TcpFlowRegistry::attach\<close> for a key that \<open>remove\<close> has taken out of the registry: the old task's
  carriers and its target are gone, frames it had put on the wire are not.\<close>

definition home_reopen :: "home_config \<Rightarrow> instant \<Rightarrow> flow_system \<Rightarrow> flow_system" where
  "home_reopen hc now s = s\<lparr>sy_home := home_init hc now, sy_home_done := None, sy_target := [],
     sy_epoch := Suc (sy_epoch s)\<rparr>"

fun is_open_ok :: "data_frame \<Rightarrow> bool" where
  "is_open_ok (OpenOk i c r s v) = True"
| "is_open_ok f = False"

inductive sys_step :: "travel_config \<Rightarrow> home_config \<Rightarrow> flow_system \<Rightarrow> flow_system \<Rightarrow> bool"
  for tc hc where
  travel_data: "\<lbrakk>sy_travel_done s = None; \<not> ts_local_eof (tf_transfer (sy_travel s));
      stream_ok (sy_local s @ [b]); s' = travel_step tc io now gen lat (LocalData b) s\<rbrakk>
    \<Longrightarrow> sys_step tc hc s (s'\<lparr>sy_local := (if sy_travel_done s' = None then sy_local s @ [b] else sy_local s)\<rparr>)"
| travel_eof: "sy_travel_done s = None \<Longrightarrow> sys_step tc hc s (travel_step tc io now gen lat LocalEof s)"
| travel_error: "sy_travel_done s = None \<Longrightarrow>
    sys_step tc hc s (travel_step tc io now gen lat (LocalError reason) s)"
| travel_closed: "sy_travel_done s = None \<Longrightarrow>
    sys_step tc hc s (travel_step tc io now gen lat (TCarrierClosed c reason) s)"
| travel_frame: "\<lbrakk>sy_travel_done s = None; (c, f) \<in> set (sy_to_travel s); \<not> is_open_ok f\<rbrakk>
    \<Longrightarrow> sys_step tc hc s (travel_step tc io now gen lat (TCarrierFrame c f) s)"
| travel_race: "\<lbrakk>sy_travel_done s = None; sy_race s = None;
      before_race tc now (sy_travel s) = (tf1, Ok ());
      start_race tc now race_id candidates permits tf1 = (tf, rs)\<rbrakk>
    \<Longrightarrow> sys_step tc hc s (s\<lparr>sy_travel := tf, sy_race := Some rs\<rparr>)"
| travel_opened: "\<lbrakk>sy_travel_done s = None; sy_race s = Some rs;
      (c, OpenOk (ts_flow_id (tf_transfer (sy_travel s))) c r a v) \<in> set (sy_to_travel s)\<rbrakk>
    \<Longrightarrow> sys_step tc hc s (race_conclude tc now lat (race_opened rs (Ok \<lparr>bc_carrier_id = c,
          bc_relay_id = relay, bc_home_receive_offset = r, bc_home_send_offset = a\<rparr>) ms (sy_travel s)) s)"
| travel_not_opened: "\<lbrakk>sy_travel_done s = None; sy_race s = Some rs\<rbrakk>
    \<Longrightarrow> sys_step tc hc s (race_conclude tc now lat (race_opened rs (Err e) ms (sy_travel s)) s)"
| travel_race_deadline: "\<lbrakk>sy_travel_done s = None; sy_race s = Some rs\<rbrakk>
    \<Longrightarrow> sys_step tc hc s (race_conclude tc now lat (sy_travel s, rs, Ok (RaceBreak None)) s)"
| travel_finish: "\<lbrakk>sy_travel_done s = None; sy_race s = None;
      travel_finished (tf_transfer (sy_travel s))\<rbrakk>
    \<Longrightarrow> sys_step tc hc s (s\<lparr>sy_travel_done := Some (Ok ())\<rparr>)"
| home_data: "\<lbrakk>sy_home_done s = None; \<not> hf_target_eof (sy_home s);
      stream_ok (sy_target s @ [b]); s' = home_step hc io (TargetData b) s\<rbrakk>
    \<Longrightarrow> sys_step tc hc s (s'\<lparr>sy_target := (if sy_home_done s' = None then sy_target s @ [b] else sy_target s)\<rparr>)"
| home_eof: "sy_home_done s = None \<Longrightarrow> sys_step tc hc s (home_step hc io TargetEof s)"
| home_error: "sy_home_done s = None \<Longrightarrow> sys_step tc hc s (home_step hc io (TargetError reason) s)"
| home_closed: "sy_home_done s = None \<Longrightarrow> sys_step tc hc s (home_step hc io (CarrierClosed c reason) s)"
| home_frame: "\<lbrakk>sy_home_done s = None; (c, f) \<in> set (sy_to_home s)\<rbrakk>
    \<Longrightarrow> sys_step tc hc s (home_step hc io (CarrierFrame c f) s)"
| home_attached: "\<lbrakk>sy_home_done s = None;
      home_attach hc c relay v opened spawned (sy_home s) = (h, frame, r)\<rbrakk>
    \<Longrightarrow> sys_step tc hc s (s\<lparr>sy_home := h, sy_home_done := done_of r,
          sy_to_travel := sy_to_travel s @ (case frame of Some f \<Rightarrow> [(c, f)] | None \<Rightarrow> [])\<rparr>)"
| home_deadline: "\<lbrakk>sy_home_done s = None; home_on_deadline now (sy_home s) = Err e\<rbrakk>
    \<Longrightarrow> sys_step tc hc s (s\<lparr>sy_home_done := Some (Err e)\<rparr>)"
| home_finish: "\<lbrakk>sy_home_done s = None; home_finished (sy_home s)\<rbrakk>
    \<Longrightarrow> sys_step tc hc s (s\<lparr>sy_home_done := Some (Ok ())\<rparr>)"
| home_reopened: "sy_home_done s \<noteq> None \<Longrightarrow> sys_step tc hc s (home_reopen hc now s)"
| pump_travel: "sys_step tc hc s (travel_pump c s)"
| pump_home: "sys_step tc hc s (home_pump c s)"
| close_travel: "sys_step tc hc s (travel_tx_close c s)"
| close_home: "sys_step tc hc s (home_tx_close c s)"

inductive reachable :: "travel_config \<Rightarrow> home_config \<Rightarrow> flow_system \<Rightarrow> bool" for tc hc where
  reachable_init: "reachable tc hc (sys_init tc hc now)"
| reachable_step: "\<lbrakk>reachable tc hc s; sys_step tc hc s s'\<rbrakk> \<Longrightarrow> reachable tc hc s'"

section \<open>One direction of a flow\<close>

record side =
  sd_win :: window
  sd_out :: bytes
  sd_recv :: u64
  sd_eof :: bool
  sd_fin_acked :: bool
  sd_peer_eof :: bool
  sd_failed :: bool
  sd_frames :: "(uuid \<times> data_frame) set"
  sd_first :: bool

text \<open>\<open>sd_first\<close> says that the end has been the same task from the start of the flow.\<close>

text \<open>What a sender's frames say of its stream, and a receiver's frames of what it got.\<close>

fun data_ok :: "uuid \<Rightarrow> bytes list \<Rightarrow> bool \<Rightarrow> data_frame \<Rightarrow> bool" where
  "data_ok i C eof (Data j off bs) \<longleftrightarrow> j = i
     \<and> (\<exists>k < length C. off = word_of_nat (chunk_pos C k) \<and> bs = C ! k)"
| "data_ok i C eof (Fin j off) \<longleftrightarrow> j = i \<and> eof \<and> unat off = length (concat C)"
| "data_ok i C eof f \<longleftrightarrow> True"

definition ack_at :: "bool \<Rightarrow> bytes list \<Rightarrow> u64 \<Rightarrow> u64 \<Rightarrow> bool" where
  "ack_at first C recv n \<longleftrightarrow> (first \<longrightarrow> n \<le> recv) \<and> (\<exists>j \<le> length C. unat n = chunk_pos C j)"

fun ack_ok :: "bool \<Rightarrow> uuid \<Rightarrow> bytes list \<Rightarrow> u64 \<Rightarrow> bool \<Rightarrow> data_frame \<Rightarrow> bool" where
  "ack_ok p i C recv peer_eof (Ack j n) \<longleftrightarrow> ack_at p C recv n"
| "ack_ok p i C recv peer_eof (Duplicate j n w) \<longleftrightarrow> ack_at p C recv n"
| "ack_ok p i C recv peer_eof (OpenOk j c n a v) \<longleftrightarrow> ack_at p C recv n"
| "ack_ok p i C recv peer_eof (FinAck j n) \<longleftrightarrow> (p \<longrightarrow> peer_eof)"
| "ack_ok p i C recv peer_eof f \<longleftrightarrow> True"

definition recv_ok :: "bytes list \<Rightarrow> side \<Rightarrow> bool" where
  "recv_ok C Y \<longleftrightarrow> (\<exists>j. received C j (sd_out Y) (sd_recv Y))
     \<or> sd_failed Y \<and> prefix (sd_out Y) (concat C)"

definition half_inv :: "uuid \<Rightarrow> bytes list \<Rightarrow> side \<Rightarrow> side \<Rightarrow> bool" where
  "half_inv i C X Y \<longleftrightarrow> stream_ok C \<and> window_ok C (sd_win X) \<and> recv_ok C Y
     \<and> (sd_first Y \<longrightarrow> wn_send_acked (sd_win X) \<le> sd_recv Y)
     \<and> (sd_peer_eof Y \<longrightarrow> sd_eof X \<and> sd_out Y = concat C \<and> unat (sd_recv Y) = length (concat C))
     \<and> (sd_first Y \<and> sd_fin_acked X \<longrightarrow> sd_peer_eof Y)
     \<and> (\<forall>(c, f) \<in> sd_frames X. data_ok i C (sd_eof X) f)
     \<and> (\<forall>(c, f) \<in> sd_frames Y. ack_ok (sd_first Y) i C (sd_recv Y) (sd_peer_eof Y) f)"

definition travel_view :: "travel_flow \<Rightarrow> bool \<Rightarrow> (uuid \<times> data_frame) set \<Rightarrow> side" where
  "travel_view tf failed W = (let t = tf_transfer tf in
     \<lparr>sd_win = ts_window t, sd_out = ts_local_written t, sd_recv = ts_receive_offset t,
      sd_eof = ts_local_eof t, sd_fin_acked = ts_local_fin_acked t, sd_peer_eof = ts_remote_eof t,
      sd_failed = failed, sd_frames = travel_queued tf \<union> W, sd_first = True\<rparr>)"

definition home_view :: "bool \<Rightarrow> home_flow \<Rightarrow> bool \<Rightarrow> (uuid \<times> data_frame) set \<Rightarrow> side" where
  "home_view first h failed W =
     \<lparr>sd_win = hf_window h, sd_out = hf_target_written h, sd_recv = hf_receive_offset h,
      sd_eof = hf_target_eof h, sd_fin_acked = hf_target_fin_acked h, sd_peer_eof = hf_travel_eof h,
      sd_failed = failed, sd_frames = home_queued h \<union> W, sd_first = first\<rparr>"

fun is_failed :: "unit res option \<Rightarrow> bool" where
  "is_failed (Some (Err e)) = True"
| "is_failed _ = False"

definition travel_side :: "flow_system \<Rightarrow> side" where
  "travel_side s = travel_view (sy_travel s) (is_failed (sy_travel_done s)) (set (sy_to_home s))"

definition home_side :: "flow_system \<Rightarrow> side" where
  "home_side s = home_view (sy_epoch s = 0) (sy_home s) (is_failed (sy_home_done s)) (set (sy_to_travel s))"

definition sys_inv :: "home_config \<Rightarrow> flow_system \<Rightarrow> bool" where
  "sys_inv hc s \<longleftrightarrow> ts_flow_id (tf_transfer (sy_travel s)) = fk_flow_id (hcf_key hc)
     \<and> half_inv (fk_flow_id (hcf_key hc)) (sy_local s) (travel_side s) (home_side s)
     \<and> (sy_epoch s = 0 \<longrightarrow>
          half_inv (fk_flow_id (hcf_key hc)) (sy_target s) (home_side s) (travel_side s))"

section \<open>A direction under the moves of its ends\<close>

text \<open>Moves of an end that leave its part in this direction alone but for its frames.\<close>

definition sends :: "uuid \<Rightarrow> bytes list \<Rightarrow> side \<Rightarrow> side \<Rightarrow> bool" where
  "sends i C X X' \<longleftrightarrow> sd_first X' = sd_first X \<and> sd_win X' = sd_win X \<and> sd_eof X' = sd_eof X \<and> sd_fin_acked X' = sd_fin_acked X
     \<and> (\<forall>(c, f) \<in> sd_frames X'. (c, f) \<in> sd_frames X \<or> data_ok i C (sd_eof X) f)"

definition replies :: "uuid \<Rightarrow> bytes list \<Rightarrow> side \<Rightarrow> side \<Rightarrow> bool" where
  "replies i C Y Y' \<longleftrightarrow> sd_first Y' = sd_first Y \<and> sd_out Y' = sd_out Y \<and> sd_recv Y' = sd_recv Y \<and> sd_peer_eof Y' = sd_peer_eof Y
     \<and> (sd_failed Y \<longrightarrow> sd_failed Y')
     \<and> (\<forall>(c, f) \<in> sd_frames Y'. (c, f) \<in> sd_frames Y \<or> ack_ok (sd_first Y) i C (sd_recv Y) (sd_peer_eof Y) f)"

lemma sends_refl [simp]: "sends i C X X"
  by (auto simp: sends_def)

lemma replies_refl [simp]: "replies i C Y Y"
  by (auto simp: replies_def)

lemma half_sends: "half_inv i C X Y \<Longrightarrow> sends i C X X' \<Longrightarrow> half_inv i C X' Y"
  by (fastforce simp: half_inv_def sends_def)

lemma half_replies: "half_inv i C X Y \<Longrightarrow> replies i C Y Y' \<Longrightarrow> half_inv i C X Y'"
  by (fastforce simp: half_inv_def replies_def recv_ok_def)

lemma ack_at_mono: "ack_at p C r n \<Longrightarrow> r \<le> r' \<Longrightarrow> ack_at p C r' n"
  by (auto simp: ack_at_def)

lemma ack_ok_mono:
  assumes "ack_ok p i C r e f" "r \<le> r'" "e \<longrightarrow> e'"
  shows "ack_ok p i C r' e' f"
  using assms by (cases f) (auto intro: ack_at_mono)

lemma ack_at_extend: "ack_at p C r n \<Longrightarrow> ack_at p (C @ D) r n"
  unfolding ack_at_def by (metis chunk_pos_append le_add1 length_append order_trans)

lemma ack_ok_extend: "ack_ok p i C r e f \<Longrightarrow> ack_ok p i (C @ D) r e f"
  by (cases f) (auto intro: ack_at_extend)

lemma data_ok_extend:
  assumes "data_ok i C False f"
  shows "data_ok i (C @ D) False f"
  using assms by (cases f) (auto simp: nth_append)

lemma data_ok_eof:
  assumes "data_ok i C False f"
  shows "data_ok i C e f"
  using assms by (cases f) auto

lemma half_push:
  assumes "half_inv i C X Y" "\<not> sd_eof X" "stream_ok (C @ [b])"
    and "sd_win X' = window_push b (sd_win X)" "sd_eof X' = sd_eof X" "sd_fin_acked X' = sd_fin_acked X"
    and "\<forall>(c, f) \<in> sd_frames X'. (c, f) \<in> sd_frames X \<or> data_ok i (C @ [b]) False f"
  shows "half_inv i (C @ [b]) X' Y"
proof -
  have "window_ok (C @ [b]) (sd_win X')"
    using assms window_at_push unfolding half_inv_def window_ok_def by metis
  moreover have "recv_ok (C @ [b]) Y"
    using assms(1) by (auto simp: half_inv_def recv_ok_def intro: received_extend)
  moreover have "wn_send_acked (sd_win X') = wn_send_acked (sd_win X)"
    using assms(4) by (simp add: window_push_def)
  ultimately show ?thesis
    using assms data_ok_extend [of i C _ "[b]"] ack_ok_extend [of _ i C _ _ _ "[b]"]
    unfolding half_inv_def by fastforce
qed

lemma half_eof:
  assumes "half_inv i C X Y" "sd_win X' = sd_win X" "sd_eof X'" "sd_fin_acked X' = sd_fin_acked X"
    and "\<forall>(c, f) \<in> sd_frames X'. (c, f) \<in> sd_frames X \<or> data_ok i C True f"
  shows "half_inv i C X' Y"
proof -
  have "data_ok i C True f" if "(c, f) \<in> sd_frames X" for c f
    using assms(1) that data_ok_eof [of i C f True] by (cases "sd_eof X") (auto simp: half_inv_def)
  with assms show ?thesis
    unfolding half_inv_def by fastforce
qed

lemma half_ack_total:
  assumes "half_inv i C X Y" "ack_at (sd_first Y) C (sd_recv Y) n"
    and "wn_send_acked (sd_win X) \<le> n" "n \<le> wn_send_offset (sd_win X)"
  shows "\<exists>w. window_ack n (sd_win X) = Ok w"
proof -
  obtain k where "window_at C k (sd_win X)" "stream_ok C"
    using assms(1) by (auto simp: half_inv_def window_ok_def)
  with window_ack_cases [OF this assms(3, 4)] assms(2) show ?thesis
    by (auto simp: ack_at_def)
qed

lemma half_ack:
  assumes "half_inv i C X Y" "ack_at (sd_first Y) C (sd_recv Y) n"
    and "wn_send_acked (sd_win X) \<le> n" "n \<le> wn_send_offset (sd_win X)"
    and "window_ack n (sd_win X) = Ok (sd_win X')" "sd_eof X' = sd_eof X"
    and "sd_fin_acked X' = sd_fin_acked X" "sd_frames X' = sd_frames X"
  shows "half_inv i C X' Y"
proof -
  obtain k where k: "window_at C k (sd_win X)" "stream_ok C"
    using assms(1) by (auto simp: half_inv_def window_ok_def)
  from window_ack_cases [OF k assms(3, 4)] assms(5)
  have "window_ok C (sd_win X')" "wn_send_acked (sd_win X') = n"
    by (auto simp: window_ok_def)
  with assms(1, 2, 6, 7, 8) show ?thesis
    unfolding half_inv_def ack_at_def by auto
qed

lemma half_fin_acked:
  assumes "half_inv i C X Y" "sd_first Y \<longrightarrow> sd_peer_eof Y" "sd_win X' = sd_win X" "sd_eof X' = sd_eof X"
    and "sd_frames X' = sd_frames X"
  shows "half_inv i C X' Y"
  using assms unfolding half_inv_def by auto

lemma half_running:
  assumes "half_inv i C X Y" "\<not> sd_failed Y"
  obtains j where "received C j (sd_out Y) (sd_recv Y)" "stream_ok C"
  using assms by (auto simp: half_inv_def recv_ok_def)

lemma half_accept:
  assumes "half_inv i C X Y" "\<not> sd_failed Y" "(c, Data i off bs) \<in> sd_frames X" "off = sd_recv Y"
    and "sd_first Y' = sd_first Y \<and> sd_out Y' = sd_out Y @ bs" "sd_recv Y' = sat_add off (len64 bs)" "sd_peer_eof Y' = sd_peer_eof Y"
    and "\<forall>(c, f) \<in> sd_frames Y'. (c, f) \<in> sd_frames Y
           \<or> (f = Ack i (sd_recv Y') \<or> (\<forall>r. ack_ok (sd_first Y) i C r (sd_peer_eof Y) f))"
  shows "half_inv i C X Y'"
proof -
  obtain j where j: "received C j (sd_out Y) (sd_recv Y)" "stream_ok C"
    using half_running [OF assms(1, 2)] by blast
  obtain k where k: "k < length C" "off = word_of_nat (chunk_pos C k)" "bs = C ! k"
    using assms(1, 3) by (fastforce simp: half_inv_def)
  then have "k = j"
    using received_offset(1) [OF j k(1)] assms(4) by simp
  then have j': "received C (Suc j) (sd_out Y') (sd_recv Y')"
    using received_next [OF j] k assms(4, 5, 6) by simp
  have ge: "sd_recv Y \<le> sd_recv Y'"
    using assms(4, 6) sat_add_ge by metis
  have ne: "\<not> sd_peer_eof Y"
    using assms(1) j(1) k \<open>k = j\<close> chunk_pos_less [OF j(2), of j "length C"]
    by (auto simp: half_inv_def received_def chunk_pos_all)
  have self: "ack_at (sd_first Y) C (sd_recv Y') (sd_recv Y')"
    using j' by (auto simp: ack_at_def received_def)
  have "ack_ok (sd_first Y) i C (sd_recv Y') (sd_peer_eof Y') f" if "(c, f) \<in> sd_frames Y'" for c f
  proof -
    from assms(8) that consider "(c, f) \<in> sd_frames Y" | "f = Ack i (sd_recv Y')"
      | "\<forall>r. ack_ok (sd_first Y) i C r (sd_peer_eof Y) f" by blast
    then show ?thesis
    proof cases
      case 1
      then have "ack_ok (sd_first Y) i C (sd_recv Y) (sd_peer_eof Y) f"
        using assms(1) by (auto simp: half_inv_def)
      with ge assms(7) show ?thesis by (auto intro: ack_ok_mono)
    qed (use self assms(7) in auto)
  qed
  with assms(1, 7) conjunct1 [OF assms(5)] j' ge ne show ?thesis
    unfolding half_inv_def recv_ok_def by auto
qed

lemma half_torn:
  assumes "half_inv i C X Y" "\<not> sd_failed Y" "(c, Data i off bs) \<in> sd_frames X" "off = sd_recv Y"
    and "sd_first Y' = sd_first Y \<and> sd_out Y' = sd_out Y @ take n bs" "sd_recv Y \<le> sd_recv Y'" "sd_failed Y'"
    and "sd_peer_eof Y' = sd_peer_eof Y" "sd_frames Y' \<subseteq> sd_frames Y"
  shows "half_inv i C X Y'"
proof -
  obtain j where j: "received C j (sd_out Y) (sd_recv Y)" "stream_ok C"
    using half_running [OF assms(1, 2)] by blast
  obtain k where k: "k < length C" "off = word_of_nat (chunk_pos C k)" "bs = C ! k"
    using assms(1, 3) by (fastforce simp: half_inv_def)
  then have kj: "k = j"
    using received_offset(1) [OF j k(1)] assms(4) by simp
  have "concat C = concat (take j C) @ C ! j @ concat (drop (Suc j) C)"
    using k(1) kj id_take_nth_drop [of j C] by (metis concat.simps(2) concat_append)
  moreover have "sd_out Y' = concat (take j C) @ take n (C ! j)"
    using j(1) k(3) kj assms(5) by (simp add: received_def)
  ultimately have "concat C = sd_out Y' @ (drop n (C ! j) @ concat (drop (Suc j) C))"
    by (metis append.assoc append_take_drop_id)
  then have pre: "prefix (sd_out Y') (concat C)"
    by (rule prefixI)
  have ne: "\<not> sd_peer_eof Y"
    using assms(1) j(1) k kj chunk_pos_less [OF j(2), of j "length C"]
    by (auto simp: half_inv_def received_def chunk_pos_all)
  have "ack_ok (sd_first Y) i C (sd_recv Y') (sd_peer_eof Y') f" if "(c, f) \<in> sd_frames Y'" for c f
  proof -
    have "ack_ok (sd_first Y) i C (sd_recv Y) (sd_peer_eof Y) f"
      using assms(1, 9) that by (auto simp: half_inv_def)
    with assms(6, 8) show ?thesis by (auto intro: ack_ok_mono)
  qed
  with assms(1, 6, 7, 8) conjunct1 [OF assms(5)] pre ne show ?thesis
    unfolding half_inv_def recv_ok_def by auto
qed

lemma half_fin:
  assumes "half_inv i C X Y" "\<not> sd_failed Y" "(c, Fin i off) \<in> sd_frames X" "off = sd_recv Y"
    and "sd_first Y' = sd_first Y \<and> sd_out Y' = sd_out Y" "sd_recv Y' = sd_recv Y" "sd_peer_eof Y'"
    and "\<forall>(c, f) \<in> sd_frames Y'. (c, f) \<in> sd_frames Y \<or> ack_ok (sd_first Y) i C (sd_recv Y) True f"
  shows "half_inv i C X Y'"
proof -
  obtain j where j: "received C j (sd_out Y) (sd_recv Y)" "stream_ok C"
    using half_running [OF assms(1, 2)] by blast
  have e: "sd_eof X" "unat (sd_recv Y) = length (concat C)"
    using assms(1, 3, 4) by (auto simp: half_inv_def)
  have jl: "j \<le> length C" "unat (sd_recv Y) = chunk_pos C j"
    using j(1) by (auto simp: received_def)
  have "chunk_pos C j = chunk_pos C (length C)"
    using e(2) jl(2) chunk_pos_all [OF order_refl, of C] by simp
  then have "j = length C"
    using chunk_pos_inj [OF j(2) jl(1) order_refl] by blast
  then have out: "sd_out Y = concat C"
    using j by (simp add: received_def)
  have "ack_ok (sd_first Y) i C (sd_recv Y') (sd_peer_eof Y') f" if "(c, f) \<in> sd_frames Y'" for c f
  proof -
    have "ack_ok (sd_first Y) i C (sd_recv Y) (sd_peer_eof Y) f \<or> ack_ok (sd_first Y) i C (sd_recv Y) True f"
      using assms(1, 8) that by (auto simp: half_inv_def)
    with assms(6, 7) show ?thesis by (auto intro: ack_ok_mono)
  qed
  with assms(1, 5, 6, 7) j out e show ?thesis
    unfolding half_inv_def recv_ok_def by auto
qed

lemma half_recv_self: "half_inv i C X Y \<Longrightarrow> \<not> sd_failed Y \<Longrightarrow> ack_at (sd_first Y) C (sd_recv Y) (sd_recv Y)"
  by (auto simp: half_inv_def recv_ok_def ack_at_def received_def)

text \<open>The frames an end may send for its own stream: any unacknowledged segment, and the end of
  the stream once it was read.\<close>

lemma half_segment_ok:
  assumes "half_inv i C X Y" "g \<in> set (wn_unacked (sd_win X))"
  shows "data_ok i C e (Data i (seg_offset g) (seg_bytes g))"
proof -
  obtain k where "window_at C k (sd_win X)"
    using assms(1) by (auto simp: half_inv_def window_ok_def)
  then have "g \<in> set (segs_from (chunk_pos C k) (drop k C))"
    using assms(2) by (simp add: window_at_def)
  from segs_from_set [OF this] show ?thesis by auto
qed

lemma half_sent_length: "half_inv i C X Y \<Longrightarrow> unat (wn_send_offset (sd_win X)) = length (concat C)"
  by (auto simp: half_inv_def window_ok_def window_at_def)

lemma half_retransmit_ok:
  assumes "half_inv i C X Y" "f \<in> set (retransmit_frames i (wn_unacked (sd_win X)) (sd_eof X) (wn_send_offset (sd_win X)))"
  shows "data_ok i C (sd_eof X) f"
  using assms half_segment_ok [OF assms(1)] half_sent_length [OF assms(1)]
  by (auto simp: retransmit_frames_def split: if_splits)

lemma retransmit_frames_ack: "f \<in> set (retransmit_frames i u e n) \<Longrightarrow> ack_ok q j C r p f"
  by (auto simp: retransmit_frames_def split: if_splits)

section \<open>Home's handlers keep both directions\<close>

lemma home_view_sel [simp]:
  "sd_win (home_view p h b W) = hf_window h" "sd_out (home_view p h b W) = hf_target_written h"
  "sd_recv (home_view p h b W) = hf_receive_offset h" "sd_eof (home_view p h b W) = hf_target_eof h"
  "sd_fin_acked (home_view p h b W) = hf_target_fin_acked h"
  "sd_peer_eof (home_view p h b W) = hf_travel_eof h" "sd_failed (home_view p h b W) = b"
  "sd_frames (home_view p h b W) = home_queued h \<union> W" "sd_first (home_view p h b W) = p"
  by (simp_all add: home_view_def)

lemma travel_view_sel [simp]:
  "sd_win (travel_view tf b W) = ts_window (tf_transfer tf)"
  "sd_out (travel_view tf b W) = ts_local_written (tf_transfer tf)"
  "sd_recv (travel_view tf b W) = ts_receive_offset (tf_transfer tf)"
  "sd_eof (travel_view tf b W) = ts_local_eof (tf_transfer tf)"
  "sd_fin_acked (travel_view tf b W) = ts_local_fin_acked (tf_transfer tf)"
  "sd_peer_eof (travel_view tf b W) = ts_remote_eof (tf_transfer tf)"
  "sd_failed (travel_view tf b W) = b" "sd_first (travel_view tf b W)" "sd_frames (travel_view tf b W) = travel_queued tf \<union> W"
  by (simp_all add: travel_view_def Let_def)

text \<open>Both directions, seen from one end (\<open>Y\<close>) and the other (\<open>X\<close>): \<open>C\<close> flows to \<open>Y\<close>, \<open>D\<close> from it.
  Nothing is said of the stream of an end that has been created again.\<close>

definition both :: "uuid \<Rightarrow> bytes list \<Rightarrow> bytes list \<Rightarrow> side \<Rightarrow> side \<Rightarrow> bool" where
  "both i C D X Y \<longleftrightarrow> (sd_first X \<longrightarrow> half_inv i C X Y) \<and> (sd_first Y \<longrightarrow> half_inv i D Y X)"

definition harmless :: "uuid \<Rightarrow> bytes list \<Rightarrow> bytes list \<Rightarrow> side \<Rightarrow> side \<Rightarrow> data_frame \<Rightarrow> bool" where
  "harmless i C D X Y f \<longleftrightarrow> (sd_first Y \<longrightarrow> data_ok i D (sd_eof Y) f)
     \<and> (sd_first X \<longrightarrow> ack_ok (sd_first Y) i C (sd_recv Y) (sd_peer_eof Y) f)"

lemma both_quiet:
  assumes "both i C D X Y" "\<not> sd_failed Y" "sd_first Y' = sd_first Y"
    and "sd_win Y' = sd_win Y" "sd_out Y' = sd_out Y" "sd_recv Y' = sd_recv Y" "sd_eof Y' = sd_eof Y"
    and "sd_fin_acked Y' = sd_fin_acked Y" "sd_peer_eof Y' = sd_peer_eof Y"
    and "\<forall>(c, f) \<in> sd_frames Y'. (c, f) \<in> sd_frames Y \<or> harmless i C D X Y f"
  shows "both i C D X Y'"
proof -
  have "sd_first X \<Longrightarrow> replies i C Y Y'" "sd_first Y \<Longrightarrow> sends i D Y Y'"
    using assms(2-10) by (auto simp: replies_def sends_def harmless_def)
  with assms(1, 3) show ?thesis
    by (auto simp: both_def intro: half_replies half_sends)
qed

lemma home_send_both:
  assumes "both i C D X (home_view p h False W)" "harmless i C D X (home_view p h False W) f"
  shows "both i C D X (home_view p (home_send_to c f h) b W)"
  using assms(1) by (rule both_quiet)
    (use assms(2) home_queued_send [of c f h] in \<open>auto simp: hf_window_def\<close>)

lemma home_on_race_both:
  assumes "both i C D X (home_view p h False W)" "i = fk_flow_id (hcf_key hc)"
  shows "both i C D X (home_view p (home_on_race hc c race_id h) b W)"
proof (cases "hf_race_winners h race_id")
  case (Some w)
  with assms show ?thesis
    by (simp add: home_on_race_def home_send_both harmless_def)
next
  case None
  obtain order winners where t: "trim_races (hf_race_order h @ [race_id])
      ((hf_race_winners h)(race_id \<mapsto> c)) = (order, winners)"
    by (metis surj_pair)
  define h1 where "h1 = h\<lparr>hf_race_winners := winners, hf_race_order := order,
      hf_active_carrier := Some c, hf_selected_once := True, hf_detached_deadline := None\<rparr>"
  define h2 where "h2 = home_send_to c (RaceAck i race_id c) h1"
  have h': "home_on_race hc c race_id h = home_retransmit c i h2"
    using None t assms(2) by (simp add: home_on_race_def h1_def h2_def Let_def)
  have "both i C D X (home_view p h1 False W)"
    using assms(1) by (rule both_quiet) (auto simp: h1_def hf_window_def home_queued_def)
  then have B: "both i C D X (home_view p h2 False W)"
    unfolding h2_def by (rule home_send_both) (simp add: harmless_def)
  have "harmless i C D X (home_view p h2 False W) f"
    if "f \<in> set (retransmit_frames i (hf_unacked h2) (hf_target_eof h2) (hf_send_offset h2))" for f
    using that B half_retransmit_ok [of i D "home_view p h2 False W" X f] retransmit_frames_ack
    by (auto simp: harmless_def both_def)
  then show ?thesis
    unfolding h' using B home_queued_retransmit [of c i h2]
    by (intro both_quiet [OF B]) (auto simp: hf_window_def)
qed

lemma home_torn_both:
  assumes "both i C D X (home_view p h False W)" "sd_first X" "(c, Data i (hf_receive_offset h) bs) \<in> sd_frames X"
  shows "both i C D X (home_view p (h\<lparr>hf_target_written := hf_target_written h @ take n bs\<rparr>) True W)"
proof -
  have A: "half_inv i C X (home_view p h False W)" and B: "p \<Longrightarrow> half_inv i D (home_view p h False W) X"
    using assms(1, 2) by (auto simp: both_def)
  have "sends i D (home_view p h False W)
      (home_view p (h\<lparr>hf_target_written := hf_target_written h @ take n bs\<rparr>) True W)"
    by (auto simp: sends_def hf_window_def)
  then show ?thesis
    unfolding both_def using half_sends [OF B] half_torn [OF A _ assms(3)] by auto
qed

lemma home_on_data_both:
  assumes "both i C D X (home_view p h False W)" "sd_first X" "i = fk_flow_id (hcf_key hc)"
    and "(c', Data i off bs) \<in> sd_frames X" "home_on_data hc io c off bs h = (h', r)"
  shows "both i C D X (home_view p h' (\<exists>e. r = Err e) W)"
proof -
  let ?Y = "home_view p h False W"
  have A: "half_inv i C X ?Y" and B: "p \<Longrightarrow> half_inv i D ?Y X"
    using assms(1, 2) by (auto simp: both_def)
  have self: "ack_at p C (hf_receive_offset h) (hf_receive_offset h)"
    using half_recv_self [OF A] by simp
  show ?thesis
  proof (cases "off = hf_receive_offset h \<and> hf_active_carrier h = Some c")
    case False
    with assms self show ?thesis
      by (auto simp: home_on_data_def Let_def harmless_def intro!: home_send_both split: if_splits)
  next
    case True
    show ?thesis
    proof (cases "io_target io")
      case IoDone
      let ?h1 = "h\<lparr>hf_target_written := hf_target_written h @ bs\<rparr>"
      let ?h2 = "?h1\<lparr>hf_receive_offset := sat_add off (len64 bs)\<rparr>"
      define h3 where "h3 = record_home_tcp_metric hc io (map_of (hf_carrier_relays ?h2) c)
          ''delivered_upload_bytes'' (len64 bs) ?h2"
      have h': "h' = home_send_to c (Ack i (sat_add off (len64 bs))) h3" "r = Ok ()"
        using assms(3, 5) True IoDone by (auto simp: home_on_data_def write_target_def h3_def Let_def)
      have fr: "home_queued h' \<subseteq> insert (c, Ack i (sat_add off (len64 bs))) (home_queued h)"
        using home_queued_send [of c _ h3] h' by (auto simp: h3_def)
      have "half_inv i C X (home_view p h' False W)"
        by (rule half_accept [OF A _ assms(4)]) (use True fr in \<open>auto simp: h' h3_def\<close>)
      moreover have "half_inv i D (home_view p h' False W) X" if p
        by (rule half_sends [OF B [OF that]]) (use fr in \<open>auto simp: sends_def h' h3_def hf_window_def\<close>)
      ultimately show ?thesis using h' by (simp add: both_def)
    qed (use assms True in \<open>auto simp: home_on_data_def write_target_def intro: home_torn_both\<close>)
  qed
qed

lemma home_on_fin_both:
  assumes "both i C D X (home_view p h False W)" "sd_first X" "i = fk_flow_id (hcf_key hc)"
    and "(c', Fin i (hf_receive_offset h)) \<in> sd_frames X"
    and "home_on_fin hc io c (hf_receive_offset h) h = (h', r)"
  shows "both i C D X (home_view p h' (\<exists>e. r = Err e) W)"
proof -
  let ?Y = "home_view p h False W"
  have A: "half_inv i C X ?Y" and B: "p \<Longrightarrow> half_inv i D ?Y X"
    using assms(1, 2) by (auto simp: both_def)
  let ?h1 = "h\<lparr>hf_target_shutdown := True, hf_travel_eof := True\<rparr>"
  let ?h2 = "home_send_to c (FinAck i (hf_receive_offset h)) ?h1"
  have q: "home_queued ?h2 \<subseteq> insert (c, FinAck i (hf_receive_offset h)) (home_queued h)"
    using home_queued_send [of c _ ?h1] by (auto simp: home_queued_def)
  have "half_inv i C X (home_view p ?h2 False W)"
    by (rule half_fin [OF A _ assms(4)]) (use q in auto)
  moreover have "half_inv i D (home_view p ?h2 False W) X" if p
    by (rule half_sends [OF B [OF that]]) (use q in \<open>auto simp: sends_def hf_window_def\<close>)
  moreover have "both i C D X (home_view p h True W)"
    using assms(1) by (rule both_quiet) auto
  moreover have "both i C D X (home_view p (home_send_to c (FinAck i (hf_receive_offset h)) h) False W)"
    if "hf_travel_eof h"
    using assms(1) by (rule home_send_both) (simp add: harmless_def that)
  ultimately show ?thesis
    using assms(2, 3, 5) unfolding both_def
    by (auto simp: home_on_fin_def Let_def split: if_splits io_outcome.splits)
qed

lemma home_acknowledge_same:
  assumes "home_acknowledge n h = (h', r)"
  shows "hf_target_written h' = hf_target_written h" "hf_receive_offset h' = hf_receive_offset h"
    "hf_target_eof h' = hf_target_eof h" "hf_target_fin_acked h' = hf_target_fin_acked h"
    "hf_travel_eof h' = hf_travel_eof h" "home_queued h' = home_queued h"
  using assms by (auto simp: home_acknowledge_def home_queued_def Let_def split: prod.splits if_splits)

lemma home_acknowledge_both:
  assumes "both i C D X (home_view p h False W)" "p \<longrightarrow> ack_at (sd_first X) D (sd_recv X) n"
    and "hf_send_acked h \<le> n" "n \<le> hf_send_offset h" "home_acknowledge n h = (h', r)"
  shows "both i C D X (home_view p h' (\<exists>e. r = Err e) W) \<and> (p \<longrightarrow> r = Ok ())"
proof -
  let ?Y = "home_view p h False W"
  note same = home_acknowledge_same [OF assms(5)]
  have A: "half_inv i C X (home_view p h' b W)" if "sd_first X" for b
    by (rule half_replies [of i C X ?Y]) (use assms(1) that in \<open>auto simp: both_def replies_def same\<close>)
  have "half_inv i D (home_view p h' b W) X \<and> r = Ok ()" if p for b
  proof -
    have B: "half_inv i D ?Y X" and at: "ack_at (sd_first X) D (sd_recv X) n"
      using assms(1, 2) that by (simp_all add: both_def)
    obtain w where w: "window_ack n (hf_window h) = Ok w"
      using half_ack_total [OF B at] assms(3, 4) by auto
    then have h': "r = Ok ()" "hf_window h' = w"
      using home_acknowledge_window [of n h] assms(5) by auto
    have "half_inv i D (home_view p h' b W) X"
      by (rule half_ack [OF B at]) (use assms(3, 4) w h' same in auto)
    with h' show ?thesis by simp
  qed
  with A show ?thesis by (auto simp: both_def)
qed

lemma ack_frame_at: "half_inv i D Y X \<Longrightarrow> (c, f) \<in> sd_frames X \<Longrightarrow>
    ack_ok (sd_first X) i D (sd_recv X) (sd_peer_eof X) f"
  by (auto simp: half_inv_def)

lemma data_frame_id: "half_inv i C X Y \<Longrightarrow> (c, f) \<in> sd_frames X \<Longrightarrow> data_ok i C (sd_eof X) f"
  by (auto simp: half_inv_def)

lemma home_on_frame_both:
  assumes "both i C D X (home_view p h False W)" "sd_first X" "i = fk_flow_id (hcf_key hc)"
    and "(c, f) \<in> sd_frames X" "home_on_frame hc io c f h = (h', r)"
  shows "both i C D X (home_view p h' (\<exists>e. r = Err e) W)"
proof -
  have B: "half_inv i D (home_view p h False W) X" if p
    using assms(1) that by (auto simp: both_def)
  have ack: "p \<longrightarrow> ack_ok (sd_first X) i D (sd_recv X) (sd_peer_eof X) f"
    using ack_frame_at [OF B assms(4)] by simp
  have failed: "both i C D X (home_view p h b W)" for b
    using assms(1) by (rule both_quiet) auto
  have invalid: "both i C D X (home_view p (home_send_to c (Close i z) h) False W)" for z
    using assms(1) by (rule home_send_both) (simp add: harmless_def)
  have fin: "both i C D X (home_view p (h\<lparr>hf_target_fin_acked := True\<rparr>) False W)" if "p \<longrightarrow> sd_peer_eof X"
  proof -
    have "replies i C (home_view p h False W) (home_view p (h\<lparr>hf_target_fin_acked := True\<rparr>) False W)"
      by (auto simp: replies_def home_queued_def)
    moreover have "half_inv i D (home_view p (h\<lparr>hf_target_fin_acked := True\<rparr>) False W) X" if p
      by (rule half_fin_acked [OF B [OF that]]) (use \<open>p \<longrightarrow> sd_peer_eof X\<close> that in \<open>auto simp: hf_window_def home_queued_def\<close>)
    ultimately show ?thesis
      using assms(1) by (auto simp: both_def intro: half_replies)
  qed
  show ?thesis
    using assms ack failed invalid fin
      home_on_race_both [OF assms(1, 3)] home_on_data_both [OF assms(1-3)]
      home_on_fin_both [OF assms(1-3)] home_acknowledge_both [OF assms(1)]
    by (cases f) (auto simp: home_on_frame_def Let_def split: if_splits)
qed

lemma home_on_target_data_both:
  assumes "both i C D X (home_view p h False W)" "i = fk_flow_id (hcf_key hc)"
    and "\<not> hf_target_eof h" "stream_ok (D @ [b])" "home_on_target_data hc io b h = (h', Ok u)"
  shows "both i C (D @ [b]) X (home_view p h' False W)"
proof -
  have A: "sd_first X \<Longrightarrow> half_inv i C X (home_view p h False W)" and B: "p \<Longrightarrow> half_inv i D (home_view p h False W) X"
    using assms(1) by (auto simp: both_def)
  have same: "hf_target_written h' = hf_target_written h" "hf_receive_offset h' = hf_receive_offset h"
    "hf_target_eof h' = hf_target_eof h" "hf_target_fin_acked h' = hf_target_fin_acked h"
    "hf_travel_eof h' = hf_travel_eof h"
    using assms(5) by (auto simp: home_on_target_data_def Let_def split: if_splits option.splits)
  have off: "unat (hf_send_offset h) = length (concat D)" if p
    using half_sent_length [OF B [OF that]] by simp
  have q: "(c, f) \<in> home_queued h \<or> f = Data i (hf_send_offset h) b" if "(c, f) \<in> home_queued h'" for c f
  proof -
    let ?h1 = "record_home_tcp_metric hc io
      (case hf_active_carrier h of Some c \<Rightarrow> map_of (hf_carrier_relays h) c | None \<Rightarrow> None)
      ''home_flow_download_observed_bytes'' (len64 b) h"
    let ?h2 = "?h1\<lparr>hf_send_offset := sat_add (hf_send_offset ?h1) (len64 b),
      hf_unacked_bytes := hf_unacked_bytes ?h1 + length b\<rparr>"
    show ?thesis
      using assms(2, 5) that home_queued_send [of _ _ ?h2]
      by (fastforce simp: home_on_target_data_def Let_def split: if_splits option.splits)
  qed
  have new: "data_ok i (D @ [b]) e (Data i (hf_send_offset h) b)" if p for e
    using off [OF that] word_pos [OF off [OF that]] by (auto intro!: exI [of _ "length D"] simp: chunk_pos_def)
  have "half_inv i (D @ [b]) (home_view p h' False W) X" if p
    by (rule half_push [OF B [OF that] _ assms(4)])
       (use assms(3) home_on_target_data_window [OF assms(5)] same q new [OF that] in fastforce)+
  moreover have "half_inv i C X (home_view p h' False W)" if "sd_first X"
    by (rule half_replies [OF A [OF that]]) (use q in \<open>fastforce simp: replies_def same\<close>)
  ultimately show ?thesis by (simp add: both_def)
qed

lemma home_on_target_eof_both:
  assumes "both i C D X (home_view p h False W)" "i = fk_flow_id (hcf_key hc)"
  shows "both i C D X (home_view p (home_on_target_eof hc h) False W)"
proof -
  have A: "sd_first X \<Longrightarrow> half_inv i C X (home_view p h False W)" and B: "p \<Longrightarrow> half_inv i D (home_view p h False W) X"
    using assms(1) by (auto simp: both_def)
  let ?h = "home_on_target_eof hc h"
  have q: "(c, f) \<in> home_queued h \<or> f = Fin i (hf_send_offset h)" if "(c, f) \<in> home_queued ?h" for c f
    using that assms(2) home_queued_send [of _ _ "h\<lparr>hf_target_eof := True\<rparr>"]
    by (fastforce simp: home_on_target_eof_def Let_def split: option.splits)
  have same: "hf_target_written ?h = hf_target_written h" "hf_receive_offset ?h = hf_receive_offset h"
    "hf_target_eof ?h" "hf_target_fin_acked ?h = hf_target_fin_acked h"
    "hf_travel_eof ?h = hf_travel_eof h" "hf_window ?h = hf_window h"
    by (auto simp: home_on_target_eof_def Let_def hf_window_def split: option.splits)
  have "half_inv i D (home_view p ?h False W) X" if p
    by (rule half_eof [OF B [OF that]]) (use same q half_sent_length [OF B [OF that]] in fastforce)+
  moreover have "half_inv i C X (home_view p ?h False W)" if "sd_first X"
    by (rule half_replies [OF A [OF that]]) (use q in \<open>fastforce simp: replies_def same\<close>)
  ultimately show ?thesis by (simp add: both_def)
qed

lemma home_on_closed_both:
  assumes "both i C D X (home_view p h False W)"
  shows "both i C D X (home_view p (home_on_closed hc io c h) False W)"
  using assms by (rule both_quiet)
    (auto simp: home_on_closed_def Let_def hf_window_def home_queued_def delete_conv' split: if_splits)

section \<open>Travel's handlers keep both directions\<close>

lemma travel_send_both:
  assumes "both i C D X (travel_view tf False W)" "harmless i C D X (travel_view tf False W) f"
  shows "both i C D X (travel_view (travel_send_to c f tf) b W)"
  using assms(1) by (rule both_quiet) (use assms(2) travel_queued_send [of c f tf] in auto)

lemma travel_quiet_both:
  assumes "both i C D X (travel_view tf False W)" "tf_transfer tf' = tf_transfer tf"
    and "travel_queued tf' \<subseteq> travel_queued tf"
  shows "both i C D X (travel_view tf' b W)"
  using assms(1) by (rule both_quiet) (use assms(2, 3) in auto)

lemma travel_on_data_both:
  assumes "both i C D X (travel_view tf False W)" "i = ts_flow_id (tf_transfer tf)"
    and "(c', Data i off bs) \<in> sd_frames X" "length bs \<le> MAX_DATA_PAYLOAD"
    and "travel_on_data io c off bs tf = (tf', r)"
  shows "both i C D X (travel_view tf' (\<exists>e. r = Err e) W)"
proof -
  let ?Y = "travel_view tf False W" and ?t = "tf_transfer tf"
  have A: "sd_first X \<Longrightarrow> half_inv i C X ?Y" and B: "half_inv i D ?Y X"
    using assms(1) by (auto simp: both_def)
  have self: "sd_first X \<Longrightarrow> ack_at True C (ts_receive_offset ?t) (ts_receive_offset ?t)"
    using half_recv_self [OF A] by simp
  have failed: "both i C D X (travel_view tf True W)"
    using assms(1) by (rule travel_quiet_both) auto
  show ?thesis
  proof (cases "off = ts_receive_offset ?t")
    case False
    with assms self failed show ?thesis
      by (auto simp: travel_on_data_def Let_def harmless_def intro!: travel_send_both split: if_splits)
  next
    case True
    have "length bs < 2 ^ 64"
      using assms(4) by (simp add: MAX_DATA_PAYLOAD_def)
    then obtain d rw where l: "local_write_loop bs (tio_writes io) ?t = (ts_advance (take d bs) ?t, rw)"
      and d: "rw = Ok () \<longrightarrow> d = length bs"
      using local_write_loop_prefix by blast
    let ?tf1 = "tf\<lparr>tf_transfer := ts_advance (take d bs) ?t\<rparr>"
    show ?thesis
    proof (cases rw)
      case (Ok u)
      with d have "take d bs = bs" by simp
      then have tf': "tf' = travel_send_to c (Ack i (sat_add off (len64 bs))) ?tf1" "r = Ok ()"
        using assms(2, 5) True l Ok by (auto simp: travel_on_data_def Let_def)
      have q: "travel_queued tf' \<subseteq> insert (c, Ack i (sat_add off (len64 bs))) (travel_queued tf)"
        using travel_queued_send [of c _ ?tf1] tf' by simp
      have "half_inv i C X (travel_view tf' False W)" if "sd_first X"
        by (rule half_accept [OF A [OF that] _ assms(3)]) (use True q \<open>take d bs = bs\<close> in \<open>auto simp: tf'\<close>)
      moreover have "half_inv i D (travel_view tf' False W) X"
        by (rule half_sends [OF B]) (use q in \<open>auto simp: sends_def tf'\<close>)
      ultimately show ?thesis using tf' by (simp add: both_def)
    next
      case (Err e)
      then have tf': "tf' = ?tf1" "r = Err e"
        using assms(5) True l by (auto simp: travel_on_data_def Let_def)
      have "half_inv i C X (travel_view tf' True W)" if "sd_first X"
        by (rule half_torn [OF A [OF that] _ assms(3)]) (use True sat_add_ge in \<open>auto simp: tf'\<close>)
      moreover have "half_inv i D (travel_view tf' True W) X"
        by (rule half_sends [OF B]) (auto simp: sends_def tf')
      ultimately show ?thesis using tf' by (simp add: both_def)
    qed
  qed
qed

lemma travel_on_fin_both:
  assumes "both i C D X (travel_view tf False W)" "i = ts_flow_id (tf_transfer tf)"
    and "(c', Fin i (ts_receive_offset (tf_transfer tf))) \<in> sd_frames X"
    and "travel_on_fin io c (ts_receive_offset (tf_transfer tf)) tf = (tf', r)"
  shows "both i C D X (travel_view tf' (\<exists>e. r = Err e) W)"
proof -
  let ?Y = "travel_view tf False W" and ?n = "ts_receive_offset (tf_transfer tf)"
  have A: "sd_first X \<Longrightarrow> half_inv i C X ?Y" and B: "half_inv i D ?Y X"
    using assms(1) by (auto simp: both_def)
  let ?tf1 = "tf\<lparr>tf_transfer := (tf_transfer tf)\<lparr>ts_local_shutdown := True, ts_remote_eof := True\<rparr>\<rparr>"
  let ?tf2 = "travel_send_to c (FinAck i ?n) ?tf1"
  have q: "travel_queued ?tf2 \<subseteq> insert (c, FinAck i ?n) (travel_queued tf)"
    using travel_queued_send [of c _ ?tf1] by simp
  have "half_inv i C X (travel_view ?tf2 False W)" if "sd_first X"
    by (rule half_fin [OF A [OF that] _ assms(3)]) (use q in auto)
  moreover have "half_inv i D (travel_view ?tf2 False W) X"
    by (rule half_sends [OF B]) (use q in \<open>auto simp: sends_def ts_window_def\<close>)
  moreover have "both i C D X (travel_view tf True W)"
    using assms(1) by (rule travel_quiet_both) auto
  moreover have "both i C D X (travel_view (travel_send_to c (FinAck i ?n) tf) False W)"
    if "ts_remote_eof (tf_transfer tf)"
    using assms(1) by (rule travel_send_both) (simp add: harmless_def that)
  ultimately show ?thesis
    using assms(2, 4) unfolding both_def
    by (auto simp: travel_on_fin_def Let_def split: if_splits shutdown_result.splits)
qed

lemma travel_ack_frame_both:
  assumes "both i C D X (travel_view tf False W)" "ack_at (sd_first X) D (sd_recv X) n"
    and "ts_send_acked (tf_transfer tf) \<le> n" "n \<le> ts_send_offset (tf_transfer tf)"
    and "travel_ack_frame n tf = (tf', r)"
  shows "both i C D X (travel_view tf' (\<exists>e. r = Err e) W) \<and> r = Ok ()"
proof -
  let ?Y = "travel_view tf False W"
  have A: "sd_first X \<Longrightarrow> half_inv i C X ?Y" and B: "half_inv i D ?Y X"
    using assms(1) by (auto simp: both_def)
  obtain w where w: "window_ack n (ts_window (tf_transfer tf)) = Ok w"
    using half_ack_total [OF B assms(2)] assms(3, 4) by auto
  obtain t where t: "travel_acknowledge n (tf_transfer tf) = (t, Ok ())" "ts_window t = w"
    using travel_acknowledge_window [of n "tf_transfer tf"] w by auto
  then have tf': "tf' = tf\<lparr>tf_transfer := t\<rparr>" "r = Ok ()"
    using assms(5) by (auto simp: travel_ack_frame_def)
  have same: "ts_local_written t = ts_local_written (tf_transfer tf)"
    "ts_receive_offset t = ts_receive_offset (tf_transfer tf)"
    "ts_local_eof t = ts_local_eof (tf_transfer tf)" "ts_remote_eof t = ts_remote_eof (tf_transfer tf)"
    "ts_local_fin_acked t = ts_local_fin_acked (tf_transfer tf)"
    using t(1) by (auto simp: travel_acknowledge_def Let_def split: prod.splits if_splits)
  have "half_inv i D (travel_view tf' False W) X"
    by (rule half_ack [OF B assms(2)]) (use assms(3, 4) w t tf' same in auto)
  moreover have "half_inv i C X (travel_view tf' False W)" if "sd_first X"
    by (rule half_replies [OF A [OF that]]) (auto simp: replies_def same tf')
  ultimately show ?thesis using tf' by (simp add: both_def)
qed

lemma travel_on_frame_both:
  assumes "both i C D X (travel_view tf False W)" "i = ts_flow_id (tf_transfer tf)"
    and "(c, f) \<in> sd_frames X" "travel_on_frame io c f tf = (tf', r)"
  shows "both i C D X (travel_view tf' (\<exists>e. r = Err e) W)"
proof -
  have B: "half_inv i D (travel_view tf False W) X"
    using assms(1) by (auto simp: both_def)
  note ack = ack_frame_at [OF B assms(3)]
  have failed: "both i C D X (travel_view tf b W)" for b
    using assms(1) by (rule travel_quiet_both) auto
  let ?tf = "tf\<lparr>tf_transfer := (tf_transfer tf)\<lparr>ts_local_fin_acked := True\<rparr>\<rparr>"
  have fin: "both i C D X (travel_view ?tf False W)" if "sd_first X \<longrightarrow> sd_peer_eof X"
  proof -
    have "replies i C (travel_view tf False W) (travel_view ?tf False W)"
      by (auto simp: replies_def)
    moreover have "half_inv i D (travel_view ?tf False W) X"
      by (rule half_fin_acked [OF B that]) (auto simp: ts_window_def)
    ultimately show ?thesis
      using assms(1) by (auto simp: both_def intro: half_replies)
  qed
  show ?thesis
    using assms ack failed fin
      travel_on_data_both [OF assms(1, 2)] travel_on_fin_both [OF assms(1, 2)]
      travel_ack_frame_both [OF assms(1)]
    by (cases f) (auto simp: travel_on_frame_def Let_def split: if_splits)
qed

lemma travel_on_local_data_both:
  assumes "both i C D X (travel_view tf False W)" "i = ts_flow_id (tf_transfer tf)"
    and "\<not> ts_local_eof (tf_transfer tf)" "stream_ok (D @ [b])"
    and "travel_on_local_data b tf = (tf', Ok u)"
  shows "both i C (D @ [b]) X (travel_view tf' False W)"
proof -
  let ?t = "tf_transfer tf"
  have A: "sd_first X \<Longrightarrow> half_inv i C X (travel_view tf False W)" and B: "half_inv i D (travel_view tf False W) X"
    using assms(1) by (auto simp: both_def)
  have same: "ts_local_written (tf_transfer tf') = ts_local_written ?t"
    "ts_receive_offset (tf_transfer tf') = ts_receive_offset ?t"
    "ts_local_eof (tf_transfer tf') = ts_local_eof ?t"
    "ts_local_fin_acked (tf_transfer tf') = ts_local_fin_acked ?t"
    "ts_remote_eof (tf_transfer tf') = ts_remote_eof ?t"
    using assms(5) by (auto simp: travel_on_local_data_def Let_def split: if_splits option.splits)
  have off: "unat (ts_send_offset ?t) = length (concat D)"
    using half_sent_length [OF B] by simp
  have q: "(c, f) \<in> travel_queued tf \<or> f = Data i (ts_send_offset ?t) b" if "(c, f) \<in> travel_queued tf'" for c f
    using assms(2, 5) that travel_queued_send [of _ _ "tf\<lparr>tf_transfer := _\<rparr>"]
    by (fastforce simp: travel_on_local_data_def Let_def split: if_splits option.splits)
  have new: "data_ok i (D @ [b]) e (Data i (ts_send_offset ?t) b)" for e
    using off word_pos [OF off] by (auto intro!: exI [of _ "length D"] simp: chunk_pos_def)
  have "half_inv i (D @ [b]) (travel_view tf' False W) X"
    by (rule half_push [OF B _ assms(4)])
       (use assms(3) travel_on_local_data_window [OF assms(5)] same q new in fastforce)+
  moreover have "half_inv i C X (travel_view tf' False W)" if "sd_first X"
    by (rule half_replies [OF A [OF that]]) (use q in \<open>fastforce simp: replies_def same\<close>)
  ultimately show ?thesis by (simp add: both_def)
qed

lemma travel_on_local_eof_both:
  assumes "both i C D X (travel_view tf False W)" "i = ts_flow_id (tf_transfer tf)"
  shows "both i C D X (travel_view (travel_on_local_eof tf) False W)"
proof -
  let ?t = "tf_transfer tf" and ?tf = "travel_on_local_eof tf"
  have A: "sd_first X \<Longrightarrow> half_inv i C X (travel_view tf False W)" and B: "half_inv i D (travel_view tf False W) X"
    using assms(1) by (auto simp: both_def)
  have q: "(c, f) \<in> travel_queued tf \<or> f = Fin i (ts_send_offset ?t)" if "(c, f) \<in> travel_queued ?tf" for c f
    using that assms(2) travel_queued_send [of _ _ "tf\<lparr>tf_transfer := _\<rparr>"]
    by (fastforce simp: travel_on_local_eof_def Let_def split: option.splits)
  have same: "tf_transfer ?tf = ?t\<lparr>ts_local_eof := True\<rparr>"
    by (auto simp: travel_on_local_eof_def Let_def split: option.splits)
  have "half_inv i D (travel_view ?tf False W) X"
    by (rule half_eof [OF B]) (use same q half_sent_length [OF B] in \<open>fastforce simp: ts_window_def\<close>)+
  moreover have "half_inv i C X (travel_view ?tf False W)" if "sd_first X"
    by (rule half_replies [OF A [OF that]]) (use q in \<open>fastforce simp: replies_def same\<close>)
  ultimately show ?thesis by (simp add: both_def)
qed

text \<open>An event Travel may see: its own socket's, or a frame that Home sent.\<close>

fun event_from :: "side \<Rightarrow> travel_event \<Rightarrow> bool" where
  "event_from X (TCarrierFrame c f) \<longleftrightarrow> (c, f) \<in> sd_frames X"
| "event_from X e \<longleftrightarrow> True"

lemma write_loop_flow_id: "ts_flow_id (fst (local_write_loop bs ws t)) = ts_flow_id t"
  by (induction bs ws t rule: local_write_loop.induct) (auto simp: Let_def)

lemma acknowledge_flow_id: "ts_flow_id (fst (travel_acknowledge n t)) = ts_flow_id t"
  by (simp add: travel_acknowledge_def Let_def split: prod.splits)

lemma ack_frame_flow_id: "ts_flow_id (tf_transfer (fst (travel_ack_frame n tf))) = ts_flow_id (tf_transfer tf)"
  using acknowledge_flow_id [of n "tf_transfer tf"]
  by (auto simp: travel_ack_frame_def split: prod.splits)

lemma on_data_flow_id:
  "ts_flow_id (tf_transfer (fst (travel_on_data io c off bs tf))) = ts_flow_id (tf_transfer tf)"
  using write_loop_flow_id [of bs "tio_writes io" "tf_transfer tf"]
  by (auto simp: travel_on_data_def Let_def split: prod.splits result.splits)

lemma on_fin_flow_id:
  "ts_flow_id (tf_transfer (fst (travel_on_fin io c off tf))) = ts_flow_id (tf_transfer tf)"
  by (simp add: travel_on_fin_def Let_def split: shutdown_result.splits)

lemma on_frame_flow_id:
  "ts_flow_id (tf_transfer (fst (travel_on_frame io c f tf))) = ts_flow_id (tf_transfer tf)"
  by (cases f) (simp_all add: travel_on_frame_def Let_def on_data_flow_id on_fin_flow_id ack_frame_flow_id)

lemma on_local_data_flow_id:
  "ts_flow_id (tf_transfer (fst (travel_on_local_data b tf))) = ts_flow_id (tf_transfer tf)"
  by (simp add: travel_on_local_data_def Let_def split: option.splits)

lemma travel_flow_id_kept:
  assumes "handle_event io e tf = (tf', r)"
  shows "ts_flow_id (tf_transfer tf') = ts_flow_id (tf_transfer tf)"
proof -
  have "ts_flow_id (tf_transfer (fst (handle_event io e tf))) = ts_flow_id (tf_transfer tf)"
    using on_frame_flow_id [of io] on_local_data_flow_id [of _ tf]
    by (cases e)
       (auto simp: handle_event_def travel_on_local_eof_def Let_def split_beta split: option.splits)
  with assms show ?thesis by simp
qed

lemma handle_event_both:
  assumes "both i C D X (travel_view tf False W)" "i = ts_flow_id (tf_transfer tf)"
    and "event_from X e" "\<forall>b. e \<noteq> LocalData b" "handle_event io e tf = (tf', r)"
  shows "both i C D X (travel_view tf' (\<exists>e. r = Err e) W)"
proof (cases e)
  case (LocalError z)
  with assms(5) have "tf' = tf" "\<exists>e. r = Err e" by (auto simp: handle_event_def)
  with travel_quiet_both [OF assms(1)] show ?thesis by simp
next
  case LocalEof
  with assms(5) have "tf' = travel_on_local_eof tf" "r = Ok False"
    by (auto simp: handle_event_def)
  with travel_on_local_eof_both [OF assms(1, 2)] show ?thesis by simp
next
  case (TCarrierFrame c f)
  obtain tf1 r1 where f: "travel_on_frame io c f tf = (tf1, r1)"
    by (metis surj_pair)
  with assms(5) TCarrierFrame have "tf' = tf1" "r = rbind r1 (\<lambda>_. Ok False)"
    by (simp_all add: handle_event_def)
  moreover from this have "(\<exists>e. r = Err e) \<longleftrightarrow> (\<exists>e. r1 = Err e)"
    by (cases r1) simp_all
  ultimately show ?thesis
    using travel_on_frame_both [OF assms(1, 2) _ f] assms(3) TCarrierFrame by simp
next
  case (TCarrierClosed c z)
  with assms(5) have "tf' = tf\<lparr>tf_carriers := AList.delete c (tf_carriers tf)\<rparr>" "\<not> (\<exists>e. r = Err e)"
    by (auto simp: handle_event_def)
  moreover have "travel_queued (tf\<lparr>tf_carriers := AList.delete c (tf_carriers tf)\<rparr>) \<subseteq> travel_queued tf"
    by (auto simp: travel_queued_def delete_conv' split: if_splits)
  ultimately show ?thesis
    using travel_quiet_both [OF assms(1), of tf' False] by simp
qed (use assms(4) in simp)

lemma handle_local_data_both:
  assumes "both i C D X (travel_view tf False W)" "i = ts_flow_id (tf_transfer tf)"
    and "\<not> ts_local_eof (tf_transfer tf)" "stream_ok (D @ [b])"
    and "handle_event io (LocalData b) tf = (tf', r)"
  shows "(case r of Ok u \<Rightarrow> both i C (D @ [b]) X (travel_view tf' False W)
     | Err e \<Rightarrow> both i C D X (travel_view tf' True W))"
proof (cases "travel_on_local_data b tf")
  case (Pair tf1 r1)
  then have tf1: "tf' = tf1" "r = rbind r1 (\<lambda>_. Ok False)"
    using assms(5) by (auto simp: handle_event_def)
  show ?thesis
  proof (cases r1)
    case (Ok u)
    with Pair tf1 travel_on_local_data_both [OF assms(1-4)] show ?thesis by simp
  next
    case (Err e)
    with Pair have "tf1 = tf"
      by (auto simp: travel_on_local_data_def Let_def split: if_splits)
    with Err tf1 travel_quiet_both [OF assms(1)] show ?thesis by simp
  qed
qed

section \<open>Races keep both directions\<close>

lemma start_race_both:
  assumes "both i C D X (travel_view tf False W)" "start_race tc now race_id cands permits tf = (tf', rs)"
  shows "both i C D X (travel_view tf' False W) \<and> ts_flow_id (tf_transfer tf') = ts_flow_id (tf_transfer tf)"
proof -
  let ?tf = "app_call (RouteAttempt None ''started'' None None) tf"
  have B: "both i C D X (travel_view ?tf False W)"
    using assms(1) by (rule travel_quiet_both) auto
  have "both i C D X (travel_view (travel_send_to c (Race f race_id n) ?tf) False W)" for c f n
    using B by (rule travel_send_both) (simp add: harmless_def)
  with B assms(2) show ?thesis
    by (auto simp: start_race_def Let_def split: option.splits)
qed

lemma before_race_both:
  assumes "both i C D X (travel_view tf False W)" "before_race tc now tf = (tf', r)"
  shows "both i C D X (travel_view tf' False W) \<and> tf_transfer tf' = tf_transfer tf"
proof -
  have t: "tf_transfer tf' = tf_transfer tf" "travel_queued tf' = travel_queued tf"
    using assms(2) by (auto simp: before_race_def Let_def split: if_splits)
  with travel_quiet_both [OF assms(1) t(1), of False] show ?thesis by simp
qed

lemma race_won_both:
  assumes "both i C D X (travel_view tf False W)" "i = ts_flow_id (tf_transfer tf)"
    and "race_won rs lat w tf = (tf', res)"
  shows "both i C D X (travel_view tf' False W) \<and> tf_transfer tf' = tf_transfer tf"
proof (cases "map_of (tf_carriers tf) w")
  case None
  then have t: "tf_transfer tf' = tf_transfer tf" "travel_queued tf' = {}"
    using assms(3) by (auto simp: race_won_def)
  with travel_quiet_both [OF assms(1) t(1), of False] show ?thesis by simp
next
  case (Some hd)
  define tf6 where "tf6 = race_select rs lat w tf"
  have tf6: "tf' = travel_retransmit w tf6" "tf_transfer tf6 = tf_transfer tf"
      "travel_queued tf6 \<subseteq> travel_queued tf"
    using assms(3) Some race_select_sel [of rs lat w tf] by (auto simp: race_won_def tf6_def)
  have B: "both i C D X (travel_view tf6 False W)"
    using travel_quiet_both [OF assms(1) tf6(2, 3)] .
  have "harmless i C D X (travel_view tf6 False W) f" if "f \<in> set (retransmit_frames i
      (ts_unacked (tf_transfer tf6)) (ts_local_eof (tf_transfer tf6)) (ts_send_offset (tf_transfer tf6)))" for f
    using that B half_retransmit_ok [of i D "travel_view tf6 False W" X f] retransmit_frames_ack
    by (auto simp: harmless_def both_def)
  then have "both i C D X (travel_view tf' False W)"
    using travel_queued_retransmit [of w tf6] assms(2) tf6
    by (intro both_quiet [OF B]) auto
  with tf6 show ?thesis by simp
qed

lemma race_lost_both:
  assumes "both i C D X (travel_view tf False W)"
  shows "both i C D X (travel_view (race_lost rs lat tf) False W)
     \<and> tf_transfer (race_lost rs lat tf) = tf_transfer tf"
proof -
  let ?tf2 = "app_call (RouteAttempt (rs_old_relay_id rs) ''failed'' (Some lat)
      (Some ''Carrier race timed out'')) (app_call (FlowMetric (rs_old_relay_id rs)
      ''carrier_race_failed'' 1 (Some ''no_winner'') None) tf)"
  have t: "tf_transfer (race_lost rs lat tf) = tf_transfer tf"
    by (auto simp: race_lost_def Let_def split: option.splits)
  have "travel_queued (race_lost rs lat tf) \<subseteq> travel_queued tf"
    using travel_queued_fold_close [of "rs_candidate_ids rs" ?tf2]
    by (auto simp: race_lost_def Let_def split: option.splits)
  from travel_quiet_both [OF assms t this] t show ?thesis by simp
qed

lemma finish_race_both:
  assumes "both i C D X (travel_view tf False W)" "i = ts_flow_id (tf_transfer tf)"
    and "finish_race rs lat w tf = (tf', res)"
  shows "both i C D X (travel_view tf' False W) \<and> tf_transfer tf' = tf_transfer tf"
  using assms race_won_both [OF assms(1, 2)] race_lost_both [OF assms(1)]
  by (auto simp: finish_race_def split: option.splits)

lemma after_race_both:
  assumes "both i C D X (travel_view tf False W)" "after_race tc now prev res tf = (tf', r)"
  shows "both i C D X (travel_view tf' b W) \<and> tf_transfer tf' = tf_transfer tf"
proof -
  have t: "tf_transfer tf' = tf_transfer tf" "tf_carriers tf' = tf_carriers tf"
    using assms(2) by (auto simp: after_race_def Let_def split: option.splits if_splits prod.splits)
  then have "travel_queued tf' \<subseteq> travel_queued tf"
    by (simp add: travel_queued_def)
  from travel_quiet_both [OF assms(1) t(1) this] t show ?thesis by simp
qed

lemma race_opened_Err_both:
  assumes "both i C D X (travel_view tf False W)" "race_opened rs (Err z) ms tf = (tf', rs', r)"
  shows "both i C D X (travel_view tf' False W) \<and> tf_transfer tf' = tf_transfer tf \<and> (\<exists>p. r = Ok p)"
proof -
  have t: "tf_transfer tf' = tf_transfer tf" "travel_queued tf' \<subseteq> travel_queued tf" "\<exists>p. r = Ok p"
    using assms(2) by (auto simp: race_opened_def Let_def split: prod.splits)
  with travel_quiet_both [OF assms(1) t(1, 2)] show ?thesis by simp
qed

lemma race_opened_Ok_both:
  assumes "both i C D X (travel_view tf False W)" "i = ts_flow_id (tf_transfer tf)"
    and "ack_at (sd_first X) D (sd_recv X) (bc_home_receive_offset b)"
    and "race_opened rs (Ok b) ms tf = (tf', rs', r)"
  shows "both i C D X (travel_view tf' (\<exists>e. r = Err e) W)
     \<and> ts_flow_id (tf_transfer tf') = ts_flow_id (tf_transfer tf) \<and> r \<noteq> Err (Flow AckSplitFrame)"
proof -
  let ?n = "bc_home_receive_offset b"
  obtain tf3 where tf3: "tf_transfer tf3 = tf_transfer tf" "travel_queued tf3 \<subseteq> travel_queued tf"
    and o: "race_opened rs (Ok b) ms tf = (let rs1 = rs\<lparr>rs_opens := rs_opens rs - 1\<rparr> in
        if ts_send_offset (tf_transfer tf3) < ?n then (tf3, rs1, Err (Flow AckUnsent))
        else if ?n < ts_send_acked (tf_transfer tf3) then (tf3, rs1, Err (Flow AckBackwards))
        else (case travel_ack_frame ?n tf3 of
            (tf4, Err e) \<Rightarrow> (tf4, rs1, Err e)
          | (tf4, Ok _) \<Rightarrow>
              let tf5 = tf4\<lparr>tf_carriers := AList.update (bc_carrier_id b)
                     \<lparr>cx_relay_id = bc_relay_id b, cx_tx = \<lparr>tx_open = True, tx_queue = []\<rparr>\<rparr> (tf_carriers tf4)\<rparr>;
                  rs2 = rs1\<lparr>rs_candidate_ids := List.insert (bc_carrier_id b) (rs_candidate_ids rs1)\<rparr>;
                  tf6 = travel_send_to (bc_carrier_id b) (Race (ts_flow_id (tf_transfer tf5))
                     (rs_race_id rs2) (ts_send_acked (tf_transfer tf5))) tf5
              in (tf6, rs2, Ok (race_exhausted rs2 tf6))))"
    by (rule that [of "app_call (FlowMetric (Some (bc_relay_id b)) ''carrier_setup_latency_ms'' ms
        (Some ''accepted'') (Some ms)) (app_call (RouteAttempt (Some (bc_relay_id b)) ''succeeded''
        (Some ms) None) (app_call (FlowMetric (Some (bc_relay_id b)) ''carrier_attempt'' 1
        (Some ''accepted'') None) tf))"])
       (simp_all add: race_opened_def Let_def)
  have B: "both i C D X (travel_view tf3 fl W)" for fl
    using travel_quiet_both [OF assms(1) tf3] .
  show ?thesis
  proof (cases "ts_send_offset (tf_transfer tf3) < ?n \<or> ?n < ts_send_acked (tf_transfer tf3)")
    case True
    with o assms(4) B tf3 show ?thesis by (auto simp: Let_def split: if_splits)
  next
    case False
    obtain tf4 r4 where a: "travel_ack_frame ?n tf3 = (tf4, r4)"
      by (metis surj_pair)
    then have B4: "both i C D X (travel_view tf4 False W)" and r4: "r4 = Ok ()"
      using travel_ack_frame_both [OF B [of False] assms(3) _ _ a] False by (auto simp: not_less)
    have id: "ts_flow_id (tf_transfer tf4) = ts_flow_id (tf_transfer tf)"
      using ack_frame_flow_id [of ?n tf3] a tf3 by simp
    let ?tf5 = "tf4\<lparr>tf_carriers := AList.update (bc_carrier_id b)
        \<lparr>cx_relay_id = bc_relay_id b, cx_tx = \<lparr>tx_open = True, tx_queue = []\<rparr>\<rparr> (tf_carriers tf4)\<rparr>"
    have "travel_queued ?tf5 \<subseteq> travel_queued tf4"
      by (auto simp: travel_queued_def update_conv' split: if_splits)
    then have B5: "both i C D X (travel_view ?tf5 False W)"
      using travel_quiet_both [OF B4, of ?tf5] by simp
    have "both i C D X (travel_view (travel_send_to c (Race f q n) ?tf5) False W)" for c f q n
      using B5 by (rule travel_send_both) (simp add: harmless_def)
    with o a r4 False assms(4) id show ?thesis by (auto simp: Let_def)
  qed
qed

section \<open>The invariant\<close>

lemma both_commute: "both i C D X Y \<longleftrightarrow> both i D C Y X"
  by (auto simp: both_def)

lemma sys_inv_both:
  "sys_inv hc s \<longleftrightarrow> ts_flow_id (tf_transfer (sy_travel s)) = fk_flow_id (hcf_key hc)
     \<and> both (fk_flow_id (hcf_key hc)) (sy_local s) (sy_target s) (travel_side s) (home_side s)"
  by (auto simp: sys_inv_def both_def travel_side_def home_side_def)

lemma is_failed_done_of [simp]: "is_failed (done_of r) \<longleftrightarrow> (\<exists>e. r = Err e)"
  by (cases r) auto

lemma done_of_None [simp]: "done_of r = None \<longleftrightarrow> r = Ok ()"
  by (cases r) auto

text \<open>Travel's side after one of its moves.\<close>

definition travel_moved :: "uuid \<Rightarrow> bytes list \<Rightarrow> bytes list \<Rightarrow> flow_system \<Rightarrow> flow_system \<Rightarrow> bool" where
  "travel_moved i C D s s' \<longleftrightarrow> both i C D (home_side s) (travel_side s') \<and> sy_home s' = sy_home s
     \<and> sy_home_done s' = sy_home_done s \<and> sy_epoch s' = sy_epoch s \<and> sy_to_travel s' = sy_to_travel s
     \<and> sy_local s' = sy_local s \<and> sy_target s' = sy_target s
     \<and> ts_flow_id (tf_transfer (sy_travel s')) = i"

lemma race_conclude_moved:
  assumes "both i C D (home_side s) (travel_view tf (\<exists>e. r = Err e) (set (sy_to_home s)))"
    and "i = ts_flow_id (tf_transfer tf)" "sy_travel_done s = None"
  shows "travel_moved i C D s (race_conclude tc now lat (tf, rs, r) s)"
proof (cases r)
  case (Err e)
  with assms show ?thesis
    by (simp add: race_conclude_def travel_moved_def travel_side_def)
next
  case (Ok p)
  show ?thesis
  proof (cases p)
    case RaceContinue
    with assms Ok show ?thesis
      by (simp add: race_conclude_def travel_moved_def travel_side_def)
  next
    case (RaceBreak w)
    obtain tf1 res tf2 r2 where f: "finish_race rs lat w tf = (tf1, res)"
      "after_race tc now (rs_old_active rs) res tf1 = (tf2, r2)"
      by (metis surj_pair)
    have "both i C D (home_side s) (travel_view tf1 False (set (sy_to_home s)))"
      "tf_transfer tf1 = tf_transfer tf"
      using finish_race_both [OF _ assms(2) f(1)] assms(1) Ok by auto
    with after_race_both [OF _ f(2), of i C D "home_side s" "set (sy_to_home s)"] Ok RaceBreak f assms(2)
    show ?thesis
      by (simp add: race_conclude_def travel_moved_def travel_side_def)
  qed
qed

lemma main_event_both:
  assumes "handle_event io e tf = (tf1, r1)" "main_event tc io now gen e tf = (tf', r)"
  shows "tf_transfer tf' = tf_transfer tf1 \<and> tf_carriers tf' = tf_carriers tf1
     \<and> ((\<exists>e. r = Err e) \<longleftrightarrow> (\<exists>e. r1 = Err e))"
  using assms
  by (auto simp: main_event_def Let_def split: result.splits if_splits)

lemma race_event_both:
  assumes "handle_event io e tf = (tf1, r1)" "race_event io rs e tf = (tf', rs', r)"
  shows "(tf' = tf \<and> (\<exists>w. r = Ok (RaceBreak (Some w)) \<and> race_verdict rs e tf = Some w))
     \<or> tf_transfer tf' = tf_transfer tf1 \<and> tf_carriers tf' = tf_carriers tf1
        \<and> ((\<exists>e. r = Err e) \<longleftrightarrow> (\<exists>e. r1 = Err e)) \<and> race_verdict rs e tf = None"
  using assms
  by (auto simp: race_event_def Let_def split: result.splits if_splits option.splits travel_event.splits)

lemma travel_view_cong:
  "tf_transfer tf' = tf_transfer tf \<Longrightarrow> tf_carriers tf' = tf_carriers tf \<Longrightarrow>
     travel_view tf' b W = travel_view tf b W"
  by (simp add: travel_view_def travel_queued_def)

lemma travel_step_moved:
  assumes "both i C D (home_side s) (travel_side s)" "i = ts_flow_id (tf_transfer (sy_travel s))"
    and "sy_travel_done s = None" "event_from (home_side s) e" "\<forall>b. e \<noteq> LocalData b"
  shows "travel_moved i C D s (travel_step tc io now gen lat e s)"
proof -
  let ?W = "set (sy_to_home s)"
  have B: "both i C D (home_side s) (travel_view (sy_travel s) False ?W)"
    using assms(1, 3) by (simp add: travel_side_def)
  obtain tf1 r1 where h: "handle_event io e (sy_travel s) = (tf1, r1)"
    by (metis surj_pair)
  have B1: "both i C D (home_side s) (travel_view tf1 (\<exists>e. r1 = Err e) ?W)"
    using handle_event_both [OF B assms(2, 4, 5) h] .
  have id: "i = ts_flow_id (tf_transfer tf1)"
    using travel_flow_id_kept [OF h] assms(2) by simp
  show ?thesis
  proof (cases "sy_race s")
    case None
    obtain tf' r where m: "main_event tc io now gen e (sy_travel s) = (tf', r)"
      by (metis surj_pair)
    with main_event_both [OF h m] None B1 id show ?thesis
      by (simp add: travel_step_def travel_moved_def travel_side_def travel_view_cong [of tf' tf1])
  next
    case (Some rs)
    obtain tf' rs' r where m: "race_event io rs e (sy_travel s) = (tf', rs', r)"
      by (metis prod_cases3)
    have "both i C D (home_side s) (travel_view tf' (\<exists>e. r = Err e) ?W) \<and> i = ts_flow_id (tf_transfer tf')"
      using race_event_both [OF h m] B B1 id assms(2) by (auto simp: travel_view_cong [of tf' tf1])
    then have "travel_moved i C D s (race_conclude tc now lat (tf', rs', r) s)"
      using race_conclude_moved assms(3) by blast
    with Some m show ?thesis
      by (simp add: travel_step_def)
  qed
qed

lemma travel_step_data_moved:
  assumes "both i C D (home_side s) (travel_side s)" "i = ts_flow_id (tf_transfer (sy_travel s))"
    and "sy_travel_done s = None" "\<not> ts_local_eof (tf_transfer (sy_travel s))" "stream_ok (D @ [b])"
    and "s' = travel_step tc io now gen lat (LocalData b) s"
  shows "travel_moved i C (if sy_travel_done s' = None then D @ [b] else D) s s'"
proof -
  let ?W = "set (sy_to_home s)"
  have B: "both i C D (home_side s) (travel_view (sy_travel s) False ?W)"
    using assms(1, 3) by (simp add: travel_side_def)
  obtain tf1 r1 where h: "handle_event io (LocalData b) (sy_travel s) = (tf1, r1)"
    by (metis surj_pair)
  have B1: "case r1 of Ok u \<Rightarrow> both i C (D @ [b]) (home_side s) (travel_view tf1 False ?W)
     | Err e \<Rightarrow> both i C D (home_side s) (travel_view tf1 True ?W)"
    using handle_local_data_both [OF B assms(2, 4, 5) h] .
  have id: "i = ts_flow_id (tf_transfer tf1)"
    using travel_flow_id_kept [OF h] assms(2) by simp
  show ?thesis
  proof (cases "sy_race s")
    case None
    obtain tf' r where m: "main_event tc io now gen (LocalData b) (sy_travel s) = (tf', r)"
      by (metis surj_pair)
    with main_event_both [OF h m] None B1 id show ?thesis
      unfolding assms(6)
      by (cases r; cases r1)
         (simp_all add: travel_step_def travel_moved_def travel_side_def travel_view_cong [of tf' tf1])
  next
    case (Some rs)
    obtain tf' rs' r where m: "race_event io rs (LocalData b) (sy_travel s) = (tf', rs', r)"
      by (metis prod_cases3)
    have e: "tf_transfer tf' = tf_transfer tf1" "tf_carriers tf' = tf_carriers tf1"
        "(\<exists>e. r = Err e) \<longleftrightarrow> (\<exists>e. r1 = Err e)" "\<forall>w. r \<noteq> Ok (RaceBreak w)"
      using race_event_both [OF h m] m h
      by (auto simp: race_verdict_def race_event_def Let_def split: result.splits if_splits)
    have s': "sy_travel_done s' = None \<longleftrightarrow> (\<exists>u. r1 = Ok u)"
      using e(3, 4) assms(3, 6) Some m
      by (cases r; cases r1) (auto simp: travel_step_def race_conclude_def split: race_progress.splits)
    have "both i C (if sy_travel_done s' = None then D @ [b] else D) (home_side s)
        (travel_view tf' (\<exists>e. r = Err e) ?W)"
      using B1 e s' by (cases r1) (auto simp: travel_view_cong [of tf' tf1])
    with Some m assms(3, 6) e id show ?thesis
      by (simp add: travel_step_def race_conclude_moved)
  qed
qed

lemma travel_moved_inv:
  assumes "travel_moved (fk_flow_id (hcf_key hc)) (sy_target s) D s s'"
  shows "sys_inv hc (s'\<lparr>sy_local := D\<rparr>)"
  using assms by (simp add: travel_moved_def sys_inv_both both_commute home_side_def travel_side_def)

lemma home_step_inv:
  assumes "sys_inv hc s" "sy_home_done s = None"
    and "\<And>c f. e = CarrierFrame c f \<Longrightarrow> (c, f) \<in> set (sy_to_home s)" "\<forall>b. e \<noteq> TargetData b"
  shows "sys_inv hc (home_step hc io e s)"
proof -
  let ?i = "fk_flow_id (hcf_key hc)" and ?W = "set (sy_to_travel s)"
  let ?both = "\<lambda>h fl. both ?i (sy_local s) (sy_target s) (travel_side s) (home_view (sy_epoch s = 0) h fl ?W)"
  have B: "?both (sy_home s) False"
    using assms(1, 2) by (simp add: sys_inv_both home_side_def)
  have quiet: "?both (sy_home s) True"
    using B by (rule both_quiet) auto
  obtain h' r where h: "home_handle_event hc io e (sy_home s) = (h', r)"
    by (metis surj_pair)
  have "?both h' (\<exists>e. r = Err e)"
  proof (cases e)
    case (CarrierFrame c f)
    then have "(c, f) \<in> sd_frames (travel_side s)"
      using assms(3) by (simp add: travel_side_def)
    with CarrierFrame h home_on_frame_both [OF B _ refl] show ?thesis
      by (simp add: home_handle_event_def travel_side_def)
  next
    case (CarrierClosed c z)
    with h have "h' = home_on_closed hc io c (sy_home s)" "r = Ok ()"
      by (auto simp: home_handle_event_def)
    with home_on_closed_both [OF B] show ?thesis by simp
  next
    case TargetEof
    with h have "h' = home_on_target_eof hc (sy_home s)" "r = Ok ()"
      by (auto simp: home_handle_event_def)
    with home_on_target_eof_both [OF B refl] show ?thesis by simp
  next
    case (TargetError z)
    with h have "h' = sy_home s" "\<exists>e. r = Err e"
      by (auto simp: home_handle_event_def)
    with quiet show ?thesis by simp
  qed (use assms(4) in simp)
  with h assms(1) show ?thesis
    by (simp add: home_step_def sys_inv_both home_side_def travel_side_def)
qed

lemma home_step_data_inv:
  assumes "sys_inv hc s" "sy_home_done s = None" "\<not> hf_target_eof (sy_home s)"
    and "stream_ok (sy_target s @ [b])" "s' = home_step hc io (TargetData b) s"
  shows "sys_inv hc (s'\<lparr>sy_target := (if sy_home_done s' = None then sy_target s @ [b] else sy_target s)\<rparr>)"
proof -
  let ?i = "fk_flow_id (hcf_key hc)" and ?W = "set (sy_to_travel s)"
  have B: "both ?i (sy_local s) (sy_target s) (travel_side s) (home_view (sy_epoch s = 0) (sy_home s) False ?W)"
    using assms(1, 2) by (simp add: sys_inv_both home_side_def)
  obtain h' r where h: "home_on_target_data hc io b (sy_home s) = (h', r)"
    by (metis surj_pair)
  then have s': "s' = s\<lparr>sy_home := h', sy_home_done := done_of r\<rparr>"
    using assms(5) by (simp add: home_step_def home_handle_event_def)
  show ?thesis
  proof (cases r)
    case (Ok u)
    with home_on_target_data_both [OF B refl assms(3, 4)] h s' assms(1) show ?thesis
      by (simp add: sys_inv_both home_side_def travel_side_def)
  next
    case (Err e)
    with h have "h' = sy_home s"
      by (auto simp: home_on_target_data_def Let_def split: if_splits)
    moreover have "both ?i (sy_local s) (sy_target s) (travel_side s) (home_view (sy_epoch s = 0) (sy_home s) True ?W)"
      using B by (rule both_quiet) auto
    ultimately show ?thesis
      using Err s' assms(1) by (simp add: sys_inv_both home_side_def travel_side_def)
  qed
qed

lemma home_attach_inv:
  assumes "sys_inv hc s" "sy_home_done s = None"
    and "home_attach hc c relay v opened spawned (sy_home s) = (h, frame, r)"
  shows "sys_inv hc (s\<lparr>sy_home := h, sy_home_done := done_of r,
     sy_to_travel := sy_to_travel s @ (case frame of Some f \<Rightarrow> [(c, f)] | None \<Rightarrow> [])\<rparr>)"
proof -
  let ?i = "fk_flow_id (hcf_key hc)" and ?h = "sy_home s" and ?W = "set (sy_to_travel s)"
  have B: "both ?i (sy_local s) (sy_target s) (travel_side s) (home_view (sy_epoch s = 0) ?h False ?W)"
    using assms(1, 2) by (simp add: sys_inv_both home_side_def)
  have same: "hf_window h = hf_window ?h" "hf_target_written h = hf_target_written ?h"
    "hf_receive_offset h = hf_receive_offset ?h" "hf_target_eof h = hf_target_eof ?h"
    "hf_target_fin_acked h = hf_target_fin_acked ?h" "hf_travel_eof h = hf_travel_eof ?h"
    "home_queued h \<subseteq> home_queued ?h"
    using assms(3) by (auto simp: home_attach_def Let_def hf_window_def home_queued_def update_conv'
        split: if_splits result.splits)
  have "ack_at (sy_epoch s = 0) (sy_local s) (hf_receive_offset ?h) (hf_receive_offset ?h)"
    using B half_recv_self [of ?i "sy_local s" "travel_side s" "home_view (sy_epoch s = 0) ?h False ?W"]
    by (simp add: both_def travel_side_def)
  then have "\<forall>f. frame = Some f \<longrightarrow>
      harmless ?i (sy_local s) (sy_target s) (travel_side s) (home_view (sy_epoch s = 0) ?h False ?W) f"
    using assms(3) by (auto simp: home_attach_def Let_def harmless_def split: if_splits result.splits)
  then have "both ?i (sy_local s) (sy_target s) (travel_side s) (home_view (sy_epoch s = 0) h (\<exists>e. r = Err e)
      (?W \<union> set (case frame of Some f \<Rightarrow> [(c, f)] | None \<Rightarrow> [])))"
    using same by (intro both_quiet [OF B]) (auto split: option.splits)
  then show ?thesis
    using assms(1) by (simp add: sys_inv_both home_side_def travel_side_def)
qed

text \<open>Changes of the carriers that only move or drop frames.\<close>

lemma frames_moved_inv:
  assumes "sys_inv hc s"
    and "sd_frames (travel_side s') \<subseteq> sd_frames (travel_side s)" "sd_frames (home_side s') \<subseteq> sd_frames (home_side s)"
    and "travel_side s' = (travel_side s)\<lparr>sd_frames := sd_frames (travel_side s')\<rparr>"
    and "home_side s' = (home_side s)\<lparr>sd_frames := sd_frames (home_side s')\<rparr>"
    and "sy_local s' = sy_local s" "sy_target s' = sy_target s"
    and "tf_transfer (sy_travel s') = tf_transfer (sy_travel s)"
    and "sy_epoch s' = sy_epoch s"
  shows "sys_inv hc s'"
proof -
  have mono: "half_inv i C (X\<lparr>sd_frames := F\<rparr>) (Y\<lparr>sd_frames := G\<rparr>)"
    if "half_inv i C X Y" "F \<subseteq> sd_frames X" "G \<subseteq> sd_frames Y" for i C X Y F G
    using that by (auto simp: half_inv_def recv_ok_def)
  have "half_inv (fk_flow_id (hcf_key hc)) (sy_local s') (travel_side s') (home_side s')"
    unfolding assms(6) by (subst assms(4), subst assms(5), rule mono)
      (use assms(1-3) in \<open>auto simp: sys_inv_def\<close>)
  moreover have "half_inv (fk_flow_id (hcf_key hc)) (sy_target s') (home_side s') (travel_side s')"
    if "sy_epoch s = 0"
    unfolding assms(7) by (subst assms(4), subst assms(5), rule mono)
      (use assms(1-3) that in \<open>auto simp: sys_inv_def\<close>)
  ultimately show ?thesis
    using assms(1, 8, 9) by (simp add: sys_inv_def)
qed

lemma carrier_moves_inv:
  assumes "sys_inv hc s"
  shows "sys_inv hc (travel_pump c s)" "sys_inv hc (home_pump c s)"
    "sys_inv hc (travel_tx_close c s)" "sys_inv hc (home_tx_close c s)"
proof -
  have u: "map_of (AList.update c v xs) d = (if d = c then Some v else map_of xs d)"
    for v :: 'v and xs :: "(uuid \<times> 'v) list" and d
    by (simp add: update_conv')
  note defs = travel_side_def home_side_def travel_view_def home_view_def Let_def
    travel_queued_def home_queued_def u
  show "sys_inv hc (travel_pump c s)"
    by (rule frames_moved_inv [OF assms]) (auto simp: travel_pump_def defs split: option.splits list.splits if_splits)
  show "sys_inv hc (home_pump c s)"
    by (rule frames_moved_inv [OF assms])
       (auto simp: home_pump_def defs hf_window_def split: option.splits list.splits if_splits)
  show "sys_inv hc (travel_tx_close c s)"
    by (rule frames_moved_inv [OF assms]) (auto simp: travel_tx_close_def defs split: option.splits list.splits if_splits)
  show "sys_inv hc (home_tx_close c s)"
    by (rule frames_moved_inv [OF assms])
       (auto simp: home_tx_close_def defs hf_window_def split: option.splits list.splits if_splits)
qed

lemma half_init: "half_inv i [] X Y" if "sd_win X = window_init" "sd_out Y = []" "sd_recv Y = 0"
    "\<not> sd_peer_eof Y" "\<not> sd_fin_acked X" "sd_frames X = {}" "sd_frames Y = {}"
  using that window_ok_init
  by (simp add: half_inv_def stream_ok_Nil recv_ok_def received_def window_init_def)

lemma sys_inv_init: "sys_inv hc (sys_init tc hc now)"
  by (auto simp: sys_inv_def sys_init_def travel_init_def home_init_def travel_side_def home_side_def
      travel_queued_def home_queued_def ts_window_def hf_window_def window_init_def intro!: half_init)

lemma sys_inv_home_done:
  assumes "sys_inv hc s" "sy_home_done s = None"
  shows "sys_inv hc (s\<lparr>sy_home_done := d\<rparr>)"
proof -
  let ?i = "fk_flow_id (hcf_key hc)" and ?W = "set (sy_to_travel s)"
  have "both ?i (sy_local s) (sy_target s) (travel_side s) (home_view (sy_epoch s = 0) (sy_home s) False ?W)"
    using assms by (simp add: sys_inv_both home_side_def)
  then have "both ?i (sy_local s) (sy_target s) (travel_side s) (home_view (sy_epoch s = 0) (sy_home s) (is_failed d) ?W)"
    by (rule both_quiet) auto
  then show ?thesis
    using assms(1) by (simp add: sys_inv_both home_side_def travel_side_def)
qed

text \<open>A re-created Home flow starts as a receiver of the stream from its beginning.\<close>

lemma ack_ok_restart: "ack_ok p i C r' e' f \<Longrightarrow> ack_ok False i C r e f"
  by (cases f) (auto simp: ack_at_def)

lemma half_restart:
  assumes "half_inv i C X Y" "\<not> sd_first Y'" "sd_out Y' = []" "sd_recv Y' = 0" "\<not> sd_peer_eof Y'"
    and "sd_frames Y' \<subseteq> sd_frames Y"
  shows "half_inv i C X Y'"
proof -
  have "recv_ok C Y'"
    using assms(3, 4) by (auto simp: recv_ok_def received_def)
  moreover have "\<forall>(c, f) \<in> sd_frames Y'. ack_ok False i C (sd_recv Y') (sd_peer_eof Y') f"
    using assms(1, 6) ack_ok_restart unfolding half_inv_def by fastforce
  ultimately show ?thesis
    using assms(1, 2, 5) by (simp add: half_inv_def)
qed

lemma home_reopen_inv:
  assumes "sys_inv hc s"
  shows "sys_inv hc (home_reopen hc now s)"
proof -
  let ?s = "home_reopen hc now s"
  have "half_inv (fk_flow_id (hcf_key hc)) (sy_local s) (travel_side s) (home_side ?s)"
    by (rule half_restart [of _ _ _ "home_side s"])
      (use assms in \<open>auto simp: sys_inv_def home_reopen_def home_side_def home_init_def home_queued_def\<close>)
  then show ?thesis
    using assms by (simp add: sys_inv_def home_reopen_def travel_side_def)
qed

lemma sys_inv_step:
  assumes "sys_step tc hc s s'" "sys_inv hc s"
  shows "sys_inv hc s'"
proof -
  let ?i = "fk_flow_id (hcf_key hc)" and ?W = "set (sy_to_home s)"
  have id: "?i = ts_flow_id (tf_transfer (sy_travel s))"
    using assms(2) by (simp add: sys_inv_both)
  have T: "both ?i (sy_target s) (sy_local s) (home_side s) (travel_side s)"
    using assms(2) by (simp add: sys_inv_both both_commute)
  have V: "both ?i (sy_target s) (sy_local s) (home_side s) (travel_view (sy_travel s) False ?W)"
    if "sy_travel_done s = None"
    using T that by (simp add: travel_side_def)
  have moved: "sys_inv hc z" if "travel_moved ?i (sy_target s) (sy_local s) s z" for z
    using that by (simp add: travel_moved_def sys_inv_both both_commute home_side_def travel_side_def)
  have event: "sys_inv hc (travel_step tc io now gen lat e s)"
    if "sy_travel_done s = None" "event_from (home_side s) e" "\<forall>b. e \<noteq> LocalData b" for io now gen lat e
    using moved [OF travel_step_moved [OF T id that]] .
  from assms(1) show ?thesis
  proof cases
    case (travel_data b z io now gen lat)
    then show ?thesis
      using travel_moved_inv [OF travel_step_data_moved [OF T id]] by simp
  next
    case (travel_race now tf1 race_id candidates permits tf rs)
    have B1: "both ?i (sy_target s) (sy_local s) (home_side s) (travel_view tf1 False ?W)"
      "tf_transfer tf1 = tf_transfer (sy_travel s)"
      using before_race_both [OF V [OF travel_race(2)] travel_race(4)] by auto
    from start_race_both [OF B1(1) travel_race(5)] show ?thesis
      using id travel_race B1(2)
      by (intro moved) (simp add: travel_moved_def travel_side_def)
  next
    case (travel_opened rs c r a v now lat relay ms)
    let ?b = "\<lparr>bc_carrier_id = c, bc_relay_id = relay, bc_home_receive_offset = r, bc_home_send_offset = a\<rparr>"
    obtain tf' rs' r' where o: "race_opened rs (Ok ?b) ms (sy_travel s) = (tf', rs', r')"
      by (metis prod_cases3)
    have "(c, OpenOk ?i c r a v) \<in> sd_frames (home_side s)"
      using travel_opened(4) id by (simp add: home_side_def)
    then have "ack_at (sd_first (home_side s)) (sy_local s) (sd_recv (home_side s)) (bc_home_receive_offset ?b)"
      using T by (auto simp: both_def half_inv_def travel_side_def)
    from race_opened_Ok_both [OF V [OF travel_opened(2)] id this o] show ?thesis
      unfolding travel_opened(1) o using id travel_opened(2)
      by (intro moved race_conclude_moved) auto
  next
    case (travel_not_opened rs now lat e ms)
    obtain tf' rs' r' where o: "race_opened rs (Err e) ms (sy_travel s) = (tf', rs', r')"
      by (metis prod_cases3)
    from race_opened_Err_both [OF V [OF travel_not_opened(2)] o] show ?thesis
      unfolding travel_not_opened(1) o using id travel_not_opened(2)
      by (intro moved race_conclude_moved) auto
  next
    case (travel_race_deadline rs now lat)
    then show ?thesis
      using id V by (simp add: moved race_conclude_moved)
  next
    case travel_finish
    then show ?thesis
      using assms(2) by (simp add: sys_inv_def travel_side_def home_side_def)
  next
    case (home_data b z io)
    then show ?thesis using home_step_data_inv [OF assms(2)] by simp
  next
    case (home_attached c relay v opened spawned h frame r)
    then show ?thesis using home_attach_inv [OF assms(2)] by simp
  qed (use assms(2) in \<open>auto intro: event home_step_inv carrier_moves_inv sys_inv_home_done home_reopen_inv
        simp: home_side_def\<close>)
qed

lemma reachable_inv: "reachable tc hc s \<Longrightarrow> sys_inv hc s"
  by (induction rule: reachable.induct) (auto intro: sys_inv_init sys_inv_step)

end
