(* ===== verification/Flow_Properties.thy ===== *)
theory Flow_Properties
  imports Flow_System
begin

text \<open>
  What the invariant of \<open>Flow_System\<close> says of a TCP flow: every byte is delivered at most once
  and in order through any number of carrier handovers, nothing is forgotten before it was
  delivered, a flow that ends well delivered everything, retransmission completes an interrupted
  transfer. An executable scheduler of steps gives the concrete runs of the witnesses, and two
  runs in which the handover itself ends a healthy flow.
\<close>

section \<open>An executable scheduler\<close>

datatype sys_action =
    DoRace uuid "relay_candidate_ref list" nat
  | DoAttach uuid string u16
  | DoOpened uuid string u64 u64 u16
  | DoTravelData bytes
  | DoTravelEof
  | DoTravelFrame uuid data_frame
  | DoTravelFinish
  | DoHomeData bytes
  | DoHomeEof
  | DoHomeFrame uuid data_frame
  | DoHomeFinish
  | DoTravelPump uuid
  | DoHomePump uuid
  | DoAttachFails uuid string u16 io_kind
  | DoNotOpened "string \<times> string"
  | DoTravelClosed uuid string
  | DoHomeReopen

definition guard :: "bool \<Rightarrow> 'a \<Rightarrow> 'a option" where
  "guard c x = (if c then Some x else None)"

fun exec :: "travel_config \<Rightarrow> home_config \<Rightarrow> travel_io \<Rightarrow> home_io \<Rightarrow> sys_action \<Rightarrow> flow_system
    \<Rightarrow> flow_system option" where
  "exec tc hc tio hio (DoRace race_id candidates permits) s =
     (case before_race tc 0 (sy_travel s) of
        (tf1, Ok u) \<Rightarrow> (case start_race tc 0 race_id candidates permits tf1 of
            (tf, rs) \<Rightarrow> guard (sy_travel_done s = None \<and> sy_race s = None)
                          (s\<lparr>sy_travel := tf, sy_race := Some rs\<rparr>))
      | (tf1, Err e) \<Rightarrow> None)"
| "exec tc hc tio hio (DoAttach c relay v) s =
     (case home_attach hc c relay v (Ok ()) True (sy_home s) of
        (h, frame, r) \<Rightarrow> guard (sy_home_done s = None) (s\<lparr>sy_home := h, sy_home_done := done_of r,
          sy_to_travel := sy_to_travel s @ (case frame of Some f \<Rightarrow> [(c, f)] | None \<Rightarrow> [])\<rparr>))"
| "exec tc hc tio hio (DoOpened c relay r a v) s =
     (case sy_race s of
        Some rs \<Rightarrow> guard (sy_travel_done s = None
            \<and> (c, OpenOk (ts_flow_id (tf_transfer (sy_travel s))) c r a v) \<in> set (sy_to_travel s))
          (race_conclude tc 0 0 (race_opened rs (Ok \<lparr>bc_carrier_id = c, bc_relay_id = relay,
             bc_home_receive_offset = r, bc_home_send_offset = a\<rparr>) 0 (sy_travel s)) s)
      | None \<Rightarrow> None)"
| "exec tc hc tio hio (DoTravelData b) s =
     (let s' = travel_step tc tio 0 0 0 (LocalData b) s in
      guard (sy_travel_done s = None \<and> \<not> ts_local_eof (tf_transfer (sy_travel s))
             \<and> stream_ok (sy_local s @ [b]))
        (s'\<lparr>sy_local := (if sy_travel_done s' = None then sy_local s @ [b] else sy_local s)\<rparr>))"
| "exec tc hc tio hio DoTravelEof s =
     guard (sy_travel_done s = None) (travel_step tc tio 0 0 0 LocalEof s)"
| "exec tc hc tio hio (DoTravelFrame c f) s =
     guard (sy_travel_done s = None \<and> (c, f) \<in> set (sy_to_travel s) \<and> \<not> is_open_ok f)
       (travel_step tc tio 0 0 0 (TCarrierFrame c f) s)"
| "exec tc hc tio hio DoTravelFinish s =
     guard (sy_travel_done s = None \<and> sy_race s = None \<and> travel_finished (tf_transfer (sy_travel s)))
       (s\<lparr>sy_travel_done := Some (Ok ())\<rparr>)"
| "exec tc hc tio hio (DoHomeData b) s =
     (let s' = home_step hc hio (TargetData b) s in
      guard (sy_home_done s = None \<and> \<not> hf_target_eof (sy_home s) \<and> stream_ok (sy_target s @ [b]))
        (s'\<lparr>sy_target := (if sy_home_done s' = None then sy_target s @ [b] else sy_target s)\<rparr>))"
| "exec tc hc tio hio DoHomeEof s = guard (sy_home_done s = None) (home_step hc hio TargetEof s)"
| "exec tc hc tio hio (DoHomeFrame c f) s =
     guard (sy_home_done s = None \<and> (c, f) \<in> set (sy_to_home s)) (home_step hc hio (CarrierFrame c f) s)"
| "exec tc hc tio hio DoHomeFinish s =
     guard (sy_home_done s = None \<and> home_finished (sy_home s)) (s\<lparr>sy_home_done := Some (Ok ())\<rparr>)"
| "exec tc hc tio hio (DoTravelPump c) s = Some (travel_pump c s)"
| "exec tc hc tio hio (DoHomePump c) s = Some (home_pump c s)"
| "exec tc hc tio hio (DoAttachFails c relay v k) s =
     (case home_attach hc c relay v (Err k) True (sy_home s) of
        (h, frame, r) \<Rightarrow> guard (sy_home_done s = None) (s\<lparr>sy_home := h, sy_home_done := done_of r,
          sy_to_travel := sy_to_travel s @ (case frame of Some f \<Rightarrow> [(c, f)] | None \<Rightarrow> [])\<rparr>))"
| "exec tc hc tio hio (DoNotOpened e) s =
     (case sy_race s of
        Some rs \<Rightarrow> guard (sy_travel_done s = None)
          (race_conclude tc 0 0 (race_opened rs (Err e) 0 (sy_travel s)) s)
      | None \<Rightarrow> None)"
| "exec tc hc tio hio (DoTravelClosed c reason) s =
     guard (sy_travel_done s = None) (travel_step tc tio 0 0 0 (TCarrierClosed c reason) s)"
| "exec tc hc tio hio DoHomeReopen s = guard (sy_home_done s \<noteq> None) (home_reopen hc 0 s)"

fun run_actions :: "travel_config \<Rightarrow> home_config \<Rightarrow> travel_io \<Rightarrow> home_io \<Rightarrow> sys_action list \<Rightarrow> flow_system
    \<Rightarrow> flow_system option" where
  "run_actions tc hc tio hio [] s = Some s"
| "run_actions tc hc tio hio (a # as) s =
     (case exec tc hc tio hio a s of None \<Rightarrow> None | Some s' \<Rightarrow> run_actions tc hc tio hio as s')"

lemma guard_Some [simp]: "guard c x = Some y \<longleftrightarrow> c \<and> y = x"
  by (auto simp: guard_def)

lemma exec_step:
  assumes "exec tc hc tio hio a s = Some s'"
  shows "sys_step tc hc s s'"
proof (cases a)
  case (DoTravelData b)
  with assms sys_step.travel_data [OF _ _ _ refl, of s b tc hc tio 0 0 0] show ?thesis
    by (simp add: Let_def)
next
  case (DoHomeData b)
  with assms sys_step.home_data [OF _ _ _ refl, of s b tc hc hio] show ?thesis
    by (simp add: Let_def)
next
  case (DoAttach c relay v)
  obtain h frame r where h: "home_attach hc c relay v (Ok ()) True (sy_home s) = (h, frame, r)"
    by (metis prod_cases3)
  with DoAttach assms sys_step.home_attached [OF _ h, of tc] show ?thesis by simp
next
  case (DoAttachFails c relay v k)
  obtain h frame r where h: "home_attach hc c relay v (Err k) True (sy_home s) = (h, frame, r)"
    by (metis prod_cases3)
  with DoAttachFails assms sys_step.home_attached [OF _ h, of tc] show ?thesis by simp
qed (use assms in \<open>auto split: prod.splits result.splits option.splits intro: sys_step.intros\<close>)

lemma run_reachable:
  "\<lbrakk>reachable tc hc s; run_actions tc hc tio hio as s = Some s'\<rbrakk> \<Longrightarrow> reachable tc hc s'"
  by (induction as arbitrary: s)
     (auto split: option.splits intro: reachable_step dest: exec_step)

lemma run_append:
  "run_actions tc hc tio hio (as @ bs) s =
     (case run_actions tc hc tio hio as s of None \<Rightarrow> None | Some s' \<Rightarrow> run_actions tc hc tio hio bs s')"
  by (induction as arbitrary: s) (auto split: option.splits)

section \<open>Concrete runs\<close>

definition ex_tc :: travel_config where
  "ex_tc = \<lparr>tcf_max_unacked_bytes = 100, tcf_reevaluate_secs = 60, tcf_max_reevaluate_secs = 900,
     tcf_recovery_timeout_secs = 30, tcf_race_timeout_secs = 5, tcf_max_carriers_per_flow = 4\<rparr>"

definition ex_tio :: travel_io where
  "ex_tio = \<lparr>tio_writes = [Wrote 70000], tio_shutdown = ShutDone\<rparr>"

definition ex_hio :: home_io where
  "ex_hio = \<lparr>io_now = 0, io_unix = None, io_target = IoDone\<rparr>"

definition ex_run :: "sys_action list \<Rightarrow> flow_system option" where
  "ex_run as = run_actions ex_tc sample_home_config ex_tio ex_hio as (sys_init ex_tc sample_home_config 0)"

lemma ex_run_reachable: "ex_run as = Some s \<Longrightarrow> reachable ex_tc sample_home_config s"
  unfolding ex_run_def using run_reachable reachable_init by blast

lemmas [eval_simps] = ex_tc_def sample_home_config_def ex_tio_def ex_hio_def ex_run_def sys_init_def travel_init_def
  home_init_def before_race_def start_race_def race_conclude_def travel_step_def home_step_def
  travel_pump_def home_pump_def race_event_def race_verdict_def race_opened_def race_exhausted_def
  handle_event_def main_event_def app_call_def travel_send_to_def tx_send_def finish_race_def
  race_won_def race_select_def after_race_def travel_retransmit_def retransmit_frames_def
  advance_reevaluation_def travel_on_frame_def travel_on_local_data_def travel_on_local_eof_def
  travel_on_data_def travel_on_fin_def travel_ack_frame_def travel_acknowledge_def
  home_handle_event_def home_on_frame_def home_on_race_def home_on_data_def home_on_fin_def
  home_on_target_data_def home_on_target_eof_def home_acknowledge_def home_send_to_def
  home_retransmit_def write_target_def record_home_tcp_metric_def record_home_tcp_metric_sample_def
  home_attach_def seg_end_def MAX_DATA_PAYLOAD_def sat_mul_def close_carrier_def Let_def guard_def
  stream_ok_def travel_finished_def home_finished_def home_reopen_def race_lost_def close_all_def home_on_closed_def

text \<open>A carrier (7) is opened, wins its race, and three bytes reach the target.\<close>

definition ex_select :: "sys_action list" where
  "ex_select = [DoRace 9 [\<lparr>rc_expected_id = None, rc_label = ''r''\<rparr>] 1, DoAttach 7 ''r'' 1,
     DoOpened 7 ''r'' 0 0 1, DoTravelPump 7, DoHomeFrame 7 (Race 5 9 0), DoHomePump 7,
     DoTravelFrame 7 (RaceAck 5 9 7)]"

definition ex_upload :: "sys_action list" where
  "ex_upload = [DoTravelData [1, 2, 3], DoTravelPump 7, DoHomeFrame 7 (Data 5 0 [1, 2, 3])]"

definition ex_rest :: "sys_action list" where
  "ex_rest = [DoHomePump 7, DoTravelFrame 7 (Ack 5 3), DoTravelEof, DoTravelPump 7,
     DoHomeFrame 7 (Fin 5 3), DoHomePump 7, DoTravelFrame 7 (FinAck 5 3), DoHomeEof, DoHomePump 7,
     DoTravelFrame 7 (Fin 5 0), DoTravelPump 7, DoTravelFinish, DoHomeFrame 7 (FinAck 5 0),
     DoHomeFinish]"

lemma ex_selected:
  "\<exists>s. ex_run ex_select = Some s \<and> tf_active (sy_travel s) = Some 7 \<and> hf_active_carrier (sy_home s) = Some 7"
  by (simp add: eval_simps ex_select_def)

lemma ex_uploaded:
  "\<exists>s. ex_run (ex_select @ ex_upload) = Some s \<and> hf_target_written (sy_home s) = [1, 2, 3]
     \<and> sy_local s = [[1, 2, 3]] \<and> ts_unacked_bytes (tf_transfer (sy_travel s)) = 3
     \<and> sy_epoch s = 0 \<and> sy_travel_done s = None"
  by (simp add: eval_simps ex_select_def ex_upload_def)

lemma ex_finished:
  "\<exists>s. ex_run (ex_select @ ex_upload @ ex_rest) = Some s \<and> sy_travel_done s = Some (Ok ())
     \<and> sy_home_done s = Some (Ok ()) \<and> hf_target_written (sy_home s) = [1, 2, 3] \<and> sy_epoch s = 0"
  by (simp add: eval_simps ex_select_def ex_upload_def ex_rest_def)

section \<open>Consequences of the invariant\<close>

lemma map_seg_bytes [simp]: "map seg_bytes (segs_from a C) = C"
  by (induction C arbitrary: a) auto

lemma concat_drop: "concat (drop k C) = drop (chunk_pos C k) (concat C)"
proof -
  have "concat C = concat (take k C) @ concat (drop k C)"
    by (metis append_take_drop_id concat_append)
  then show ?thesis by (simp add: chunk_pos_def)
qed

lemma prefix_concat_take: "prefix (concat (take j C)) (concat C)"
  by (metis append_take_drop_id concat_append prefixI)

lemma half_prefix: "half_inv i C X Y \<Longrightarrow> prefix (sd_out Y) (concat C)"
  by (simp only: half_inv_def recv_ok_def received_def) (metis prefix_concat_take)

lemma half_buffer:
  assumes "half_inv i C X Y"
  shows "concat (map seg_bytes (wn_unacked (sd_win X))) = drop (unat (wn_send_acked (sd_win X))) (concat C)"
    and "unat (wn_send_offset (sd_win X)) = length (concat C)"
    and "sd_first Y \<Longrightarrow> wn_send_acked (sd_win X) \<le> sd_recv Y"
  using assms by (auto simp: half_inv_def window_ok_def window_at_def concat_drop)

lemma half_received:
  assumes "half_inv i C X Y" "\<not> sd_failed Y"
  shows "sd_out Y = take (unat (sd_recv Y)) (concat C)"
proof -
  obtain j where j: "received C j (sd_out Y) (sd_recv Y)"
    using half_running [OF assms] by blast
  have "concat C = concat (take j C) @ concat (drop j C)"
    by (metis append_take_drop_id concat_append)
  with j show ?thesis
    by (simp add: received_def chunk_pos_def)
qed

lemma reachable_halves:
  assumes "reachable tc hc s"
  shows "half_inv (fk_flow_id (hcf_key hc)) (sy_local s) (travel_side s) (home_side s)"
    and "sy_epoch s = 0 \<Longrightarrow> half_inv (fk_flow_id (hcf_key hc)) (sy_target s) (home_side s) (travel_side s)"
  using reachable_inv [OF assms] by (auto simp: sys_inv_def)

text \<open>A side that reported success had met the condition for it, and has not moved since.\<close>

definition done_inv :: "flow_system \<Rightarrow> bool" where
  "done_inv s \<longleftrightarrow> (sy_travel_done s = Some (Ok ()) \<longrightarrow> travel_finished (tf_transfer (sy_travel s)))
     \<and> (sy_home_done s = Some (Ok ()) \<longrightarrow> home_finished (sy_home s))"

lemma done_of_not_Ok [simp]: "done_of r \<noteq> Some (Ok u)"
  by (cases r) auto

lemma race_conclude_done:
  "sy_travel_done (race_conclude tc now lat out s) = Some (Ok ()) \<Longrightarrow> sy_travel_done s = Some (Ok ())"
  "sy_home (race_conclude tc now lat out s) = sy_home s"
  "sy_home_done (race_conclude tc now lat out s) = sy_home_done s"
  "sy_epoch (race_conclude tc now lat out s) = sy_epoch s"
  by (auto simp: race_conclude_def Let_def split: prod.splits result.splits race_progress.splits)

lemma race_conclude_running:
  "sy_travel_done s = None \<Longrightarrow> sy_travel_done (race_conclude tc now lat out s) \<noteq> Some (Ok ())"
  using race_conclude_done(1) [of tc now lat out s] by auto

lemma travel_step_done:
  "sy_travel_done s = None \<Longrightarrow> sy_travel_done (travel_step tc io now gen lat e s) \<noteq> Some (Ok ())"
  "sy_home (travel_step tc io now gen lat e s) = sy_home s"
  "sy_home_done (travel_step tc io now gen lat e s) = sy_home_done s"
  "sy_epoch (travel_step tc io now gen lat e s) = sy_epoch s"
proof -
  show "sy_travel_done s = None \<Longrightarrow> sy_travel_done (travel_step tc io now gen lat e s) \<noteq> Some (Ok ())"
    by (cases "sy_race s") (simp_all add: travel_step_def race_conclude_running split: prod.splits)
qed (simp_all add: travel_step_def race_conclude_done split: option.splits prod.splits)

lemma home_step_done:
  "sy_home_done (home_step hc io e s) \<noteq> Some (Ok ())"
  "sy_travel (home_step hc io e s) = sy_travel s"
  "sy_travel_done (home_step hc io e s) = sy_travel_done s"
  by (auto simp: home_step_def split: prod.splits)

lemma carrier_moves_done:
  "done_inv (travel_pump c s) = done_inv s" "done_inv (home_pump c s) = done_inv s"
  "done_inv (travel_tx_close c s) = done_inv s" "done_inv (home_tx_close c s) = done_inv s"
  by (auto simp: done_inv_def travel_pump_def home_pump_def travel_tx_close_def home_tx_close_def
      home_finished_def split: option.splits list.splits)

lemma done_inv_travel:
  "\<lbrakk>done_inv s; sy_travel_done s' \<noteq> Some (Ok ()); sy_home s' = sy_home s; sy_home_done s' = sy_home_done s\<rbrakk>
     \<Longrightarrow> done_inv s'"
  by (simp add: done_inv_def)

lemma done_inv_home:
  "\<lbrakk>done_inv s; sy_home_done s' \<noteq> Some (Ok ()); sy_travel s' = sy_travel s; sy_travel_done s' = sy_travel_done s\<rbrakk>
     \<Longrightarrow> done_inv s'"
  by (simp add: done_inv_def)

lemma done_inv_step:
  assumes "sys_step tc hc s s'" "done_inv s"
  shows "done_inv s'"
proof -
  note T = done_inv_travel [OF assms(2)] and H = done_inv_home [OF assms(2)]
  note S = travel_step_done home_step_done race_conclude_done(2-4) race_conclude_running
  from assms(1) show ?thesis
  proof cases
    case travel_data
    then show ?thesis by (intro T) (simp_all add: S)
  next
    case travel_eof
    then show ?thesis by (intro T) (simp_all add: S)
  next
    case travel_error
    then show ?thesis by (intro T) (simp_all add: S)
  next
    case travel_closed
    then show ?thesis by (intro T) (simp_all add: S)
  next
    case travel_frame
    then show ?thesis by (intro T) (simp_all add: S)
  next
    case travel_race
    then show ?thesis by (intro T) (simp_all add: S)
  next
    case travel_opened
    then show ?thesis by (intro T) (simp_all add: S)
  next
    case travel_not_opened
    then show ?thesis by (intro T) (simp_all add: S)
  next
    case travel_race_deadline
    then show ?thesis by (intro T) (simp_all add: S)
  next
    case home_data
    then show ?thesis by (intro H) (simp_all add: S)
  next
    case home_eof
    then show ?thesis by (intro H) (simp_all add: S)
  next
    case home_error
    then show ?thesis by (intro H) (simp_all add: S)
  next
    case home_closed
    then show ?thesis by (intro H) (simp_all add: S)
  next
    case home_frame
    then show ?thesis by (intro H) (simp_all add: S)
  next
    case home_attached
    then show ?thesis by (intro H) (simp_all add: S)
  next
    case home_deadline
    then show ?thesis by (intro H) (simp_all add: S)
  next
    case travel_finish
    with assms(2) show ?thesis by (simp add: done_inv_def)
  next
    case home_finish
    with assms(2) show ?thesis by (simp add: done_inv_def)
  next
    case home_reopened
    with assms(2) show ?thesis by (simp add: done_inv_def home_reopen_def)
  qed (use assms(2) in \<open>simp_all add: carrier_moves_done\<close>)
qed

lemma reachable_done: "reachable tc hc s \<Longrightarrow> done_inv s"
proof (induction rule: reachable.induct)
  case (reachable_init now)
  then show ?case by (simp add: sys_init_def done_inv_def)
qed (rule done_inv_step)

section \<open>Errors an acknowledgement cannot cause\<close>

definition ack_error :: "error \<Rightarrow> bool" where
  "ack_error e \<longleftrightarrow> e = Flow AckSplitFrame \<or> e = Flow AckUnsent"

lemma home_no_ack_error:
  assumes "both i C D X (home_view True h False W)" "sd_first X" "i = fk_flow_id (hcf_key hc)"
    and "\<And>c f. e = CarrierFrame c f \<Longrightarrow> (c, f) \<in> sd_frames X" "home_handle_event hc io e h = (h', Err x)"
  shows "\<not> ack_error x"
proof (cases e)
  case (CarrierFrame c f)
  have B: "half_inv i D (home_view True h False W) X"
    using assms(1) by (auto simp: both_def)
  note ack = ack_frame_at [OF B assms(4) [OF CarrierFrame]]
  have no: "home_acknowledge n h \<noteq> (h', Err x)"
    if "ack_at (sd_first X) D (sd_recv X) n" "hf_send_acked h \<le> n" "n \<le> hf_send_offset h" for n
    using home_acknowledge_both [OF assms(1) _ that(2, 3)] that(1) by auto
  show ?thesis
    using assms(5) ack no CarrierFrame
    by (cases f) (auto simp: home_handle_event_def home_on_frame_def home_on_data_def home_on_fin_def
        write_target_def ack_error_def Let_def split: if_splits io_outcome.splits)
qed (use assms(5) in \<open>auto simp: home_handle_event_def home_on_target_data_def ack_error_def Let_def
      split: if_splits\<close>)

lemma write_loop_no_ack_error: "local_write_loop bs ws t = (t', Err x) \<Longrightarrow> \<not> ack_error x"
  by (induction bs ws t rule: local_write_loop.induct) (auto simp: ack_error_def Let_def split: if_splits)

lemma travel_no_ack_error:
  assumes "both i C D X (travel_view tf False W)" "i = ts_flow_id (tf_transfer tf)"
    and "event_from X e" "handle_event io e tf = (tf', Err x)"
  shows "\<not> ack_error x"
proof (cases e)
  case (TCarrierFrame c f)
  have B: "half_inv i D (travel_view tf False W) X"
    using assms(1) by (auto simp: both_def)
  have "(c, f) \<in> sd_frames X" using assms(3) TCarrierFrame by simp
  note ack = ack_frame_at [OF B this]
  obtain r1 where f: "travel_on_frame io c f tf = (tf', r1)" "r1 = Err x"
    using assms(4) TCarrierFrame
    by (cases "travel_on_frame io c f tf", cases "snd (travel_on_frame io c f tf)")
       (auto simp: handle_event_def)
  have no: "travel_ack_frame n tf \<noteq> (tf', Err x)"
    if "ack_at (sd_first X) D (sd_recv X) n" "ts_send_acked (tf_transfer tf) \<le> n" "n \<le> ts_send_offset (tf_transfer tf)" for n
    using travel_ack_frame_both [OF assms(1) that] by auto
  show ?thesis
    using f ack no write_loop_no_ack_error
    by (cases f) (auto simp: travel_on_frame_def travel_on_data_def travel_on_fin_def ack_error_def
        Let_def split: if_splits shutdown_result.splits prod.splits result.splits)
next
  case (LocalData b)
  with assms(4) show ?thesis
    by (auto simp: handle_event_def travel_on_local_data_def ack_error_def Let_def split: if_splits)
qed (use assms(4) in \<open>auto simp: handle_event_def ack_error_def\<close>)

lemma race_opened_no_ack_error:
  assumes "both i C D X (travel_view tf False W)" "i = ts_flow_id (tf_transfer tf)"
    and "ack_at (sd_first X) D (sd_recv X) (bc_home_receive_offset b)" "half_inv i D (travel_view tf False W) X"
    and "race_opened rs (Ok b) ms tf = (tf', rs', Err x)"
  shows "\<not> ack_error x"
proof -
  have "bc_home_receive_offset b \<le> ts_send_offset (tf_transfer tf)"
    using half_sent_length [OF assms(4)] assms(3) chunk_pos_le [of D]
    by (auto simp: ack_at_def word_le_nat_alt)
  moreover have "x \<noteq> Flow AckSplitFrame"
    using race_opened_Ok_both [OF assms(1, 2, 3, 5)] by auto
  moreover have "travel_ack_frame n g = (g', Err e) \<Longrightarrow> e = Flow AckSplitFrame" for n g g' e
    by (auto simp: travel_ack_frame_def travel_acknowledge_def Let_def split: prod.splits if_splits)
  ultimately show ?thesis
    using assms(5) by (fastforce simp: race_opened_def ack_error_def Let_def not_less [symmetric]
        split: if_splits prod.splits result.splits)
qed

lemma race_conclude_error:
  assumes "sy_travel_done s = None" "sy_travel_done (race_conclude tc now lat (tf, rs, r) s) = Some (Err x)"
  shows "r = Err x \<or> \<not> ack_error x"
  using assms
  by (auto simp: race_conclude_def after_race_def Let_def ack_error_def
      split: result.splits race_progress.splits prod.splits option.splits if_splits)

definition no_ack_error :: "flow_system \<Rightarrow> bool" where
  "no_ack_error s \<longleftrightarrow> (\<forall>x. sy_travel_done s = Some (Err x) \<or> sy_epoch s = 0 \<and> sy_home_done s = Some (Err x)
     \<longrightarrow> \<not> ack_error x)"

lemma home_step_no_ack_error:
  assumes "sys_inv hc s" "sy_home_done s = None" "no_ack_error s"
    and "\<And>c f. e = CarrierFrame c f \<Longrightarrow> (c, f) \<in> set (sy_to_home s)"
  shows "no_ack_error (home_step hc io e s)"
proof -
  have B: "both (fk_flow_id (hcf_key hc)) (sy_local s) (sy_target s) (travel_side s)
      (home_view (sy_epoch s = 0) (sy_home s) False (set (sy_to_travel s)))"
    using assms(1, 2) by (simp add: sys_inv_both home_side_def)
  obtain h r where h: "home_handle_event hc io e (sy_home s) = (h, r)"
    by (metis surj_pair)
  have "\<not> ack_error x" if "r = Err x" "sy_epoch s = 0" for x
    using home_no_ack_error [OF B [simplified that(2) simp_thms] _ refl, of e] h that assms(4)
    by (auto simp: travel_side_def)
  with h assms(3) show ?thesis
    by (cases r) (auto simp: home_step_def no_ack_error_def)
qed

lemma travel_step_no_ack_error:
  assumes "sys_inv hc s" "sy_travel_done s = None" "no_ack_error s" "event_from (home_side s) e"
  shows "no_ack_error (travel_step tc io now gen lat e s)"
proof -
  let ?i = "fk_flow_id (hcf_key hc)"
  have B: "both ?i (sy_target s) (sy_local s) (home_side s) (travel_view (sy_travel s) False (set (sy_to_home s)))"
    and id: "?i = ts_flow_id (tf_transfer (sy_travel s))"
    using assms(1, 2) by (auto simp: sys_inv_both both_commute travel_side_def)
  note ok = travel_no_ack_error [OF B id assms(4), of io]
  have main: "\<not> ack_error x" if "main_event tc io now gen e (sy_travel s) = (tf, Err x)" for tf x
    using that ok by (auto simp: main_event_def Let_def split: prod.splits result.splits)
  have race: "\<not> ack_error x" if "race_event io rs e (sy_travel s) = (tf, rs', Err x)" for tf rs rs' x
    using that ok
    by (auto simp: race_event_def Let_def split: prod.splits result.splits option.splits travel_event.splits)
  have "\<not> ack_error x" if x: "sy_travel_done (travel_step tc io now gen lat e s) = Some (Err x)" for x
  proof (cases "sy_race s")
    case None
    obtain tf r where m: "main_event tc io now gen e (sy_travel s) = (tf, r)"
      by (metis surj_pair)
    with x None have "r = Err x"
      by (cases r) (auto simp: travel_step_def)
    with m main show ?thesis by blast
  next
    case (Some rs)
    obtain tf rs' r where m: "race_event io rs e (sy_travel s) = (tf, rs', r)"
      by (metis prod_cases3)
    with x Some race_conclude_error [OF assms(2), of tc now lat tf rs' r x] race show ?thesis
      by (auto simp: travel_step_def)
  qed
  with assms(3) show ?thesis
    by (auto simp: no_ack_error_def travel_step_done)
qed

lemma race_conclude_no_ack_error:
  assumes "no_ack_error s" "sy_travel_done s = None" "\<And>x. r = Err x \<Longrightarrow> \<not> ack_error x"
  shows "no_ack_error (race_conclude tc now lat (tf, rs, r) s)"
  using assms race_conclude_error [OF assms(2), of tc now lat tf rs r]
  by (auto simp: no_ack_error_def race_conclude_done(2-4))

lemma no_ack_error_step:
  assumes "sys_step tc hc s s'" "sys_inv hc s" "no_ack_error s"
  shows "no_ack_error s'"
proof -
  let ?i = "fk_flow_id (hcf_key hc)" and ?W = "set (sy_to_home s)"
  have T: "both ?i (sy_target s) (sy_local s) (home_side s) (travel_side s)"
    and id: "?i = ts_flow_id (tf_transfer (sy_travel s))"
    using assms(2) by (auto simp: sys_inv_both both_commute)
  have event: "no_ack_error (travel_step tc io now gen lat e s)"
    if "sy_travel_done s = None" "event_from (home_side s) e" for io now gen lat e
    using travel_step_no_ack_error [OF assms(2) that(1) assms(3) that(2)] .
  have local: "no_ack_error (z\<lparr>sy_local := l\<rparr>) = no_ack_error z"
    "no_ack_error (z\<lparr>sy_target := l\<rparr>) = no_ack_error z" for z l
    by (simp_all add: no_ack_error_def)
  have quiet: "no_ack_error z" if "sy_travel_done z = sy_travel_done s \<or> sy_travel_done z = Some (Ok ())"
      "sy_home_done z = sy_home_done s \<or> sy_home_done z = Some (Ok ())" "sy_epoch z = sy_epoch s" for z
    using that assms(3) by (auto simp: no_ack_error_def)
  have moves: "no_ack_error (travel_pump c s)" "no_ack_error (home_pump c s)"
    "no_ack_error (travel_tx_close c s)" "no_ack_error (home_tx_close c s)" for c
    by (rule quiet; simp add: travel_pump_def home_pump_def travel_tx_close_def home_tx_close_def
        split: option.splits list.splits)+
  from assms(1) show ?thesis
  proof cases
    case travel_race
    then show ?thesis by (intro quiet) simp_all
  next
    case travel_finish
    then show ?thesis by (intro quiet) simp_all
  next
    case home_finish
    then show ?thesis by (intro quiet) simp_all
  next
    case home_reopened
    with assms(3) show ?thesis by (simp add: no_ack_error_def home_reopen_def)
  next
    case (travel_opened rs c r a v now lat relay ms)
    let ?b = "\<lparr>bc_carrier_id = c, bc_relay_id = relay, bc_home_receive_offset = r, bc_home_send_offset = a\<rparr>"
    obtain tf' rs' r' where o: "race_opened rs (Ok ?b) ms (sy_travel s) = (tf', rs', r')"
      by (metis prod_cases3)
    have V: "both ?i (sy_target s) (sy_local s) (home_side s) (travel_view (sy_travel s) False ?W)"
      using T travel_opened(2) by (simp add: travel_side_def)
    have "(c, OpenOk ?i c r a v) \<in> sd_frames (home_side s)"
      using travel_opened(4) id by (simp add: home_side_def)
    then have "ack_at (sd_first (home_side s)) (sy_local s) (sd_recv (home_side s)) (bc_home_receive_offset ?b)"
      using T by (auto simp: both_def half_inv_def travel_side_def)
    then have "r' = Err x \<Longrightarrow> \<not> ack_error x" for x
      using race_opened_no_ack_error [OF V id, of ?b] V o by (auto simp: both_def)
    with travel_opened o race_conclude_no_ack_error [OF assms(3)] show ?thesis by simp
  next
    case (travel_not_opened rs now lat e ms)
    obtain tf' rs' r' where o: "race_opened rs (Err e) ms (sy_travel s) = (tf', rs', r')"
      by (metis prod_cases3)
    then have "r' \<noteq> Err x" for x by (auto simp: race_opened_def Let_def split: prod.splits)
    with travel_not_opened o race_conclude_no_ack_error [OF assms(3), of r'] show ?thesis by auto
  next
    case (travel_race_deadline rs now lat)
    with race_conclude_no_ack_error [OF assms(3), of "Ok (RaceBreak None)"] show ?thesis by simp
  next
    case (home_attached c relay v opened spawned h frame r)
    have "\<not> ack_error x" if "r = Err x" for x
      using home_attached that
      by (auto simp: home_attach_def ack_error_def Let_def split: if_splits result.splits)
    with home_attached assms(3) show ?thesis by (cases r) (auto simp: no_ack_error_def)
  next
    case (home_deadline now e)
    then have "\<not> ack_error e"
      by (auto simp: home_on_deadline_def ack_error_def split: option.splits if_splits)
    with home_deadline assms(3) show ?thesis by (auto simp: no_ack_error_def)
  qed (use assms(3) in \<open>auto simp: local moves home_side_def intro!: event home_step_no_ack_error [OF assms(2) _ assms(3)]\<close>)
qed

lemma reachable_no_ack_error: "reachable tc hc s \<Longrightarrow> no_ack_error s"
proof (induction rule: reachable.induct)
  case (reachable_init now)
  then show ?case by (simp add: sys_init_def no_ack_error_def)
next
  case (reachable_step s s')
  then show ?case using no_ack_error_step reachable_inv by blast
qed

section \<open>Properties\<close>

text \<open>C1: whatever the carriers, the sockets and the races do, and however often Home has had to create
  the flow again, what the current Home task has written to its target is a prefix of what Travel has
  read from its local socket: no byte is lost, repeated, invented or reordered on the way to any one
  target connection. As long as Home's flow has not been created again, what Travel has written
  locally is a prefix of what Home has read from its target. As long as an end has not failed, its
  receive offset says exactly how long that prefix is.\<close>

theorem flow_delivers_prefix:
  assumes "reachable tc hc s"
  shows "prefix (hf_target_written (sy_home s)) (concat (sy_local s))
     \<and> (\<not> is_failed (sy_home_done s) \<longrightarrow> hf_target_written (sy_home s)
          = take (unat (hf_receive_offset (sy_home s))) (concat (sy_local s)))
     \<and> (sy_epoch s = 0 \<longrightarrow> prefix (ts_local_written (tf_transfer (sy_travel s))) (concat (sy_target s)))
     \<and> (sy_epoch s = 0 \<and> \<not> is_failed (sy_travel_done s) \<longrightarrow> ts_local_written (tf_transfer (sy_travel s))
          = take (unat (ts_receive_offset (tf_transfer (sy_travel s)))) (concat (sy_target s)))"
  using half_prefix [OF reachable_halves(1) [OF assms]] half_prefix [OF reachable_halves(2) [OF assms]]
    half_received [OF reachable_halves(1) [OF assms]] half_received [OF reachable_halves(2) [OF assms]]
  by (simp add: home_side_def travel_side_def)

theorem flow_delivers_prefix_witness:
  "\<exists>s. ex_run (ex_select @ ex_upload) = Some s \<and> hf_target_written (sy_home s) = [1, 2, 3]
     \<and> prefix (hf_target_written (sy_home s)) (concat (sy_local s))
     \<and> ts_local_written (tf_transfer (sy_travel s))
          = take (unat (ts_receive_offset (tf_transfer (sy_travel s)))) (concat (sy_target s))"
proof -
  obtain s where s: "ex_run (ex_select @ ex_upload) = Some s" "hf_target_written (sy_home s) = [1, 2, 3]"
      "sy_epoch s = 0" "sy_travel_done s = None"
    using ex_uploaded by blast
  with flow_delivers_prefix [OF ex_run_reachable [OF s(1)]] show ?thesis by auto
qed

text \<open>C2: an end forgets a byte only after its peer has delivered it: the retransmission buffer holds
  exactly the bytes read but not acknowledged - at Travel whether or not Home's flow has been created
  again, at Home as long as it has not - and, as long as Home's flow has not been created again,
  neither end's acknowledged position runs ahead of its peer's receive offset.\<close>

theorem flow_buffers_unacknowledged:
  assumes "reachable tc hc s"
  shows "concat (map seg_bytes (ts_unacked (tf_transfer (sy_travel s))))
        = drop (unat (ts_send_acked (tf_transfer (sy_travel s)))) (concat (sy_local s))
     \<and> unat (ts_send_offset (tf_transfer (sy_travel s))) = length (concat (sy_local s))
     \<and> (sy_epoch s = 0 \<longrightarrow>
          ts_send_acked (tf_transfer (sy_travel s)) \<le> hf_receive_offset (sy_home s)
        \<and> concat (map seg_bytes (hf_unacked (sy_home s)))
            = drop (unat (hf_send_acked (sy_home s))) (concat (sy_target s))
        \<and> unat (hf_send_offset (sy_home s)) = length (concat (sy_target s))
        \<and> hf_send_acked (sy_home s) \<le> ts_receive_offset (tf_transfer (sy_travel s)))"
  using half_buffer [OF reachable_halves(1) [OF assms]] half_buffer [OF reachable_halves(2) [OF assms]]
  by (simp add: home_side_def travel_side_def)

theorem flow_buffers_unacknowledged_witness:
  "\<exists>s. ex_run (ex_select @ ex_upload) = Some s \<and> ts_unacked_bytes (tf_transfer (sy_travel s)) = 3
     \<and> concat (map seg_bytes (ts_unacked (tf_transfer (sy_travel s))))
        = drop (unat (ts_send_acked (tf_transfer (sy_travel s)))) (concat (sy_local s))
     \<and> ts_send_acked (tf_transfer (sy_travel s)) \<le> hf_receive_offset (sy_home s)"
proof -
  obtain s where s: "ex_run (ex_select @ ex_upload) = Some s"
      "ts_unacked_bytes (tf_transfer (sy_travel s)) = 3" "sy_epoch s = 0"
    using ex_uploaded by blast
  with flow_buffers_unacknowledged [OF ex_run_reachable [OF s(1)]] show ?thesis by auto
qed

text \<open>C3: when Home's task reports success, its target got every byte Travel has read, Travel's socket was
  read to its end and the target got the end of stream, however often the flow had been created before.
  As long as Home's flow has not been created again, success at either end means that both directions
  were carried to the end: each peer's socket got every byte and then the end of stream.\<close>

theorem flow_success_is_complete:
  assumes "reachable tc hc s"
    and "sy_travel_done s = Some (Ok ()) \<or> sy_home_done s = Some (Ok ())"
  shows "(sy_home_done s = Some (Ok ()) \<longrightarrow> hf_target_written (sy_home s) = concat (sy_local s)
        \<and> hf_travel_eof (sy_home s) \<and> ts_local_eof (tf_transfer (sy_travel s)))
     \<and> (sy_epoch s = 0 \<longrightarrow> hf_target_written (sy_home s) = concat (sy_local s)
        \<and> ts_local_written (tf_transfer (sy_travel s)) = concat (sy_target s)
        \<and> hf_travel_eof (sy_home s) \<and> ts_remote_eof (tf_transfer (sy_travel s)))"
proof -
  have fin: "travel_finished (tf_transfer (sy_travel s)) \<or> home_finished (sy_home s)"
    "sy_home_done s = Some (Ok ()) \<longrightarrow> home_finished (sy_home s)"
    using reachable_done [OF assms(1)] assms(2) by (auto simp: done_inv_def)
  show ?thesis
    using fin reachable_halves [OF assms(1)]
    by (auto simp: half_inv_def home_side_def travel_side_def travel_finished_def home_finished_def)
qed

theorem flow_success_is_complete_witness:
  "\<exists>s. ex_run (ex_select @ ex_upload @ ex_rest) = Some s \<and> sy_travel_done s = Some (Ok ())
     \<and> hf_target_written (sy_home s) = [1, 2, 3] \<and> hf_target_written (sy_home s) = concat (sy_local s)
     \<and> ts_local_written (tf_transfer (sy_travel s)) = concat (sy_target s)"
proof -
  obtain s where s: "ex_run (ex_select @ ex_upload @ ex_rest) = Some s" "sy_travel_done s = Some (Ok ())"
      "hf_target_written (sy_home s) = [1, 2, 3]" "sy_epoch s = 0"
    using ex_finished by blast
  with flow_success_is_complete [OF ex_run_reachable [OF s(1)]] show ?thesis by auto
qed

text \<open>C5: the acknowledgements of the peer do not end a flow: in no reachable state, even after Home's flow
  has been created again, has Travel failed because an acknowledgement split a data frame or named data
  that was never sent; and as long as Home's flow has not been created again, neither has Home.\<close>

theorem flow_acks_never_fail:
  assumes "reachable tc hc s"
  shows "sy_travel_done s \<noteq> Some (Err (Flow AckSplitFrame))
     \<and> sy_travel_done s \<noteq> Some (Err (Flow AckUnsent))
     \<and> (sy_epoch s = 0 \<longrightarrow> sy_home_done s \<noteq> Some (Err (Flow AckSplitFrame)))"
  using reachable_no_ack_error [OF assms] by (auto simp: no_ack_error_def ack_error_def)

theorem flow_acks_never_fail_witness:
  "\<exists>s. ex_run (ex_select @ ex_upload @ ex_rest) = Some s \<and> sy_epoch s = 0
     \<and> sy_travel_done s \<noteq> Some (Err (Flow AckSplitFrame)) \<and> sy_home_done s = Some (Ok ())"
  using ex_finished flow_acks_never_fail [OF ex_run_reachable] by blast

section \<open>Recovery after a handover\<close>

text \<open>Home handling a list of frames of one carrier, in order.\<close>

fun home_feed :: "home_config \<Rightarrow> home_io \<Rightarrow> uuid \<Rightarrow> data_frame list \<Rightarrow> home_flow \<Rightarrow> home_flow \<times> unit res" where
  "home_feed hc io c [] h = (h, Ok ())"
| "home_feed hc io c (f # fs) h =
     (case home_on_frame hc io c f h of (h', Ok u) \<Rightarrow> home_feed hc io c fs h' | (h', Err e) \<Rightarrow> (h', Err e))"

lemma home_feed_receiver: "home_receiver.feed (hc, io, c) fs h = home_feed hc io c fs h"
  by (induction fs arbitrary: h) (simp_all split: prod.splits result.splits)

lemma home_feed_append:
  "home_feed hc io c fs h = (h', Ok ()) \<Longrightarrow> home_feed hc io c (fs @ gs) h = home_feed hc io c gs h'"
  by (induction fs arbitrary: h) (auto split: prod.splits result.splits)

lemma home_feed_fin:
  assumes "io_target io = IoDone" "n = hf_receive_offset h"
  shows "\<exists>h'. home_feed hc io c [Fin (fk_flow_id (hcf_key hc)) n] h = (h', Ok ()) \<and> hf_travel_eof h'
     \<and> hf_target_written h' = hf_target_written h \<and> hf_receive_offset h' = hf_receive_offset h"
  using assms by (simp add: home_on_frame_def home_on_fin_def Let_def)

lemma half_positions:
  assumes "half_inv i C X Y" "\<not> sd_failed Y" "wn_send_acked (sd_win X) \<le> sd_recv Y"
  obtains k j where "window_at C k (sd_win X)" "received C j (sd_out Y) (sd_recv Y)" "k \<le> j" "stream_ok C"
proof -
  obtain j where j: "received C j (sd_out Y) (sd_recv Y)" "stream_ok C"
    using half_running [OF assms(1, 2)] by blast
  obtain k where k: "window_at C k (sd_win X)"
    using assms(1) by (auto simp: half_inv_def window_ok_def)
  have "unat (wn_send_acked (sd_win X)) \<le> unat (sd_recv Y)"
    using assms(3) by (simp add: word_le_nat_alt)
  then have "chunk_pos C k \<le> chunk_pos C j" "k \<le> length C" "j \<le> length C"
    using k j(1) by (auto simp: window_at_def received_def)
  then have "k \<le> j" using chunk_pos_le_iff [OF j(2)] by blast
  with that k j show ?thesis by blast
qed

lemma complete_ack:
  assumes "window_at C k w" "stream_ok C" "unat n = length (concat C)"
  shows "\<exists>w'. window_ack n w = Ok w' \<and> wn_unacked w' = []"
proof -
  have k: "k \<le> length C" using assms(1) by (simp add: window_at_def)
  have "unat n = chunk_pos C (length C)"
    using assms(3) by (simp add: chunk_pos_all)
  from window_at_ack [OF assms(1, 2) k order_refl this] show ?thesis
    by (auto simp: window_at_def)
qed

text \<open>C4: whenever both ends are running and Home has selected a carrier, what Travel retransmits on it
  completes the upload, as long as Home's flow has not been created again, and after that too if Home
  has received at least what Travel holds to be acknowledged: processed in order with a working target, it brings the target to every byte
  read so far, however much of it had arrived on earlier carriers, passes on the end of the stream if
  it was read, and the acknowledgement of the final offset empties Travel's buffer.\<close>

theorem upload_recovers:
  assumes "reachable tc hc s" "sy_home_done s = None"
    and "hf_active_carrier (sy_home s) = Some c" "io_target io = IoDone"
    and "sy_epoch s = 0 \<or> ts_send_acked (tf_transfer (sy_travel s)) \<le> hf_receive_offset (sy_home s)"
  shows "\<exists>h'. home_feed hc io c (retransmit_frames (fk_flow_id (hcf_key hc))
            (ts_unacked (tf_transfer (sy_travel s))) (ts_local_eof (tf_transfer (sy_travel s)))
            (ts_send_offset (tf_transfer (sy_travel s)))) (sy_home s) = (h', Ok ())
     \<and> hf_target_written h' = concat (sy_local s)
     \<and> hf_receive_offset h' = ts_send_offset (tf_transfer (sy_travel s))
     \<and> (ts_local_eof (tf_transfer (sy_travel s)) \<longrightarrow> hf_travel_eof h')
     \<and> (\<exists>tf'. travel_ack_frame (hf_receive_offset h') (sy_travel s) = (tf', Ok ())
          \<and> ts_unacked (tf_transfer tf') = [])"
proof -
  let ?i = "fk_flow_id (hcf_key hc)" and ?t = "tf_transfer (sy_travel s)"
  have A: "half_inv ?i (sy_local s) (travel_side s) (home_side s)"
    using reachable_halves [OF assms(1)] by simp
  have nf: "\<not> sd_failed (home_side s)"
    using assms(2) by (simp add: home_side_def)
  have le: "ts_send_acked ?t \<le> hf_receive_offset (sy_home s)"
    using assms(5) half_buffer(3) [OF A] by (auto simp: travel_side_def home_side_def)
  obtain k j where k: "window_at (sy_local s) k (ts_window ?t)"
    and j: "received (sy_local s) j (hf_target_written (sy_home s)) (hf_receive_offset (sy_home s))" "k \<le> j"
    and ok: "stream_ok (sy_local s)"
    using half_positions [OF A nf] le by (auto simp: travel_side_def home_side_def)
  have ready: "home_ready (hc, io, c) (sy_home s)"
    using assms(3, 4) by (simp add: home_ready_def)
  have u: "ts_unacked ?t = segs_from (chunk_pos (sy_local s) k) (drop k (sy_local s))"
    and so: "unat (ts_send_offset ?t) = length (concat (sy_local s))"
    using k by (auto simp: window_at_def)
  obtain h1 where h1: "home_feed hc io c
        (map (\<lambda>g. Data ?i (seg_offset g) (seg_bytes g)) (ts_unacked ?t)) (sy_home s) = (h1, Ok ())"
      "received (sy_local s) (length (sy_local s)) (hf_target_written h1) (hf_receive_offset h1)"
    using home_receiver.recovery [OF ready j(1) ok j(2)] u by (auto simp: home_feed_receiver)
  have n: "unat (hf_receive_offset h1) = length (concat (sy_local s))"
    and w: "hf_target_written h1 = concat (sy_local s)"
    using h1(2) by (auto simp: received_def chunk_pos_all)
  have so1: "ts_send_offset ?t = hf_receive_offset h1"
    using n so by (simp add: word_unat_eq_iff)
  obtain h' where h': "home_feed hc io c (retransmit_frames ?i (ts_unacked ?t) (ts_local_eof ?t)
        (ts_send_offset ?t)) (sy_home s) = (h', Ok ())" "ts_local_eof ?t \<longrightarrow> hf_travel_eof h'"
      "hf_target_written h' = hf_target_written h1" "hf_receive_offset h' = hf_receive_offset h1"
    using h1(1) home_feed_append [OF h1(1)] home_feed_fin [OF assms(4) so1, of hc c]
    by (cases "ts_local_eof ?t") (auto simp: retransmit_frames_def)
  have "\<exists>tf'. travel_ack_frame (hf_receive_offset h1) (sy_travel s) = (tf', Ok ())
      \<and> ts_unacked (tf_transfer tf') = []"
    using complete_ack [OF k ok n] travel_acknowledge_window [of "hf_receive_offset h1" ?t]
    by (auto simp: travel_ack_frame_def)
  with h' w so1 show ?thesis by auto
qed

lemma ex_pending:
  "\<exists>s. ex_run (ex_select @ [DoTravelData [1, 2], DoTravelData [3], DoTravelEof]) = Some s
     \<and> sy_home_done s = None \<and> hf_active_carrier (sy_home s) = Some 7 \<and> sy_local s = [[1, 2], [3]]
     \<and> hf_target_written (sy_home s) = [] \<and> ts_local_eof (tf_transfer (sy_travel s)) \<and> sy_epoch s = 0"
  by (simp add: eval_simps ex_select_def)

theorem upload_recovers_witness:
  "\<exists>s h'. ex_run (ex_select @ [DoTravelData [1, 2], DoTravelData [3], DoTravelEof]) = Some s
     \<and> hf_target_written (sy_home s) = [] \<and> hf_target_written h' = [1, 2, 3] \<and> hf_travel_eof h'
     \<and> home_feed sample_home_config ex_hio 7 (retransmit_frames (fk_flow_id (hcf_key sample_home_config))
            (ts_unacked (tf_transfer (sy_travel s))) (ts_local_eof (tf_transfer (sy_travel s)))
            (ts_send_offset (tf_transfer (sy_travel s)))) (sy_home s) = (h', Ok ())"
proof -
  obtain s where s: "ex_run (ex_select @ [DoTravelData [1, 2], DoTravelData [3], DoTravelEof]) = Some s"
      "sy_home_done s = None" "hf_active_carrier (sy_home s) = Some 7" "sy_local s = [[1, 2], [3]]"
      "hf_target_written (sy_home s) = []" "ts_local_eof (tf_transfer (sy_travel s))" "sy_epoch s = 0"
    using ex_pending by blast
  have "io_target ex_hio = IoDone" by (simp add: ex_hio_def)
  from upload_recovers [OF ex_run_reachable [OF s(1)] s(2, 3) this disjI1 [OF s(7)]] obtain h' where
    "home_feed sample_home_config ex_hio 7 (retransmit_frames (fk_flow_id (hcf_key sample_home_config))
            (ts_unacked (tf_transfer (sy_travel s))) (ts_local_eof (tf_transfer (sy_travel s)))
            (ts_send_offset (tf_transfer (sy_travel s)))) (sy_home s) = (h', Ok ())"
    "hf_target_written h' = [1, 2, 3]" "hf_travel_eof h'"
    using s(4, 6) by auto
  with s show ?thesis by blast
qed

section \<open>Two handovers that end a healthy flow\<close>

text \<open>Nothing fails in these runs: no carrier closes, no socket errs, every carrier delivers in order.\<close>

text \<open>While Travel races a second carrier (8), a data frame is still on its way over the first one (7).
  Home selects 8 as soon as its \<open>Race\<close> arrives; the frame then arrives at the expected offset, but on
  a carrier that is no longer active, and is answered with \<open>Close\<close>, which Travel obeys.\<close>

theorem handover_closes_healthy_flow:
  "\<exists>s. ex_run (ex_select @ [DoTravelData [1], DoRace 10 [\<lparr>rc_expected_id = None, rc_label = ''q''\<rparr>] 1,
       DoAttach 8 ''q'' 1, DoOpened 8 ''q'' 0 0 1, DoTravelPump 8, DoHomeFrame 8 (Race 5 10 0),
       DoTravelPump 7, DoHomeFrame 7 (Data 5 0 [1]), DoHomePump 7,
       DoTravelFrame 7 (Close 5 ''non-contiguous TCP data'')]) = Some s
     \<and> sy_travel_done s = Some (Err (Flow HomeClosedFlow))"
  by (simp add: eval_simps ex_select_def)

text \<open>Home reports its receive offset when it attaches carrier 8; before Travel has processed that
  report, the active carrier 7 has brought a newer acknowledgement, and the older report ends the flow.\<close>

theorem stale_open_ends_healthy_flow:
  "\<exists>s. ex_run (ex_select @ [DoTravelData [1, 2, 3], DoRace 10 [\<lparr>rc_expected_id = None, rc_label = ''q''\<rparr>] 1,
       DoAttach 8 ''q'' 1, DoTravelPump 7, DoHomeFrame 7 (Data 5 0 [1, 2, 3]), DoHomePump 7,
       DoTravelFrame 7 (Ack 5 3), DoOpened 8 ''q'' 0 0 1]) = Some s
     \<and> sy_travel_done s = Some (Err (Flow AckBackwards))"
  by (simp add: eval_simps ex_select_def)

section \<open>A Home flow created again\<close>

text \<open>Travel has delivered three bytes of the first target connection when Home fails to answer a second
  carrier (8): the failed write ends \<open>run_flow\<close>, and with it carrier 7. The next carrier (11) creates the
  flow again under the same key. Home reports its offsets as 0, which Travel accepts because none of its own
  bytes had been acknowledged; the first three bytes of the new target connection are then taken for
  duplicates and dropped, and what follows is appended to the bytes of the old connection.\<close>

definition ex_recreated :: "sys_action list" where
  "ex_recreated = [DoHomeData [1, 2, 3], DoHomePump 7, DoTravelFrame 7 (Data 5 0 [1, 2, 3]),
     DoRace 10 [\<lparr>rc_expected_id = None, rc_label = ''q''\<rparr>] 1, DoAttachFails 8 ''q'' 1 OtherIo,
     DoNotOpened (''q'', ''carrier closed''), DoHomeReopen, DoTravelClosed 7 ''closed'',
     DoRace 12 [\<lparr>rc_expected_id = None, rc_label = ''r''\<rparr>] 1, DoAttach 11 ''r'' 1,
     DoOpened 11 ''r'' 0 0 1, DoTravelPump 11, DoHomeFrame 11 (Race 5 12 0), DoHomePump 11,
     DoTravelFrame 11 (RaceAck 5 12 11), DoHomeData [7, 8, 9], DoHomePump 11,
     DoTravelFrame 11 (Data 5 0 [7, 8, 9]), DoHomeData [10, 11], DoHomePump 11,
     DoTravelFrame 11 (Data 5 3 [10, 11])]"

theorem recreated_flow_mixes_targets:
  "\<exists>s. ex_run (ex_select @ ex_recreated) = Some s \<and> sy_travel_done s = None \<and> sy_home_done s = None
     \<and> sy_epoch s = 1 \<and> sy_target s = [[7, 8, 9], [10, 11]]
     \<and> ts_local_written (tf_transfer (sy_travel s)) = [1, 2, 3, 10, 11]"
  by (simp add: eval_simps ex_select_def ex_recreated_def)

end
