(* ===== verification/Frame.thy ===== *)
theory Frame
  imports Protocol
begin

text \<open>
  Length-prefixed framing of \<open>internal/flowsplice-core/src/frame.rs\<close>: the resumable reader
  (whose cursors survive a cancelled \<open>read\<close> future), the JSON and data-frame readers built on
  it, the binary codec of \<open>Data\<close> and \<open>Datagram\<close> frames, and the bounded writers. The transport
  a reader polls is the list of what its next \<open>read\<close> calls yield; an exhausted list is a read
  that is still pending, where \<open>tokio::select!\<close> or a deadline may drop the future. The locale
  \<open>frame_codec\<close> is the contract between a payload codec and the framing, interpreted for the
  JSON messages and for the negotiated data frames.
\<close>

section \<open>Transports and the serialization library\<close>

datatype read_event = Bytes bytes | ReadErr io_kind
datatype write_event = Written | WriteFails nat io_kind | WriteStalls nat
datatype 'a poll = Ready 'a | Pending

text \<open>\<open>Bytes []\<close> is a read of length zero, the end of the stream. A write fails or stalls after
  some number of bytes of the frame. \<open>serde_json\<close> is a pair of functions; what the code relies
  on is that decoding inverts a successful encoding.\<close>

record 'a json =
  to_vec :: "'a \<Rightarrow> bytes option"
  from_slice :: "bytes \<Rightarrow> 'a option"

definition json_ok :: "'a json \<Rightarrow> bool" where
  "json_ok J \<longleftrightarrow> (\<forall>x b. to_vec J x = Some b \<longrightarrow> from_slice J b = Some x)"

section \<open>The length-prefixed reader\<close>

record length_prefixed_reader =
  lp_limit :: nat
  lp_prefix :: bytes
  lp_prefix_read :: nat
  lp_payload :: bytes
  lp_payload_read :: nat

definition lp_new :: "nat \<Rightarrow> length_prefixed_reader" where
  "lp_new limit = \<lparr>lp_limit = limit, lp_prefix = replicate 4 0, lp_prefix_read = 0,
     lp_payload = [], lp_payload_read = 0\<rparr>"

definition overwrite :: "bytes \<Rightarrow> nat \<Rightarrow> bytes \<Rightarrow> bytes" where
  "overwrite buf i bs = take i buf @ bs @ drop (i + length bs) buf"

definition push_front :: "bytes \<Rightarrow> read_event list \<Rightarrow> read_event list" where
  "push_front bs ins = (if bs = [] then ins else Bytes bs # ins)"

text \<open>The loop \<open>while pos < buf.len() { pos += reader.read(&mut buf[pos..]).await? }\<close>, which the
  reader runs once for the prefix and once for the payload.\<close>

function fill :: "bytes \<Rightarrow> nat \<Rightarrow> read_event list
    \<Rightarrow> unit res poll \<times> bytes \<times> nat \<times> read_event list" where
  "fill buf pos ins =
     (if pos < length buf then
        (case ins of
           [] \<Rightarrow> (Pending, buf, pos, [])
         | ReadErr k # ins' \<Rightarrow> (Ready (Err (Io k)), buf, pos, ins')
         | Bytes bs # ins' \<Rightarrow>
             (if bs = [] then (Ready (Err (Io UnexpectedEof)), buf, pos, ins')
              else let chunk = take (length buf - pos) bs
                   in fill (overwrite buf pos chunk) (pos + length chunk)
                        (push_front (drop (length buf - pos) bs) ins')))
      else (Ready (Ok ()), buf, pos, ins))"
  by pat_completeness auto

fun event_size :: "read_event \<Rightarrow> nat" where
  "event_size (Bytes bs) = Suc (length bs)"
| "event_size (ReadErr k) = 1"

termination fill
  by (relation "measure (\<lambda>(buf, pos, ins). sum_list (map event_size ins))")
     (auto simp: push_front_def)

declare fill.simps [simp del]

text \<open>The part of \<open>read_payload\<close> after the prefix is complete: the length check, the
  allocation of the payload buffer, and its loop.\<close>

definition read_body :: "length_prefixed_reader \<Rightarrow> read_event list
    \<Rightarrow> bytes res poll \<times> length_prefixed_reader \<times> read_event list" where
  "read_body r ins =
     (let len = unat (from_be_bytes (lp_prefix r) :: u32) in
      if lp_payload r = [] \<and> (len = 0 \<or> lp_limit r < len)
      then (Ready (Err (Io InvalidData)), r, ins)
      else
        let payload0 = (if lp_payload r = [] then replicate len 0 else lp_payload r);
            (out, payload, pos, ins') = fill payload0 (lp_payload_read r) ins;
            r' = r\<lparr>lp_payload := payload, lp_payload_read := pos\<rparr>
        in (case out of
              Pending \<Rightarrow> (Pending, r', ins')
            | Ready (Err e) \<Rightarrow> (Ready (Err e), r', ins')
            | Ready (Ok u) \<Rightarrow> (Ready (Ok payload), r', ins')))"

definition read_payload :: "length_prefixed_reader \<Rightarrow> read_event list
    \<Rightarrow> bytes res poll \<times> length_prefixed_reader \<times> read_event list" where
  "read_payload r ins =
     (let (out, prefix, pos, ins') = fill (lp_prefix r) (lp_prefix_read r) ins;
          r' = r\<lparr>lp_prefix := prefix, lp_prefix_read := pos\<rparr>
      in (case out of
            Pending \<Rightarrow> (Pending, r', ins')
          | Ready (Err e) \<Rightarrow> (Ready (Err e), r', ins')
          | Ready (Ok u) \<Rightarrow> read_body r' ins'))"

definition finish_frame :: "length_prefixed_reader \<Rightarrow> length_prefixed_reader" where
  "finish_frame r = r\<lparr>lp_prefix := replicate 4 0, lp_prefix_read := 0, lp_payload := [],
     lp_payload_read := 0\<rparr>"

section \<open>Readers of JSON and data frames\<close>

text \<open>\<open>read\<close> of both frame readers: an error of \<open>read_payload\<close> leaves at the \<open>?\<close>, before
  \<open>finish_frame\<close>; a decoding error comes after it.\<close>

definition read_frame :: "(bytes \<Rightarrow> 'a res) \<Rightarrow> length_prefixed_reader \<Rightarrow> read_event list
    \<Rightarrow> 'a res poll \<times> length_prefixed_reader \<times> read_event list" where
  "read_frame decode r ins =
     (case read_payload r ins of
        (Pending, r', ins') \<Rightarrow> (Pending, r', ins')
      | (Ready (Err e), r', ins') \<Rightarrow> (Ready (Err e), r', ins')
      | (Ready (Ok payload), r', ins') \<Rightarrow> (Ready (decode payload), finish_frame r', ins'))"

definition json_decode :: "'a json \<Rightarrow> bytes \<Rightarrow> 'a res" where
  "json_decode J b = ok_or (from_slice J b) (Io InvalidData)"

definition json_encode :: "'a json \<Rightarrow> 'a \<Rightarrow> bytes res" where
  "json_encode J x = ok_or (to_vec J x) (Io InvalidData)"

definition json_read :: "'a json \<Rightarrow> length_prefixed_reader \<Rightarrow> read_event list
    \<Rightarrow> 'a res poll \<times> length_prefixed_reader \<times> read_event list" where
  "json_read J = read_frame (json_decode J)"

definition read_with_timeout :: "'a json \<Rightarrow> length_prefixed_reader \<Rightarrow> read_event list
    \<Rightarrow> 'a res \<times> length_prefixed_reader \<times> read_event list" where
  "read_with_timeout J r ins =
     (case json_read J r ins of
        (Pending, r', ins') \<Rightarrow> (Err (Io TimedOut), r', ins')
      | (Ready x, r', ins') \<Rightarrow> (x, r', ins'))"

datatype data_frame_codec = Json | BinaryV1

definition negotiate :: "u16 \<Rightarrow> data_frame_codec" where
  "negotiate peer_version = (if DATA_PROTOCOL_BINARY_V1 \<le> peer_version then BinaryV1 else Json)"

fun version :: "data_frame_codec \<Rightarrow> u16" where
  "version Json = 0"
| "version BinaryV1 = DATA_PROTOCOL_BINARY_V1"

definition decode_data_frame :: "data_frame json \<Rightarrow> bytes \<Rightarrow> data_frame_codec \<Rightarrow> data_frame res" where
  "decode_data_frame J payload codec =
     (if codec = Json then json_decode J payload
      else (case payload of
         [] \<Rightarrow> Err (Io InvalidData)
       | marker # body \<Rightarrow>
           if marker = 0 then json_decode J body
           else if marker = 1 \<or> marker = 2 then
             (if length body < 24 then Err (Io InvalidData)
              else let flow_id = from_be_bytes (take 16 body);
                       position = from_be_bytes (take 8 (drop 16 body));
                       bs = drop 24 body
                   in if MAX_DATA_PAYLOAD < length bs then Err (Io InvalidData)
                      else if marker = 1 then Ok (Data flow_id position bs)
                      else Ok (Datagram flow_id position bs))
           else Err (Io InvalidData)))"

definition data_read :: "data_frame json \<Rightarrow> data_frame_codec \<Rightarrow> length_prefixed_reader
    \<Rightarrow> read_event list \<Rightarrow> data_frame res poll \<times> length_prefixed_reader \<times> read_event list" where
  "data_read J codec = read_frame (\<lambda>payload. decode_data_frame J payload codec)"

section \<open>Writers\<close>

definition frame_bytes :: "bytes \<Rightarrow> bytes" where
  "frame_bytes payload = to_be_bytes (word_of_nat (length payload) :: u32) @ payload"

definition write_payload :: "bytes \<Rightarrow> bytes \<Rightarrow> nat \<Rightarrow> write_event \<Rightarrow> unit res poll \<times> bytes" where
  "write_payload writer payload limit ev =
     (if payload = [] \<or> limit < length payload then (Ready (Err (Io InvalidData)), writer)
      else if 2 ^ 32 \<le> length payload then (Ready (Err (Io InvalidData)), writer)
      else (case ev of
              Written \<Rightarrow> (Ready (Ok ()), writer @ frame_bytes payload)
            | WriteFails n k \<Rightarrow> (Ready (Err (Io k)), writer @ take n (frame_bytes payload))
            | WriteStalls n \<Rightarrow> (Pending, writer @ take n (frame_bytes payload))))"

definition encode_binary_payload :: "byte \<Rightarrow> uuid \<Rightarrow> u64 \<Rightarrow> bytes \<Rightarrow> bytes res" where
  "encode_binary_payload marker flow_id position bs =
     (if MAX_DATA_PAYLOAD < length bs then Err (Io InvalidData)
      else Ok ([marker] @ to_be_bytes flow_id @ to_be_bytes position @ bs))"

definition encode_data_frame :: "data_frame json \<Rightarrow> data_frame_codec \<Rightarrow> data_frame \<Rightarrow> bytes res" where
  "encode_data_frame J codec value =
     (case codec of
        Json \<Rightarrow> json_encode J value
      | BinaryV1 \<Rightarrow>
         (case value of
            Data flow_id offset bs \<Rightarrow> encode_binary_payload 1 flow_id offset bs
          | Datagram flow_id sequence bs \<Rightarrow> encode_binary_payload 2 flow_id sequence bs
          | _ \<Rightarrow> rbind (json_encode J value) (\<lambda>j. Ok (0 # j))))"

definition write_frame_inner :: "('a \<Rightarrow> bytes res) \<Rightarrow> bytes \<Rightarrow> 'a \<Rightarrow> nat \<Rightarrow> write_event
    \<Rightarrow> unit res poll \<times> bytes" where
  "write_frame_inner encode writer value limit ev =
     (case encode value of
        Err e \<Rightarrow> (Ready (Err e), writer)
      | Ok payload \<Rightarrow> write_payload writer payload limit ev)"

definition with_timeout :: "unit res poll \<times> bytes \<Rightarrow> unit res \<times> bytes" where
  "with_timeout p = (case p of (Ready x, w) \<Rightarrow> (x, w) | (Pending, w) \<Rightarrow> (Err (Io TimedOut), w))"

definition write_json :: "'a json \<Rightarrow> bytes \<Rightarrow> 'a \<Rightarrow> nat \<Rightarrow> write_event \<Rightarrow> unit res \<times> bytes" where
  "write_json J writer value limit ev =
     with_timeout (write_frame_inner (json_encode J) writer value limit ev)"

definition write_data_frame :: "data_frame json \<Rightarrow> bytes \<Rightarrow> data_frame \<Rightarrow> nat \<Rightarrow> data_frame_codec
    \<Rightarrow> write_event \<Rightarrow> unit res \<times> bytes" where
  "write_data_frame J writer value limit codec ev =
     with_timeout (write_frame_inner (encode_data_frame J codec) writer value limit ev)"

section \<open>Resuming a cancelled read\<close>

lemma length_overwrite [simp]:
  "pos + length bs \<le> length buf \<Longrightarrow> length (overwrite buf pos bs) = length buf"
  by (simp add: overwrite_def)

lemma fill_done: "length buf \<le> pos \<Longrightarrow> fill buf pos ins = (Ready (Ok ()), buf, pos, ins)"
  by (simp add: fill.simps)

lemma fill_Nil: "pos < length buf \<Longrightarrow> fill buf pos [] = (Pending, buf, pos, [])"
  by (simp add: fill.simps)

lemma fill_ReadErr:
  "pos < length buf \<Longrightarrow> fill buf pos (ReadErr k # ins) = (Ready (Err (Io k)), buf, pos, ins)"
  by (subst fill.simps) simp

lemma fill_eof:
  "pos < length buf \<Longrightarrow>
     fill buf pos (Bytes [] # ins) = (Ready (Err (Io UnexpectedEof)), buf, pos, ins)"
  by (subst fill.simps) simp

lemma fill_chunk:
  assumes "pos < length buf" "bs \<noteq> []"
  shows "fill buf pos (Bytes bs # ins) =
     fill (overwrite buf pos (take (length buf - pos) bs))
          (pos + length (take (length buf - pos) bs))
          (push_front (drop (length buf - pos) bs) ins)"
  using assms by (subst fill.simps) (simp add: Let_def)

lemmas fill_steps = fill_done fill_Nil fill_ReadErr fill_eof fill_chunk

text \<open>Induction along the loop, one case per outcome of \<open>reader.read\<close>.\<close>

lemma fill_step_induct [case_names complete blocked failed eof chunk]:
  assumes "\<And>buf pos ins. length buf \<le> pos \<Longrightarrow> P buf pos ins"
    and "\<And>buf pos. pos < length buf \<Longrightarrow> P buf pos []"
    and "\<And>buf pos k ins. pos < length buf \<Longrightarrow> P buf pos (ReadErr k # ins)"
    and "\<And>buf pos ins. pos < length buf \<Longrightarrow> P buf pos (Bytes [] # ins)"
    and "\<And>buf pos bs ins. \<lbrakk>pos < length buf; bs \<noteq> [];
       P (overwrite buf pos (take (length buf - pos) bs))
         (pos + length (take (length buf - pos) bs))
         (push_front (drop (length buf - pos) bs) ins)\<rbrakk> \<Longrightarrow> P buf pos (Bytes bs # ins)"
  shows "P buf pos ins"
proof (induction buf pos ins rule: fill.induct)
  case (1 buf pos ins)
  show ?case
  proof (cases "pos < length buf")
    case False
    then show ?thesis using assms(1) by simp
  next
    case True
    show ?thesis
    proof (cases ins)
      case Nil
      with True assms(2) show ?thesis by simp
    next
      case (Cons e ins')
      show ?thesis
      proof (cases e)
        case (Bytes bs)
        with Cons True 1 assms(4, 5) show ?thesis by (cases "bs = []") auto
      next
        case (ReadErr k)
        with Cons True assms(3) show ?thesis by simp
      qed
    qed
  qed
qed

lemma push_front_append: "push_front bs ins @ ys = push_front bs (ins @ ys)"
  by (simp add: push_front_def)

lemma length_fill: "fill buf pos ins = (out, buf', pos', ins') \<Longrightarrow> length buf' = length buf"
  by (induction buf pos ins rule: fill_step_induct) (auto simp: fill_steps)

lemma fill_complete: "fill buf pos ins = (Ready (Ok u), buf', pos', ins') \<Longrightarrow> length buf' \<le> pos'"
  by (induction buf pos ins rule: fill_step_induct) (auto simp: fill_steps)

lemma fill_resume:
  "fill buf pos xs = (Pending, buf', pos', ins') \<Longrightarrow>
     ins' = [] \<and> fill buf pos (xs @ ys) = fill buf' pos' ys"
  by (induction buf pos xs rule: fill_step_induct) (auto simp: fill_steps push_front_append)

lemma fill_ready_extend:
  "fill buf pos xs = (Ready x, buf', pos', ins') \<Longrightarrow>
     fill buf pos (xs @ ys) = (Ready x, buf', pos', ins' @ ys)"
  by (induction buf pos xs rule: fill_step_induct) (auto simp: fill_steps push_front_append)

lemma read_body_resume:
  assumes "read_body r xs = (Pending, r', ins')"
  shows "ins' = [] \<and> lp_prefix r' = lp_prefix r \<and> lp_prefix_read r' = lp_prefix_read r
     \<and> read_body r (xs @ ys) = read_body r' ys"
proof -
  let ?len = "unat (from_be_bytes (lp_prefix r) :: u32)"
  let ?p0 = "if lp_payload r = [] then replicate ?len 0 else lp_payload r"
  obtain payload pos where f: "fill ?p0 (lp_payload_read r) xs = (Pending, payload, pos, ins')"
    and r': "r' = r\<lparr>lp_payload := payload, lp_payload_read := pos\<rparr>"
    and ok: "\<not> (lp_payload r = [] \<and> (?len = 0 \<or> lp_limit r < ?len))"
    using assms
    by (auto simp: read_body_def Let_def split: if_splits prod.splits poll.splits result.splits)
  have "payload \<noteq> []"
    using length_fill [OF f] ok by (auto split: if_splits)
  with r' ok fill_resume [OF f, of ys] show ?thesis
    by (cases "fill payload pos ys") (auto simp: read_body_def Let_def simp del: unat_0_iff
         split: if_splits poll.splits result.splits)
qed

lemma read_payload_resume:
  assumes "read_payload r xs = (Pending, r', ins')"
  shows "ins' = [] \<and> read_payload r (xs @ ys) = read_payload r' ys"
proof -
  obtain out prefix pos ins1 where f: "fill (lp_prefix r) (lp_prefix_read r) xs = (out, prefix, pos, ins1)"
    by (metis prod_cases4)
  let ?r1 = "r\<lparr>lp_prefix := prefix, lp_prefix_read := pos\<rparr>"
  show ?thesis
  proof (cases out)
    case Pending
    with assms f fill_resume [of _ _ xs _ _ _ ys] show ?thesis
      by (auto simp: read_payload_def)
  next
    case (Ready x)
    then obtain u where x: "x = Ok u"
      using assms f by (cases x) (auto simp: read_payload_def)
    then have body: "read_body ?r1 ins1 = (Pending, r', ins')"
      using assms f Ready by (simp add: read_payload_def)
    have "length prefix \<le> pos"
      using f Ready x fill_complete by blast
    moreover have "read_body (r'\<lparr>lp_prefix := prefix, lp_prefix_read := pos\<rparr>) ys = read_body r' ys"
      using read_body_resume [OF body, of ys] by (cases r') simp
    ultimately show ?thesis
      using read_body_resume [OF body, of ys] f Ready x fill_ready_extend [of _ _ xs _ _ _ _ ys]
      by (simp add: read_payload_def fill_done)
  qed
qed

lemma read_frame_resume:
  assumes "read_frame decode r xs = (Pending, r', ins')"
  shows "ins' = [] \<and> read_frame decode r (xs @ ys) = read_frame decode r' ys"
proof -
  have "read_payload r xs = (Pending, r', ins')"
    using assms by (auto simp: read_frame_def split: prod.splits poll.splits result.splits)
  with read_payload_resume [of r xs r' ins' ys] show ?thesis
    by (simp add: read_frame_def)
qed

section \<open>Complete frames under any chunking\<close>

fun event_bytes :: "read_event \<Rightarrow> bytes" where
  "event_bytes (Bytes bs) = bs"
| "event_bytes (ReadErr k) = []"

fun is_chunk :: "read_event \<Rightarrow> bool" where
  "is_chunk (Bytes bs) \<longleftrightarrow> bs \<noteq> []"
| "is_chunk (ReadErr k) \<longleftrightarrow> False"

text \<open>What the transport will deliver, and that it delivers it without error or end.\<close>

definition flat :: "read_event list \<Rightarrow> bytes" where
  "flat ins = concat (map event_bytes ins)"

definition chunks :: "read_event list \<Rightarrow> bool" where
  "chunks ins \<longleftrightarrow> list_all is_chunk ins"

lemma flat_simps [simp]: "flat [] = []" "flat (e # ins) = event_bytes e @ flat ins"
  by (simp_all add: flat_def)

lemma chunks_simps [simp]: "chunks []" "chunks (e # ins) \<longleftrightarrow> is_chunk e \<and> chunks ins"
  by (simp_all add: chunks_def)

lemma flat_push_front [simp]: "flat (push_front bs ins) = bs @ flat ins"
  by (simp add: push_front_def)

lemma chunks_push_front [simp]: "chunks (push_front bs ins) \<longleftrightarrow> chunks ins"
  by (simp add: push_front_def)

lemma overwrite_step:
  assumes "pos + length bs \<le> length buf"
  shows "take (pos + length bs) (overwrite buf pos bs) = take pos buf @ bs"
  using assms by (cases bs) (auto simp: overwrite_def min_def)

lemma fill_reads:
  "\<lbrakk>pos \<le> length buf; chunks ins; length buf - pos \<le> length (flat ins)\<rbrakk> \<Longrightarrow>
     \<exists>ins'. fill buf pos ins =
        (Ready (Ok ()), take pos buf @ take (length buf - pos) (flat ins), length buf, ins')
       \<and> chunks ins' \<and> flat ins' = drop (length buf - pos) (flat ins)"
proof (induction buf pos ins rule: fill_step_induct)
  case (chunk buf pos bs ins)
  let ?c = "take (length buf - pos) bs"
  have "take (pos + length ?c) (overwrite buf pos ?c) = take pos buf @ ?c"
    using chunk by (intro overwrite_step) auto
  with chunk show ?case
    by (fastforce simp: fill_chunk min_def)
qed (auto simp: fill_steps)

lemma read_payload_frame:
  assumes "chunks ins" "flat ins = frame_bytes p @ rest"
    and "p \<noteq> []" "length p \<le> limit" "length p < 2 ^ 32"
  shows "\<exists>r' ins'. read_payload (lp_new limit) ins = (Ready (Ok p), r', ins')
     \<and> finish_frame r' = lp_new limit \<and> chunks ins' \<and> flat ins' = rest"
proof -
  let ?n = "word_of_nat (length p) :: u32"
  have len: "unat ?n = length p"
    using assms(5) by (simp add: unat_of_nat)
  have "length (to_be_bytes ?n) = 4" by simp
  then obtain ins1 where f1: "fill (replicate 4 0) 0 ins = (Ready (Ok ()), to_be_bytes ?n, 4, ins1)"
    and i1: "chunks ins1" "flat ins1 = p @ rest"
    using fill_reads [of 0 "replicate 4 0" ins] assms(1, 2) by (auto simp: frame_bytes_def)
  obtain ins2 where f2: "fill (replicate (length p) 0) 0 ins1 = (Ready (Ok ()), p, length p, ins2)"
    and i2: "chunks ins2" "flat ins2 = rest"
    using fill_reads [of 0 "replicate (length p) 0" ins1] i1 by auto
  show ?thesis
    using f1 f2 i2 assms(3, 4) len
    by (simp add: read_payload_def read_body_def lp_new_def from_to_be_bytes finish_frame_def)
qed

section \<open>Codecs over the framing\<close>

text \<open>Writing a list of values one after the other on a transport that accepts every frame,
  and reading as many frames back.\<close>

fun write_frames :: "('a \<Rightarrow> bytes res) \<Rightarrow> nat \<Rightarrow> bytes \<Rightarrow> 'a list \<Rightarrow> bytes res" where
  "write_frames encode limit w [] = Ok w"
| "write_frames encode limit w (x # xs) =
     (case with_timeout (write_frame_inner encode w x limit Written) of
        (Ok u, w') \<Rightarrow> write_frames encode limit w' xs
      | (Err e, w') \<Rightarrow> Err e)"

fun read_frames :: "(bytes \<Rightarrow> 'a res) \<Rightarrow> nat \<Rightarrow> length_prefixed_reader \<Rightarrow> read_event list
    \<Rightarrow> 'a res poll list \<times> length_prefixed_reader \<times> read_event list" where
  "read_frames decode 0 r ins = ([], r, ins)"
| "read_frames decode (Suc n) r ins =
     (let (x, r', ins') = read_frame decode r ins;
          (xs, r'', ins'') = read_frames decode n r' ins'
      in (x # xs, r'', ins''))"

lemma write_frame_ok:
  "with_timeout (write_frame_inner encode w x limit Written) = (Ok u, w') \<longleftrightarrow>
     (\<exists>p. encode x = Ok p \<and> p \<noteq> [] \<and> length p \<le> limit \<and> length p < 2 ^ 32
        \<and> w' = w @ frame_bytes p)"
  by (auto simp: with_timeout_def write_frame_inner_def write_payload_def split: result.splits)

locale frame_codec =
  fixes lawful :: "'j \<Rightarrow> bool"
    and encode :: "'j \<Rightarrow> 'a \<Rightarrow> bytes res"
    and decode :: "'j \<Rightarrow> bytes \<Rightarrow> 'a res"
  assumes decode_encode: "lawful j \<Longrightarrow> encode j x = Ok b \<Longrightarrow> decode j b = Ok x"
begin

lemma encode_inj: "lawful j \<Longrightarrow> encode j x = Ok b \<Longrightarrow> encode j y = Ok b \<Longrightarrow> x = y"
  using decode_encode by (metis result.inject(1))

lemma read_one:
  assumes "lawful j" "encode j x = Ok p" "p \<noteq> []" "length p \<le> limit" "length p < 2 ^ 32"
    and "chunks ins" "flat ins = frame_bytes p @ rest"
  shows "\<exists>ins'. read_frame (decode j) (lp_new limit) ins = (Ready (Ok x), lp_new limit, ins')
     \<and> chunks ins' \<and> flat ins' = rest"
  using read_payload_frame [OF assms(6, 7, 3, 4, 5)] decode_encode [OF assms(1, 2)]
  by (auto simp: read_frame_def)

lemma write_frames_prefix: "write_frames (encode j) limit w xs = Ok w' \<Longrightarrow> \<exists>b. w' = w @ b"
proof (induction xs arbitrary: w)
  case (Cons x xs)
  then show ?case
    by (fastforce split: result.splits prod.splits simp: write_frame_ok)
qed simp

lemma read_written:
  "\<lbrakk>lawful j; write_frames (encode j) limit w xs = Ok (w @ b); chunks ins; flat ins = b @ rest\<rbrakk> \<Longrightarrow>
     \<exists>ins'. read_frames (decode j) (length xs) (lp_new limit) ins
         = (map (Ready \<circ> Ok) xs, lp_new limit, ins') \<and> chunks ins' \<and> flat ins' = rest"
proof (induction xs arbitrary: w b ins)
  case (Cons x xs)
  from Cons.prems(2) obtain u w1 where
    w1: "with_timeout (write_frame_inner (encode j) w x limit Written) = (Ok u, w1)"
    and tail: "write_frames (encode j) limit w1 xs = Ok (w @ b)"
    by (auto split: result.splits prod.splits)
  then obtain p where p: "encode j x = Ok p" "p \<noteq> []" "length p \<le> limit" "length p < 2 ^ 32"
    and w1p: "w1 = w @ frame_bytes p"
    by (auto simp: write_frame_ok)
  obtain b' where b': "w @ b = w1 @ b'"
    using write_frames_prefix [OF tail] by blast
  with w1p have flat: "flat ins = frame_bytes p @ (b' @ rest)"
    using Cons.prems(4) by simp
  obtain ins1 where "read_frame (decode j) (lp_new limit) ins = (Ready (Ok x), lp_new limit, ins1)"
    and "chunks ins1" "flat ins1 = b' @ rest"
    using read_one [OF Cons.prems(1) p Cons.prems(3) flat] by blast
  with Cons.IH [OF Cons.prems(1) tail [unfolded b']] show ?case
    by fastforce
qed auto

end

lemma json_encode_Ok [simp]: "json_encode J x = Ok b \<longleftrightarrow> to_vec J x = Some b"
  by (simp add: json_encode_def)

lemma json_decode_Ok [simp]: "json_decode J b = Ok x \<longleftrightarrow> from_slice J b = Some x"
  by (simp add: json_decode_def)

lemma decode_encode_binary:
  assumes "encode_binary_payload m f q bs = Ok b" "m = 1 \<or> m = 2"
  shows "decode_data_frame J b BinaryV1 = Ok (if m = 1 then Data f q bs else Datagram f q bs)"
proof -
  have b: "b = m # to_be_bytes f @ to_be_bytes q @ bs" and l: "\<not> MAX_DATA_PAYLOAD < length bs"
    using assms(1) by (auto simp: encode_binary_payload_def split: if_splits)
  have "take 16 (to_be_bytes f @ to_be_bytes q @ bs) = to_be_bytes f"
    "take 8 (drop 16 (to_be_bytes f @ to_be_bytes q @ bs)) = to_be_bytes q"
    "drop 24 (to_be_bytes f @ to_be_bytes q @ bs) = bs"
    by simp_all
  then show ?thesis
    using b l assms(2) by (auto simp: decode_data_frame_def from_to_be_bytes)
qed

lemma decode_encode_data_frame:
  assumes "json_ok J" "encode_data_frame J codec x = Ok b"
  shows "decode_data_frame J b codec = Ok x"
proof (cases codec)
  case Json
  with assms show ?thesis
    by (simp add: encode_data_frame_def decode_data_frame_def json_ok_def)
next
  case BinaryV1
  with assms show ?thesis
    by (cases x) (auto simp: encode_data_frame_def json_ok_def
        decode_encode_binary decode_data_frame_def [where payload = "0 # _"])
qed

interpretation json_frames: frame_codec json_ok json_encode json_decode
  by unfold_locales (simp add: json_ok_def)

interpretation data_frames: frame_codec "\<lambda>(J, codec). json_ok J"
  "\<lambda>(J, codec). encode_data_frame J codec" "\<lambda>(J, codec) payload. decode_data_frame J payload codec"
  by unfold_locales (auto simp: decode_encode_data_frame)

section \<open>Readers keep their cursors in bounds\<close>

definition lp_wf :: "length_prefixed_reader \<Rightarrow> bool" where
  "lp_wf r \<longleftrightarrow> length (lp_prefix r) = 4 \<and> lp_prefix_read r \<le> 4
     \<and> lp_payload_read r \<le> length (lp_payload r) \<and> length (lp_payload r) \<le> lp_limit r
     \<and> (lp_payload r \<noteq> [] \<longrightarrow> lp_prefix_read r = 4
          \<and> length (lp_payload r) = unat (from_be_bytes (lp_prefix r) :: u32))"

lemma fill_pos: "fill buf pos ins = (out, buf', pos', ins') \<Longrightarrow> pos \<le> length buf \<Longrightarrow> pos' \<le> length buf'"
  by (induction buf pos ins rule: fill_step_induct) (auto simp: fill_steps)

lemma read_body_wf:
  assumes "read_body r ins = (out, r', ins')" "lp_wf r" "lp_prefix_read r = 4"
  shows "lp_wf r' \<and> lp_limit r' = lp_limit r
     \<and> (\<forall>p. out = Ready (Ok p) \<longrightarrow> p = lp_payload r' \<and> p \<noteq> [])"
proof -
  let ?len = "unat (from_be_bytes (lp_prefix r) :: u32)"
  let ?p0 = "if lp_payload r = [] then replicate ?len 0 else lp_payload r"
  show ?thesis
  proof (cases "lp_payload r = [] \<and> (?len = 0 \<or> lp_limit r < ?len)")
    case True
    with assms show ?thesis by (auto simp: read_body_def Let_def)
  next
    case False
    obtain out1 buf pos ins1 where f: "fill ?p0 (lp_payload_read r) ins = (out1, buf, pos, ins1)"
      by (metis prod_cases4)
    have "lp_payload_read r \<le> length ?p0" "length ?p0 \<le> lp_limit r" "length ?p0 = ?len" "?p0 \<noteq> []"
      using False assms(2) by (auto simp: lp_wf_def)
    moreover from this have "length buf = length ?p0" "pos \<le> length buf" "buf \<noteq> []"
      using f length_fill [OF f] fill_pos [OF f] by auto
    ultimately show ?thesis
      using assms f False unfolding read_body_def Let_def lp_wf_def
      by (auto split: poll.splits result.splits if_splits)
  qed
qed

lemma read_payload_wf:
  assumes "read_payload r ins = (out, r', ins')" "lp_wf r"
  shows "lp_wf r' \<and> lp_limit r' = lp_limit r
     \<and> (\<forall>p. out = Ready (Ok p) \<longrightarrow> p = lp_payload r' \<and> p \<noteq> [])"
proof -
  obtain out1 prefix pos ins1 where f: "fill (lp_prefix r) (lp_prefix_read r) ins = (out1, prefix, pos, ins1)"
    by (metis prod_cases4)
  let ?r = "r\<lparr>lp_prefix := prefix, lp_prefix_read := pos\<rparr>"
  have l: "length prefix = 4" "pos \<le> 4"
    using length_fill [OF f] fill_pos [OF f] assms(2) by (auto simp: lp_wf_def)
  have kept: "prefix = lp_prefix r \<and> pos = lp_prefix_read r" if "lp_payload r \<noteq> []"
    using that f assms(2) by (simp add: lp_wf_def fill_done)
  have wf: "lp_wf ?r"
    using l kept assms(2) by (auto simp: lp_wf_def)
  show ?thesis
  proof (cases "\<exists>u. out1 = Ready (Ok u)")
    case True
    then have "pos = 4" using f l fill_complete by fastforce
    with True f assms(1) read_body_wf [OF _ wf] show ?thesis
      by (auto simp: read_payload_def)
  next
    case False
    with f wf assms(1) show ?thesis
      by (auto simp: read_payload_def Let_def split: poll.splits result.splits)
  qed
qed

lemma lp_wf_finish: "lp_wf r \<Longrightarrow> lp_wf (finish_frame r)"
  by (simp add: lp_wf_def finish_frame_def)

lemma lp_wf_new: "lp_wf (lp_new limit)"
  by (simp add: lp_wf_def lp_new_def)

section \<open>Properties\<close>

text \<open>A read that is cancelled and started again: the reader is polled with one batch of input
  after the other, and the first batch that completes a frame leaves the rest unread.\<close>

fun poll_batches :: "('r \<Rightarrow> read_event list \<Rightarrow> 'a poll \<times> 'r \<times> read_event list) \<Rightarrow> 'r
    \<Rightarrow> read_event list list \<Rightarrow> 'a poll \<times> 'r \<times> read_event list" where
  "poll_batches rd r [] = (Pending, r, [])"
| "poll_batches rd r [b] = rd r b"
| "poll_batches rd r (b # b' # bs) =
     (case rd r b of
        (Pending, r', ins') \<Rightarrow> poll_batches rd r' (b' # bs)
      | (Ready x, r', ins') \<Rightarrow> (Ready x, r', ins' @ concat (b' # bs)))"

lemma read_payload_ready_extend:
  assumes "read_payload r xs = (Ready x, r', ins')"
  shows "read_payload r (xs @ ys) = (Ready x, r', ins' @ ys)"
proof -
  have body: "read_body r1 zs = (Ready x, r', ins') \<Longrightarrow> read_body r1 (zs @ ys) = (Ready x, r', ins' @ ys)"
    for r1 zs
    by (auto simp: read_body_def Let_def fill_ready_extend
        split: if_splits prod.splits poll.splits result.splits)
  show ?thesis
    using assms by (auto simp: read_payload_def Let_def fill_ready_extend body
        split: prod.splits poll.splits result.splits)
qed

lemma read_frame_ready_extend:
  "read_frame decode r xs = (Ready x, r', ins') \<Longrightarrow>
     read_frame decode r (xs @ ys) = (Ready x, r', ins' @ ys)"
  by (auto simp: read_frame_def read_payload_ready_extend
      split: prod.splits poll.splits result.splits)

lemma poll_batches_read_frame:
  "poll_batches (read_frame decode) r (b # bs) = read_frame decode r (concat (b # bs))"
proof (induction bs arbitrary: r b)
  case (Cons b' bs)
  obtain out r1 ins1 where f: "read_frame decode r b = (out, r1, ins1)"
    by (metis prod_cases3)
  show ?case
  proof (cases out)
    case (Ready x)
    with f show ?thesis
      using read_frame_ready_extend [of decode r b x r1 ins1 "concat (b' # bs)"] by simp
  next
    case Pending
    with f Cons show ?thesis
      using read_frame_resume [of decode r b r1 ins1 "concat (b' # bs)"] by simp
  qed
qed simp

text \<open>The smallest serializer with the law the code relies on: it knows \<open>Ping\<close> frames.\<close>

definition ping_json :: "data_frame json" where
  "ping_json = \<lparr>to_vec = (\<lambda>x. case x of Ping n \<Rightarrow> Some (to_be_bytes n) | _ \<Rightarrow> None),
     from_slice = (\<lambda>b. if length b = 8 then Some (Ping (from_be_bytes b)) else None)\<rparr>"

lemma ping_json_ok: "json_ok ping_json"
  by (auto simp: json_ok_def ping_json_def from_to_be_bytes split: data_frame.splits)

lemmas [eval_simps] = fill_steps overwrite_def push_front_def lp_new_def read_body_def
  read_payload_def finish_frame_def frame_bytes_def write_payload_def with_timeout_def
  write_frame_inner_def encode_binary_payload_def encode_data_frame_def json_encode_def
  MAX_DATA_PAYLOAD_def ping_json_def

text \<open>C35: a sequence of business-data frames written with a negotiated codec is read back
  exactly, in order, whatever the chunks in which the transport delivers the bytes, and the
  reader is then in its initial state with the bytes that follow still unread.\<close>

theorem data_stream_roundtrip:
  assumes "json_ok J"
    and "write_frames (encode_data_frame J codec) limit w fs = Ok (w @ b)"
    and "chunks ins" and "flat ins = b @ rest"
  shows "\<exists>ins'. read_frames (\<lambda>p. decode_data_frame J p codec) (length fs) (lp_new limit) ins
      = (map (Ready \<circ> Ok) fs, lp_new limit, ins') \<and> chunks ins' \<and> flat ins' = rest"
  using data_frames.read_written [of "(J, codec)" limit w fs b ins rest] assms by simp

theorem data_stream_roundtrip_witness:
  "\<exists>ins'. read_frames (\<lambda>p. decode_data_frame ping_json p BinaryV1) 2 (lp_new 64)
       [Bytes [0, 0], Bytes [0, 27, 1, 0, 0, 0, 0, 0, 0, 0, 0, 0, 0, 0, 0, 0, 0, 0, 5], Bytes
         [0, 0, 0, 0, 0, 0, 0, 3, 8, 9, 0, 0, 0, 9, 0, 0, 0, 0, 0, 0, 0, 0, 7], Bytes [42]]
     = (map (Ready \<circ> Ok) [Data 5 3 [8, 9], Ping 7], lp_new 64, ins')
       \<and> chunks ins' \<and> flat ins' = [42]"
proof -
  let ?b = "[0, 0, 0, 27, 1, 0, 0, 0, 0, 0, 0, 0, 0, 0, 0, 0, 0, 0, 0, 0, 5,
    0, 0, 0, 0, 0, 0, 0, 3, 8, 9, 0, 0, 0, 9, 0, 0, 0, 0, 0, 0, 0, 0, 7] :: bytes"
  have "write_frames (encode_data_frame ping_json BinaryV1) 64 [] [Data 5 3 [8, 9], Ping 7] = Ok ([] @ ?b)"
    by (simp add: eval_simps)
  from data_stream_roundtrip [OF ping_json_ok this, of _ "[42]"] show ?thesis
    by (simp add: numeral_2_eq_2)
qed

text \<open>C38: a \<open>read\<close> future that is dropped and started again loses nothing: polling the reader
  with the input in any number of batches gives the same frame, reader and unread input as one
  uninterrupted read.\<close>

theorem data_read_cancellation_safe:
  "poll_batches (data_read J codec) r (b # bs) = data_read J codec r (concat (b # bs))"
  unfolding data_read_def by (rule poll_batches_read_frame)

text \<open>Whatever arrives, the reader's cursors stay within its buffers, its payload buffer is
  never longer than the limit, and a payload it returns has a length between one and the
  limit.\<close>

theorem read_payload_bounded:
  assumes "lp_wf r" and "read_payload r ins = (out, r', ins')"
  shows "lp_wf r' \<and> lp_wf (finish_frame r') \<and> length (lp_payload r') \<le> lp_limit r
     \<and> (\<forall>p. out = Ready (Ok p) \<longrightarrow> 1 \<le> length p \<and> length p \<le> lp_limit r)"
proof -
  note wf = read_payload_wf [OF assms(2, 1)]
  then have "length (lp_payload r') \<le> lp_limit r"
    unfolding lp_wf_def by simp
  with wf lp_wf_finish [of r'] show ?thesis
    by (auto simp: Suc_le_eq)
qed

theorem read_payload_bounded_witness:
  "\<exists>r' ins'. read_payload (lp_new 8) [Bytes [0, 0, 0, 2], Bytes [7, 9]] = (Ready (Ok [7, 9]), r', ins')
     \<and> lp_wf r' \<and> length (lp_payload r') \<le> 8"
proof -
  have "flat [Bytes [0, 0, 0, 2], Bytes [7, 9]] = frame_bytes [7, 9] @ []"
    by (simp add: eval_simps)
  then obtain r' ins'
    where f: "read_payload (lp_new 8) [Bytes [0, 0, 0, 2], Bytes [7, 9]] = (Ready (Ok [7, 9]), r', ins')"
    using read_payload_frame [of "[Bytes [0, 0, 0, 2], Bytes [7, 9]]" "[7, 9]" "[]" 8] by auto
  with read_payload_bounded [OF lp_wf_new f] show ?thesis by (simp add: lp_new_def)
qed

end
