(* ===== verification/Trust_Base.thy ===== *)
theory Trust_Base
  imports Frame
begin

text \<open>
  What the signed objects of FlowSplice have in common: the cryptographic libraries the code
  calls (\<open>hex\<close>, \<open>aws_lc_rs\<close>, the PEM parser of \<open>rustls_pki_types\<close>) as a record of functions
  with their documented laws, the identity a TLS handshake yields and the SPKI pin checks of
  \<open>internal/flowsplice-core/src/tls.rs\<close>, the decoding of P-256 keys, and the bounded ASCII
  tokens of \<open>business.rs\<close>.
\<close>

section \<open>Cryptographic libraries\<close>

text \<open>A signing key is opaque bytes; \<open>ecdsa_sign\<close> takes the bytes it draws from
  \<open>SystemRandom\<close> as its second argument and may fail. \<open>pem_certificates\<close> is the number of
  certificates of a PEM text, \<open>None\<close> when it does not parse.\<close>

record crypto =
  hex_decode :: "string \<Rightarrow> bytes option"
  hex_encode :: "bytes \<Rightarrow> string"
  ecdsa_public :: "bytes \<Rightarrow> bytes"
  ecdsa_sign :: "bytes \<Rightarrow> bytes \<Rightarrow> bytes \<Rightarrow> bytes option"
  ecdsa_verify :: "bytes \<Rightarrow> bytes \<Rightarrow> bytes \<Rightarrow> bool"
  sha256_digest :: "bytes \<Rightarrow> bytes"
  pem_certificates :: "string \<Rightarrow> nat option"

definition hex_ok :: "crypto \<Rightarrow> bool" where
  "hex_ok C \<longleftrightarrow> (\<forall>b. hex_decode C (hex_encode C b) = Some b \<and> length (hex_encode C b) = 2 * length b)"

text \<open>\<open>hex::decode\<close> reads digits of either case.\<close>

definition hex_case_ok :: "crypto \<Rightarrow> bool" where
  "hex_case_ok C \<longleftrightarrow> (\<forall>s t. eq_ignore_ascii_case s t \<longrightarrow> hex_decode C s = hex_decode C t)"

definition ecdsa_ok :: "crypto \<Rightarrow> bool" where
  "ecdsa_ok C \<longleftrightarrow> (\<forall>k r m s. ecdsa_sign C k r m = Some s \<longrightarrow>
     ecdsa_verify C (ecdsa_public C k) m s \<and> length s \<le> 72)"

section \<open>Identities, pins, keys\<close>

record peer_identity =
  pi_role :: role
  pi_id :: string
  pi_certificate_sha256 :: string
  pi_spki_sha256 :: string
  pi_signing_public_key :: bytes
  pi_not_before_unix_secs :: u64
  pi_not_after_unix_secs :: u64

definition identity_active_at :: "peer_identity \<Rightarrow> u64 \<Rightarrow> bool" where
  "identity_active_at i now \<longleftrightarrow> pi_not_before_unix_secs i \<le> now \<and> now < pi_not_after_unix_secs i"

definition validate_spki_pin :: "crypto \<Rightarrow> string \<Rightarrow> unit res" where
  "validate_spki_pin C pin =
     rbind (ok_or (hex_decode C pin) (Auth BadSpkiPin)) (\<lambda>decoded.
     bail_if (length decoded \<noteq> 32) (Auth BadSpkiPin))"

definition validate_spki_pins :: "crypto \<Rightarrow> string list \<Rightarrow> unit res" where
  "validate_spki_pins C pins =
     rbind (bail_if (pins = []) (Auth BadSpkiPin)) (\<lambda>_.
     for_each (validate_spki_pin C) pins)"

text \<open>\<open>decode_authority_public_key\<close> of \<open>authorization.rs\<close> and \<open>decode_p256_public_key\<close> of
  \<open>deployment.rs\<close>, the same check of an uncompressed SEC1 point.\<close>

definition decode_p256_public_key :: "crypto \<Rightarrow> string \<Rightarrow> bytes res" where
  "decode_p256_public_key C value =
     rbind (ok_or (hex_decode C value) (Auth NotHexadecimal)) (\<lambda>key.
     if length key \<noteq> 65 \<or> hd key \<noteq> 4 then Err (Auth NotP256Point) else Ok key)"

definition decode_authority_public_key :: "crypto \<Rightarrow> string \<Rightarrow> bytes res" where
  "decode_authority_public_key C value =
     rbind (ok_or (hex_decode C value) (Auth NotHexadecimal)) (\<lambda>key.
     if length key \<noteq> 65 \<or> hd key \<noteq> 4 then Err (Auth NotP256Point) else Ok key)"

section \<open>Tokens\<close>

definition token_char :: "char \<Rightarrow> bool" where
  "token_char c \<longleftrightarrow> is_ascii_alphanumeric c \<or> c \<in> set ''._-:/''"

definition validate_token :: "string \<Rightarrow> nat \<Rightarrow> unit res" where
  "validate_token value limit =
     bail_if (value = [] \<or> limit < length value \<or> \<not> list_all token_char value)
       (Business BadToken)"

definition validate_application_protocol :: "string \<Rightarrow> unit res" where
  "validate_application_protocol value = validate_token value 128"

section \<open>Facts shared by the signed objects\<close>

lemma hex_roundtrip [simp]: "hex_ok C \<Longrightarrow> hex_decode C (hex_encode C b) = Some b"
  by (simp add: hex_ok_def)

lemma length_hex_encode [simp]: "hex_ok C \<Longrightarrow> length (hex_encode C b) = 2 * length b"
  by (simp add: hex_ok_def)

lemma ecdsa_verifies:
  "ecdsa_ok C \<Longrightarrow> ecdsa_sign C k r m = Some s \<Longrightarrow> ecdsa_verify C (ecdsa_public C k) m s"
  by (simp add: ecdsa_ok_def)

lemma ecdsa_sign_length: "ecdsa_ok C \<Longrightarrow> ecdsa_sign C k r m = Some s \<Longrightarrow> length s \<le> 72"
  by (simp add: ecdsa_ok_def)

lemma validate_spki_pin_Ok [simp]:
  "validate_spki_pin C pin = Ok u \<longleftrightarrow> (\<exists>b. hex_decode C pin = Some b \<and> length b = 32)"
  by (auto simp: validate_spki_pin_def)

lemma validate_token_Ok [simp]:
  "validate_token v n = Ok u \<longleftrightarrow> v \<noteq> [] \<and> length v \<le> n \<and> list_all token_char v"
  by (auto simp: validate_token_def)

lemma decode_p256_Ok:
  "decode_p256_public_key C v = Ok k \<longleftrightarrow> hex_decode C v = Some k \<and> length k = 65 \<and> hd k = 4"
  by (auto simp: decode_p256_public_key_def split: if_splits)

lemma decode_authority_Ok:
  "decode_authority_public_key C v = Ok k \<longleftrightarrow> hex_decode C v = Some k \<and> length k = 65 \<and> hd k = 4"
  by (auto simp: decode_authority_public_key_def split: if_splits)

section \<open>A concrete library\<close>

text \<open>Witnesses instantiate the library with real hexadecimal text and a signature scheme that
  is correct though not secure.\<close>

definition hex_digit :: "nat \<Rightarrow> char" where
  "hex_digit n = char_of (if n < 10 then 48 + n else 87 + n)"

definition digit_val :: "char \<Rightarrow> nat option" where
  "digit_val c = (let n = (of_char c :: nat) in
     if 48 \<le> n \<and> n \<le> 57 then Some (n - 48)
     else if 97 \<le> n \<and> n \<le> 102 then Some (n - 87)
     else if 65 \<le> n \<and> n \<le> 70 then Some (n - 55) else None)"

fun unhex :: "string \<Rightarrow> bytes option" where
  "unhex [] = Some []"
| "unhex [c] = None"
| "unhex (c # d # s) = (case (digit_val c, digit_val d, unhex s) of
     (Some h, Some l, Some bs) \<Rightarrow> Some (word_of_nat (16 * h + l) # bs) | _ \<Rightarrow> None)"

definition tohex :: "bytes \<Rightarrow> string" where
  "tohex bs = concat (map (\<lambda>b. [hex_digit (unat b div 16), hex_digit (unat b mod 16)]) bs)"

definition sample_crypto :: crypto where
  "sample_crypto = \<lparr>hex_decode = unhex, hex_encode = tohex,
     ecdsa_public = (\<lambda>k. 4 # replicate 64 (sum_list k)),
     ecdsa_sign = (\<lambda>k r m. Some [sum_list k + sum_list m]),
     ecdsa_verify = (\<lambda>p m s. s = [last p + sum_list m]),
     sha256_digest = (\<lambda>m. replicate 31 0 @ [sum_list m]),
     pem_certificates = (\<lambda>p. Some (length p))\<rparr>"

lemma digit_val_hex_digit: "n < 16 \<Longrightarrow> digit_val (hex_digit n) = Some n"
proof -
  assume "n < 16"
  then have "n \<in> set [0..<16]" by simp
  moreover have "\<forall>n \<in> set [0..<16]. digit_val (hex_digit n) = Some n"
    by (simp add: digit_val_def hex_digit_def upt_rec)
  ultimately show ?thesis by blast
qed

lemma unhex_tohex: "unhex (tohex bs) = Some bs"
proof (induction bs)
  case Nil
  then show ?case by (simp add: tohex_def)
next
  case (Cons b bs)
  have "unat b < 256"
    using unat_lt2p [of b] by simp
  then have "digit_val (hex_digit (unat b div 16)) = Some (unat b div 16)"
    "digit_val (hex_digit (unat b mod 16)) = Some (unat b mod 16)"
    by (simp_all add: digit_val_hex_digit)
  with Cons show ?case
    by (simp add: tohex_def)
qed

lemma length_tohex: "length (tohex bs) = 2 * length bs"
  by (induction bs) (simp_all add: tohex_def)

lemma sample_hex_ok: "hex_ok sample_crypto"
  by (simp add: hex_ok_def sample_crypto_def unhex_tohex length_tohex)

lemma digit_val_lower: "digit_val (ascii_lower c) = digit_val c"
proof -
  have n: "(of_char c :: nat) < 256" by simp
  show ?thesis
  proof (cases "65 \<le> (of_char c :: nat) \<and> (of_char c :: nat) \<le> 90")
    case True
    then have "(of_char (ascii_lower c) :: nat) = of_char c + 32"
      by (simp add: ascii_lower_def)
    with True show ?thesis
      by (auto simp: digit_val_def Let_def)
  qed (auto simp: ascii_lower_def Let_def)
qed

lemma unhex_lower: "unhex (to_ascii_lowercase s) = unhex s"
  by (induction s rule: unhex.induct) (simp_all add: to_ascii_lowercase_def digit_val_lower)

lemma sample_hex_case_ok: "hex_case_ok sample_crypto"
  unfolding hex_case_ok_def eq_ignore_ascii_case_def
  by (auto simp: sample_crypto_def) (metis unhex_lower)

lemma sample_ecdsa_ok: "ecdsa_ok sample_crypto"
  by (simp add: ecdsa_ok_def sample_crypto_def)

lemmas [eval_simps] = identity_active_at_def validate_spki_pin_def validate_spki_pins_def
  decode_p256_public_key_def decode_authority_public_key_def token_char_def validate_token_def
  validate_application_protocol_def digit_val_def is_ascii_alphanumeric_def is_ascii_digit_def

definition sample_pin :: "char \<Rightarrow> string" where
  "sample_pin c = replicate 64 c"

definition sample_key :: "byte \<Rightarrow> string" where
  "sample_key k = tohex (ecdsa_public sample_crypto [k])"

text \<open>A codec for a type of which the witness uses one value.\<close>

definition one_json :: "'a \<Rightarrow> 'a json" where
  "one_json v = \<lparr>to_vec = (\<lambda>x. if x = v then Some [7] else None),
     from_slice = (\<lambda>b. if b = [7] then Some v else None)\<rparr>"

lemma one_json_ok: "json_ok (one_json v)"
  by (simp add: json_ok_def one_json_def)

lemma one_json_simps [simp]:
  "to_vec (one_json v) v = Some [7]" "from_slice (one_json v) [7] = Some v"
  by (simp_all add: one_json_def)

lemma unhex_replicate:
  "digit_val c = Some h \<Longrightarrow> unhex (replicate (2 * n) c) = Some (replicate n (word_of_nat (17 * h)))"
  by (induction n) simp_all

lemma sample_hex_simps [simp]:
  "hex_decode sample_crypto = unhex" "hex_encode sample_crypto = tohex"
  "ecdsa_public sample_crypto k = 4 # replicate 64 (sum_list k)"
  "ecdsa_sign sample_crypto k r m = Some [sum_list k + sum_list m]"
  "ecdsa_verify sample_crypto p m s = (s = [last p + sum_list m])"
  "sha256_digest sample_crypto m = replicate 31 0 @ [sum_list m]"
  "pem_certificates sample_crypto pem = Some (length pem)"
  by (simp_all add: sample_crypto_def)

lemma unhex_sample_pin [simp]:
  "digit_val c = Some h \<Longrightarrow> unhex (sample_pin c) = Some (replicate 32 (word_of_nat (17 * h)))"
  using unhex_replicate [of c h 32] by (simp add: sample_pin_def)

lemma sample_pin_valid [simp]: "digit_val c = Some h \<Longrightarrow> validate_spki_pin sample_crypto (sample_pin c) = Ok ()"
  by simp

lemma unhex_sample_key [simp]: "unhex (sample_key k) = Some (4 # replicate 64 k)"
  by (simp add: sample_key_def unhex_tohex)

lemma sample_key_decodes [simp]:
  "decode_p256_public_key sample_crypto (sample_key k) = Ok (4 # replicate 64 k)"
  "decode_authority_public_key sample_crypto (sample_key k) = Ok (4 # replicate 64 k)"
  by (simp_all add: decode_p256_Ok decode_authority_Ok)

lemma length_sample_key [simp]: "length (sample_key k) = 130"
  by (simp add: sample_key_def length_tohex)

end
