(* ===== verification/High_Water.thy ===== *)
theory High_Water
  imports Prelude "HOL-Library.Product_Lexorder"
begin

text \<open>
  The rollback protection that several parts of FlowSplice share: a party keeps the highest
  generation it has accepted with a digest of its content, refuses an older one, refuses a
  different content under the same generation, and never forgets what it has recorded. The
  locale states the laws of one \<open>accept\<close> operation and derives what they mean for any sequence
  of offers, accepted or refused.
\<close>

locale high_water =
  fixes accept :: "'s \<Rightarrow> 'm \<Rightarrow> ('s, 'e) result"
    and mark :: "'s \<Rightarrow> 'g::linorder"
    and content :: "'s \<Rightarrow> 'd"
    and bound :: "'g \<Rightarrow> 'd \<Rightarrow> bool"
    and recorded :: "'s \<Rightarrow> 'k set"
  assumes accept_mark: "accept s m = Ok s' \<Longrightarrow> mark s \<le> mark s'"
    and accept_content: "accept s m = Ok s' \<Longrightarrow> mark s' = mark s \<Longrightarrow> bound (mark s) (content s)
           \<Longrightarrow> content s' = content s"
    and accept_recorded: "accept s m = Ok s' \<Longrightarrow> recorded s \<subseteq> recorded s'"
begin

text \<open>A refused offer leaves the state as it was.\<close>

fun offer_all :: "'s \<Rightarrow> 'm list \<Rightarrow> 's" where
  "offer_all s [] = s"
| "offer_all s (m # ms) = (case accept s m of Ok s' \<Rightarrow> offer_all s' ms | Err e \<Rightarrow> offer_all s ms)"

lemma offer_all_mark: "mark s \<le> mark (offer_all s ms)"
proof (induction ms arbitrary: s)
  case (Cons m ms)
  then show ?case
    by (cases "accept s m") (auto dest: accept_mark intro: order_trans)
qed simp

lemma offer_all_recorded: "recorded s \<subseteq> recorded (offer_all s ms)"
proof (induction ms arbitrary: s)
  case (Cons m ms)
  then show ?case
    by (cases "accept s m") (auto dest: accept_recorded)
qed simp

lemma offer_all_content:
  "mark (offer_all s ms) = mark s \<Longrightarrow> bound (mark s) (content s)
     \<Longrightarrow> content (offer_all s ms) = content s"
proof (induction ms arbitrary: s)
  case (Cons m ms)
  show ?case
  proof (cases "accept s m")
    case (Ok s')
    with Cons.prems have "mark s' = mark s"
      using accept_mark [OF Ok] offer_all_mark [of s' ms] by simp
    moreover have "content s' = content s"
      using accept_content [OF Ok] calculation Cons.prems by simp
    ultimately show ?thesis
      using Cons Ok by simp
  next
    case (Err e)
    with Cons show ?thesis by simp
  qed
qed simp

lemma offer_all_append: "offer_all s (ms @ ns) = offer_all (offer_all s ms) ns"
  by (induction ms arbitrary: s) (auto split: result.splits)

end

text \<open>A machine whose every step keeps an invariant and moves along a preorder: nothing it does, in any
  order, takes it back.\<close>

locale ratchet =
  fixes step :: "'op \<Rightarrow> 's \<Rightarrow> 's"
    and inv :: "'s \<Rightarrow> bool"
    and le :: "'s \<Rightarrow> 's \<Rightarrow> bool"
  assumes le_refl: "le s s"
    and le_trans: "le a b \<Longrightarrow> le b c \<Longrightarrow> le a c"
    and step_inv: "inv s \<Longrightarrow> inv (step op s)"
    and step_le: "inv s \<Longrightarrow> le s (step op s)"
begin

lemma run_inv: "inv s \<Longrightarrow> inv (fold step ops s)"
  by (induction ops arbitrary: s) (auto intro: step_inv)

lemma run_le: "inv s \<Longrightarrow> le s (fold step ops s)"
proof (induction ops arbitrary: s)
  case (Cons op ops)
  show ?case
    using le_trans [OF step_le [OF Cons.prems, of op] Cons.IH [OF step_inv [OF Cons.prems]]] by simp
qed (simp add: le_refl)

end

end
