(* ===== verification/Authorization.thy ===== *)
theory Authorization
  imports Trust_Base High_Water
begin

text \<open>
  Travel authorization (\<open>internal/flowsplice-core/src/authorization.rs\<close>): signed credentials and
  their authorities, the verification of an authorization snapshot into lookup indexes, the
  decisions taken on those indexes, and the cache that refuses rollback and forgotten
  revocations.
\<close>

section \<open>Authorities and scopes\<close>

definition TRAVEL_CREDENTIAL_VERSION :: u32 where "TRAVEL_CREDENTIAL_VERSION = 1"

definition TRAVEL_CREDENTIAL_OBJECT_TYPE :: string where
  "TRAVEL_CREDENTIAL_OBJECT_TYPE = ''flowsplice.travel_credential''"

fun authority_fields :: "trusted_travel_authority \<Rightarrow> authority_data" where
  "authority_fields (AuthorityGlobal d) = d"
| "authority_fields (AuthorityHome d) = d"

definition authority_id :: "trusted_travel_authority \<Rightarrow> string" where
  "authority_id a = ta_id_field (authority_fields a)"

definition authority_public_key :: "trusted_travel_authority \<Rightarrow> string" where
  "authority_public_key a = ta_public_key_field (authority_fields a)"

definition authority_epoch :: "trusted_travel_authority \<Rightarrow> u64" where
  "authority_epoch a = ta_epoch_field (authority_fields a)"

definition authority_home_id :: "trusted_travel_authority \<Rightarrow> string option" where
  "authority_home_id a = Some (ta_home_id_field (authority_fields a))"

fun scope_home_id :: "travel_credential_scope \<Rightarrow> string option" where
  "scope_home_id ScopeGlobal = None"
| "scope_home_id (ScopeServiceClass p t) = None"
| "scope_home_id (ScopeHome h) = Some h"
| "scope_home_id (ScopeService h s t) = Some h"

fun scope_validate :: "travel_credential_scope \<Rightarrow> unit res" where
  "scope_validate ScopeGlobal = Ok ()"
| "scope_validate (ScopeServiceClass p t) = validate_application_protocol p"
| "scope_validate (ScopeHome h) = bail_if (h = []) (Auth ScopeInvalid)"
| "scope_validate (ScopeService h s t) = bail_if (h = [] \<or> s = []) (Auth ScopeInvalid)"

fun scope_allows_home :: "travel_credential_scope \<Rightarrow> string \<Rightarrow> bool" where
  "scope_allows_home ScopeGlobal home = True"
| "scope_allows_home (ScopeServiceClass p t) home = True"
| "scope_allows_home (ScopeHome h) home = (h = home)"
| "scope_allows_home (ScopeService h s t) home = (h = home)"

fun scope_allows_service :: "travel_credential_scope \<Rightarrow> string \<Rightarrow> string \<Rightarrow> service_protocol \<Rightarrow> bool" where
  "scope_allows_service ScopeGlobal home sid proto = True"
| "scope_allows_service (ScopeServiceClass p t) home sid proto = False"
| "scope_allows_service (ScopeHome h) home sid proto = (h = home)"
| "scope_allows_service (ScopeService h s t) home sid proto = (h = home \<and> s = sid \<and> t = proto)"

record business_service =
  bs_service_id :: string
  bs_protocol :: service_protocol
  bs_application_protocol :: string
  bs_capabilities :: "string list"

definition scope_allows_business_service :: "travel_credential_scope \<Rightarrow> string \<Rightarrow> string
    \<Rightarrow> service_protocol \<Rightarrow> business_service option \<Rightarrow> bool" where
  "scope_allows_business_service scope home sid proto business =
     (case scope of
        ScopeServiceClass app allowed \<Rightarrow>
          (case business of None \<Rightarrow> False
           | Some b \<Rightarrow> bs_service_id b = sid \<and> bs_protocol b = proto \<and> proto = allowed
               \<and> bs_application_protocol b = app)
      | _ \<Rightarrow> scope_allows_service scope home sid proto)"

definition authority_validate :: "crypto \<Rightarrow> trusted_travel_authority \<Rightarrow> unit res" where
  "authority_validate C a =
     rbind (bail_if (authority_id a = [] \<or> authority_epoch a = 0) (Auth AuthorityInvalid)) (\<lambda>_.
     rbind (bail_if (authority_home_id a = Some []) (Auth AuthorityInvalid)) (\<lambda>_.
     rbind (decode_authority_public_key C (authority_public_key a)) (\<lambda>_. Ok ())))"

fun authority_validate_scope :: "trusted_travel_authority \<Rightarrow> travel_credential_scope \<Rightarrow> unit res" where
  "authority_validate_scope (AuthorityGlobal d) scope = Ok ()"
| "authority_validate_scope (AuthorityHome d) scope =
     bail_if (scope_home_id scope \<noteq> Some (ta_home_id_field d)) (Auth ScopeOutsideHome)"

definition validate_trusted_authorities :: "crypto \<Rightarrow> trusted_travel_authority list \<Rightarrow> unit res" where
  "validate_trusted_authorities C auths =
     rbind (bail_if (auths = []) (Auth NoAuthorities)) (\<lambda>_.
     for_each_unique (authority_validate C) authority_id (\<lambda>_. Auth DuplicateAuthority) {} auths)"

section \<open>Credentials\<close>

definition credential_validate :: "crypto \<Rightarrow> travel_credential \<Rightarrow> unit res" where
  "credential_validate C c =
     rbind (bail_if (tc_version c \<noteq> TRAVEL_CREDENTIAL_VERSION
         \<or> tc_object_type c \<noteq> TRAVEL_CREDENTIAL_OBJECT_TYPE
         \<or> tc_deployment_id c = [] \<or> tc_credential_id c = uuid_nil \<or> tc_authority_id c = []
         \<or> tc_authority_epoch c = 0 \<or> tc_enrollment_request_id c = uuid_nil
         \<or> tc_travel_id c = []) (Auth CredentialInvalid)) (\<lambda>_.
     rbind (scope_validate (tc_scope c)) (\<lambda>_.
     rbind (validate_spki_pin C (tc_management_spki_sha256 c)) (\<lambda>_.
     rbind (validate_spki_pin C (tc_business_spki_sha256 c)) (\<lambda>_.
     rbind (for_each (validate_spki_pin C)
         [tc_deployment_trust_sha256 c, tc_enrollment_nonce c, tc_enrollment_request_sha256 c,
          tc_management_ca_sha256 c, tc_business_ca_sha256 c,
          tc_management_certificate_sha256 c, tc_business_certificate_sha256 c]) (\<lambda>_.
     bail_if (tc_not_after_unix_secs c \<le> tc_not_before_unix_secs c) (Auth ValidityEmpty))))))"

definition credential_active_at :: "travel_credential \<Rightarrow> u64 \<Rightarrow> bool" where
  "credential_active_at c now \<longleftrightarrow> tc_not_before_unix_secs c \<le> now \<and> now < tc_not_after_unix_secs c"

definition allows_home :: "travel_credential \<Rightarrow> string \<Rightarrow> bool" where
  "allows_home c home = scope_allows_home (tc_scope c) home"

definition allows_service :: "travel_credential \<Rightarrow> string \<Rightarrow> string \<Rightarrow> service_protocol \<Rightarrow> bool" where
  "allows_service c home sid proto = scope_allows_service (tc_scope c) home sid proto"

definition allows_business_service :: "travel_credential \<Rightarrow> string \<Rightarrow> string \<Rightarrow> service_protocol
    \<Rightarrow> business_service option \<Rightarrow> bool" where
  "allows_business_service c home sid proto business =
     scope_allows_business_service (tc_scope c) home sid proto business"

definition verify_public_key :: "crypto \<Rightarrow> travel_credential json \<Rightarrow> signed_travel_credential
    \<Rightarrow> string \<Rightarrow> travel_credential res" where
  "verify_public_key C J s key_hex =
     rbind (decode_authority_public_key C key_hex) (\<lambda>key.
     rbind (ok_or (hex_decode C (stc_payload_hex s)) (Auth NotHexadecimal)) (\<lambda>payload.
     rbind (ok_or (hex_decode C (stc_signature_hex s)) (Auth NotHexadecimal)) (\<lambda>signature.
     rbind (bail_if (\<not> ecdsa_verify C key payload signature) (Auth BadSignature)) (\<lambda>_.
     rbind (ok_or (from_slice J payload) (Auth BadPayload)) (\<lambda>credential.
     rbind (credential_validate C credential) (\<lambda>_. Ok credential))))))"

definition credential_verify :: "crypto \<Rightarrow> travel_credential json \<Rightarrow> signed_travel_credential
    \<Rightarrow> trusted_travel_authority \<Rightarrow> travel_credential res" where
  "credential_verify C J s a =
     rbind (bail_if (stc_authority_id s \<noteq> authority_id a) (Auth AuthorityMismatch)) (\<lambda>_.
     rbind (verify_public_key C J s (authority_public_key a)) (\<lambda>c.
     rbind (bail_if (tc_authority_id c \<noteq> stc_authority_id s) (Auth PayloadAuthorityMismatch)) (\<lambda>_.
     rbind (bail_if (tc_authority_epoch c \<noteq> authority_epoch a) (Auth WrongAuthorityEpoch)) (\<lambda>_.
     rbind (authority_validate_scope a (tc_scope c)) (\<lambda>_. Ok c)))))"

section \<open>Verified snapshots\<close>

type_synonym spki_index = "string \<times> string \<rightharpoonup> uuid list"

record verified_authorization =
  va_generation :: u64
  va_snapshot_sha256 :: string
  va_credentials :: "uuid \<rightharpoonup> travel_credential"
  va_management_index :: spki_index
  va_business_index :: spki_index
  va_revoked_credentials :: "uuid set"

definition index_push :: "spki_index \<Rightarrow> string \<times> string \<Rightarrow> uuid \<Rightarrow> spki_index" where
  "index_push idx key i = idx(key \<mapsto> (case idx key of None \<Rightarrow> [] | Some ids \<Rightarrow> ids) @ [i])"

definition management_key :: "travel_credential \<Rightarrow> string \<times> string" where
  "management_key c = (tc_travel_id c, to_ascii_lowercase (tc_management_spki_sha256 c))"

definition business_key :: "travel_credential \<Rightarrow> string \<times> string" where
  "business_key c = (tc_travel_id c, to_ascii_lowercase (tc_business_spki_sha256 c))"

fun index_credentials :: "crypto \<Rightarrow> travel_credential json \<Rightarrow> (string \<rightharpoonup> trusted_travel_authority)
    \<Rightarrow> string \<Rightarrow> (uuid \<rightharpoonup> travel_credential) \<times> spki_index \<times> spki_index
    \<Rightarrow> signed_travel_credential list
    \<Rightarrow> ((uuid \<rightharpoonup> travel_credential) \<times> spki_index \<times> spki_index) res" where
  "index_credentials C J by_id deployment acc [] = Ok acc"
| "index_credentials C J by_id deployment (creds, midx, bidx) (s # ss) =
     rbind (ok_or (by_id (stc_authority_id s)) (Auth UnknownAuthority)) (\<lambda>a.
     rbind (credential_verify C J s a) (\<lambda>c.
     rbind (bail_if (tc_deployment_id c \<noteq> deployment) (Auth OtherDeployment)) (\<lambda>_.
     rbind (bail_if (creds (tc_credential_id c) \<noteq> None) (Auth DuplicateCredential)) (\<lambda>_.
     index_credentials C J by_id deployment
       (creds(tc_credential_id c \<mapsto> c),
        index_push midx (management_key c) (tc_credential_id c),
        index_push bidx (business_key c) (tc_credential_id c)) ss))))"

fun index_revocations :: "(uuid \<rightharpoonup> travel_credential) \<Rightarrow> uuid set \<Rightarrow> travel_revocation list
    \<Rightarrow> uuid set res" where
  "index_revocations creds seen [] = Ok seen"
| "index_revocations creds seen (r # rs) =
     rbind (bail_if (rv_revoked_at_unix_secs r = 0 \<or> rv_reason r = [] \<or> 256 < length (rv_reason r))
         (Auth RevocationInvalid)) (\<lambda>_.
     rbind (bail_if (creds (rv_credential_id r) = None) (Auth RevocationUnknown)) (\<lambda>_.
     rbind (bail_if (rv_credential_id r \<in> seen) (AuthUse RevocationDuplicate)) (\<lambda>_.
     index_revocations creds (insert (rv_credential_id r) seen) rs)))"

definition authorities_by_id :: "trusted_travel_authority list \<Rightarrow> string \<rightharpoonup> trusted_travel_authority" where
  "authorities_by_id auths = map_of (rev (map (\<lambda>a. (authority_id a, a)) auths))"

definition authorization_verify :: "crypto \<Rightarrow> travel_credential json
    \<Rightarrow> travel_authorization_snapshot json \<Rightarrow> travel_authorization_snapshot
    \<Rightarrow> trusted_travel_authority list \<Rightarrow> string \<Rightarrow> verified_authorization res" where
  "authorization_verify C J JS snapshot auths deployment =
     rbind (bail_if (deployment = []) (Auth DeploymentIdEmpty)) (\<lambda>_.
     rbind (bail_if (tas_generation snapshot = 0) (Auth GenerationZero)) (\<lambda>_.
     rbind (validate_trusted_authorities C auths) (\<lambda>_.
     rbind (index_credentials C J (authorities_by_id auths) deployment
              (Map.empty, Map.empty, Map.empty) (tas_credentials snapshot)) (\<lambda>(creds, midx, bidx).
     rbind (index_revocations creds {} (tas_revocations snapshot)) (\<lambda>revoked.
     rbind (ok_or (to_vec JS snapshot) (Auth EncodeFailed)) (\<lambda>bytes.
     Ok \<lparr>va_generation = tas_generation snapshot,
         va_snapshot_sha256 = hex_encode C (sha256_digest C bytes),
         va_credentials = creds, va_management_index = midx, va_business_index = bidx,
         va_revoked_credentials = revoked\<rparr>))))))"

section \<open>Decisions\<close>

definition is_active :: "verified_authorization \<Rightarrow> uuid \<Rightarrow> u64 \<Rightarrow> bool" where
  "is_active va i now = (case va_credentials va i of None \<Rightarrow> False
     | Some c \<Rightarrow> i \<notin> va_revoked_credentials va \<and> credential_active_at c now)"

definition authorize_all :: "verified_authorization \<Rightarrow> peer_identity \<Rightarrow> u64 \<Rightarrow> spki_index
    \<Rightarrow> travel_credential list res" where
  "authorize_all va identity now index =
     rbind (ok_or (index (pi_id identity, to_ascii_lowercase (pi_spki_sha256 identity)))
              (AuthUse NotCovered)) (\<lambda>ids.
     rbind (bail_if (\<not> identity_active_at identity now) (AuthUse CertificateInactive)) (\<lambda>_.
     rbind (map_result (\<lambda>i. ok_or (va_credentials va i) (AuthUse IndexInconsistent))
              (filter (\<lambda>i. is_active va i now) ids)) (\<lambda>active.
     rbind (bail_if (active = []) (AuthUse CredentialInactive)) (\<lambda>_. Ok active))))"

definition first_credential :: "travel_credential list \<Rightarrow> travel_credential res" where
  "first_credential cs = ok_or (case cs of [] \<Rightarrow> None | c # _ \<Rightarrow> Some c) (AuthUse NotCovered)"

definition authorize_management :: "verified_authorization \<Rightarrow> peer_identity \<Rightarrow> u64
    \<Rightarrow> travel_credential res" where
  "authorize_management va identity now =
     rbind (authorize_all va identity now (va_management_index va)) first_credential"

definition authorize_management_all :: "verified_authorization \<Rightarrow> peer_identity \<Rightarrow> u64
    \<Rightarrow> travel_credential list res" where
  "authorize_management_all va identity now = authorize_all va identity now (va_management_index va)"

definition authorize_management_for_home :: "verified_authorization \<Rightarrow> peer_identity \<Rightarrow> string
    \<Rightarrow> u64 \<Rightarrow> travel_credential res" where
  "authorize_management_for_home va identity home now =
     rbind (authorize_management_all va identity now) (\<lambda>cs.
     ok_or (max_by_key tc_not_after_unix_secs (filter (\<lambda>c. allows_home c home) cs))
       (AuthUse NotAuthorizedForHome))"

definition authorize_business :: "verified_authorization \<Rightarrow> peer_identity \<Rightarrow> u64
    \<Rightarrow> travel_credential res" where
  "authorize_business va identity now =
     rbind (authorize_all va identity now (va_business_index va)) first_credential"

definition authorize_business_credential :: "verified_authorization \<Rightarrow> peer_identity \<Rightarrow> uuid
    \<Rightarrow> u64 \<Rightarrow> travel_credential res" where
  "authorize_business_credential va identity i now =
     rbind (authorize_all va identity now (va_business_index va)) (\<lambda>cs.
     ok_or (List.find (\<lambda>c. tc_credential_id c = i) cs) (AuthUse WrongBusinessCertificate))"

section \<open>The cache of accepted snapshots\<close>

record authorization_cache =
  ac_generation :: u64
  ac_snapshot_sha256 :: string
  ac_revoked_credentials :: "uuid set"

definition cache_default :: authorization_cache where
  "cache_default = \<lparr>ac_generation = 0, ac_snapshot_sha256 = [], ac_revoked_credentials = {}\<rparr>"

definition cache_accept :: "authorization_cache \<Rightarrow> verified_authorization \<Rightarrow> authorization_cache res" where
  "cache_accept cache va =
     rbind (bail_if (va_generation va < ac_generation cache) (AuthUse GenerationRollback)) (\<lambda>_.
     rbind (bail_if (ac_generation cache \<noteq> 0 \<and> va_generation va = ac_generation cache
         \<and> ac_snapshot_sha256 cache \<noteq> [] \<and> va_snapshot_sha256 va \<noteq> ac_snapshot_sha256 cache)
         (AuthUse ContentChanged)) (\<lambda>_.
     rbind (bail_if (\<not> ac_revoked_credentials cache \<subseteq> va_revoked_credentials va)
         (AuthUse RevocationRemoved)) (\<lambda>_.
     Ok \<lparr>ac_generation = va_generation va, ac_snapshot_sha256 = va_snapshot_sha256 va,
         ac_revoked_credentials = va_revoked_credentials va\<rparr>)))"

section \<open>What verification establishes\<close>

lemmas credential_rules = credential_validate_def verify_public_key_def credential_verify_def

lemma credential_verifyD:
  assumes "credential_verify C J s a = Ok c"
  shows "stc_authority_id s = authority_id a" "tc_authority_id c = authority_id a"
    "tc_authority_epoch c = authority_epoch a" "credential_validate C c = Ok ()"
    "authority_validate_scope a (tc_scope c) = Ok ()"
  using assms by (auto simp: credential_verify_def verify_public_key_def)

lemma credential_verify_signed:
  assumes "credential_verify C J s a = Ok c"
  shows "\<exists>key payload sig. hex_decode C (authority_public_key a) = Some key
     \<and> hex_decode C (stc_payload_hex s) = Some payload
     \<and> hex_decode C (stc_signature_hex s) = Some sig
     \<and> ecdsa_verify C key payload sig \<and> from_slice J payload = Some c"
  using assms by (auto simp: credential_verify_def verify_public_key_def decode_authority_Ok)

lemma home_authority_scope:
  assumes "authority_validate_scope (AuthorityHome d) scope = Ok ()"
  shows "scope_allows_home scope h \<longleftrightarrow> h = ta_home_id_field d"
    and "scope_allows_business_service scope h sid p b \<Longrightarrow> h = ta_home_id_field d"
  using assms by (cases scope; auto simp: scope_allows_business_service_def)+

lemma validate_trusted_authorities_Ok:
  "validate_trusted_authorities C auths = Ok u \<longleftrightarrow> auths \<noteq> []
     \<and> (\<forall>a \<in> set auths. authority_validate C a = Ok ()) \<and> distinct (map authority_id auths)"
  by (auto simp: validate_trusted_authorities_def)

lemma authorities_by_id_Some:
  assumes "distinct (map authority_id auths)"
  shows "authorities_by_id auths i = Some a \<longleftrightarrow> a \<in> set auths \<and> authority_id a = i"
proof -
  have "distinct (map fst (rev (map (\<lambda>a. (authority_id a, a)) auths)))"
    using assms by (simp add: rev_map [symmetric] comp_def)
  then show ?thesis
    by (auto simp: authorities_by_id_def map_of_eq_Some_iff)
qed

subsection \<open>The lookup indexes\<close>

definition index_wf :: "(uuid \<rightharpoonup> travel_credential) \<Rightarrow> (travel_credential \<Rightarrow> string \<times> string)
    \<Rightarrow> spki_index \<Rightarrow> bool" where
  "index_wf creds key idx \<longleftrightarrow> (\<forall>k. (case idx k of
     None \<Rightarrow> (\<forall>i c. creds i = Some c \<longrightarrow> key c \<noteq> k)
   | Some ids \<Rightarrow> ids \<noteq> [] \<and> distinct ids
       \<and> set ids = {i. \<exists>c. creds i = Some c \<and> key c = k}))"

definition creds_wf :: "(uuid \<rightharpoonup> travel_credential) \<Rightarrow> bool" where
  "creds_wf creds \<longleftrightarrow> (\<forall>i c. creds i = Some c \<longrightarrow> tc_credential_id c = i)"

lemma index_wf_empty: "index_wf Map.empty key Map.empty"
  by (simp add: index_wf_def)

lemma index_wf_push:
  assumes wf: "index_wf creds key idx" and new: "creds i = None"
  shows "index_wf (creds(i \<mapsto> c)) key (index_push idx (key c) i)"
  unfolding index_wf_def
proof
  fix k
  have old: "case idx k of None \<Rightarrow> (\<forall>i c. creds i = Some c \<longrightarrow> key c \<noteq> k)
      | Some ids \<Rightarrow> ids \<noteq> [] \<and> distinct ids \<and> set ids = {i. \<exists>c. creds i = Some c \<and> key c = k}"
    by (rule wf [unfolded index_wf_def, rule_format])
  show "case index_push idx (key c) i k of
      None \<Rightarrow> (\<forall>j d. (creds(i \<mapsto> c)) j = Some d \<longrightarrow> key d \<noteq> k)
    | Some ids \<Rightarrow> ids \<noteq> [] \<and> distinct ids
        \<and> set ids = {j. \<exists>d. (creds(i \<mapsto> c)) j = Some d \<and> key d = k}"
    using old new by (cases "idx k") (auto simp: index_push_def)
qed

text \<open>The credentials that a list of signed credentials contributes.\<close>

definition contributed :: "crypto \<Rightarrow> travel_credential json \<Rightarrow> (string \<rightharpoonup> trusted_travel_authority)
    \<Rightarrow> string \<Rightarrow> signed_travel_credential list \<Rightarrow> travel_credential set" where
  "contributed C J by_id deployment ss = {c. tc_deployment_id c = deployment
     \<and> (\<exists>s \<in> set ss. \<exists>a. by_id (stc_authority_id s) = Some a \<and> credential_verify C J s a = Ok c)}"

lemma index_credentials_Ok:
  assumes "index_credentials C J by_id dep (creds, midx, bidx) ss = Ok (creds', midx', bidx')"
    and "creds_wf creds" "index_wf creds management_key midx" "index_wf creds business_key bidx"
  shows "creds_wf creds' \<and> index_wf creds' management_key midx' \<and> index_wf creds' business_key bidx'
     \<and> ran creds' = ran creds \<union> contributed C J by_id dep ss"
  using assms
proof (induction ss arbitrary: creds midx bidx)
  case Nil
  then show ?case by (simp add: contributed_def)
next
  case (Cons s ss)
  from Cons.prems(1) obtain a c where a: "by_id (stc_authority_id s) = Some a"
    and c: "credential_verify C J s a = Ok c" "tc_deployment_id c = dep"
      "creds (tc_credential_id c) = None"
    and rest: "index_credentials C J by_id dep (creds(tc_credential_id c \<mapsto> c),
        index_push midx (management_key c) (tc_credential_id c),
        index_push bidx (business_key c) (tc_credential_id c)) ss = Ok (creds', midx', bidx')"
    by auto
  have "contributed C J by_id dep (s # ss) = insert c (contributed C J by_id dep ss)"
    using a c by (auto simp: contributed_def)
  moreover have "ran (creds(tc_credential_id c \<mapsto> c)) = insert c (ran creds)"
    using c(3) by simp
  moreover have "creds_wf (creds(tc_credential_id c \<mapsto> c))"
    using Cons.prems(2) by (simp add: creds_wf_def)
  moreover have "index_wf (creds(tc_credential_id c \<mapsto> c)) management_key
      (index_push midx (management_key c) (tc_credential_id c))"
    "index_wf (creds(tc_credential_id c \<mapsto> c)) business_key
      (index_push bidx (business_key c) (tc_credential_id c))"
    using Cons.prems(3, 4) c(3) by (auto intro: index_wf_push simp del: fun_upd_apply)
  ultimately show ?case
    using Cons.IH [OF rest] by (simp del: fun_upd_apply)
qed

lemma index_credentials_all:
  "index_credentials C J by_id dep acc ss = Ok acc' \<Longrightarrow> s \<in> set ss \<Longrightarrow>
     \<exists>a c. by_id (stc_authority_id s) = Some a \<and> credential_verify C J s a = Ok c \<and> tc_deployment_id c = dep"
proof (induction ss arbitrary: acc)
  case (Cons x xs)
  obtain creds midx bidx where "acc = (creds, midx, bidx)" by (cases acc)
  with Cons.prems obtain a c acc1 where "by_id (stc_authority_id x) = Some a"
    "credential_verify C J x a = Ok c" "tc_deployment_id c = dep"
    "index_credentials C J by_id dep acc1 xs = Ok acc'"
    by auto
  with Cons.IH [of acc1] Cons.prems(2) show ?case by auto
qed simp

lemma index_revocations_Ok:
  "index_revocations creds seen rs = Ok revoked \<Longrightarrow>
     revoked = seen \<union> rv_credential_id ` set rs \<and> rv_credential_id ` set rs \<subseteq> dom creds"
proof (induction rs arbitrary: seen)
  case (Cons r rs)
  then have "index_revocations creds (insert (rv_credential_id r) seen) rs = Ok revoked"
    and "rv_credential_id r \<in> dom creds"
    by auto
  with Cons.IH show ?case by fastforce
qed simp

definition va_wf :: "verified_authorization \<Rightarrow> bool" where
  "va_wf va \<longleftrightarrow> creds_wf (va_credentials va)
     \<and> index_wf (va_credentials va) management_key (va_management_index va)
     \<and> index_wf (va_credentials va) business_key (va_business_index va)
     \<and> va_revoked_credentials va \<subseteq> dom (va_credentials va)"

lemma authorization_verifyD:
  assumes "authorization_verify C J JS snap auths dep = Ok va"
  shows "va_wf va" "va_generation va = tas_generation snap" "va_generation va \<noteq> 0"
    "va_revoked_credentials va = rv_credential_id ` set (tas_revocations snap)"
    "ran (va_credentials va) = contributed C J (authorities_by_id auths) dep (tas_credentials snap)"
    "distinct (map authority_id auths)"
    "\<exists>bytes. to_vec JS snap = Some bytes \<and> va_snapshot_sha256 va = hex_encode C (sha256_digest C bytes)"
proof -
  from assms obtain creds midx bidx revoked bytes where
    v: "index_credentials C J (authorities_by_id auths) dep (Map.empty, Map.empty, Map.empty)
          (tas_credentials snap) = Ok (creds, midx, bidx)"
    and r: "index_revocations creds {} (tas_revocations snap) = Ok revoked"
    and b: "to_vec JS snap = Some bytes" and g: "tas_generation snap \<noteq> 0"
    and d: "validate_trusted_authorities C auths = Ok ()"
    and va: "va = \<lparr>va_generation = tas_generation snap,
         va_snapshot_sha256 = hex_encode C (sha256_digest C bytes),
         va_credentials = creds, va_management_index = midx, va_business_index = bidx,
         va_revoked_credentials = revoked\<rparr>"
    by (auto simp: authorization_verify_def split: prod.splits)
  have "creds_wf Map.empty"
    by (simp add: creds_wf_def)
  note w = index_credentials_Ok [OF v this index_wf_empty index_wf_empty]
    and rv = index_revocations_Ok [OF r]
  show "va_wf va" using w rv by (auto simp: va_wf_def va)
  show "ran (va_credentials va) = contributed C J (authorities_by_id auths) dep (tas_credentials snap)"
    using w by (simp add: va)
  show "va_revoked_credentials va = rv_credential_id ` set (tas_revocations snap)"
    using rv by (simp add: va)
  show "distinct (map authority_id auths)"
    using d by (simp add: validate_trusted_authorities_Ok)
  show "\<exists>bytes. to_vec JS snap = Some bytes
      \<and> va_snapshot_sha256 va = hex_encode C (sha256_digest C bytes)"
    using b by (simp add: va)
qed (use assms in \<open>auto simp: authorization_verify_def split: prod.splits\<close>)

text \<open>Every credential of a verified snapshot is accounted for, and more authorities with other ids
  change nothing.\<close>

lemma authorization_verify_all:
  assumes "authorization_verify C J JS snap auths dep = Ok va" "s \<in> set (tas_credentials snap)"
  shows "\<exists>a \<in> set auths. authority_id a = stc_authority_id s \<and> (\<exists>c. credential_verify C J s a = Ok c)"
proof -
  have "\<exists>acc'. index_credentials C J (authorities_by_id auths) dep (Map.empty, Map.empty, Map.empty)
      (tas_credentials snap) = Ok acc'"
    using assms(1) by (auto simp: authorization_verify_def split: prod.splits)
  then obtain a c where "authorities_by_id auths (stc_authority_id s) = Some a" "credential_verify C J s a = Ok c"
    using index_credentials_all assms(2) by blast
  then show ?thesis
    using authorities_by_id_Some [OF authorization_verifyD(6) [OF assms(1)]] by auto
qed

lemma ran_va_credentials:
  assumes "authorization_verify C J JS snap auths dep = Ok va"
  shows "ran (va_credentials va) = {c. tc_deployment_id c = dep
     \<and> (\<exists>s \<in> set (tas_credentials snap). \<exists>a \<in> set auths. credential_verify C J s a = Ok c)}"
  unfolding authorization_verifyD(5) [OF assms] contributed_def
    authorities_by_id_Some [OF authorization_verifyD(6) [OF assms]]
  by (auto dest: credential_verifyD(1)) (metis credential_verifyD(1))

lemma ran_va_more_authorities:
  assumes "authorization_verify C J JS snap auths dep = Ok va"
    and "authorization_verify C J JS snap' (auths @ extra) dep = Ok va'"
    and "tas_credentials snap' = tas_credentials snap"
  shows "ran (va_credentials va') = ran (va_credentials va)"
proof -
  have "a \<in> set auths" if s: "s \<in> set (tas_credentials snap)" and a: "a \<in> set (auths @ extra)"
    and c: "credential_verify C J s a = Ok c" for s a c
  proof -
    obtain b where b: "b \<in> set auths" "authority_id b = stc_authority_id s"
      using authorization_verify_all [OF assms(1) s] by blast
    then have "authority_id b = authority_id a"
      using credential_verifyD(1) [OF c] by simp
    moreover have "inj_on authority_id (set (auths @ extra))"
      using authorization_verifyD(6) [OF assms(2)] unfolding distinct_map by blast
    ultimately have "b = a"
      using a b(1) by (auto dest!: inj_onD)
    with b show ?thesis by simp
  qed
  then show ?thesis
    unfolding ran_va_credentials [OF assms(1)] ran_va_credentials [OF assms(2)] assms(3)
    by (fastforce simp: Bex_def)
qed

subsection \<open>What the decisions mean\<close>

definition identity_key :: "peer_identity \<Rightarrow> string \<times> string" where
  "identity_key identity = (pi_id identity, to_ascii_lowercase (pi_spki_sha256 identity))"

definition active_for :: "verified_authorization \<Rightarrow> (travel_credential \<Rightarrow> string \<times> string)
    \<Rightarrow> peer_identity \<Rightarrow> u64 \<Rightarrow> travel_credential set" where
  "active_for va key identity now = {c \<in> ran (va_credentials va).
     key c = identity_key identity \<and> tc_credential_id c \<notin> va_revoked_credentials va
     \<and> credential_active_at c now}"

lemma ran_creds_wf: "creds_wf creds \<Longrightarrow> c \<in> ran creds \<longleftrightarrow> creds (tc_credential_id c) = Some c"
  by (auto simp: ran_def creds_wf_def)

lemma authorize_all_spec:
  assumes cw: "creds_wf (va_credentials va)" and iw: "index_wf (va_credentials va) key idx"
  shows "authorize_all va identity now idx = Ok cs \<Longrightarrow>
      identity_active_at identity now \<and> cs \<noteq> [] \<and> set cs = active_for va key identity now"
    and "identity_active_at identity now \<Longrightarrow> active_for va key identity now \<noteq> {}
      \<Longrightarrow> \<exists>cs. authorize_all va identity now idx = Ok cs"
    and "authorize_all va identity now idx \<noteq> Err (AuthUse IndexInconsistent)"
proof -
  let ?k = "identity_key identity" and ?cr = "va_credentials va"
  let ?act = "\<lambda>ids. filter (\<lambda>i. is_active va i now) ids"
  have total: "map_result (\<lambda>i. ok_or (?cr i) (AuthUse IndexInconsistent)) (?act ids)
      = Ok (map (\<lambda>i. the (?cr i)) (?act ids))" for ids
    by (rule map_result_total) (auto simp: is_active_def split: option.splits)
  have sel: "set (map (\<lambda>i. the (?cr i)) (?act ids)) = active_for va key identity now"
    if "idx ?k = Some ids" for ids
  proof -
    have "set ids = {i. \<exists>c. ?cr i = Some c \<and> key c = ?k}"
      using iw [unfolded index_wf_def, rule_format, of ?k] that by simp
    then have "c \<in> set (map (\<lambda>i. the (?cr i)) (?act ids)) \<longleftrightarrow>
        (\<exists>i. ?cr i = Some c \<and> key c = ?k \<and> i \<notin> va_revoked_credentials va \<and> credential_active_at c now)" for c
      by (auto simp: is_active_def image_iff split: option.splits)
    moreover have "?cr i = Some c \<longleftrightarrow> i = tc_credential_id c \<and> c \<in> ran ?cr" for i c
      using cw by (auto simp: ran_creds_wf creds_wf_def ranI)
    ultimately show ?thesis
      by (auto simp: active_for_def)
  qed
  have none: "active_for va key identity now = {}" if "idx ?k = None"
    using iw [unfolded index_wf_def, rule_format, of ?k] that by (auto simp: active_for_def ran_def)
  have unfolded: "authorize_all va identity now idx =
     (case idx ?k of None \<Rightarrow> Err (AuthUse NotCovered)
      | Some ids \<Rightarrow> if \<not> identity_active_at identity now then Err (AuthUse CertificateInactive)
          else if ?act ids = [] then Err (AuthUse CredentialInactive)
          else Ok (map (\<lambda>i. the (?cr i)) (?act ids)))"
    unfolding authorize_all_def total identity_key_def [symmetric]
    by (auto simp: bail_if_def split: option.splits)
  show "authorize_all va identity now idx = Ok cs \<Longrightarrow>
      identity_active_at identity now \<and> cs \<noteq> [] \<and> set cs = active_for va key identity now"
    using sel by (auto simp: unfolded split: option.splits if_splits)
  show "identity_active_at identity now \<Longrightarrow> active_for va key identity now \<noteq> {}
      \<Longrightarrow> \<exists>cs. authorize_all va identity now idx = Ok cs"
  proof -
    assume act: "identity_active_at identity now" and ne: "active_for va key identity now \<noteq> {}"
    then obtain ids where ids: "idx ?k = Some ids"
      using none by (cases "idx ?k") auto
    then have "?act ids \<noteq> []"
      using sel [OF ids] ne by (metis list.simps(8) set_empty)
    with act ids show ?thesis
      by (simp add: unfolded)
  qed
  show "authorize_all va identity now idx \<noteq> Err (AuthUse IndexInconsistent)"
    by (auto simp: unfolded split: option.splits)
qed


section \<open>The abstract specification of an authorization decision\<close>

text \<open>Who is entitled, read off the snapshot itself, with no index and no map.\<close>

definition entitled :: "crypto \<Rightarrow> travel_credential json \<Rightarrow> travel_authorization_snapshot
    \<Rightarrow> trusted_travel_authority list \<Rightarrow> string \<Rightarrow> (travel_credential \<Rightarrow> string \<times> string)
    \<Rightarrow> peer_identity \<Rightarrow> u64 \<Rightarrow> travel_credential set" where
  "entitled C J snap auths dep key identity now =
     {c. (\<exists>s \<in> set (tas_credentials snap). \<exists>a \<in> set auths. credential_verify C J s a = Ok c)
       \<and> tc_deployment_id c = dep \<and> key c = identity_key identity
       \<and> tc_credential_id c \<notin> rv_credential_id ` set (tas_revocations snap)
       \<and> credential_active_at c now}"

lemma active_for_entitled:
  assumes "authorization_verify C J JS snap auths dep = Ok va"
  shows "active_for va key identity now = entitled C J snap auths dep key identity now"
proof -
  note v = authorization_verifyD [OF assms]
  show ?thesis
    by (auto simp: active_for_def entitled_def v(4) ran_va_credentials [OF assms])
qed

lemma authorize_all_entitled:
  assumes "authorization_verify C J JS snap auths dep = Ok va"
    and "(key, idx) \<in> {(management_key, va_management_index va), (business_key, va_business_index va)}"
  shows "authorize_all va identity now idx = Ok cs \<Longrightarrow> identity_active_at identity now \<and> cs \<noteq> []
       \<and> set cs = entitled C J snap auths dep key identity now"
    and "is_ok (authorize_all va identity now idx) \<longleftrightarrow> identity_active_at identity now
       \<and> entitled C J snap auths dep key identity now \<noteq> {}"
    and "authorize_all va identity now idx \<noteq> Err (AuthUse IndexInconsistent)"
proof -
  have w: "creds_wf (va_credentials va)" "index_wf (va_credentials va) key idx"
    using authorization_verifyD(1) [OF assms(1)] assms(2) by (auto simp: va_wf_def)
  note sp = authorize_all_spec [OF w] and e = active_for_entitled [OF assms(1), of key]
  show one: "authorize_all va identity now idx = Ok cs \<Longrightarrow> identity_active_at identity now \<and> cs \<noteq> []
       \<and> set cs = entitled C J snap auths dep key identity now" for cs
    using sp(1) e by simp
  show "is_ok (authorize_all va identity now idx) \<longleftrightarrow> identity_active_at identity now
       \<and> entitled C J snap auths dep key identity now \<noteq> {}"
    using sp(2) e one by (auto simp: is_ok_iff)
  show "authorize_all va identity now idx \<noteq> Err (AuthUse IndexInconsistent)"
    by (rule sp(3))
qed

lemma entitled_id_unique:
  assumes "authorization_verify C J JS snap auths dep = Ok va"
    and "c \<in> entitled C J snap auths dep key identity now"
    and "d \<in> entitled C J snap auths dep key identity now"
    and "tc_credential_id c = tc_credential_id d"
  shows "c = d"
proof -
  have "creds_wf (va_credentials va)"
    using authorization_verifyD(1) [OF assms(1)] by (simp add: va_wf_def)
  moreover have "c \<in> ran (va_credentials va)" "d \<in> ran (va_credentials va)"
    using assms(2, 3) unfolding active_for_entitled [OF assms(1), symmetric] active_for_def by auto
  ultimately show ?thesis
    using assms(4) by (simp add: ran_creds_wf)
qed

section \<open>Evaluation on a concrete snapshot\<close>

definition sample_authority :: "byte \<Rightarrow> trusted_travel_authority" where
  "sample_authority k = AuthorityHome \<lparr>ta_id_field = ''issuer'', ta_epoch_field = 1,
     ta_home_id_field = ''home-1'', ta_public_key_field = sample_key k\<rparr>"

definition sample_credential :: travel_credential where
  "sample_credential = \<lparr>tc_version = 1, tc_object_type = ''flowsplice.travel_credential'',
     tc_deployment_id = ''dep'', tc_deployment_trust_sha256 = sample_pin CHR ''1'',
     tc_credential_id = 11, tc_authority_id = ''issuer'', tc_authority_epoch = 1,
     tc_enrollment_request_id = 12, tc_enrollment_nonce = sample_pin CHR ''2'',
     tc_enrollment_request_sha256 = sample_pin CHR ''3'', tc_travel_id = ''phone'',
     tc_management_spki_sha256 = sample_pin CHR ''4'', tc_business_spki_sha256 = sample_pin CHR ''5'',
     tc_management_ca_sha256 = sample_pin CHR ''6'', tc_business_ca_sha256 = sample_pin CHR ''7'',
     tc_management_certificate_sha256 = sample_pin CHR ''8'',
     tc_business_certificate_sha256 = sample_pin CHR ''9'',
     tc_scope = ScopeService ''home-1'' ''ssh'' Tcp,
     tc_not_before_unix_secs = 100, tc_not_after_unix_secs = 200\<rparr>"

definition sample_signed :: signed_travel_credential where
  "sample_signed = \<lparr>stc_authority_id = ''issuer'', stc_payload_hex = tohex [7],
     stc_signature_hex = tohex [12]\<rparr>"

definition sample_snapshot :: "u64 \<Rightarrow> travel_revocation list \<Rightarrow> travel_authorization_snapshot" where
  "sample_snapshot g revs = \<lparr>tas_generation = g, tas_home_endpoint_credentials = [],
     tas_credentials = [sample_signed], tas_revocations = revs\<rparr>"

definition sample_identity :: "string \<Rightarrow> peer_identity" where
  "sample_identity pin = \<lparr>pi_role = RTravel, pi_id = ''phone'', pi_certificate_sha256 = [],
     pi_spki_sha256 = pin, pi_signing_public_key = [], pi_not_before_unix_secs = 50,
     pi_not_after_unix_secs = 500\<rparr>"

definition sample_verified :: "u64 \<Rightarrow> uuid set \<Rightarrow> verified_authorization" where
  "sample_verified g revoked = \<lparr>va_generation = g,
     va_snapshot_sha256 = tohex (replicate 31 0 @ [7]),
     va_credentials = [11 \<mapsto> sample_credential],
     va_management_index = [(''phone'', to_ascii_lowercase (sample_pin CHR ''4'')) \<mapsto> [11]],
     va_business_index = [(''phone'', to_ascii_lowercase (sample_pin CHR ''5'')) \<mapsto> [11]],
     va_revoked_credentials = revoked\<rparr>"

lemma sample_credential_verifies:
  "credential_verify sample_crypto (one_json sample_credential) sample_signed (sample_authority 5)
     = Ok sample_credential"
  by (simp add: credential_verify_def verify_public_key_def sample_signed_def sample_authority_def
      authority_id_def authority_public_key_def authority_epoch_def unhex_tohex credential_validate_def
      sample_credential_def one_json_def TRAVEL_CREDENTIAL_VERSION_def
      TRAVEL_CREDENTIAL_OBJECT_TYPE_def digit_val_def)

lemma sample_authority_valid: "validate_trusted_authorities sample_crypto [sample_authority 5] = Ok ()"
  by (simp add: validate_trusted_authorities_Ok authority_validate_def sample_authority_def
      authority_id_def authority_public_key_def authority_epoch_def authority_home_id_def)

lemma sample_verifies:
  assumes "g \<noteq> 0" and "index_revocations [11 \<mapsto> sample_credential] {} revs = Ok revoked"
  shows "authorization_verify sample_crypto (one_json sample_credential)
     (one_json (sample_snapshot g revs)) (sample_snapshot g revs) [sample_authority 5] ''dep''
   = Ok (sample_verified g revoked)"
proof -
  have i: "authorities_by_id [sample_authority 5] ''issuer'' = Some (sample_authority 5)"
    "stc_authority_id sample_signed = ''issuer''"
    by (simp_all add: authorities_by_id_def sample_authority_def authority_id_def sample_signed_def)
  have c: "tc_credential_id sample_credential = 11" "tc_deployment_id sample_credential = ''dep''"
    "management_key sample_credential = (''phone'', to_ascii_lowercase (sample_pin CHR ''4''))"
    "business_key sample_credential = (''phone'', to_ascii_lowercase (sample_pin CHR ''5''))"
    by (simp_all add: sample_credential_def management_key_def business_key_def)
  have "index_credentials sample_crypto (one_json sample_credential)
      (authorities_by_id [sample_authority 5]) ''dep'' (Map.empty, Map.empty, Map.empty)
      [sample_signed] = Ok ([11 \<mapsto> sample_credential],
        [(''phone'', to_ascii_lowercase (sample_pin CHR ''4'')) \<mapsto> [11]],
        [(''phone'', to_ascii_lowercase (sample_pin CHR ''5'')) \<mapsto> [11]])"
    by (simp add: i c sample_credential_verifies index_push_def)
  then show ?thesis
    using assms
    by (simp add: authorization_verify_def sample_authority_valid sample_snapshot_def
        sample_verified_def)
qed

lemma sample_verifies_plain: "authorization_verify sample_crypto (one_json sample_credential)
     (one_json (sample_snapshot 3 [])) (sample_snapshot 3 []) [sample_authority 5] ''dep''
   = Ok (sample_verified 3 {})"
  by (rule sample_verifies) simp_all

subsection \<open>The decision for one Home\<close>

lemma for_home_best:
  assumes "authorization_verify C J JS snap auths dep = Ok va"
    and "authorize_management_for_home va identity home now = Ok c"
  shows "identity_active_at identity now \<and> allows_home c home
     \<and> c \<in> entitled C J snap auths dep management_key identity now
     \<and> (\<forall>d \<in> entitled C J snap auths dep management_key identity now.
          allows_home d home \<longrightarrow> tc_not_after_unix_secs d \<le> tc_not_after_unix_secs c)"
proof -
  from assms(2) obtain cs where
    cs: "authorize_all va identity now (va_management_index va) = Ok cs"
    and m: "max_by_key tc_not_after_unix_secs (filter (\<lambda>c. allows_home c home) cs) = Some c"
    by (auto simp: authorize_management_for_home_def authorize_management_all_def)
  have "identity_active_at identity now \<and> set cs = entitled C J snap auths dep management_key identity now"
    using authorize_all_entitled(1) [OF assms(1) _ cs, of management_key] by simp
  then show ?thesis
    using max_by_key_in [OF m] max_by_key_max [OF m] by auto
qed

lemma for_home_decides:
  assumes "authorization_verify C J JS snap auths dep = Ok va"
  shows "is_ok (authorize_management_for_home va identity home now) \<longleftrightarrow>
     identity_active_at identity now
     \<and> (\<exists>c \<in> entitled C J snap auths dep management_key identity now. allows_home c home)"
proof -
  let ?E = "entitled C J snap auths dep management_key identity now"
  note a = authorize_all_entitled [OF assms, of management_key "va_management_index va" identity now]
  show ?thesis
  proof (cases "authorize_all va identity now (va_management_index va)")
    case (Ok cs)
    then have act: "identity_active_at identity now" and cs: "set cs = ?E"
      using a(1) by simp_all
    let ?l = "filter (\<lambda>c. allows_home c home) cs"
    have "is_ok (authorize_management_for_home va identity home now) \<longleftrightarrow> ?l \<noteq> []"
      using Ok max_by_key_None [of tc_not_after_unix_secs ?l]
      by (cases "max_by_key tc_not_after_unix_secs ?l")
        (auto simp: authorize_management_for_home_def authorize_management_all_def)
    then show ?thesis
      using act cs by (auto simp: filter_empty_conv)
  next
    case (Err e)
    then have "\<not> is_ok (authorize_management_for_home va identity home now)"
      by (simp add: authorize_management_for_home_def authorize_management_all_def)
    moreover have "\<not> (identity_active_at identity now \<and> ?E \<noteq> {})"
      using a(2) Err by auto
    ultimately show ?thesis by auto
  qed
qed

section \<open>Properties\<close>

text \<open>C21: on a verified snapshot, a Travel identity is admitted to a Home exactly when its
  certificate is current and some credential of the snapshot, signed by a trusted authority for
  this deployment and this SPKI, is neither revoked nor outside its validity and covers the Home;
  the credential returned is such a one with the latest expiry.\<close>

theorem home_admission_exact:
  assumes "authorization_verify C J JS snap auths dep = Ok va"
  shows "(is_ok (authorize_management_for_home va identity home now) \<longleftrightarrow>
         identity_active_at identity now
         \<and> (\<exists>c \<in> entitled C J snap auths dep management_key identity now. allows_home c home))
     \<and> (\<forall>c. authorize_management_for_home va identity home now = Ok c \<longrightarrow>
         c \<in> entitled C J snap auths dep management_key identity now \<and> allows_home c home
         \<and> (\<forall>d \<in> entitled C J snap auths dep management_key identity now.
              allows_home d home \<longrightarrow> tc_not_after_unix_secs d \<le> tc_not_after_unix_secs c))"
  using for_home_decides [OF assms] for_home_best [OF assms] by blast

theorem home_admission_exact_witness:
  "authorize_management_for_home (sample_verified 3 {}) (sample_identity (sample_pin CHR ''4''))
       ''home-1'' 150 = Ok sample_credential
   \<and> \<not> is_ok (authorize_management_for_home (sample_verified 3 {})
       (sample_identity (sample_pin CHR ''4'')) ''home-2'' 150)
   \<and> sample_credential \<in> entitled sample_crypto (one_json sample_credential) (sample_snapshot 3 [])
       [sample_authority 5] ''dep'' management_key (sample_identity (sample_pin CHR ''4'')) 150"
proof -
  let ?id = "sample_identity (sample_pin CHR ''4'')"
  have ok: "authorize_management_for_home (sample_verified 3 {}) ?id ''home-1'' 150 = Ok sample_credential"
    and no: "\<not> is_ok (authorize_management_for_home (sample_verified 3 {}) ?id ''home-2'' 150)"
    by (simp_all add: authorize_management_for_home_def authorize_management_all_def
        authorize_all_def sample_verified_def sample_identity_def identity_active_at_def
        is_active_def credential_active_at_def sample_credential_def allows_home_def bail_if_def)
  from home_admission_exact [OF sample_verifies_plain, of ?id "''home-1''" 150] ok no
  show ?thesis by simp
qed

text \<open>C22: a business identity is accepted for the credential chosen for a route exactly when that
  very credential is entitled for the identity's business SPKI, and no decision on a verified
  snapshot ever meets an inconsistent index.\<close>

theorem business_admission_exact:
  assumes "authorization_verify C J JS snap auths dep = Ok va"
  shows "(authorize_business_credential va identity i now = Ok c \<longleftrightarrow>
         identity_active_at identity now \<and> tc_credential_id c = i
         \<and> c \<in> entitled C J snap auths dep business_key identity now)
     \<and> Err (AuthUse IndexInconsistent) \<notin>
         {authorize_business_credential va identity i now, authorize_business va identity now,
          authorize_management va identity now, authorize_management_for_home va identity home now}"
proof -
  note b = authorize_all_entitled [OF assms, of business_key "va_business_index va" identity now]
  note m = authorize_all_entitled [OF assms, of management_key "va_management_index va" identity now]
  have "authorize_business_credential va identity i now = Ok c \<longleftrightarrow>
         identity_active_at identity now \<and> tc_credential_id c = i
         \<and> c \<in> entitled C J snap auths dep business_key identity now"
  proof (cases "authorize_all va identity now (va_business_index va)")
    case (Ok cs)
    have act: "identity_active_at identity now"
      and cs: "set cs = entitled C J snap auths dep business_key identity now"
      using b(1) Ok by simp_all
    have "List.find (\<lambda>c. tc_credential_id c = i) cs = Some c \<longleftrightarrow> c \<in> set cs \<and> tc_credential_id c = i"
      using entitled_id_unique [OF assms] cs
      by (cases "List.find (\<lambda>c. tc_credential_id c = i) cs")
        (auto dest: find_SomeD simp: find_None_iff)
    then show ?thesis
      using Ok act cs by (auto simp: authorize_business_credential_def)
  next
    case (Err e)
    then show ?thesis
      using b(2) by (auto simp: authorize_business_credential_def)
  qed
  then show ?thesis
    using b(3) m(3)
    by (auto simp: authorize_business_credential_def authorize_business_def authorize_management_def
        authorize_management_for_home_def authorize_management_all_def first_credential_def
        rbind_eq_Err dest: sym)
qed

theorem business_admission_exact_witness:
  "authorize_business_credential (sample_verified 3 {}) (sample_identity (sample_pin CHR ''5'')) 11 150
      = Ok sample_credential
   \<and> sample_credential \<in> entitled sample_crypto (one_json sample_credential) (sample_snapshot 3 [])
       [sample_authority 5] ''dep'' business_key (sample_identity (sample_pin CHR ''5'')) 150"
proof -
  let ?id = "sample_identity (sample_pin CHR ''5'')"
  have "authorize_business_credential (sample_verified 3 {}) ?id 11 150 = Ok sample_credential"
    by (simp add: authorize_business_credential_def authorize_all_def sample_verified_def
        sample_identity_def identity_active_at_def is_active_def credential_active_at_def
        sample_credential_def bail_if_def)
  with business_admission_exact [OF sample_verifies_plain, of ?id 11 150 sample_credential]
  show ?thesis by simp
qed

text \<open>A credential that a Home authority signed admits its holder to that authority's own Home
  and to no other, whatever scope it claims, and never to a service of another Home.\<close>

theorem home_authority_confined:
  assumes "authorization_verify C J JS snap auths dep = Ok va"
    and "authorize_management_for_home va identity home now = Ok c"
    and "AuthorityHome d \<in> set auths" and "ta_id_field d = tc_authority_id c"
  shows "home = ta_home_id_field d \<and> (\<forall>h. allows_home c h \<longrightarrow> h = home)
     \<and> (\<forall>h sid p b. allows_business_service c h sid p b \<longrightarrow> h = home)"
proof -
  have e: "c \<in> entitled C J snap auths dep management_key identity now" and h: "allows_home c home"
    using for_home_best [OF assms(1, 2)] by simp_all
  then obtain s a where a: "a \<in> set auths" "credential_verify C J s a = Ok c"
    by (auto simp: entitled_def)
  have "authority_id a = authority_id (AuthorityHome d)"
    using credential_verifyD(2) [OF a(2)] assms(4) by (simp add: authority_id_def)
  then have "a = AuthorityHome d"
    using authorization_verifyD(6) [OF assms(1)] a(1) assms(3) by (auto simp: distinct_map inj_on_def)
  then have "authority_validate_scope (AuthorityHome d) (tc_scope c) = Ok ()"
    using credential_verifyD(5) [OF a(2)] by simp
  from home_authority_scope [OF this] h show ?thesis
    by (auto simp: allows_home_def allows_business_service_def)
qed


theorem home_authority_confined_witness:
  "allows_home sample_credential ''home-1'' \<and> \<not> allows_home sample_credential ''home-2''
   \<and> \<not> allows_business_service sample_credential ''home-2'' ''ssh'' Tcp None"
proof -
  have "authorize_management_for_home (sample_verified 3 {})
      (sample_identity (sample_pin CHR ''4'')) ''home-1'' 150 = Ok sample_credential"
    by (simp add: authorize_management_for_home_def authorize_management_all_def
        authorize_all_def sample_verified_def sample_identity_def identity_active_at_def
        is_active_def credential_active_at_def sample_credential_def allows_home_def bail_if_def)
  note c = home_authority_confined [OF sample_verifies_plain this, of
      "\<lparr>ta_id_field = ''issuer'', ta_epoch_field = 1, ta_home_id_field = ''home-1'',
         ta_public_key_field = sample_key 5\<rparr>"]
  have "AuthorityHome \<lparr>ta_id_field = ''issuer'', ta_epoch_field = 1, ta_home_id_field = ''home-1'',
         ta_public_key_field = sample_key 5\<rparr> \<in> set [sample_authority 5]"
    "tc_authority_id sample_credential = ''issuer''"
    by (simp_all add: sample_authority_def sample_credential_def)
  with c have "(\<forall>h. allows_home sample_credential h \<longrightarrow> h = ''home-1'')
      \<and> (\<forall>h sid p b. allows_business_service sample_credential h sid p b \<longrightarrow> h = ''home-1'')"
    by simp
  then have confined: "\<And>h. allows_home sample_credential h \<Longrightarrow> h = ''home-1''"
    "\<And>h sid p b. allows_business_service sample_credential h sid p b \<Longrightarrow> h = ''home-1''"
    by blast+
  have "allows_home sample_credential ''home-1''"
    by (simp add: allows_home_def sample_credential_def)
  moreover have "\<not> allows_home sample_credential ''home-2''"
    using confined(1) [of "''home-2''"] by auto
  moreover have "\<not> allows_business_service sample_credential ''home-2'' ''ssh'' Tcp None"
    using confined(2) [of "''home-2''" "''ssh''" Tcp None] by auto
  ultimately show ?thesis by blast
qed

section \<open>The cache as a high-water mark\<close>

lemma cache_accept_Ok:
  "cache_accept c va = Ok c' \<longleftrightarrow> ac_generation c \<le> va_generation va
     \<and> (ac_generation c \<noteq> 0 \<and> va_generation va = ac_generation c \<and> ac_snapshot_sha256 c \<noteq> []
          \<longrightarrow> va_snapshot_sha256 va = ac_snapshot_sha256 c)
     \<and> ac_revoked_credentials c \<subseteq> va_revoked_credentials va
     \<and> c' = \<lparr>ac_generation = va_generation va, ac_snapshot_sha256 = va_snapshot_sha256 va,
         ac_revoked_credentials = va_revoked_credentials va\<rparr>"
  by (auto simp: cache_accept_def not_less)

interpretation cache: high_water cache_accept ac_generation ac_snapshot_sha256
  "\<lambda>g d. g \<noteq> 0 \<and> d \<noteq> []" ac_revoked_credentials
  by unfold_locales (auto simp: cache_accept_Ok)

text \<open>C9: the rollback cache of Home and Relay, through any sequence of offered snapshots, accepted
  or refused: the generation never decreases, a generation once bound to a digest stays bound to
  it, and no credential it has seen revoked is active in any snapshot it accepts later.\<close>

theorem revocation_survives_offers:
  assumes "cache.offer_all c vas = c'"
  shows "ac_generation c \<le> ac_generation c'
     \<and> (ac_generation c' = ac_generation c \<and> ac_generation c \<noteq> 0 \<and> ac_snapshot_sha256 c \<noteq> []
          \<longrightarrow> ac_snapshot_sha256 c' = ac_snapshot_sha256 c)
     \<and> ac_revoked_credentials c \<subseteq> ac_revoked_credentials c'
     \<and> (\<forall>va. is_ok (cache_accept c' va) \<longrightarrow>
          (\<forall>i \<in> ac_revoked_credentials c. \<forall>now. \<not> is_active va i now))"
proof -
  have r: "ac_revoked_credentials c \<subseteq> ac_revoked_credentials c'"
    using cache.offer_all_recorded [of c vas] assms by simp
  then have "\<not> is_active va i now" if "is_ok (cache_accept c' va)" "i \<in> ac_revoked_credentials c"
    for va i now
    using that by (auto simp: is_ok_iff cache_accept_Ok is_active_def split: option.splits)
  then show ?thesis
    using r cache.offer_all_mark [of c vas] cache.offer_all_content [of c vas] assms by auto
qed

theorem revocation_survives_offers_witness:
  "cache.offer_all \<lparr>ac_generation = 2, ac_snapshot_sha256 = ''aa'', ac_revoked_credentials = {11}\<rparr>
      [sample_verified 3 {}, sample_verified 4 {11}]
     = \<lparr>ac_generation = 4, ac_snapshot_sha256 = tohex (replicate 31 0 @ [7]), ac_revoked_credentials = {11}\<rparr>
   \<and> \<not> is_ok (cache_accept \<lparr>ac_generation = 4, ac_snapshot_sha256 = tohex (replicate 31 0 @ [7]),
         ac_revoked_credentials = {11}\<rparr> (sample_verified 5 {}))
   \<and> \<not> is_active (sample_verified 5 {11}) 11 150"
proof -
  let ?c = "\<lparr>ac_generation = 2, ac_snapshot_sha256 = ''aa'', ac_revoked_credentials = {11}\<rparr>"
  let ?c' = "\<lparr>ac_generation = 4, ac_snapshot_sha256 = tohex (replicate 31 0 @ [7]),
      ac_revoked_credentials = {11}\<rparr>"
  have run: "cache.offer_all ?c [sample_verified 3 {}, sample_verified 4 {11}] = ?c'"
    by (simp add: cache_accept_def sample_verified_def bail_if_def)
  moreover have "is_ok (cache_accept ?c' (sample_verified 5 {11}))"
    "\<not> is_ok (cache_accept ?c' (sample_verified 5 {}))"
    by (simp_all add: cache_accept_def sample_verified_def bail_if_def)
  ultimately show ?thesis
    using revocation_survives_offers [OF run] by auto
qed

end
