(* ===== verification/Deployment.thy ===== *)
theory Deployment
  imports Authorization
begin

text \<open>
  Deployment trust (\<open>internal/flowsplice-core/src/deployment.rs\<close>): the root-signed document that
  certifies Server control keys, Home endpoints and authorities, the Home endpoint credentials
  that extend it, and the Server-signed control snapshot (Relay directory and catalog) that
  Travel acts on.
\<close>

section \<open>Constants and data\<close>

definition DEPLOYMENT_TRUST_VERSION :: u32 where "DEPLOYMENT_TRUST_VERSION = 1"
definition CONTROL_SNAPSHOT_VERSION :: u32 where "CONTROL_SNAPSHOT_VERSION = 1"
definition CONTROL_SNAPSHOT_OBJECT_TYPE :: string where
  "CONTROL_SNAPSHOT_OBJECT_TYPE = ''flowsplice.control_snapshot''"
definition HOME_ENDPOINT_CREDENTIAL_VERSION :: u32 where "HOME_ENDPOINT_CREDENTIAL_VERSION = 1"
definition HOME_ENDPOINT_CREDENTIAL_OBJECT_TYPE :: string where
  "HOME_ENDPOINT_CREDENTIAL_OBJECT_TYPE = ''flowsplice.home_endpoint_credential''"
definition MAX_CLOCK_SKEW_SECS :: u64 where "MAX_CLOCK_SKEW_SECS = 300"
definition MAX_CONTROL_SNAPSHOT_TTL_SECS :: u64 where "MAX_CONTROL_SNAPSHOT_TTL_SECS = 300"
definition MAX_RELAY_ENDPOINTS :: nat where "MAX_RELAY_ENDPOINTS = 64"
definition MAX_CATALOG_HOMES :: nat where "MAX_CATALOG_HOMES = 64"
definition MAX_SERVICES_PER_HOME :: nat where "MAX_SERVICES_PER_HOME = 256"
definition MAX_ID_BYTES :: nat where "MAX_ID_BYTES = 128"
definition MAX_DISPLAY_OR_TARGET_BYTES :: nat where "MAX_DISPLAY_OR_TARGET_BYTES = 512"
definition MAX_CONTROL_SNAPSHOT_PAYLOAD_BYTES :: nat where
  "MAX_CONTROL_SNAPSHOT_PAYLOAD_BYTES = 400 * 1024"

record server_control_key =
  sck_server_id :: string
  sck_epoch :: u64
  sck_public_key :: string

record home_endpoint_trust =
  het_home_id :: string
  het_management_spki_pins :: "string list"
  het_business_spki_pins :: "string list"

record trusted_home_enrollment_authority =
  hea_id :: string
  hea_epoch :: u64
  hea_issuer_home_id :: string
  hea_public_key :: string

record home_endpoint_credential =
  hec_version :: u32
  hec_object_type :: string
  hec_deployment_id :: string
  hec_credential_id :: uuid
  hec_authority_id :: string
  hec_authority_epoch :: u64
  hec_enrollment_request_id :: uuid
  hec_home_id :: string
  hec_management_spki_sha256 :: string
  hec_business_spki_sha256 :: string
  hec_delegated_travel_authorities :: "trusted_travel_authority list"
  hec_issuer_bundle_sha256 :: "string option"
  hec_not_before_unix_secs :: u64
  hec_not_after_unix_secs :: u64

record deployment_trust =
  dt_version :: u32
  dt_deployment_id :: string
  dt_generation :: u64
  dt_not_before_unix_secs :: u64
  dt_not_after_unix_secs :: u64
  dt_management_ca_certificate_pem :: string
  dt_business_ca_certificate_pem :: string
  dt_server_control_keys :: "server_control_key list"
  dt_home_endpoints :: "home_endpoint_trust list"
  dt_home_enrollment_authorities :: "trusted_home_enrollment_authority list"
  dt_travel_authorities :: "trusted_travel_authority list"

record signed_deployment_trust =
  sdt_payload_hex :: string
  sdt_signature_hex :: string

record control_snapshot_payload =
  csp_version :: u32
  csp_object_type :: string
  csp_deployment_id :: string
  csp_server_id :: string
  csp_signer_epoch :: u64
  csp_travel_id :: string
  csp_travel_management_spki_sha256 :: string
  csp_generation :: u64
  csp_issued_at_unix_secs :: u64
  csp_expires_at_unix_secs :: u64
  csp_relay_directory :: relay_directory
  csp_catalog :: catalog

record signed_control_snapshot =
  scs_trust :: signed_deployment_trust
  scs_payload_hex :: string
  scs_signature_hex :: string

record verified_control_snapshot =
  vcs_trust :: deployment_trust
  vcs_trust_digest_sha256 :: string
  vcs_payload :: control_snapshot_payload
  vcs_digest_sha256 :: string

section \<open>Directory and catalog\<close>

definition validate_relay_directory :: "crypto \<Rightarrow> relay_directory \<Rightarrow> unit res" where
  "validate_relay_directory C d =
     rbind (bail_if (rd_generation d = 0 \<or> rd_relays d = []
         \<or> MAX_RELAY_ENDPOINTS < length (rd_relays d)) (Control DirectoryInvalid)) (\<lambda>_.
     for_each_fresh
       (\<lambda>r. re_id r = [] \<or> MAX_ID_BYTES < length (re_id r)
          \<or> re_management_addr r = [] \<or> MAX_DISPLAY_OR_TARGET_BYTES < length (re_management_addr r)
          \<or> re_data_public_addr r = [] \<or> MAX_DISPLAY_OR_TARGET_BYTES < length (re_data_public_addr r))
       (\<lambda>r. {Inl (re_id r), Inr (re_management_addr r)})
       (Control DirectoryEntryInvalid)
       (\<lambda>r. validate_spki_pin C (re_management_spki_sha256 r)) {} (rd_relays d))"

definition validate_catalog_home_services :: "service list \<Rightarrow> unit res" where
  "validate_catalog_home_services services =
     for_each_fresh
       (\<lambda>s. svc_id s = [] \<or> MAX_ID_BYTES < length (svc_id s)
          \<or> svc_alias s = [] \<or> MAX_DISPLAY_OR_TARGET_BYTES < length (svc_alias s)
          \<or> svc_target s = [] \<or> MAX_DISPLAY_OR_TARGET_BYTES < length (svc_target s))
       (\<lambda>s. {(svc_id s, svc_protocol s)}) (Control CatalogServiceInvalid) (\<lambda>_. Ok ()) {} services"

definition validate_catalog :: "catalog \<Rightarrow> unit res" where
  "validate_catalog c =
     rbind (bail_if (MAX_CATALOG_HOMES < length (cat_homes c)) (Control CatalogInvalid)) (\<lambda>_.
     for_each_fresh
       (\<lambda>h. hc_home_id h = [] \<or> MAX_ID_BYTES < length (hc_home_id h)
          \<or> hc_home_alias h = [] \<or> MAX_DISPLAY_OR_TARGET_BYTES < length (hc_home_alias h)
          \<or> MAX_SERVICES_PER_HOME < length (hc_services h))
       (\<lambda>h. {hc_home_id h}) (Control CatalogHomeInvalid)
       (\<lambda>h. validate_catalog_home_services (hc_services h)) {} (cat_homes c))"

section \<open>Deployment trust\<close>

definition validate_single_certificate :: "crypto \<Rightarrow> string \<Rightarrow> unit res" where
  "validate_single_certificate C pem =
     rbind (ok_or (pem_certificates C pem) (Deploy CertificateInvalid)) (\<lambda>n.
     bail_if (n \<noteq> 1) (Deploy CertificateInvalid))"

definition decodes :: "crypto \<Rightarrow> string \<Rightarrow> unit res" where
  "decodes C key = rbind (decode_p256_public_key C key) (\<lambda>_. Ok ())"

definition home_pins_validate :: "crypto \<Rightarrow> home_endpoint_trust \<Rightarrow> unit res" where
  "home_pins_validate C home =
     rbind (bail_if (het_management_spki_pins home = [] \<or> het_business_spki_pins home = [])
         (Deploy HomePinsEmpty)) (\<lambda>_.
     rbind (for_each (validate_spki_pin C) (het_management_spki_pins home)) (\<lambda>_.
     for_each (validate_spki_pin C) (het_business_spki_pins home)))"

definition trust_validate_shape :: "crypto \<Rightarrow> deployment_trust \<Rightarrow> unit res" where
  "trust_validate_shape C t =
     rbind (bail_if (dt_version t \<noteq> DEPLOYMENT_TRUST_VERSION \<or> dt_deployment_id t = []
         \<or> dt_generation t = 0) (Deploy TrustUnsupported)) (\<lambda>_.
     rbind (bail_if (dt_not_after_unix_secs t \<le> dt_not_before_unix_secs t) (Auth ValidityEmpty)) (\<lambda>_.
     rbind (validate_single_certificate C (dt_management_ca_certificate_pem t)) (\<lambda>_.
     rbind (validate_single_certificate C (dt_business_ca_certificate_pem t)) (\<lambda>_.
     rbind (bail_if (dt_server_control_keys t = []) (Deploy NoServerKeys)) (\<lambda>_.
     rbind (for_each_fresh (\<lambda>k. sck_server_id k = [] \<or> sck_epoch k = 0)
         (\<lambda>k. {(sck_server_id k, sck_epoch k)}) (Deploy ServerKeyInvalid)
         (\<lambda>k. decodes C (sck_public_key k)) {} (dt_server_control_keys t)) (\<lambda>_.
     rbind (bail_if (dt_home_endpoints t = []) (Deploy NoHomeEndpoints)) (\<lambda>_.
     rbind (for_each_fresh (\<lambda>h. het_home_id h = []) (\<lambda>h. {het_home_id h})
         (Deploy HomeEndpointInvalid) (home_pins_validate C) {} (dt_home_endpoints t)) (\<lambda>_.
     rbind (for_each_fresh
         (\<lambda>a. hea_id a = [] \<or> hea_epoch a = 0 \<or> hea_issuer_home_id a = []
            \<or> hea_issuer_home_id a \<notin> het_home_id ` set (dt_home_endpoints t))
         (\<lambda>a. {(hea_id a, hea_epoch a)}) (Deploy HomeAuthorityInvalid)
         (\<lambda>a. decodes C (hea_public_key a)) {} (dt_home_enrollment_authorities t)) (\<lambda>_.
     rbind (validate_trusted_authorities C (dt_travel_authorities t)) (\<lambda>_.
     for_each (\<lambda>a. bail_if (case authority_home_id a of None \<Rightarrow> True
           | Some h \<Rightarrow> h \<notin> het_home_id ` set (dt_home_endpoints t)) (Deploy AuthorityOwnerAbsent))
       (dt_travel_authorities t)))))))))))"

definition trust_validate_at :: "crypto \<Rightarrow> deployment_trust \<Rightarrow> u64 \<Rightarrow> unit res" where
  "trust_validate_at C t now =
     rbind (trust_validate_shape C t) (\<lambda>_.
     rbind (bail_if (sat_add now MAX_CLOCK_SKEW_SECS < dt_not_before_unix_secs t)
         (Deploy NotYetValid)) (\<lambda>_.
     bail_if (dt_not_after_unix_secs t \<le> now) (Deploy Expired)))"

definition trust_payload_digest :: "crypto \<Rightarrow> signed_deployment_trust \<Rightarrow> string res" where
  "trust_payload_digest C s =
     rbind (ok_or (hex_decode C (sdt_payload_hex s)) (Auth NotHexadecimal)) (\<lambda>payload.
     Ok (hex_encode C (sha256_digest C payload)))"

definition trust_sign :: "crypto \<Rightarrow> deployment_trust json \<Rightarrow> deployment_trust \<Rightarrow> bytes \<Rightarrow> bytes
    \<Rightarrow> signed_deployment_trust res" where
  "trust_sign C J payload root_key rnd =
     rbind (trust_validate_shape C payload) (\<lambda>_.
     rbind (ok_or (to_vec J payload) (Auth EncodeFailed)) (\<lambda>bytes.
     rbind (ok_or (ecdsa_sign C root_key rnd bytes) (Control SigningFailed)) (\<lambda>signature.
     Ok \<lparr>sdt_payload_hex = hex_encode C bytes, sdt_signature_hex = hex_encode C signature\<rparr>)))"

definition trust_verify :: "crypto \<Rightarrow> deployment_trust json \<Rightarrow> signed_deployment_trust \<Rightarrow> string
    \<Rightarrow> u64 \<Rightarrow> deployment_trust res" where
  "trust_verify C J s root_public_key now =
     rbind (decode_p256_public_key C root_public_key) (\<lambda>root.
     rbind (ok_or (hex_decode C (sdt_payload_hex s)) (Auth NotHexadecimal)) (\<lambda>payload.
     rbind (ok_or (hex_decode C (sdt_signature_hex s)) (Auth NotHexadecimal)) (\<lambda>signature.
     rbind (bail_if (\<not> ecdsa_verify C root payload signature) (Auth BadSignature)) (\<lambda>_.
     rbind (ok_or (from_slice J payload) (Auth BadPayload)) (\<lambda>trust.
     rbind (trust_validate_at C trust now) (\<lambda>_. Ok trust))))))"

section \<open>Lookups in the trust document\<close>

definition server_control_key_of :: "deployment_trust \<Rightarrow> string \<Rightarrow> u64 \<Rightarrow> string res" where
  "server_control_key_of t server_id epoch =
     ok_or (map_option sck_public_key (List.find (\<lambda>k. sck_server_id k = server_id \<and> sck_epoch k = epoch)
       (dt_server_control_keys t))) (Deploy NoSuchServerKey)"

definition travel_authority :: "deployment_trust \<Rightarrow> string \<Rightarrow> u64 \<Rightarrow> trusted_travel_authority res" where
  "travel_authority t i epoch =
     ok_or (List.find (\<lambda>a. authority_id a = i \<and> authority_epoch a = epoch) (dt_travel_authorities t))
       (Deploy NoSuchTravelAuthority)"

definition travel_authority_by_id :: "deployment_trust \<Rightarrow> string \<Rightarrow> trusted_travel_authority res" where
  "travel_authority_by_id t i =
     ok_or (List.find (\<lambda>a. authority_id a = i) (dt_travel_authorities t)) (Deploy NoSuchTravelAuthority)"

definition home_endpoint :: "deployment_trust \<Rightarrow> string \<Rightarrow> home_endpoint_trust res" where
  "home_endpoint t home_id =
     ok_or (List.find (\<lambda>h. het_home_id h = home_id) (dt_home_endpoints t)) (Deploy NoSuchHomeEndpoint)"

definition home_enrollment_authority :: "deployment_trust \<Rightarrow> string \<Rightarrow> u64
    \<Rightarrow> trusted_home_enrollment_authority res" where
  "home_enrollment_authority t i epoch =
     ok_or (List.find (\<lambda>a. hea_id a = i \<and> hea_epoch a = epoch) (dt_home_enrollment_authorities t))
       (Deploy NoSuchHomeAuthority)"

section \<open>Home endpoint credentials\<close>

definition endpoint_validate_shape :: "crypto \<Rightarrow> home_endpoint_credential \<Rightarrow> unit res" where
  "endpoint_validate_shape C e =
     rbind (bail_if (hec_version e \<noteq> HOME_ENDPOINT_CREDENTIAL_VERSION
         \<or> hec_object_type e \<noteq> HOME_ENDPOINT_CREDENTIAL_OBJECT_TYPE
         \<or> hec_deployment_id e = [] \<or> hec_credential_id e = uuid_nil \<or> hec_authority_id e = []
         \<or> hec_authority_epoch e = 0 \<or> hec_enrollment_request_id e = uuid_nil
         \<or> hec_home_id e = [] \<or> MAX_ID_BYTES < length (hec_home_id e)
         \<or> hec_not_after_unix_secs e \<le> hec_not_before_unix_secs e) (Deploy EndpointUnsupported)) (\<lambda>_.
     rbind (validate_spki_pin C (hec_management_spki_sha256 e)) (\<lambda>_.
     rbind (validate_spki_pin C (hec_business_spki_sha256 e)) (\<lambda>_.
     rbind (bail_if (2 < length (hec_delegated_travel_authorities e)) (Deploy TooManyDelegations)) (\<lambda>_.
     rbind (if hec_delegated_travel_authorities e = [] then Ok ()
       else rbind (validate_trusted_authorities C (hec_delegated_travel_authorities e)) (\<lambda>_.
         for_each (\<lambda>a. bail_if (authority_home_id a \<noteq> Some (hec_home_id e)) (Deploy DelegationOtherHome))
           (hec_delegated_travel_authorities e))) (\<lambda>_.
     (case hec_issuer_bundle_sha256 e of
        Some d \<Rightarrow> validate_spki_pin C d
      | None \<Rightarrow> bail_if (hec_delegated_travel_authorities e \<noteq> []) (Deploy DelegationNeedsBundle)))))))"

definition endpoint_validate_trust_binding :: "crypto \<Rightarrow> home_endpoint_credential \<Rightarrow> deployment_trust
    \<Rightarrow> unit res" where
  "endpoint_validate_trust_binding C e t =
     rbind (endpoint_validate_shape C e) (\<lambda>_.
     rbind (bail_if (hec_deployment_id e \<noteq> dt_deployment_id t) (Auth OtherDeployment)) (\<lambda>_.
     bail_if (hec_not_before_unix_secs e < dt_not_before_unix_secs t
       \<or> dt_not_after_unix_secs t < hec_not_after_unix_secs e) (Deploy OutsideTrustValidity)))"

definition endpoint_validate_time :: "home_endpoint_credential \<Rightarrow> u64 \<Rightarrow> unit res" where
  "endpoint_validate_time e now =
     rbind (bail_if (sat_add now MAX_CLOCK_SKEW_SECS < hec_not_before_unix_secs e)
         (Deploy NotYetValid)) (\<lambda>_.
     bail_if (hec_not_after_unix_secs e \<le> now) (Deploy Expired))"

definition endpoint_sign :: "crypto \<Rightarrow> home_endpoint_credential json \<Rightarrow> home_endpoint_credential
    \<Rightarrow> bytes \<Rightarrow> bytes \<Rightarrow> signed_home_endpoint_credential res" where
  "endpoint_sign C J e key rnd =
     rbind (endpoint_validate_shape C e) (\<lambda>_.
     rbind (ok_or (to_vec J e) (Auth EncodeFailed)) (\<lambda>bytes.
     rbind (ok_or (ecdsa_sign C key rnd bytes) (Control SigningFailed)) (\<lambda>signature.
     Ok \<lparr>she_authority_id = hec_authority_id e, she_payload_hex = hex_encode C bytes,
         she_signature_hex = hex_encode C signature\<rparr>)))"

definition endpoint_verify_trust_binding :: "crypto \<Rightarrow> home_endpoint_credential json
    \<Rightarrow> signed_home_endpoint_credential \<Rightarrow> deployment_trust \<Rightarrow> home_endpoint_credential res" where
  "endpoint_verify_trust_binding C J s t =
     rbind (ok_or (hex_decode C (she_payload_hex s)) (Auth NotHexadecimal)) (\<lambda>payload_bytes.
     rbind (bail_if (16 * 1024 < length payload_bytes) (Deploy PayloadTooLarge)) (\<lambda>_.
     rbind (ok_or (from_slice J payload_bytes) (Auth BadPayload)) (\<lambda>payload.
     rbind (endpoint_validate_trust_binding C payload t) (\<lambda>_.
     rbind (bail_if (she_authority_id s \<noteq> hec_authority_id payload) (Auth PayloadAuthorityMismatch)) (\<lambda>_.
     rbind (home_enrollment_authority t (hec_authority_id payload) (hec_authority_epoch payload)) (\<lambda>authority.
     rbind (decode_p256_public_key C (hea_public_key authority)) (\<lambda>key.
     rbind (ok_or (hex_decode C (she_signature_hex s)) (Auth NotHexadecimal)) (\<lambda>signature.
     rbind (bail_if (\<not> ecdsa_verify C key payload_bytes signature) (Auth BadSignature)) (\<lambda>_.
     Ok payload)))))))))"

definition endpoint_verify :: "crypto \<Rightarrow> home_endpoint_credential json
    \<Rightarrow> signed_home_endpoint_credential \<Rightarrow> deployment_trust \<Rightarrow> u64 \<Rightarrow> home_endpoint_credential res" where
  "endpoint_verify C J s t now =
     rbind (endpoint_verify_trust_binding C J s t) (\<lambda>payload.
     rbind (endpoint_validate_time payload now) (\<lambda>_. Ok payload))"

definition resolve_home_endpoint :: "crypto \<Rightarrow> home_endpoint_credential json \<Rightarrow> deployment_trust
    \<Rightarrow> string \<Rightarrow> signed_home_endpoint_credential option \<Rightarrow> u64 \<Rightarrow> home_endpoint_trust res" where
  "resolve_home_endpoint C J t home_id credential now =
     (case credential of
        Some s \<Rightarrow>
          rbind (endpoint_verify C J s t now) (\<lambda>verified.
          rbind (bail_if (hec_home_id verified \<noteq> home_id) (Deploy EndpointOtherHome)) (\<lambda>_.
          Ok \<lparr>het_home_id = hec_home_id verified,
              het_management_spki_pins = [hec_management_spki_sha256 verified],
              het_business_spki_pins = [hec_business_spki_sha256 verified]\<rparr>))
      | None \<Rightarrow> home_endpoint t home_id)"

fun add_delegated :: "string set \<times> trusted_travel_authority list \<Rightarrow> trusted_travel_authority list
    \<Rightarrow> (string set \<times> trusted_travel_authority list) res" where
  "add_delegated acc [] = Ok acc"
| "add_delegated (ids, auths) (a # as) =
     (if authority_id a \<in> ids then Err (Auth DuplicateAuthority)
      else add_delegated (insert (authority_id a) ids, auths @ [a]) as)"

fun add_delegations :: "crypto \<Rightarrow> home_endpoint_credential json \<Rightarrow> deployment_trust
    \<Rightarrow> string set \<times> trusted_travel_authority list \<Rightarrow> signed_home_endpoint_credential list
    \<Rightarrow> (string set \<times> trusted_travel_authority list) res" where
  "add_delegations C J t acc [] = Ok acc"
| "add_delegations C J t acc (s # ss) =
     rbind (endpoint_verify_trust_binding C J s t) (\<lambda>endpoint.
     rbind (add_delegated acc (hec_delegated_travel_authorities endpoint)) (\<lambda>acc'.
     add_delegations C J t acc' ss))"

definition travel_authorities_with_home_delegations :: "crypto \<Rightarrow> home_endpoint_credential json
    \<Rightarrow> deployment_trust \<Rightarrow> signed_home_endpoint_credential list \<Rightarrow> trusted_travel_authority list res" where
  "travel_authorities_with_home_delegations C J t credentials =
     rbind (add_delegations C J t (authority_id ` set (dt_travel_authorities t), dt_travel_authorities t)
         credentials) (\<lambda>(ids, auths).
     rbind (validate_trusted_authorities C auths) (\<lambda>_. Ok auths))"

section \<open>Control snapshots\<close>

definition control_validate_at :: "crypto \<Rightarrow> control_snapshot_payload \<Rightarrow> u64 \<Rightarrow> unit res" where
  "control_validate_at C p now =
     rbind (bail_if (csp_version p \<noteq> CONTROL_SNAPSHOT_VERSION
         \<or> csp_object_type p \<noteq> CONTROL_SNAPSHOT_OBJECT_TYPE
         \<or> csp_deployment_id p = [] \<or> csp_server_id p = [] \<or> csp_signer_epoch p = 0
         \<or> csp_travel_id p = [] \<or> csp_generation p = 0) (Control SnapshotUnsupported)) (\<lambda>_.
     rbind (validate_spki_pin C (csp_travel_management_spki_sha256 p)) (\<lambda>_.
     rbind (bail_if (csp_expires_at_unix_secs p \<le> csp_issued_at_unix_secs p) (Auth ValidityEmpty)) (\<lambda>_.
     rbind (bail_if (MAX_CONTROL_SNAPSHOT_TTL_SECS
         < sat_sub (csp_expires_at_unix_secs p) (csp_issued_at_unix_secs p)) (Control SnapshotTtl)) (\<lambda>_.
     rbind (bail_if (sat_add now MAX_CLOCK_SKEW_SECS < csp_issued_at_unix_secs p)
         (Control SnapshotFuture)) (\<lambda>_.
     rbind (bail_if (csp_expires_at_unix_secs p \<le> now) (Deploy Expired)) (\<lambda>_.
     rbind (validate_relay_directory C (csp_relay_directory p)) (\<lambda>_.
     validate_catalog (csp_catalog p))))))))"

definition control_sign :: "crypto \<Rightarrow> control_snapshot_payload json \<Rightarrow> signed_deployment_trust
    \<Rightarrow> deployment_trust \<Rightarrow> control_snapshot_payload \<Rightarrow> bytes \<Rightarrow> bytes \<Rightarrow> signed_control_snapshot res" where
  "control_sign C J trust verified_trust p server_key rnd =
     rbind (control_validate_at C p (csp_issued_at_unix_secs p)) (\<lambda>_.
     rbind (bail_if (csp_deployment_id p \<noteq> dt_deployment_id verified_trust) (Auth OtherDeployment)) (\<lambda>_.
     rbind (server_control_key_of verified_trust (csp_server_id p) (csp_signer_epoch p)) (\<lambda>expected.
     rbind (bail_if (\<not> eq_ignore_ascii_case (hex_encode C (ecdsa_public C server_key)) expected)
         (Control KeyNotCertified)) (\<lambda>_.
     rbind (ok_or (to_vec J p) (Auth EncodeFailed)) (\<lambda>bytes.
     rbind (bail_if (MAX_CONTROL_SNAPSHOT_PAYLOAD_BYTES < length bytes) (Deploy PayloadTooLarge)) (\<lambda>_.
     rbind (ok_or (ecdsa_sign C server_key rnd bytes) (Control SigningFailed)) (\<lambda>signature.
     Ok \<lparr>scs_trust = trust, scs_payload_hex = hex_encode C bytes,
         scs_signature_hex = hex_encode C signature\<rparr>)))))))"

definition control_verify :: "crypto \<Rightarrow> deployment_trust json \<Rightarrow> control_snapshot_payload json
    \<Rightarrow> signed_control_snapshot \<Rightarrow> string \<Rightarrow> u64 \<Rightarrow> verified_control_snapshot res" where
  "control_verify C JT J s root_public_key now =
     rbind (trust_verify C JT (scs_trust s) root_public_key now) (\<lambda>trust.
     rbind (ok_or (hex_decode C (scs_payload_hex s)) (Auth NotHexadecimal)) (\<lambda>payload_bytes.
     rbind (bail_if (MAX_CONTROL_SNAPSHOT_PAYLOAD_BYTES < length payload_bytes) (Deploy PayloadTooLarge)) (\<lambda>_.
     rbind (ok_or (from_slice J payload_bytes) (Auth BadPayload)) (\<lambda>payload.
     rbind (control_validate_at C payload now) (\<lambda>_.
     rbind (bail_if (csp_deployment_id payload \<noteq> dt_deployment_id trust) (Auth OtherDeployment)) (\<lambda>_.
     rbind (server_control_key_of trust (csp_server_id payload) (csp_signer_epoch payload)) (\<lambda>key_hex.
     rbind (decode_p256_public_key C key_hex) (\<lambda>key.
     rbind (ok_or (hex_decode C (scs_signature_hex s)) (Auth NotHexadecimal)) (\<lambda>signature.
     rbind (bail_if (\<not> ecdsa_verify C key payload_bytes signature) (Auth BadSignature)) (\<lambda>_.
     rbind (trust_payload_digest C (scs_trust s)) (\<lambda>trust_digest.
     Ok \<lparr>vcs_trust = trust, vcs_trust_digest_sha256 = trust_digest, vcs_payload = payload,
         vcs_digest_sha256 = hex_encode C (sha256_digest C payload_bytes)\<rparr>)))))))))))"

definition verify_at_issuance_for_migration :: "crypto \<Rightarrow> deployment_trust json
    \<Rightarrow> control_snapshot_payload json \<Rightarrow> signed_control_snapshot \<Rightarrow> string
    \<Rightarrow> verified_control_snapshot res" where
  "verify_at_issuance_for_migration C JT J s root_public_key =
     rbind (ok_or (hex_decode C (scs_payload_hex s)) (Auth NotHexadecimal)) (\<lambda>payload_bytes.
     rbind (bail_if (MAX_CONTROL_SNAPSHOT_PAYLOAD_BYTES < length payload_bytes) (Deploy PayloadTooLarge)) (\<lambda>_.
     rbind (ok_or (from_slice J payload_bytes) (Auth BadPayload)) (\<lambda>payload.
     control_verify C JT J s root_public_key (csp_issued_at_unix_secs payload))))"

section \<open>What the checks establish\<close>

lemma trust_verifyD:
  assumes "trust_verify C J s root now = Ok t"
  shows "trust_validate_shape C t = Ok ()"
    "dt_not_before_unix_secs t \<le> sat_add now MAX_CLOCK_SKEW_SECS" "now < dt_not_after_unix_secs t"
    "\<exists>key payload sig. hex_decode C root = Some key \<and> hex_decode C (sdt_payload_hex s) = Some payload
       \<and> hex_decode C (sdt_signature_hex s) = Some sig \<and> ecdsa_verify C key payload sig
       \<and> from_slice J payload = Some t"
  using assms by (auto simp: trust_verify_def trust_validate_at_def decode_p256_Ok not_less not_le)

lemma trust_shapeD:
  assumes "trust_validate_shape C t = Ok ()"
  shows "distinct (map (\<lambda>k. (sck_server_id k, sck_epoch k)) (dt_server_control_keys t))"
    "\<And>k. k \<in> set (dt_server_control_keys t) \<Longrightarrow> \<exists>b. decode_p256_public_key C (sck_public_key k) = Ok b"
    "distinct (map het_home_id (dt_home_endpoints t))"
    "distinct (map (\<lambda>a. (hea_id a, hea_epoch a)) (dt_home_enrollment_authorities t))"
    "\<And>a. a \<in> set (dt_home_enrollment_authorities t) \<Longrightarrow> \<exists>b. decode_p256_public_key C (hea_public_key a) = Ok b"
    "validate_trusted_authorities C (dt_travel_authorities t) = Ok ()"
    "dt_generation t \<noteq> 0" "dt_deployment_id t \<noteq> []"
    "\<And>a. a \<in> set (dt_travel_authorities t) \<Longrightarrow>
       ta_home_id_field (authority_fields a) \<in> het_home_id ` set (dt_home_endpoints t)"
  using assms by (simp_all add: trust_validate_shape_def decodes_def authority_home_id_def)

lemma find_unique:
  assumes "distinct (map k xs)" "x \<in> set xs"
  shows "List.find (\<lambda>y. k y = k x) xs = Some x"
  using assms by (induction xs) (auto simp: image_iff)

lemma server_control_key_ofD:
  assumes "trust_validate_shape C t = Ok ()" and "server_control_key_of t i e = Ok key_hex"
  shows "\<exists>k \<in> set (dt_server_control_keys t). sck_server_id k = i \<and> sck_epoch k = e
     \<and> sck_public_key k = key_hex \<and> (\<exists>b. decode_p256_public_key C key_hex = Ok b)"
  using assms(2) trust_shapeD(2) [OF assms(1)]
  by (auto simp: server_control_key_of_def dest!: find_SomeD)

lemma server_control_key_unique:
  assumes "trust_validate_shape C t = Ok ()" "k \<in> set (dt_server_control_keys t)"
  shows "server_control_key_of t (sck_server_id k) (sck_epoch k) = Ok (sck_public_key k)"
  using find_unique [OF trust_shapeD(1) [OF assms(1)] assms(2)] by (simp add: server_control_key_of_def)

lemma sat_add_le_nat: "a \<le> sat_add b c \<Longrightarrow> unat a \<le> unat b + unat c"
  by (simp add: word_le_nat_alt unat_sat_add)

lemma control_validate_window:
  assumes "control_validate_at C p t0 = Ok ()"
    and "csp_issued_at_unix_secs p \<le> sat_add now MAX_CLOCK_SKEW_SECS"
    and "now < csp_expires_at_unix_secs p"
  shows "control_validate_at C p now = Ok ()"
  using assms by (simp add: control_validate_at_def not_less not_le)

lemma control_validateD:
  assumes "control_validate_at C p now = Ok ()"
  shows "csp_issued_at_unix_secs p < csp_expires_at_unix_secs p"
    "unat (csp_expires_at_unix_secs p) \<le> unat (csp_issued_at_unix_secs p) + 300"
    "unat (csp_issued_at_unix_secs p) \<le> unat now + 300" "now < csp_expires_at_unix_secs p"
    "csp_generation p \<noteq> 0" "csp_signer_epoch p \<noteq> 0"
    "validate_relay_directory C (csp_relay_directory p) = Ok ()" "validate_catalog (csp_catalog p) = Ok ()"
proof -
  have ie: "csp_issued_at_unix_secs p < csp_expires_at_unix_secs p"
    and ttl: "sat_sub (csp_expires_at_unix_secs p) (csp_issued_at_unix_secs p) \<le> MAX_CONTROL_SNAPSHOT_TTL_SECS"
    and fut: "csp_issued_at_unix_secs p \<le> sat_add now MAX_CLOCK_SKEW_SECS"
    using assms by (simp_all add: control_validate_at_def not_less not_le)
  show "csp_issued_at_unix_secs p < csp_expires_at_unix_secs p" by (rule ie)
  have "unat (csp_expires_at_unix_secs p) - unat (csp_issued_at_unix_secs p) \<le> 300"
    using ttl unfolding word_le_nat_alt unat_sat_sub by (simp add: MAX_CONTROL_SNAPSHOT_TTL_SECS_def)
  then show "unat (csp_expires_at_unix_secs p) \<le> unat (csp_issued_at_unix_secs p) + 300"
    by simp
  show "unat (csp_issued_at_unix_secs p) \<le> unat now + 300"
    using sat_add_le_nat [OF fut] by (simp add: MAX_CLOCK_SKEW_SECS_def)
qed (use assms in \<open>simp_all add: control_validate_at_def not_le\<close>)

lemma directory_distinct:
  assumes "validate_relay_directory C d = Ok ()"
  shows "distinct (map re_id (rd_relays d))" "distinct (map re_management_addr (rd_relays d))"
    "rd_relays d \<noteq> []" "length (rd_relays d) \<le> 64"
proof -
  have "sorted_wrt (\<lambda>x y. {Inl (re_id x), Inr (re_management_addr x)}
      \<inter> {Inl (re_id y), Inr (re_management_addr y)} = {}) (rd_relays d)"
    using assms by (simp add: validate_relay_directory_def for_each_fresh_Ok)
  then have "distinct (map re_id xs) \<and> distinct (map re_management_addr xs)" if "xs = rd_relays d" for xs
    unfolding that [symmetric] by (induction xs) auto
  then show "distinct (map re_id (rd_relays d))" "distinct (map re_management_addr (rd_relays d))"
    by simp_all
qed (use assms in \<open>simp_all add: validate_relay_directory_def MAX_RELAY_ENDPOINTS_def\<close>)

lemma catalog_distinct:
  assumes "validate_catalog c = Ok ()"
  shows "distinct (map hc_home_id (cat_homes c))"
    "\<And>h. h \<in> set (cat_homes c) \<Longrightarrow> distinct (map (\<lambda>s. (svc_id s, svc_protocol s)) (hc_services h))"
  using assms by (simp_all add: validate_catalog_def validate_catalog_home_services_def)

lemma control_verifyD:
  assumes "control_verify C JT J s root now = Ok v"
  shows "trust_verify C JT (scs_trust s) root now = Ok (vcs_trust v)"
    "control_validate_at C (vcs_payload v) now = Ok ()"
    "csp_deployment_id (vcs_payload v) = dt_deployment_id (vcs_trust v)"
    "\<exists>key_hex key bytes sig. server_control_key_of (vcs_trust v) (csp_server_id (vcs_payload v))
         (csp_signer_epoch (vcs_payload v)) = Ok key_hex
       \<and> hex_decode C key_hex = Some key \<and> hex_decode C (scs_payload_hex s) = Some bytes
       \<and> hex_decode C (scs_signature_hex s) = Some sig \<and> ecdsa_verify C key bytes sig
       \<and> from_slice J bytes = Some (vcs_payload v)
       \<and> vcs_digest_sha256 v = hex_encode C (sha256_digest C bytes)"
    "trust_payload_digest C (scs_trust s) = Ok (vcs_trust_digest_sha256 v)"
  using assms by (auto simp: control_verify_def decode_p256_Ok)

subsection \<open>Endpoint credentials and delegations\<close>

lemma endpoint_bindingD:
  assumes "endpoint_verify_trust_binding C J s t = Ok e"
  shows "endpoint_validate_shape C e = Ok ()" "hec_deployment_id e = dt_deployment_id t"
    "dt_not_before_unix_secs t \<le> hec_not_before_unix_secs e"
    "hec_not_after_unix_secs e \<le> dt_not_after_unix_secs t"
    "\<exists>a \<in> set (dt_home_enrollment_authorities t). hea_id a = hec_authority_id e
       \<and> hea_epoch a = hec_authority_epoch e
       \<and> (\<exists>key bytes sig. hex_decode C (hea_public_key a) = Some key
            \<and> hex_decode C (she_payload_hex s) = Some bytes
            \<and> hex_decode C (she_signature_hex s) = Some sig \<and> ecdsa_verify C key bytes sig
            \<and> from_slice J bytes = Some e)"
proof -
  from assms obtain a where a: "home_enrollment_authority t (hec_authority_id e) (hec_authority_epoch e) = Ok a"
    and rest: "\<exists>key bytes sig. hex_decode C (hea_public_key a) = Some key
            \<and> hex_decode C (she_payload_hex s) = Some bytes
            \<and> hex_decode C (she_signature_hex s) = Some sig \<and> ecdsa_verify C key bytes sig
            \<and> from_slice J bytes = Some e"
    by (auto simp: endpoint_verify_trust_binding_def decode_p256_Ok)
  from a have "a \<in> set (dt_home_enrollment_authorities t)" "hea_id a = hec_authority_id e"
    "hea_epoch a = hec_authority_epoch e"
    by (auto simp: home_enrollment_authority_def dest!: find_SomeD)
  with rest show "\<exists>a \<in> set (dt_home_enrollment_authorities t). hea_id a = hec_authority_id e
       \<and> hea_epoch a = hec_authority_epoch e
       \<and> (\<exists>key bytes sig. hex_decode C (hea_public_key a) = Some key
            \<and> hex_decode C (she_payload_hex s) = Some bytes
            \<and> hex_decode C (she_signature_hex s) = Some sig \<and> ecdsa_verify C key bytes sig
            \<and> from_slice J bytes = Some e)"
    by blast
qed (use assms in \<open>auto simp: endpoint_verify_trust_binding_def endpoint_validate_trust_binding_def
       not_less\<close>)

lemma endpoint_shape_delegations:
  assumes "endpoint_validate_shape C e = Ok ()" "a \<in> set (hec_delegated_travel_authorities e)"
  shows "authority_home_id a = Some (hec_home_id e)"
  using assms by (auto simp: endpoint_validate_shape_def split: if_splits option.splits)

lemma add_delegated_Ok:
  "add_delegated (ids, auths) as = Ok (ids', auths') \<longleftrightarrow>
     distinct (map authority_id as) \<and> authority_id ` set as \<inter> ids = {}
     \<and> ids' = ids \<union> authority_id ` set as \<and> auths' = auths @ as"
  by (induction as arbitrary: ids auths) auto

definition delegations_of :: "crypto \<Rightarrow> home_endpoint_credential json \<Rightarrow> deployment_trust
    \<Rightarrow> signed_home_endpoint_credential list \<Rightarrow> trusted_travel_authority list" where
  "delegations_of C J t ss = concat (map (\<lambda>s. case endpoint_verify_trust_binding C J s t of
     Ok e \<Rightarrow> hec_delegated_travel_authorities e | Err _ \<Rightarrow> []) ss)"

lemma add_delegations_Ok:
  assumes "add_delegations C J t (ids, auths) ss = Ok (ids', auths')"
  shows "auths' = auths @ delegations_of C J t ss
     \<and> (\<forall>s \<in> set ss. is_ok (endpoint_verify_trust_binding C J s t))"
  using assms
proof (induction ss arbitrary: ids auths)
  case Nil
  then show ?case by (simp add: delegations_of_def)
next
  case (Cons s ss)
  then obtain e acc where e: "endpoint_verify_trust_binding C J s t = Ok e"
    and d: "add_delegated (ids, auths) (hec_delegated_travel_authorities e) = Ok acc"
    and r: "add_delegations C J t acc ss = Ok (ids', auths')"
    by auto
  obtain i a where acc: "acc = (i, a)" by (cases acc)
  have a: "a = auths @ hec_delegated_travel_authorities e"
    using d by (simp add: acc add_delegated_Ok)
  show ?case
    using Cons.IH [OF r [unfolded acc]] e by (simp add: a delegations_of_def)
qed

lemma delegations_Ok:
  assumes "travel_authorities_with_home_delegations C J t ss = Ok auths"
  shows "auths = dt_travel_authorities t @ delegations_of C J t ss"
    "\<And>s. s \<in> set ss \<Longrightarrow> \<exists>e. endpoint_verify_trust_binding C J s t = Ok e"
    "distinct (map authority_id auths)" "validate_trusted_authorities C auths = Ok ()"
  using assms
  by (auto simp: travel_authorities_with_home_delegations_def validate_trusted_authorities_Ok is_ok_iff
      dest!: add_delegations_Ok)

section \<open>Evaluation on a concrete deployment\<close>

definition sample_global :: trusted_travel_authority where
  "sample_global = AuthorityGlobal \<lparr>ta_id_field = ''global'', ta_epoch_field = 1,
     ta_home_id_field = ''home-1'', ta_public_key_field = sample_key 4\<rparr>"

definition sample_trust :: deployment_trust where
  "sample_trust = \<lparr>dt_version = 1, dt_deployment_id = ''dep'', dt_generation = 4,
     dt_not_before_unix_secs = 50, dt_not_after_unix_secs = 9000,
     dt_management_ca_certificate_pem = ''m'', dt_business_ca_certificate_pem = ''b'',
     dt_server_control_keys = [\<lparr>sck_server_id = ''srv'', sck_epoch = 2, sck_public_key = sample_key 9\<rparr>],
     dt_home_endpoints = [\<lparr>het_home_id = ''home-1'', het_management_spki_pins = [sample_pin CHR ''1''],
        het_business_spki_pins = [sample_pin CHR ''2'']\<rparr>],
     dt_home_enrollment_authorities = [\<lparr>hea_id = ''enroll'', hea_epoch = 1,
        hea_issuer_home_id = ''home-1'', hea_public_key = sample_key 8\<rparr>],
     dt_travel_authorities = [sample_authority 5, sample_global]\<rparr>"

definition sample_signed_trust :: signed_deployment_trust where
  "sample_signed_trust = \<lparr>sdt_payload_hex = tohex [7], sdt_signature_hex = tohex [10]\<rparr>"

definition sample_payload :: control_snapshot_payload where
  "sample_payload = \<lparr>csp_version = 1, csp_object_type = ''flowsplice.control_snapshot'',
     csp_deployment_id = ''dep'', csp_server_id = ''srv'', csp_signer_epoch = 2,
     csp_travel_id = ''phone'', csp_travel_management_spki_sha256 = sample_pin CHR ''4'',
     csp_generation = 6, csp_issued_at_unix_secs = 1000, csp_expires_at_unix_secs = 1200,
     csp_relay_directory = \<lparr>rd_generation = 1, rd_relays = [\<lparr>re_id = ''r1'', re_management_addr = ''a:1'',
        re_data_public_addr = ''a:2'', re_management_spki_sha256 = sample_pin CHR ''3''\<rparr>]\<rparr>,
     csp_catalog = \<lparr>cat_generation = 1, cat_homes = []\<rparr>\<rparr>"

definition sample_control :: signed_control_snapshot where
  "sample_control = \<lparr>scs_trust = sample_signed_trust, scs_payload_hex = tohex [7],
     scs_signature_hex = tohex [16]\<rparr>"

lemmas deployment_consts = DEPLOYMENT_TRUST_VERSION_def CONTROL_SNAPSHOT_VERSION_def
  CONTROL_SNAPSHOT_OBJECT_TYPE_def MAX_CLOCK_SKEW_SECS_def MAX_CONTROL_SNAPSHOT_TTL_SECS_def
  MAX_RELAY_ENDPOINTS_def MAX_CATALOG_HOMES_def MAX_SERVICES_PER_HOME_def MAX_ID_BYTES_def
  MAX_DISPLAY_OR_TARGET_BYTES_def MAX_CONTROL_SNAPSHOT_PAYLOAD_BYTES_def
  HOME_ENDPOINT_CREDENTIAL_VERSION_def HOME_ENDPOINT_CREDENTIAL_OBJECT_TYPE_def

lemmas authority_defs = authority_id_def authority_public_key_def authority_epoch_def
  authority_home_id_def

lemma sample_authorities_valid:
  "validate_trusted_authorities sample_crypto [sample_authority 5, sample_global] = Ok ()"
  by (simp add: validate_trusted_authorities_Ok authority_validate_def sample_authority_def
      sample_global_def authority_defs)

lemma sample_trust_shape: "trust_validate_shape sample_crypto sample_trust = Ok ()"
  using sample_authorities_valid
  by (simp add: trust_validate_shape_def sample_trust_def deployment_consts validate_single_certificate_def
      decodes_def home_pins_validate_def digit_val_def authority_home_id_def)
    (simp add: sample_authority_def sample_global_def)

lemma sample_trust_verifies:
  assumes "50 \<le> now" "now < 9000"
  shows "trust_verify sample_crypto (one_json sample_trust) sample_signed_trust (sample_key 3) now
     = Ok sample_trust"
proof -
  have "50 \<le> sat_add now 300"
    using assms(1) sat_add_ge [of now 300] by (rule order_trans)
  then have "trust_validate_at sample_crypto sample_trust now = Ok ()"
    using assms by (simp add: trust_validate_at_def sample_trust_shape)
      (simp add: sample_trust_def MAX_CLOCK_SKEW_SECS_def not_less not_le)
  then show ?thesis
    by (simp add: trust_verify_def sample_signed_trust_def unhex_tohex)
qed

lemma sample_payload_valid: "control_validate_at sample_crypto sample_payload 1000 = Ok ()"
  by (simp add: control_validate_at_def sample_payload_def deployment_consts digit_val_def eval_simps
      validate_relay_directory_def validate_catalog_def for_each_fresh_Ok)

lemma sample_control_signed:
  "control_sign sample_crypto (one_json sample_payload) sample_signed_trust sample_trust sample_payload
     [9] [] = Ok sample_control"
proof -
  have "control_validate_at sample_crypto sample_payload (csp_issued_at_unix_secs sample_payload) = Ok ()"
    using sample_payload_valid by (simp add: sample_payload_def)
  moreover have "server_control_key_of sample_trust (csp_server_id sample_payload)
      (csp_signer_epoch sample_payload) = Ok (sample_key 9)"
    by (simp add: server_control_key_of_def sample_trust_def sample_payload_def)
  moreover have "csp_deployment_id sample_payload = dt_deployment_id sample_trust"
    by (simp add: sample_trust_def sample_payload_def)
  ultimately show ?thesis
    by (simp add: control_sign_def sample_control_def MAX_CONTROL_SNAPSHOT_PAYLOAD_BYTES_def bail_if_def
        sample_key_def [of 9, simplified])
qed

lemma sample_control_verifies:
  "\<exists>v. control_verify sample_crypto (one_json sample_trust) (one_json sample_payload) sample_control
      (sample_key 3) 1100 = Ok v \<and> vcs_payload v = sample_payload"
proof -
  have t: "trust_verify sample_crypto (one_json sample_trust) sample_signed_trust (sample_key 3) 1100
      = Ok sample_trust"
    by (rule sample_trust_verifies) simp_all
  have v: "control_validate_at sample_crypto sample_payload 1100 = Ok ()"
    by (rule control_validate_window [OF sample_payload_valid])
      (simp_all add: sample_payload_def eval_simps MAX_CLOCK_SKEW_SECS_def)
  have "server_control_key_of sample_trust (csp_server_id sample_payload)
      (csp_signer_epoch sample_payload) = Ok (sample_key 9)"
    "csp_deployment_id sample_payload = dt_deployment_id sample_trust"
    by (simp_all add: server_control_key_of_def sample_trust_def sample_payload_def)
  then show ?thesis
    by (simp add: control_verify_def sample_control_def t v unhex_tohex trust_payload_digest_def
        MAX_CONTROL_SNAPSHOT_PAYLOAD_BYTES_def bail_if_def) (simp add: sample_signed_trust_def unhex_tohex)
qed

definition sample_delegate :: trusted_travel_authority where
  "sample_delegate = AuthorityHome \<lparr>ta_id_field = ''delegate'', ta_epoch_field = 1,
     ta_home_id_field = ''home-2'', ta_public_key_field = sample_key 6\<rparr>"

definition sample_endpoint :: "trusted_travel_authority list \<Rightarrow> home_endpoint_credential" where
  "sample_endpoint delegated = \<lparr>hec_version = 1, hec_object_type = ''flowsplice.home_endpoint_credential'',
     hec_deployment_id = ''dep'', hec_credential_id = 21, hec_authority_id = ''enroll'',
     hec_authority_epoch = 1, hec_enrollment_request_id = 22, hec_home_id = ''home-2'',
     hec_management_spki_sha256 = sample_pin CHR ''a'', hec_business_spki_sha256 = sample_pin CHR ''b'',
     hec_delegated_travel_authorities = delegated,
     hec_issuer_bundle_sha256 = (if delegated = [] then None else Some (sample_pin CHR ''c'')),
     hec_not_before_unix_secs = 100, hec_not_after_unix_secs = 8000\<rparr>"

definition sample_signed_endpoint :: signed_home_endpoint_credential where
  "sample_signed_endpoint = \<lparr>she_authority_id = ''enroll'', she_payload_hex = tohex [7],
     she_signature_hex = tohex [15]\<rparr>"

lemma sample_endpoint_binds:
  assumes "ds = [] \<or> ds = [sample_delegate]"
  shows "endpoint_verify_trust_binding sample_crypto (one_json (sample_endpoint ds)) sample_signed_endpoint
     sample_trust = Ok (sample_endpoint ds)"
proof -
  have "endpoint_validate_shape sample_crypto (sample_endpoint ds) = Ok ()"
    using assms by (auto simp: endpoint_validate_shape_def sample_endpoint_def deployment_consts digit_val_def
        validate_trusted_authorities_Ok authority_validate_def sample_delegate_def authority_id_def
        authority_public_key_def authority_epoch_def authority_home_id_def)
  then have "endpoint_validate_trust_binding sample_crypto (sample_endpoint ds) sample_trust = Ok ()"
    by (simp add: endpoint_validate_trust_binding_def) (simp add: sample_endpoint_def sample_trust_def)
  moreover have "home_enrollment_authority sample_trust (hec_authority_id (sample_endpoint ds))
      (hec_authority_epoch (sample_endpoint ds)) = Ok \<lparr>hea_id = ''enroll'', hea_epoch = 1,
        hea_issuer_home_id = ''home-1'', hea_public_key = sample_key 8\<rparr>"
    by (simp add: home_enrollment_authority_def sample_trust_def sample_endpoint_def)
  moreover have "hec_authority_id (sample_endpoint ds) = ''enroll''"
    by (simp add: sample_endpoint_def)
  ultimately show ?thesis
    by (simp add: endpoint_verify_trust_binding_def sample_signed_endpoint_def unhex_tohex bail_if_def)
qed

lemma sample_delegations:
  "travel_authorities_with_home_delegations sample_crypto (one_json (sample_endpoint [sample_delegate]))
     sample_trust [sample_signed_endpoint] = Ok [sample_authority 5, sample_global, sample_delegate]"
proof -
  have "validate_trusted_authorities sample_crypto [sample_authority 5, sample_global, sample_delegate] = Ok ()"
    by (simp add: validate_trusted_authorities_Ok authority_validate_def sample_delegate_def
        sample_authority_def sample_global_def authority_defs)
  moreover have "dt_travel_authorities sample_trust = [sample_authority 5, sample_global]"
    "hec_delegated_travel_authorities (sample_endpoint [sample_delegate]) = [sample_delegate]"
    "authority_id sample_delegate \<noteq> authority_id (sample_authority 5)"
    "authority_id sample_delegate \<noteq> authority_id sample_global"
    by (simp_all add: sample_trust_def sample_endpoint_def sample_delegate_def sample_authority_def
        sample_global_def authority_id_def)
  ultimately show ?thesis
    by (simp add: travel_authorities_with_home_delegations_def sample_endpoint_binds)
qed

text \<open>What a Server signs, anybody who holds the root key can verify.\<close>

lemma signed_snapshot_verifies:
  assumes "hex_ok C" "hex_case_ok C" "ecdsa_ok C" "json_ok J"
    and "control_sign C J st t p key rnd = Ok s"
    and "trust_verify C JT st root now = Ok t"
    and "csp_issued_at_unix_secs p \<le> sat_add now MAX_CLOCK_SKEW_SECS"
    and "now < csp_expires_at_unix_secs p"
  shows "\<exists>v. control_verify C JT J s root now = Ok v \<and> vcs_payload v = p \<and> vcs_trust v = t
     \<and> trust_payload_digest C st = Ok (vcs_trust_digest_sha256 v)"
proof -
  from assms(5) obtain key_hex bytes sig where
    v: "control_validate_at C p (csp_issued_at_unix_secs p) = Ok ()"
    and d: "csp_deployment_id p = dt_deployment_id t"
    and k: "server_control_key_of t (csp_server_id p) (csp_signer_epoch p) = Ok key_hex"
    and c: "eq_ignore_ascii_case (hex_encode C (ecdsa_public C key)) key_hex"
    and b: "to_vec J p = Some bytes" "length bytes \<le> MAX_CONTROL_SNAPSHOT_PAYLOAD_BYTES"
    and g: "ecdsa_sign C key rnd bytes = Some sig"
    and s: "s = \<lparr>scs_trust = st, scs_payload_hex = hex_encode C bytes, scs_signature_hex = hex_encode C sig\<rparr>"
    by (auto simp: control_sign_def not_less)
  have "hex_decode C key_hex = Some (ecdsa_public C key)"
    using assms(1, 2) c unfolding hex_case_ok_def by (metis hex_roundtrip)
  with server_control_key_ofD [OF trust_verifyD(1) [OF assms(6)] k]
  have key: "decode_p256_public_key C key_hex = Ok (ecdsa_public C key)"
    by (auto simp: decode_p256_Ok)
  obtain dig where dig: "trust_payload_digest C st = Ok dig"
    using trust_verifyD(4) [OF assms(6)] by (auto simp: trust_payload_digest_def)
  have "from_slice J bytes = Some p"
    using assms(4) b(1) by (simp add: json_ok_def)
  moreover have "ecdsa_verify C (ecdsa_public C key) bytes sig"
    using ecdsa_verifies [OF assms(3) g] .
  ultimately show ?thesis
    using assms(1, 6) b(2) d k key dig control_validate_window [OF v assms(7, 8)]
    by (simp add: control_verify_def s)
qed

section \<open>Properties\<close>

text \<open>C26: an accepted control snapshot is authentic and fresh. Its bytes carry a signature under the
  one key that the trust document certifies for the named Server and epoch, the trust document
  carries a signature under the deployment root, both name the same deployment, the snapshot is at
  most 300 seconds old and at most 300 seconds ahead of the clock, and the Relay and Home
  identities in it are unambiguous.\<close>

theorem control_snapshot_authentic:
  assumes "control_verify C JT J s root now = Ok v"
  shows "let p = vcs_payload v; t = vcs_trust v in
     (\<exists>k \<in> set (dt_server_control_keys t). sck_server_id k = csp_server_id p
        \<and> sck_epoch k = csp_signer_epoch p
        \<and> (\<exists>key bytes sig. hex_decode C (sck_public_key k) = Some key
            \<and> hex_decode C (scs_payload_hex s) = Some bytes
            \<and> hex_decode C (scs_signature_hex s) = Some sig \<and> ecdsa_verify C key bytes sig
            \<and> from_slice J bytes = Some p)
        \<and> (\<forall>k' \<in> set (dt_server_control_keys t). sck_server_id k' = csp_server_id p
            \<and> sck_epoch k' = csp_signer_epoch p \<longrightarrow> k' = k))
     \<and> (\<exists>key bytes sig. hex_decode C root = Some key
            \<and> hex_decode C (sdt_payload_hex (scs_trust s)) = Some bytes
            \<and> hex_decode C (sdt_signature_hex (scs_trust s)) = Some sig \<and> ecdsa_verify C key bytes sig
            \<and> from_slice JT bytes = Some t)
     \<and> csp_deployment_id p = dt_deployment_id t
     \<and> unat now < unat (csp_issued_at_unix_secs p) + 300
     \<and> unat (csp_issued_at_unix_secs p) \<le> unat now + 300
     \<and> distinct (map re_id (rd_relays (csp_relay_directory p)))
     \<and> distinct (map hc_home_id (cat_homes (csp_catalog p)))"
proof -
  define p where "p = vcs_payload v"
  define t where "t = vcs_trust v"
  note d = control_verifyD [OF assms(1), folded p_def t_def]
  note shape = trust_verifyD(1) [OF d(1)] and w = control_validateD [OF d(2)]
  have "unat now < unat (csp_issued_at_unix_secs p) + 300"
    using w(2, 4) by (simp add: word_less_nat_alt)
  moreover obtain key_hex where kh:
    "server_control_key_of t (csp_server_id p) (csp_signer_epoch p) = Ok key_hex"
    "\<exists>key bytes sig. hex_decode C key_hex = Some key \<and> hex_decode C (scs_payload_hex s) = Some bytes
       \<and> hex_decode C (scs_signature_hex s) = Some sig \<and> ecdsa_verify C key bytes sig
       \<and> from_slice J bytes = Some p"
    using d(4) by blast
  moreover obtain k where k: "k \<in> set (dt_server_control_keys t)" "sck_server_id k = csp_server_id p"
    "sck_epoch k = csp_signer_epoch p" "sck_public_key k = key_hex"
    using server_control_key_ofD [OF shape kh(1)] by blast
  moreover have "k' = k" if "k' \<in> set (dt_server_control_keys t)" "sck_server_id k' = csp_server_id p"
    "sck_epoch k' = csp_signer_epoch p" for k'
    using trust_shapeD(1) [OF shape] k that by (auto simp: distinct_map inj_on_def)
  ultimately show ?thesis
    unfolding Let_def p_def [symmetric] t_def [symmetric]
    using trust_verifyD(4) [OF d(1)] d(3) w(3) directory_distinct(1) [OF w(7)] catalog_distinct(1) [OF w(8)]
    by blast
qed

theorem control_snapshot_authentic_witness:
  "\<exists>v. control_verify sample_crypto (one_json sample_trust) (one_json sample_payload) sample_control
       (sample_key 3) 1100 = Ok v
     \<and> unat (1100 :: u64) < unat (csp_issued_at_unix_secs (vcs_payload v)) + 300"
proof -
  obtain v where v: "control_verify sample_crypto (one_json sample_trust) (one_json sample_payload)
      sample_control (sample_key 3) 1100 = Ok v"
    using sample_control_verifies by blast
  from control_snapshot_authentic [OF v] v show ?thesis by (simp add: Let_def)
qed

text \<open>The Travel authorities in force are the root-listed ones followed by those delegated in
  endpoint credentials; ids stay unique, and a delegated authority names the Home whose endpoint
  credential, signed by a root-certified enrollment authority of this deployment, delegates it.\<close>

theorem delegations_confined:
  assumes "travel_authorities_with_home_delegations C J t ss = Ok auths"
  shows "distinct (map authority_id auths) \<and> set (dt_travel_authorities t) \<subseteq> set auths
     \<and> (\<forall>a \<in> set auths - set (dt_travel_authorities t). \<exists>s \<in> set ss. \<exists>e.
          endpoint_verify_trust_binding C J s t = Ok e \<and> authority_home_id a = Some (hec_home_id e)
          \<and> hec_deployment_id e = dt_deployment_id t
          \<and> (\<exists>ea \<in> set (dt_home_enrollment_authorities t). hea_id ea = hec_authority_id e
               \<and> hea_epoch ea = hec_authority_epoch e))"
proof -
  note d = delegations_Ok [OF assms]
  have "\<exists>s \<in> set ss. \<exists>e. endpoint_verify_trust_binding C J s t = Ok e
      \<and> a \<in> set (hec_delegated_travel_authorities e)"
    if "a \<in> set (delegations_of C J t ss)" for a
    using that d(2) by (fastforce simp: delegations_of_def)
  then show ?thesis
    using d(1, 3) endpoint_bindingD endpoint_shape_delegations by (fastforce simp: d(1))
qed

theorem delegations_confined_witness:
  "\<exists>s \<in> set [sample_signed_endpoint]. \<exists>e.
     endpoint_verify_trust_binding sample_crypto (one_json (sample_endpoint [sample_delegate])) s sample_trust
       = Ok e \<and> authority_home_id sample_delegate = Some (hec_home_id e)"
proof -
  have "sample_delegate \<in> set [sample_authority 5, sample_global, sample_delegate]
      - set (dt_travel_authorities sample_trust)"
    by (simp add: sample_trust_def sample_delegate_def sample_authority_def sample_global_def)
  with delegations_confined [OF sample_delegations] show ?thesis by blast
qed

end
