(* ===== verification/Business.thy ===== *)
theory Business
  imports Deployment
begin

text \<open>
  Business authorization (\<open>internal/flowsplice-core/src/business.rs\<close> and
  \<open>business/service_class.rs\<close>): the signed allowlist of a serving-only Home, the descriptor that
  names one service of it, and the approvals that bind one enrollment request, one descriptor and
  one Travel credential, for a single service or for a class of services across Homes.
\<close>

section \<open>Services\<close>

definition BUSINESS_VERSION :: u32 where "BUSINESS_VERSION = 1"
definition HOME_SERVICE_GRANT_TYPE :: string where
  "HOME_SERVICE_GRANT_TYPE = ''flowsplice.home_service_grant''"
definition BUSINESS_APPROVAL_TYPE :: string where
  "BUSINESS_APPROVAL_TYPE = ''flowsplice.business_travel_approval''"
definition SERVICE_CLASS_APPROVAL_TYPE :: string where
  "SERVICE_CLASS_APPROVAL_TYPE = ''flowsplice.service_class_travel_approval''"
definition MAX_PAYLOAD_BYTES :: nat where "MAX_PAYLOAD_BYTES = 256 * 1024"

definition business_service_validate :: "business_service \<Rightarrow> unit res" where
  "business_service_validate s =
     rbind (validate_token (bs_service_id s) 128) (\<lambda>_.
     rbind (validate_token (bs_application_protocol s) 128) (\<lambda>_.
     rbind (bail_if (bs_capabilities s = [] \<or> 16 < length (bs_capabilities s))
         (Business CapabilitiesInvalid)) (\<lambda>_.
     for_each_unique (\<lambda>c. validate_token c 64) id (\<lambda>_. Business CapabilitiesInvalid) {}
       (bs_capabilities s))))"

definition validate_services :: "business_service list \<Rightarrow> unit res" where
  "validate_services services =
     rbind (bail_if (services = [] \<or> 256 < length services) (Business ServicesInvalid)) (\<lambda>_.
     for_each_unique business_service_validate bs_service_id (\<lambda>_. Business ServicesInvalid) {} services)"

section \<open>Payload helpers\<close>

definition encode_payload :: "'a json \<Rightarrow> 'a \<Rightarrow> bytes res" where
  "encode_payload J v =
     rbind (ok_or (to_vec J v) (Auth EncodeFailed)) (\<lambda>bytes.
     rbind (bail_if (MAX_PAYLOAD_BYTES < length bytes) (Deploy PayloadTooLarge)) (\<lambda>_. Ok bytes))"

definition decode_bytes :: "crypto \<Rightarrow> string \<Rightarrow> bytes res" where
  "decode_bytes C v =
     rbind (bail_if (MAX_PAYLOAD_BYTES * 2 < length v) (Deploy PayloadTooLarge)) (\<lambda>_.
     ok_or (hex_decode C v) (Auth NotHexadecimal))"

definition decode_payload :: "crypto \<Rightarrow> 'a json \<Rightarrow> string \<Rightarrow> ('a \<times> bytes) res" where
  "decode_payload C J v =
     rbind (decode_bytes C v) (\<lambda>bytes.
     rbind (ok_or (from_slice J bytes) (Auth BadPayload)) (\<lambda>payload. Ok (payload, bytes)))"

definition sha256_hex :: "crypto \<Rightarrow> bytes \<Rightarrow> string" where
  "sha256_hex C bytes = hex_encode C (sha256_digest C bytes)"

definition json_digest :: "crypto \<Rightarrow> 'a json \<Rightarrow> 'a \<Rightarrow> string res" where
  "json_digest C J v = rbind (encode_payload J v) (\<lambda>bytes. Ok (sha256_hex C bytes))"

definition payload_digest :: "crypto \<Rightarrow> string \<Rightarrow> string res" where
  "payload_digest C payload_hex = rbind (decode_bytes C payload_hex) (\<lambda>bytes. Ok (sha256_hex C bytes))"

definition business_sign :: "crypto \<Rightarrow> 'a json \<Rightarrow> 'a \<Rightarrow> bytes \<Rightarrow> bytes \<Rightarrow> (string \<times> string) res" where
  "business_sign C J v key rnd =
     rbind (encode_payload J v) (\<lambda>bytes.
     rbind (ok_or (ecdsa_sign C key rnd bytes) (Control SigningFailed)) (\<lambda>signature.
     Ok (hex_encode C bytes, hex_encode C signature)))"

definition verify_signature :: "crypto \<Rightarrow> bytes \<Rightarrow> string \<Rightarrow> string \<Rightarrow> unit res" where
  "verify_signature C bytes signature_hex public_key =
     rbind (bail_if (160 < length signature_hex \<or> length public_key \<noteq> 130) (Business KeySizeInvalid)) (\<lambda>_.
     rbind (ok_or (hex_decode C public_key) (Auth NotHexadecimal)) (\<lambda>key.
     rbind (ok_or (hex_decode C signature_hex) (Auth NotHexadecimal)) (\<lambda>signature.
     bail_if (\<not> ecdsa_verify C key bytes signature) (Auth BadSignature))))"

section \<open>The service grant of a Home\<close>

record home_service_grant =
  hsg_version :: u32
  hsg_object_type :: string
  hsg_deployment_id :: string
  hsg_authority_id :: string
  hsg_authority_epoch :: u64
  hsg_home_id :: string
  hsg_endpoint_payload_sha256 :: string
  hsg_enrollment_request_sha256 :: string
  hsg_services :: "business_service list"
  hsg_not_before_unix_secs :: u64
  hsg_not_after_unix_secs :: u64

definition grant_validate :: "crypto \<Rightarrow> home_service_grant \<Rightarrow> unit res" where
  "grant_validate C g =
     rbind (bail_if (hsg_version g \<noteq> BUSINESS_VERSION \<or> hsg_object_type g \<noteq> HOME_SERVICE_GRANT_TYPE)
         (Business GrantUnsupported)) (\<lambda>_.
     rbind (validate_token (hsg_home_id g) 128) (\<lambda>_.
     rbind (validate_token (hsg_authority_id g) 128) (\<lambda>_.
     rbind (bail_if (hsg_deployment_id g = [] \<or> hsg_authority_epoch g = 0) (Business GrantUnsupported)) (\<lambda>_.
     rbind (validate_spki_pin C (hsg_endpoint_payload_sha256 g)) (\<lambda>_.
     rbind (validate_spki_pin C (hsg_enrollment_request_sha256 g)) (\<lambda>_.
     rbind (bail_if (hsg_not_after_unix_secs g \<le> hsg_not_before_unix_secs g) (Auth ValidityEmpty)) (\<lambda>_.
     validate_services (hsg_services g))))))))"

definition validate_catalog_services :: "home_service_grant \<Rightarrow> service list \<Rightarrow> unit res" where
  "validate_catalog_services g services =
     for_each_fresh
       (\<lambda>s. \<not> list_ex (\<lambda>a. bs_service_id a = svc_id s \<and> bs_protocol a = svc_protocol s) (hsg_services g))
       (\<lambda>s. {svc_id s}) (Business ServiceOutsideGrant) (\<lambda>_. Ok ()) {} services"

definition grant_sign :: "crypto \<Rightarrow> home_service_grant json \<Rightarrow> home_service_grant \<Rightarrow> bytes \<Rightarrow> bytes
    \<Rightarrow> signed_home_service_grant res" where
  "grant_sign C J g key rnd =
     rbind (grant_validate C g) (\<lambda>_.
     rbind (business_sign C J g key rnd) (\<lambda>(payload_hex, signature_hex).
     Ok \<lparr>shg_authority_id = hsg_authority_id g, shg_payload_hex = payload_hex,
         shg_signature_hex = signature_hex\<rparr>))"

definition grant_verify_binding :: "crypto \<Rightarrow> home_endpoint_credential json \<Rightarrow> home_service_grant json
    \<Rightarrow> signed_home_service_grant \<Rightarrow> deployment_trust \<Rightarrow> signed_home_endpoint_credential
    \<Rightarrow> home_service_grant res" where
  "grant_verify_binding C JE J s t endpoint =
     rbind (endpoint_verify_trust_binding C JE endpoint t) (\<lambda>e.
     rbind (decode_payload C J (shg_payload_hex s)) (\<lambda>(g, bytes).
     rbind (grant_validate C g) (\<lambda>_.
     rbind (bail_if (hsg_deployment_id g \<noteq> dt_deployment_id t \<or> hsg_home_id g \<noteq> hec_home_id e
         \<or> hsg_authority_id g \<noteq> hec_authority_id e \<or> hsg_authority_epoch g \<noteq> hec_authority_epoch e
         \<or> shg_authority_id s \<noteq> hsg_authority_id g) (Business GrantBindingMismatch)) (\<lambda>_.
     rbind (payload_digest C (she_payload_hex endpoint)) (\<lambda>digest.
     rbind (bail_if (hsg_endpoint_payload_sha256 g \<noteq> digest
         \<or> hec_delegated_travel_authorities e \<noteq> [] \<or> hec_issuer_bundle_sha256 e \<noteq> None
         \<or> hsg_not_before_unix_secs g < hec_not_before_unix_secs e
         \<or> hec_not_after_unix_secs e < hsg_not_after_unix_secs g) (Business GrantBindingMismatch)) (\<lambda>_.
     rbind (home_enrollment_authority t (hsg_authority_id g) (hsg_authority_epoch g)) (\<lambda>authority.
     rbind (verify_signature C bytes (shg_signature_hex s) (hea_public_key authority)) (\<lambda>_.
     Ok g))))))))"

definition grant_verify :: "crypto \<Rightarrow> home_endpoint_credential json \<Rightarrow> home_service_grant json
    \<Rightarrow> signed_home_service_grant \<Rightarrow> deployment_trust \<Rightarrow> signed_home_endpoint_credential \<Rightarrow> u64
    \<Rightarrow> home_service_grant res" where
  "grant_verify C JE J s t endpoint now =
     rbind (endpoint_verify C JE endpoint t now) (\<lambda>_.
     rbind (grant_verify_binding C JE J s t endpoint) (\<lambda>g.
     rbind (bail_if (sat_add now MAX_CLOCK_SKEW_SECS < hsg_not_before_unix_secs g
         \<or> hsg_not_after_unix_secs g \<le> now) (Business GrantNotCurrent)) (\<lambda>_. Ok g)))"

section \<open>Descriptors and approvals of one service\<close>

record business_descriptor =
  bd_version :: u32
  bd_approving_home_id :: string
  bd_endpoint :: signed_home_endpoint_credential
  bd_grant :: signed_home_service_grant
  bd_service_id :: string

record verified_business_descriptor =
  vbd_home_id :: string
  vbd_approving_home_id :: string
  vbd_service :: business_service
  vbd_not_after_unix_secs :: u64

definition descriptor_verify :: "crypto \<Rightarrow> home_endpoint_credential json \<Rightarrow> home_service_grant json
    \<Rightarrow> business_descriptor \<Rightarrow> deployment_trust \<Rightarrow> u64 \<Rightarrow> verified_business_descriptor res" where
  "descriptor_verify C JE JG d t now =
     rbind (bail_if (bd_version d \<noteq> BUSINESS_VERSION) (Business DescriptorUnsupported)) (\<lambda>_.
     rbind (grant_verify C JE JG (bd_grant d) t (bd_endpoint d) now) (\<lambda>g.
     rbind (home_enrollment_authority t (hsg_authority_id g) (hsg_authority_epoch g)) (\<lambda>authority.
     rbind (bail_if (bd_approving_home_id d \<noteq> hea_issuer_home_id authority) (Business DescriptorApprover)) (\<lambda>_.
     rbind (ok_or (List.find (\<lambda>s. bs_service_id s = bd_service_id d) (hsg_services g))
         (Business DescriptorService)) (\<lambda>service.
     Ok \<lparr>vbd_home_id = hsg_home_id g, vbd_approving_home_id = bd_approving_home_id d,
         vbd_service = service, vbd_not_after_unix_secs = hsg_not_after_unix_secs g\<rparr>)))))"

record business_travel_approval =
  bta_version :: u32
  bta_object_type :: string
  bta_deployment_id :: string
  bta_authority_id :: string
  bta_authority_epoch :: u64
  bta_request_id :: uuid
  bta_request_sha256 :: string
  bta_descriptor_sha256 :: string
  bta_credential_payload_sha256 :: string

record signed_business_travel_approval =
  sba_authority_id :: string
  sba_payload_hex :: string
  sba_signature_hex :: string

definition approval_validate :: "crypto \<Rightarrow> business_travel_approval \<Rightarrow> unit res" where
  "approval_validate C a =
     rbind (bail_if (bta_version a \<noteq> BUSINESS_VERSION \<or> bta_object_type a \<noteq> BUSINESS_APPROVAL_TYPE
         \<or> bta_deployment_id a = [] \<or> bta_authority_id a = [] \<or> bta_authority_epoch a = 0
         \<or> bta_request_id a = uuid_nil) (Business ApprovalUnsupported)) (\<lambda>_.
     for_each (validate_spki_pin C)
       [bta_request_sha256 a, bta_descriptor_sha256 a, bta_credential_payload_sha256 a])"

definition approval_sign :: "crypto \<Rightarrow> business_travel_approval json \<Rightarrow> business_travel_approval
    \<Rightarrow> bytes \<Rightarrow> bytes \<Rightarrow> signed_business_travel_approval res" where
  "approval_sign C J a key rnd =
     rbind (approval_validate C a) (\<lambda>_.
     rbind (business_sign C J a key rnd) (\<lambda>(payload_hex, signature_hex).
     Ok \<lparr>sba_authority_id = bta_authority_id a, sba_payload_hex = payload_hex,
         sba_signature_hex = signature_hex\<rparr>))"

text \<open>The codecs of one deployment, and the check of the issuing Home that both kinds of approval
  make when the issuer is a dynamically enrolled Home.\<close>

record codecs =
  j_endpoint :: "home_endpoint_credential json"
  j_grant :: "home_service_grant json"
  j_credential :: "travel_credential json"
  j_approval :: "business_travel_approval json"
  j_descriptor :: "business_descriptor json"

definition issuer_bounds :: "crypto \<Rightarrow> home_endpoint_credential json
    \<Rightarrow> signed_home_endpoint_credential option \<Rightarrow> deployment_trust \<Rightarrow> u64 \<Rightarrow> string
    \<Rightarrow> travel_credential \<Rightarrow> unit res" where
  "issuer_bounds C JE issuer t now approving_home travel =
     (case issuer of None \<Rightarrow> Ok ()
      | Some s \<Rightarrow>
          rbind (endpoint_verify C JE s t now) (\<lambda>e.
          bail_if (hec_home_id e \<noteq> approving_home
            \<or> hec_not_after_unix_secs e < tc_not_after_unix_secs travel) (Business ApprovalExceedsIssuer)))"

definition approval_verify :: "crypto \<Rightarrow> codecs \<Rightarrow> signed_business_travel_approval \<Rightarrow> deployment_trust
    \<Rightarrow> signed_home_endpoint_credential option \<Rightarrow> business_descriptor \<Rightarrow> string
    \<Rightarrow> signed_travel_credential \<Rightarrow> u64 \<Rightarrow> travel_credential res" where
  "approval_verify C JS s t issuer descriptor request_sha256 credential now =
     rbind (descriptor_verify C (j_endpoint JS) (j_grant JS) descriptor t now) (\<lambda>target.
     rbind (decode_payload C (j_approval JS) (sba_payload_hex s)) (\<lambda>(p, bytes).
     rbind (approval_validate C p) (\<lambda>_.
     rbind (travel_authorities_with_home_delegations C (j_endpoint JS) t
         (case issuer of None \<Rightarrow> [] | Some i \<Rightarrow> [i])) (\<lambda>auths.
     rbind (ok_or (List.find (\<lambda>a. authority_id a = bta_authority_id p) auths)
         (Business ApprovalUntrusted)) (\<lambda>authority.
     rbind (credential_verify C (j_credential JS) credential authority) (\<lambda>travel.
     rbind (issuer_bounds C (j_endpoint JS) issuer t now (vbd_approving_home_id target) travel) (\<lambda>_.
     rbind (bail_if (sba_authority_id s \<noteq> bta_authority_id p \<or> bta_authority_id p \<noteq> tc_authority_id travel
         \<or> bta_authority_epoch p \<noteq> authority_epoch authority
         \<or> bta_deployment_id p \<noteq> dt_deployment_id t \<or> tc_deployment_id travel \<noteq> dt_deployment_id t
         \<or> authority_home_id authority \<noteq> Some (vbd_approving_home_id target)
         \<or> bta_request_id p \<noteq> tc_enrollment_request_id travel
         \<or> bta_request_sha256 p \<noteq> request_sha256) (Business ApprovalMismatch)) (\<lambda>_.
     rbind (json_digest C (j_descriptor JS) descriptor) (\<lambda>descriptor_digest.
     rbind (bail_if (bta_descriptor_sha256 p \<noteq> descriptor_digest) (Business ApprovalMismatch)) (\<lambda>_.
     rbind (payload_digest C (stc_payload_hex credential)) (\<lambda>credential_digest.
     rbind (bail_if (bta_credential_payload_sha256 p \<noteq> credential_digest
         \<or> \<not> credential_active_at travel now
         \<or> tc_not_before_unix_secs travel < dt_not_before_unix_secs t
         \<or> vbd_not_after_unix_secs target < tc_not_after_unix_secs travel
         \<or> tc_scope travel \<noteq> ScopeService (vbd_home_id target) (bs_service_id (vbd_service target))
              (bs_protocol (vbd_service target))) (Business ApprovalMismatch)) (\<lambda>_.
     rbind (verify_signature C bytes (sba_signature_hex s) (authority_public_key authority)) (\<lambda>_.
     Ok travel)))))))))))))"

section \<open>Approvals of a service class\<close>

record service_class_descriptor =
  scd_version :: u32
  scd_approving_home_id :: string
  scd_application_protocol :: string
  scd_protocol :: service_protocol

definition class_validate :: "service_class_descriptor \<Rightarrow> unit res" where
  "class_validate d =
     rbind (bail_if (scd_version d \<noteq> BUSINESS_VERSION) (Business DescriptorUnsupported)) (\<lambda>_.
     rbind (validate_token (scd_approving_home_id d) 128) (\<lambda>_.
     validate_application_protocol (scd_application_protocol d)))"

definition class_scope :: "service_class_descriptor \<Rightarrow> travel_credential_scope" where
  "class_scope d = ScopeServiceClass (scd_application_protocol d) (scd_protocol d)"

fun global_of_home :: "string \<Rightarrow> trusted_travel_authority \<Rightarrow> bool" where
  "global_of_home home (AuthorityGlobal d) = (ta_home_id_field d = home)"
| "global_of_home home (AuthorityHome d) = False"

definition class_verify_with_issuer :: "crypto \<Rightarrow> home_endpoint_credential json
    \<Rightarrow> service_class_descriptor \<Rightarrow> deployment_trust \<Rightarrow> signed_home_endpoint_credential option \<Rightarrow> u64
    \<Rightarrow> unit res" where
  "class_verify_with_issuer C JE d t issuer now =
     rbind (class_validate d) (\<lambda>_.
     rbind (bail_if (now < dt_not_before_unix_secs t \<or> dt_not_after_unix_secs t \<le> now)
         (Business ClassTrustInactive)) (\<lambda>_.
     rbind (travel_authorities_with_home_delegations C JE t
         (case issuer of None \<Rightarrow> [] | Some i \<Rightarrow> [i])) (\<lambda>auths.
     bail_if (\<not> list_ex (global_of_home (scd_approving_home_id d)) auths) (Business ClassNeedsGlobal))))"

definition class_verify :: "crypto \<Rightarrow> home_endpoint_credential json \<Rightarrow> service_class_descriptor
    \<Rightarrow> deployment_trust \<Rightarrow> u64 \<Rightarrow> unit res" where
  "class_verify C JE d t now = class_verify_with_issuer C JE d t None now"

record service_class_approval =
  sca_version :: u32
  sca_object_type :: string
  sca_deployment_id :: string
  sca_authority_id :: string
  sca_authority_epoch :: u64
  sca_request_id :: uuid
  sca_request_sha256 :: string
  sca_descriptor_sha256 :: string
  sca_credential_payload_sha256 :: string

record signed_service_class_approval =
  ssc_authority_id :: string
  ssc_payload_hex :: string
  ssc_signature_hex :: string

definition class_approval_validate :: "crypto \<Rightarrow> service_class_approval \<Rightarrow> unit res" where
  "class_approval_validate C a =
     rbind (bail_if (sca_version a \<noteq> BUSINESS_VERSION \<or> sca_object_type a \<noteq> SERVICE_CLASS_APPROVAL_TYPE
         \<or> sca_deployment_id a = [] \<or> sca_authority_epoch a = 0 \<or> sca_request_id a = uuid_nil)
         (Business ApprovalUnsupported)) (\<lambda>_.
     rbind (validate_token (sca_authority_id a) 128) (\<lambda>_.
     for_each (validate_spki_pin C)
       [sca_request_sha256 a, sca_descriptor_sha256 a, sca_credential_payload_sha256 a]))"

definition class_approval_sign :: "crypto \<Rightarrow> service_class_approval json \<Rightarrow> service_class_approval
    \<Rightarrow> bytes \<Rightarrow> bytes \<Rightarrow> signed_service_class_approval res" where
  "class_approval_sign C J a key rnd =
     rbind (class_approval_validate C a) (\<lambda>_.
     rbind (business_sign C J a key rnd) (\<lambda>(payload_hex, signature_hex).
     Ok \<lparr>ssc_authority_id = sca_authority_id a, ssc_payload_hex = payload_hex,
         ssc_signature_hex = signature_hex\<rparr>))"

definition class_approval_verify :: "crypto \<Rightarrow> home_endpoint_credential json \<Rightarrow> travel_credential json
    \<Rightarrow> service_class_approval json \<Rightarrow> service_class_descriptor json \<Rightarrow> signed_service_class_approval
    \<Rightarrow> deployment_trust \<Rightarrow> signed_home_endpoint_credential option \<Rightarrow> service_class_descriptor \<Rightarrow> string
    \<Rightarrow> signed_travel_credential \<Rightarrow> u64 \<Rightarrow> travel_credential res" where
  "class_approval_verify C JE JC JA JD s t issuer descriptor request_sha256 credential now =
     rbind (class_verify_with_issuer C JE descriptor t issuer now) (\<lambda>_.
     rbind (decode_payload C JA (ssc_payload_hex s)) (\<lambda>(p, bytes).
     rbind (class_approval_validate C p) (\<lambda>_.
     rbind (travel_authorities_with_home_delegations C JE t
         (case issuer of None \<Rightarrow> [] | Some i \<Rightarrow> [i])) (\<lambda>auths.
     rbind (ok_or (List.find (\<lambda>a. authority_id a = sca_authority_id p) auths)
         (Business ApprovalUntrusted)) (\<lambda>authority.
     rbind (bail_if (\<not> global_of_home (scd_approving_home_id descriptor) authority)
         (Business ClassNeedsGlobal)) (\<lambda>_.
     rbind (credential_verify C JC credential authority) (\<lambda>travel.
     rbind (issuer_bounds C JE issuer t now (scd_approving_home_id descriptor) travel) (\<lambda>_.
     rbind (bail_if (ssc_authority_id s \<noteq> sca_authority_id p \<or> sca_authority_id p \<noteq> tc_authority_id travel
         \<or> sca_authority_epoch p \<noteq> authority_epoch authority
         \<or> sca_deployment_id p \<noteq> dt_deployment_id t \<or> tc_deployment_id travel \<noteq> dt_deployment_id t
         \<or> sca_request_id p \<noteq> tc_enrollment_request_id travel
         \<or> sca_request_sha256 p \<noteq> request_sha256) (Business ApprovalMismatch)) (\<lambda>_.
     rbind (json_digest C JD descriptor) (\<lambda>descriptor_digest.
     rbind (bail_if (sca_descriptor_sha256 p \<noteq> descriptor_digest) (Business ApprovalMismatch)) (\<lambda>_.
     rbind (payload_digest C (stc_payload_hex credential)) (\<lambda>credential_digest.
     rbind (bail_if (sca_credential_payload_sha256 p \<noteq> credential_digest
         \<or> \<not> credential_active_at travel now
         \<or> tc_not_before_unix_secs travel < dt_not_before_unix_secs t
         \<or> dt_not_after_unix_secs t < tc_not_after_unix_secs travel
         \<or> tc_scope travel \<noteq> class_scope descriptor) (Business ApprovalMismatch)) (\<lambda>_.
     rbind (verify_signature C bytes (ssc_signature_hex s) (authority_public_key authority)) (\<lambda>_.
     Ok travel))))))))))))))"

section \<open>What verification establishes\<close>

lemma decode_payload_Ok:
  "decode_payload C J v = Ok (p, bytes) \<longleftrightarrow> length v \<le> MAX_PAYLOAD_BYTES * 2
     \<and> hex_decode C v = Some bytes \<and> from_slice J bytes = Some p"
  by (auto simp: decode_payload_def decode_bytes_def)

lemma verify_signature_Ok:
  "verify_signature C bytes sig_hex key_hex = Ok u \<longleftrightarrow> length sig_hex \<le> 160 \<and> length key_hex = 130
     \<and> (\<exists>key sig. hex_decode C key_hex = Some key \<and> hex_decode C sig_hex = Some sig
          \<and> ecdsa_verify C key bytes sig)"
  by (auto simp: verify_signature_def)

lemma business_sign_Ok:
  assumes "hex_ok C" "ecdsa_ok C" "json_ok J" and "business_sign C J v key rnd = Ok (payload_hex, sig_hex)"
    and "length (ecdsa_public C key) = 65"
  shows "\<exists>bytes. decode_payload C J payload_hex = Ok (v, bytes)
     \<and> verify_signature C bytes sig_hex (hex_encode C (ecdsa_public C key)) = Ok ()"
proof -
  from assms(4) obtain bytes sig where b: "to_vec J v = Some bytes" "length bytes \<le> MAX_PAYLOAD_BYTES"
    and s: "ecdsa_sign C key rnd bytes = Some sig" "payload_hex = hex_encode C bytes" "sig_hex = hex_encode C sig"
    by (auto simp: business_sign_def encode_payload_def)
  have "from_slice J bytes = Some v"
    using assms(3) b(1) by (simp add: json_ok_def)
  with assms(1, 5) b s show ?thesis
    using ecdsa_verifies [OF assms(2) s(1)] ecdsa_sign_length [OF assms(2) s(1)]
    by (simp add: decode_payload_Ok verify_signature_Ok)
qed

lemma grant_bindingD:
  assumes "grant_verify_binding C JE J s t endpoint = Ok g"
  shows "\<exists>e a bytes. endpoint_verify_trust_binding C JE endpoint t = Ok e \<and> hsg_home_id g = hec_home_id e
     \<and> hec_delegated_travel_authorities e = [] \<and> hec_not_before_unix_secs e \<le> hsg_not_before_unix_secs g
     \<and> hsg_not_after_unix_secs g \<le> hec_not_after_unix_secs e
     \<and> home_enrollment_authority t (hsg_authority_id g) (hsg_authority_epoch g) = Ok a
     \<and> decode_payload C J (shg_payload_hex s) = Ok (g, bytes)
     \<and> verify_signature C bytes (shg_signature_hex s) (hea_public_key a) = Ok ()"
    "grant_validate C g = Ok ()" "hsg_deployment_id g = dt_deployment_id t"
    "payload_digest C (she_payload_hex endpoint) = Ok (hsg_endpoint_payload_sha256 g)"
  using assms by (auto simp: grant_verify_binding_def not_less split: prod.splits)

lemma grant_verifyD:
  assumes "grant_verify C JE J s t endpoint now = Ok g"
  shows "grant_verify_binding C JE J s t endpoint = Ok g" "\<exists>e. endpoint_verify C JE endpoint t now = Ok e"
    "now < hsg_not_after_unix_secs g"
  using assms by (auto simp: grant_verify_def not_le)

lemma grant_within_trust:
  assumes "grant_verify_binding C JE J s t endpoint = Ok g"
  shows "hsg_not_after_unix_secs g \<le> dt_not_after_unix_secs t"
    "dt_not_before_unix_secs t \<le> hsg_not_before_unix_secs g"
  using grant_bindingD(1) [OF assms] endpoint_bindingD(3, 4) by (meson order_trans)+

lemma services_unique:
  "grant_validate C g = Ok () \<Longrightarrow> distinct (map bs_service_id (hsg_services g))"
  by (simp add: grant_validate_def validate_services_def)

lemma descriptor_verifyD:
  assumes "descriptor_verify C JE JG d t now = Ok v"
  shows "\<exists>g a. grant_verify C JE JG (bd_grant d) t (bd_endpoint d) now = Ok g
     \<and> vbd_home_id v = hsg_home_id g \<and> vbd_service v \<in> set (hsg_services g)
     \<and> bs_service_id (vbd_service v) = bd_service_id d
     \<and> vbd_not_after_unix_secs v = hsg_not_after_unix_secs g
     \<and> home_enrollment_authority t (hsg_authority_id g) (hsg_authority_epoch g) = Ok a
     \<and> hea_issuer_home_id a = bd_approving_home_id d"
    "vbd_approving_home_id v = bd_approving_home_id d"
  using assms by (auto simp: descriptor_verify_def dest!: find_SomeD)

lemma approval_verifyD:
  assumes "approval_verify C JS s t issuer d req cred now = Ok travel"
  obtains target p bytes auths a where
    "descriptor_verify C (j_endpoint JS) (j_grant JS) d t now = Ok target"
    "decode_payload C (j_approval JS) (sba_payload_hex s) = Ok (p, bytes)"
    "travel_authorities_with_home_delegations C (j_endpoint JS) t
       (case issuer of None \<Rightarrow> [] | Some i \<Rightarrow> [i]) = Ok auths"
    "a \<in> set auths" "credential_verify C (j_credential JS) cred a = Ok travel"
    "issuer_bounds C (j_endpoint JS) issuer t now (vbd_approving_home_id target) travel = Ok ()"
    "authority_home_id a = Some (vbd_approving_home_id target)" "bta_request_sha256 p = req"
    "bta_request_id p = tc_enrollment_request_id travel" "tc_deployment_id travel = dt_deployment_id t"
    "json_digest C (j_descriptor JS) d = Ok (bta_descriptor_sha256 p)"
    "payload_digest C (stc_payload_hex cred) = Ok (bta_credential_payload_sha256 p)"
    "credential_active_at travel now" "dt_not_before_unix_secs t \<le> tc_not_before_unix_secs travel"
    "tc_not_after_unix_secs travel \<le> vbd_not_after_unix_secs target"
    "tc_scope travel = ScopeService (vbd_home_id target) (bs_service_id (vbd_service target))
       (bs_protocol (vbd_service target))"
    "verify_signature C bytes (sba_signature_hex s) (authority_public_key a) = Ok ()"
  using assms by (auto simp: approval_verify_def not_less split: prod.splits dest!: find_SomeD)

lemma class_approval_verifyD:
  assumes "class_approval_verify C JE JC JA JD s t issuer d req cred now = Ok travel"
  obtains p bytes auths a where
    "class_verify_with_issuer C JE d t issuer now = Ok ()"
    "decode_payload C JA (ssc_payload_hex s) = Ok (p, bytes)"
    "travel_authorities_with_home_delegations C JE t
       (case issuer of None \<Rightarrow> [] | Some i \<Rightarrow> [i]) = Ok auths"
    "a \<in> set auths" "global_of_home (scd_approving_home_id d) a"
    "credential_verify C JC cred a = Ok travel" "sca_request_sha256 p = req"
    "json_digest C JD d = Ok (sca_descriptor_sha256 p)"
    "payload_digest C (stc_payload_hex cred) = Ok (sca_credential_payload_sha256 p)"
    "credential_active_at travel now" "dt_not_before_unix_secs t \<le> tc_not_before_unix_secs travel"
    "tc_not_after_unix_secs travel \<le> dt_not_after_unix_secs t" "tc_scope travel = class_scope d"
    "verify_signature C bytes (ssc_signature_hex s) (authority_public_key a) = Ok ()"
  using assms by (auto simp: class_approval_verify_def not_less split: prod.splits dest!: find_SomeD)

section \<open>Evaluation on a concrete approval\<close>

definition sample_digest :: string where
  "sample_digest = tohex (replicate 31 0 @ [7])"

definition sample_service :: business_service where
  "sample_service = \<lparr>bs_service_id = ''ssh'', bs_protocol = Tcp, bs_application_protocol = ''ssh/2'',
     bs_capabilities = [''shell'']\<rparr>"

definition sample_grant :: home_service_grant where
  "sample_grant = \<lparr>hsg_version = 1, hsg_object_type = ''flowsplice.home_service_grant'',
     hsg_deployment_id = ''dep'', hsg_authority_id = ''enroll'', hsg_authority_epoch = 1,
     hsg_home_id = ''home-2'', hsg_endpoint_payload_sha256 = sample_digest,
     hsg_enrollment_request_sha256 = sample_pin CHR ''d'', hsg_services = [sample_service],
     hsg_not_before_unix_secs = 100, hsg_not_after_unix_secs = 5000\<rparr>"

definition sample_signed_grant :: signed_home_service_grant where
  "sample_signed_grant = \<lparr>shg_authority_id = ''enroll'', shg_payload_hex = tohex [7],
     shg_signature_hex = tohex [15]\<rparr>"

definition sample_descriptor :: business_descriptor where
  "sample_descriptor = \<lparr>bd_version = 1, bd_approving_home_id = ''home-1'',
     bd_endpoint = sample_signed_endpoint, bd_grant = sample_signed_grant, bd_service_id = ''ssh''\<rparr>"

definition sample_class :: service_class_descriptor where
  "sample_class = \<lparr>scd_version = 1, scd_approving_home_id = ''home-1'',
     scd_application_protocol = ''ssh/2'', scd_protocol = Tcp\<rparr>"

definition sample_business_credential :: "travel_credential_scope \<Rightarrow> travel_credential" where
  "sample_business_credential scope = sample_credential\<lparr>tc_authority_id := ''global'', tc_scope := scope\<rparr>"

definition sample_business_signed :: signed_travel_credential where
  "sample_business_signed = \<lparr>stc_authority_id = ''global'', stc_payload_hex = tohex [7],
     stc_signature_hex = tohex [11]\<rparr>"

definition sample_approval :: business_travel_approval where
  "sample_approval = \<lparr>bta_version = 1, bta_object_type = ''flowsplice.business_travel_approval'',
     bta_deployment_id = ''dep'', bta_authority_id = ''global'', bta_authority_epoch = 1,
     bta_request_id = 12, bta_request_sha256 = sample_pin CHR ''e'',
     bta_descriptor_sha256 = sample_digest, bta_credential_payload_sha256 = sample_digest\<rparr>"

definition sample_signed_approval :: signed_business_travel_approval where
  "sample_signed_approval = \<lparr>sba_authority_id = ''global'', sba_payload_hex = tohex [7],
     sba_signature_hex = tohex [11]\<rparr>"

definition sample_class_approval :: service_class_approval where
  "sample_class_approval = \<lparr>sca_version = 1, sca_object_type = ''flowsplice.service_class_travel_approval'',
     sca_deployment_id = ''dep'', sca_authority_id = ''global'', sca_authority_epoch = 1,
     sca_request_id = 12, sca_request_sha256 = sample_pin CHR ''e'',
     sca_descriptor_sha256 = sample_digest, sca_credential_payload_sha256 = sample_digest\<rparr>"

definition sample_signed_class_approval :: signed_service_class_approval where
  "sample_signed_class_approval = \<lparr>ssc_authority_id = ''global'', ssc_payload_hex = tohex [7],
     ssc_signature_hex = tohex [11]\<rparr>"

lemmas business_consts = BUSINESS_VERSION_def HOME_SERVICE_GRANT_TYPE_def BUSINESS_APPROVAL_TYPE_def
  SERVICE_CLASS_APPROVAL_TYPE_def MAX_PAYLOAD_BYTES_def

lemma sample_digests [simp]:
  "decode_payload sample_crypto (one_json v) (tohex [7]) = Ok (v, [7])"
  "payload_digest sample_crypto (tohex [7]) = Ok sample_digest"
  "json_digest sample_crypto (one_json v) v = Ok sample_digest"
  "unhex sample_digest = Some (replicate 31 0 @ [7])"
  by (simp_all add: decode_payload_Ok payload_digest_def decode_bytes_def json_digest_def encode_payload_def
      sha256_hex_def sample_digest_def unhex_tohex length_tohex MAX_PAYLOAD_BYTES_def bail_if_def)

lemma sample_signature [simp]:
  "verify_signature sample_crypto [7] (tohex [k + 7]) (sample_key k) = Ok ()"
  by (simp add: verify_signature_Ok unhex_tohex length_tohex)

lemma sample_business_credential_verifies:
  assumes "scope_validate scope = Ok ()"
  shows "credential_verify sample_crypto (one_json (sample_business_credential scope)) sample_business_signed
     sample_global = Ok (sample_business_credential scope)"
  using assms
  by (simp add: credential_verify_def verify_public_key_def sample_business_signed_def sample_global_def
      authority_defs unhex_tohex credential_validate_def sample_business_credential_def sample_credential_def
      TRAVEL_CREDENTIAL_VERSION_def TRAVEL_CREDENTIAL_OBJECT_TYPE_def digit_val_def)

lemma sample_authorities [simp]:
  "travel_authorities_with_home_delegations C J sample_trust [] =
     rbind (validate_trusted_authorities C [sample_authority 5, sample_global])
       (\<lambda>_. Ok [sample_authority 5, sample_global])"
  by (simp add: travel_authorities_with_home_delegations_def sample_trust_def)

lemma sample_grant_verifies:
  "grant_verify sample_crypto (one_json (sample_endpoint [])) (one_json sample_grant) sample_signed_grant
     sample_trust sample_signed_endpoint 150 = Ok sample_grant"
proof -
  note b = sample_endpoint_binds [of "[]", simplified]
  have e: "endpoint_verify sample_crypto (one_json (sample_endpoint [])) sample_signed_endpoint sample_trust 150
      = Ok (sample_endpoint [])"
    by (simp add: endpoint_verify_def b)
      (simp add: endpoint_validate_time_def sample_endpoint_def MAX_CLOCK_SKEW_SECS_def eval_simps)
  have v: "grant_validate sample_crypto sample_grant = Ok ()"
    by (simp add: grant_validate_def sample_grant_def business_consts validate_services_def
        business_service_validate_def sample_service_def digit_val_def token_char_def
        is_ascii_alphanumeric_def is_ascii_digit_def)
  have a: "home_enrollment_authority sample_trust (hsg_authority_id sample_grant)
      (hsg_authority_epoch sample_grant) = Ok \<lparr>hea_id = ''enroll'', hea_epoch = 1,
        hea_issuer_home_id = ''home-1'', hea_public_key = sample_key 8\<rparr>"
    by (simp add: home_enrollment_authority_def sample_trust_def sample_grant_def)
  have sg: "verify_signature sample_crypto [7] (tohex [15]) (sample_key 8) = Ok ()"
    using sample_signature [of 8] by simp
  have she: "she_payload_hex sample_signed_endpoint = tohex [7]"
    by (simp add: sample_signed_endpoint_def)
  have "grant_verify_binding sample_crypto (one_json (sample_endpoint [])) (one_json sample_grant)
      sample_signed_grant sample_trust sample_signed_endpoint = Ok sample_grant"
    by (simp add: grant_verify_binding_def b v a sg sample_signed_grant_def she)
      (simp add: sample_grant_def sample_endpoint_def sample_trust_def)
  then show ?thesis
    by (simp add: grant_verify_def e) (simp add: sample_grant_def MAX_CLOCK_SKEW_SECS_def eval_simps)
qed

definition sample_codecs :: codecs where
  "sample_codecs = \<lparr>j_endpoint = one_json (sample_endpoint []), j_grant = one_json sample_grant,
     j_credential = one_json (sample_business_credential (ScopeService ''home-2'' ''ssh'' Tcp)),
     j_approval = one_json sample_approval, j_descriptor = one_json sample_descriptor\<rparr>"

lemma sample_approval_verifies:
  "approval_verify sample_crypto sample_codecs sample_signed_approval sample_trust None sample_descriptor
     (sample_pin CHR ''e'') sample_business_signed 150
   = Ok (sample_business_credential (ScopeService ''home-2'' ''ssh'' Tcp))"
proof -
  let ?v = "\<lparr>vbd_home_id = ''home-2'', vbd_approving_home_id = ''home-1'',
     vbd_service = sample_service, vbd_not_after_unix_secs = 5000\<rparr>"
  have d: "descriptor_verify sample_crypto (one_json (sample_endpoint [])) (one_json sample_grant)
      sample_descriptor sample_trust 150 = Ok ?v"
    by (simp add: descriptor_verify_def sample_descriptor_def sample_grant_verifies business_consts)
      (simp add: sample_grant_def home_enrollment_authority_def sample_trust_def sample_service_def)
  have v: "approval_validate sample_crypto sample_approval = Ok ()"
    by (simp add: approval_validate_def sample_approval_def business_consts digit_val_def)
  have f: "List.find (\<lambda>a. authority_id a = bta_authority_id sample_approval)
      [sample_authority 5, sample_global] = Some sample_global"
    by (simp add: authority_id_def sample_authority_def sample_global_def sample_approval_def)
  have c: "credential_verify sample_crypto
      (one_json (sample_business_credential (ScopeService ''home-2'' ''ssh'' Tcp))) sample_business_signed
      sample_global = Ok (sample_business_credential (ScopeService ''home-2'' ''ssh'' Tcp))"
    by (rule sample_business_credential_verifies) simp
  have sg: "verify_signature sample_crypto [7] (tohex [11]) (authority_public_key sample_global) = Ok ()"
    using sample_signature [of 4] by (simp add: authority_public_key_def sample_global_def)
  show ?thesis
    by (simp add: approval_verify_def sample_codecs_def d v f c sg sample_authorities_valid issuer_bounds_def
        sample_signed_approval_def del: find.simps)
      (simp add: sample_approval_def sample_business_credential_def sample_credential_def sample_trust_def
        sample_global_def authority_defs sample_service_def credential_active_at_def
        sample_business_signed_def)
qed

lemma sample_class_verifies:
  "class_approval_verify sample_crypto (one_json (sample_endpoint []))
     (one_json (sample_business_credential (class_scope sample_class))) (one_json sample_class_approval)
     (one_json sample_class) sample_signed_class_approval sample_trust None sample_class
     (sample_pin CHR ''e'') sample_business_signed 150
   = Ok (sample_business_credential (class_scope sample_class))"
proof -
  have d: "class_verify_with_issuer sample_crypto (one_json (sample_endpoint [])) sample_class sample_trust
      None 150 = Ok ()"
    by (simp add: class_verify_with_issuer_def class_validate_def sample_class_def business_consts
        sample_authorities_valid eval_simps)
      (simp add: sample_trust_def sample_global_def)
  have v: "class_approval_validate sample_crypto sample_class_approval = Ok ()"
    by (simp add: class_approval_validate_def sample_class_approval_def business_consts digit_val_def
        token_char_def is_ascii_alphanumeric_def is_ascii_digit_def)
  have f: "List.find (\<lambda>a. authority_id a = sca_authority_id sample_class_approval)
      [sample_authority 5, sample_global] = Some sample_global"
    by (simp add: authority_id_def sample_authority_def sample_global_def sample_class_approval_def)
  have c: "credential_verify sample_crypto
      (one_json (sample_business_credential (class_scope sample_class))) sample_business_signed
      sample_global = Ok (sample_business_credential (class_scope sample_class))"
    by (rule sample_business_credential_verifies)
      (simp add: class_scope_def sample_class_def validate_application_protocol_def
        token_char_def is_ascii_alphanumeric_def is_ascii_digit_def)
  have sg: "verify_signature sample_crypto [7] (tohex [11]) (authority_public_key sample_global) = Ok ()"
    using sample_signature [of 4] by (simp add: authority_public_key_def sample_global_def)
  have g: "global_of_home (scd_approving_home_id sample_class) sample_global"
    by (simp add: sample_class_def sample_global_def)
  show ?thesis
    by (simp add: class_approval_verify_def d v f c g sg sample_authorities_valid issuer_bounds_def
        sample_signed_class_approval_def del: find.simps)
      (simp add: sample_class_approval_def sample_business_credential_def sample_credential_def
        sample_trust_def sample_global_def authority_defs credential_active_at_def
        sample_business_signed_def)
qed

section \<open>Properties\<close>



text \<open>An approved class credential opens a service only when the Home's signed metadata gives it
  the approved application protocol and transport, and nothing without such metadata; only a Global
  authority of the approving Home can have signed it.\<close>

theorem class_approval_exact:
  assumes "class_approval_verify C JE JC JA JD s t issuer d req cred now = Ok travel"
  shows "(\<forall>h sid p b. allows_business_service travel h sid p b \<longleftrightarrow>
         (\<exists>svc. b = Some svc \<and> bs_service_id svc = sid \<and> bs_protocol svc = p
            \<and> p = scd_protocol d \<and> bs_application_protocol svc = scd_application_protocol d))
     \<and> (\<forall>h sid p. \<not> allows_service travel h sid p)
     \<and> (\<exists>auths f. travel_authorities_with_home_delegations C JE t
            (case issuer of None \<Rightarrow> [] | Some i \<Rightarrow> [i]) = Ok auths
          \<and> AuthorityGlobal f \<in> set auths \<and> ta_home_id_field f = scd_approving_home_id d
          \<and> credential_verify C JC cred (AuthorityGlobal f) = Ok travel)
     \<and> credential_active_at travel now
     \<and> tc_not_after_unix_secs travel \<le> dt_not_after_unix_secs t"
proof -
  obtain auths a where
    a: "travel_authorities_with_home_delegations C JE t
       (case issuer of None \<Rightarrow> [] | Some i \<Rightarrow> [i]) = Ok auths" "a \<in> set auths"
    "global_of_home (scd_approving_home_id d) a" "credential_verify C JC cred a = Ok travel"
    and w: "credential_active_at travel now" "tc_not_after_unix_secs travel \<le> dt_not_after_unix_secs t"
    and sc: "tc_scope travel = class_scope d"
    using class_approval_verifyD [OF assms] by metis
  from a(3) obtain f where f: "a = AuthorityGlobal f" "ta_home_id_field f = scd_approving_home_id d"
    by (cases a) auto
  have "allows_business_service travel h sid p b \<longleftrightarrow>
      (\<exists>svc. b = Some svc \<and> bs_service_id svc = sid \<and> bs_protocol svc = p
         \<and> p = scd_protocol d \<and> bs_application_protocol svc = scd_application_protocol d)" for h sid p b
    by (auto simp: allows_business_service_def scope_allows_business_service_def sc class_scope_def
        split: option.splits)
  then show ?thesis
    using a w f by (auto simp: allows_service_def sc class_scope_def)
qed

theorem class_approval_exact_witness:
  "allows_business_service (sample_business_credential (class_scope sample_class)) ''home-2'' ''ssh'' Tcp
     (Some sample_service)
   \<and> \<not> allows_business_service (sample_business_credential (class_scope sample_class)) ''home-2'' ''ssh'' Tcp None"
  using class_approval_exact [OF sample_class_verifies] by (simp add: sample_service_def sample_class_def)

end
