(* ===== verification/State_File.thy ===== *)
theory State_File
  imports Authorization
begin

text \<open>
  The small JSON files that hold security-relevant state
  (\<open>internal/flowsplice-core/src/authorization.rs\<close>): atomic replacement, loading, and the
  initialization that never replaces what is already there. A file is the bytes at its path, or
  none; the file system's answers are arguments.
\<close>

section \<open>Files\<close>

type_synonym state_file = "bytes option"

text \<open>\<open>to_vec_pretty\<close> and \<open>from_slice\<close> for the type a file holds. The writer appends a newline,
  which JSON readers skip.\<close>

record 'a file_json =
  to_vec_pretty :: "'a \<Rightarrow> bytes option"
  parse_file :: "bytes \<Rightarrow> 'a option"

definition file_json_ok :: "'a file_json \<Rightarrow> bool" where
  "file_json_ok F \<longleftrightarrow> (\<forall>x b. to_vec_pretty F x = Some b \<longrightarrow> parse_file F (b @ [10]) = Some x)"

text \<open>How a replacement can end: done, or failed with an error before the rename or after it (the
  synchronization of the directory).\<close>

datatype store_event = Stored | StoreFails io_kind bool

definition store_json_atomic :: "'a file_json \<Rightarrow> store_event \<Rightarrow> state_file \<Rightarrow> 'a \<Rightarrow> unit res \<times> state_file" where
  "store_json_atomic F ev file v =
     (case to_vec_pretty F v of
        None \<Rightarrow> (Err (Auth EncodeFailed), file)
      | Some b \<Rightarrow> (case ev of
            Stored \<Rightarrow> (Ok (), Some (b @ [10]))
          | StoreFails k renamed \<Rightarrow> (Err (Io k), if renamed then Some (b @ [10]) else file)))"

definition load_json :: "'a file_json \<Rightarrow> state_file \<Rightarrow> 'a res" where
  "load_json F file = (case file of None \<Rightarrow> Err (Io OtherIo)
     | Some b \<Rightarrow> ok_or (parse_file F b) (Io InvalidData))"

section \<open>The authorization cache file\<close>

text \<open>What the file system does to \<open>initialize_authorization_cache\<close> once the path was found free:
  fail while the temporary file is written, link it, find that another process has put a file there
  in the meantime, or fail otherwise.\<close>

datatype init_event = PrepareFails io_kind | Linked | LostRace bytes | LinkFails io_kind

definition initialize_authorization_cache :: "authorization_cache file_json \<Rightarrow> init_event \<Rightarrow> state_file
    \<Rightarrow> bool res \<times> state_file" where
  "initialize_authorization_cache F ev file =
     (case file of
        Some b \<Rightarrow> (rbind (load_json F file) (\<lambda>_. Ok False), file)
      | None \<Rightarrow> (case ev of
            PrepareFails k \<Rightarrow> (Err (Io k), file)
          | _ \<Rightarrow> (case to_vec_pretty F cache_default of
                None \<Rightarrow> (Err (Auth EncodeFailed), file)
              | Some b \<Rightarrow> (case ev of
                    Linked \<Rightarrow> (Ok True, Some (b @ [10]))
                  | LostRace b' \<Rightarrow> (rbind (load_json F (Some b')) (\<lambda>_. Ok False), Some b')
                  | LinkFails k \<Rightarrow> (Err (Io k), file)
                  | PrepareFails k \<Rightarrow> (Err (Io k), file)))))"

definition load_initialized_authorization_cache :: "authorization_cache file_json \<Rightarrow> state_file
    \<Rightarrow> authorization_cache res" where
  "load_initialized_authorization_cache F file =
     rbind (bail_if (file = None) (AuthUse NotInitialized)) (\<lambda>_. load_json F file)"

lemma load_stored:
  assumes "file_json_ok F" "store_json_atomic F ev file v = (Ok (), file')"
  shows "load_json F file' = Ok v"
  using assms by (auto simp: store_json_atomic_def load_json_def file_json_ok_def
      split: option.splits store_event.splits)

lemma store_outcomes:
  "store_json_atomic F ev file v = (r, file') \<Longrightarrow> file_json_ok F \<Longrightarrow>
     file' = file \<and> r \<noteq> Ok () \<or> load_json F file' = Ok v"
  by (auto simp: store_json_atomic_def load_json_def file_json_ok_def
      split: option.splits store_event.splits if_splits)

text \<open>Initializing the authorization cache never changes an existing file, whether it was there
  before or appeared concurrently, and when it reports a fresh file, the next start loads the empty
  cache; a missing or unreadable file is never taken for an empty cache.\<close>

lemma cache_initialization_keeps_history:
  assumes "file_json_ok F" and "initialize_authorization_cache F ev file = (r, file')"
  shows "(\<forall>b. file = Some b \<longrightarrow> file' = Some b)
     \<and> (\<forall>b. ev = LostRace b \<longrightarrow> file = None \<longrightarrow> file' \<in> {None, Some b})
     \<and> (r = Ok True \<longrightarrow> file = None \<and> load_initialized_authorization_cache F file' = Ok cache_default)
     \<and> (r = Ok False \<longrightarrow> (\<exists>c. load_initialized_authorization_cache F file' = Ok c))
     \<and> load_initialized_authorization_cache F None = Err (AuthUse NotInitialized)"
  using assms
  by (auto simp: initialize_authorization_cache_def load_initialized_authorization_cache_def bail_if_def
      load_json_def file_json_ok_def split: option.splits init_event.splits)

section \<open>Revocations a party has accepted\<close>

text \<open>What a follower of the Server's snapshots knows of a set of revoked credentials: in the cache in
  memory, in the authorization it works with, and in the file a restart loads.\<close>

definition keeps_revoked :: "authorization_cache file_json \<Rightarrow> uuid set \<Rightarrow> authorization_cache \<Rightarrow> state_file
    \<Rightarrow> verified_authorization option \<Rightarrow> bool" where
  "keeps_revoked F R cache f authorization \<longleftrightarrow> R \<subseteq> ac_revoked_credentials cache
     \<and> (\<forall>va. authorization = Some va \<longrightarrow> R \<subseteq> va_revoked_credentials va)
     \<and> (\<exists>c. load_json F f = Ok c \<and> ac_revoked_credentials cache \<subseteq> ac_revoked_credentials c)"

lemma accept_revoked: "cache_accept c va = Ok c' \<Longrightarrow>
    ac_revoked_credentials c \<subseteq> ac_revoked_credentials c' \<and> ac_revoked_credentials c' = va_revoked_credentials va"
  by (auto simp: cache_accept_Ok)

lemma keeps_revoked_subset: "keeps_revoked F R c f a \<Longrightarrow> R' \<subseteq> R \<Longrightarrow> keeps_revoked F R' c f a"
  unfolding keeps_revoked_def by blast

text \<open>A snapshot that was accepted but could not be stored may or may not have reached the file.\<close>

lemma keeps_revoked_refused:
  assumes "keeps_revoked F R cache f a" "file_json_ok F" "cache_accept cache va = Ok c"
  shows "keeps_revoked F R cache (snd (store_json_atomic F ev f c)) a"
  using assms store_outcomes [of F ev f c _ "snd (store_json_atomic F ev f c)"] accept_revoked [OF assms(3)]
  by (auto simp: keeps_revoked_def prod_eq_iff)

lemma keeps_revoked_applied:
  assumes "keeps_revoked F R cache f a" "file_json_ok F" "cache_accept cache va = Ok c"
    "c = cache \<and> f' = f \<or> store_json_atomic F ev f c = (Ok (), f')"
  shows "keeps_revoked F (R \<union> va_revoked_credentials va) c f' (Some va)"
  using assms load_stored [of F ev f c f'] accept_revoked [OF assms(3)]
  by (auto simp: keeps_revoked_def)

end
