(* ===== verification/Server_Authorization.thy ===== *)
theory Server_Authorization
  imports Business State_File
begin

text \<open>
  The Server's authorization state (\<open>server/src/authorization.rs\<close>): the persistent snapshot of
  endpoint credentials, Travel credentials and revocations, the enrollment requests already used
  and the business grants. Every change is proposed, verified, made durable and only then
  published in memory.
\<close>

section \<open>State\<close>

definition AUTHORIZATION_STATE_VERSION :: u32 where "AUTHORIZATION_STATE_VERSION = 1"
definition MAX_CREDENTIALS :: nat where "MAX_CREDENTIALS = 2048"
definition MAX_REVOCATIONS :: nat where "MAX_REVOCATIONS = 2048"
definition MAX_STATE_BYTES :: nat where "MAX_STATE_BYTES = 900 * 1024"

record persistent_authorization_state =
  pas_version :: u32
  pas_snapshot :: travel_authorization_snapshot
  pas_used_enrollment_requests :: "string set"
  pas_business_home_grants :: "(string \<times> signed_home_service_grant) list"

definition persistent_default :: persistent_authorization_state where
  "persistent_default = \<lparr>pas_version = AUTHORIZATION_STATE_VERSION,
     pas_snapshot = \<lparr>tas_generation = 1, tas_home_endpoint_credentials = [], tas_credentials = [],
       tas_revocations = []\<rparr>,
     pas_used_enrollment_requests = {}, pas_business_home_grants = []\<rparr>"

record server_authorization =
  sa_deployment_id :: string
  sa_authorities :: "trusted_travel_authority list"
  sa_file :: state_file
  sa_snapshot :: travel_authorization_snapshot
  sa_verified :: verified_authorization
  sa_used_enrollment_requests :: "string set"
  sa_business_home_grants :: "(string \<times> signed_home_service_grant) list"

text \<open>The libraries the Server calls. \<open>sv_is_legacy\<close> is the test of the raw JSON for a snapshot
  without the field \<open>home_endpoint_credentials\<close>.\<close>

record server_env =
  sv_crypto :: crypto
  sv_j_credential :: "travel_credential json"
  sv_j_snapshot :: "travel_authorization_snapshot json"
  sv_j_endpoint :: "home_endpoint_credential json"
  sv_j_grant :: "home_service_grant json"
  sv_j_state :: "persistent_authorization_state json"
  sv_f_state :: "persistent_authorization_state file_json"
  sv_is_legacy :: "bytes \<Rightarrow> bool"

definition verify_snapshot :: "server_env \<Rightarrow> travel_authorization_snapshot \<Rightarrow> trusted_travel_authority list
    \<Rightarrow> string \<Rightarrow> verified_authorization res" where
  "verify_snapshot E snap auths dep =
     authorization_verify (sv_crypto E) (sv_j_credential E) (sv_j_snapshot E) snap auths dep"

definition delegations :: "server_env \<Rightarrow> deployment_trust \<Rightarrow> signed_home_endpoint_credential list
    \<Rightarrow> trusted_travel_authority list res" where
  "delegations E t creds = travel_authorities_with_home_delegations (sv_crypto E) (sv_j_endpoint E) t creds"

section \<open>Loading\<close>

definition validate_state_size :: "server_env \<Rightarrow> persistent_authorization_state \<Rightarrow> unit res" where
  "validate_state_size E st =
     rbind (bail_if (64 < length (tas_home_endpoint_credentials (pas_snapshot st))
         \<or> MAX_CREDENTIALS < length (tas_credentials (pas_snapshot st))
         \<or> MAX_REVOCATIONS < length (tas_revocations (pas_snapshot st))) (Server StateTooLarge)) (\<lambda>_.
     rbind (ok_or (to_vec (sv_j_state E) st) (Auth EncodeFailed)) (\<lambda>encoded.
     bail_if (MAX_STATE_BYTES < length encoded) (Server StateTooLarge)))"

definition binds_home :: "server_env \<Rightarrow> deployment_trust \<Rightarrow> signed_home_service_grant \<Rightarrow> string
    \<Rightarrow> signed_home_endpoint_credential \<Rightarrow> bool" where
  "binds_home E t grant home_id endpoint =
     (case grant_verify_binding (sv_crypto E) (sv_j_endpoint E) (sv_j_grant E) grant t endpoint of
        Ok verified \<Rightarrow> hsg_home_id verified = home_id | Err _ \<Rightarrow> False)"

definition validate_business_grants :: "server_env \<Rightarrow> deployment_trust \<Rightarrow> persistent_authorization_state
    \<Rightarrow> unit res" where
  "validate_business_grants E t st =
     for_each (\<lambda>(home_id, grant). bail_if
         (\<not> list_ex (binds_home E t grant home_id) (tas_home_endpoint_credentials (pas_snapshot st)))
         (Server GrantWithoutEndpoint))
       (pas_business_home_grants st)"

definition from_state :: "server_env \<Rightarrow> string \<Rightarrow> trusted_travel_authority list \<Rightarrow> state_file
    \<Rightarrow> persistent_authorization_state \<Rightarrow> server_authorization res" where
  "from_state E dep auths file st =
     rbind (validate_trusted_authorities (sv_crypto E) auths) (\<lambda>_.
     rbind (bail_if (pas_version st \<noteq> AUTHORIZATION_STATE_VERSION) (Server StateVersion)) (\<lambda>_.
     rbind (validate_state_size E st) (\<lambda>_.
     rbind (verify_snapshot E (pas_snapshot st) auths dep) (\<lambda>verified.
     rbind (bail_if (\<not> tc_enrollment_request_sha256 ` ran (va_credentials verified)
           \<subseteq> pas_used_enrollment_requests st) (Server UsedRequestOmitted)) (\<lambda>_.
     Ok \<lparr>sa_deployment_id = dep, sa_authorities = auths, sa_file = file,
         sa_snapshot = pas_snapshot st, sa_verified = verified,
         sa_used_enrollment_requests = pas_used_enrollment_requests st,
         sa_business_home_grants = pas_business_home_grants st\<rparr>)))))"

definition load_state :: "server_env \<Rightarrow> state_file \<Rightarrow> persistent_authorization_state res" where
  "load_state E file = load_json (sv_f_state E) file"

definition load_state_with_format :: "server_env \<Rightarrow> state_file \<Rightarrow> (persistent_authorization_state \<times> bool) res" where
  "load_state_with_format E file =
     rbind (load_json (sv_f_state E) file) (\<lambda>st.
     Ok (st, case file of None \<Rightarrow> False | Some b \<Rightarrow> sv_is_legacy E b))"

definition migrate_legacy_snapshot_generation :: "persistent_authorization_state \<Rightarrow> bool
    \<Rightarrow> persistent_authorization_state res" where
  "migrate_legacy_snapshot_generation st legacy =
     (if \<not> legacy then Ok st
      else rbind (ok_or (checked_add (tas_generation (pas_snapshot st)) 1) (Server GenerationExhausted)) (\<lambda>g.
        Ok (st\<lparr>pas_snapshot := (pas_snapshot st)\<lparr>tas_generation := g\<rparr>\<rparr>)))"

section \<open>Making a state durable\<close>

definition persist_with_grants :: "server_env \<Rightarrow> store_event \<Rightarrow> state_file \<Rightarrow> travel_authorization_snapshot
    \<Rightarrow> string set \<Rightarrow> (string \<times> signed_home_service_grant) list \<Rightarrow> unit res \<times> state_file" where
  "persist_with_grants E ev file snap used grants =
     (let st = \<lparr>pas_version = AUTHORIZATION_STATE_VERSION, pas_snapshot = snap,
            pas_used_enrollment_requests = used, pas_business_home_grants = grants\<rparr>
      in case validate_state_size E st of
           Err e \<Rightarrow> (Err e, file)
         | Ok _ \<Rightarrow> store_json_atomic (sv_f_state E) ev file st)"

definition persist :: "server_env \<Rightarrow> store_event \<Rightarrow> server_authorization \<Rightarrow> travel_authorization_snapshot
    \<Rightarrow> string set \<Rightarrow> unit res \<times> state_file" where
  "persist E ev sa snap used =
     persist_with_grants E ev (sa_file sa) snap used (sa_business_home_grants sa)"

text \<open>The end of every change: the proposed state is persisted; only when that succeeded does it
  become the state in memory.\<close>

definition publish :: "server_env \<Rightarrow> store_event \<Rightarrow> server_authorization \<Rightarrow> server_authorization
    \<Rightarrow> bool res \<times> server_authorization" where
  "publish E ev sa proposed =
     (case persist_with_grants E ev (sa_file sa) (sa_snapshot proposed)
          (sa_used_enrollment_requests proposed) (sa_business_home_grants proposed) of
        (Ok _, file) \<Rightarrow> (Ok True, proposed\<lparr>sa_file := file\<rparr>)
      | (Err e, file) \<Rightarrow> (Err e, sa\<lparr>sa_file := file\<rparr>))"

definition conclude :: "server_env \<Rightarrow> store_event \<Rightarrow> server_authorization \<Rightarrow> server_authorization option res
    \<Rightarrow> bool res \<times> server_authorization" where
  "conclude E ev sa r =
     (case r of Err e \<Rightarrow> (Err e, sa) | Ok None \<Rightarrow> (Ok False, sa)
      | Ok (Some proposed) \<Rightarrow> publish E ev sa proposed)"

definition load_with_trust :: "server_env \<Rightarrow> deployment_trust \<Rightarrow> store_event \<Rightarrow> state_file
    \<Rightarrow> server_authorization res \<times> state_file" where
  "load_with_trust E t ev file =
     (case rbind (load_state_with_format E file) (\<lambda>(st, legacy).
           rbind (validate_business_grants E t st) (\<lambda>_.
           rbind (migrate_legacy_snapshot_generation st legacy) (\<lambda>st'.
           rbind (delegations E t (tas_home_endpoint_credentials (pas_snapshot st'))) (\<lambda>auths.
           rbind (from_state E (dt_deployment_id t) auths file st') (\<lambda>sa. Ok (sa, legacy)))))) of
        Err e \<Rightarrow> (Err e, file)
      | Ok (sa, legacy) \<Rightarrow>
          (if \<not> legacy then (Ok sa, file)
           else (case persist E ev sa (sa_snapshot sa) (sa_used_enrollment_requests sa) of
                   (Ok _, file') \<Rightarrow> (Ok (sa\<lparr>sa_file := file'\<rparr>), file')
                 | (Err e, file') \<Rightarrow> (Err e, file'))))"

section \<open>Home endpoints and business Homes\<close>

definition endpoint_of_home :: "server_env \<Rightarrow> deployment_trust \<Rightarrow> u64 \<Rightarrow> string
    \<Rightarrow> signed_home_endpoint_credential \<Rightarrow> bool" where
  "endpoint_of_home E t now home_id existing =
     (case endpoint_verify (sv_crypto E) (sv_j_endpoint E) existing t now of
        Ok value \<Rightarrow> hec_home_id value = home_id | Err _ \<Rightarrow> False)"

definition home_endpoint_credential_for :: "server_env \<Rightarrow> server_authorization \<Rightarrow> string \<Rightarrow> deployment_trust
    \<Rightarrow> u64 \<Rightarrow> signed_home_endpoint_credential option" where
  "home_endpoint_credential_for E sa home_id t now =
     List.find (endpoint_of_home E t now home_id) (tas_home_endpoint_credentials (sa_snapshot sa))"

definition next_generation :: "travel_authorization_snapshot \<Rightarrow> u64 res" where
  "next_generation snap = ok_or (checked_add (tas_generation snap) 1) (Server GenerationExhausted)"

definition propose_home_endpoint :: "server_env \<Rightarrow> deployment_trust \<Rightarrow> u64 \<Rightarrow> server_authorization
    \<Rightarrow> signed_home_endpoint_credential \<Rightarrow> server_authorization option res" where
  "propose_home_endpoint E t now sa doc =
     rbind (endpoint_verify (sv_crypto E) (sv_j_endpoint E) doc t now) (\<lambda>endpoint.
     rbind (case map_of (sa_business_home_grants sa) (hec_home_id endpoint) of None \<Rightarrow> Ok ()
        | Some grant \<Rightarrow> rbind (grant_verify_binding (sv_crypto E) (sv_j_endpoint E) (sv_j_grant E) grant t doc)
            (\<lambda>_. Ok ())) (\<lambda>_.
     (case List.find (endpoint_of_home E t now (hec_home_id endpoint))
          (tas_home_endpoint_credentials (sa_snapshot sa)) of
        Some existing \<Rightarrow> if existing = doc then Ok None else Err (Server EndpointConflict)
      | None \<Rightarrow>
          rbind (next_generation (sa_snapshot sa)) (\<lambda>g.
          let proposed = (sa_snapshot sa)\<lparr>tas_generation := g,
                tas_home_endpoint_credentials := tas_home_endpoint_credentials (sa_snapshot sa) @ [doc]\<rparr> in
          rbind (delegations E t (tas_home_endpoint_credentials proposed)) (\<lambda>auths.
          rbind (verify_snapshot E proposed auths (sa_deployment_id sa)) (\<lambda>verified.
          Ok (Some (sa\<lparr>sa_snapshot := proposed, sa_authorities := auths, sa_verified := verified\<rparr>))))))))"

definition import_home_endpoint :: "server_env \<Rightarrow> deployment_trust \<Rightarrow> u64 \<Rightarrow> store_event
    \<Rightarrow> server_authorization \<Rightarrow> signed_home_endpoint_credential \<Rightarrow> bool res \<times> server_authorization" where
  "import_home_endpoint E t now ev sa doc = conclude E ev sa (propose_home_endpoint E t now sa doc)"

definition propose_business_home :: "server_env \<Rightarrow> deployment_trust \<Rightarrow> u64 \<Rightarrow> server_authorization
    \<Rightarrow> signed_home_endpoint_credential \<Rightarrow> signed_home_service_grant \<Rightarrow> server_authorization option res" where
  "propose_business_home E t now sa endpoint grant =
     rbind (grant_verify (sv_crypto E) (sv_j_endpoint E) (sv_j_grant E) grant t endpoint now) (\<lambda>approved.
     (case map_of (sa_business_home_grants sa) (hsg_home_id approved) of
        Some existing \<Rightarrow>
          if existing \<noteq> grant then Err (Server GrantConflict)
          else if endpoint \<notin> set (tas_home_endpoint_credentials (sa_snapshot sa))
          then Err (Server GrantEndpointChanged) else Ok None
      | None \<Rightarrow>
          rbind (bail_if (endpoint \<in> set (tas_home_endpoint_credentials (sa_snapshot sa)))
            (Server GenericHomeRestriction)) (\<lambda>_.
          rbind (for_each (\<lambda>existing. bail_if (endpoint_of_home E t now (hsg_home_id approved) existing)
            (Server EndpointConflict)) (tas_home_endpoint_credentials (sa_snapshot sa))) (\<lambda>_.
          rbind (bail_if (list_ex (\<lambda>home. het_home_id home = hsg_home_id approved) (dt_home_endpoints t))
            (Server StaticHomeReplace)) (\<lambda>_.
          rbind (next_generation (sa_snapshot sa)) (\<lambda>g.
          let proposed = (sa_snapshot sa)\<lparr>tas_generation := g,
                tas_home_endpoint_credentials := tas_home_endpoint_credentials (sa_snapshot sa) @ [endpoint]\<rparr> in
          rbind (delegations E t (tas_home_endpoint_credentials proposed)) (\<lambda>auths.
          rbind (verify_snapshot E proposed auths (sa_deployment_id sa)) (\<lambda>verified.
          Ok (Some (sa\<lparr>sa_snapshot := proposed, sa_authorities := auths, sa_verified := verified,
            sa_business_home_grants := AList.update (hsg_home_id approved) grant
              (sa_business_home_grants sa)\<rparr>))))))))))"

definition import_business_home :: "server_env \<Rightarrow> deployment_trust \<Rightarrow> u64 \<Rightarrow> store_event
    \<Rightarrow> server_authorization \<Rightarrow> signed_home_endpoint_credential \<Rightarrow> signed_home_service_grant
    \<Rightarrow> bool res \<times> server_authorization" where
  "import_business_home E t now ev sa endpoint grant =
     conclude E ev sa (propose_business_home E t now sa endpoint grant)"

definition validate_home_services :: "server_env \<Rightarrow> deployment_trust \<Rightarrow> u64 \<Rightarrow> server_authorization
    \<Rightarrow> string \<Rightarrow> signed_home_endpoint_credential option \<Rightarrow> service list \<Rightarrow> unit res" where
  "validate_home_services E t now sa home_id endpoint services =
     (case map_of (sa_business_home_grants sa) home_id of
        None \<Rightarrow> Ok ()
      | Some grant \<Rightarrow>
          rbind (ok_or endpoint (Server EndpointMissing)) (\<lambda>endpoint.
          rbind (grant_verify (sv_crypto E) (sv_j_endpoint E) (sv_j_grant E) grant t endpoint now) (\<lambda>g.
          validate_catalog_services g services)))"

section \<open>Credentials, revocations, installation\<close>

definition propose_revocation :: "server_env \<Rightarrow> u64 \<Rightarrow> server_authorization \<Rightarrow> uuid \<Rightarrow> string \<Rightarrow> string
    \<Rightarrow> server_authorization option res" where
  "propose_revocation E now sa credential_id reason publisher_home_id =
     rbind (ok_or (va_credentials (sa_verified sa) credential_id) (AuthUse UnknownCredential)) (\<lambda>credential.
     rbind (ok_or (List.find (\<lambda>a. authority_id a = tc_authority_id credential) (sa_authorities sa))
       (Auth UnknownAuthority)) (\<lambda>authority.
     rbind (bail_if (authority_home_id authority \<noteq> Some publisher_home_id) (Server NotIssuedByHome)) (\<lambda>_.
     if list_ex (\<lambda>r. rv_credential_id r = credential_id) (tas_revocations (sa_snapshot sa)) then Ok None
     else
       rbind (next_generation (sa_snapshot sa)) (\<lambda>g.
       let proposed = (sa_snapshot sa)\<lparr>tas_generation := g, tas_revocations := tas_revocations (sa_snapshot sa)
             @ [\<lparr>rv_credential_id = credential_id, rv_revoked_at_unix_secs = now, rv_reason = reason\<rparr>]\<rparr> in
       rbind (verify_snapshot E proposed (sa_authorities sa) (sa_deployment_id sa)) (\<lambda>verified.
       Ok (Some (sa\<lparr>sa_snapshot := proposed, sa_verified := verified\<rparr>)))))))"

definition revoke_from_home :: "server_env \<Rightarrow> u64 \<Rightarrow> store_event \<Rightarrow> server_authorization \<Rightarrow> uuid \<Rightarrow> string
    \<Rightarrow> string \<Rightarrow> bool res \<times> server_authorization" where
  "revoke_from_home E now ev sa credential_id reason publisher_home_id =
     conclude E ev sa (propose_revocation E now sa credential_id reason publisher_home_id)"

definition same_credential_id :: "server_env \<Rightarrow> server_authorization \<Rightarrow> uuid \<Rightarrow> signed_travel_credential
    \<Rightarrow> bool" where
  "same_credential_id E sa i existing =
     (case List.find (\<lambda>a. authority_id a = stc_authority_id existing) (sa_authorities sa) of
        None \<Rightarrow> False
      | Some a \<Rightarrow> (case credential_verify (sv_crypto E) (sv_j_credential E) existing a of
            Ok value \<Rightarrow> tc_credential_id value = i | Err _ \<Rightarrow> False))"

definition propose_credential :: "server_env \<Rightarrow> server_authorization \<Rightarrow> signed_travel_credential \<Rightarrow> string
    \<Rightarrow> server_authorization option res" where
  "propose_credential E sa doc publisher_home_id =
     rbind (ok_or (List.find (\<lambda>a. authority_id a = stc_authority_id doc) (sa_authorities sa))
       (Auth UnknownAuthority)) (\<lambda>authority.
     rbind (bail_if (authority_home_id authority \<noteq> Some publisher_home_id) (Server NotIssuedByHome)) (\<lambda>_.
     rbind (credential_verify (sv_crypto E) (sv_j_credential E) doc authority) (\<lambda>credential.
     (case List.find (same_credential_id E sa (tc_credential_id credential)) (tas_credentials (sa_snapshot sa)) of
        Some existing \<Rightarrow> if stc_payload_hex existing = stc_payload_hex doc then Ok None
                         else Err (Server CredentialMaterialConflict)
      | None \<Rightarrow>
          rbind (bail_if (tc_enrollment_request_sha256 credential \<in> sa_used_enrollment_requests sa)
            (Server RequestAlreadyUsed)) (\<lambda>_.
          rbind (next_generation (sa_snapshot sa)) (\<lambda>g.
          let proposed = (sa_snapshot sa)\<lparr>tas_generation := g,
                tas_credentials := tas_credentials (sa_snapshot sa) @ [doc]\<rparr> in
          rbind (verify_snapshot E proposed (sa_authorities sa) (sa_deployment_id sa)) (\<lambda>verified.
          Ok (Some (sa\<lparr>sa_snapshot := proposed, sa_verified := verified,
            sa_used_enrollment_requests := insert (tc_enrollment_request_sha256 credential)
              (sa_used_enrollment_requests sa)\<rparr>))))))))) "

definition import_credential :: "server_env \<Rightarrow> store_event \<Rightarrow> server_authorization
    \<Rightarrow> signed_travel_credential \<Rightarrow> string \<Rightarrow> bool res \<times> server_authorization" where
  "import_credential E ev sa doc publisher_home_id =
     conclude E ev sa (propose_credential E sa doc publisher_home_id)"

definition validate_install_acknowledgement :: "server_authorization \<Rightarrow> u64 \<Rightarrow> uuid \<Rightarrow> uuid \<Rightarrow> string
    \<Rightarrow> unit res" where
  "validate_install_acknowledgement sa now credential_id request_id approving_home_id =
     rbind (bail_if (\<not> is_active (sa_verified sa) credential_id now) (AuthUse CredentialInactive)) (\<lambda>_.
     rbind (ok_or (va_credentials (sa_verified sa) credential_id) (AuthUse UnknownCredential)) (\<lambda>credential.
     rbind (bail_if (request_id = uuid_nil \<or> tc_enrollment_request_id credential \<noteq> request_id)
       (Server InstallInvalid)) (\<lambda>_.
     rbind (ok_or (List.find (\<lambda>a. authority_id a = tc_authority_id credential
         \<and> authority_epoch a = tc_authority_epoch credential) (sa_authorities sa)) (Auth UnknownAuthority)) (\<lambda>authority.
     bail_if (authority_home_id authority \<noteq> Some approving_home_id) (Server InstallInvalid)))))"

definition global_issuer_home_ids :: "server_authorization \<Rightarrow> string set" where
  "global_issuer_home_ids sa = set (List.map_filter (\<lambda>a. case a of
     AuthorityGlobal d \<Rightarrow> Some (ta_home_id_field d) | AuthorityHome d \<Rightarrow> None) (sa_authorities sa))"

section \<open>Requests in sequence\<close>

datatype server_request =
    ImportHomeEndpoint signed_home_endpoint_credential
  | ImportBusinessHome signed_home_endpoint_credential signed_home_service_grant
  | RevokeFromHome uuid string string
  | ImportCredential signed_travel_credential string

fun handle_request :: "server_env \<Rightarrow> deployment_trust \<Rightarrow> server_authorization
    \<Rightarrow> server_request \<times> u64 \<times> store_event \<Rightarrow> bool res \<times> server_authorization" where
  "handle_request E t sa (ImportHomeEndpoint doc, now, ev) = import_home_endpoint E t now ev sa doc"
| "handle_request E t sa (ImportBusinessHome endpoint grant, now, ev) =
     import_business_home E t now ev sa endpoint grant"
| "handle_request E t sa (RevokeFromHome i reason home, now, ev) = revoke_from_home E now ev sa i reason home"
| "handle_request E t sa (ImportCredential doc home, now, ev) = import_credential E ev sa doc home"

fun handle_requests :: "server_env \<Rightarrow> deployment_trust \<Rightarrow> server_authorization
    \<Rightarrow> (server_request \<times> u64 \<times> store_event) list \<Rightarrow> server_authorization" where
  "handle_requests E t sa [] = sa"
| "handle_requests E t sa (r # rs) = handle_requests E t (snd (handle_request E t sa r)) rs"

section \<open>The invariant of the Server's state\<close>

definition requests_of :: "verified_authorization \<Rightarrow> string set" where
  "requests_of va = tc_enrollment_request_sha256 ` ran (va_credentials va)"

definition sa_inv :: "server_env \<Rightarrow> deployment_trust \<Rightarrow> server_authorization \<Rightarrow> bool" where
  "sa_inv E t sa \<longleftrightarrow> sa_deployment_id sa = dt_deployment_id t
     \<and> delegations E t (tas_home_endpoint_credentials (sa_snapshot sa)) = Ok (sa_authorities sa)
     \<and> verify_snapshot E (sa_snapshot sa) (sa_authorities sa) (sa_deployment_id sa) = Ok (sa_verified sa)
     \<and> requests_of (sa_verified sa) \<subseteq> sa_used_enrollment_requests sa
     \<and> (\<forall>(home_id, grant) \<in> set (sa_business_home_grants sa).
          list_ex (binds_home E t grant home_id) (tas_home_endpoint_credentials (sa_snapshot sa)))"

text \<open>One step of the published history, and any number of them.\<close>

definition advances :: "server_authorization \<Rightarrow> server_authorization \<Rightarrow> bool" where
  "advances sa sa' \<longleftrightarrow>
     tas_generation (sa_snapshot sa) < tas_generation (sa_snapshot sa')
     \<and> set (tas_revocations (sa_snapshot sa)) \<subseteq> set (tas_revocations (sa_snapshot sa'))
     \<and> set (tas_credentials (sa_snapshot sa)) \<subseteq> set (tas_credentials (sa_snapshot sa'))
     \<and> sa_used_enrollment_requests sa \<subseteq> sa_used_enrollment_requests sa'
     \<and> map_of (sa_business_home_grants sa) \<subseteq>\<^sub>m map_of (sa_business_home_grants sa')"

definition follows :: "server_authorization \<Rightarrow> server_authorization \<Rightarrow> bool" where
  "follows sa sa' \<longleftrightarrow> sa' = sa\<lparr>sa_file := sa_file sa'\<rparr> \<or> advances sa sa'"

lemma advances_trans: "advances a b \<Longrightarrow> advances b c \<Longrightarrow> advances a c"
  by (auto simp: advances_def intro: map_le_trans)

lemma advances_file [simp]:
  "advances sa (sa'\<lparr>sa_file := f\<rparr>) = advances sa sa'" "advances (sa\<lparr>sa_file := f\<rparr>) sa' = advances sa sa'"
  by (simp_all add: advances_def)

lemma advances_memory:
  "b = a\<lparr>sa_file := f\<rparr> \<Longrightarrow> advances b c \<Longrightarrow> advances a c"
  "c = b\<lparr>sa_file := f\<rparr> \<Longrightarrow> advances a b \<Longrightarrow> advances a c"
  by simp_all

lemma sa_file_update:
  "b = a\<lparr>sa_file := sa_file b\<rparr> \<Longrightarrow> c = b\<lparr>sa_file := sa_file c\<rparr> \<Longrightarrow> c = a\<lparr>sa_file := sa_file c\<rparr>"
  by (cases a; cases b; cases c) simp

lemma follows_trans: "follows a b \<Longrightarrow> follows b c \<Longrightarrow> follows a c"
  unfolding follows_def
proof (elim disjE)
  assume "b = a\<lparr>sa_file := sa_file b\<rparr>" "advances b c"
  then show "c = a\<lparr>sa_file := sa_file c\<rparr> \<or> advances a c"
    using advances_memory(1) by blast
next
  assume "advances a b" "c = b\<lparr>sa_file := sa_file c\<rparr>"
  then show "c = a\<lparr>sa_file := sa_file c\<rparr> \<or> advances a c"
    using advances_memory(2) by blast
qed (auto dest: sa_file_update advances_trans)

lemma next_generation_Ok: "next_generation s = Ok g \<Longrightarrow> tas_generation s < g"
  by (auto simp: next_generation_def intro: checked_add_less)

lemma list_ex_append_left: "list_ex P xs \<Longrightarrow> list_ex P (xs @ ys)"
  by simp

lemma delegations_snoc:
  assumes "delegations E t xs = Ok auths" "delegations E t (xs @ [x]) = Ok auths'"
  shows "\<exists>extra. auths' = auths @ extra"
  using delegations_Ok(1) [OF assms(1) [unfolded delegations_def]]
    delegations_Ok(1) [OF assms(2) [unfolded delegations_def]]
  by (simp add: delegations_of_def)

lemma requests_more_authorities:
  assumes "delegations E t (tas_home_endpoint_credentials snap) = Ok auths"
    and "delegations E t (tas_home_endpoint_credentials snap @ [x]) = Ok auths'"
    and "verify_snapshot E snap auths dep = Ok va" "verify_snapshot E snap' auths' dep = Ok va'"
    and "tas_credentials snap' = tas_credentials snap"
  shows "requests_of va' = requests_of va"
proof -
  obtain extra where "auths' = auths @ extra"
    using delegations_snoc [OF assms(1, 2)] by blast
  with ran_va_more_authorities assms(3-5) show ?thesis
    unfolding verify_snapshot_def requests_of_def by metis
qed

lemma propose_home_endpoint_inv:
  assumes "sa_inv E t sa" "propose_home_endpoint E t now sa d = Ok (Some sa')"
  shows "sa_inv E t sa' \<and> advances sa sa'"
proof -
  from assms(2) obtain g auths verified where
    g: "next_generation (sa_snapshot sa) = Ok g"
    and a: "delegations E t (tas_home_endpoint_credentials (sa_snapshot sa) @ [d]) = Ok auths"
    and v: "verify_snapshot E ((sa_snapshot sa)\<lparr>tas_generation := g, tas_home_endpoint_credentials :=
        tas_home_endpoint_credentials (sa_snapshot sa) @ [d]\<rparr>) auths (sa_deployment_id sa) = Ok verified"
    and sa': "sa' = sa\<lparr>sa_snapshot := (sa_snapshot sa)\<lparr>tas_generation := g, tas_home_endpoint_credentials :=
        tas_home_endpoint_credentials (sa_snapshot sa) @ [d]\<rparr>, sa_authorities := auths, sa_verified := verified\<rparr>"
    by (auto simp: propose_home_endpoint_def Let_def split: option.splits if_splits)
  have "requests_of verified = requests_of (sa_verified sa)"
    using assms(1) by (intro requests_more_authorities [OF _ a _ v]) (auto simp: sa_inv_def)
  then show ?thesis
    using assms(1) a v next_generation_Ok [OF g]
    by (auto simp: sa_inv_def sa' advances_def)
qed

lemma propose_business_homeD:
  assumes "propose_business_home E t now sa d grant = Ok (Some sa')"
  obtains approved g auths verified where
    "grant_verify (sv_crypto E) (sv_j_endpoint E) (sv_j_grant E) grant t d now = Ok approved"
    "map_of (sa_business_home_grants sa) (hsg_home_id approved) = None"
    "hsg_home_id approved \<notin> het_home_id ` set (dt_home_endpoints t)"
    "next_generation (sa_snapshot sa) = Ok g"
    "delegations E t (tas_home_endpoint_credentials (sa_snapshot sa) @ [d]) = Ok auths"
    "verify_snapshot E ((sa_snapshot sa)\<lparr>tas_generation := g, tas_home_endpoint_credentials :=
        tas_home_endpoint_credentials (sa_snapshot sa) @ [d]\<rparr>) auths (sa_deployment_id sa) = Ok verified"
    "sa' = sa\<lparr>sa_snapshot := (sa_snapshot sa)\<lparr>tas_generation := g, tas_home_endpoint_credentials :=
        tas_home_endpoint_credentials (sa_snapshot sa) @ [d]\<rparr>, sa_authorities := auths, sa_verified := verified,
        sa_business_home_grants := AList.update (hsg_home_id approved) grant (sa_business_home_grants sa)\<rparr>"
proof -
  from assms obtain approved where
    a: "grant_verify (sv_crypto E) (sv_j_endpoint E) (sv_j_grant E) grant t d now = Ok approved"
    by (auto simp: propose_business_home_def)
  then have none: "map_of (sa_business_home_grants sa) (hsg_home_id approved) = None"
    using assms by (cases "map_of (sa_business_home_grants sa) (hsg_home_id approved)")
      (auto simp: propose_business_home_def split: if_splits)
  have static: "hsg_home_id approved \<notin> het_home_id ` set (dt_home_endpoints t)"
    using assms a none by (auto simp: propose_business_home_def list_ex_iff)
  obtain g auths verified where "next_generation (sa_snapshot sa) = Ok g"
    "delegations E t (tas_home_endpoint_credentials (sa_snapshot sa) @ [d]) = Ok auths"
    "verify_snapshot E ((sa_snapshot sa)\<lparr>tas_generation := g, tas_home_endpoint_credentials :=
        tas_home_endpoint_credentials (sa_snapshot sa) @ [d]\<rparr>) auths (sa_deployment_id sa) = Ok verified"
    "sa' = sa\<lparr>sa_snapshot := (sa_snapshot sa)\<lparr>tas_generation := g, tas_home_endpoint_credentials :=
        tas_home_endpoint_credentials (sa_snapshot sa) @ [d]\<rparr>, sa_authorities := auths, sa_verified := verified,
        sa_business_home_grants := AList.update (hsg_home_id approved) grant (sa_business_home_grants sa)\<rparr>"
    using assms a none by (auto simp: propose_business_home_def Let_def)
  then show thesis
    using a none static by (rule_tac that)
qed

lemma set_AList_update: "set (AList.update k x al) \<subseteq> insert (k, x) (set al)"
  by (induction al) auto

lemma propose_business_home_inv:
  assumes "sa_inv E t sa" "propose_business_home E t now sa d grant = Ok (Some sa')"
  shows "sa_inv E t sa' \<and> advances sa sa'"
proof (rule propose_business_homeD [OF assms(2)])
  fix approved :: home_service_grant and g auths verified
  let ?grants = "AList.update (hsg_home_id approved) grant (sa_business_home_grants sa)"
  assume ap: "grant_verify (sv_crypto E) (sv_j_endpoint E) (sv_j_grant E) grant t d now = Ok approved"
    and new: "map_of (sa_business_home_grants sa) (hsg_home_id approved) = None"
    and g: "next_generation (sa_snapshot sa) = Ok g"
    and a: "delegations E t (tas_home_endpoint_credentials (sa_snapshot sa) @ [d]) = Ok auths"
    and v: "verify_snapshot E ((sa_snapshot sa)\<lparr>tas_generation := g, tas_home_endpoint_credentials :=
        tas_home_endpoint_credentials (sa_snapshot sa) @ [d]\<rparr>) auths (sa_deployment_id sa) = Ok verified"
    and sa': "sa' = sa\<lparr>sa_snapshot := (sa_snapshot sa)\<lparr>tas_generation := g, tas_home_endpoint_credentials :=
        tas_home_endpoint_credentials (sa_snapshot sa) @ [d]\<rparr>, sa_authorities := auths, sa_verified := verified,
        sa_business_home_grants := ?grants\<rparr>"
  have "requests_of verified = requests_of (sa_verified sa)"
    using assms(1) by (intro requests_more_authorities [OF _ a _ v]) (auto simp: sa_inv_def)
  moreover have "binds_home E t grant (hsg_home_id approved) d"
    using grant_verifyD(1) [OF ap] by (simp add: binds_home_def)
  then have "\<forall>(h, gr) \<in> set ?grants.
      list_ex (binds_home E t gr h) (tas_home_endpoint_credentials (sa_snapshot sa) @ [d])"
    using set_AList_update [of "hsg_home_id approved" grant "sa_business_home_grants sa"] assms(1)
    by (auto simp: sa_inv_def)
  ultimately have inv: "sa_inv E t sa'"
    using assms(1) a v by (simp add: sa_inv_def sa')
  have "map_of (sa_business_home_grants sa) \<subseteq>\<^sub>m map_of ?grants"
    using new by (auto simp: map_le_def update_conv')
  then have "advances sa sa'"
    using next_generation_Ok [OF g] by (simp add: advances_def sa')
  with inv show ?thesis ..
qed

lemma propose_revocation_inv:
  assumes "sa_inv E t sa" "propose_revocation E now sa i reason home = Ok (Some sa')"
  shows "sa_inv E t sa' \<and> advances sa sa'"
proof -
  from assms(2) obtain g verified r where
    g: "next_generation (sa_snapshot sa) = Ok g"
    and v: "verify_snapshot E ((sa_snapshot sa)\<lparr>tas_generation := g, tas_revocations :=
        tas_revocations (sa_snapshot sa) @ [r]\<rparr>) (sa_authorities sa) (sa_deployment_id sa) = Ok verified"
    and sa': "sa' = sa\<lparr>sa_snapshot := (sa_snapshot sa)\<lparr>tas_generation := g, tas_revocations :=
        tas_revocations (sa_snapshot sa) @ [r]\<rparr>, sa_verified := verified\<rparr>"
    by (auto simp: propose_revocation_def Let_def split: if_splits)
  have "requests_of verified = requests_of (sa_verified sa)"
    using assms(1) v ran_va_credentials unfolding sa_inv_def verify_snapshot_def requests_of_def by fastforce
  then show ?thesis
    using assms(1) v next_generation_Ok [OF g] by (auto simp: sa_inv_def sa' advances_def)
qed

lemma propose_credentialD:
  assumes "propose_credential E sa d home = Ok (Some sa')"
  obtains a c g verified where "a \<in> set (sa_authorities sa)" "authority_home_id a = Some home"
    "credential_verify (sv_crypto E) (sv_j_credential E) d a = Ok c"
    "tc_enrollment_request_sha256 c \<notin> sa_used_enrollment_requests sa"
    "next_generation (sa_snapshot sa) = Ok g"
    "verify_snapshot E ((sa_snapshot sa)\<lparr>tas_generation := g, tas_credentials :=
        tas_credentials (sa_snapshot sa) @ [d]\<rparr>) (sa_authorities sa) (sa_deployment_id sa) = Ok verified"
    "sa' = sa\<lparr>sa_snapshot := (sa_snapshot sa)\<lparr>tas_generation := g, tas_credentials :=
        tas_credentials (sa_snapshot sa) @ [d]\<rparr>, sa_verified := verified,
        sa_used_enrollment_requests := insert (tc_enrollment_request_sha256 c) (sa_used_enrollment_requests sa)\<rparr>"
proof -
  from assms obtain a c where a: "List.find (\<lambda>a. authority_id a = stc_authority_id d) (sa_authorities sa) = Some a"
    "authority_home_id a = Some home" "credential_verify (sv_crypto E) (sv_j_credential E) d a = Ok c"
    by (auto simp: propose_credential_def)
  then have none: "List.find (same_credential_id E sa (tc_credential_id c)) (tas_credentials (sa_snapshot sa)) = None"
    using assms
    by (cases "List.find (same_credential_id E sa (tc_credential_id c)) (tas_credentials (sa_snapshot sa))")
      (auto simp: propose_credential_def split: if_splits)
  show thesis
    using assms a none find_SomeD [OF a(1)] that by (auto simp: propose_credential_def Let_def)
qed

lemma authorities_distinct:
  assumes "sa_inv E t sa"
  shows "inj_on authority_id (set (sa_authorities sa))"
  using delegations_Ok(3) assms by (auto simp: sa_inv_def delegations_def distinct_map)

lemma verifying_authority_unique:
  assumes "sa_inv E t sa" "a \<in> set (sa_authorities sa)" "b \<in> set (sa_authorities sa)"
    "credential_verify C J d a = Ok x" "credential_verify C J d b = Ok y"
  shows "a = b \<and> x = y"
proof -
  have "authority_id a = authority_id b"
    using credential_verifyD(1) assms(4, 5) by metis
  then have "a = b"
    using authorities_distinct [OF assms(1)] assms(2, 3) by (auto dest!: inj_onD)
  with assms(4, 5) show ?thesis by simp
qed

lemma propose_credential_inv:
  assumes "sa_inv E t sa" "propose_credential E sa d home = Ok (Some sa')"
  shows "sa_inv E t sa' \<and> advances sa sa'"
proof -
  obtain a c g verified where a: "a \<in> set (sa_authorities sa)"
    and c: "credential_verify (sv_crypto E) (sv_j_credential E) d a = Ok c"
    and g: "next_generation (sa_snapshot sa) = Ok g"
    and v: "verify_snapshot E ((sa_snapshot sa)\<lparr>tas_generation := g, tas_credentials :=
        tas_credentials (sa_snapshot sa) @ [d]\<rparr>) (sa_authorities sa) (sa_deployment_id sa) = Ok verified"
    and sa': "sa' = sa\<lparr>sa_snapshot := (sa_snapshot sa)\<lparr>tas_generation := g, tas_credentials :=
        tas_credentials (sa_snapshot sa) @ [d]\<rparr>, sa_verified := verified,
        sa_used_enrollment_requests := insert (tc_enrollment_request_sha256 c) (sa_used_enrollment_requests sa)\<rparr>"
    using propose_credentialD [OF assms(2)] by metis
  have v0: "verify_snapshot E (sa_snapshot sa) (sa_authorities sa) (sa_deployment_id sa) = Ok (sa_verified sa)"
    using assms(1) unfolding sa_inv_def by blast
  have "x = c" if "b \<in> set (sa_authorities sa)"
    "credential_verify (sv_crypto E) (sv_j_credential E) d b = Ok x" for b x
    using verifying_authority_unique [OF assms(1) that(1) a that(2) c] by simp
  then have "ran (va_credentials verified) \<subseteq> insert c (ran (va_credentials (sa_verified sa)))"
    unfolding ran_va_credentials [OF v [unfolded verify_snapshot_def]]
      ran_va_credentials [OF v0 [unfolded verify_snapshot_def]] by auto
  then have "requests_of verified \<subseteq> insert (tc_enrollment_request_sha256 c) (requests_of (sa_verified sa))"
    by (auto simp: requests_of_def)
  then show ?thesis
    using assms(1) v next_generation_Ok [OF g] by (auto simp: sa_inv_def sa' advances_def)
qed

lemma sa_inv_file: "sa_inv E t (sa\<lparr>sa_file := f\<rparr>) = sa_inv E t sa"
  by (simp add: sa_inv_def)

lemma conclude_cases:
  assumes "conclude E ev sa r = (res, sa')"
  shows "sa' = sa\<lparr>sa_file := sa_file sa'\<rparr> \<and> res \<noteq> Ok True
    \<or> (\<exists>p. r = Ok (Some p) \<and> sa' = p\<lparr>sa_file := sa_file sa'\<rparr> \<and> res = Ok True
         \<and> persist_with_grants E ev (sa_file sa) (sa_snapshot sa') (sa_used_enrollment_requests sa')
             (sa_business_home_grants sa') = (Ok (), sa_file sa'))"
  using assms by (auto simp: conclude_def publish_def split: result.splits option.splits prod.splits)

fun proposal :: "server_env \<Rightarrow> deployment_trust \<Rightarrow> u64 \<Rightarrow> server_authorization \<Rightarrow> server_request
    \<Rightarrow> server_authorization option res" where
  "proposal E t now sa (ImportHomeEndpoint d) = propose_home_endpoint E t now sa d"
| "proposal E t now sa (ImportBusinessHome e g) = propose_business_home E t now sa e g"
| "proposal E t now sa (RevokeFromHome i r h) = propose_revocation E now sa i r h"
| "proposal E t now sa (ImportCredential d h) = propose_credential E sa d h"

lemma handle_request_proposal:
  "handle_request E t sa (r, now, ev) = conclude E ev sa (proposal E t now sa r)"
  by (cases r) (simp_all add: import_home_endpoint_def import_business_home_def revoke_from_home_def
      import_credential_def)

lemma proposal_inv:
  "sa_inv E t sa \<Longrightarrow> proposal E t now sa r = Ok (Some sa') \<Longrightarrow> sa_inv E t sa' \<and> advances sa sa'"
  by (cases r) (auto dest: propose_home_endpoint_inv propose_business_home_inv propose_revocation_inv
      propose_credential_inv)

lemma handle_request_step:
  assumes "sa_inv E t sa" "handle_request E t sa r = (res, sa')"
  shows "sa_inv E t sa'" "res = Ok True \<Longrightarrow> advances sa sa'"
    "res \<noteq> Ok True \<Longrightarrow> sa' = sa\<lparr>sa_file := sa_file sa'\<rparr>" "follows sa sa'"
proof -
  obtain q now ev where r: "r = (q, now, ev)" by (cases r)
  from conclude_cases [OF assms(2) [unfolded r handle_request_proposal]] proposal_inv [OF assms(1)]
  show "sa_inv E t sa'" "res = Ok True \<Longrightarrow> advances sa sa'"
    "res \<noteq> Ok True \<Longrightarrow> sa' = sa\<lparr>sa_file := sa_file sa'\<rparr>" "follows sa sa'"
    unfolding follows_def by (metis sa_inv_file advances_file assms(1))+
qed

lemma handle_requests_follow:
  "sa_inv E t sa \<Longrightarrow> sa_inv E t (handle_requests E t sa rs) \<and> follows sa (handle_requests E t sa rs)"
proof (induction rs arbitrary: sa)
  case Nil
  then show ?case by (simp add: follows_def)
next
  case (Cons r rs)
  obtain res sa1 where h: "handle_request E t sa r = (res, sa1)" by (cases "handle_request E t sa r")
  note s = handle_request_step [OF Cons.prems h]
  from Cons.IH [OF s(1)] s(4) show ?case
    by (auto simp: h intro: follows_trans)
qed

lemma published_proposal:
  assumes "handle_request E t sa (r, now, ev) = (Ok True, sa')"
  shows "\<exists>p. proposal E t now sa r = Ok (Some p) \<and> sa' = p\<lparr>sa_file := sa_file sa'\<rparr>
     \<and> persist_with_grants E ev (sa_file sa) (sa_snapshot sa') (sa_used_enrollment_requests sa')
         (sa_business_home_grants sa') = (Ok (), sa_file sa')"
  using conclude_cases [OF assms [unfolded handle_request_proposal]] by blast

lemma follows_facts:
  assumes "follows sa sa'"
  shows "sa_used_enrollment_requests sa \<subseteq> sa_used_enrollment_requests sa'"
    "set (tas_revocations (sa_snapshot sa)) \<subseteq> set (tas_revocations (sa_snapshot sa'))"
    "tas_generation (sa_snapshot sa) \<le> tas_generation (sa_snapshot sa')"
    "tas_generation (sa_snapshot sa') = tas_generation (sa_snapshot sa) \<Longrightarrow> sa_verified sa' = sa_verified sa"
proof -
  have mem: "sa_used_enrollment_requests sa' = sa_used_enrollment_requests sa \<and> sa_snapshot sa' = sa_snapshot sa
      \<and> sa_verified sa' = sa_verified sa" if "sa' = sa\<lparr>sa_file := sa_file sa'\<rparr>"
    using that by (cases sa; cases sa') simp
  show "sa_used_enrollment_requests sa \<subseteq> sa_used_enrollment_requests sa'"
    "set (tas_revocations (sa_snapshot sa)) \<subseteq> set (tas_revocations (sa_snapshot sa'))"
    "tas_generation (sa_snapshot sa) \<le> tas_generation (sa_snapshot sa')"
    "tas_generation (sa_snapshot sa') = tas_generation (sa_snapshot sa) \<Longrightarrow> sa_verified sa' = sa_verified sa"
    using assms mem unfolding follows_def by (auto simp: advances_def)
qed

lemma sa_inv_verified:
  assumes "sa_inv E t sa"
  shows "va_generation (sa_verified sa) = tas_generation (sa_snapshot sa)"
    "va_revoked_credentials (sa_verified sa) = rv_credential_id ` set (tas_revocations (sa_snapshot sa))"
proof -
  have v: "authorization_verify (sv_crypto E) (sv_j_credential E) (sv_j_snapshot E) (sa_snapshot sa)
      (sa_authorities sa) (sa_deployment_id sa) = Ok (sa_verified sa)"
    using assms unfolding sa_inv_def verify_snapshot_def by blast
  show "va_generation (sa_verified sa) = tas_generation (sa_snapshot sa)"
    "va_revoked_credentials (sa_verified sa) = rv_credential_id ` set (tas_revocations (sa_snapshot sa))"
    using authorization_verifyD(2, 4) [OF v] by simp_all
qed

section \<open>A concrete Server\<close>

definition sample_state :: "signed_travel_credential list \<Rightarrow> u64 \<Rightarrow> string set \<Rightarrow> persistent_authorization_state" where
  "sample_state cs g used = \<lparr>pas_version = 1,
     pas_snapshot = \<lparr>tas_generation = g, tas_home_endpoint_credentials = [], tas_credentials = cs,
       tas_revocations = []\<rparr>,
     pas_used_enrollment_requests = used, pas_business_home_grants = []\<rparr>"

definition sample_env :: server_env where
  "sample_env = \<lparr>sv_crypto = sample_crypto, sv_j_credential = one_json sample_credential,
     sv_j_snapshot = \<lparr>to_vec = (\<lambda>s. Some [7]), from_slice = (\<lambda>b. None)\<rparr>,
     sv_j_endpoint = one_json (sample_endpoint []), sv_j_grant = one_json sample_grant,
     sv_j_state = \<lparr>to_vec = (\<lambda>s. Some [7]), from_slice = (\<lambda>b. None)\<rparr>,
     sv_f_state = \<lparr>to_vec_pretty = (\<lambda>s. if s = sample_state [sample_signed] 2 {sample_pin CHR ''3''}
         then Some [1] else None),
       parse_file = (\<lambda>b. if b = [1, 10] then Some (sample_state [sample_signed] 2 {sample_pin CHR ''3''})
         else None)\<rparr>,
     sv_is_legacy = (\<lambda>b. False)\<rparr>"

definition sample_server :: "signed_travel_credential list \<Rightarrow> u64 \<Rightarrow> string set \<Rightarrow> verified_authorization
    \<Rightarrow> state_file \<Rightarrow> server_authorization" where
  "sample_server cs g used va f = \<lparr>sa_deployment_id = ''dep'',
     sa_authorities = [sample_authority 5, sample_global], sa_file = f,
     sa_snapshot = pas_snapshot (sample_state cs g used), sa_verified = va,
     sa_used_enrollment_requests = used, sa_business_home_grants = []\<rparr>"

definition sample_server0 :: server_authorization where
  "sample_server0 = sample_server [] 1 {} \<lparr>va_generation = 1,
     va_snapshot_sha256 = tohex (replicate 31 0 @ [7]), va_credentials = Map.empty,
     va_management_index = Map.empty, va_business_index = Map.empty, va_revoked_credentials = {}\<rparr> None"

definition sample_server1 :: server_authorization where
  "sample_server1 = sample_server [sample_signed] 2 {sample_pin CHR ''3''} (sample_verified 2 {}) (Some [1, 10])"

lemma sample_delegations_none:
  "delegations sample_env sample_trust [] = Ok [sample_authority 5, sample_global]"
  by (simp add: delegations_def sample_env_def sample_authorities_valid)

lemma sample_verify0:
  "verify_snapshot sample_env (pas_snapshot (sample_state [] 1 {})) [sample_authority 5, sample_global] ''dep''
     = Ok (sa_verified sample_server0)"
  by (simp add: verify_snapshot_def authorization_verify_def sample_state_def sample_env_def
      sample_authorities_valid sample_server0_def sample_server_def)

lemma sample_verify1:
  "verify_snapshot sample_env (pas_snapshot (sample_state [sample_signed] 2 used))
     [sample_authority 5, sample_global] ''dep'' = Ok (sample_verified 2 {})"
proof -
  have i: "authorities_by_id [sample_authority 5, sample_global] (stc_authority_id sample_signed)
      = Some (sample_authority 5)"
    by (simp add: authorities_by_id_def sample_authority_def sample_global_def authority_id_def sample_signed_def)
  have c: "tc_credential_id sample_credential = 11" "tc_deployment_id sample_credential = ''dep''"
    "management_key sample_credential = (''phone'', to_ascii_lowercase (sample_pin CHR ''4''))"
    "business_key sample_credential = (''phone'', to_ascii_lowercase (sample_pin CHR ''5''))"
    by (simp_all add: sample_credential_def management_key_def business_key_def)
  show ?thesis
    by (simp add: verify_snapshot_def authorization_verify_def sample_state_def sample_env_def
        sample_authorities_valid i c sample_credential_verifies index_push_def sample_verified_def)
qed

lemma sample_server0_inv: "sa_inv sample_env sample_trust sample_server0"
  using sample_delegations_none sample_verify0
  by (simp add: sa_inv_def sample_server0_def sample_server_def sample_state_def sample_trust_def requests_of_def)

lemma sample_import:
  "import_credential sample_env Stored sample_server0 sample_signed ''home-1'' = (Ok True, sample_server1)"
proof -
  have f: "List.find (\<lambda>a. authority_id a = stc_authority_id sample_signed) [sample_authority 5, sample_global]
      = Some (sample_authority 5)" "authority_home_id (sample_authority 5) = Some ''home-1''"
    by (simp_all add: authority_defs sample_authority_def sample_global_def sample_signed_def)
  have c: "credential_verify sample_crypto (one_json sample_credential) sample_signed (sample_authority 5)
      = Ok sample_credential" "tc_enrollment_request_sha256 sample_credential = sample_pin CHR ''3''"
    by (simp_all add: sample_credential_verifies) (simp add: sample_credential_def)
  have "propose_credential sample_env sample_server0 sample_signed ''home-1''
      = Ok (Some (sample_server1\<lparr>sa_file := None\<rparr>))"
    using sample_verify1 [of "{}"] f c
    by (simp add: propose_credential_def sample_server0_def sample_server1_def sample_server_def sample_state_def
        sample_env_def next_generation_def checked_add_def)
  then show ?thesis
    by (simp add: import_credential_def conclude_def publish_def persist_with_grants_def sample_server1_def
        sample_server0_def sample_server_def sample_state_def validate_state_size_def sample_env_def
        store_json_atomic_def AUTHORIZATION_STATE_VERSION_def MAX_CREDENTIALS_def MAX_REVOCATIONS_def
        MAX_STATE_BYTES_def bail_if_def)
qed

lemma sample_request:
  "handle_request sample_env sample_trust sample_server0 (ImportCredential sample_signed ''home-1'', 150, Stored)
     = (Ok True, sample_server1)"
  by (simp add: sample_import)

section \<open>Properties\<close>

text \<open>Every request keeps the Server's state consistent: the indexes in memory are those of the
  snapshot under the authorities that trust and the stored endpoint credentials give, every
  credential's enrollment request is marked as used and every business grant is bound to a stored
  endpoint. A request reported as a change advances the generation and loses nothing; any other
  outcome, a failed write included, leaves the state in memory as it was.\<close>

theorem server_state_invariant:
  assumes "sa_inv E t sa" and "handle_request E t sa r = (res, sa')"
  shows "sa_inv E t sa' \<and> (if res = Ok True then advances sa sa' else sa' = sa\<lparr>sa_file := sa_file sa'\<rparr>)"
  using handle_request_step [OF assms] by simp

theorem server_state_invariant_witness:
  "sa_inv sample_env sample_trust sample_server1 \<and> advances sample_server0 sample_server1"
  using server_state_invariant [OF sample_server0_inv sample_request] by simp

text \<open>C14: a Server that restarts after a reported change loads exactly the state it had published:
  what was acknowledged is durable, and what was durable is accepted again.\<close>

theorem server_restart_resumes:
  assumes "sa_inv E t sa" "file_json_ok (sv_f_state E)"
    and "\<And>st b. to_vec_pretty (sv_f_state E) st = Some b \<Longrightarrow> \<not> sv_is_legacy E (b @ [10])"
    and "handle_request E t sa (r, now, ev) = (Ok True, sa')"
  shows "load_with_trust E t ev' (sa_file sa') = (Ok sa', sa_file sa')"
proof -
  have inv: "sa_inv E t sa'"
    using handle_request_step(1) [OF assms(1, 4)] .
  let ?st = "\<lparr>pas_version = AUTHORIZATION_STATE_VERSION, pas_snapshot = sa_snapshot sa',
      pas_used_enrollment_requests = sa_used_enrollment_requests sa',
      pas_business_home_grants = sa_business_home_grants sa'\<rparr>"
  have "persist_with_grants E ev (sa_file sa) (sa_snapshot sa') (sa_used_enrollment_requests sa')
      (sa_business_home_grants sa') = (Ok (), sa_file sa')"
    using published_proposal [OF assms(4)] by blast
  then obtain b where size: "validate_state_size E ?st = Ok ()"
    and b: "to_vec_pretty (sv_f_state E) ?st = Some b" "sa_file sa' = Some (b @ [10])"
    by (auto simp: persist_with_grants_def Let_def store_json_atomic_def
        split: result.splits option.splits store_event.splits)
  have load: "load_state_with_format E (sa_file sa') = Ok (?st, False)"
    using assms(2) assms(3) [OF b(1)] b
    by (auto simp: load_state_with_format_def load_json_def file_json_ok_def)
  have "validate_business_grants E t ?st = Ok ()"
    using inv by (auto simp: validate_business_grants_def sa_inv_def)
  moreover have "validate_trusted_authorities (sv_crypto E) (sa_authorities sa') = Ok ()"
    using inv delegations_Ok(4) by (auto simp: sa_inv_def delegations_def)
  moreover have "verify_snapshot E (sa_snapshot sa') (sa_authorities sa') (dt_deployment_id t) = Ok (sa_verified sa')"
    "delegations E t (tas_home_endpoint_credentials (sa_snapshot sa')) = Ok (sa_authorities sa')"
    using inv unfolding sa_inv_def by auto
  moreover have "\<lparr>sa_deployment_id = dt_deployment_id t, sa_authorities = sa_authorities sa',
      sa_file = sa_file sa', sa_snapshot = sa_snapshot sa', sa_verified = sa_verified sa',
      sa_used_enrollment_requests = sa_used_enrollment_requests sa',
      sa_business_home_grants = sa_business_home_grants sa'\<rparr> = sa'"
    "tc_enrollment_request_sha256 ` ran (va_credentials (sa_verified sa')) \<subseteq> sa_used_enrollment_requests sa'"
    using inv by (auto simp: sa_inv_def requests_of_def)
  ultimately show ?thesis
    using size load
    by (simp add: load_with_trust_def migrate_legacy_snapshot_generation_def from_state_def bail_if_def)
qed

theorem server_restart_resumes_witness:
  "load_with_trust sample_env sample_trust (StoreFails OtherIo False) (Some [1, 10])
     = (Ok sample_server1, Some [1, 10])"
proof -
  have "file_json_ok (sv_f_state sample_env)"
    by (simp add: file_json_ok_def sample_env_def)
  moreover have "\<not> sv_is_legacy sample_env b" for b
    by (simp add: sample_env_def)
  ultimately have "load_with_trust sample_env sample_trust (StoreFails OtherIo False) (sa_file sample_server1)
      = (Ok sample_server1, sa_file sample_server1)"
    using server_restart_resumes [OF sample_server0_inv _ _ sample_request] by blast
  then show ?thesis
    by (simp add: sample_server1_def sample_server_def)
qed

text \<open>C10: a Home or Relay that has accepted one published snapshot accepts every snapshot the Server
  publishes after it, whatever requests the Server handles in between: the rollback protection of
  the peers never locks out the Server's own history.\<close>

theorem peers_accept_server_history:
  assumes "sa_inv E t sa" and "cache_accept cache0 (sa_verified sa) = Ok cache"
  shows "is_ok (cache_accept cache (sa_verified (handle_requests E t sa rs)))"
proof -
  let ?sa' = "handle_requests E t sa rs"
  have inv: "sa_inv E t ?sa'" and f: "follows sa ?sa'"
    using handle_requests_follow [OF assms(1)] by simp_all
  note v = sa_inv_verified [OF assms(1)] and v' = sa_inv_verified [OF inv]
  have "va_revoked_credentials (sa_verified sa) \<subseteq> va_revoked_credentials (sa_verified ?sa')"
    unfolding v(2) v'(2) using follows_facts(2) [OF f] by blast
  moreover have "va_generation (sa_verified sa) \<le> va_generation (sa_verified ?sa')"
    unfolding v(1) v'(1) by (rule follows_facts(3) [OF f])
  moreover have "va_generation (sa_verified ?sa') = va_generation (sa_verified sa) \<Longrightarrow>
      sa_verified ?sa' = sa_verified sa"
    unfolding v(1) v'(1) by (rule follows_facts(4) [OF f])
  ultimately show ?thesis
    using assms(2) by (auto simp: cache_accept_Ok is_ok_iff)
qed

theorem peers_accept_server_history_witness:
  "is_ok (cache_accept \<lparr>ac_generation = 1, ac_snapshot_sha256 = tohex (replicate 31 0 @ [7]),
      ac_revoked_credentials = {}\<rparr> (sa_verified sample_server1))"
proof -
  have "cache_accept cache_default (sa_verified sample_server0) = Ok \<lparr>ac_generation = 1,
      ac_snapshot_sha256 = tohex (replicate 31 0 @ [7]), ac_revoked_credentials = {}\<rparr>"
    by (simp add: cache_accept_Ok cache_default_def sample_server0_def sample_server_def)
  from peers_accept_server_history [OF sample_server0_inv this, of
      "[(ImportCredential sample_signed ''home-1'', 150, Stored)]"]
  show ?thesis by (simp add: sample_import)
qed

text \<open>C15: an enrollment request buys one credential: once the Server has accepted a credential for
  it, no credential with the same request fingerprint is ever accepted as new, whatever happens in
  between and whoever publishes it.\<close>

theorem enrollment_request_used_once:
  assumes "sa_inv E t sa"
    and "handle_request E t sa (ImportCredential d home, now, ev) = (Ok True, sa')"
    and "a \<in> set (sa_authorities sa)" "credential_verify (sv_crypto E) (sv_j_credential E) d a = Ok c"
    and "a2 \<in> set (sa_authorities (handle_requests E t sa' rs))"
      "credential_verify (sv_crypto E) (sv_j_credential E) d2 a2 = Ok c2"
    and "tc_enrollment_request_sha256 c2 = tc_enrollment_request_sha256 c"
  shows "fst (handle_request E t (handle_requests E t sa' rs) (ImportCredential d2 home2, now2, ev2)) \<noteq> Ok True"
proof
  let ?later = "handle_requests E t sa' rs"
  have inv': "sa_inv E t sa'"
    using handle_request_step(1) [OF assms(1, 2)] .
  have inv: "sa_inv E t ?later" and f: "follows sa' ?later"
    using handle_requests_follow [OF inv'] by simp_all
  obtain p where p: "propose_credential E sa d home = Ok (Some p)" "sa' = p\<lparr>sa_file := sa_file sa'\<rparr>"
    using published_proposal [OF assms(2)] by auto
  from p(1) have "tc_enrollment_request_sha256 c \<in> sa_used_enrollment_requests p"
    by (rule propose_credentialD)
      (use verifying_authority_unique [OF assms(1) assms(3) _ assms(4)] in force)
  moreover have "sa_used_enrollment_requests sa' = sa_used_enrollment_requests p"
    using p(2) by (cases p; cases sa') simp
  ultimately have used: "tc_enrollment_request_sha256 c2 \<in> sa_used_enrollment_requests ?later"
    using follows_facts(1) [OF f] assms(7) by auto
  assume "fst (handle_request E t ?later (ImportCredential d2 home2, now2, ev2)) = Ok True"
  then obtain sa2 where "handle_request E t ?later (ImportCredential d2 home2, now2, ev2) = (Ok True, sa2)"
    by (metis prod.collapse)
  then obtain p2 where "propose_credential E ?later d2 home2 = Ok (Some p2)"
    using published_proposal by fastforce
  then show False
    by (rule propose_credentialD)
      (use verifying_authority_unique [OF inv assms(5) _ assms(6)] used in force)
qed

theorem enrollment_request_used_once_witness:
  "fst (handle_request sample_env sample_trust sample_server1
      (ImportCredential sample_signed ''home-1'', 160, Stored)) \<noteq> Ok True"
proof -
  have "sample_authority 5 \<in> set (sa_authorities sample_server0)"
    "sample_authority 5 \<in> set (sa_authorities (handle_requests sample_env sample_trust sample_server1 []))"
    "credential_verify (sv_crypto sample_env) (sv_j_credential sample_env) sample_signed (sample_authority 5)
       = Ok sample_credential"
    by (simp_all add: sample_server0_def sample_server1_def sample_server_def sample_env_def
        sample_credential_verifies)
  from enrollment_request_used_once [OF sample_server0_inv sample_request this(1) this(3) this(2) this(3) refl]
  show ?thesis by simp
qed

text \<open>C12: a revocation is final: after the Server has acknowledged one, as new or as a repetition, no
  later state of the Server has the credential active at any time; and only the Home that owns the
  issuing authority can make it.\<close>

theorem server_revocation_final:
  assumes "sa_inv E t sa"
    and "handle_request E t sa (RevokeFromHome i reason home, now, ev) = (Ok changed, sa')"
  shows "\<not> is_active (sa_verified (handle_requests E t sa' rs)) i later
     \<and> (\<exists>c a. va_credentials (sa_verified sa) i = Some c \<and> a \<in> set (sa_authorities sa)
          \<and> authority_id a = tc_authority_id c \<and> authority_home_id a = Some home)"
proof -
  let ?r = "propose_revocation E now sa i reason home"
  have inv': "sa_inv E t sa'"
    using handle_request_step(1) [OF assms] .
  have concl: "conclude E ev sa ?r = (Ok changed, sa')"
    using assms(2) by (simp add: revoke_from_home_def)
  then obtain o' where r: "?r = Ok o'"
    by (cases ?r) (auto simp: conclude_def)
  then have who: "\<exists>c a. va_credentials (sa_verified sa) i = Some c \<and> a \<in> set (sa_authorities sa)
      \<and> authority_id a = tc_authority_id c \<and> authority_home_id a = Some home"
    by (auto simp: propose_revocation_def dest!: find_SomeD)
  have "i \<in> rv_credential_id ` set (tas_revocations (sa_snapshot sa'))"
  proof (cases o')
    case None
    then have "sa' = sa"
      using concl r by (simp add: conclude_def)
    moreover have "list_ex (\<lambda>r. rv_credential_id r = i) (tas_revocations (sa_snapshot sa))"
      using r None by (auto simp: propose_revocation_def Let_def split: if_splits)
    ultimately show ?thesis
      by (auto simp: list_ex_iff)
  next
    case (Some p)
    then have "i \<in> rv_credential_id ` set (tas_revocations (sa_snapshot p))"
      using r by (auto simp: propose_revocation_def Let_def split: if_splits)
    moreover have "sa_snapshot sa' = sa_snapshot p"
      using concl r Some by (auto simp: conclude_def publish_def split: prod.splits result.splits)
    ultimately show ?thesis by simp
  qed
  moreover have "sa_inv E t (handle_requests E t sa' rs)" "follows sa' (handle_requests E t sa' rs)"
    using handle_requests_follow [OF inv'] by simp_all
  ultimately have "i \<in> va_revoked_credentials (sa_verified (handle_requests E t sa' rs))"
    using sa_inv_verified(2) follows_facts(2) by blast
  then show ?thesis
    using who by (auto simp: is_active_def split: option.splits)
qed

theorem server_revocation_final_witness:
  "\<not> is_active (sample_verified 3 {11}) 11 150"
proof -
  let ?E = "sample_env\<lparr>sv_f_state := \<lparr>to_vec_pretty = (\<lambda>s. Some []), parse_file = (\<lambda>b. None)\<rparr>\<rparr>"
  let ?rev = "\<lparr>rv_credential_id = 11, rv_revoked_at_unix_secs = 150, rv_reason = ''lost''\<rparr>"
  let ?snap = "\<lparr>tas_generation = 3, tas_home_endpoint_credentials = [], tas_credentials = [sample_signed],
      tas_revocations = [?rev]\<rparr>"
  have inv: "sa_inv ?E sample_trust sample_server1"
    using handle_request_step(1) [OF sample_server0_inv sample_request]
    unfolding sa_inv_def verify_snapshot_def delegations_def
    by (elim conjE, intro conjI) (simp_all add: sample_server1_def sample_server_def)
  have i: "authorities_by_id [sample_authority 5, sample_global] (stc_authority_id sample_signed)
      = Some (sample_authority 5)"
    by (simp add: authorities_by_id_def sample_authority_def sample_global_def authority_id_def sample_signed_def)
  have c: "tc_credential_id sample_credential = 11" "tc_deployment_id sample_credential = ''dep''"
    "management_key sample_credential = (''phone'', to_ascii_lowercase (sample_pin CHR ''4''))"
    "business_key sample_credential = (''phone'', to_ascii_lowercase (sample_pin CHR ''5''))"
    "tc_authority_id sample_credential = ''issuer''"
    by (simp_all add: sample_credential_def management_key_def business_key_def)
  have v: "verify_snapshot ?E ?snap [sample_authority 5, sample_global] ''dep'' = Ok (sample_verified 3 {11})"
    by (simp add: verify_snapshot_def authorization_verify_def sample_env_def
        sample_authorities_valid i c sample_credential_verifies index_push_def sample_verified_def)
  have "authority_id (sample_authority 5) = ''issuer''" "authority_home_id (sample_authority 5) = Some ''home-1''"
    by (simp_all add: authority_defs sample_authority_def)
  then have "propose_revocation ?E 150 sample_server1 11 ''lost'' ''home-1''
      = Ok (Some (sample_server1\<lparr>sa_snapshot := ?snap, sa_verified := sample_verified 3 {11}\<rparr>))"
    using v by (simp add: propose_revocation_def sample_server1_def sample_server_def sample_state_def
        sample_verified_def c next_generation_def checked_add_def bail_if_def)
  then have "\<exists>sa'. handle_request ?E sample_trust sample_server1 (RevokeFromHome 11 ''lost'' ''home-1'', 150, Stored)
      = (Ok True, sa') \<and> sa_verified sa' = sample_verified 3 {11}"
    by (simp add: revoke_from_home_def conclude_def publish_def persist_with_grants_def validate_state_size_def
        sample_env_def store_json_atomic_def MAX_CREDENTIALS_def MAX_REVOCATIONS_def MAX_STATE_BYTES_def
        bail_if_def)
  then obtain sa' where h: "handle_request ?E sample_trust sample_server1
      (RevokeFromHome 11 ''lost'' ''home-1'', 150, Stored) = (Ok True, sa')" "sa_verified sa' = sample_verified 3 {11}"
    by blast
  from server_revocation_final [OF inv h(1), of "[]" 150] h(2) show ?thesis by simp
qed

end
