(* ===== verification/Route.thy ===== *)
theory Route
  imports Frame
begin

text \<open>
  The authenticated preface that opens a spliced route
  (\<open>internal/flowsplice-core/src/route.rs\<close>): magic, side and route identifier followed by an
  HMAC-SHA256 tag under the route secret. HMAC is the third-party \<open>aws_lc_rs\<close>, a parameter
  with its documented contract.
\<close>

record hmac =
  hm_sign :: "bytes \<Rightarrow> bytes \<Rightarrow> bytes"
  hm_verify :: "bytes \<Rightarrow> bytes \<Rightarrow> bytes \<Rightarrow> bool"

definition hmac_ok :: "hmac \<Rightarrow> bool" where
  "hmac_ok H \<longleftrightarrow> (\<forall>k m. length (hm_sign H k m) = 32)
     \<and> (\<forall>k m t. hm_verify H k m t \<longleftrightarrow> t = hm_sign H k m)"

definition MAGIC :: bytes where
  "MAGIC = [0x46, 0x53, 0x4C, 0x43, 0x52, 0x54, 0x45, 0x32]"

definition SIGNED_LEN :: nat where "SIGNED_LEN = 8 + 1 + 16"
definition MAC_LEN :: nat where "MAC_LEN = 32"

datatype route_side = SideTravel | SideHome

fun side_byte :: "route_side \<Rightarrow> byte" where
  "side_byte SideTravel = 1"
| "side_byte SideHome = 2"

definition side_try_from :: "byte \<Rightarrow> route_side res" where
  "side_try_from b = (if b = 1 then Ok SideTravel else if b = 2 then Ok SideHome
     else Err (Io InvalidData))"

record route_preface =
  pf_side :: route_side
  pf_id :: uuid

definition signed_bytes :: "route_side \<Rightarrow> uuid \<Rightarrow> bytes" where
  "signed_bytes side route_id =
     (let bs0 = replicate SIGNED_LEN 0;
          bs1 = overwrite bs0 0 MAGIC;
          bs2 = bs1[length MAGIC := side_byte side]
      in overwrite bs2 (length MAGIC + 1) (to_be_bytes route_id))"

definition write_preface :: "hmac \<Rightarrow> bytes \<Rightarrow> route_side \<Rightarrow> uuid \<Rightarrow> bytes \<Rightarrow> write_event
    \<Rightarrow> unit res poll \<times> bytes" where
  "write_preface H writer side route_id secret ev =
     (if length secret \<noteq> 32 then (Ready (Err (Io InvalidInput)), writer)
      else let header = signed_bytes side route_id;
               tag = hm_sign H secret header
           in (case ev of
                 Written \<Rightarrow> (Ready (Ok ()), writer @ header @ tag)
               | WriteFails n k \<Rightarrow> (Ready (Err (Io k)), writer @ take n (header @ tag))
               | WriteStalls n \<Rightarrow> (Pending, writer @ take n (header @ tag))))"

text \<open>\<open>read_exact\<close> runs the same loop as the frame reader, on a buffer of its own.\<close>

definition read_preface :: "read_event list \<Rightarrow> (route_preface \<times> bytes) res poll \<times> read_event list" where
  "read_preface ins =
     (case fill (replicate SIGNED_LEN 0) 0 ins of
        (Pending, _, _, ins1) \<Rightarrow> (Pending, ins1)
      | (Ready (Err e), _, _, ins1) \<Rightarrow> (Ready (Err e), ins1)
      | (Ready (Ok _), header, _, ins1) \<Rightarrow>
          (case fill (replicate MAC_LEN 0) 0 ins1 of
             (Pending, _, _, ins2) \<Rightarrow> (Pending, ins2)
           | (Ready (Err e), _, _, ins2) \<Rightarrow> (Ready (Err e), ins2)
           | (Ready (Ok _), mac, _, ins2) \<Rightarrow>
               (Ready
                  (if take (length MAGIC) header \<noteq> MAGIC then Err (Io InvalidData)
                   else rbind (side_try_from (header ! length MAGIC)) (\<lambda>side.
                     if length (drop (length MAGIC + 1) header) \<noteq> 16 then Err (Io InvalidData)
                     else Ok (\<lparr>pf_side = side,
                                pf_id = from_be_bytes (drop (length MAGIC + 1) header)\<rparr>, mac))),
                ins2)))"

definition verify_preface :: "hmac \<Rightarrow> route_preface \<Rightarrow> bytes \<Rightarrow> bytes \<Rightarrow> bool" where
  "verify_preface H preface mac secret =
     (if length secret \<noteq> 32 \<or> length mac \<noteq> MAC_LEN then False
      else hm_verify H secret (signed_bytes (pf_side preface) (pf_id preface)) mac)"

section \<open>Layout of the signed bytes\<close>

lemma length_MAGIC [simp]: "length MAGIC = 8"
  by (simp add: MAGIC_def)

lemma signed_bytes_layout: "signed_bytes side i = MAGIC @ [side_byte side] @ to_be_bytes i"
proof -
  have "overwrite (replicate 25 0) 0 MAGIC = MAGIC @ replicate 17 0"
    by (simp add: overwrite_def)
  moreover have "(MAGIC @ replicate 17 0)[8 := side_byte side] = MAGIC @ [side_byte side] @ replicate 16 0"
    by (simp add: list_update_append numeral_eq_Suc)
  ultimately show ?thesis
    by (simp add: signed_bytes_def SIGNED_LEN_def overwrite_def Let_def)
qed

lemma length_signed_bytes [simp]: "length (signed_bytes side i) = 25"
  by (simp add: signed_bytes_layout)

lemma side_byte_inj [simp]: "side_byte s = side_byte t \<longleftrightarrow> s = t"
  by (cases s; cases t) simp_all

lemma side_try_from_byte [simp]: "side_try_from (side_byte s) = Ok s"
  by (cases s) (simp_all add: side_try_from_def)

lemma to_be_bytes_inj: "to_be_bytes i = to_be_bytes j \<longleftrightarrow> i = j" for i j :: uuid
proof -
  have "from_be_bytes (to_be_bytes k) = k" for k :: uuid
    by (simp add: from_to_be_bytes)
  then show ?thesis by metis
qed

lemma signed_bytes_inj: "signed_bytes s i = signed_bytes t j \<longleftrightarrow> s = t \<and> i = j"
  by (simp add: signed_bytes_layout to_be_bytes_inj)

lemma read_preface_signed:
  assumes "chunks ins" "flat ins = signed_bytes side i @ mac @ rest" "length mac = 32"
  shows "\<exists>ins'. read_preface ins = (Ready (Ok (\<lparr>pf_side = side, pf_id = i\<rparr>, mac)), ins')
     \<and> chunks ins' \<and> flat ins' = rest"
proof -
  obtain ins1 where f1: "fill (replicate SIGNED_LEN 0) 0 ins =
      (Ready (Ok ()), signed_bytes side i, SIGNED_LEN, ins1)"
    and i1: "chunks ins1" "flat ins1 = mac @ rest"
    using fill_reads [of 0 "replicate SIGNED_LEN 0" ins] assms(1, 2) by (auto simp: SIGNED_LEN_def)
  obtain ins2 where f2: "fill (replicate MAC_LEN 0) 0 ins1 = (Ready (Ok ()), mac, MAC_LEN, ins2)"
    and i2: "chunks ins2" "flat ins2 = rest"
    using fill_reads [of 0 "replicate MAC_LEN 0" ins1] i1 assms(3) by (auto simp: MAC_LEN_def)
  have "take 8 (signed_bytes side i) = MAGIC" "signed_bytes side i ! 8 = side_byte side"
    "drop 9 (signed_bytes side i) = to_be_bytes i"
    by (simp_all add: signed_bytes_layout nth_append)
  with f1 f2 i2 show ?thesis
    by (simp add: read_preface_def from_to_be_bytes)
qed

section \<open>Properties\<close>

definition sum_hmac :: hmac where
  "sum_hmac = (let tag = (\<lambda>k m. replicate 31 0 @ [sum_list k + sum_list m])
     in \<lparr>hm_sign = tag, hm_verify = (\<lambda>k m t. t = tag k m)\<rparr>)"

lemma sum_hmac_ok: "hmac_ok sum_hmac"
  by (simp add: hmac_ok_def sum_hmac_def)

text \<open>A preface that is written under a route secret is read back with its side and
  identifier under any chunking, it verifies under that secret, and it verifies for another
  side or identifier only if HMAC gives two different signed headers the same tag.\<close>

theorem preface_roundtrip:
  assumes "hmac_ok H" and "write_preface H [] side i secret Written = (Ready (Ok ()), w)"
    and "chunks ins" and "flat ins = w @ rest"
  shows "\<exists>ins' mac. read_preface ins = (Ready (Ok (\<lparr>pf_side = side, pf_id = i\<rparr>, mac)), ins')
     \<and> flat ins' = rest \<and> verify_preface H \<lparr>pf_side = side, pf_id = i\<rparr> mac secret
     \<and> (\<forall>s j. verify_preface H \<lparr>pf_side = s, pf_id = j\<rparr> mac secret \<longrightarrow> (s, j) = (side, i)
          \<or> signed_bytes s j \<noteq> signed_bytes side i
            \<and> hm_sign H secret (signed_bytes s j) = hm_sign H secret (signed_bytes side i))"
proof -
  let ?mac = "hm_sign H secret (signed_bytes side i)"
  have s: "length secret = 32" and "w = signed_bytes side i @ ?mac"
    using assms(2) by (auto simp: write_preface_def Let_def split: if_splits)
  moreover have l: "length ?mac = 32"
    using assms(1) by (simp add: hmac_ok_def)
  ultimately obtain ins' where r: "read_preface ins =
      (Ready (Ok (\<lparr>pf_side = side, pf_id = i\<rparr>, ?mac)), ins')" "flat ins' = rest"
    using read_preface_signed [of ins side i ?mac rest] assms by auto
  have "verify_preface H \<lparr>pf_side = s, pf_id = j\<rparr> ?mac secret \<longleftrightarrow>
      ?mac = hm_sign H secret (signed_bytes s j)" for s j
    using assms(1) s l by (simp add: verify_preface_def hmac_ok_def MAC_LEN_def)
  then show ?thesis
    using r by (intro exI [of _ ins'] exI [of _ ?mac]) (auto simp: signed_bytes_inj)
qed

theorem preface_roundtrip_witness:
  "\<exists>ins' mac. read_preface
        [Bytes [0x46, 0x53], Bytes ([0x4C, 0x43, 0x52, 0x54, 0x45, 0x32, 2, 0, 0, 0, 0, 0, 0, 0, 0, 0, 0, 0, 0, 0, 0]),
         Bytes ([1, 44] @ replicate 31 0), Bytes [148, 7]]
      = (Ready (Ok (\<lparr>pf_side = SideHome, pf_id = 300\<rparr>, mac)), ins')
     \<and> flat ins' = [7] \<and> verify_preface sum_hmac \<lparr>pf_side = SideHome, pf_id = 300\<rparr> mac (replicate 32 1)"
proof -
  have s: "signed_bytes SideHome 300 =
      [0x46, 0x53, 0x4C, 0x43, 0x52, 0x54, 0x45, 0x32, 2, 0, 0, 0, 0, 0, 0, 0, 0, 0, 0, 0, 0, 0, 0] @ [1, 44]"
    by (simp add: signed_bytes_layout MAGIC_def eval_simps)
  have "write_preface sum_hmac [] SideHome 300 (replicate 32 1) Written =
      (Ready (Ok ()), [0x46, 0x53, 0x4C, 0x43, 0x52, 0x54, 0x45, 0x32, 2, 0, 0, 0, 0, 0, 0, 0, 0, 0, 0, 0, 0, 0, 0]
          @ [1, 44] @ replicate 31 0 @ [148])"
    by (simp add: write_preface_def s sum_hmac_def sum_list_replicate)
  from preface_roundtrip [OF sum_hmac_ok this, of
      "[Bytes [0x46, 0x53], Bytes ([0x4C, 0x43, 0x52, 0x54, 0x45, 0x32, 2, 0, 0, 0, 0, 0, 0, 0, 0, 0, 0, 0, 0, 0, 0]),
         Bytes ([1, 44] @ replicate 31 0), Bytes [148, 7]]" "[7]"]
  show ?thesis by fastforce
qed

end
