(* ===== verification/Relay.thy ===== *)
theory Relay
  imports Deployment State_File Route
begin

text \<open>
  The Relay (\<open>relay/src/main.rs\<close>): admission of Travel and Home sockets to a pending direct route
  and their pairing, the life of a pending route from the Server's grant to its pairing, expiry or
  removal, the authorization snapshot and the Relay directory it applies. Sockets are numbers; the
  clocks, fresh identifiers and the outcome of sends are arguments.
\<close>

section \<open>State\<close>

type_synonym socket = nat
text \<open>A recorded metric: family, Travel, Home, value and histogram sample.\<close>

type_synonym metric = "string \<times> string \<times> string \<times> u64 \<times> u64 option"

record server_grant =
  sg_work_id :: uuid
  sg_work_secret :: bytes
  sg_credential_id :: uuid
  sg_home_id :: string
  sg_expires_at_unix_secs :: u64

record travel_route_context =
  trc_request :: uuid
  trc_credential :: uuid
  trc_travel :: string
  trc_travel_session :: uuid
  trc_home :: string

record pending_route =
  pr_credential_id :: uuid
  pr_travel_id :: string
  pr_home_id :: string
  pr_work_id :: uuid
  pr_route_secret :: bytes
  pr_work_secret :: bytes
  pr_created :: instant
  pr_expires :: instant
  pr_travel :: "socket option"
  pr_home :: "socket option"

text \<open>The permits of the semaphore that are free are \<open>rs_permits\<close>. A route request takes one and is in
  \<open>rs_waiting\<close> while it holds it; a pending route takes it over; it is returned when the request or the
  route is dropped. A snapshot is applied in three steps that other tasks can get in between of: it is
  accepted under the lock of the cache, then the routes are swept under theirs, then the authorization
  is published; \<open>rs_applying\<close> holds, by task, what has been accepted but not yet published, and whether
  the routes have been swept for it.\<close>

record relay_state =
  rs_directory :: relay_directory
  rs_routes :: "(uuid \<times> pending_route) list"
  rs_authorization :: "verified_authorization option"
  rs_cache :: authorization_cache
  rs_cache_file :: state_file
  rs_applying :: "(nat \<times> verified_authorization \<times> bool) list"
  rs_trust :: deployment_trust
  rs_permits :: nat
  rs_waiting :: "travel_route_context list"
  rs_endpoint :: "(string \<times> string) option"
  rs_metrics :: "metric list"

definition relay_new :: "authorization_cache \<Rightarrow> state_file \<Rightarrow> deployment_trust \<Rightarrow> nat
    \<Rightarrow> (string \<times> string) option \<Rightarrow> relay_state" where
  "relay_new cache f t max_pending_routes endpoint =
     \<lparr>rs_directory = \<lparr>rd_generation = 0, rd_relays = []\<rparr>, rs_routes = [], rs_authorization = None,
      rs_cache = cache, rs_cache_file = f, rs_applying = [], rs_trust = t, rs_permits = max_pending_routes, rs_waiting = [],
      rs_endpoint = endpoint, rs_metrics = []\<rparr>"

definition record_relay_metric_sample :: "string \<Rightarrow> string \<Rightarrow> string \<Rightarrow> u64 \<Rightarrow> u64 option \<Rightarrow> relay_state
    \<Rightarrow> relay_state" where
  "record_relay_metric_sample family travel home v sample st =
     st\<lparr>rs_metrics := rs_metrics st @ [(family, travel, home, v, sample)]\<rparr>"

definition record_relay_metric :: "string \<Rightarrow> string \<Rightarrow> string \<Rightarrow> u64 \<Rightarrow> relay_state \<Rightarrow> relay_state" where
  "record_relay_metric family travel home v = record_relay_metric_sample family travel home v None"

section \<open>Decisions on the synchronized authorization\<close>

definition synchronized :: "relay_state \<Rightarrow> verified_authorization res" where
  "synchronized st = ok_or (rs_authorization st) (AuthUse NotSynchronized)"

definition relay_management_identity :: "relay_state \<Rightarrow> peer_identity \<Rightarrow> u64 \<Rightarrow> uuid res" where
  "relay_management_identity st identity now =
     rbind (synchronized st) (\<lambda>va.
     rbind (authorize_management_all va identity now) (\<lambda>cs.
     ok_or (map_option tc_credential_id (max_by_key tc_not_after_unix_secs cs)) (AuthUse CredentialInactive)))"

definition relay_management_for_home :: "relay_state \<Rightarrow> peer_identity \<Rightarrow> u64 \<Rightarrow> string \<Rightarrow> uuid res" where
  "relay_management_for_home st identity now home_id =
     rbind (synchronized st) (\<lambda>va.
     rbind (authorize_management_for_home va identity home_id now) (\<lambda>c. Ok (tc_credential_id c)))"

definition ensure_credential_active :: "verified_authorization option \<Rightarrow> uuid \<Rightarrow> u64 \<Rightarrow> u64 res" where
  "ensure_credential_active authorization i now =
     rbind (ok_or authorization (AuthUse NotSynchronized)) (\<lambda>va.
     rbind (bail_if (\<not> is_active va i now) (AuthUse CredentialInactive)) (\<lambda>_.
     ok_or (map_option tc_not_after_unix_secs (va_credentials va i)) (AuthUse UnknownCredential)))"

section \<open>From a route request to a pending route\<close>

datatype route_reply = RouteGranted uuid bytes string | RouteDenied string

text \<open>Before the Server is asked: a permit and a public endpoint are needed.\<close>

definition route_begin :: "travel_route_context \<Rightarrow> relay_state \<Rightarrow> route_reply option \<times> relay_state" where
  "route_begin req st =
     (if rs_permits st = 0
      then (Some (RouteDenied ''relay pending-route limit reached''),
            record_relay_metric ''relay_route_denied'' (trc_travel req) (trc_home req) 1 st)
      else (case rs_endpoint st of
          None \<Rightarrow> (Some (RouteDenied ''relay public endpoint is unavailable''),
                   record_relay_metric ''relay_route_denied'' (trc_travel req) (trc_home req) 1 st)
        | Some _ \<Rightarrow> (None, st\<lparr>rs_permits := rs_permits st - 1, rs_waiting := req # rs_waiting st\<rparr>)))"

definition drop_permit :: "travel_route_context \<Rightarrow> relay_state \<Rightarrow> relay_state" where
  "drop_permit req st = st\<lparr>rs_waiting := remove1 req (rs_waiting st), rs_permits := rs_permits st + 1\<rparr>"

text \<open>What the Server answered, the clocks, the fresh route id and secret, and the configured
  lifetime. A matching, unexpired grant becomes a pending route, which takes over the permit.\<close>

definition route_answered :: "travel_route_context \<Rightarrow> (server_grant, string) result \<Rightarrow> u64 \<Rightarrow> instant
    \<Rightarrow> uuid \<Rightarrow> bytes \<Rightarrow> nat \<Rightarrow> relay_state \<Rightarrow> route_reply option \<times> relay_state" where
  "route_answered req answer now_unix now route_id route_secret route_ttl_secs st =
     (case answer of
        Err reason \<Rightarrow> (Some (RouteDenied reason), drop_permit req
          (record_relay_metric ''relay_route_denied'' (trc_travel req) (trc_home req) 1 st))
      | Ok grant \<Rightarrow>
          if sg_credential_id grant = trc_credential req \<and> sg_home_id grant = trc_home req then
            let remaining = sat_sub (sg_expires_at_unix_secs grant) now_unix in
            if remaining = 0
            then (Some (RouteDenied ''Server direct-route grant expired''), drop_permit req
              (record_relay_metric ''relay_route_expired'' (trc_travel req) (trc_home req) 1 st))
            else (None, st\<lparr>rs_waiting := remove1 req (rs_waiting st), rs_routes := (route_id,
              \<lparr>pr_credential_id = trc_credential req, pr_travel_id = trc_travel req,
               pr_home_id = trc_home req, pr_work_id = sg_work_id grant, pr_route_secret = route_secret,
               pr_work_secret = sg_work_secret grant, pr_created = now,
               pr_expires = now + min (unat remaining) route_ttl_secs, pr_travel = None,
               pr_home = None\<rparr>) # rs_routes st\<rparr>)
          else (Some (RouteDenied ''Server route credential or Home mismatch''), drop_permit req
            (record_relay_metric ''relay_route_denied'' (trc_travel req) (trc_home req) 1 st)))"

definition remove_route :: "uuid \<Rightarrow> relay_state \<Rightarrow> relay_state" where
  "remove_route route_id st =
     (let routes = AList.delete route_id (rs_routes st)
      in st\<lparr>rs_routes := routes, rs_permits := rs_permits st + (length (rs_routes st) - length routes)\<rparr>)"

text \<open>The Server is told that the work is ready, then Travel gets its grant; either may fail, and
  then the route is taken back.\<close>

definition route_finish :: "uuid \<Rightarrow> bytes \<Rightarrow> string \<Rightarrow> unit res \<Rightarrow> unit res \<Rightarrow> relay_state
    \<Rightarrow> route_reply res \<times> relay_state" where
  "route_finish route_id route_secret data_addr readiness written st =
     (case readiness of Err e \<Rightarrow> (Err e, remove_route route_id st)
      | Ok _ \<Rightarrow> (case written of Err e \<Rightarrow> (Err e, remove_route route_id st)
          | Ok _ \<Rightarrow> (Ok (RouteGranted route_id route_secret data_addr), st)))"

section \<open>Admission and pairing of sockets\<close>

definition resolve_direct_route_id :: "(uuid \<times> pending_route) list \<Rightarrow> route_preface \<Rightarrow> uuid option" where
  "resolve_direct_route_id routes preface =
     (case pf_side preface of
        SideTravel \<Rightarrow> (if map_of routes (pf_id preface) \<noteq> None then Some (pf_id preface) else None)
      | SideHome \<Rightarrow> map_option fst (List.find (\<lambda>(i, r). pr_work_id r = pf_id preface) routes))"

definition validate_direct_route_admission :: "hmac \<Rightarrow> uuid \<Rightarrow> pending_route \<Rightarrow> route_preface \<Rightarrow> bytes
    \<Rightarrow> instant \<Rightarrow> unit res" where
  "validate_direct_route_admission H route_id r preface mac now =
     (let (expected_id, expected_secret, occupied) = (case pf_side preface of
          SideTravel \<Rightarrow> (route_id, pr_route_secret r, pr_travel r \<noteq> None)
        | SideHome \<Rightarrow> (pr_work_id r, pr_work_secret r, pr_home r \<noteq> None))
      in rbind (bail_if (pf_id preface \<noteq> expected_id) (Relay WrongSide)) (\<lambda>_.
         rbind (bail_if (pr_expires r \<le> now) (Relay RouteExpired)) (\<lambda>_.
         rbind (bail_if (\<not> verify_preface H preface mac expected_secret) (Relay BadMac)) (\<lambda>_.
         bail_if occupied (Relay DuplicateSide)))))"

record paired_route =
  pd_route_id :: uuid
  pd_work_id :: uuid
  pd_credential_id :: uuid
  pd_travel_id :: string
  pd_home_id :: string
  pd_travel :: socket
  pd_home :: socket

definition take_side :: "route_side \<Rightarrow> socket \<Rightarrow> pending_route \<Rightarrow> pending_route res" where
  "take_side side s r = (case side of
     SideTravel \<Rightarrow> if pr_travel r = None then Ok (r\<lparr>pr_travel := Some s\<rparr>) else Err (Relay DuplicateSide)
   | SideHome \<Rightarrow> if pr_home r = None then Ok (r\<lparr>pr_home := Some s\<rparr>) else Err (Relay DuplicateSide))"

text \<open>The critical section of \<open>run_data\<close> under the lock of the routes. The clock is read twice; the
  last argument is the age of the route in milliseconds, for the metrics.\<close>

definition admit_socket :: "hmac \<Rightarrow> socket \<Rightarrow> route_preface \<Rightarrow> bytes \<Rightarrow> u64 \<Rightarrow> instant \<Rightarrow> instant
    \<Rightarrow> u64 \<Rightarrow> relay_state \<Rightarrow> paired_route option res \<times> relay_state" where
  "admit_socket H s preface mac now_unix now1 now2 setup_latency_ms st =
     (case rbind (ok_or (resolve_direct_route_id (rs_routes st) preface) (Relay UnknownRoute)) (\<lambda>route_id.
           rbind (ok_or (map_of (rs_routes st) route_id) (Relay UnknownRoute)) (\<lambda>r.
           rbind (bail_if (pr_expires r \<le> now1) (Relay RouteExpired)) (\<lambda>_.
           rbind (ensure_credential_active (rs_authorization st) (pr_credential_id r) now_unix) (\<lambda>_.
           rbind (validate_direct_route_admission H route_id r preface mac now2) (\<lambda>_.
           rbind (take_side (pf_side preface) s r) (\<lambda>r'. Ok (route_id, r'))))))) of
        Err e \<Rightarrow> (Err e, st)
      | Ok (route_id, r) \<Rightarrow>
          (case (pr_travel r, pr_home r) of
             (Some travel, Some home) \<Rightarrow>
               (Ok (Some \<lparr>pd_route_id = route_id, pd_work_id = pr_work_id r,
                  pd_credential_id = pr_credential_id r, pd_travel_id = pr_travel_id r,
                  pd_home_id = pr_home_id r, pd_travel = travel, pd_home = home\<rparr>),
                record_relay_metric_sample ''relay_route_setup_latency_ms'' (pr_travel_id r) (pr_home_id r)
                    setup_latency_ms (Some setup_latency_ms)
                  (record_relay_metric ''relay_route_paired'' (pr_travel_id r) (pr_home_id r) 1
                    (remove_route route_id st)))
           | _ \<Rightarrow> (Ok None, st\<lparr>rs_routes := AList.update route_id r (rs_routes st)\<rparr>)))"

definition retain_routes :: "(pending_route \<Rightarrow> bool) \<Rightarrow> relay_state \<Rightarrow> relay_state" where
  "retain_routes keep st =
     (let routes = filter (\<lambda>(i, r). keep r) (rs_routes st)
      in st\<lparr>rs_routes := routes, rs_permits := rs_permits st + (length (rs_routes st) - length routes)\<rparr>)"

definition cleanup_routes :: "instant \<Rightarrow> relay_state \<Rightarrow> relay_state" where
  "cleanup_routes now st =
     retain_routes (\<lambda>r. now < pr_expires r)
       (st\<lparr>rs_metrics := rs_metrics st @ map (\<lambda>(i, r). (''relay_route_expired'', pr_travel_id r, pr_home_id r, 1, None))
          (filter (\<lambda>(i, r). \<not> now < pr_expires r) (rs_routes st))\<rparr>)"

section \<open>The spliced carrier\<close>

text \<open>What the waiting task sees: a new authorization and the time at which it looks, the end of the
  channel, or that the lifetime of the credential has passed.\<close>

datatype carrier_event = AuthorizationChanged "verified_authorization option" u64 | AuthorizationClosed | LifetimeOver

text \<open>Whether \<open>wait_until_authorization_inactive\<close> has returned after these events.\<close>

fun wait_until_authorization_inactive :: "verified_authorization option \<Rightarrow> uuid \<Rightarrow> u64
    \<Rightarrow> carrier_event list \<Rightarrow> bool" where
  "wait_until_authorization_inactive authorization i now evs =
     (case ensure_credential_active authorization i now of
        Err e \<Rightarrow> True
      | Ok not_after \<Rightarrow> (case evs of
            [] \<Rightarrow> False
          | AuthorizationChanged authorization' now' # evs' \<Rightarrow>
              wait_until_authorization_inactive authorization' i now' evs'
          | _ # _ \<Rightarrow> True))"

text \<open>How the splice of a pair ends: both copies finished, a copy failed, or the wait returned.\<close>

datatype splice_end = Transferred u64 u64 | TransferFailed io_kind | CredentialEnded

definition carrier_finished :: "paired_route \<Rightarrow> splice_end \<Rightarrow> relay_state \<Rightarrow> unit res \<times> relay_state" where
  "carrier_finished p out st = (case out of
     Transferred up down \<Rightarrow> (Ok (),
       record_relay_metric ''relay_transport_download_bytes'' (pd_travel_id p) (pd_home_id p) down
         (record_relay_metric ''relay_transport_upload_bytes'' (pd_travel_id p) (pd_home_id p) up st))
   | TransferFailed k \<Rightarrow> (Err (Io k), st)
   | CredentialEnded \<Rightarrow> (Ok (), record_relay_metric ''relay_route_revoked'' (pd_travel_id p) (pd_home_id p) 1 st))"

section \<open>Snapshots from the Server\<close>

text \<open>\<open>apply_authorization_snapshot\<close> in the sections in which it runs. Two sessions with the Server can be
  in it at once: a new session applies its first snapshot before it supersedes the old one. The first
  section is the verification and the part under the lock of the cache.\<close>

definition authorization_accepted :: "crypto \<Rightarrow> home_endpoint_credential json \<Rightarrow> travel_credential json
    \<Rightarrow> travel_authorization_snapshot json \<Rightarrow> authorization_cache file_json \<Rightarrow> nat \<Rightarrow> store_event
    \<Rightarrow> travel_authorization_snapshot \<Rightarrow> relay_state \<Rightarrow> u64 res \<times> relay_state" where
  "authorization_accepted C JE J JS F task ev snap st =
     (case rbind (travel_authorities_with_home_delegations C JE (rs_trust st)
              (tas_home_endpoint_credentials snap)) (\<lambda>auths.
           rbind (authorization_verify C J JS snap auths (dt_deployment_id (rs_trust st))) (\<lambda>va.
           rbind (cache_accept (rs_cache st) va) (\<lambda>cache. Ok (va, cache)))) of
        Err e \<Rightarrow> (Err e, st)
      | Ok (va, cache) \<Rightarrow>
          let (r, f) = (if cache \<noteq> rs_cache st then store_json_atomic F ev (rs_cache_file st) cache
                        else (Ok (), rs_cache_file st)) in
          (case r of
             Err e \<Rightarrow> (Err e, st\<lparr>rs_cache_file := f\<rparr>)
           | Ok _ \<Rightarrow> (Ok (va_generation va), st\<lparr>rs_cache := cache, rs_cache_file := f,
               rs_applying := (task, va, False) # rs_applying st\<rparr>)))"

definition routes_retained :: "nat \<Rightarrow> u64 \<Rightarrow> relay_state \<Rightarrow> relay_state" where
  "routes_retained task now st =
     (case map_of (rs_applying st) task of
        Some (va, False) \<Rightarrow> (retain_routes (\<lambda>r. is_active va (pr_credential_id r) now) st)
          \<lparr>rs_applying := AList.update task (va, True) (rs_applying st)\<rparr>
      | _ \<Rightarrow> st)"

definition authorization_published :: "nat \<Rightarrow> relay_state \<Rightarrow> relay_state" where
  "authorization_published task st =
     (case map_of (rs_applying st) task of
        Some (va, True) \<Rightarrow> st\<lparr>rs_authorization := Some va, rs_applying := AList.delete task (rs_applying st)\<rparr>
      | _ \<Rightarrow> st)"

text \<open>The clock fails before the sweep, or the session is dropped while it waits for a lock.\<close>

definition authorization_abandoned :: "nat \<Rightarrow> relay_state \<Rightarrow> relay_state" where
  "authorization_abandoned task st = st\<lparr>rs_applying := AList.delete task (rs_applying st)\<rparr>"

text \<open>\<open>SocketAddr\<close> as the checks use it: the port and the class of the address.\<close>

record socket_addr =
  ad_port :: u16
  ad_unspecified :: bool
  ad_loopback :: bool
  ad_multicast :: bool

definition connectable :: "(string \<Rightarrow> socket_addr option) \<Rightarrow> string \<Rightarrow> unit res" where
  "connectable parse address =
     rbind (ok_or (parse address) (Control DirectoryEntryInvalid)) (\<lambda>a.
     bail_if (ad_port a = 0 \<or> ad_unspecified a \<or> ad_loopback a \<or> ad_multicast a)
       (Control DirectoryEntryInvalid))"

fun relay_directory_entries :: "crypto \<Rightarrow> (string \<Rightarrow> socket_addr option) \<Rightarrow> string option
    \<Rightarrow> relay_endpoint list \<Rightarrow> unit res" where
  "relay_directory_entries C parse previous [] = Ok ()"
| "relay_directory_entries C parse previous (e # es) =
     rbind (bail_if (re_id e = [] \<or> (case previous of None \<Rightarrow> False | Some p \<Rightarrow> re_id e \<le> p))
       (Control DirectoryEntryInvalid)) (\<lambda>_.
     rbind (validate_spki_pin C (re_management_spki_sha256 e)) (\<lambda>_.
     rbind (for_each (connectable parse) [re_management_addr e, re_data_public_addr e]) (\<lambda>_.
     relay_directory_entries C parse (Some (re_id e)) es)))"

definition relay_validate_directory :: "crypto \<Rightarrow> (string \<Rightarrow> socket_addr option) \<Rightarrow> relay_directory
    \<Rightarrow> unit res" where
  "relay_validate_directory C parse d =
     rbind (bail_if (rd_generation d = 0) (Control DirectoryInvalid)) (\<lambda>_.
     relay_directory_entries C parse None (rd_relays d))"

definition apply_relay_directory :: "crypto \<Rightarrow> (string \<Rightarrow> socket_addr option) \<Rightarrow> relay_directory
    \<Rightarrow> relay_directory \<Rightarrow> relay_directory res" where
  "apply_relay_directory C parse current d =
     rbind (relay_validate_directory C parse d) (\<lambda>_.
     if rd_generation d < rd_generation current then Ok current
     else if rd_generation d = rd_generation current
     then (if d \<noteq> current then Err (Control DirectoryConflict) else Ok current)
     else Ok d)"

definition relay_apply_directory :: "crypto \<Rightarrow> (string \<Rightarrow> socket_addr option) \<Rightarrow> relay_directory
    \<Rightarrow> relay_state \<Rightarrow> unit res \<times> relay_state" where
  "relay_apply_directory C parse d st =
     (case apply_relay_directory C parse (rs_directory st) d of
        Err e \<Rightarrow> (Err e, st) | Ok d' \<Rightarrow> (Ok (), st\<lparr>rs_directory := d'\<rparr>))"

section \<open>The Relay as a machine\<close>

text \<open>What is fixed while a Relay runs: the libraries, the encoders and the configured lifetime of a
  pending route.\<close>

record relay_env =
  en_hmac :: hmac
  en_crypto :: crypto
  en_endpoint_json :: "home_endpoint_credential json"
  en_credential_json :: "travel_credential json"
  en_snapshot_json :: "travel_authorization_snapshot json"
  en_cache_json :: "authorization_cache file_json"
  en_parse_addr :: "string \<Rightarrow> socket_addr option"
  en_route_ttl_secs :: nat

datatype relay_op =
    RouteRequested travel_route_context
  | ServerAnswered travel_route_context "(server_grant, string) result" u64 instant uuid bytes
  | RouteAnnounced uuid bytes string "unit res" "unit res"
  | SocketArrived socket route_preface bytes u64 instant instant u64
  | RoutesCleaned instant
  | AuthorizationArrived nat store_event travel_authorization_snapshot
  | RoutesRetained nat u64
  | AuthorizationPublished nat
  | AuthorizationAbandoned nat
  | DirectoryArrived relay_directory
  | CarrierFinished paired_route splice_end

text \<open>One atomic section of one of the Relay's tasks, with the pair of sockets it hands to a splice. An
  answer is for a request that waits for one; a task that applies a snapshot has a number of its own.\<close>

fun relay_step :: "relay_env \<Rightarrow> relay_op \<Rightarrow> relay_state \<Rightarrow> paired_route option \<times> relay_state" where
  "relay_step E (RouteRequested req) st = (None, snd (route_begin req st))"
| "relay_step E (ServerAnswered req answer now_unix now i secret) st =
     (None, if req \<in> set (rs_waiting st)
            then snd (route_answered req answer now_unix now i secret (en_route_ttl_secs E) st) else st)"
| "relay_step E (RouteAnnounced i secret data_addr readiness written) st =
     (None, snd (route_finish i secret data_addr readiness written st))"
| "relay_step E (SocketArrived s preface mac now_unix now1 now2 latency) st =
     (case admit_socket (en_hmac E) s preface mac now_unix now1 now2 latency st of
        (Ok p, st') \<Rightarrow> (p, st') | (Err e, st') \<Rightarrow> (None, st'))"
| "relay_step E (RoutesCleaned now) st = (None, cleanup_routes now st)"
| "relay_step E (AuthorizationArrived task ev snap) st =
     (None, if task \<in> fst ` set (rs_applying st) then st
            else snd (authorization_accepted (en_crypto E) (en_endpoint_json E) (en_credential_json E)
              (en_snapshot_json E) (en_cache_json E) task ev snap st))"
| "relay_step E (RoutesRetained task now) st = (None, routes_retained task now st)"
| "relay_step E (AuthorizationPublished task) st = (None, authorization_published task st)"
| "relay_step E (AuthorizationAbandoned task) st = (None, authorization_abandoned task st)"
| "relay_step E (DirectoryArrived d) st =
     (None, snd (relay_apply_directory (en_crypto E) (en_parse_addr E) d st))"
| "relay_step E (CarrierFinished p out) st = (None, snd (carrier_finished p out st))"

fun relay_run :: "relay_env \<Rightarrow> relay_op list \<Rightarrow> relay_state \<Rightarrow> paired_route list \<times> relay_state" where
  "relay_run E [] st = ([], st)"
| "relay_run E (op # ops) st =
     (let (p, st1) = relay_step E op st; (ps, st2) = relay_run E ops st1
      in ((case p of None \<Rightarrow> [] | Some p \<Rightarrow> [p]) @ ps, st2))"

lemma relay_run_append: "relay_run E (ops @ ops') st =
    (case relay_run E ops st of (ps, st1) \<Rightarrow> case relay_run E ops' st1 of (ps', st2) \<Rightarrow> (ps @ ps', st2))"
  by (induction ops arbitrary: st) (auto split: prod.splits)

declare wait_until_authorization_inactive.simps [simp del]

section \<open>Capacity\<close>

lemmas metric_defs = record_relay_metric_def record_relay_metric_sample_def

text \<open>Every permit is free, held by a waiting request or held by a pending route.\<close>

definition permits_of :: "relay_state \<Rightarrow> nat" where
  "permits_of st = rs_permits st + length (rs_waiting st) + length (rs_routes st)"

lemma retain_permits [simp]: "permits_of (retain_routes keep st) = permits_of st"
  using length_filter_le [of "\<lambda>(i, r). keep r" "rs_routes st"]
  by (simp add: permits_of_def retain_routes_def Let_def del: length_filter_le)

lemma remove_permits [simp]: "permits_of (remove_route i st) = permits_of st"
  using length_delete_le [of i "rs_routes st"]
  by (simp add: permits_of_def remove_route_def Let_def)

lemma metric_permits [simp]: "permits_of (record_relay_metric_sample f t h v s st) = permits_of st"
  "permits_of (record_relay_metric f t h v st) = permits_of st"
  by (simp_all add: permits_of_def metric_defs)

lemma begin_permits [simp]: "permits_of (snd (route_begin req st)) = permits_of st"
  by (auto simp: route_begin_def permits_of_def metric_defs split: option.splits)

lemma drop_permits:
  "req \<in> set (rs_waiting st) \<Longrightarrow> permits_of (drop_permit req st) = permits_of st"
  using length_pos_if_in_set [of req "rs_waiting st"]
  by (simp add: permits_of_def drop_permit_def length_remove1)

lemma answered_permits: "req \<in> set (rs_waiting st) \<Longrightarrow>
    permits_of (snd (route_answered req answer now_unix now i secret ttl st)) = permits_of st"
  using length_pos_if_in_set [of req "rs_waiting st"]
  by (auto simp: route_answered_def Let_def permits_of_def drop_permit_def metric_defs length_remove1
      split: result.splits)

lemma finish_permits [simp]: "permits_of (snd (route_finish i s a r w st)) = permits_of st"
  by (simp add: route_finish_def split: result.splits)

lemma length_update_present:
  "map_of xs i \<noteq> None \<Longrightarrow> length (AList.update i v xs) = length xs"
  by (induction xs) auto

text \<open>The two ways in which a socket is admitted: it waits in its route, or it completes the pair and
  the route is gone.\<close>

definition admissible :: "hmac \<Rightarrow> route_preface \<Rightarrow> bytes \<Rightarrow> u64 \<Rightarrow> instant \<Rightarrow> instant \<Rightarrow> relay_state \<Rightarrow> uuid
    \<Rightarrow> pending_route \<Rightarrow> bool" where
  "admissible H preface mac now_unix now1 now2 st i r \<longleftrightarrow>
     resolve_direct_route_id (rs_routes st) preface = Some i \<and> map_of (rs_routes st) i = Some r
     \<and> now1 < pr_expires r \<and> is_ok (ensure_credential_active (rs_authorization st) (pr_credential_id r) now_unix)
     \<and> validate_direct_route_admission H i r preface mac now2 = Ok ()"

lemma take_side_free:
  assumes "validate_direct_route_admission H i r preface mac now = Ok ()"
  shows "take_side (pf_side preface) s r = Ok (case pf_side preface of
     SideTravel \<Rightarrow> r\<lparr>pr_travel := Some s\<rparr> | SideHome \<Rightarrow> r\<lparr>pr_home := Some s\<rparr>)"
  using assms by (cases "pf_side preface") (auto simp: validate_direct_route_admission_def take_side_def)

lemma admit_socket_cases:
  assumes "admit_socket H s preface mac now_unix now1 now2 latency st = (res, st')"
  obtains (refused) e where "res = Err e" "st' = st"
      "\<nexists>i r. admissible H preface mac now_unix now1 now2 st i r"
  | (waits) i r r' where "admissible H preface mac now_unix now1 now2 st i r" "res = Ok None"
      "take_side (pf_side preface) s r = Ok r'" "pr_travel r' = None \<or> pr_home r' = None"
      "st' = st\<lparr>rs_routes := AList.update i r' (rs_routes st)\<rparr>"
  | (pairs) i r r' t h where "admissible H preface mac now_unix now1 now2 st i r"
      "take_side (pf_side preface) s r = Ok r'" "pr_travel r' = Some t" "pr_home r' = Some h"
      "res = Ok (Some \<lparr>pd_route_id = i, pd_work_id = pr_work_id r', pd_credential_id = pr_credential_id r',
         pd_travel_id = pr_travel_id r', pd_home_id = pr_home_id r', pd_travel = t, pd_home = h\<rparr>)"
      "rs_routes st' = AList.delete i (rs_routes st)" "permits_of st' = permits_of st"
      "rs_authorization st' = rs_authorization st" "rs_cache st' = rs_cache st"
      "rs_cache_file st' = rs_cache_file st" "rs_applying st' = rs_applying st"
proof (cases "\<exists>i r. admissible H preface mac now_unix now1 now2 st i r")
  case True
  then obtain i r where a: "admissible H preface mac now_unix now1 now2 st i r"
    by blast
  then obtain r' where t: "take_side (pf_side preface) s r = Ok r'"
    using take_side_free unfolding admissible_def by blast
  note eq = assms [unfolded admit_socket_def]
  show thesis
  proof (cases "pr_travel r' = None \<or> pr_home r' = None")
    case True
    then show thesis
      using a t eq by (intro waits [OF a _ t])
        (auto simp: admissible_def is_ok_iff bail_if_def split: option.splits)
  next
    case False
    then obtain x y where xy: "pr_travel r' = Some x" "pr_home r' = Some y"
      by auto
    let ?m = "\<lambda>st. record_relay_metric_sample ''relay_route_setup_latency_ms'' (pr_travel_id r') (pr_home_id r')
        latency (Some latency) (record_relay_metric ''relay_route_paired'' (pr_travel_id r') (pr_home_id r') 1 st)"
    have "st' = ?m (remove_route i st)"
      and "res = Ok (Some \<lparr>pd_route_id = i, pd_work_id = pr_work_id r', pd_credential_id = pr_credential_id r',
         pd_travel_id = pr_travel_id r', pd_home_id = pr_home_id r', pd_travel = x, pd_home = y\<rparr>)"
      using a t xy eq by (auto simp: admissible_def is_ok_iff bail_if_def)
    moreover have "permits_of st' = permits_of st"
      using calculation by simp
    ultimately show thesis
      using a t xy by (intro pairs [OF a t xy]) (simp_all add: metric_defs remove_route_def Let_def)
  qed
next
  case False
  then show thesis
    using assms refused
    by (auto simp: admit_socket_def admissible_def is_ok_iff not_le [symmetric] split: result.splits prod.splits option.splits)
qed

section \<open>What stands behind a pair\<close>

text \<open>The pending route goes back to a Server grant that answered a request for its credential and
  Home, and dies with that grant or earlier.\<close>

definition granted :: "relay_env \<Rightarrow> relay_op list \<Rightarrow> uuid \<Rightarrow> pending_route \<Rightarrow> bool" where
  "granted E ops i r \<longleftrightarrow> (\<exists>req grant now_unix now.
     ServerAnswered req (Ok grant) now_unix now i (pr_route_secret r) \<in> set ops
     \<and> sg_credential_id grant = trc_credential req \<and> sg_home_id grant = trc_home req
     \<and> now_unix < sg_expires_at_unix_secs grant
     \<and> pr_credential_id r = trc_credential req \<and> pr_travel_id r = trc_travel req
     \<and> pr_home_id r = trc_home req \<and> pr_work_id r = sg_work_id grant
     \<and> pr_work_secret r = sg_work_secret grant
     \<and> pr_expires r = now + min (unat (sg_expires_at_unix_secs grant) - unat now_unix) (en_route_ttl_secs E))"

text \<open>A socket proved one side of the route: it came with a preface for that side, tagged under the
  secret of that side, before the route expired.\<close>

definition proved_side :: "relay_env \<Rightarrow> relay_op list \<Rightarrow> uuid \<Rightarrow> pending_route \<Rightarrow> route_side \<Rightarrow> socket \<Rightarrow> bool" where
  "proved_side E ops i r side s \<longleftrightarrow> (\<exists>preface mac now_unix now1 now2 latency.
     SocketArrived s preface mac now_unix now1 now2 latency \<in> set ops
     \<and> preface = \<lparr>pf_side = side, pf_id = (case side of SideTravel \<Rightarrow> i | SideHome \<Rightarrow> pr_work_id r)\<rparr>
     \<and> verify_preface (en_hmac E) preface mac
         (case side of SideTravel \<Rightarrow> pr_route_secret r | SideHome \<Rightarrow> pr_work_secret r)
     \<and> now1 < pr_expires r \<and> now2 < pr_expires r)"

definition route_sound :: "relay_env \<Rightarrow> relay_op list \<Rightarrow> uuid \<Rightarrow> pending_route \<Rightarrow> bool" where
  "route_sound E ops i r \<longleftrightarrow> granted E ops i r
     \<and> (\<forall>s. pr_travel r = Some s \<longrightarrow> proved_side E ops i r SideTravel s)
     \<and> (\<forall>s. pr_home r = Some s \<longrightarrow> proved_side E ops i r SideHome s)"

definition authentic_pair :: "relay_env \<Rightarrow> relay_op list \<Rightarrow> paired_route \<Rightarrow> bool" where
  "authentic_pair E ops p \<longleftrightarrow> (\<exists>r. granted E ops (pd_route_id p) r \<and> pr_work_id r = pd_work_id p
     \<and> pr_credential_id r = pd_credential_id p \<and> pr_travel_id r = pd_travel_id p
     \<and> pr_home_id r = pd_home_id p \<and> proved_side E ops (pd_route_id p) r SideTravel (pd_travel p)
     \<and> proved_side E ops (pd_route_id p) r SideHome (pd_home p))"

fun issued_ids :: "relay_op list \<Rightarrow> uuid list" where
  "issued_ids [] = []"
| "issued_ids (ServerAnswered _ _ _ _ i _ # ops) = i # issued_ids ops"
| "issued_ids (_ # ops) = issued_ids ops"

lemma issued_append [simp]: "issued_ids (ops @ ops') = issued_ids ops @ issued_ids ops'"
  by (induction ops rule: issued_ids.induct) simp_all

definition relay_sound :: "relay_env \<Rightarrow> relay_op list \<Rightarrow> paired_route list \<Rightarrow> relay_state \<Rightarrow> bool" where
  "relay_sound E ops ps st \<longleftrightarrow> distinct (map fst (rs_routes st)) \<and> distinct (map pd_route_id ps)
     \<and> fst ` set (rs_routes st) \<union> pd_route_id ` set ps \<subseteq> set (issued_ids ops)
     \<and> fst ` set (rs_routes st) \<inter> pd_route_id ` set ps = {}
     \<and> (\<forall>i r. (i, r) \<in> set (rs_routes st) \<longrightarrow> route_sound E ops i r \<and> (pr_travel r = None \<or> pr_home r = None))
     \<and> (\<forall>p \<in> set ps. authentic_pair E ops p)"

lemma relay_soundD:
  assumes "relay_sound E ops ps st"
  shows "distinct (map fst (rs_routes st))" "distinct (map pd_route_id ps)"
    "fst ` set (rs_routes st) \<subseteq> set (issued_ids ops)" "pd_route_id ` set ps \<subseteq> set (issued_ids ops)"
    "fst ` set (rs_routes st) \<inter> pd_route_id ` set ps = {}"
    "(i, r) \<in> set (rs_routes st) \<Longrightarrow> route_sound E ops i r"
    "(i, r) \<in> set (rs_routes st) \<Longrightarrow> pr_travel r = None \<or> pr_home r = None"
    "p \<in> set ps \<Longrightarrow> authentic_pair E ops p"
  using assms unfolding relay_sound_def by simp_all

lemma granted_mono: "granted E ops i r \<Longrightarrow> set ops \<subseteq> set ops' \<Longrightarrow> granted E ops' i r"
  unfolding granted_def by blast

lemma proved_mono: "proved_side E ops i r side s \<Longrightarrow> set ops \<subseteq> set ops' \<Longrightarrow> proved_side E ops' i r side s"
  unfolding proved_side_def by blast

lemma sound_mono: "route_sound E ops i r \<Longrightarrow> set ops \<subseteq> set ops' \<Longrightarrow> route_sound E ops' i r"
  unfolding route_sound_def by (blast intro: granted_mono proved_mono)

lemma authentic_mono: "authentic_pair E ops p \<Longrightarrow> set ops \<subseteq> set ops' \<Longrightarrow> authentic_pair E ops' p"
  unfolding authentic_pair_def by (blast intro: granted_mono proved_mono)

text \<open>Admission is the only step that changes a route, and it adds a proof of the side it fills.\<close>

lemma admitted_sound:
  assumes a: "admissible H preface mac now_unix now1 now2 st i r" and H: "H = en_hmac E"
    and t: "take_side (pf_side preface) s r = Ok r'" and r: "route_sound E ops i r"
    and op: "op = SocketArrived s preface mac now_unix now1 now2 latency"
  shows "route_sound E (ops @ [op]) i r'" "pr_credential_id r' = pr_credential_id r"
proof -
  have x: "pr_travel r' = (if pf_side preface = SideTravel then Some s else pr_travel r)"
    "pr_home r' = (if pf_side preface = SideHome then Some s else pr_home r)"
    and f: "pr_credential_id r' = pr_credential_id r" "pr_travel_id r' = pr_travel_id r"
      "pr_home_id r' = pr_home_id r" "pr_work_id r' = pr_work_id r" "pr_route_secret r' = pr_route_secret r"
      "pr_work_secret r' = pr_work_secret r" "pr_expires r' = pr_expires r"
    using t by (auto simp: take_side_def split: route_side.splits if_splits)
  have v: "validate_direct_route_admission H i r preface mac now2 = Ok ()" "now1 < pr_expires r"
    using a by (simp_all add: admissible_def)
  have "proved_side E [op] i r (pf_side preface) s"
    using v H op unfolding proved_side_def
    by (cases preface; cases "pf_side preface") (auto simp: validate_direct_route_admission_def not_le)
  then have n: "proved_side E (ops @ [op]) i r (pf_side preface) s"
    by (rule proved_mono) simp
  have "granted E (ops @ [op]) i r = granted E (ops @ [op]) i r'"
    "proved_side E (ops @ [op]) i r = proved_side E (ops @ [op]) i r'"
    by (simp_all add: granted_def proved_side_def f fun_eq_iff cong: route_side.case_cong)
  moreover have "route_sound E (ops @ [op]) i r"
    using r by (rule sound_mono) auto
  ultimately show "route_sound E (ops @ [op]) i r'"
    using n x by (cases "pf_side preface") (auto simp: route_sound_def)
  show "pr_credential_id r' = pr_credential_id r" by (rule f)
qed

lemma sound_shrink:
  assumes s: "relay_sound E ops ps st" and sub: "set (rs_routes st') \<subseteq> set (rs_routes st)"
    and d: "distinct (map fst (rs_routes st'))"
  shows "relay_sound E (ops @ [op]) ps st'"
proof -
  have m: "set ops \<subseteq> set (ops @ [op])" by auto
  note s' = s [unfolded relay_sound_def]
  have f: "fst ` set (rs_routes st') \<subseteq> fst ` set (rs_routes st)"
    using sub by (rule image_mono)
  have "fst ` set (rs_routes st) \<union> pd_route_id ` set ps \<subseteq> set (issued_ids ops)"
    using s' by (elim conjE)
  with f have "fst ` set (rs_routes st') \<union> pd_route_id ` set ps \<subseteq> set (issued_ids (ops @ [op]))"
    unfolding issued_append set_append by blast
  moreover have "fst ` set (rs_routes st) \<inter> pd_route_id ` set ps = {}"
    using s' by (elim conjE)
  with f have "fst ` set (rs_routes st') \<inter> pd_route_id ` set ps = {}"
    by blast
  moreover have "\<forall>i r. (i, r) \<in> set (rs_routes st') \<longrightarrow> route_sound E (ops @ [op]) i r
      \<and> (pr_travel r = None \<or> pr_home r = None)"
  proof (intro allI impI)
    fix i r
    assume "(i, r) \<in> set (rs_routes st')"
    with sub have i: "(i, r) \<in> set (rs_routes st)" by (rule subsetD)
    show "route_sound E (ops @ [op]) i r \<and> (pr_travel r = None \<or> pr_home r = None)"
      using sound_mono [OF relay_soundD(6) [OF s i] m] relay_soundD(7) [OF s i] by (rule conjI)
  qed
  moreover have "\<forall>p \<in> set ps. authentic_pair E (ops @ [op]) p"
    by (intro ballI authentic_mono [OF relay_soundD(8) [OF s] m])
  ultimately show ?thesis
    using s' d unfolding relay_sound_def by (elim conjE, intro conjI)
qed

lemma distinct_filter_keys: "distinct (map fst xs) \<Longrightarrow> distinct (map fst (filter P xs))"
  by (induction xs) auto

lemma sound_retain:
  assumes "relay_sound E ops ps st" "rs_routes st' = filter P (rs_routes st)"
  shows "relay_sound E (ops @ [op]) ps st'"
  using assms by (intro sound_shrink [OF assms(1)]) (auto simp: relay_sound_def distinct_filter_keys)

lemma delete_filter: "AList.delete i xs = filter (\<lambda>(j, r). j \<noteq> i) xs"
  by (induction xs) auto

lemma remove_routes: "rs_routes (remove_route i st) = filter (\<lambda>(j, r). j \<noteq> i) (rs_routes st)"
  by (simp add: remove_route_def Let_def delete_filter)

lemma finish_routes: "\<exists>P. rs_routes (snd (route_finish i k a rd w st)) = filter P (rs_routes st)"
proof -
  have "\<exists>P. rs_routes st = filter P (rs_routes st)"
    by (rule exI [of _ "\<lambda>_. True"]) simp
  then show ?thesis
    unfolding route_finish_def by (cases rd; cases w) (auto simp: remove_routes)
qed

lemma authorization_accepted_cases:
  assumes "authorization_accepted C JE J JS F task ev snap st = (res, st')"
  obtains (refused) e where "res = Err e" "\<exists>f. st' = st\<lparr>rs_cache_file := f\<rparr> \<and> (f = rs_cache_file st
        \<or> (\<exists>va c. cache_accept (rs_cache st) va = Ok c \<and> fst (store_json_atomic F ev (rs_cache_file st) c) \<noteq> Ok ()
             \<and> f = snd (store_json_atomic F ev (rs_cache_file st) c)))"
  | (accepted) auths va c f where "res = Ok (va_generation va)"
      "travel_authorities_with_home_delegations C JE (rs_trust st) (tas_home_endpoint_credentials snap) = Ok auths"
      "authorization_verify C J JS snap auths (dt_deployment_id (rs_trust st)) = Ok va"
      "cache_accept (rs_cache st) va = Ok c"
      "c = rs_cache st \<and> f = rs_cache_file st \<or> store_json_atomic F ev (rs_cache_file st) c = (Ok (), f)"
      "st' = st\<lparr>rs_cache := c, rs_cache_file := f, rs_applying := (task, va, False) # rs_applying st\<rparr>"
proof -
  let ?r = "rbind (travel_authorities_with_home_delegations C JE (rs_trust st)
              (tas_home_endpoint_credentials snap)) (\<lambda>auths.
           rbind (authorization_verify C J JS snap auths (dt_deployment_id (rs_trust st))) (\<lambda>va.
           rbind (cache_accept (rs_cache st) va) (\<lambda>cache. Ok (va, cache))))"
  show thesis
  proof (cases ?r)
    case (Err e)
    then show thesis
      using assms by (intro refused [of e]) (auto simp: authorization_accepted_def intro!: exI [of _ "rs_cache_file st"])
  next
    case (Ok x)
    then obtain va c auths where x: "?r = Ok (va, c)"
      and v: "travel_authorities_with_home_delegations C JE (rs_trust st) (tas_home_endpoint_credentials snap) = Ok auths"
        "authorization_verify C J JS snap auths (dt_deployment_id (rs_trust st)) = Ok va"
        "cache_accept (rs_cache st) va = Ok c"
      by auto
    let ?s = "if c \<noteq> rs_cache st then store_json_atomic F ev (rs_cache_file st) c else (Ok (), rs_cache_file st)"
    have eq: "(res, st') = (case fst ?s of Err e \<Rightarrow> (Err e, st\<lparr>rs_cache_file := snd ?s\<rparr>)
        | Ok _ \<Rightarrow> (Ok (va_generation va), st\<lparr>rs_cache := c, rs_cache_file := snd ?s,
            rs_applying := (task, va, False) # rs_applying st\<rparr>))"
      using assms unfolding authorization_accepted_def x
      by (simp only: result.case prod.case case_prod_beta Let_def fst_conv snd_conv)
    show thesis
    proof (cases "fst ?s")
      case (Err e)
      then have "c \<noteq> rs_cache st" by (auto split: if_splits)
      with Err eq have s: "fst (store_json_atomic F ev (rs_cache_file st) c) = Err e" "res = Err e"
        "st' = st\<lparr>rs_cache_file := snd (store_json_atomic F ev (rs_cache_file st) c)\<rparr>"
        by simp_all
      show thesis
        by (rule refused [OF s(2)], rule exI [of _ "snd (store_json_atomic F ev (rs_cache_file st) c)"])
          (use s v(3) in \<open>metis result.distinct(1)\<close>)
    next
      case (Ok u)
      have k: "c = rs_cache st \<and> snd ?s = rs_cache_file st
          \<or> store_json_atomic F ev (rs_cache_file st) c = (Ok (), snd ?s)"
        using Ok by (auto simp: prod_eq_iff)
      show thesis
        by (rule accepted [OF _ v k]) (use eq Ok in simp_all)
    qed
  qed
qed

lemma accepted_routes:
  "authorization_accepted C JE J JS F task ev snap st = (res, st') \<Longrightarrow>
     rs_routes st' = rs_routes st \<and> permits_of st' = permits_of st"
  by (erule authorization_accepted_cases) (auto simp: permits_of_def)

lemma retained_routes: "\<exists>P. rs_routes (routes_retained task now st) = filter P (rs_routes st)"
proof -
  have "\<exists>P. rs_routes st = filter P (rs_routes st)"
    by (rule exI [of _ "\<lambda>_. True"]) simp
  then show ?thesis
    by (auto simp: routes_retained_def retain_routes_def Let_def split: option.splits bool.splits)
qed

lemma retained_permits [simp]: "permits_of (routes_retained task now st) = permits_of st"
proof -
  have "permits_of (z\<lparr>rs_applying := a\<rparr>) = permits_of z" for z a
    by (simp add: permits_of_def)
  then show ?thesis
    by (simp add: routes_retained_def split: option.splits bool.splits)
qed

lemma sound_answered:
  assumes s: "relay_sound E ops ps st" and d: "distinct (issued_ids (ops @ [op]))"
    and op: "op = ServerAnswered req answer now_unix now i secret"
    and st': "st' = snd (route_answered req answer now_unix now i secret (en_route_ttl_secs E) st)"
  shows "relay_sound E (ops @ [op]) ps st'"
proof (cases "rs_routes st' = rs_routes st")
  case True
  then show ?thesis
    using s by (intro sound_retain [where P = "\<lambda>_. True"]) simp_all
next
  case False
  then obtain grant r where a: "answer = Ok grant" "sg_credential_id grant = trc_credential req"
      "sg_home_id grant = trc_home req" "sat_sub (sg_expires_at_unix_secs grant) now_unix \<noteq> 0"
    and r: "r = \<lparr>pr_credential_id = trc_credential req, pr_travel_id = trc_travel req,
               pr_home_id = trc_home req, pr_work_id = sg_work_id grant, pr_route_secret = secret,
               pr_work_secret = sg_work_secret grant, pr_created = now,
               pr_expires = now + min (unat (sat_sub (sg_expires_at_unix_secs grant) now_unix)) (en_route_ttl_secs E),
               pr_travel = None, pr_home = None\<rparr>"
    and routes: "rs_routes st' = (i, r) # rs_routes st"
    using st' by (auto simp: route_answered_def Let_def drop_permit_def metric_defs split: result.splits if_splits)
  have "now_unix < sg_expires_at_unix_secs grant"
    using a(4) by (auto simp: sat_sub_def split: if_splits)
  then have "granted E [op] i r"
    using a op by (auto simp: granted_def r int_simps)
  then have g: "route_sound E (ops @ [op]) i r"
    using granted_mono [of E "[op]" i r "ops @ [op]"] by (simp add: route_sound_def r)
  have "relay_sound E (ops @ [op]) ps st"
    using s by (intro sound_retain [where P = "\<lambda>_. True"]) simp_all
  moreover have "i \<notin> set (issued_ids ops)"
    using d op by simp
  moreover have "fst ` set (rs_routes st) \<union> pd_route_id ` set ps \<subseteq> set (issued_ids ops)"
    using s unfolding relay_sound_def by (elim conjE)
  ultimately show ?thesis
    using g op unfolding relay_sound_def routes
    by (simp add: r image_Un) (metis UnI1 UnI2 fst_conv image_eqI subsetD)
qed

lemma update_entries: "(j, x) \<in> set (AList.update i v xs) \<Longrightarrow> j = i \<and> x = v \<or> (j, x) \<in> set xs"
  by (induction xs) (auto split: if_splits)

lemma update_keys: "map_of xs i = Some r \<Longrightarrow> fst ` set (AList.update i v xs) = fst ` set xs"
  by (induction xs) (auto split: if_splits)

lemma sound_waits:
  assumes s: "relay_sound E ops ps st" and a: "admissible (en_hmac E) preface mac now_unix now1 now2 st i r"
    and t: "take_side (pf_side preface) s r = Ok r'" and n: "pr_travel r' = None \<or> pr_home r' = None"
    and op: "op = SocketArrived s preface mac now_unix now1 now2 latency"
  shows "relay_sound E (ops @ [op]) ps (st\<lparr>rs_routes := AList.update i r' (rs_routes st)\<rparr>)"
proof -
  have m: "map_of (rs_routes st) i = Some r"
    using a by (simp add: admissible_def)
  have s': "relay_sound E (ops @ [op]) ps st"
    using s by (intro sound_retain [where P = "\<lambda>_. True"]) simp_all
  have "route_sound E ops i r"
    using s m by (auto simp: relay_sound_def dest: map_of_SomeD)
  note r' = admitted_sound(1) [OF a refl t this op]
  have k: "fst ` set (AList.update i r' (rs_routes st)) = fst ` set (rs_routes st)"
    using m by (rule update_keys)
  have "distinct (map fst (AList.update i r' (rs_routes st)))"
    using s by (intro AList.distinct_update) (simp add: relay_sound_def)
  moreover have "(j = i \<and> x = r') \<or> (j, x) \<in> set (rs_routes st)"
    if "(j, x) \<in> set (AList.update i r' (rs_routes st))" for j x
    using that by (rule update_entries)
  ultimately show ?thesis
    using r' n relay_soundD [OF s'] unfolding relay_sound_def by (simp add: k) metis
qed

lemma sound_pairs:
  assumes s: "relay_sound E ops ps st" and a: "admissible (en_hmac E) preface mac now_unix now1 now2 st i r"
    and t: "take_side (pf_side preface) s r = Ok r'" and h: "pr_travel r' = Some x" "pr_home r' = Some y"
    and op: "op = SocketArrived s preface mac now_unix now1 now2 latency"
    and p: "p = \<lparr>pd_route_id = i, pd_work_id = pr_work_id r', pd_credential_id = pr_credential_id r',
         pd_travel_id = pr_travel_id r', pd_home_id = pr_home_id r', pd_travel = x, pd_home = y\<rparr>"
    and st': "rs_routes st' = AList.delete i (rs_routes st)"
  shows "relay_sound E (ops @ [op]) (ps @ [p]) st'"
proof -
  have m: "(i, r) \<in> set (rs_routes st)"
    using a by (auto simp: admissible_def dest: map_of_SomeD)
  have "route_sound E ops i r"
    using s m by (auto simp: relay_sound_def)
  note r' = admitted_sound(1) [OF a refl t this op]
  then have "authentic_pair E (ops @ [op]) p"
    using h by (auto simp: authentic_pair_def route_sound_def p)
  moreover have "relay_sound E (ops @ [op]) ps st'"
    using s st' by (intro sound_retain [where P = "\<lambda>(j, r). j \<noteq> i"]) (simp_all add: delete_filter)
  moreover have k: "i \<in> fst ` set (rs_routes st)"
    using m by (metis fst_conv image_eqI)
  moreover have "i \<notin> pd_route_id ` set ps" "i \<in> set (issued_ids ops)"
    using k relay_soundD(3, 5) [OF s] by blast+
  moreover have "i \<notin> fst ` set (rs_routes st')"
    by (auto simp: st' delete_filter)
  ultimately show ?thesis
    by (simp add: relay_sound_def p)
qed

lemma sound_step:
  assumes s: "relay_sound E ops ps st" and d: "distinct (issued_ids (ops @ [op]))"
    and st': "relay_step E op st = (p, st')"
  shows "relay_sound E (ops @ [op]) (ps @ (case p of None \<Rightarrow> [] | Some p \<Rightarrow> [p])) st'"
proof (cases op)
  case (SocketArrived k preface mac now_unix now1 now2 latency)
  obtain res st1 where a: "admit_socket (en_hmac E) k preface mac now_unix now1 now2 latency st = (res, st1)"
    by (meson surj_pair)
  from a show ?thesis
  proof (cases rule: admit_socket_cases)
    case (refused e)
    then show ?thesis
      using a s st' SocketArrived by (auto intro!: sound_retain [where P = "\<lambda>_. True"])
  next
    case (waits i r r')
    then show ?thesis
      using a st' SocketArrived sound_waits [OF s waits(1, 3, 4) SocketArrived] by auto
  next
    case (pairs i r r' t h)
    then show ?thesis
      using a st' SocketArrived sound_pairs [OF s pairs(1-4) SocketArrived refl pairs(6)] by auto
  qed
next
  case (AuthorizationArrived task ev snap)
  obtain res st1 where a: "authorization_accepted (en_crypto E) (en_endpoint_json E) (en_credential_json E)
      (en_snapshot_json E) (en_cache_json E) task ev snap st = (res, st1)"
    by (meson surj_pair)
  then have "p = None" "rs_routes st' = rs_routes st"
    using st' AuthorizationArrived accepted_routes [OF a] by (auto split: if_splits)
  then show ?thesis
    using s by (auto intro!: sound_retain [where P = "\<lambda>_. True"])
next
  case (RoutesRetained task now)
  then show ?thesis
    using s st' retained_routes [of task now st] by (auto intro: sound_retain)
next
  case (AuthorizationPublished task)
  then show ?thesis
    using s st' by (auto simp: authorization_published_def split: option.splits bool.splits
        intro!: sound_retain [where P = "\<lambda>_. True"])
next
  case (AuthorizationAbandoned task)
  then show ?thesis
    using s st' by (auto simp: authorization_abandoned_def intro!: sound_retain [where P = "\<lambda>_. True"])
next
  case (ServerAnswered req answer now_unix now i secret)
  then show ?thesis
    using s st' sound_answered [OF s d ServerAnswered refl]
    by (auto intro!: sound_retain [where P = "\<lambda>_. True"] split: if_splits)
next
  case (RouteAnnounced i secret a readiness written)
  then show ?thesis
    using s st' finish_routes [of i secret a readiness written st] by (auto intro: sound_retain)
next
  case (RouteRequested req)
  then show ?thesis
    using s st' by (auto simp: route_begin_def metric_defs split: option.splits
        intro!: sound_retain [where P = "\<lambda>_. True"])
next
  case (RoutesCleaned now)
  then show ?thesis
    using s st' by (auto simp: cleanup_routes_def retain_routes_def Let_def intro!: sound_retain)
next
  case (DirectoryArrived dir)
  then show ?thesis
    using s st' by (auto simp: relay_apply_directory_def split: result.splits
        intro!: sound_retain [where P = "\<lambda>_. True"])
next
  case (CarrierFinished q out)
  then show ?thesis
    using s st' by (auto simp: carrier_finished_def metric_defs split: splice_end.splits
        intro!: sound_retain [where P = "\<lambda>_. True"])
qed

lemma sound_run:
  "relay_sound E done ps st \<Longrightarrow> distinct (issued_ids (done @ ops)) \<Longrightarrow> relay_run E ops st = (ps', st')
     \<Longrightarrow> relay_sound E (done @ ops) (ps @ ps') st'"
proof (induction ops arbitrary: "done" ps st ps')
  case (Cons op ops)
  obtain p st1 ps1 where r: "relay_step E op st = (p, st1)" "relay_run E ops st1 = (ps1, st')"
    "ps' = (case p of None \<Rightarrow> [] | Some p \<Rightarrow> [p]) @ ps1"
    using Cons.prems(3) by (auto split: prod.splits)
  have "distinct (issued_ids ((done @ [op]) @ ops))"
    using Cons.prems(2) by simp
  then have d: "distinct (issued_ids (done @ [op]))"
    unfolding issued_append [of "done @ [op]"] distinct_append by blast
  note sound_step [OF Cons.prems(1) d r(1)]
  from Cons.IH [OF this _ r(2)] show ?case
    using Cons.prems(2) r(3) by simp
qed simp

lemma permits_step: "permits_of (snd (relay_step E op st)) = permits_of st"
proof (cases op)
  case (SocketArrived k preface mac now_unix now1 now2 latency)
  obtain res st1 where a: "admit_socket (en_hmac E) k preface mac now_unix now1 now2 latency st = (res, st1)"
    by (meson surj_pair)
  from a have "permits_of st1 = permits_of st"
    by (cases rule: admit_socket_cases) (auto simp: permits_of_def admissible_def length_update_present)
  then show ?thesis
    using SocketArrived a by (cases res) simp_all
next
  case (AuthorizationArrived task ev snap)
  obtain res st1 where a: "authorization_accepted (en_crypto E) (en_endpoint_json E) (en_credential_json E)
      (en_snapshot_json E) (en_cache_json E) task ev snap st = (res, st1)"
    by (meson surj_pair)
  then show ?thesis
    using AuthorizationArrived accepted_routes [OF a] by simp
next
  case (AuthorizationPublished task)
  then show ?thesis
    by (simp add: authorization_published_def permits_of_def split: option.splits bool.splits)
next
  case (AuthorizationAbandoned task)
  then show ?thesis
    by (simp add: authorization_abandoned_def permits_of_def)
next
  case (RoutesCleaned now)
  then show ?thesis
    by (simp add: cleanup_routes_def) (simp add: permits_of_def)
next
  case (CarrierFinished q out)
  then show ?thesis
    by (simp add: carrier_finished_def split: splice_end.splits)
next
  case (DirectoryArrived dir)
  then show ?thesis
    by (simp add: relay_apply_directory_def permits_of_def split: result.splits)
qed (simp_all add: answered_permits)

lemma permits_run: "permits_of (snd (relay_run E ops st)) = permits_of st"
proof (induction ops arbitrary: st)
  case (Cons op ops)
  then show ?case
    using permits_step [of E op st] by (simp add: case_prod_beta Let_def)
qed simp

section \<open>Revocation\<close>

text \<open>What the Relay remembers of a set of revoked credentials: in the cache, in the published
  authorization, in the file, and in every snapshot that is being applied.\<close>

definition applying :: "relay_state \<Rightarrow> verified_authorization set" where
  "applying st = (\<lambda>(task, va, swept). va) ` set (rs_applying st)"

definition remembers :: "authorization_cache file_json \<Rightarrow> uuid set \<Rightarrow> relay_state \<Rightarrow> bool" where
  "remembers F R st \<longleftrightarrow> keeps_revoked F R (rs_cache st) (rs_cache_file st) (rs_authorization st)
     \<and> (\<forall>va \<in> applying st. R \<subseteq> va_revoked_credentials va)"

lemma remembers_cong:
  "rs_cache st' = rs_cache st \<Longrightarrow> rs_authorization st' = rs_authorization st
     \<Longrightarrow> rs_cache_file st' = rs_cache_file st \<Longrightarrow> rs_applying st' = rs_applying st
     \<Longrightarrow> remembers F R st' = remembers F R st"
  by (simp add: remembers_def applying_def)

lemma remembers_refused:
  assumes "remembers F R st" "file_json_ok F" "cache_accept (rs_cache st) va = Ok c"
    "f = snd (store_json_atomic F ev (rs_cache_file st) c)"
  shows "remembers F R (st\<lparr>rs_cache_file := f\<rparr>)"
  using assms(1, 4) keeps_revoked_refused [OF _ assms(2, 3)] by (simp add: remembers_def applying_def)

lemma remembers_accepted:
  assumes "remembers F R st" "file_json_ok F" "cache_accept (rs_cache st) va = Ok c"
    "c = rs_cache st \<and> f = rs_cache_file st \<or> store_json_atomic F ev (rs_cache_file st) c = (Ok (), f)"
  shows "remembers F R (st\<lparr>rs_cache := c, rs_cache_file := f, rs_applying := (task, va, False) # rs_applying st\<rparr>)"
  using assms accept_revoked [OF assms(3)] load_stored [OF assms(2), of ev _ c f]
  by (auto simp: remembers_def keeps_revoked_def applying_def)

text \<open>The sections after the first only move on or drop what is being applied.\<close>

definition moves_on :: "relay_state \<Rightarrow> relay_state \<Rightarrow> bool" where
  "moves_on st st' \<longleftrightarrow> rs_cache st' = rs_cache st \<and> rs_cache_file st' = rs_cache_file st
     \<and> applying st' \<subseteq> applying st
     \<and> (\<forall>va. rs_authorization st' = Some va \<longrightarrow> rs_authorization st = Some va \<or> va \<in> applying st)"

lemma retained_moves_on: "moves_on st (routes_retained task now st)"
  unfolding moves_on_def routes_retained_def retain_routes_def applying_def Let_def
  by (auto split: option.splits bool.splits dest!: update_entries map_of_SomeD intro: rev_image_eqI)

lemma published_moves_on: "moves_on st (authorization_published task st)"
  unfolding moves_on_def authorization_published_def applying_def
  by (auto simp: delete_filter split: option.splits bool.splits dest!: map_of_SomeD intro: rev_image_eqI)

lemma abandoned_moves_on: "moves_on st (authorization_abandoned task st)"
  unfolding moves_on_def authorization_abandoned_def applying_def
  by (auto simp: delete_filter intro: rev_image_eqI)

lemma remembers_moves_on: "\<lbrakk>remembers F R st; moves_on st st'\<rbrakk> \<Longrightarrow> remembers F R st'"
  unfolding remembers_def keeps_revoked_def moves_on_def by (metis subsetD)

text \<open>A snapshot that is being applied has been through the cache, and so has a published one.\<close>

definition applied_cached :: "relay_state \<Rightarrow> bool" where
  "applied_cached st \<longleftrightarrow> (\<forall>va. va \<in> applying st \<or> rs_authorization st = Some va
     \<longrightarrow> va_revoked_credentials va \<subseteq> ac_revoked_credentials (rs_cache st))"

lemma applied_cached_moves_on: "\<lbrakk>applied_cached st; moves_on st st'\<rbrakk> \<Longrightarrow> applied_cached st'"
  unfolding applied_cached_def moves_on_def by (metis subsetD)

lemma applied_cached_cong:
  "\<lbrakk>applied_cached st; rs_cache st' = rs_cache st; rs_applying st' = rs_applying st;
    rs_authorization st' = rs_authorization st\<rbrakk> \<Longrightarrow> applied_cached st'"
  by (simp add: applied_cached_def applying_def)

lemma active_not_revoked:
  "is_ok (ensure_credential_active a i now) \<Longrightarrow> \<exists>va. a = Some va \<and> i \<notin> va_revoked_credentials va"
  by (auto simp: is_ok_iff ensure_credential_active_def is_active_def split: option.splits)

lemma remembers_step:
  assumes r: "remembers F R st" and F: "file_json_ok F" "F = en_cache_json E"
    and st': "relay_step E op st = (p, st')"
  shows "remembers F R st'" "p = Some q \<Longrightarrow> pd_credential_id q \<notin> R"
proof -
  have "remembers F R st' \<and> (\<forall>q. p = Some q \<longrightarrow> pd_credential_id q \<notin> R)"
  proof (cases op)
    case (SocketArrived k preface mac now_unix now1 now2 latency)
    obtain res st1 where a: "admit_socket (en_hmac E) k preface mac now_unix now1 now2 latency st = (res, st1)"
      by (meson surj_pair)
    from a show ?thesis
    proof (cases rule: admit_socket_cases)
      case (pairs i x x' t h)
      have "pr_credential_id x' = pr_credential_id x"
        using pairs(2) by (auto simp: take_side_def split: route_side.splits if_splits)
      moreover have "pr_credential_id x \<notin> R"
        using pairs(1) r active_not_revoked unfolding admissible_def remembers_def keeps_revoked_def by blast
      ultimately show ?thesis
        using a st' SocketArrived pairs r remembers_cong [of st1 st F R] by auto
    qed (use a st' SocketArrived r remembers_cong [of st1 st F R] in auto)
  next
    case (AuthorizationArrived task ev snap)
    obtain res st1 where a: "authorization_accepted (en_crypto E) (en_endpoint_json E) (en_credential_json E)
        (en_snapshot_json E) F task ev snap st = (res, st1)"
      by (meson surj_pair)
    then have "remembers F R st1"
    proof (cases rule: authorization_accepted_cases)
      case (refused e)
      then show ?thesis
        using r F remembers_cong [of "st\<lparr>rs_cache_file := rs_cache_file st\<rparr>" st F R] by (auto intro: remembers_refused)
    next
      case (accepted auths va c f)
      then show ?thesis
        using remembers_accepted [OF r F(1) accepted(4, 5)] by simp
    qed
    then show ?thesis
      using st' AuthorizationArrived a F r by (auto split: if_splits)
  next
    case (RoutesRetained task now)
    with st' remembers_moves_on [OF r retained_moves_on] show ?thesis by auto
  next
    case (AuthorizationPublished task)
    with st' remembers_moves_on [OF r published_moves_on] show ?thesis by auto
  next
    case (AuthorizationAbandoned task)
    with st' remembers_moves_on [OF r abandoned_moves_on] show ?thesis by auto
  qed (use st' in \<open>auto intro!: remembers_cong [THEN iffD2, OF _ _ _ _ r] simp: route_begin_def route_answered_def
        route_finish_def remove_route_def Let_def drop_permit_def metric_defs cleanup_routes_def retain_routes_def
        relay_apply_directory_def carrier_finished_def
        split: option.splits result.splits if_splits splice_end.splits\<close>)
  then show "remembers F R st'" "p = Some q \<Longrightarrow> pd_credential_id q \<notin> R"
    by simp_all
qed

lemma remembers_run:
  "remembers F R st \<Longrightarrow> file_json_ok F \<Longrightarrow> F = en_cache_json E \<Longrightarrow> relay_run E ops st = (ps, st')
     \<Longrightarrow> remembers F R st' \<and> (\<forall>p \<in> set ps. pd_credential_id p \<notin> R)"
proof (induction ops arbitrary: st ps)
  case (Cons op ops)
  obtain p st1 ps1 where r: "relay_step E op st = (p, st1)" "relay_run E ops st1 = (ps1, st')"
    "ps = (case p of None \<Rightarrow> [] | Some p \<Rightarrow> [p]) @ ps1"
    using Cons.prems(4) by (auto split: prod.splits)
  note s = remembers_step [OF Cons.prems(1-3) r(1)]
  from Cons.IH [OF s(1) Cons.prems(2, 3) r(2)] s(2) show ?case
    by (auto simp: r(3) split: option.splits)
qed simp

lemma applied_cached_step:
  assumes c: "applied_cached st" and st': "relay_step E op st = (p, st')"
  shows "applied_cached st'"
proof (cases op)
  case (SocketArrived k preface mac now_unix now1 now2 latency)
  obtain res st1 where a: "admit_socket (en_hmac E) k preface mac now_unix now1 now2 latency st = (res, st1)"
    by (meson surj_pair)
  from a have "applied_cached st1"
    by (cases rule: admit_socket_cases) (use c in \<open>auto intro: applied_cached_cong\<close>)
  then show ?thesis
    using st' SocketArrived a by (cases res) auto
next
  case (AuthorizationArrived task ev snap)
  obtain res st1 where a: "authorization_accepted (en_crypto E) (en_endpoint_json E) (en_credential_json E)
      (en_snapshot_json E) (en_cache_json E) task ev snap st = (res, st1)"
    by (meson surj_pair)
  from a have "applied_cached st1"
  proof (cases rule: authorization_accepted_cases)
    case (accepted auths va k f)
    with c accept_revoked [OF accepted(4)] show ?thesis
      unfolding applied_cached_def applying_def by fastforce
  qed (use c in \<open>auto intro: applied_cached_cong\<close>)
  then show ?thesis
    using st' AuthorizationArrived a c by (auto split: if_splits)
next
  case (RoutesRetained task now)
  with st' applied_cached_moves_on [OF c retained_moves_on] show ?thesis by auto
next
  case (AuthorizationPublished task)
  with st' applied_cached_moves_on [OF c published_moves_on] show ?thesis by auto
next
  case (AuthorizationAbandoned task)
  with st' applied_cached_moves_on [OF c abandoned_moves_on] show ?thesis by auto
qed (use st' in \<open>auto intro!: applied_cached_cong [OF c] simp: route_begin_def route_answered_def
      route_finish_def remove_route_def Let_def drop_permit_def metric_defs cleanup_routes_def retain_routes_def
      relay_apply_directory_def carrier_finished_def
      split: option.splits result.splits if_splits splice_end.splits\<close>)

lemma applied_cached_run:
  "applied_cached st \<Longrightarrow> relay_run E ops st = (ps, st') \<Longrightarrow> applied_cached st'"
proof (induction ops arbitrary: st ps)
  case (Cons op ops)
  obtain p st1 ps1 where "relay_step E op st = (p, st1)" "relay_run E ops st1 = (ps1, st')"
    using Cons.prems(2) by (auto split: prod.splits)
  with Cons.IH applied_cached_step [OF Cons.prems(1)] show ?case by blast
qed simp

lemma sweep_drops:
  assumes "map_of (rs_applying st) task = Some (va, False)" "i \<in> va_revoked_credentials va"
    and "(j, r) \<in> set (rs_routes (routes_retained task now st))"
  shows "pr_credential_id r \<noteq> i"
  using assms by (auto simp: routes_retained_def retain_routes_def is_active_def Let_def split: option.splits)

section \<open>The Relay directory\<close>

interpretation relay_dir: high_water "apply_relay_directory C parse" rd_generation rd_relays "\<lambda>_ _. True" "\<lambda>_. {}"
  by unfold_locales (auto simp: apply_relay_directory_def split: if_splits)

lemma relay_directory_entries_Ok:
  "relay_directory_entries C parse previous es = Ok () \<longleftrightarrow>
     (\<forall>e \<in> set es. re_id e \<noteq> [] \<and> validate_spki_pin C (re_management_spki_sha256 e) = Ok ()
        \<and> connectable parse (re_management_addr e) = Ok () \<and> connectable parse (re_data_public_addr e) = Ok ())
     \<and> sorted_wrt (<) ((case previous of None \<Rightarrow> [] | Some p \<Rightarrow> [p]) @ map re_id es)"
proof (induction es arbitrary: previous)
  case (Cons e es)
  show ?case
    by (cases previous) (auto simp: Cons not_le)
qed (auto split: option.splits)

section \<open>The wait beside a splice\<close>

lemma ensure_active: "ensure_credential_active a i now = Ok n \<Longrightarrow> \<exists>va. a = Some va \<and> is_active va i now"
  by (auto simp: ensure_credential_active_def)

lemma wait_pending:
  "\<not> wait_until_authorization_inactive a i now evs \<Longrightarrow> (\<exists>va. a = Some va \<and> is_active va i now)
     \<and> (\<forall>e \<in> set evs. \<exists>va t. e = AuthorizationChanged (Some va) t \<and> is_active va i t)"
proof (induction evs arbitrary: a now)
  case Nil
  then show ?case
    by (auto simp: wait_until_authorization_inactive.simps [of a i now "[]"] split: result.splits
        dest: ensure_active)
next
  case (Cons e evs)
  then obtain n where n: "ensure_credential_active a i now = Ok n"
    by (cases "ensure_credential_active a i now") (simp_all add: wait_until_authorization_inactive.simps)
  with Cons.prems obtain a' t where e: "e = AuthorizationChanged a' t"
    "\<not> wait_until_authorization_inactive a' i t evs"
    by (cases e) (simp_all add: wait_until_authorization_inactive.simps [of a i now "x # evs" for x])
  from Cons.IH [OF e(2)] ensure_active [OF n] e(1) show ?case
    by auto
qed

section \<open>Evaluation on a concrete Relay\<close>

definition sample_cached :: "u64 \<Rightarrow> uuid set \<Rightarrow> authorization_cache" where
  "sample_cached g R = \<lparr>ac_generation = g, ac_snapshot_sha256 = tohex (replicate 31 0 @ [7]), ac_revoked_credentials = R\<rparr>"

definition sample_cache_json :: "authorization_cache file_json" where
  "sample_cache_json = \<lparr>to_vec_pretty = (\<lambda>c. if c = cache_default then Some [0]
         else if c = sample_cached 3 {} then Some [3] else if c = sample_cached 4 {11} then Some [4] else None),
       parse_file = (\<lambda>b. if b = [0, 10] then Some cache_default else if b = [3, 10] then Some (sample_cached 3 {})
         else if b = [4, 10] then Some (sample_cached 4 {11}) else None)\<rparr>"

lemma sample_cache_json_ok: "file_json_ok sample_cache_json"
  by (simp add: file_json_ok_def sample_cache_json_def)

definition sample_relay_env :: "u64 \<Rightarrow> travel_revocation list \<Rightarrow> relay_env" where
  "sample_relay_env g revs = \<lparr>en_hmac = sum_hmac, en_crypto = sample_crypto,
     en_endpoint_json = one_json (sample_endpoint []), en_credential_json = one_json sample_credential,
     en_snapshot_json = one_json (sample_snapshot g revs), en_cache_json = sample_cache_json,
     en_parse_addr = (\<lambda>_. Some \<lparr>ad_port = 443, ad_unspecified = False, ad_loopback = False, ad_multicast = False\<rparr>),
     en_route_ttl_secs = 30\<rparr>"

definition sample_relay :: relay_state where
  "sample_relay = relay_new cache_default (Some [0, 10]) (sample_trust\<lparr>dt_travel_authorities := [sample_authority 5]\<rparr>) 4
     (Some (''r:1'', ''r:2''))"

definition sample_request :: travel_route_context where
  "sample_request = \<lparr>trc_request = 5, trc_credential = 11, trc_travel = ''phone'', trc_travel_session = 6,
     trc_home = ''home-1''\<rparr>"

definition sample_server_grant :: server_grant where
  "sample_server_grant = \<lparr>sg_work_id = 88, sg_work_secret = replicate 32 2, sg_credential_id = 11,
     sg_home_id = ''home-1'', sg_expires_at_unix_secs = 170\<rparr>"

definition sample_arrival :: "socket \<Rightarrow> route_side \<Rightarrow> uuid \<Rightarrow> byte \<Rightarrow> relay_op" where
  "sample_arrival s side i k = SocketArrived s \<lparr>pf_side = side, pf_id = i\<rparr>
     (hm_sign sum_hmac (replicate 32 k) (signed_bytes side i)) 150 11 11 5"

definition sample_route_ops :: "relay_op list" where
  "sample_route_ops = [RouteRequested sample_request,
     ServerAnswered sample_request (Ok sample_server_grant) 150 10 77 (replicate 32 1),
     RouteAnnounced 77 (replicate 32 1) ''r:2'' (Ok ()) (Ok ()),
     sample_arrival 1 SideTravel 77 1, sample_arrival 2 SideHome 88 2]"

lemma sample_preface_verifies:
  "verify_preface sum_hmac \<lparr>pf_side = side, pf_id = i\<rparr>
     (hm_sign sum_hmac (replicate 32 k) (signed_bytes side i)) (replicate 32 k)"
  using sum_hmac_ok by (simp add: verify_preface_def hmac_ok_def MAC_LEN_def)

lemma sample_relay_authorities:
  "travel_authorities_with_home_delegations sample_crypto J
     (sample_trust\<lparr>dt_travel_authorities := [sample_authority 5]\<rparr>) [] = Ok [sample_authority 5]"
  using sample_authority_valid by (simp add: travel_authorities_with_home_delegations_def)

definition sample_synced :: "u64 \<Rightarrow> uuid set \<Rightarrow> state_file \<Rightarrow> relay_state" where
  "sample_synced g R f = sample_relay\<lparr>rs_cache := sample_cached g R, rs_cache_file := f, rs_authorization := Some (sample_verified g R)\<rparr>"

text \<open>Task 1 applies a snapshot with nothing in between.\<close>

definition sample_apply :: "nat \<Rightarrow> travel_authorization_snapshot \<Rightarrow> relay_op list" where
  "sample_apply task snap = [AuthorizationArrived task Stored snap, RoutesRetained task 150, AuthorizationPublished task]"

lemma sample_accepted:
  assumes "authorization_verify sample_crypto (one_json sample_credential) JS snap [sample_authority 5] ''dep''
      = Ok (sample_verified g R)" "tas_home_endpoint_credentials snap = []"
    and "cache_accept (rs_cache st) (sample_verified g R) = Ok (sample_cached g R)" "rs_cache st \<noteq> sample_cached g R"
    and "to_vec_pretty sample_cache_json (sample_cached g R) = Some b"
    and "rs_trust st = sample_trust\<lparr>dt_travel_authorities := [sample_authority 5]\<rparr>"
  shows "authorization_accepted sample_crypto (one_json (sample_endpoint [])) (one_json sample_credential)
      JS sample_cache_json task Stored snap st
    = (Ok g, st\<lparr>rs_cache := sample_cached g R, rs_cache_file := Some (b @ [10]),
         rs_applying := (task, sample_verified g R, False) # rs_applying st\<rparr>)"
proof -
  have "dt_deployment_id (rs_trust st) = ''dep''" "va_generation (sample_verified g R) = g"
    by (simp_all add: assms(6) sample_trust_def sample_verified_def)
  moreover have "store_json_atomic sample_cache_json Stored (rs_cache_file st) (sample_cached g R)
      = (Ok (), Some (b @ [10]))"
    using assms(5) by (simp add: store_json_atomic_def)
  ultimately show ?thesis
    using assms(1-4) sample_relay_authorities
    unfolding authorization_accepted_def by (simp add: assms(6) neq_commute)
qed

lemma sample_cache_first:
  "g \<noteq> 0 \<Longrightarrow> cache_accept cache_default (sample_verified g R) = Ok (sample_cached g R)"
  by (simp add: cache_accept_def cache_default_def sample_verified_def bail_if_def sample_cached_def)

lemma sample_cached_fresh: "g \<noteq> 0 \<Longrightarrow> cache_default \<noteq> sample_cached g R"
  by (simp add: cache_default_def sample_cached_def)

lemma sample_synchronizes:
  assumes "g \<noteq> 0" "index_revocations [11 \<mapsto> sample_credential] {} revs = Ok R"
    "to_vec_pretty sample_cache_json (sample_cached g R) = Some b"
  shows "relay_run (sample_relay_env g revs) (sample_apply 1 (sample_snapshot g revs)) sample_relay
    = ([], sample_synced g R (Some (b @ [10])))"
proof -
  have t: "rs_trust sample_relay = sample_trust\<lparr>dt_travel_authorities := [sample_authority 5]\<rparr>"
    "rs_cache sample_relay = cache_default" "rs_applying sample_relay = []" "rs_routes sample_relay = []"
    "tas_home_endpoint_credentials (sample_snapshot g revs) = []"
    by (simp_all add: sample_relay_def relay_new_def sample_snapshot_def)
  have "authorization_accepted sample_crypto (one_json (sample_endpoint [])) (one_json sample_credential)
      (one_json (sample_snapshot g revs)) sample_cache_json 1 Stored (sample_snapshot g revs) sample_relay
    = (Ok g, sample_relay\<lparr>rs_cache := sample_cached g R, rs_cache_file := Some (b @ [10]),
         rs_applying := [(1, sample_verified g R, False)]\<rparr>)"
    using sample_accepted [OF sample_verifies [OF assms(1, 2)], of sample_relay b 1]
      sample_cache_first [OF assms(1)] sample_cached_fresh [OF assms(1)] assms(3) t by simp
  then show ?thesis
    using t by (simp add: sample_apply_def sample_relay_env_def routes_retained_def authorization_published_def
        retain_routes_def sample_synced_def)
qed

lemma sample_active: "is_active (sample_verified g {}) 11 150" "va_credentials (sample_verified g R) 11 = Some sample_credential"
  by (simp_all add: is_active_def sample_verified_def credential_active_at_def sample_credential_def)

definition sample_pair :: paired_route where
  "sample_pair = \<lparr>pd_route_id = 77, pd_work_id = 88, pd_credential_id = 11, pd_travel_id = ''phone'',
     pd_home_id = ''home-1'', pd_travel = 1, pd_home = 2\<rparr>"

definition sample_pending :: "socket option \<Rightarrow> socket option \<Rightarrow> pending_route" where
  "sample_pending x y = \<lparr>pr_credential_id = 11, pr_travel_id = ''phone'', pr_home_id = ''home-1'', pr_work_id = 88,
     pr_route_secret = replicate 32 1, pr_work_secret = replicate 32 2, pr_created = 10, pr_expires = 30,
     pr_travel = x, pr_home = y\<rparr>"

text \<open>The route and the two sockets in any Relay that is empty and works with the sample authorization.\<close>

definition sample_ready :: "relay_env \<Rightarrow> u64 \<Rightarrow> relay_state \<Rightarrow> bool" where
  "sample_ready E g st \<longleftrightarrow> en_hmac E = sum_hmac \<and> en_route_ttl_secs E = 30 \<and> rs_routes st = [] \<and> rs_waiting st = []
     \<and> rs_permits st = 4 \<and> rs_endpoint st \<noteq> None \<and> rs_authorization st = Some (sample_verified g {})"

lemma sample_opens:
  assumes "sample_ready E g st0"
  shows "\<exists>st. relay_run E (take 3 sample_route_ops) st0 = ([], st)
     \<and> rs_routes st = [(77, sample_pending None None)] \<and> rs_authorization st = Some (sample_verified g {})"
  using assms
  by (auto simp: sample_route_ops_def sample_ready_def route_begin_def route_answered_def route_finish_def
      sample_request_def sample_server_grant_def sample_pending_def eval_simps)

lemma sample_first:
  assumes "rs_routes st = [(77, sample_pending None None)]" "rs_authorization st = Some (sample_verified g {})"
    and "en_hmac E = sum_hmac"
  shows "relay_step E (sample_arrival 1 SideTravel 77 1) st
     = (None, st\<lparr>rs_routes := [(77, sample_pending (Some 1) None)]\<rparr>)"
proof -
  let ?f = "\<lparr>pf_side = SideTravel, pf_id = 77\<rparr>"
    and ?m = "hm_sign sum_hmac (replicate 32 1) (signed_bytes SideTravel 77)"
  have "resolve_direct_route_id (rs_routes st) ?f = Some 77" "map_of (rs_routes st) 77 = Some (sample_pending None None)"
    using assms(1) by (simp_all add: resolve_direct_route_id_def)
  moreover have "validate_direct_route_admission sum_hmac 77 (sample_pending None None) ?f ?m 11 = Ok ()"
    "take_side SideTravel 1 (sample_pending None None) = Ok (sample_pending (Some 1) None)"
    "pr_expires (sample_pending None None) = 30" "pr_credential_id (sample_pending None None) = 11"
    using sample_preface_verifies [of SideTravel 77 1]
    by (simp_all add: validate_direct_route_admission_def take_side_def sample_pending_def)
  moreover have "ensure_credential_active (rs_authorization st) 11 150 = Ok 200"
    using sample_active [of g] assms(2) by (simp add: ensure_credential_active_def bail_if_def sample_credential_def)
  ultimately show ?thesis
    by (simp add: sample_arrival_def admit_socket_def bail_if_def assms(1, 3))
      (simp add: sample_pending_def assms(1))
qed

lemma sample_second:
  assumes "rs_routes st = [(77, sample_pending (Some 1) None)]" "rs_authorization st = Some (sample_verified g {})"
    and "en_hmac E = sum_hmac"
  shows "\<exists>st'. relay_step E (sample_arrival 2 SideHome 88 2) st = (Some sample_pair, st')"
proof -
  let ?f = "\<lparr>pf_side = SideHome, pf_id = 88\<rparr>" and ?r = "sample_pending (Some 1) None"
    and ?m = "hm_sign sum_hmac (replicate 32 2) (signed_bytes SideHome 88)"
  have "resolve_direct_route_id (rs_routes st) ?f = Some 77" "map_of (rs_routes st) 77 = Some ?r"
    using assms(1) by (simp_all add: resolve_direct_route_id_def sample_pending_def)
  moreover have "validate_direct_route_admission sum_hmac 77 ?r ?f ?m 11 = Ok ()"
    "take_side SideHome 2 ?r = Ok (sample_pending (Some 1) (Some 2))"
    "pr_expires ?r = 30" "pr_credential_id ?r = 11"
    using sample_preface_verifies [of SideHome 88 2]
    by (simp_all add: validate_direct_route_admission_def take_side_def sample_pending_def)
  moreover have "ensure_credential_active (rs_authorization st) 11 150 = Ok 200"
    using sample_active [of g] assms(2) by (simp add: ensure_credential_active_def bail_if_def sample_credential_def)
  ultimately show ?thesis
    by (simp add: sample_arrival_def admit_socket_def bail_if_def assms(1, 3))
      (simp add: sample_pending_def sample_pair_def)
qed

lemma sample_pairs:
  assumes "sample_ready E g st0"
  shows "\<exists>st. relay_run E sample_route_ops st0 = ([sample_pair], st)"
proof -
  have E: "en_hmac E = sum_hmac" using assms by (simp add: sample_ready_def)
  obtain st where o: "relay_run E (take 3 sample_route_ops) st0 = ([], st)"
    and st: "rs_routes st = [(77, sample_pending None None)]" "rs_authorization st = Some (sample_verified g {})"
    using sample_opens [OF assms] by blast
  note f = sample_first [OF st E]
  obtain st' where "relay_step E (sample_arrival 2 SideHome 88 2)
      (st\<lparr>rs_routes := [(77, sample_pending (Some 1) None)]\<rparr>) = (Some sample_pair, st')"
    using sample_second [of "st\<lparr>rs_routes := [(77, sample_pending (Some 1) None)]\<rparr>" g E] st(2) E by auto
  moreover have "sample_route_ops = take 3 sample_route_ops
      @ [sample_arrival 1 SideTravel 77 1, sample_arrival 2 SideHome 88 2]"
    by (simp add: sample_route_ops_def)
  ultimately show ?thesis
    using o f relay_run_append [of E "take 3 sample_route_ops"
        "[sample_arrival 1 SideTravel 77 1, sample_arrival 2 SideHome 88 2]" st0]
    by simp
qed

lemma sample_synced_ready: "sample_ready (sample_relay_env g' revs) g (sample_synced g {} f)"
  by (simp add: sample_ready_def sample_relay_env_def sample_synced_def sample_relay_def relay_new_def)

section \<open>Properties\<close>

text \<open>C6: whatever the Relay's tasks do and in whatever order, every pair of sockets it splices goes
  back to a Server grant for the Travel credential and Home of the request, each of the two sockets
  came with a preface for its own side of that route, tagged under the secret of that side, before
  the route expired, no route is spliced twice, and a route that still waits has one free side.\<close>

theorem relay_splices_authentic:
  assumes "relay_run E ops (relay_new cache f t n endpoint) = (ps, st)" and "distinct (issued_ids ops)"
  shows "(\<forall>p \<in> set ps. authentic_pair E ops p) \<and> distinct (map pd_route_id ps)
     \<and> (\<forall>(i, r) \<in> set (rs_routes st). (pr_travel r = None \<or> pr_home r = None) \<and> route_sound E ops i r)"
proof -
  have "relay_sound E [] [] (relay_new cache f t n endpoint)"
    by (simp add: relay_sound_def relay_new_def)
  from sound_run [OF this _ assms(1)] assms(2) have "relay_sound E ops ps st"
    by simp
  note d = relay_soundD [OF this]
  show ?thesis
    using d(2, 6, 8) d(7) by (intro conjI ballI) (simp_all add: case_prod_beta, metis prod.collapse)
qed

theorem relay_splices_authentic_witness:
  "let E = sample_relay_env 3 []; ops = sample_apply 1 (sample_snapshot 3 []) @ sample_route_ops
   in map pd_route_id (fst (relay_run E ops sample_relay)) = [77] \<and> authentic_pair E ops sample_pair"
proof -
  let ?E = "sample_relay_env 3 []"
  let ?ops = "sample_apply 1 (sample_snapshot 3 []) @ sample_route_ops"
  have "relay_run ?E (sample_apply 1 (sample_snapshot 3 [])) sample_relay = ([], sample_synced 3 {} (Some [3, 10]))"
    using sample_synchronizes [of 3 "[]" "{}" "[3]"]
    by (simp add: sample_cache_json_def cache_default_def sample_cached_def [of 3])
  then obtain st where run: "relay_run ?E ?ops sample_relay = ([sample_pair], st)"
    using sample_pairs [OF sample_synced_ready, of 3 "[]" 3 "Some [3, 10]"] by (auto simp: relay_run_append)
  have "distinct (issued_ids ?ops)"
    by (simp add: sample_route_ops_def sample_arrival_def sample_apply_def)
  from relay_splices_authentic [OF run [unfolded sample_relay_def] this] run show ?thesis
    by (simp add: sample_relay_def sample_pair_def)
qed

text \<open>C36: the Relay never holds more pending routes than configured: every permit is free, with a
  request that waits for the Server, or with a pending route, and once the routes have expired one
  pass of the cleanup returns all the permits that no request holds.\<close>

theorem relay_capacity:
  assumes "relay_run E ops (relay_new cache f t n endpoint) = (ps, st)"
  shows "rs_permits st + length (rs_waiting st) + length (rs_routes st) = n
     \<and> (\<forall>now. (\<forall>(i, r) \<in> set (rs_routes st). pr_expires r \<le> now) \<longrightarrow>
          rs_routes (cleanup_routes now st) = [] \<and> rs_permits (cleanup_routes now st) = n - length (rs_waiting st))"
proof -
  have n: "rs_permits st + length (rs_waiting st) + length (rs_routes st) = n"
    using permits_run [of E ops "relay_new cache f t n endpoint"] assms
    by (simp add: permits_of_def) (simp add: relay_new_def)
  moreover have "rs_routes (cleanup_routes now st) = [] \<and> rs_permits (cleanup_routes now st) = n - length (rs_waiting st)"
    if "\<forall>(i, r) \<in> set (rs_routes st). pr_expires r \<le> now" for now
  proof -
    have "filter (\<lambda>(i, r). now < pr_expires r) (rs_routes st) = []"
      using that by (auto simp: filter_empty_conv not_less)
    with n show ?thesis
      by (simp add: cleanup_routes_def retain_routes_def Let_def)
  qed
  ultimately show ?thesis by blast
qed

theorem relay_capacity_witness:
  "let st = snd (relay_run (sample_relay_env 3 []) (take 2 sample_route_ops) sample_relay)
   in rs_permits st = 3 \<and> map fst (rs_routes st) = [77] \<and> rs_routes (cleanup_routes 30 st) = []
      \<and> rs_permits (cleanup_routes 30 st) = 4"
proof -
  let ?run = "relay_run (sample_relay_env 3 []) (take 2 sample_route_ops) sample_relay"
  have e: "fst ?run = []" "rs_permits (snd ?run) = 3" "map fst (rs_routes (snd ?run)) = [77]"
    "rs_waiting (snd ?run) = []" "\<forall>(i, r) \<in> set (rs_routes (snd ?run)). pr_expires r \<le> 30"
    by (simp_all add: sample_route_ops_def sample_relay_env_def sample_relay_def relay_new_def route_begin_def
        route_answered_def sample_request_def sample_server_grant_def eval_simps)
  have "relay_run (sample_relay_env 3 []) (take 2 sample_route_ops) (relay_new cache_default (Some [0, 10])
      (sample_trust\<lparr>dt_travel_authorities := [sample_authority 5]\<rparr>) 4 (Some (''r:1'', ''r:2''))) = ([], snd ?run)"
    using e(1) by (simp add: prod_eq_iff sample_relay_def)
  from relay_capacity [OF this] e show ?thesis
    by (simp add: Let_def)
qed

text \<open>C16: once the Relay works with an authorization whose snapshot revokes a credential, and no task is in the
  middle of applying a snapshot without that revocation, it never splices a pair for the credential again
  whatever happens next, neither does the Relay that is started again from its cache file at any later
  time, a sweep of the routes for such a snapshot leaves no route of the credential, and the cache file
  holds the revocation.\<close>

theorem relay_revocation_final:
  assumes "file_json_ok (en_cache_json E)" and "load_json (en_cache_json E) f = Ok cache"
    and "relay_run E ops (relay_new cache f t n endpoint) = (ps, st)"
    and "authorization_verify (en_crypto E) (en_credential_json E) (en_snapshot_json E) snap auths dep = Ok va"
    and "rv \<in> set (tas_revocations snap)" and "rs_authorization st = Some va"
    and "\<forall>(task, va', swept) \<in> set (rs_applying st). rv_credential_id rv \<in> va_revoked_credentials va'"
    and "relay_run E ops' st = (ps', st')"
    and "load_json (en_cache_json E) (rs_cache_file st') = Ok cache'"
    and "relay_run E ops'' (relay_new cache' (rs_cache_file st') t' n' endpoint') = (ps'', st'')"
  shows "(\<forall>p \<in> set (ps' @ ps''). pd_credential_id p \<noteq> rv_credential_id rv)
     \<and> rv_credential_id rv \<in> ac_revoked_credentials cache'
     \<and> (\<forall>task va' now. map_of (rs_applying st) task = Some (va', False) \<longrightarrow>
          (\<forall>(j, r) \<in> set (rs_routes (snd (relay_step E (RoutesRetained task now) st))).
             pr_credential_id r \<noteq> rv_credential_id rv))"
proof -
  let ?F = "en_cache_json E" and ?i = "rv_credential_id rv"
  have init: "remembers ?F {} (relay_new cache f t n endpoint)" "applied_cached (relay_new cache f t n endpoint)"
    using assms(2) by (simp_all add: remembers_def keeps_revoked_def relay_new_def applied_cached_def applying_def)
  have v: "?i \<in> va_revoked_credentials va"
    using authorization_verifyD(4) [OF assms(4)] assms(5) by simp
  have "va_revoked_credentials va \<subseteq> ac_revoked_credentials (rs_cache st)"
    using applied_cached_run [OF init(2) assms(3)] assms(6) by (simp add: applied_cached_def)
  moreover have "remembers ?F {} st"
    using remembers_run [OF init(1) assms(1) refl assms(3)] by blast
  ultimately have "remembers ?F {?i} st"
    using v assms(6, 7) by (auto simp: remembers_def keeps_revoked_def applying_def)
  from remembers_run [OF this assms(1) refl assms(8)]
  have st': "remembers ?F {?i} st'" "\<forall>p \<in> set ps'. pd_credential_id p \<notin> {?i}" by blast+
  have c: "?i \<in> ac_revoked_credentials cache'"
    using st'(1) assms(9) by (auto simp: remembers_def keeps_revoked_def)
  then have "remembers ?F {?i} (relay_new cache' (rs_cache_file st') t' n' endpoint')"
    using assms(9) by (simp add: remembers_def keeps_revoked_def relay_new_def applying_def)
  from remembers_run [OF this assms(1) refl assms(10)]
  have "\<forall>p \<in> set ps''. pd_credential_id p \<notin> {?i}" by blast
  moreover have "pr_credential_id r \<noteq> ?i"
    if "map_of (rs_applying st) task = Some (va', False)" "(j, r) \<in> set (rs_routes (routes_retained task now st))"
    for task va' now j r
    using sweep_drops [OF that(1) _ that(2)] assms(7) map_of_SomeD [OF that(1)] by blast
  ultimately show ?thesis
    using st'(2) c by auto
qed

definition sample_revoke :: travel_revocation where
  "sample_revoke = \<lparr>rv_credential_id = 11, rv_revoked_at_unix_secs = 150, rv_reason = ''lost''\<rparr>"

lemma sample_revoke_indexed: "index_revocations [11 \<mapsto> sample_credential] {} [sample_revoke] = Ok {11}"
  by (simp add: sample_revoke_def bail_if_def)

lemma sample_revoked_stored: "to_vec_pretty sample_cache_json (sample_cached 4 {11}) = Some [4]"
  by (simp add: sample_cache_json_def sample_cached_def cache_default_def)

theorem relay_revocation_final_witness:
  "let E = sample_relay_env 4 [sample_revoke]; st = sample_synced 4 {11} (Some [4, 10])
   in \<not> list_ex (\<lambda>p. pd_credential_id p = 11) (fst (relay_run E sample_route_ops st))
     \<and> map fst (rs_routes (snd (relay_run E (take 3 sample_route_ops) st))) = [77]"
proof -
  let ?E = "sample_relay_env 4 [sample_revoke]" and ?st = "sample_synced 4 {11} (Some [4, 10])"
  let ?run = "relay_run ?E sample_route_ops ?st"
  have E: "en_cache_json ?E = sample_cache_json" "en_crypto ?E = sample_crypto"
    "en_credential_json ?E = one_json sample_credential"
    "en_snapshot_json ?E = one_json (sample_snapshot 4 [sample_revoke])"
    by (simp_all add: sample_relay_env_def)
  have l: "load_json (en_cache_json ?E) (Some [0, 10]) = Ok cache_default" "file_json_ok (en_cache_json ?E)"
    using sample_cache_json_ok by (simp_all add: load_json_def E(1)) (simp add: sample_cache_json_def)
  have run: "relay_run ?E (sample_apply 1 (sample_snapshot 4 [sample_revoke])) (relay_new cache_default (Some [0, 10])
      (sample_trust\<lparr>dt_travel_authorities := [sample_authority 5]\<rparr>) 4 (Some (''r:1'', ''r:2''))) = ([], ?st)"
    using sample_synchronizes [OF _ sample_revoke_indexed sample_revoked_stored] by (simp add: sample_relay_def)
  have v: "authorization_verify (en_crypto ?E) (en_credential_json ?E) (en_snapshot_json ?E)
      (sample_snapshot 4 [sample_revoke]) [sample_authority 5] ''dep'' = Ok (sample_verified 4 {11})"
    using sample_verifies [OF _ sample_revoke_indexed] by (simp add: E)
  have s: "rs_authorization ?st = Some (sample_verified 4 {11})" "rs_applying ?st = []" "rs_cache_file ?st = Some [4, 10]"
    by (simp_all add: sample_synced_def sample_relay_def relay_new_def)
  have r: "relay_run ?E sample_route_ops ?st = (fst ?run, snd ?run)" by simp
  have "load_json sample_cache_json (Some [4, 10]) = Ok (sample_cached 4 {11})"
    by (simp add: load_json_def) (simp add: sample_cache_json_def)
  then have "remembers (en_cache_json ?E) {} ?st"
    by (simp add: remembers_def keeps_revoked_def applying_def s E(1)) (simp add: sample_synced_def)
  from remembers_run [OF this l(2) refl r] obtain c where
    c: "load_json (en_cache_json ?E) (rs_cache_file (snd ?run)) = Ok c"
    by (auto simp: remembers_def keeps_revoked_def)
  have rv: "sample_revoke \<in> set (tas_revocations (sample_snapshot 4 [sample_revoke]))"
    by (simp add: sample_snapshot_def)
  have none: "\<forall>(task, va', swept) \<in> set (rs_applying ?st). rv_credential_id sample_revoke \<in> va_revoked_credentials va'"
    by (simp add: s(2))
  have "relay_run ?E [] (relay_new c (rs_cache_file (snd ?run)) sample_trust 4 None)
      = ([], relay_new c (rs_cache_file (snd ?run)) sample_trust 4 None)" by simp
  from relay_revocation_final [OF l(2, 1) run v rv s(1) none r c this]
  have "\<forall>p \<in> set (fst ?run). pd_credential_id p \<noteq> rv_credential_id sample_revoke" by auto
  moreover have "map fst (rs_routes (snd (relay_run ?E (take 3 sample_route_ops) ?st))) = [77]"
    by (simp add: sample_route_ops_def sample_relay_env_def sample_synced_def sample_relay_def relay_new_def
        route_begin_def route_answered_def route_finish_def sample_request_def sample_server_grant_def eval_simps)
  ultimately show ?thesis
    by (simp add: Let_def list_ex_iff sample_revoke_def)
qed

section \<open>Two snapshots applied at once\<close>

text \<open>The old session with the Server has accepted snapshot 3 when the new session applies snapshot 4, which
  revokes credential 11, from its first section to its last. The old session then goes on and publishes
  snapshot 3, and the Relay splices a pair for the revoked credential although its cache holds the
  revocation.\<close>

definition two_snapshots_json :: "travel_authorization_snapshot json" where
  "two_snapshots_json = \<lparr>to_vec = (\<lambda>s. if s = sample_snapshot 3 [] then Some [7]
       else if s = sample_snapshot 4 [sample_revoke] then Some [3, 4] else None),
     from_slice = (\<lambda>b. None)\<rparr>"

definition overtaking_env :: relay_env where
  "overtaking_env = (sample_relay_env 3 [])\<lparr>en_snapshot_json := two_snapshots_json\<rparr>"

definition overtaking_ops :: "relay_op list" where
  "overtaking_ops = AuthorizationArrived 1 Stored (sample_snapshot 3 [])
     # sample_apply 2 (sample_snapshot 4 [sample_revoke]) @ [RoutesRetained 1 150, AuthorizationPublished 1]"

lemma sample_verifies_as:
  assumes "g \<noteq> 0" "index_revocations [11 \<mapsto> sample_credential] {} revs = Ok R"
    "to_vec JS (sample_snapshot g revs) = Some b" "sum_list b = 7"
  shows "authorization_verify sample_crypto (one_json sample_credential) JS (sample_snapshot g revs)
     [sample_authority 5] ''dep'' = Ok (sample_verified g R)"
proof -
  have "sha256_digest sample_crypto b = sha256_digest sample_crypto [7]"
    using assms(4) by (simp add: sample_crypto_def)
  moreover have "to_vec (one_json (sample_snapshot g revs)) (sample_snapshot g revs) = Some [7]"
    by (simp add: one_json_def)
  ultimately show ?thesis
    using sample_verifies [OF assms(1, 2)] assms(3) by (simp add: authorization_verify_def split: prod.splits)
qed

lemma overtaking_run:
  "\<exists>st. relay_run overtaking_env overtaking_ops sample_relay = ([], st) \<and> st = (sample_synced 4 {11} (Some [4, 10]))
     \<lparr>rs_authorization := Some (sample_verified 3 {})\<rparr>"
proof -
  have ne: "sample_snapshot 4 [sample_revoke] \<noteq> sample_snapshot 3 []" "sample_cached 3 {} \<noteq> sample_cached 4 {11}"
    by (simp_all add: sample_snapshot_def sample_cached_def)
  have v3: "authorization_verify sample_crypto (one_json sample_credential) two_snapshots_json (sample_snapshot 3 [])
      [sample_authority 5] ''dep'' = Ok (sample_verified 3 {})"
    by (rule sample_verifies_as [where b = "[7]"]) (simp_all add: two_snapshots_json_def)
  have v4: "authorization_verify sample_crypto (one_json sample_credential) two_snapshots_json
      (sample_snapshot 4 [sample_revoke]) [sample_authority 5] ''dep'' = Ok (sample_verified 4 {11})"
    by (rule sample_verifies_as [OF _ sample_revoke_indexed, where b = "[3, 4]"])
       (simp_all add: two_snapshots_json_def ne)
  let ?s1 = "sample_relay\<lparr>rs_cache := sample_cached 3 {}, rs_cache_file := Some [3, 10],
      rs_applying := [(1, sample_verified 3 {}, False)]\<rparr>"
  have t: "rs_trust sample_relay = sample_trust\<lparr>dt_travel_authorities := [sample_authority 5]\<rparr>"
    "rs_cache sample_relay = cache_default" "rs_applying sample_relay = []" "rs_routes sample_relay = []"
    "\<And>g revs. tas_home_endpoint_credentials (sample_snapshot g revs) = []"
    by (simp_all add: sample_relay_def relay_new_def sample_snapshot_def)
  have a3: "authorization_accepted sample_crypto (one_json (sample_endpoint [])) (one_json sample_credential)
      two_snapshots_json sample_cache_json 1 Stored (sample_snapshot 3 []) sample_relay = (Ok 3, ?s1)"
    using sample_accepted [OF v3 t(5), of sample_relay "[3]" 1] sample_cache_first [of 3 "{}"]
      sample_cached_fresh [of 3 "{}"] t
    by (simp add: sample_cache_json_def)
  have "cache_accept (sample_cached 3 {}) (sample_verified 4 {11}) = Ok (sample_cached 4 {11})"
    by (simp add: cache_accept_def sample_cached_def sample_verified_def bail_if_def)
  then have a4: "authorization_accepted sample_crypto (one_json (sample_endpoint [])) (one_json sample_credential)
      two_snapshots_json sample_cache_json 2 Stored (sample_snapshot 4 [sample_revoke]) ?s1
    = (Ok 4, ?s1\<lparr>rs_cache := sample_cached 4 {11}, rs_cache_file := Some [4, 10],
        rs_applying := [(2, sample_verified 4 {11}, False), (1, sample_verified 3 {}, False)]\<rparr>)"
    using sample_accepted [OF v4 t(5), of ?s1 "[4]" 2] sample_revoked_stored ne(2) t by simp
  have E: "en_crypto overtaking_env = sample_crypto" "en_endpoint_json overtaking_env = one_json (sample_endpoint [])"
    "en_credential_json overtaking_env = one_json sample_credential"
    "en_snapshot_json overtaking_env = two_snapshots_json" "en_cache_json overtaking_env = sample_cache_json"
    by (simp_all add: overtaking_env_def sample_relay_env_def)
  show ?thesis
    using a3 a4 t by (simp add: overtaking_ops_def sample_apply_def E routes_retained_def
        authorization_published_def retain_routes_def sample_synced_def)
qed

theorem overtaken_snapshot_splices_revoked:
  "fst (relay_run overtaking_env (overtaking_ops @ sample_route_ops) sample_relay) = [sample_pair]
     \<and> pd_credential_id sample_pair = 11
     \<and> 11 \<in> ac_revoked_credentials (rs_cache (snd (relay_run overtaking_env overtaking_ops sample_relay)))"
proof -
  obtain st where st: "relay_run overtaking_env overtaking_ops sample_relay = ([], st)"
    "st = (sample_synced 4 {11} (Some [4, 10]))\<lparr>rs_authorization := Some (sample_verified 3 {})\<rparr>"
    using overtaking_run by blast
  have "sample_ready overtaking_env 3 st"
    by (simp add: st(2) sample_ready_def overtaking_env_def sample_relay_env_def sample_synced_def sample_relay_def
        relay_new_def)
  from sample_pairs [OF this] st(1) show ?thesis
    by (auto simp: relay_run_append sample_pair_def st(2) sample_synced_def sample_cached_def)
qed

end
