(* ===== verification/Server_Control.thy ===== *)
theory Server_Control
  imports Server_Authorization Relay "HOL-Library.Multiset"
begin

text \<open>
  The Server's control plane (\<open>server/src/main.rs\<close>): the signer of control snapshots with its durable
  generation counter, the registry of Home sessions and catalogs, the registry of Relay sessions
  with the directory it publishes, and the registry of Travel login sessions. HashMaps are
  association lists; the clocks, the outcome of durable writes and fresh ids are arguments.
\<close>

section \<open>The signer of control snapshots\<close>

record control_signer =
  cs_server_id :: string
  cs_signer_epoch :: u64
  cs_signed_trust :: signed_deployment_trust
  cs_root_public_key :: string
  cs_trust :: deployment_trust
  cs_key :: bytes
  cs_next_generation :: u64
  cs_file :: state_file
  cs_ttl_secs :: u64

definition signer_load :: "crypto \<Rightarrow> deployment_trust json \<Rightarrow> u64 file_json \<Rightarrow> string \<Rightarrow> string \<Rightarrow> string
    \<Rightarrow> signed_deployment_trust \<Rightarrow> bytes \<Rightarrow> state_file \<Rightarrow> u64 \<Rightarrow> u64 \<Rightarrow> control_signer res" where
  "signer_load C JT F server_id root_public_key management_ca st key f ttl_secs now =
     rbind (trust_verify C JT st root_public_key now) (\<lambda>trust.
     rbind (bail_if (management_ca \<noteq> dt_management_ca_certificate_pem trust) (Server ManagementCaMismatch)) (\<lambda>_.
     (case filter (\<lambda>k. sck_server_id k = server_id
             \<and> eq_ignore_ascii_case (sck_public_key k) (hex_encode C (ecdsa_public C key)))
           (dt_server_control_keys trust) of
        [k] \<Rightarrow>
          rbind (load_json F f) (\<lambda>g.
          rbind (bail_if (g = 0) (Server ControlGenerationZero)) (\<lambda>_.
          Ok \<lparr>cs_server_id = server_id, cs_signer_epoch = sck_epoch k, cs_signed_trust = st,
              cs_root_public_key = root_public_key, cs_trust = trust, cs_key = key,
              cs_next_generation = g, cs_file = f, cs_ttl_secs = ttl_secs\<rparr>))
      | _ \<Rightarrow> Err (Server SigningKeyAmbiguous))))"

text \<open>The successor is on disk before the generation is used.\<close>

definition allocate_generation :: "u64 file_json \<Rightarrow> store_event \<Rightarrow> control_signer \<Rightarrow> u64 res \<times> control_signer" where
  "allocate_generation F ev s =
     (case checked_add (cs_next_generation s) 1 of
        None \<Rightarrow> (Err (Server GenerationExhausted), s)
      | Some following \<Rightarrow> (case store_json_atomic F ev (cs_file s) following of
            (Err e, f) \<Rightarrow> (Err e, s\<lparr>cs_file := f\<rparr>)
          | (Ok _, f) \<Rightarrow> (Ok (cs_next_generation s), s\<lparr>cs_next_generation := following, cs_file := f\<rparr>)))"

definition signer_sign :: "crypto \<Rightarrow> deployment_trust json \<Rightarrow> control_snapshot_payload json \<Rightarrow> u64 file_json
    \<Rightarrow> bytes \<Rightarrow> store_event \<Rightarrow> u64 \<Rightarrow> relay_directory \<Rightarrow> catalog \<Rightarrow> string \<Rightarrow> string \<Rightarrow> control_signer
    \<Rightarrow> signed_control_snapshot res \<times> control_signer" where
  "signer_sign C JT JC F rnd ev now directory cat travel_id spki s =
     (case trust_verify C JT (cs_signed_trust s) (cs_root_public_key s) now of
        Err e \<Rightarrow> (Err e, s)
      | Ok current \<Rightarrow>
          if current \<noteq> cs_trust s then (Err (Server TrustChangedInMemory), s)
          else (case allocate_generation F ev s of
              (Err e, s') \<Rightarrow> (Err e, s')
            | (Ok generation, s') \<Rightarrow>
                (control_sign C JC (cs_signed_trust s) (cs_trust s)
                   \<lparr>csp_version = CONTROL_SNAPSHOT_VERSION, csp_object_type = CONTROL_SNAPSHOT_OBJECT_TYPE,
                    csp_deployment_id = dt_deployment_id (cs_trust s), csp_server_id = cs_server_id s,
                    csp_signer_epoch = cs_signer_epoch s, csp_travel_id = travel_id,
                    csp_travel_management_spki_sha256 = spki, csp_generation = generation,
                    csp_issued_at_unix_secs = now, csp_expires_at_unix_secs = sat_add now (cs_ttl_secs s),
                    csp_relay_directory = directory, csp_catalog = cat\<rparr> (cs_key s) rnd, s')))"

section \<open>Home sessions and catalogs\<close>

type_synonym channel = nat

record home_session =
  hs_session_id :: uuid
  hs_tx :: channel

record home_registry =
  hr_generation :: u64
  hr_sessions :: "(string \<times> home_session) list"
  hr_catalogs :: "(string \<times> home_catalog) list"

definition home_registry_default :: home_registry where
  "home_registry_default = \<lparr>hr_generation = 0, hr_sessions = [], hr_catalogs = []\<rparr>"

definition registry_catalog :: "home_registry \<Rightarrow> catalog" where
  "registry_catalog r = \<lparr>cat_generation = hr_generation r, cat_homes = sort_key hc_home_id (map snd (hr_catalogs r))\<rparr>"

definition register_home :: "home_catalog \<Rightarrow> home_session \<Rightarrow> home_registry
    \<Rightarrow> home_registry \<times> home_session option \<times> catalog option" where
  "register_home home session r =
     (let previous = map_of (hr_sessions r) (hc_home_id home);
          changed = map_of (hr_catalogs r) (hc_home_id home) \<noteq> Some home;
          r1 = r\<lparr>hr_sessions := AList.update (hc_home_id home) session (hr_sessions r),
                 hr_catalogs := AList.update (hc_home_id home) home (hr_catalogs r)\<rparr>;
          r2 = r1\<lparr>hr_generation := sat_add (hr_generation r1) 1\<rparr>
      in if changed then (r2, previous, Some (registry_catalog r2)) else (r1, previous, None))"

definition home_session_is :: "string \<Rightarrow> uuid \<Rightarrow> home_registry \<Rightarrow> bool" where
  "home_session_is home_id session_id r =
     (case map_of (hr_sessions r) home_id of None \<Rightarrow> False | Some s \<Rightarrow> hs_session_id s = session_id)"

definition update_home_catalog :: "home_catalog \<Rightarrow> uuid \<Rightarrow> home_registry \<Rightarrow> home_registry \<times> catalog option" where
  "update_home_catalog home session_id r =
     (if \<not> home_session_is (hc_home_id home) session_id r \<or> map_of (hr_catalogs r) (hc_home_id home) = Some home
      then (r, None)
      else let r1 = r\<lparr>hr_catalogs := AList.update (hc_home_id home) home (hr_catalogs r),
                      hr_generation := sat_add (hr_generation r) 1\<rparr>
           in (r1, Some (registry_catalog r1)))"

definition remove_home :: "string \<Rightarrow> uuid \<Rightarrow> home_registry \<Rightarrow> home_registry \<times> catalog option" where
  "remove_home home_id session_id r =
     (if \<not> home_session_is home_id session_id r then (r, None)
      else let r1 = r\<lparr>hr_sessions := AList.delete home_id (hr_sessions r)\<rparr> in
           if map_of (hr_catalogs r1) home_id = None then (r1, None)
           else let r2 = r1\<lparr>hr_catalogs := AList.delete home_id (hr_catalogs r1),
                            hr_generation := sat_add (hr_generation r1) 1\<rparr>
                in (r2, Some (registry_catalog r2)))"

definition home_sender :: "string \<Rightarrow> home_registry \<Rightarrow> channel option" where
  "home_sender home_id r = map_option hs_tx (map_of (hr_sessions r) home_id)"

definition home_senders :: "home_registry \<Rightarrow> (string \<times> channel) list" where
  "home_senders r = map (\<lambda>(i, s). (i, hs_tx s)) (hr_sessions r)"

section \<open>Relay sessions and the directory\<close>

record relay_directory_session =
  rds_session_id :: uuid
  rds_endpoint :: "relay_endpoint option"

record directory_registry =
  dr_generation :: u64
  dr_sessions :: "(string \<times> relay_directory_session) list"

definition registry_directory :: "directory_registry \<Rightarrow> relay_directory" where
  "registry_directory r = \<lparr>rd_generation = dr_generation r,
     rd_relays = sort_key re_id (List.map_filter (\<lambda>(i, s). rds_endpoint s) (dr_sessions r))\<rparr>"

definition replace_session :: "string \<Rightarrow> uuid \<Rightarrow> relay_endpoint option \<Rightarrow> u64 \<Rightarrow> directory_registry
    \<Rightarrow> directory_registry \<times> relay_directory" where
  "replace_session relay_id session_id endpoint generation r =
     (let r1 = r\<lparr>dr_sessions := AList.update relay_id
                   \<lparr>rds_session_id = session_id, rds_endpoint = endpoint\<rparr> (dr_sessions r),
                 dr_generation := generation\<rparr>
      in (r1, registry_directory r1))"

definition relay_session_is :: "string \<Rightarrow> uuid \<Rightarrow> directory_registry \<Rightarrow> bool" where
  "relay_session_is relay_id session_id r =
     (case map_of (dr_sessions r) relay_id of None \<Rightarrow> False | Some s \<Rightarrow> rds_session_id s = session_id)"

definition update_session :: "string \<Rightarrow> uuid \<Rightarrow> relay_endpoint option \<Rightarrow> u64 \<Rightarrow> directory_registry
    \<Rightarrow> directory_registry \<times> relay_directory res" where
  "update_session relay_id session_id endpoint generation r =
     (if relay_session_is relay_id session_id r
      then let (r1, d) = replace_session relay_id session_id endpoint generation r in (r1, Ok d)
      else (r, Err (Server SessionSuperseded)))"

definition unregister_session :: "string \<Rightarrow> uuid \<Rightarrow> u64 \<Rightarrow> directory_registry
    \<Rightarrow> directory_registry \<times> relay_directory option" where
  "unregister_session relay_id session_id generation r =
     (if relay_session_is relay_id session_id r
      then let r1 = r\<lparr>dr_sessions := AList.delete relay_id (dr_sessions r), dr_generation := generation\<rparr>
           in (r1, Some (registry_directory r1))
      else (r, None))"

text \<open>What a Relay reports after its HELLO, and the entry it becomes.\<close>

datatype relay_report = EndpointUpdate string string | EndpointWithdraw | OtherReport

definition validate_relay_advertisement :: "(string \<Rightarrow> socket_addr option) \<Rightarrow> string \<Rightarrow> string \<Rightarrow> unit res" where
  "validate_relay_advertisement parse management_addr data_public_addr =
     for_each (\<lambda>address.
       rbind (bail_if (512 < length address) (Server AdvertisementInvalid)) (\<lambda>_.
       rbind (ok_or (parse address) (Server AdvertisementInvalid)) (\<lambda>a.
       bail_if (ad_port a = 0 \<or> ad_unspecified a \<or> ad_loopback a \<or> ad_multicast a)
         (Server AdvertisementInvalid)))) [management_addr, data_public_addr]"

definition read_relay_endpoint :: "(string \<Rightarrow> socket_addr option) \<Rightarrow> string \<Rightarrow> string \<Rightarrow> relay_report
    \<Rightarrow> relay_endpoint option res" where
  "read_relay_endpoint parse relay_id spki report = (case report of
     EndpointUpdate m d \<Rightarrow> rbind (validate_relay_advertisement parse m d) (\<lambda>_.
       Ok (Some \<lparr>re_id = relay_id, re_management_addr = m, re_data_public_addr = d,
                 re_management_spki_sha256 = spki\<rparr>))
   | EndpointWithdraw \<Rightarrow> Ok None
   | OtherReport \<Rightarrow> Err (Server AdvertisementInvalid))"

text \<open>The lock of the registry covers the allocation and the change; the directory is published after
  it is released, so it is returned here and published by a step of its own.\<close>

definition replace_relay_session_endpoint :: "u64 file_json \<Rightarrow> store_event \<Rightarrow> string \<Rightarrow> uuid
    \<Rightarrow> relay_endpoint option \<Rightarrow> control_signer \<times> directory_registry
    \<Rightarrow> relay_directory option res \<times> control_signer \<times> directory_registry" where
  "replace_relay_session_endpoint F ev relay_id session_id endpoint = (\<lambda>(s, r).
     case allocate_generation F ev s of
       (Err e, s') \<Rightarrow> (Err e, s', r)
     | (Ok g, s') \<Rightarrow> let (r', d) = replace_session relay_id session_id endpoint g r in (Ok (Some d), s', r'))"

definition update_relay_session_endpoint :: "u64 file_json \<Rightarrow> store_event \<Rightarrow> string \<Rightarrow> uuid
    \<Rightarrow> relay_endpoint option \<Rightarrow> control_signer \<times> directory_registry
    \<Rightarrow> relay_directory option res \<times> control_signer \<times> directory_registry" where
  "update_relay_session_endpoint F ev relay_id session_id endpoint = (\<lambda>(s, r).
     if \<not> relay_session_is relay_id session_id r then (Err (Server SessionSuperseded), s, r)
     else (case allocate_generation F ev s of
        (Err e, s') \<Rightarrow> (Err e, s', r)
      | (Ok g, s') \<Rightarrow> (case update_session relay_id session_id endpoint g r of
            (r', Err e) \<Rightarrow> (Err e, s', r') | (r', Ok d) \<Rightarrow> (Ok (Some d), s', r'))))"

definition unregister_relay_session_endpoint :: "u64 file_json \<Rightarrow> store_event \<Rightarrow> string \<Rightarrow> uuid
    \<Rightarrow> control_signer \<times> directory_registry \<Rightarrow> relay_directory option res \<times> control_signer \<times> directory_registry" where
  "unregister_relay_session_endpoint F ev relay_id session_id = (\<lambda>(s, r).
     if \<not> relay_session_is relay_id session_id r then (Ok None, s, r)
     else (case allocate_generation F ev s of
        (Err e, s') \<Rightarrow> (Err e, s', r)
      | (Ok g, s') \<Rightarrow> (case unregister_session relay_id session_id g r of (r', d) \<Rightarrow> (Ok d, s', r'))))"

section \<open>Travel login sessions\<close>

definition TRAVEL_SESSION_LEASE :: nat where "TRAVEL_SESSION_LEASE = 45"

record travel_session =
  trs_session_id :: uuid
  trs_leases :: "(uuid \<times> instant) list"

type_synonym travel_sessions = "(string \<times> travel_session) list"

definition prune_sessions :: "instant \<Rightarrow> travel_sessions \<Rightarrow> travel_sessions" where
  "prune_sessions now ss = filter (\<lambda>(i, s). trs_leases s \<noteq> [])
     (map (\<lambda>(i, s). (i, s\<lparr>trs_leases := filter (\<lambda>(l, expires). now < expires) (trs_leases s)\<rparr>)) ss)"

definition authorize_session :: "string \<Rightarrow> uuid \<Rightarrow> uuid option \<Rightarrow> instant \<Rightarrow> travel_sessions
    \<Rightarrow> travel_sessions \<times> unit res" where
  "authorize_session travel_id session_id lease now ss0 =
     (let ss = prune_sessions now ss0 in
      if session_id = 0 then (ss, Err (Server SessionNil))
      else (case map_of ss travel_id of
          Some active \<Rightarrow>
            if trs_session_id active \<noteq> session_id then (ss, Err (Server AnotherSession))
            else (case lease of
                Some l \<Rightarrow> (AList.update travel_id (active\<lparr>trs_leases :=
                    AList.update l (now + TRAVEL_SESSION_LEASE) (trs_leases active)\<rparr>) ss, Ok ())
              | None \<Rightarrow> (ss, Ok ()))
        | None \<Rightarrow> (case lease of
              None \<Rightarrow> (ss, Err (Server NoLoginSession))
            | Some l \<Rightarrow> (AList.update travel_id \<lparr>trs_session_id = session_id,
                trs_leases = [(l, now + TRAVEL_SESSION_LEASE)]\<rparr> ss, Ok ()))))"

definition release_session :: "string \<Rightarrow> uuid \<Rightarrow> uuid \<Rightarrow> travel_sessions \<Rightarrow> travel_sessions \<times> bool" where
  "release_session travel_id session_id lease ss =
     (case map_of ss travel_id of
        None \<Rightarrow> (ss, False)
      | Some active \<Rightarrow>
          if trs_session_id active \<noteq> session_id \<or> map_of (trs_leases active) lease = None then (ss, False)
          else let leases = AList.delete lease (trs_leases active) in
               (if leases = [] then AList.delete travel_id ss
                else AList.update travel_id (active\<lparr>trs_leases := leases\<rparr>) ss, True))"

section \<open>The directory service as a machine\<close>

record control_env =
  ce_crypto :: crypto
  ce_trust_json :: "deployment_trust json"
  ce_payload_json :: "control_snapshot_payload json"
  ce_generation_json :: "u64 file_json"
  ce_parse_addr :: "string \<Rightarrow> socket_addr option"

text \<open>\<open>ds_in_flight\<close> are the directories that a task has taken out of the critical section and not yet
  published; \<open>ds_published\<close> are the values the watch channel has held, the current one first.\<close>

record directory_service =
  ds_signer :: control_signer
  ds_registry :: directory_registry
  ds_in_flight :: "relay_directory list"
  ds_published :: "relay_directory list"

definition directory_start :: "u64 file_json \<Rightarrow> store_event \<Rightarrow> control_signer \<Rightarrow> directory_service res" where
  "directory_start F ev s = (case allocate_generation F ev s of
     (Err e, s') \<Rightarrow> Err e
   | (Ok g, s') \<Rightarrow> Ok \<lparr>ds_signer = s', ds_registry = \<lparr>dr_generation = g, dr_sessions = []\<rparr>, ds_in_flight = [],
       ds_published = [\<lparr>rd_generation = g, rd_relays = []\<rparr>]\<rparr>)"

datatype directory_op =
    RelayConnected store_event string uuid string relay_report
  | RelayReported store_event string uuid string relay_report
  | RelayGone store_event string uuid
  | DirectoryPublished nat
  | SnapshotSigned bytes store_event u64 catalog string string

definition directory_outcome :: "relay_directory option res \<times> control_signer \<times> directory_registry
    \<Rightarrow> directory_service \<Rightarrow> directory_service" where
  "directory_outcome out ds = (case out of (res, s, r) \<Rightarrow>
     ds\<lparr>ds_signer := s, ds_registry := r, ds_in_flight :=
       (case res of Ok (Some d) \<Rightarrow> d # ds_in_flight ds | _ \<Rightarrow> ds_in_flight ds)\<rparr>)"

fun directory_step :: "control_env \<Rightarrow> directory_op \<Rightarrow> directory_service \<Rightarrow> directory_service" where
  "directory_step E (RelayConnected ev relay_id session spki report) ds =
     (case read_relay_endpoint (ce_parse_addr E) relay_id spki report of
        Err e \<Rightarrow> ds
      | Ok endpoint \<Rightarrow> directory_outcome (replace_relay_session_endpoint (ce_generation_json E) ev relay_id session
          endpoint (ds_signer ds, ds_registry ds)) ds)"
| "directory_step E (RelayReported ev relay_id session spki report) ds =
     (case read_relay_endpoint (ce_parse_addr E) relay_id spki report of
        Err e \<Rightarrow> ds
      | Ok endpoint \<Rightarrow> directory_outcome (update_relay_session_endpoint (ce_generation_json E) ev relay_id session
          endpoint (ds_signer ds, ds_registry ds)) ds)"
| "directory_step E (RelayGone ev relay_id session) ds =
     directory_outcome (unregister_relay_session_endpoint (ce_generation_json E) ev relay_id session
       (ds_signer ds, ds_registry ds)) ds"
| "directory_step E (DirectoryPublished n) ds =
     (if n < length (ds_in_flight ds)
      then ds\<lparr>ds_published := ds_in_flight ds ! n # ds_published ds,
              ds_in_flight := take n (ds_in_flight ds) @ drop (Suc n) (ds_in_flight ds)\<rparr>
      else ds)"
| "directory_step E (SnapshotSigned rnd ev now cat travel_id spki) ds =
     ds\<lparr>ds_signer := snd (signer_sign (ce_crypto E) (ce_trust_json E) (ce_payload_json E) (ce_generation_json E)
         rnd ev now (registry_directory (ds_registry ds)) cat travel_id spki (ds_signer ds))\<rparr>"

definition directory_run :: "control_env \<Rightarrow> directory_op list \<Rightarrow> directory_service \<Rightarrow> directory_service" where
  "directory_run E ops ds = fold (directory_step E) ops ds"

section \<open>Generations\<close>

lemma allocate_Ok:
  assumes "allocate_generation F ev s = (Ok g, s')"
  shows "g = cs_next_generation s" "cs_next_generation s < cs_next_generation s'"
    "checked_add (cs_next_generation s) 1 = Some (cs_next_generation s')"
  using assms checked_add_less
  by (auto simp: allocate_generation_def split: option.splits prod.splits result.splits)

lemma allocate_mono: "allocate_generation F ev s = (res, s') \<Longrightarrow> cs_next_generation s \<le> cs_next_generation s'"
  by (auto simp: allocate_generation_def dest: checked_add_less split: option.splits prod.splits result.splits)

lemma allocate_Err: "allocate_generation F ev s = (Err e, s') \<Longrightarrow> cs_next_generation s' = cs_next_generation s"
  by (auto simp: allocate_generation_def split: option.splits prod.splits result.splits)

lemma sign_mono: "cs_next_generation s
    \<le> cs_next_generation (snd (signer_sign C JT JC F rnd ev now d cat travel spki s))"
  by (auto simp: signer_sign_def dest: allocate_mono split: result.splits prod.splits)

section \<open>What the registry publishes\<close>

definition entry_ok :: "crypto \<Rightarrow> (string \<Rightarrow> socket_addr option) \<Rightarrow> relay_endpoint \<Rightarrow> bool" where
  "entry_ok C parse e \<longleftrightarrow> re_id e \<noteq> [] \<and> validate_spki_pin C (re_management_spki_sha256 e) = Ok ()
     \<and> connectable parse (re_management_addr e) = Ok () \<and> connectable parse (re_data_public_addr e) = Ok ()"

definition sessions_ok :: "crypto \<Rightarrow> (string \<Rightarrow> socket_addr option) \<Rightarrow> (string \<times> relay_directory_session) list \<Rightarrow> bool" where
  "sessions_ok C parse ss \<longleftrightarrow> distinct (map fst ss)
     \<and> (\<forall>i s e. (i, s) \<in> set ss \<longrightarrow> rds_endpoint s = Some e \<longrightarrow> re_id e = i \<and> entry_ok C parse e)"

lemma read_endpoint_ok:
  assumes "read_relay_endpoint parse i spki report = Ok (Some e)" "i \<noteq> []" "validate_spki_pin C spki = Ok ()"
  shows "re_id e = i \<and> entry_ok C parse e"
  using assms by (auto simp: read_relay_endpoint_def validate_relay_advertisement_def entry_ok_def
      connectable_def split: relay_report.splits)

lemma sessions_update:
  assumes "sessions_ok C parse ss" "\<And>e. rds_endpoint s = Some e \<Longrightarrow> re_id e = i \<and> entry_ok C parse e"
  shows "sessions_ok C parse (AList.update i s ss)"
  using assms AList.distinct_update [of ss i s] unfolding sessions_ok_def
  by (auto dest!: update_entries)

lemma sessions_delete: "sessions_ok C parse ss \<Longrightarrow> sessions_ok C parse (AList.delete i ss)"
  by (auto simp: sessions_ok_def delete_filter distinct_filter_keys)

lemma endpoints_distinct:
  "sessions_ok C parse ss \<Longrightarrow> distinct (map re_id (List.map_filter (\<lambda>(i, s). rds_endpoint s) ss))
     \<and> set (map re_id (List.map_filter (\<lambda>(i, s). rds_endpoint s) ss)) \<subseteq> fst ` set ss"
proof (induction ss)
  case (Cons x ss)
  have "sessions_ok C parse ss"
    using Cons.prems by (auto simp: sessions_ok_def)
  note IH = Cons.IH [OF this]
  show ?case
  proof (cases "rds_endpoint (snd x)")
    case None
    with IH show ?thesis
      by (auto simp: List.map_filter_simps case_prod_beta)
  next
    case (Some e)
    then have e: "re_id e = fst x"
      using Cons.prems by (cases x) (auto simp: sessions_ok_def)
    have "fst x \<notin> fst ` set ss"
      using Cons.prems by (auto simp: sessions_ok_def)
    with IH Some e show ?thesis
      by (auto simp: List.map_filter_simps case_prod_beta)
  qed
qed (simp add: List.map_filter_simps)

lemma registry_directory_valid:
  assumes "sessions_ok C parse (dr_sessions r)" "dr_generation r \<noteq> 0"
  shows "relay_validate_directory C parse (registry_directory r) = Ok ()"
proof -
  let ?es = "List.map_filter (\<lambda>(i, s). rds_endpoint s) (dr_sessions r)"
  have "distinct (map re_id (sort_key re_id ?es))"
    using endpoints_distinct [OF assms(1)] by (simp add: distinct_map)
  then have "sorted_wrt (<) (map re_id (sort_key re_id ?es))"
    using sorted_sort_key [of re_id ?es] by (simp add: strict_sorted_iff)
  moreover have "\<forall>e \<in> set ?es. entry_ok C parse e"
    using assms(1) by (auto simp: sessions_ok_def List.map_filter_def)
  ultimately show ?thesis
    using assms(2) unfolding relay_validate_directory_def registry_directory_def
    by (simp add: relay_directory_entries_Ok entry_ok_def)
qed

text \<open>The directories that left the critical section, published or not: all of them valid, of distinct
  generations below the next one, and the registry's own is the newest of them.\<close>

definition emitted :: "directory_service \<Rightarrow> relay_directory list" where
  "emitted ds = ds_in_flight ds @ ds_published ds"

definition directory_inv :: "control_env \<Rightarrow> directory_service \<Rightarrow> bool" where
  "directory_inv E ds \<longleftrightarrow> sessions_ok (ce_crypto E) (ce_parse_addr E) (dr_sessions (ds_registry ds))
     \<and> (\<forall>d \<in> set (emitted ds). relay_validate_directory (ce_crypto E) (ce_parse_addr E) d = Ok ()
          \<and> rd_generation d \<le> dr_generation (ds_registry ds))
     \<and> distinct (map rd_generation (emitted ds))
     \<and> registry_directory (ds_registry ds) \<in> set (emitted ds)
     \<and> dr_generation (ds_registry ds) < cs_next_generation (ds_signer ds)"

lemma directory_inv_signer:
  assumes "directory_inv E ds" "cs_next_generation (ds_signer ds) \<le> cs_next_generation s"
  shows "directory_inv E (ds\<lparr>ds_signer := s\<rparr>)"
  using assms by (auto simp: directory_inv_def emitted_def)

lemma directory_inv_change:
  assumes i: "directory_inv E ds" and a: "allocate_generation F ev (ds_signer ds) = (Ok g, s)"
    and r: "sessions_ok (ce_crypto E) (ce_parse_addr E) (dr_sessions r)" "dr_generation r = g"
  shows "directory_inv E (ds\<lparr>ds_signer := s, ds_registry := r,
     ds_in_flight := registry_directory r # ds_in_flight ds\<rparr>)"
proof -
  have g: "dr_generation (ds_registry ds) < g" "g < cs_next_generation s"
    using allocate_Ok [OF a] i by (simp_all add: directory_inv_def)
  have "g \<noteq> 0"
    using g(1) by auto
  then have v: "relay_validate_directory (ce_crypto E) (ce_parse_addr E) (registry_directory r) = Ok ()"
    using r by (intro registry_directory_valid) simp_all
  have n: "rd_generation d < g" if "d \<in> set (emitted ds)" for d
    using i g(1) that by (auto simp: directory_inv_def intro: order.strict_trans1)
  have [simp]: "rd_generation (registry_directory r) = g"
    using r(2) by (simp add: registry_directory_def)
  have "g \<notin> rd_generation ` set (emitted ds)"
    using n by force
  moreover have "rd_generation d \<le> g" if "d \<in> set (emitted ds)" for d
    using n [OF that] by simp
  ultimately show ?thesis
    using i v g(2) r by (simp add: directory_inv_def emitted_def) blast
qed

lemma mset_take_drop: "n < length xs \<Longrightarrow> mset (take n xs @ xs ! n # drop (Suc n) xs) = mset xs"
  by (simp flip: id_take_nth_drop)

lemma directory_inv_publish:
  assumes "directory_inv E ds"
  shows "directory_inv E (directory_step E (DirectoryPublished n) ds)"
proof (cases "n < length (ds_in_flight ds)")
  case True
  let ?ds = "directory_step E (DirectoryPublished n) ds"
  have "mset (emitted ?ds) = mset (take n (ds_in_flight ds) @ ds_in_flight ds ! n # drop (Suc n) (ds_in_flight ds))
      + mset (ds_published ds)"
    using True by (simp add: emitted_def)
  also have "\<dots> = mset (emitted ds)"
    using mset_take_drop [OF True] by (simp add: emitted_def)
  finally have m: "mset (emitted ?ds) = mset (emitted ds)" .
  have s: "set (emitted ?ds) = set (emitted ds)"
    using arg_cong [OF m, of set_mset] by simp
  have "mset (map rd_generation (emitted ?ds)) = mset (map rd_generation (emitted ds))"
    using m by simp
  then have d: "distinct (map rd_generation (emitted ?ds)) = distinct (map rd_generation (emitted ds))"
    by (rule mset_eq_imp_distinct_iff)
  have "ds_registry ?ds = ds_registry ds" "ds_signer ?ds = ds_signer ds"
    using True by simp_all
  then show ?thesis
    using assms unfolding directory_inv_def s d by simp
qed (use assms in simp)

text \<open>The identities and ids a Relay session is opened with: the pin of its certificate and a
  configured, hence non-empty, id.\<close>

fun directory_op_ok :: "crypto \<Rightarrow> directory_op \<Rightarrow> bool" where
  "directory_op_ok C (RelayConnected ev relay_id session spki report) \<longleftrightarrow>
     relay_id \<noteq> [] \<and> validate_spki_pin C spki = Ok ()"
| "directory_op_ok C (RelayReported ev relay_id session spki report) \<longleftrightarrow>
     relay_id \<noteq> [] \<and> validate_spki_pin C spki = Ok ()"
| "directory_op_ok C _ \<longleftrightarrow> True"

lemma directory_inv_replaced:
  assumes "directory_inv E ds" "\<And>e. endpoint = Some e \<Longrightarrow> re_id e = i \<and> entry_ok (ce_crypto E) (ce_parse_addr E) e"
  shows "directory_inv E (directory_outcome (replace_relay_session_endpoint F ev i session endpoint
     (ds_signer ds, ds_registry ds)) ds)"
proof -
  obtain res s where a: "allocate_generation F ev (ds_signer ds) = (res, s)"
    by (meson surj_pair)
  have ss: "sessions_ok (ce_crypto E) (ce_parse_addr E) (AList.update i
      \<lparr>rds_session_id = session, rds_endpoint = endpoint\<rparr> (dr_sessions (ds_registry ds)))"
    using assms by (intro sessions_update) (auto simp: directory_inv_def)
  show ?thesis
  proof (cases res)
    case (Ok g)
    then show ?thesis
      using directory_inv_change [OF assms(1) a [unfolded Ok], of "(ds_registry ds)\<lparr>dr_sessions := AList.update i
          \<lparr>rds_session_id = session, rds_endpoint = endpoint\<rparr> (dr_sessions (ds_registry ds)), dr_generation := g\<rparr>"] ss a
      by (simp add: replace_relay_session_endpoint_def directory_outcome_def replace_session_def Let_def)
  next
    case (Err e)
    then show ?thesis
      using directory_inv_signer [OF assms(1), of s] allocate_mono [OF a] a
      by (simp add: replace_relay_session_endpoint_def directory_outcome_def)
  qed
qed

lemma update_is_replace:
  "update_relay_session_endpoint F ev i session endpoint (s, r) =
     (if relay_session_is i session r then replace_relay_session_endpoint F ev i session endpoint (s, r)
      else (Err (Server SessionSuperseded), s, r))"
  by (simp add: update_relay_session_endpoint_def replace_relay_session_endpoint_def update_session_def
      split: prod.splits result.splits)

lemma directory_inv_unregistered:
  assumes "directory_inv E ds"
  shows "directory_inv E (directory_outcome (unregister_relay_session_endpoint F ev i session
     (ds_signer ds, ds_registry ds)) ds)"
proof -
  obtain res s where a: "allocate_generation F ev (ds_signer ds) = (res, s)"
    by (meson surj_pair)
  have ss: "sessions_ok (ce_crypto E) (ce_parse_addr E) (AList.delete i (dr_sessions (ds_registry ds)))"
    using assms by (intro sessions_delete) (simp add: directory_inv_def)
  show ?thesis
  proof (cases res)
    case (Ok g)
    then show ?thesis
      using assms directory_inv_change [OF assms(1) a [unfolded Ok], of "(ds_registry ds)\<lparr>dr_sessions :=
          AList.delete i (dr_sessions (ds_registry ds)), dr_generation := g\<rparr>"] ss a
      by (simp add: unregister_relay_session_endpoint_def directory_outcome_def unregister_session_def Let_def)
  next
    case (Err e)
    then show ?thesis
      using assms directory_inv_signer [OF assms(1), of s] allocate_mono [OF a] a
      by (simp add: unregister_relay_session_endpoint_def directory_outcome_def)
  qed
qed

lemma directory_inv_step:
  assumes i: "directory_inv E ds" and ok: "directory_op_ok (ce_crypto E) op"
  shows "directory_inv E (directory_step E op ds)"
proof (cases op)
  case (RelayConnected ev j session spki report)
  show ?thesis
  proof (cases "read_relay_endpoint (ce_parse_addr E) j spki report")
    case (Ok endpoint)
    have "re_id e = j \<and> entry_ok (ce_crypto E) (ce_parse_addr E) e" if "endpoint = Some e" for e
      by (rule read_endpoint_ok [where spki = spki and report = report]) (use Ok that ok RelayConnected in simp_all)
    from directory_inv_replaced [OF i this] show ?thesis
      using Ok RelayConnected by simp
  qed (use i RelayConnected in simp)
next
  case (RelayReported ev j session spki report)
  show ?thesis
  proof (cases "read_relay_endpoint (ce_parse_addr E) j spki report")
    case (Ok endpoint)
    have "re_id e = j \<and> entry_ok (ce_crypto E) (ce_parse_addr E) e" if "endpoint = Some e" for e
      by (rule read_endpoint_ok [where spki = spki and report = report]) (use Ok that ok RelayReported in simp_all)
    from directory_inv_replaced [OF i this] show ?thesis
      using i Ok RelayReported by (simp add: update_is_replace directory_outcome_def)
  qed (use i RelayReported in simp)
next
  case (SnapshotSigned rnd ev now cat travel spki)
  then show ?thesis
    using i by (simp add: directory_inv_signer sign_mono)
qed (use i directory_inv_unregistered directory_inv_publish in \<open>simp_all del: directory_step.simps(4)\<close>)

lemma directory_inv_run:
  "directory_inv E ds \<Longrightarrow> list_all (directory_op_ok (ce_crypto E)) ops \<Longrightarrow> directory_inv E (directory_run E ops ds)"
  unfolding directory_run_def by (induction ops arbitrary: ds) (simp_all add: directory_inv_step)

lemma directory_inv_start:
  assumes "directory_start F ev s = Ok ds" "cs_next_generation s \<noteq> 0"
  shows "directory_inv E ds"
proof -
  obtain g s' where a: "allocate_generation F ev s = (Ok g, s')"
    and ds: "ds = \<lparr>ds_signer = s', ds_registry = \<lparr>dr_generation = g, dr_sessions = []\<rparr>, ds_in_flight = [],
       ds_published = [\<lparr>rd_generation = g, rd_relays = []\<rparr>]\<rparr>"
    using assms(1) by (auto simp: directory_start_def split: prod.splits result.splits)
  show ?thesis
    using allocate_Ok [OF a] assms(2)
    by (simp add: ds directory_inv_def sessions_ok_def emitted_def relay_validate_directory_def registry_directory_def
        List.map_filter_simps bail_if_def)
qed


section \<open>Exclusive login of a Travel\<close>

datatype session_op = SessionAuthorized string uuid "uuid option" instant | SessionReleased string uuid uuid
  | SessionsPruned instant

fun session_step :: "session_op \<Rightarrow> travel_sessions \<Rightarrow> travel_sessions" where
  "session_step (SessionAuthorized t s l now) ss = fst (authorize_session t s l now ss)"
| "session_step (SessionReleased t s l) ss = fst (release_session t s l ss)"
| "session_step (SessionsPruned now) ss = prune_sessions now ss"

fun within_lease :: "instant \<Rightarrow> session_op \<Rightarrow> bool" where
  "within_lease y (SessionAuthorized t s l now) \<longleftrightarrow> y \<le> now \<and> now < y + TRAVEL_SESSION_LEASE"
| "within_lease y (SessionReleased t s l) \<longleftrightarrow> True"
| "within_lease y (SessionsPruned now) \<longleftrightarrow> y \<le> now \<and> now < y + TRAVEL_SESSION_LEASE"

definition travel_sessions_wf :: "travel_sessions \<Rightarrow> bool" where
  "travel_sessions_wf ss \<longleftrightarrow> distinct (map fst ss) \<and> (\<forall>(t, s) \<in> set ss. distinct (map fst (trs_leases s)))"

lemma map_of_filter_distinct:
  "distinct (map fst xs) \<Longrightarrow> map_of (filter (\<lambda>(k, v). P v) xs) k =
     (case map_of xs k of None \<Rightarrow> None | Some v \<Rightarrow> if P v then Some v else None)"
  by (induction xs) (auto split: option.splits simp: map_of_eq_None_iff)

lemma prune_fst: "fst ` set (prune_sessions now ss) \<subseteq> fst ` set ss"
  by (force simp: prune_sessions_def)

lemma prune_wf: "travel_sessions_wf ss \<Longrightarrow> travel_sessions_wf (prune_sessions now ss)"
proof -
  let ?p = "map (\<lambda>(i, s). (i, s\<lparr>trs_leases := filter (\<lambda>(l, expires). now < expires) (trs_leases s)\<rparr>)) ss"
  assume w: "travel_sessions_wf ss"
  have "map fst ?p = map fst ss" by (simp add: case_prod_beta)
  then have "distinct (map fst ?p)"
    using w by (simp only: travel_sessions_wf_def)
  then have "distinct (map fst (prune_sessions now ss))"
    unfolding prune_sessions_def by (rule distinct_filter_keys)
  moreover have "\<forall>(t, s) \<in> set ?p. distinct (map fst (trs_leases s))"
    using w by (auto simp: travel_sessions_wf_def distinct_filter_keys)
  ultimately show ?thesis
    by (auto simp: travel_sessions_wf_def prune_sessions_def)
qed

lemma map_of_prune:
  "travel_sessions_wf ss \<Longrightarrow> map_of (prune_sessions now ss) t = (case map_of ss t of None \<Rightarrow> None
     | Some a \<Rightarrow> let ls = filter (\<lambda>(l, e). now < e) (trs_leases a) in if ls = [] then None else Some (a\<lparr>trs_leases := ls\<rparr>))"
proof (induction ss)
  case (Cons x ss)
  obtain i s where x: "x = (i, s)" by (cases x)
  have w: "travel_sessions_wf ss" and i: "i \<notin> fst ` set ss"
    using Cons.prems x by (auto simp: travel_sessions_wf_def)
  then have "map_of ss i = None" "map_of (prune_sessions now ss) i = None"
    using prune_fst [of now ss] by (auto simp: map_of_eq_None_iff)
  with Cons.IH [OF w] show ?case
    by (auto simp: x prune_sessions_def Let_def)
qed (simp add: prune_sessions_def)

lemma update_wf:
  "travel_sessions_wf ss \<Longrightarrow> distinct (map fst (trs_leases s)) \<Longrightarrow> travel_sessions_wf (AList.update t s ss)"
  by (auto simp: travel_sessions_wf_def AList.distinct_update dest!: update_entries)

lemma wf_leases: "travel_sessions_wf ss \<Longrightarrow> map_of ss t = Some a \<Longrightarrow> distinct (map fst (trs_leases a))"
  by (auto simp: travel_sessions_wf_def dest: map_of_SomeD)

lemma authorize_wf:
  assumes "travel_sessions_wf ss"
  shows "travel_sessions_wf (fst (authorize_session t s l now ss))"
  using prune_wf [OF assms, of now] wf_leases [of "prune_sessions now ss" t]
  by (auto simp: authorize_session_def Let_def intro!: update_wf AList.distinct_update split: option.splits)

lemma release_wf:
  assumes "travel_sessions_wf ss"
  shows "travel_sessions_wf (fst (release_session t s l ss))"
  using assms wf_leases [OF assms, of t]
  by (auto simp: release_session_def Let_def intro!: update_wf AList.distinct_delete split: option.splits)
    (auto simp: travel_sessions_wf_def delete_filter distinct_filter_keys)

lemma session_step_wf: "travel_sessions_wf ss \<Longrightarrow> travel_sessions_wf (session_step op ss)"
  by (cases op) (simp_all add: authorize_wf release_wf prune_wf)

text \<open>The session of a Travel holds a lease that lasts at least until a given time.\<close>

definition holds_lease :: "string \<Rightarrow> uuid \<Rightarrow> uuid \<Rightarrow> instant \<Rightarrow> travel_sessions \<Rightarrow> bool" where
  "holds_lease t s l x ss \<longleftrightarrow> (\<exists>a e. map_of ss t = Some a \<and> trs_session_id a = s
     \<and> map_of (trs_leases a) l = Some e \<and> x \<le> e)"

lemma holds_prune:
  assumes "holds_lease t s l x ss" "travel_sessions_wf ss" "now < x"
  shows "holds_lease t s l x (prune_sessions now ss)"
proof -
  obtain a e where a: "map_of ss t = Some a" "trs_session_id a = s" "map_of (trs_leases a) l = Some e" "x \<le> e"
    using assms(1) by (auto simp: holds_lease_def)
  then have m: "map_of (filter (\<lambda>(l, e). now < e) (trs_leases a)) l = Some e"
    using map_of_filter_distinct [OF wf_leases [OF assms(2) a(1)], of "\<lambda>e. now < e" l] assms(3) by simp
  then have "filter (\<lambda>(l, e). now < e) (trs_leases a) \<noteq> []"
    by auto
  with a m show ?thesis
    by (simp add: holds_lease_def map_of_prune [OF assms(2)] Let_def)
qed

lemma holds_authorize:
  assumes h: "holds_lease t s l x ss" and w: "travel_sessions_wf ss" and n: "now < x" and x: "x \<le> y + TRAVEL_SESSION_LEASE"
    and m: "y \<le> now"
  shows "holds_lease t s l x (fst (authorize_session t' s' l' now ss))"
proof -
  have "holds_lease t s l x (prune_sessions now ss)"
    using holds_prune [OF h w n] .
  then show ?thesis
    using x m by (auto simp: authorize_session_def holds_lease_def Let_def AList.update_conv' split: option.splits)
qed

lemma delete_other: "AList.delete l' xs = [] \<Longrightarrow> map_of xs l = Some e \<Longrightarrow> l = l'"
  by (auto simp: delete_filter filter_empty_conv dest: map_of_SomeD)

lemma holds_release:
  assumes "holds_lease t s l x ss" "travel_sessions_wf ss" "(t', s', l') \<noteq> (t, s, l)"
  shows "holds_lease t s l x (fst (release_session t' s' l' ss))"
  using assms by (auto dest: delete_other simp: release_session_def holds_lease_def Let_def AList.update_conv'
      AList.delete_conv' split: option.splits)

lemma holds_run:
  "holds_lease t s l (y + TRAVEL_SESSION_LEASE) ss \<Longrightarrow> travel_sessions_wf ss \<Longrightarrow> list_all (within_lease y) ops
     \<Longrightarrow> SessionReleased t s l \<notin> set ops
     \<Longrightarrow> holds_lease t s l (y + TRAVEL_SESSION_LEASE) (fold session_step ops ss)
        \<and> travel_sessions_wf (fold session_step ops ss)"
proof (induction ops arbitrary: ss)
  case (Cons op ops)
  have "holds_lease t s l (y + TRAVEL_SESSION_LEASE) (session_step op ss)"
  proof (cases op)
    case (SessionAuthorized t' s' l' now)
    then show ?thesis
      using Cons.prems holds_authorize [of t s l "y + TRAVEL_SESSION_LEASE" ss now y] by simp
  next
    case (SessionReleased t' s' l')
    then show ?thesis
      using Cons.prems holds_release [OF Cons.prems(1, 2), of t' s' l'] by auto
  next
    case (SessionsPruned now)
    then show ?thesis
      using Cons.prems holds_prune by simp
  qed
  with Cons show ?case
    by (simp add: session_step_wf)
qed simp

lemma holds_excludes:
  assumes "holds_lease t s l x ss" "travel_sessions_wf ss" "now < x" "s' \<noteq> 0"
  shows "snd (authorize_session t s' l' now ss) = (if s' = s then Ok () else Err (Server AnotherSession))"
  using holds_prune [OF assms(1-3)] assms(4)
  by (auto simp: holds_lease_def authorize_session_def Let_def split: option.splits)

lemma expired_admits:
  assumes "travel_sessions_wf ss" "s \<noteq> 0" "\<And>a. map_of ss t = Some a \<Longrightarrow> \<forall>(l, e) \<in> set (trs_leases a). e \<le> now"
  shows "snd (authorize_session t s (Some l) now ss) = Ok ()"
proof -
  have "map_of (prune_sessions now ss) t = None"
  proof (cases "map_of ss t")
    case (Some a)
    then have "filter (\<lambda>(l, e). now < e) (trs_leases a) = []"
      using assms(3) [OF Some] by (auto simp: filter_empty_conv)
    with Some show ?thesis
      by (simp add: map_of_prune [OF assms(1)])
  qed (simp add: map_of_prune [OF assms(1)])
  with assms(2) show ?thesis
    by (simp add: authorize_session_def Let_def)
qed

section \<open>Properties\<close>

text \<open>C17: whatever Relay sessions come, report and go, and in whatever order the directories are
  published, every published directory is one that a Relay accepts; offered any two of them, the
  Relay keeps the one of the newer generation; and once nothing is in flight, the registry's own
  directory has been published and none is newer.\<close>

theorem relay_accepts_published:
  assumes "directory_start (ce_generation_json E) ev s = Ok ds" and "cs_next_generation s \<noteq> 0"
    and "list_all (directory_op_ok (ce_crypto E)) ops" and "ds' = directory_run E ops ds"
    and "d \<in> set (ds_published ds')" and "d' \<in> set (ds_published ds')"
  shows "apply_relay_directory (ce_crypto E) (ce_parse_addr E) d d'
       = Ok (if rd_generation d < rd_generation d' then d' else d)
     \<and> (ds_in_flight ds' = [] \<longrightarrow> registry_directory (ds_registry ds') \<in> set (ds_published ds')
          \<and> rd_generation d \<le> rd_generation (registry_directory (ds_registry ds')))"
proof -
  have i: "directory_inv E ds'"
    using directory_inv_run [OF directory_inv_start [OF assms(1, 2)] assms(3)] assms(4) by simp
  have "d = d'" if "rd_generation d = rd_generation d'"
  proof -
    have "distinct (map rd_generation (ds_published ds'))"
      using i by (simp add: directory_inv_def emitted_def)
    then show ?thesis
      using assms(5, 6) that by (auto simp: distinct_map dest: inj_onD)
  qed
  moreover have "relay_validate_directory (ce_crypto E) (ce_parse_addr E) d' = Ok ()"
    "rd_generation d \<le> dr_generation (ds_registry ds')"
    using i assms(5, 6) by (simp_all add: directory_inv_def emitted_def)
  moreover have "registry_directory (ds_registry ds') \<in> set (emitted ds')"
    using i by (simp add: directory_inv_def)
  ultimately show ?thesis
    by (auto simp: apply_relay_directory_def registry_directory_def emitted_def)
qed

definition sample_signer :: control_signer where
  "sample_signer = \<lparr>cs_server_id = ''srv'', cs_signer_epoch = 2, cs_signed_trust = sample_signed_trust,
     cs_root_public_key = sample_key 3, cs_trust = sample_trust, cs_key = [9], cs_next_generation = 5,
     cs_file = Some [5, 10], cs_ttl_secs = 200\<rparr>"

definition sample_control_env :: control_env where
  "sample_control_env = \<lparr>ce_crypto = sample_crypto, ce_trust_json = one_json sample_trust,
     ce_payload_json = one_json sample_payload,
     ce_generation_json = \<lparr>to_vec_pretty = (\<lambda>g. Some [ucast g]), parse_file = (\<lambda>b. Some (ucast (hd b)))\<rparr>,
     ce_parse_addr = (\<lambda>_. Some \<lparr>ad_port = 443, ad_unspecified = False, ad_loopback = False, ad_multicast = False\<rparr>)\<rparr>"

definition sample_overtaking :: "directory_op list" where
  "sample_overtaking = [RelayConnected Stored ''r1'' 1 (sample_pin CHR ''1'') (EndpointUpdate ''a'' ''b''),
     RelayConnected Stored ''r2'' 2 (sample_pin CHR ''2'') (EndpointUpdate ''c'' ''d''),
     DirectoryPublished 0, DirectoryPublished 0]"

definition sample_directory :: "u64 \<Rightarrow> relay_endpoint list \<Rightarrow> relay_directory" where
  "sample_directory g es = \<lparr>rd_generation = g, rd_relays = es\<rparr>"

definition sample_entry :: "string \<Rightarrow> string \<Rightarrow> string \<Rightarrow> char \<Rightarrow> relay_endpoint" where
  "sample_entry i m d c = \<lparr>re_id = i, re_management_addr = m, re_data_public_addr = d,
     re_management_spki_sha256 = sample_pin c\<rparr>"

lemma sample_directory_starts:
  "\<exists>ds. directory_start (ce_generation_json sample_control_env) Stored sample_signer = Ok ds
     \<and> ds_signer ds = sample_signer\<lparr>cs_next_generation := 6, cs_file := Some [6, 10]\<rparr>
     \<and> ds_registry ds = \<lparr>dr_generation = 5, dr_sessions = []\<rparr> \<and> ds_in_flight ds = []
     \<and> ds_published ds = [sample_directory 5 []]"
  by (simp add: directory_start_def allocate_generation_def sample_signer_def sample_control_env_def
      store_json_atomic_def sample_directory_def eval_simps)

lemma sample_overtakes:
  assumes "directory_start (ce_generation_json sample_control_env) Stored sample_signer = Ok ds"
  shows "let ds' = directory_run sample_control_env sample_overtaking ds;
             e1 = sample_entry ''r1'' ''a'' ''b'' CHR ''1''; e2 = sample_entry ''r2'' ''c'' ''d'' CHR ''2''
    in ds_in_flight ds' = [] \<and> registry_directory (ds_registry ds') = sample_directory 7 [e1, e2]
      \<and> ds_published ds' = [sample_directory 6 [e1], sample_directory 7 [e1, e2], sample_directory 5 []]"
proof -
  have s: "ds_signer ds = sample_signer\<lparr>cs_next_generation := 6, cs_file := Some [6, 10]\<rparr>"
    "ds_registry ds = \<lparr>dr_generation = 5, dr_sessions = []\<rparr>" "ds_in_flight ds = []"
    "ds_published ds = [sample_directory 5 []]"
    using sample_directory_starts assms by auto
  have "(''r1'' :: string) \<le> ''r2''" by simp
  then show ?thesis
    by (simp add: directory_run_def sample_overtaking_def read_relay_endpoint_def validate_relay_advertisement_def
        replace_relay_session_endpoint_def allocate_generation_def store_json_atomic_def replace_session_def
        directory_outcome_def registry_directory_def s sample_control_env_def sample_signer_def eval_simps
        List.map_filter_simps sample_directory_def sample_entry_def Let_def bail_if_def)
qed

theorem relay_accepts_published_witness:
  "let e1 = sample_entry ''r1'' ''a'' ''b'' CHR ''1''; e2 = sample_entry ''r2'' ''c'' ''d'' CHR ''2''
   in apply_relay_directory sample_crypto (ce_parse_addr sample_control_env) (sample_directory 7 [e1, e2])
        (sample_directory 6 [e1]) = Ok (sample_directory 7 [e1, e2])"
proof -
  let ?e1 = "sample_entry ''r1'' ''a'' ''b'' CHR ''1''" and ?e2 = "sample_entry ''r2'' ''c'' ''d'' CHR ''2''"
  obtain ds where ds: "directory_start (ce_generation_json sample_control_env) Stored sample_signer = Ok ds"
    using sample_directory_starts by blast
  have "list_all (directory_op_ok (ce_crypto sample_control_env)) sample_overtaking"
    by (simp add: sample_overtaking_def sample_control_env_def digit_val_def)
  moreover have "cs_next_generation sample_signer \<noteq> 0"
    by (simp add: sample_signer_def)
  moreover have "sample_directory 7 [?e1, ?e2] \<in> set (ds_published (directory_run sample_control_env sample_overtaking ds))"
    "sample_directory 6 [?e1] \<in> set (ds_published (directory_run sample_control_env sample_overtaking ds))"
    using sample_overtakes [OF ds] by (simp_all add: Let_def)
  moreover have "ce_crypto sample_control_env = sample_crypto"
    by (simp add: sample_control_env_def)
  ultimately show ?thesis
    using relay_accepts_published [OF ds _ _ refl, of sample_overtaking "sample_directory 7 [?e1, ?e2]" "sample_directory 6 [?e1]"]
    by (simp add: Let_def sample_directory_def)
qed

text \<open>Two Relay sessions that change the registry one after the other may publish in the opposite
  order, because the directory is published after the lock is released: with nothing left in flight
  the channel then holds the older directory, which is what a Relay that connects now is given,
  while the registry has the newer one.\<close>

theorem stale_directory_stays_published:
  "\<exists>ds ops. directory_start (ce_generation_json sample_control_env) Stored sample_signer = Ok ds
     \<and> list_all (directory_op_ok sample_crypto) ops
     \<and> (let ds' = directory_run sample_control_env ops ds
        in ds_in_flight ds' = [] \<and> rd_generation (hd (ds_published ds')) < rd_generation (registry_directory (ds_registry ds'))
          \<and> length (rd_relays (hd (ds_published ds'))) < length (rd_relays (registry_directory (ds_registry ds'))))"
proof -
  obtain ds where ds: "directory_start (ce_generation_json sample_control_env) Stored sample_signer = Ok ds"
    using sample_directory_starts by blast
  have "list_all (directory_op_ok sample_crypto) sample_overtaking"
    by (simp add: sample_overtaking_def digit_val_def)
  with ds sample_overtakes [OF ds] show ?thesis
    by (intro exI [of _ ds] exI [of _ sample_overtaking]) (simp add: Let_def sample_directory_def)
qed

text \<open>C18: a Travel that has logged in and does not release its lease is the only session of that Travel
  until the lease ends: whatever sessions are authorized, released or pruned meanwhile, another
  session is refused and its own is let in. When the leases of a Travel have ended, a new session
  may log in.\<close>

theorem travel_login_exclusive:
  assumes "travel_sessions_wf ss" and "authorize_session t s (Some l) y ss = (ss1, Ok ())"
    and "list_all (within_lease y) ops" and "SessionReleased t s l \<notin> set ops"
    and "ss2 = fold session_step ops ss1" and "y \<le> now" and "now < y + TRAVEL_SESSION_LEASE" and "s' \<noteq> 0"
  shows "snd (authorize_session t s' l' now ss2) = (if s' = s then Ok () else Err (Server AnotherSession))
     \<and> (\<forall>later. (\<forall>a. map_of ss2 t = Some a \<longrightarrow> (\<forall>(l, e) \<in> set (trs_leases a). e \<le> later)) \<longrightarrow>
          snd (authorize_session t s' (Some l) later ss2) = Ok ())"
proof -
  have w: "travel_sessions_wf ss1"
    using authorize_wf [OF assms(1), of t s "Some l" y] assms(2) by simp
  have "holds_lease t s l (y + TRAVEL_SESSION_LEASE) ss1"
    using assms(2) by (auto simp: authorize_session_def holds_lease_def Let_def AList.update_conv'
        split: option.splits if_splits)
  note h = holds_run [OF this w assms(3, 4), folded assms(5)]
  show ?thesis
    using holds_excludes [OF conjunct1 [OF h] conjunct2 [OF h] assms(7, 8)] expired_admits [OF conjunct2 [OF h] assms(8)]
    by blast
qed

theorem travel_login_exclusive_witness:
  "let ss1 = fst (authorize_session ''phone'' 7 (Some 1) 100 []);
       ss2 = fold session_step [SessionsPruned 120, SessionReleased ''phone'' 8 1] ss1
   in snd (authorize_session ''phone'' 8 (Some 2) 144 ss2) = Err (Server AnotherSession)
     \<and> snd (authorize_session ''phone'' 8 (Some 1) 145 ss2) = Ok ()"
proof -
  let ?ops = "[SessionsPruned 120, SessionReleased ''phone'' 8 1]"
  let ?ss1 = "fst (authorize_session ''phone'' 7 (Some 1) 100 [])"
  have a: "authorize_session ''phone'' 7 (Some 1) 100 [] = (?ss1, Ok ())" "travel_sessions_wf []"
    "list_all (within_lease 100) ?ops"
    by (simp_all add: authorize_session_def prune_sessions_def Let_def travel_sessions_wf_def TRAVEL_SESSION_LEASE_def)
  have e: "map_of (fold session_step ?ops ?ss1) ''phone'' = Some \<lparr>trs_session_id = 7, trs_leases = [(1, 145)]\<rparr>"
    by (simp add: authorize_session_def prune_sessions_def release_session_def Let_def TRAVEL_SESSION_LEASE_def)
  show ?thesis
    using travel_login_exclusive [OF a(2, 1, 3) _ refl, of 144 8 "Some 2"] e
    by (auto simp: Let_def TRAVEL_SESSION_LEASE_def)
qed

end
