(* ===== verification/Server_Routes.thy ===== *)
theory Server_Routes
  imports Server_Control
begin

text \<open>
  The Server between Travel, Relay and Home (\<open>server/src/main.rs\<close>): which Homes and services a Travel
  is shown, the authorization of a Travel session, route requests and the one-use grants they leave
  for a Relay to redeem, the forwarding of enrollment requests to Homes and of the answers back to
  the Relays, and the cleanup of what expires. A message handed to a session's queue is appended to
  \<open>st_sent\<close>; how the queue took it is an argument of the step.
\<close>

section \<open>State\<close>

definition CONTROL_PROTOCOL_VERSION :: u32 where "CONTROL_PROTOCOL_VERSION = 3"

datatype enrollment_message =
    RemoteEnrollmentSubmit uuid string uuid uuid string bytes
  | BootstrapEnrollmentSubmit u32 uuid string string bytes bytes
  | RemoteEnrollmentInstalled uuid string uuid uuid string

datatype home_message =
    OpenRelayWork uuid bytes uuid string string u64
  | EnrollmentForwarded enrollment_message

datatype relay_message =
    ServerRelayGrant uuid uuid bytes uuid string u64
  | RouteRefused uuid error
  | RemoteEnrollmentResult uuid bool "bytes option" "string option"
  | BootstrapEnrollmentResult uuid bool "bytes option" "string list" "string option"
  | RemoteEnrollmentInstalledAck uuid bool "string option"

datatype sent_message = ToHome channel home_message | ToRelay channel relay_message

record pending_relay_grant =
  pg_relay_id :: string
  pg_work_id :: uuid
  pg_credential_id :: uuid
  pg_home :: channel
  pg_open_message :: home_message
  pg_expires :: instant

record pending_enrollment =
  pe_forwarding_id :: uuid
  pe_relay_id :: string
  pe_travel_id :: string
  pe_home_id :: string
  pe_relay :: channel
  pe_bootstrap :: bool
  pe_installed :: bool
  pe_expires :: instant

text \<open>What a task that forwards an enrollment holds after it has recorded it and while it waits for the
  queue of the Home.\<close>

record forwarding =
  fw_request :: uuid
  fw_home :: channel
  fw_message :: enrollment_message
  fw_expires :: instant

record route_request_context =
  rr_request :: uuid
  rr_travel :: string
  rr_travel_session :: uuid
  rr_credential :: uuid
  rr_home :: string

record server_state =
  st_homes :: home_registry
  st_directory :: directory_registry
  st_travel_sessions :: travel_sessions
  st_grants :: "(uuid \<times> pending_relay_grant) list"
  st_enrollments :: "(uuid \<times> pending_enrollment) list"
  st_forwarding :: "(uuid \<times> forwarding) list"
  st_authorization :: server_authorization
  st_acks :: "(string \<times> u64) list"
  st_signer :: control_signer
  st_sent :: "sent_message list"

text \<open>What is fixed while the Server runs: the environments of its two parts and the configured
  lifetime and number of pending requests, and the text of an error.\<close>

record routes_env =
  ro_server :: server_env
  ro_control :: control_env
  ro_work_ttl_secs :: nat
  ro_max_pending_work :: nat
  ro_format :: "error \<Rightarrow> string"

section \<open>The catalog of a Travel\<close>

fun is_service_class :: "travel_credential_scope \<Rightarrow> bool" where
  "is_service_class (ScopeServiceClass p t) = True"
| "is_service_class _ = False"

text \<open>A Home with a signed restriction whose restriction does not hold is not shown at all.\<close>

definition home_grant :: "server_env \<Rightarrow> deployment_trust option \<Rightarrow> u64 \<Rightarrow> home_catalog
    \<Rightarrow> home_service_grant option option" where
  "home_grant E trust now home = (case hc_service_grant home of
     None \<Rightarrow> Some None
   | Some sg \<Rightarrow> (case (trust, hc_endpoint_credential home) of
        (Some t, Some endpoint) \<Rightarrow>
          (case grant_verify (sv_crypto E) (sv_j_endpoint E) (sv_j_grant E) sg t endpoint now of
             Err e \<Rightarrow> None
           | Ok g \<Rightarrow> if hsg_home_id g \<noteq> hc_home_id home \<or> \<not> is_ok (validate_catalog_services g (hc_services home))
                then None else Some (Some g))
      | _ \<Rightarrow> None))"

definition service_shown :: "travel_credential set \<Rightarrow> string \<Rightarrow> home_service_grant option \<Rightarrow> service \<Rightarrow> bool" where
  "service_shown creds home_id grant s \<longleftrightarrow> (\<exists>c \<in> creds. allows_business_service c home_id (svc_id s) (svc_protocol s)
     (case grant of None \<Rightarrow> None | Some g \<Rightarrow> List.find (\<lambda>a. bs_service_id a = svc_id s) (hsg_services g)))"

definition home_for_credentials :: "server_env \<Rightarrow> deployment_trust option \<Rightarrow> u64 \<Rightarrow> travel_credential set
    \<Rightarrow> home_catalog \<Rightarrow> home_catalog option" where
  "home_for_credentials E trust now creds home =
     (if \<not> (\<exists>c \<in> creds. allows_home c (hc_home_id home)) then None
      else (case home_grant E trust now home of
          None \<Rightarrow> None
        | Some grant \<Rightarrow>
            let services = filter (service_shown creds (hc_home_id home) grant) (hc_services home)
            in if services = [] \<and> \<not> (\<exists>c \<in> creds. allows_home c (hc_home_id home) \<and> \<not> is_service_class (tc_scope c))
               then None else Some (home\<lparr>hc_services := services\<rparr>)))"

definition catalog_for_credentials :: "server_env \<Rightarrow> deployment_trust option \<Rightarrow> u64 \<Rightarrow> catalog
    \<Rightarrow> travel_credential set \<Rightarrow> catalog" where
  "catalog_for_credentials E trust now cat creds = \<lparr>cat_generation = cat_generation cat,
     cat_homes = List.map_filter (home_for_credentials E trust now creds) (cat_homes cat)\<rparr>"

section \<open>Authorization of a Travel session\<close>

text \<open>The active credentials of the Travel under the management key of the presented one.\<close>

definition sibling_credentials :: "verified_authorization \<Rightarrow> travel_credential \<Rightarrow> string \<Rightarrow> u64
    \<Rightarrow> travel_credential set" where
  "sibling_credentials va credential travel_id now = {c \<in> ran (va_credentials va). tc_travel_id c = travel_id
     \<and> eq_ignore_ascii_case (tc_management_spki_sha256 c) (tc_management_spki_sha256 credential)
     \<and> is_active va (tc_credential_id c) now}"

text \<open>The clocks: Unix time of the checks, of the signature, and the monotonic clock of the leases.\<close>

definition authorize_travel :: "routes_env \<Rightarrow> bytes \<Rightarrow> store_event \<Rightarrow> u64 \<Rightarrow> instant \<Rightarrow> uuid \<Rightarrow> string \<Rightarrow> uuid
    \<Rightarrow> uuid option \<Rightarrow> string option \<Rightarrow> server_state \<Rightarrow> signed_control_snapshot res \<times> server_state" where
  "authorize_travel E rnd ev now_unix now credential_id travel_id session lease home_id st =
     (let va = sa_verified (st_authorization st) in
      case va_credentials va credential_id of
        None \<Rightarrow> (Err (AuthUse UnknownCredential), st)
      | Some credential \<Rightarrow>
          if tc_travel_id credential \<noteq> travel_id then (Err (Server TravelIdMismatch), st) else
          let creds = sibling_credentials va credential travel_id now_unix in
          if \<exists>h. home_id = Some h \<and> \<not> (\<exists>c \<in> creds. allows_home c h)
          then (Err (Server HomeNotAuthorized), st) else
          (case (if creds \<noteq> {} then
                   (case authorize_session travel_id session lease now (st_travel_sessions st) of
                      (ss, r) \<Rightarrow> (r, st\<lparr>st_travel_sessions := ss\<rparr>))
                 else if home_id \<noteq> None then (Err (AuthUse CredentialInactive), st)
                 else (Ok (), st)) of
             (Err e, st1) \<Rightarrow> (Err e, st1)
           | (Ok _, st1) \<Rightarrow>
               let directory = registry_directory (st_directory st1);
                   cat = catalog_for_credentials (ro_server E) (Some (cs_trust (st_signer st1))) now_unix
                           (registry_catalog (st_homes st1)) creds
               in if \<exists>h. home_id = Some h \<and> h \<notin> hc_home_id ` set (cat_homes cat)
                  then (Err (Server HomeNoCatalog), st1)
                  else (case signer_sign (ce_crypto (ro_control E)) (ce_trust_json (ro_control E))
                            (ce_payload_json (ro_control E)) (ce_generation_json (ro_control E)) rnd ev now_unix
                            directory cat travel_id (tc_management_spki_sha256 credential) (st_signer st1) of
                      (r, s) \<Rightarrow> (r, st1\<lparr>st_signer := s\<rparr>))))"

section \<open>Route requests and grants\<close>

text \<open>Whether a queue takes a message before the deadline: \<open>Taken\<close>, \<open>Full\<close> until then, or \<open>Gone\<close>.\<close>

datatype queue_event = Taken | Full | Gone

definition send_control_until :: "queue_event \<Rightarrow> instant \<Rightarrow> instant \<Rightarrow> sent_message \<Rightarrow> server_state
    \<Rightarrow> unit res \<times> server_state" where
  "send_control_until q now expires msg st =
     (if expires \<le> now then (Err (Server QueueDeadline), st)
      else (case q of
          Taken \<Rightarrow> (Ok (), st\<lparr>st_sent := st_sent st @ [msg]\<rparr>)
        | Full \<Rightarrow> (Err (Server QueueDeadline), st)
        | Gone \<Rightarrow> (Err (Server QueueClosed), st)))"

text \<open>The request of a Relay with a public data address, the clocks, the fresh work id and secret.\<close>

definition handle_route_request :: "routes_env \<Rightarrow> bytes \<Rightarrow> store_event \<Rightarrow> u64 \<Rightarrow> instant \<Rightarrow> uuid \<Rightarrow> bytes
    \<Rightarrow> string \<Rightarrow> string \<Rightarrow> route_request_context \<Rightarrow> server_state \<Rightarrow> relay_message \<times> server_state" where
  "handle_route_request E rnd ev now_unix now work_id secret relay_id data_addr req st =
     (case authorize_travel E rnd ev now_unix now (rr_credential req) (rr_travel req) (rr_travel_session req)
             None (Some (rr_home req)) st of
        (Err e, st1) \<Rightarrow> (RouteRefused (rr_request req) e, st1)
      | (Ok _, st1) \<Rightarrow>
          (case home_sender (rr_home req) (st_homes st1) of
             None \<Rightarrow> (RouteRefused (rr_request req) (Server HomeUnavailable), st1)
           | Some home \<Rightarrow>
               let expires_at = sat_add now_unix (of_nat (ro_work_ttl_secs E)) in
               if ro_max_pending_work E \<le> length (st_grants st1)
               then (RouteRefused (rr_request req) (Server PendingLimit), st1)
               else (ServerRelayGrant (rr_request req) work_id secret (rr_credential req) (rr_home req) expires_at,
                 st1\<lparr>st_grants := AList.update (rr_request req)
                   \<lparr>pg_relay_id = relay_id, pg_work_id = work_id, pg_credential_id = rr_credential req,
                    pg_home = home, pg_open_message = OpenRelayWork work_id secret (rr_credential req) relay_id
                      data_addr expires_at, pg_expires = now + ro_work_ttl_secs E\<rparr> (st_grants st1)\<rparr>)))"

definition take_matching_pending_grant :: "string \<Rightarrow> uuid \<Rightarrow> uuid \<Rightarrow> instant
    \<Rightarrow> (uuid \<times> pending_relay_grant) list \<Rightarrow> pending_relay_grant option res \<times> (uuid \<times> pending_relay_grant) list" where
  "take_matching_pending_grant relay_id request_id work_id now grants =
     (case map_of grants request_id of
        None \<Rightarrow> (Ok None, grants)
      | Some pending \<Rightarrow>
          if pg_relay_id pending \<noteq> relay_id \<or> pg_work_id pending \<noteq> work_id
          then (Err (Server WorkMismatch), grants)
          else (Ok (if pg_expires pending \<le> now then None else Some pending), AList.delete request_id grants))"

definition complete_relay_work :: "queue_event \<Rightarrow> instant \<Rightarrow> instant \<Rightarrow> string \<Rightarrow> uuid \<Rightarrow> uuid \<Rightarrow> server_state
    \<Rightarrow> unit res \<times> server_state" where
  "complete_relay_work q now now_send relay_id request_id work_id st =
     (case take_matching_pending_grant relay_id request_id work_id now (st_grants st) of
        (Err e, grants) \<Rightarrow> (Err e, st)
      | (Ok None, grants) \<Rightarrow> (Ok (), st\<lparr>st_grants := grants\<rparr>)
      | (Ok (Some pending), grants) \<Rightarrow>
          (Ok (), snd (send_control_until q now_send (pg_expires pending)
             (ToHome (pg_home pending) (pg_open_message pending)) (st\<lparr>st_grants := grants\<rparr>))))"

text \<open>The end of a current Relay session takes its grants with it, and so does a revocation.\<close>

definition relay_session_ended :: "u64 file_json \<Rightarrow> store_event \<Rightarrow> string \<Rightarrow> uuid \<Rightarrow> server_state
    \<Rightarrow> relay_directory option res \<times> server_state" where
  "relay_session_ended F ev relay_id session st =
     (case unregister_relay_session_endpoint F ev relay_id session (st_signer st, st_directory st) of
        (r, s, d) \<Rightarrow> (r, st\<lparr>st_signer := s, st_directory := d,
          st_grants := filter (\<lambda>(i, g). pg_relay_id g \<noteq> relay_id) (st_grants st),
          st_acks := AList.delete (''relay:'' @ relay_id) (st_acks st)\<rparr>))"

definition revoke_home_credential :: "routes_env \<Rightarrow> u64 \<Rightarrow> store_event \<Rightarrow> uuid \<Rightarrow> string \<Rightarrow> string \<Rightarrow> server_state
    \<Rightarrow> bool res \<times> server_state" where
  "revoke_home_credential E now ev credential_id reason home_id st =
     (if reason = [] \<or> 256 < length reason then (Err (Auth RevocationInvalid), st)
      else (case revoke_from_home (ro_server E) now ev (st_authorization st) credential_id reason home_id of
          (Ok True, sa) \<Rightarrow> (Ok True, st\<lparr>st_authorization := sa,
             st_grants := filter (\<lambda>(i, g). pg_credential_id g \<noteq> credential_id) (st_grants st)\<rparr>)
        | (r, sa) \<Rightarrow> (r, st\<lparr>st_authorization := sa\<rparr>)))"

definition import_home_credential :: "routes_env \<Rightarrow> store_event \<Rightarrow> signed_travel_credential \<Rightarrow> string
    \<Rightarrow> server_state \<Rightarrow> bool res \<times> server_state" where
  "import_home_credential E ev doc home_id st =
     (case import_credential (ro_server E) ev (st_authorization st) doc home_id of
        (r, sa) \<Rightarrow> (r, st\<lparr>st_authorization := sa\<rparr>))"

definition record_authorization_ack :: "string \<Rightarrow> u64 \<Rightarrow> server_state \<Rightarrow> server_state" where
  "record_authorization_ack node generation st =
     (if generation \<le> tas_generation (sa_snapshot (st_authorization st))
      then st\<lparr>st_acks := AList.update node
        (max (case map_of (st_acks st) node of None \<Rightarrow> 0 | Some g \<Rightarrow> g) generation) (st_acks st)\<rparr>
      else st)"

definition clear_home_session :: "uuid \<Rightarrow> string \<Rightarrow> server_state \<Rightarrow> server_state" where
  "clear_home_session session home_id st =
     (case remove_home home_id session (st_homes st) of
        (homes, None) \<Rightarrow> st\<lparr>st_homes := homes\<rparr>
      | (homes, Some _) \<Rightarrow> st\<lparr>st_homes := homes, st_acks := AList.delete (''home:'' @ home_id) (st_acks st)\<rparr>)"

section \<open>Forwarded enrollments\<close>

definition enrollment_lifetime :: "routes_env \<Rightarrow> nat" where
  "enrollment_lifetime E = max (ro_work_ttl_secs E) 15"

text \<open>The common part, in the two sections in which it runs. The request is recorded under the lock of the
  waiting requests; then the lock is dropped and the task waits for the queue of the Home, in
  \<open>st_forwarding\<close> under its forwarding id.\<close>

definition enrollment_recorded :: "routes_env \<Rightarrow> uuid \<Rightarrow> pending_enrollment \<Rightarrow> string \<Rightarrow> enrollment_message
    \<Rightarrow> server_state \<Rightarrow> unit res \<times> server_state" where
  "enrollment_recorded E request_id pending home_id msg st =
     (case home_sender home_id (st_homes st) of
        None \<Rightarrow> (Err (Server HomeUnavailable), st)
      | Some home \<Rightarrow>
          if ro_max_pending_work E \<le> length (st_enrollments st) then (Err (Server PendingLimit), st)
          else if map_of (st_enrollments st) request_id \<noteq> None then (Err (Server EnrollmentInFlight), st)
          else (Ok (), st\<lparr>st_enrollments := AList.update request_id pending (st_enrollments st),
            st_forwarding := AList.update (pe_forwarding_id pending)
              \<lparr>fw_request = request_id, fw_home = home, fw_message = msg, fw_expires = pe_expires pending\<rparr>
              (st_forwarding st)\<rparr>))"

text \<open>The refusal of a request of each kind.\<close>

fun refusal :: "uuid \<Rightarrow> string \<Rightarrow> enrollment_message \<Rightarrow> relay_message" where
  "refusal i e (RemoteEnrollmentSubmit _ _ _ _ _ _) = RemoteEnrollmentResult i False None (Some e)"
| "refusal i e (BootstrapEnrollmentSubmit _ _ _ _ _ _) = BootstrapEnrollmentResult i False None [] (Some e)"
| "refusal i e (RemoteEnrollmentInstalled _ _ _ _ _) = RemoteEnrollmentInstalledAck i False (Some e)"

text \<open>The queue has taken the message, or its deadline has passed or the Home is gone; then the request
  is taken back unless another one has replaced it, and the Relay gets a refusal.\<close>

definition enrollment_queued :: "routes_env \<Rightarrow> queue_event \<Rightarrow> instant \<Rightarrow> uuid \<Rightarrow> server_state
    \<Rightarrow> relay_message option \<times> server_state" where
  "enrollment_queued E q now_send forwarding_id st =
     (case map_of (st_forwarding st) forwarding_id of
        None \<Rightarrow> (None, st)
      | Some fw \<Rightarrow>
          (case send_control_until q now_send (fw_expires fw)
              (ToHome (fw_home fw) (EnrollmentForwarded (fw_message fw)))
              (st\<lparr>st_forwarding := AList.delete forwarding_id (st_forwarding st)\<rparr>) of
             (Ok _, st2) \<Rightarrow> (None, st2)
           | (Err e, st2) \<Rightarrow>
               (Some (refusal (fw_request fw) (ro_format E e) (fw_message fw)),
                case map_of (st_enrollments st2) (fw_request fw) of
                  Some p \<Rightarrow> if pe_forwarding_id p = forwarding_id
                    then st2\<lparr>st_enrollments := AList.delete (fw_request fw) (st_enrollments st2)\<rparr> else st2
                | None \<Rightarrow> st2)))"

definition handle_remote_enrollment_submit :: "routes_env \<Rightarrow> bytes \<Rightarrow> store_event \<Rightarrow> u64 \<Rightarrow> instant
    \<Rightarrow> uuid \<Rightarrow> string \<Rightarrow> channel \<Rightarrow> uuid \<Rightarrow> string \<Rightarrow> uuid \<Rightarrow> uuid \<Rightarrow> string \<Rightarrow> bytes \<Rightarrow> server_state
    \<Rightarrow> relay_message option \<times> server_state" where
  "handle_remote_enrollment_submit E rnd ev now_unix now forwarding_id relay_id relay request_id
       travel_id session credential_id home_id request_json st =
     (case (if request_id = 0 \<or> request_json = [] \<or> 512 * 1024 < length request_json
            then (Err (Server EnrollmentInvalid), st)
            else (case authorize_travel E rnd ev now_unix now credential_id travel_id session None (Some home_id) st of
                (Err e, st1) \<Rightarrow> (Err e, st1)
              | (Ok _, st1) \<Rightarrow> enrollment_recorded E request_id
                  \<lparr>pe_forwarding_id = forwarding_id, pe_relay_id = relay_id, pe_travel_id = travel_id,
                   pe_home_id = home_id, pe_relay = relay, pe_bootstrap = False, pe_installed = False,
                   pe_expires = now + enrollment_lifetime E\<rparr> home_id
                  (RemoteEnrollmentSubmit request_id travel_id session credential_id home_id request_json) st1)) of
        (Ok _, st') \<Rightarrow> (None, st')
      | (Err e, st') \<Rightarrow> (Some (RemoteEnrollmentResult request_id False None (Some (ro_format E e))), st'))"

definition handle_bootstrap_enrollment_submit :: "routes_env \<Rightarrow> instant \<Rightarrow> uuid \<Rightarrow> string
    \<Rightarrow> channel \<Rightarrow> u32 \<Rightarrow> uuid \<Rightarrow> string \<Rightarrow> string \<Rightarrow> bytes \<Rightarrow> bytes \<Rightarrow> server_state
    \<Rightarrow> relay_message option \<times> server_state" where
  "handle_bootstrap_enrollment_submit E now forwarding_id relay_id relay protocol_version request_id
       travel_id home_id retrieval_token request_json st =
     (case (if protocol_version \<noteq> CONTROL_PROTOCOL_VERSION \<or> request_id = 0 \<or> travel_id = [] \<or> home_id = []
               \<or> length retrieval_token \<noteq> 32 \<or> request_json = [] \<or> 512 * 1024 < length request_json
            then (Err (Server EnrollmentInvalid), st)
            else enrollment_recorded E request_id
                  \<lparr>pe_forwarding_id = forwarding_id, pe_relay_id = relay_id, pe_travel_id = travel_id,
                   pe_home_id = home_id, pe_relay = relay, pe_bootstrap = True, pe_installed = False,
                   pe_expires = now + enrollment_lifetime E\<rparr> home_id
                  (BootstrapEnrollmentSubmit protocol_version request_id travel_id home_id retrieval_token
                     request_json) st) of
        (Ok _, st') \<Rightarrow> (None, st')
      | (Err e, st') \<Rightarrow> (Some (BootstrapEnrollmentResult request_id False None [] (Some (ro_format E e))), st'))"

definition handle_remote_enrollment_installed :: "routes_env \<Rightarrow> bytes \<Rightarrow> store_event \<Rightarrow> u64
    \<Rightarrow> instant \<Rightarrow> uuid \<Rightarrow> string \<Rightarrow> channel \<Rightarrow> uuid \<Rightarrow> string \<Rightarrow> uuid \<Rightarrow> uuid \<Rightarrow> string \<Rightarrow> server_state
    \<Rightarrow> relay_message option \<times> server_state" where
  "handle_remote_enrollment_installed E rnd ev now_unix now forwarding_id relay_id relay request_id
       travel_id session credential_id home_id st =
     (case (if request_id = 0 then (Err (Server EnrollmentInvalid), st)
            else (case authorize_travel E rnd ev now_unix now credential_id travel_id session None None st of
                (Err e, st1) \<Rightarrow> (Err e, st1)
              | (Ok _, st1) \<Rightarrow>
                  (case validate_install_acknowledgement (st_authorization st1) now_unix credential_id request_id home_id of
                     Err e \<Rightarrow> (Err e, st1)
                   | Ok _ \<Rightarrow> enrollment_recorded E request_id
                       \<lparr>pe_forwarding_id = forwarding_id, pe_relay_id = relay_id, pe_travel_id = travel_id,
                        pe_home_id = home_id, pe_relay = relay, pe_bootstrap = False, pe_installed = True,
                        pe_expires = now + enrollment_lifetime E\<rparr> home_id
                       (RemoteEnrollmentInstalled request_id travel_id session credential_id home_id) st1))) of
        (Ok _, st') \<Rightarrow> (None, st')
      | (Err e, st') \<Rightarrow> (Some (RemoteEnrollmentInstalledAck request_id False (Some (ro_format E e))), st'))"

definition take_enrollment_response :: "string \<Rightarrow> uuid \<Rightarrow> bool \<Rightarrow> instant \<Rightarrow> server_state
    \<Rightarrow> pending_enrollment option res \<times> server_state" where
  "take_enrollment_response home_id request_id installed now st =
     (case map_of (st_enrollments st) request_id of
        None \<Rightarrow> (Ok None, st)
      | Some pending \<Rightarrow>
          if pe_home_id pending \<noteq> home_id \<or> pe_installed pending \<noteq> installed
          then (Err (Server WrongResponder), st)
          else (Ok (if pe_expires pending \<le> now then None else Some pending),
                st\<lparr>st_enrollments := AList.delete request_id (st_enrollments st)\<rparr>))"

definition complete_remote_enrollment :: "queue_event \<Rightarrow> instant \<Rightarrow> instant \<Rightarrow> string \<Rightarrow> uuid \<Rightarrow> bool \<Rightarrow> bytes option
    \<Rightarrow> string option \<Rightarrow> server_state \<Rightarrow> unit res \<times> server_state" where
  "complete_remote_enrollment q now now_send home_id request_id accepted response_json err st =
     (case take_enrollment_response home_id request_id False now st of
        (Err e, st1) \<Rightarrow> (Err e, st1)
      | (Ok None, st1) \<Rightarrow> (Ok (), st1)
      | (Ok (Some pending), st1) \<Rightarrow>
          let msg = (if pe_bootstrap pending
                then BootstrapEnrollmentResult request_id accepted response_json
                  (map re_management_addr (rd_relays (registry_directory (st_directory st1)))) err
                else RemoteEnrollmentResult request_id accepted response_json err)
          in (Ok (), snd (send_control_until q now_send (pe_expires pending) (ToRelay (pe_relay pending) msg) st1)))"

definition complete_remote_enrollment_installed :: "queue_event \<Rightarrow> instant \<Rightarrow> instant \<Rightarrow> string \<Rightarrow> uuid \<Rightarrow> bool
    \<Rightarrow> string option \<Rightarrow> server_state \<Rightarrow> unit res \<times> server_state" where
  "complete_remote_enrollment_installed q now now_send home_id request_id accepted err st =
     (case take_enrollment_response home_id request_id True now st of
        (Err e, st1) \<Rightarrow> (Err e, st1)
      | (Ok None, st1) \<Rightarrow> (Ok (), st1)
      | (Ok (Some pending), st1) \<Rightarrow>
          (Ok (), snd (send_control_until q now_send (pe_expires pending)
             (ToRelay (pe_relay pending) (RemoteEnrollmentInstalledAck request_id accepted err)) st1)))"

definition cleanup_pending :: "instant \<Rightarrow> server_state \<Rightarrow> server_state" where
  "cleanup_pending now st = st\<lparr>st_grants := filter (\<lambda>(i, g). now < pg_expires g) (st_grants st),
     st_enrollments := filter (\<lambda>(i, p). now < pe_expires p) (st_enrollments st),
     st_travel_sessions := prune_sessions now (st_travel_sessions st)\<rparr>"

section \<open>The Server as a machine\<close>

datatype server_op =
    RouteAsked bytes store_event u64 instant uuid bytes string string route_request_context
  | WorkReady queue_event instant instant string uuid uuid
  | RelayEnded store_event string uuid
  | RelayEndpointSet store_event string uuid "relay_endpoint option"
  | CredentialRevoked u64 store_event uuid string string
  | CredentialPublished store_event signed_travel_credential string
  | SessionAsked bytes store_event u64 instant uuid string uuid "uuid option"
  | SessionClosed string uuid uuid
  | EnrollmentAsked bytes store_event u64 instant uuid string channel uuid string uuid uuid string bytes
  | BootstrapAsked instant uuid string channel u32 uuid string string bytes bytes
  | InstallReported bytes store_event u64 instant uuid string channel uuid string uuid uuid string
  | EnrollmentQueued queue_event instant uuid
  | EnrollmentAnswered queue_event instant instant string uuid bool "bytes option" "string option"
  | InstallAnswered queue_event instant instant string uuid bool "string option"
  | HomeConnected home_catalog home_session
  | HomeCatalogChanged home_catalog uuid
  | HomeGone uuid string
  | AckReceived string u64
  | PendingCleaned instant

text \<open>The session loops of the Server, one message at a time; a message that a step hands to a queue is
  handed over at once, except for forwarded enrollments, which may wait. The replies on the asking connection do not
  matter to the state and are left out here.\<close>

fun server_step :: "routes_env \<Rightarrow> server_op \<Rightarrow> server_state \<Rightarrow> server_state" where
  "server_step E (RouteAsked rnd ev now_unix now work secret relay addr req) st =
     snd (handle_route_request E rnd ev now_unix now work secret relay addr req st)"
| "server_step E (WorkReady q now now_send relay request work) st =
     snd (complete_relay_work q now now_send relay request work st)"
| "server_step E (RelayEnded ev relay session) st =
     snd (relay_session_ended (ce_generation_json (ro_control E)) ev relay session st)"
| "server_step E (RelayEndpointSet ev relay session endpoint) st =
     (case replace_relay_session_endpoint (ce_generation_json (ro_control E)) ev relay session endpoint
        (st_signer st, st_directory st) of (_, s, d) \<Rightarrow> st\<lparr>st_signer := s, st_directory := d\<rparr>)"
| "server_step E (CredentialRevoked now ev i reason home) st = snd (revoke_home_credential E now ev i reason home st)"
| "server_step E (CredentialPublished ev doc home) st = snd (import_home_credential E ev doc home st)"
| "server_step E (SessionAsked rnd ev now_unix now i travel session lease) st =
     snd (authorize_travel E rnd ev now_unix now i travel session lease None st)"
| "server_step E (SessionClosed travel session lease) st =
     st\<lparr>st_travel_sessions := fst (release_session travel session lease (st_travel_sessions st))\<rparr>"
| "server_step E (EnrollmentAsked rnd ev now_unix now fid relay ch request travel session i home json) st =
     snd (handle_remote_enrollment_submit E rnd ev now_unix now fid relay ch request travel session i home json st)"
| "server_step E (BootstrapAsked now fid relay ch pv request travel home token json) st =
     snd (handle_bootstrap_enrollment_submit E now fid relay ch pv request travel home token json st)"
| "server_step E (InstallReported rnd ev now_unix now fid relay ch request travel session i home) st =
     snd (handle_remote_enrollment_installed E rnd ev now_unix now fid relay ch request travel session i home st)"
| "server_step E (EnrollmentQueued q now_send fid) st = snd (enrollment_queued E q now_send fid st)"
| "server_step E (EnrollmentAnswered q now now_send home request accepted json err) st =
     snd (complete_remote_enrollment q now now_send home request accepted json err st)"
| "server_step E (InstallAnswered q now now_send home request accepted err) st =
     snd (complete_remote_enrollment_installed q now now_send home request accepted err st)"
| "server_step E (HomeConnected home session) st = st\<lparr>st_homes := fst (register_home home session (st_homes st))\<rparr>"
| "server_step E (HomeCatalogChanged home session) st =
     st\<lparr>st_homes := fst (update_home_catalog home session (st_homes st))\<rparr>"
| "server_step E (HomeGone session home) st = clear_home_session session home st"
| "server_step E (AckReceived node generation) st = record_authorization_ack node generation st"
| "server_step E (PendingCleaned now) st = cleanup_pending now st"

definition server_run :: "routes_env \<Rightarrow> server_op list \<Rightarrow> server_state \<Rightarrow> server_state" where
  "server_run E ops st = fold (server_step E) ops st"

section \<open>What an authorized Travel session means\<close>

lemma authorize_travel_frame:
  assumes "authorize_travel E rnd ev now_unix now i travel session lease home st = (r, st')"
  shows "st_grants st' = st_grants st" "st_enrollments st' = st_enrollments st" "st_sent st' = st_sent st"
    "st_homes st' = st_homes st" "st_authorization st' = st_authorization st"
  using assms
  by (auto simp: authorize_travel_def Let_def split: option.splits if_splits prod.splits result.splits)

text \<open>Whether a registered Home shows itself to the holder of some credentials: its signed restriction, if it
  has one, verifies under the trust, names the Home and covers its catalog, and either a credential
  that is not for a class of services covers the Home, or a credential covers one of its services as
  the restriction assigns them.\<close>

definition restriction_holds :: "routes_env \<Rightarrow> deployment_trust \<Rightarrow> u64 \<Rightarrow> home_catalog
    \<Rightarrow> home_service_grant option \<Rightarrow> bool" where
  "restriction_holds E t now h grant \<longleftrightarrow> (case hc_service_grant h of
     None \<Rightarrow> grant = None
   | Some sg \<Rightarrow> (\<exists>endpoint g. hc_endpoint_credential h = Some endpoint \<and> grant = Some g
        \<and> grant_verify (sv_crypto (ro_server E)) (sv_j_endpoint (ro_server E)) (sv_j_grant (ro_server E)) sg t endpoint now
            = Ok g
        \<and> hsg_home_id g = hc_home_id h \<and> validate_catalog_services g (hc_services h) = Ok ()))"

definition home_admits :: "routes_env \<Rightarrow> deployment_trust \<Rightarrow> u64 \<Rightarrow> travel_credential set \<Rightarrow> home_catalog \<Rightarrow> bool" where
  "home_admits E t now cs h \<longleftrightarrow> (\<exists>grant. restriction_holds E t now h grant
     \<and> ((\<exists>c \<in> cs. allows_home c (hc_home_id h) \<and> (\<forall>p x. tc_scope c \<noteq> ScopeServiceClass p x))
        \<or> (\<exists>s \<in> set (hc_services h). \<exists>c \<in> cs. allows_business_service c (hc_home_id h) (svc_id s) (svc_protocol s)
             (case grant of None \<Rightarrow> None
              | Some g \<Rightarrow> List.find (\<lambda>a. bs_service_id a = svc_id s) (hsg_services g)))))"

text \<open>The Travel is entitled to the Home: some of its active credentials in the verified snapshot under the
  management key of the presented one cover the Home, and the registered Home shows itself for these
  credentials; and the session is the one that is logged in.\<close>

definition entitled_route :: "routes_env \<Rightarrow> u64 \<Rightarrow> instant \<Rightarrow> route_request_context \<Rightarrow> server_state \<Rightarrow> bool" where
  "entitled_route E now_unix now req st \<longleftrightarrow>
     (\<exists>p cs. va_credentials (sa_verified (st_authorization st)) (rr_credential req) = Some p
        \<and> tc_travel_id p = rr_travel req
        \<and> (\<forall>c \<in> cs. c \<in> ran (va_credentials (sa_verified (st_authorization st))) \<and> tc_travel_id c = rr_travel req
             \<and> eq_ignore_ascii_case (tc_management_spki_sha256 c) (tc_management_spki_sha256 p)
             \<and> is_active (sa_verified (st_authorization st)) (tc_credential_id c) now_unix)
        \<and> (\<exists>c \<in> cs. allows_home c (rr_home req))
        \<and> (\<exists>h \<in> set (cat_homes (registry_catalog (st_homes st))). hc_home_id h = rr_home req
             \<and> home_admits E (cs_trust (st_signer st)) now_unix cs h))
     \<and> snd (authorize_session (rr_travel req) (rr_travel_session req) None now (st_travel_sessions st)) = Ok ()"

lemma home_grant_holds:
  "home_grant (ro_server E) (Some t) now h = Some grant \<Longrightarrow> restriction_holds E t now h grant"
  by (auto simp: home_grant_def restriction_holds_def is_ok_iff split: option.splits result.splits if_splits)

lemma not_service_class: "\<not> is_service_class s \<longleftrightarrow> (\<forall>p x. s \<noteq> ScopeServiceClass p x)"
  by (cases s) auto

lemma home_shown_admits:
  assumes "home_for_credentials (ro_server E) (Some t) now cs h = Some h'"
  shows "hc_home_id h' = hc_home_id h \<and> home_admits E t now cs h"
proof -
  obtain grant where g: "home_grant (ro_server E) (Some t) now h = Some grant"
    and h': "h' = h\<lparr>hc_services := filter (service_shown cs (hc_home_id h) grant) (hc_services h)\<rparr>"
    and s: "filter (service_shown cs (hc_home_id h) grant) (hc_services h) \<noteq> []
      \<or> (\<exists>c \<in> cs. allows_home c (hc_home_id h) \<and> \<not> is_service_class (tc_scope c))"
    using assms by (auto simp: home_for_credentials_def Let_def split: if_splits option.splits)
  from s have "(\<exists>c \<in> cs. allows_home c (hc_home_id h) \<and> (\<forall>p x. tc_scope c \<noteq> ScopeServiceClass p x))
      \<or> (\<exists>s \<in> set (hc_services h). \<exists>c \<in> cs. allows_business_service c (hc_home_id h) (svc_id s) (svc_protocol s)
           (case grant of None \<Rightarrow> None | Some g \<Rightarrow> List.find (\<lambda>a. bs_service_id a = svc_id s) (hsg_services g)))"
    unfolding not_service_class filter_empty_conv service_shown_def by blast
  with home_grant_holds [OF g] have "home_admits E t now cs h"
    unfolding home_admits_def by blast
  with h' show ?thesis by simp
qed

lemma catalog_shown:
  assumes "x \<in> set (cat_homes (catalog_for_credentials (ro_server E) (Some t) now cat cs))"
  shows "\<exists>h \<in> set (cat_homes cat). hc_home_id h = hc_home_id x \<and> home_admits E t now cs h"
proof -
  obtain h where "h \<in> set (cat_homes cat)" "home_for_credentials (ro_server E) (Some t) now cs h = Some x"
    using assms by (auto simp: catalog_for_credentials_def List.map_filter_def)
  with home_shown_admits show ?thesis by metis
qed

lemma authorize_travel_entitled:
  assumes "authorize_travel E rnd ev now_unix now (rr_credential req) (rr_travel req) (rr_travel_session req) None
     (Some (rr_home req)) st = (Ok snap, st')"
  shows "entitled_route E now_unix now req st"
proof -
  let ?va = "sa_verified (st_authorization st)" and ?t = "cs_trust (st_signer st)"
  obtain p where p: "va_credentials ?va (rr_credential req) = Some p" "tc_travel_id p = rr_travel req"
    using assms by (auto simp: authorize_travel_def Let_def split: option.splits if_splits)
  let ?cs = "sibling_credentials ?va p (rr_travel req) now_unix"
  let ?cat = "catalog_for_credentials (ro_server E) (Some ?t) now_unix (registry_catalog (st_homes st)) ?cs"
  have c: "\<exists>c \<in> ?cs. allows_home c (rr_home req)"
    using assms p by (auto simp: authorize_travel_def Let_def split: if_splits)
  then have n: "?cs \<noteq> {}" by auto
  obtain ss r where a: "authorize_session (rr_travel req) (rr_travel_session req) None now (st_travel_sessions st) = (ss, r)"
    by (meson surj_pair)
  have r: "r = Ok ()" "rr_home req \<in> hc_home_id ` set (cat_homes ?cat)"
    using assms p c n a by (auto simp: authorize_travel_def Let_def split: if_splits result.splits prod.splits)
  from r(2) obtain x where x: "x \<in> set (cat_homes ?cat)" "hc_home_id x = rr_home req" by (metis imageE)
  from catalog_shown [OF x(1)] x(2) obtain h where h: "h \<in> set (cat_homes (registry_catalog (st_homes st)))"
      "hc_home_id h = rr_home req" "home_admits E ?t now_unix ?cs h" by metis
  have "\<forall>c \<in> ?cs. c \<in> ran (va_credentials ?va) \<and> tc_travel_id c = rr_travel req
      \<and> eq_ignore_ascii_case (tc_management_spki_sha256 c) (tc_management_spki_sha256 p)
      \<and> is_active ?va (tc_credential_id c) now_unix"
    by (simp add: sibling_credentials_def)
  with p c h r(1) a show ?thesis
    unfolding entitled_route_def by auto
qed

section \<open>Grants\<close>

lemma length_update_le: "length xs < n \<Longrightarrow> length (AList.update k v xs) \<le> n"
proof -
  have "length (AList.update k v xs) \<le> Suc (length xs)"
    by (induction xs) auto
  then show "length xs < n \<Longrightarrow> ?thesis" by simp
qed

lemma distinct_update_values:
  "distinct (map (f \<circ> snd) xs) \<Longrightarrow> f v \<notin> (f \<circ> snd) ` set xs \<Longrightarrow> distinct (map (f \<circ> snd) (AList.update k v xs))"
proof (induction xs)
  case (Cons x xs)
  have "(f \<circ> snd) ` set (AList.update k v xs) \<subseteq> insert (f v) ((f \<circ> snd) ` set xs)"
    by (force dest: update_entries)
  with Cons show ?case by (cases x) auto
qed simp

text \<open>The open messages handed to Homes so far, with their channels.\<close>

fun open_of :: "sent_message \<Rightarrow> (channel \<times> home_message) option" where
  "open_of (ToHome ch (OpenRelayWork w k c r a e)) = Some (ch, OpenRelayWork w k c r a e)"
| "open_of _ = None"

definition opened :: "server_state \<Rightarrow> (channel \<times> home_message) list" where
  "opened st = List.map_filter open_of (st_sent st)"

fun work_of :: "home_message \<Rightarrow> uuid" where
  "work_of (OpenRelayWork w k c r a e) = w"
| "work_of _ = 0"

definition opened_works :: "server_state \<Rightarrow> uuid list" where
  "opened_works st = map (\<lambda>(ch, m). work_of m) (opened st)"

fun asked_works :: "server_op list \<Rightarrow> uuid list" where
  "asked_works [] = []"
| "asked_works (RouteAsked _ _ _ _ w _ _ _ _ # ops) = w # asked_works ops"
| "asked_works (_ # ops) = asked_works ops"

lemma asked_append [simp]: "asked_works (xs @ ys) = asked_works xs @ asked_works ys"
  by (induction xs rule: asked_works.induct) simp_all

text \<open>Where a grant comes from: a request that this Relay forwarded when the Travel was entitled to the
  Home, to the session that the Home had then.\<close>

definition rooted :: "routes_env \<Rightarrow> server_op list \<Rightarrow> server_state \<Rightarrow> channel \<Rightarrow> home_message \<Rightarrow> instant \<Rightarrow> bool" where
  "rooted E ops st0 ch msg expires \<longleftrightarrow> (\<exists>pre post rnd ev now_unix now work secret relay addr req.
     ops = pre @ RouteAsked rnd ev now_unix now work secret relay addr req # post
     \<and> entitled_route E now_unix now req (server_run E pre st0)
     \<and> home_sender (rr_home req) (st_homes (server_run E pre st0)) = Some ch
     \<and> msg = OpenRelayWork work secret (rr_credential req) relay addr (sat_add now_unix (of_nat (ro_work_ttl_secs E)))
     \<and> expires = now + ro_work_ttl_secs E)"

lemma rootedI:
  assumes "entitled_route E now_unix now req (server_run E pre st0)"
    "home_sender (rr_home req) (st_homes (server_run E pre st0)) = Some ch"
  shows "rooted E (pre @ [RouteAsked rnd ev now_unix now work secret relay addr req]) st0 ch
     (OpenRelayWork work secret (rr_credential req) relay addr (sat_add now_unix (of_nat (ro_work_ttl_secs E))))
     (now + ro_work_ttl_secs E)"
  unfolding rooted_def by (rule exI [of _ pre], rule exI [of _ "[]"]) (use assms in blast)

lemma rooted_mono: "rooted E ops st0 ch msg x \<Longrightarrow> rooted E (ops @ ops') st0 ch msg x"
  unfolding rooted_def by (metis append_Cons append_assoc)

definition grants_sound :: "routes_env \<Rightarrow> server_op list \<Rightarrow> server_state \<Rightarrow> server_state \<Rightarrow> bool" where
  "grants_sound E ops st0 st \<longleftrightarrow>
     (\<forall>(i, g) \<in> set (st_grants st). rooted E ops st0 (pg_home g) (pg_open_message g) (pg_expires g)
        \<and> work_of (pg_open_message g) = pg_work_id g \<and> pg_work_id g \<in> set (asked_works ops)
        \<and> pg_work_id g \<notin> set (opened_works st))
     \<and> (\<forall>(ch, m) \<in> set (opened st). (\<exists>x. rooted E ops st0 ch m x) \<and> work_of m \<in> set (asked_works ops))
     \<and> distinct (opened_works st)
     \<and> distinct (map fst (st_grants st)) \<and> distinct (map (pg_work_id \<circ> snd) (st_grants st))
     \<and> length (st_grants st) \<le> ro_max_pending_work E"


text \<open>What the steps that are not about routes leave of the grants and of the opened work.\<close>

definition keeps_grants :: "server_state \<Rightarrow> server_state \<Rightarrow> bool" where
  "keeps_grants st st' \<longleftrightarrow> (\<exists>P. st_grants st' = filter P (st_grants st)) \<and> opened st' = opened st"

lemma keeps_same: "st_grants st' = st_grants st \<Longrightarrow> opened st' = opened st \<Longrightarrow> keeps_grants st st'"
  unfolding keeps_grants_def by (auto intro!: exI [of _ "\<lambda>_. True"])

lemma keepsI: "st_grants st' = st_grants st \<Longrightarrow> st_sent st' = st_sent st \<Longrightarrow> keeps_grants st st'"
  by (rule keeps_same) (simp_all add: opened_def)

lemma keepsI_filter: "st_grants st' = filter P (st_grants st) \<Longrightarrow> st_sent st' = st_sent st \<Longrightarrow> keeps_grants st st'"
  unfolding keeps_grants_def opened_def by auto

lemma opened_append: "List.map_filter f (xs @ ys) = List.map_filter f xs @ List.map_filter f ys"
  by (simp add: List.map_filter_def)

lemma send_quiet:
  assumes "open_of m = None"
  shows "opened (snd (send_control_until q now x m st)) = opened st"
    "st_grants (snd (send_control_until q now x m st)) = st_grants st"
  using assms by (auto simp: send_control_until_def opened_def opened_append List.map_filter_simps
      split: queue_event.splits)

lemma recorded_keeps: "keeps_grants st (snd (enrollment_recorded E i pending home msg st))"
  by (auto simp: enrollment_recorded_def intro: keepsI split: option.splits)

lemma queued_keeps: "keeps_grants st (snd (enrollment_queued E q now_send fid st))"
proof (cases "map_of (st_forwarding st) fid")
  case None
  then show ?thesis
    by (simp add: enrollment_queued_def keepsI)
next
  case (Some fw)
  let ?st1 = "st\<lparr>st_forwarding := AList.delete fid (st_forwarding st)\<rparr>"
  obtain r st2 where q: "send_control_until q now_send (fw_expires fw)
      (ToHome (fw_home fw) (EnrollmentForwarded (fw_message fw))) ?st1 = (r, st2)"
    by (meson surj_pair)
  then have st2: "keeps_grants st st2"
    using send_quiet [of "ToHome (fw_home fw) (EnrollmentForwarded (fw_message fw))" q now_send "fw_expires fw" ?st1]
    by (intro keeps_same) (simp_all add: opened_def)
  then have "keeps_grants st (st2\<lparr>st_enrollments := x\<rparr>)" for x
    by (simp add: keeps_grants_def opened_def)
  with st2 Some q show ?thesis
    by (cases r) (simp_all add: enrollment_queued_def split: option.split)
qed

lemma enrollment_keeps:
  "keeps_grants st (snd (handle_remote_enrollment_submit E rnd ev now_unix now fid relay ch request travel
     session i home json st))"
  "keeps_grants st (snd (handle_bootstrap_enrollment_submit E now fid relay ch pv request travel home token
     json st))"
  "keeps_grants st (snd (handle_remote_enrollment_installed E rnd ev now_unix now fid relay ch request travel
     session i home st))"
proof -
  have k: "keeps_grants st st'" if "authorize_travel E rnd ev now_unix now i travel session None h st = (r, st1)"
    "keeps_grants st1 st'" for h r st1 st'
    using that authorize_travel_frame(1, 3) [OF that(1)] by (simp add: keeps_grants_def opened_def)
  have f: "keeps_grants st1 st2" if "enrollment_recorded E request p home msg st1 = (r, st2)" for r p msg st1 st2
    using recorded_keeps [of st1 E request p home msg] that by simp
  have kf: "keeps_grants st st2" if "authorize_travel E rnd ev now_unix now i travel session None h st = (r, st1)"
    "enrollment_recorded E request p home msg st1 = (r', st2)" for h r r' p st1 st2 msg
    using k [OF that(1)] f [OF that(2)] by simp
  have s: "keeps_grants x x" for x
    by (rule keepsI) simp_all
  show "keeps_grants st (snd (handle_remote_enrollment_submit E rnd ev now_unix now fid relay ch request travel
     session i home json st))"
    unfolding handle_remote_enrollment_submit_def
    by (auto split: prod.splits result.splits if_splits intro: s k kf)
  show "keeps_grants st (snd (handle_bootstrap_enrollment_submit E now fid relay ch pv request travel home token
     json st))"
    unfolding handle_bootstrap_enrollment_submit_def
    by (auto split: prod.splits result.splits if_splits intro: s f)
  show "keeps_grants st (snd (handle_remote_enrollment_installed E rnd ev now_unix now fid relay ch request travel
     session i home st))"
    unfolding handle_remote_enrollment_installed_def
    by (auto split: prod.splits result.splits if_splits intro: s k kf)
qed

lemma answer_keeps:
  "keeps_grants st (snd (complete_remote_enrollment q now now_send home request accepted json err st))"
  "keeps_grants st (snd (complete_remote_enrollment_installed q now now_send home request accepted err' st))"
proof -
  have t: "opened st1 = opened st" "st_grants st1 = st_grants st"
    if "take_enrollment_response home request b now st = (r, st1)" for r st1 b
    using that by (auto simp: take_enrollment_response_def opened_def split: option.splits if_splits)
  note q = send_quiet [where m = "ToRelay c m" for c m, simplified]
  show "keeps_grants st (snd (complete_remote_enrollment q now now_send home request accepted json err st))"
    unfolding complete_remote_enrollment_def
    by (auto simp: Let_def q split: prod.splits result.splits option.splits intro!: keeps_same dest: t)
  show "keeps_grants st (snd (complete_remote_enrollment_installed q now now_send home request accepted err' st))"
    unfolding complete_remote_enrollment_installed_def
    by (auto simp: Let_def q split: prod.splits result.splits option.splits intro!: keeps_same dest: t)
qed

fun about_routes :: "server_op \<Rightarrow> bool" where
  "about_routes (RouteAsked _ _ _ _ _ _ _ _ _) = True"
| "about_routes (WorkReady _ _ _ _ _ _) = True"
| "about_routes _ = False"

lemma other_steps_keep: "\<not> about_routes op \<Longrightarrow> keeps_grants st (server_step E op st)"
proof (cases op)
  case (CredentialRevoked now ev i reason home)
  then show ?thesis
    by (auto simp: revoke_home_credential_def keeps_grants_def opened_def intro: exI [of _ "\<lambda>_. True"]
        split: prod.splits result.splits bool.splits)
next
  case (SessionAsked rnd ev now_unix now i travel session lease)
  obtain r st' where "authorize_travel E rnd ev now_unix now i travel session lease None st = (r, st')"
    by (meson surj_pair)
  then show ?thesis
    using authorize_travel_frame(1, 3) SessionAsked by (auto intro!: keepsI)
qed (auto simp: enrollment_keeps queued_keeps answer_keeps relay_session_ended_def import_home_credential_def clear_home_session_def
    record_authorization_ack_def cleanup_pending_def split: prod.splits option.splits intro: keepsI keepsI_filter)


section \<open>Soundness of the grants\<close>

lemma server_run_snoc: "server_run E (ops @ [op]) st = server_step E op (server_run E ops st)"
  by (simp add: server_run_def)

lemma grants_soundD:
  assumes "grants_sound E ops st0 st"
  shows "(i, g) \<in> set (st_grants st) \<Longrightarrow> rooted E ops st0 (pg_home g) (pg_open_message g) (pg_expires g)"
    "(i, g) \<in> set (st_grants st) \<Longrightarrow> work_of (pg_open_message g) = pg_work_id g \<and> pg_work_id g \<in> set (asked_works ops)
       \<and> pg_work_id g \<notin> set (opened_works st)"
    "(ch, m) \<in> set (opened st) \<Longrightarrow> (\<exists>x. rooted E ops st0 ch m x) \<and> work_of m \<in> set (asked_works ops)"
    "distinct (opened_works st)" "distinct (map fst (st_grants st))"
    "distinct (map (pg_work_id \<circ> snd) (st_grants st))" "length (st_grants st) \<le> ro_max_pending_work E"
  using assms unfolding grants_sound_def by blast+

lemma distinct_map_filter: "distinct (map f xs) \<Longrightarrow> distinct (map f (filter P xs))"
  by (induction xs) auto

lemma sound_keeps:
  assumes s: "grants_sound E ops st0 st" and k: "keeps_grants st st'"
  shows "grants_sound E (ops @ [op]) st0 st'"
proof -
  obtain P where P: "st_grants st' = filter P (st_grants st)" and o: "opened st' = opened st"
    using k by (auto simp: keeps_grants_def)
  have ow: "opened_works st' = opened_works st"
    by (simp add: opened_works_def o)
  note d = grants_soundD [OF s]
  have "length (st_grants st') \<le> ro_max_pending_work E"
    using d(7) unfolding P by (rule order_trans [OF length_filter_le])
  moreover have "distinct (map fst (st_grants st'))" "distinct (map (pg_work_id \<circ> snd) (st_grants st'))"
    using d(5, 6) unfolding P by (simp_all only: distinct_map_filter)
  moreover have "\<forall>(i, g) \<in> set (st_grants st'). rooted E (ops @ [op]) st0 (pg_home g) (pg_open_message g) (pg_expires g)
        \<and> work_of (pg_open_message g) = pg_work_id g \<and> pg_work_id g \<in> set (asked_works (ops @ [op]))
        \<and> pg_work_id g \<notin> set (opened_works st')"
    using d(1) [THEN rooted_mono, of _ _ "[op]"] d(2) unfolding P ow by fastforce
  moreover have "\<forall>(ch, m) \<in> set (opened st'). (\<exists>x. rooted E (ops @ [op]) st0 ch m x)
      \<and> work_of m \<in> set (asked_works (ops @ [op]))"
    using d(3) rooted_mono unfolding o by fastforce
  ultimately show ?thesis
    using d(4) unfolding grants_sound_def ow by blast
qed

lemma sound_asked:
  assumes s: "grants_sound E ops st0 (server_run E ops st0)"
    and op: "op = RouteAsked rnd ev now_unix now work secret relay addr req"
    and f: "distinct (asked_works (ops @ [op]))"
  shows "grants_sound E (ops @ [op]) st0 (server_step E op (server_run E ops st0))"
proof -
  let ?st = "server_run E ops st0"
  obtain r st1 where a: "authorize_travel E rnd ev now_unix now (rr_credential req) (rr_travel req)
      (rr_travel_session req) None (Some (rr_home req)) ?st = (r, st1)"
    by (meson surj_pair)
  note fr = authorize_travel_frame [OF a]
  have k: "keeps_grants ?st st1"
    using fr(1, 3) by (rule keepsI)
  let ?e = "sat_add now_unix (of_nat (ro_work_ttl_secs E))"
  show ?thesis
  proof (cases "server_step E op ?st = st1")
    case True
    then show ?thesis
      using sound_keeps [OF s k] by simp
  next
    case False
    then obtain snap home where ok: "r = Ok snap" and h: "home_sender (rr_home req) (st_homes st1) = Some home"
      and l: "length (st_grants st1) < ro_max_pending_work E"
      using a op by (auto simp: handle_route_request_def Let_def not_le split: result.splits option.splits if_splits)
    let ?g = "\<lparr>pg_relay_id = relay, pg_work_id = work, pg_credential_id = rr_credential req, pg_home = home,
       pg_open_message = OpenRelayWork work secret (rr_credential req) relay addr ?e,
       pg_expires = now + ro_work_ttl_secs E\<rparr>"
    have st': "server_step E op ?st = st1\<lparr>st_grants := AList.update (rr_request req) ?g (st_grants st1)\<rparr>"
      using a ok h l op by (simp add: handle_route_request_def Let_def)
    let ?st' = "server_step E op ?st"
    note d = grants_soundD [OF sound_keeps [OF s k, of op]]
    have o: "opened ?st' = opened st1" and ow: "opened_works ?st' = opened_works st1"
      by (simp_all add: st' opened_def opened_works_def)
    have root: "rooted E (ops @ [op]) st0 home (pg_open_message ?g) (pg_expires ?g)"
      using rootedI [OF authorize_travel_entitled [OF a [unfolded ok]]] h fr(4) op by simp
    have fresh: "work \<notin> set (asked_works ops)"
      using f op by simp
    have w1: "work \<notin> set (opened_works st1)"
      using grants_soundD(3) [OF s] fresh fr(3) by (force simp: opened_def opened_works_def)
    have w2: "work \<notin> (pg_work_id \<circ> snd) ` set (st_grants st1)"
      using grants_soundD(2) [OF s] fresh fr(1) by force
    have len: "length (st_grants ?st') \<le> ro_max_pending_work E"
      using l by (simp add: st' length_update_le)
    have e: "(i, g) = (rr_request req, ?g) \<or> (i, g) \<in> set (st_grants st1)" if "(i, g) \<in> set (st_grants ?st')" for i g
      using that by (auto simp: st' dest!: update_entries)
    have "\<forall>(i, g) \<in> set (st_grants ?st'). rooted E (ops @ [op]) st0 (pg_home g) (pg_open_message g) (pg_expires g)
        \<and> work_of (pg_open_message g) = pg_work_id g \<and> pg_work_id g \<in> set (asked_works (ops @ [op]))
        \<and> pg_work_id g \<notin> set (opened_works ?st')"
    proof (intro ballI)
      fix x
      assume x: "x \<in> set (st_grants ?st')"
      obtain i g where ig: "x = (i, g)" by (cases x)
      from e [OF x [unfolded ig]] show "case x of (i, g) \<Rightarrow> rooted E (ops @ [op]) st0 (pg_home g) (pg_open_message g) (pg_expires g)
        \<and> work_of (pg_open_message g) = pg_work_id g \<and> pg_work_id g \<in> set (asked_works (ops @ [op]))
        \<and> pg_work_id g \<notin> set (opened_works ?st')"
        using root w1 op d(1, 2) unfolding ig ow by auto
    qed
    moreover have "distinct (map (pg_work_id \<circ> snd) (st_grants ?st'))"
      using distinct_update_values [OF d(6), of "?g" "rr_request req"] w2 by (simp add: st')
    moreover have "distinct (map fst (st_grants ?st'))"
      using AList.distinct_update [OF d(5)] by (simp add: st')
    ultimately show ?thesis
      using d(3, 4) len unfolding grants_sound_def o ow by blast
  qed
qed


lemma sound_ready:
  assumes s: "grants_sound E ops st0 st" and op: "op = WorkReady q now now_send relay request work"
  shows "grants_sound E (ops @ [op]) st0 (server_step E op st)"
proof (cases "\<exists>g. map_of (st_grants st) request = Some g \<and> pg_relay_id g = relay \<and> pg_work_id g = work
    \<and> now < pg_expires g")
  case False
  have e: "filter (\<lambda>_. True) (st_grants st) = st_grants st" by simp
  show ?thesis
    using False op by (intro sound_keeps [OF s])
      (auto simp: complete_relay_work_def take_matching_pending_grant_def delete_filter not_le keeps_grants_def opened_def
        intro: exI [of _ "\<lambda>_. True"] split: option.splits if_splits)
next
  case True
  then obtain g where g: "map_of (st_grants st) request = Some g" "pg_relay_id g = relay" "pg_work_id g = work"
    "now < pg_expires g" by blast
  note d = grants_soundD [OF s]
  have m: "(request, g) \<in> set (st_grants st)"
    using g(1) by (rule map_of_SomeD)
  let ?st1 = "st\<lparr>st_grants := filter (\<lambda>(j, g). j \<noteq> request) (st_grants st)\<rparr>"
  have st': "server_step E op st = snd (send_control_until q now_send (pg_expires g)
      (ToHome (pg_home g) (pg_open_message g)) ?st1)"
    using g op by (simp add: complete_relay_work_def take_matching_pending_grant_def delete_filter)
  have s1: "grants_sound E (ops @ [op]) st0 ?st1"
    using s by (rule sound_keeps) (auto intro: keepsI_filter)
  show ?thesis
  proof (cases "now_send < pg_expires g \<and> q = Taken")
    case False
    then have "server_step E op st = ?st1"
      by (auto simp: st' send_control_until_def not_less split: queue_event.splits)
    with s1 show ?thesis by simp
  next
    case True
    note d1 = grants_soundD [OF s1]
    obtain w k c r a x where msg: "pg_open_message g = OpenRelayWork w k c r a x"
      using d(1) [OF m] by (auto simp: rooted_def)
    have w: "w = work"
      using d(2) [OF m] g(3) by (simp add: msg)
    let ?st' = "server_step E op st"
    have f: "st_grants ?st' = st_grants ?st1" "opened ?st' = opened ?st1 @ [(pg_home g, pg_open_message g)]"
      using True by (simp_all add: st' send_control_until_def opened_def opened_append List.map_filter_simps msg)
    have n: "work \<notin> set (opened_works ?st1)"
      using d(2) [OF m] g(3) by (simp add: opened_def opened_works_def)
    have fw: "opened_works ?st' = opened_works ?st1 @ [work]"
      by (simp add: opened_works_def f(2) msg w)
    have "pg_work_id g' \<noteq> work" if "(j, g') \<in> set (st_grants ?st1)" for j g'
    proof
      assume "pg_work_id g' = work"
      moreover have "(j, g') \<in> set (st_grants st)" "j \<noteq> request"
        using that by auto
      ultimately have "(j, g') = (request, g)"
        using d(6) m g(3) by (auto simp: distinct_map dest!: inj_onD [where x = "(j, g')" and y = "(request, g)"])
      with \<open>j \<noteq> request\<close> show False by simp
    qed
    then have "\<forall>(i, h) \<in> set (st_grants ?st1). pg_work_id h \<notin> set (opened_works ?st')"
      using d1(2) by (fastforce simp: fw)
    moreover have "\<forall>(ch, m') \<in> set (opened ?st'). (\<exists>x. rooted E (ops @ [op]) st0 ch m' x)
        \<and> work_of m' \<in> set (asked_works (ops @ [op]))"
      using d1(3) rooted_mono [OF d(1) [OF m]] d(2) [OF m] unfolding f(2) by auto
    moreover have "distinct (opened_works ?st')"
      using d1(4) n by (simp add: fw)
    ultimately show ?thesis
      using d1(1, 2, 5-7) unfolding grants_sound_def f(1) by fastforce
  qed
qed

lemma sound_server_step:
  assumes "grants_sound E ops st0 (server_run E ops st0)" "distinct (asked_works (ops @ [op]))"
  shows "grants_sound E (ops @ [op]) st0 (server_run E (ops @ [op]) st0)"
  unfolding server_run_snoc
  by (cases op) (use assms sound_asked sound_ready sound_keeps [OF assms(1) other_steps_keep] in
      \<open>simp_all del: server_step.simps asked_append\<close>)

lemma sound_server_run:
  "grants_sound E [] st0 st0 \<Longrightarrow> distinct (asked_works ops) \<Longrightarrow> grants_sound E ops st0 (server_run E ops st0)"
proof (induction ops rule: rev_induct)
  case Nil
  then show ?case by (simp add: server_run_def)
next
  case (snoc op ops)
  then have "distinct (asked_works ops)" by simp
  with snoc show ?case
    by (intro sound_server_step) simp_all
qed


section \<open>Forwarded enrollments stay bounded\<close>

lemma enrollments_send [simp]:
  "st_enrollments (snd (send_control_until q now x m st)) = st_enrollments st"
  by (simp add: send_control_until_def split: queue_event.splits)

lemma recorded_bounded:
  assumes "length (st_enrollments st) \<le> ro_max_pending_work E"
  shows "length (st_enrollments (snd (enrollment_recorded E i pending home msg st))) \<le> ro_max_pending_work E"
  using assms length_update_le [of "st_enrollments st" "ro_max_pending_work E" i pending]
  by (auto simp: enrollment_recorded_def not_le split: option.splits)

lemma queued_bounded:
  assumes "length (st_enrollments st) \<le> ro_max_pending_work E"
  shows "length (st_enrollments (snd (enrollment_queued E q now_send fid st))) \<le> ro_max_pending_work E"
proof -
  have q: "st_enrollments st2 = st_enrollments st1" if "send_control_until q now_send x m st1 = (r, st2)" for x m st1 r st2
    using enrollments_send [of q now_send x m st1] that by simp
  show ?thesis
    using assms by (auto simp: enrollment_queued_def dest!: q intro: order_trans [OF length_delete_le]
        split: option.splits prod.splits result.splits)
qed

lemma enrollments_step:
  assumes "length (st_enrollments st) \<le> ro_max_pending_work E"
  shows "length (st_enrollments (server_step E op st)) \<le> ro_max_pending_work E"
proof -
  have a: "length (st_enrollments st1) \<le> ro_max_pending_work E"
    if "authorize_travel E rnd ev now_unix now i travel session lease home st = (r, st1)"
    for rnd ev now_unix now i travel session lease home r st1
    using authorize_travel_frame(2) [OF that] assms by simp
  note a' = a [OF surjective_pairing]
  have f: "length (st_enrollments st2) \<le> ro_max_pending_work E"
    if "enrollment_recorded E i p home msg st1 = (r, st2)"
      "length (st_enrollments st1) \<le> ro_max_pending_work E" for i p home msg r st1 st2
    using recorded_bounded [OF that(2), of i p home msg] that(1) by simp
  have d: "length (AList.delete i (st_enrollments st)) \<le> ro_max_pending_work E" for i
    using length_delete_le assms by (rule order_trans)
  have l: "length (filter P (st_enrollments st)) \<le> ro_max_pending_work E" for P
    using length_filter_le assms by (rule order_trans)
  note defs = handle_route_request_def complete_relay_work_def relay_session_ended_def revoke_home_credential_def
    import_home_credential_def handle_remote_enrollment_submit_def handle_bootstrap_enrollment_submit_def
    handle_remote_enrollment_installed_def complete_remote_enrollment_def take_enrollment_response_def
    complete_remote_enrollment_installed_def clear_home_session_def record_authorization_ack_def cleanup_pending_def
  show ?thesis
    using assms by (cases op) (auto simp: defs Let_def l d a' queued_bounded intro: a f split: prod.splits result.splits option.splits if_splits
        bool.splits dest: a)
qed

lemma enrollments_run:
  "length (st_enrollments st) \<le> ro_max_pending_work E
     \<Longrightarrow> length (st_enrollments (server_run E ops st)) \<le> ro_max_pending_work E"
  unfolding server_run_def by (induction ops arbitrary: st) (simp_all add: enrollments_step)


section \<open>The life of a forwarded enrollment\<close>

text \<open>What an enrollment request asks to have recorded: the channel of the Relay session that it came on, the
  Home that it names, and its stage.\<close>

fun asked_for :: "routes_env \<Rightarrow> server_op \<Rightarrow> (uuid \<times> pending_enrollment) option" where
  "asked_for E (EnrollmentAsked rnd ev now_unix now fid relay ch request travel session i home json) =
     Some (request, \<lparr>pe_forwarding_id = fid, pe_relay_id = relay, pe_travel_id = travel, pe_home_id = home, pe_relay = ch,
       pe_bootstrap = False, pe_installed = False, pe_expires = now + enrollment_lifetime E\<rparr>)"
| "asked_for E (BootstrapAsked now fid relay ch pv request travel home token json) =
     Some (request, \<lparr>pe_forwarding_id = fid, pe_relay_id = relay, pe_travel_id = travel, pe_home_id = home, pe_relay = ch,
       pe_bootstrap = True, pe_installed = False, pe_expires = now + enrollment_lifetime E\<rparr>)"
| "asked_for E (InstallReported rnd ev now_unix now fid relay ch request travel session i home) =
     Some (request, \<lparr>pe_forwarding_id = fid, pe_relay_id = relay, pe_travel_id = travel, pe_home_id = home, pe_relay = ch,
       pe_bootstrap = False, pe_installed = True, pe_expires = now + enrollment_lifetime E\<rparr>)"
| "asked_for E _ = None"

text \<open>What the Relay gets for a waiting request: an answer of its Home, in its stage, that the Relay's queue
  takes before the request expires.\<close>

fun response :: "server_state \<Rightarrow> server_op \<Rightarrow> uuid \<Rightarrow> pending_enrollment \<Rightarrow> relay_message option" where
  "response st (EnrollmentAnswered q now now_send home request accepted json err) i p =
     (if request = i \<and> home = pe_home_id p \<and> \<not> pe_installed p \<and> now < pe_expires p \<and> now_send < pe_expires p \<and> q = Taken
      then Some (if pe_bootstrap p
        then BootstrapEnrollmentResult i accepted json (map re_management_addr (rd_relays (registry_directory (st_directory st)))) err
        else RemoteEnrollmentResult i accepted json err)
      else None)"
| "response st (InstallAnswered q now now_send home request accepted err) i p =
     (if request = i \<and> home = pe_home_id p \<and> pe_installed p \<and> now < pe_expires p \<and> now_send < pe_expires p \<and> q = Taken
      then Some (RemoteEnrollmentInstalledAck i accepted err) else None)"
| "response st _ i p = None"

text \<open>What ends the wait: an answer of the Home in the stage, in time or not, the cleanup after the expiry, or
  that the request itself could not be delivered to the Home.\<close>

fun wait_ended :: "server_state \<Rightarrow> server_op \<Rightarrow> uuid \<Rightarrow> pending_enrollment \<Rightarrow> bool" where
  "wait_ended st (EnrollmentAnswered q now now_send home request accepted json err) i p \<longleftrightarrow>
     request = i \<and> home = pe_home_id p \<and> \<not> pe_installed p"
| "wait_ended st (InstallAnswered q now now_send home request accepted err) i p \<longleftrightarrow>
     request = i \<and> home = pe_home_id p \<and> pe_installed p"
| "wait_ended st (PendingCleaned now) i p \<longleftrightarrow> pe_expires p \<le> now"
| "wait_ended st (EnrollmentQueued q now_send fid) i p \<longleftrightarrow> fid = pe_forwarding_id p
     \<and> (\<exists>fw. map_of (st_forwarding st) fid = Some fw \<and> fw_request fw = i \<and> (q \<noteq> Taken \<or> fw_expires fw \<le> now_send))"
| "wait_ended st _ i p \<longleftrightarrow> False"

fun to_relay :: "sent_message \<Rightarrow> (channel \<times> relay_message) option" where
  "to_relay (ToRelay ch m) = Some (ch, m)"
| "to_relay (ToHome ch m) = None"

definition relay_answers :: "server_state \<Rightarrow> (channel \<times> relay_message) list" where
  "relay_answers st = List.map_filter to_relay (st_sent st)"

lemma relay_answers_send [simp]:
  "relay_answers (snd (send_control_until q now x (ToHome ch m) st)) = relay_answers st"
  "relay_answers (snd (send_control_until q now x (ToRelay ch r) st))
     = relay_answers st @ (if now < x \<and> q = Taken then [(ch, r)] else [])"
  by (auto simp: send_control_until_def relay_answers_def List.map_filter_def not_less split: queue_event.splits)

lemma relay_answers_update [simp]:
  "relay_answers (st\<lparr>st_enrollments := e\<rparr>) = relay_answers st"
  "relay_answers (st\<lparr>st_forwarding := f\<rparr>) = relay_answers st"
  "relay_answers (st\<lparr>st_grants := g\<rparr>) = relay_answers st"
  by (simp_all add: relay_answers_def)

text \<open>How a step treats the waiting requests: \<open>enrollment_effect\<close> says what becomes of each and what the
  Relays get.\<close>

definition enrollment_effect :: "routes_env \<Rightarrow> server_op \<Rightarrow> server_state \<Rightarrow> server_state \<Rightarrow> bool" where
  "enrollment_effect E op st st' \<longleftrightarrow> distinct (map fst (st_enrollments st'))
     \<and> (\<forall>i p. map_of (st_enrollments st) i = Some p
          \<longrightarrow> map_of (st_enrollments st') i = (if wait_ended st op i p then None else Some p))
     \<and> (\<forall>i p. map_of (st_enrollments st) i = None \<and> map_of (st_enrollments st') i = Some p
          \<longrightarrow> asked_for E op = Some (i, p))
     \<and> (\<forall>i p m. map_of (st_enrollments st) i = Some p \<and> response st op i p = Some m
          \<longrightarrow> relay_answers st' = relay_answers st @ [(pe_relay p, m)])
     \<and> (relay_answers st' = relay_answers st \<or> (\<exists>i p m. map_of (st_enrollments st) i = Some p \<and> response st op i p = Some m))"

lemma effect_none:
  assumes "distinct (map fst (st_enrollments st))" "st_enrollments st' = st_enrollments st"
    "relay_answers st' = relay_answers st" "\<And>i p. map_of (st_enrollments st) i = Some p \<Longrightarrow> \<not> wait_ended st op i p"
    "\<And>i p. response st op i p = None"
  shows "enrollment_effect E op st st'"
  using assms by (auto simp: enrollment_effect_def simp del: map_of_eq_Some_iff)

lemma effect_recorded:
  assumes d: "distinct (map fst (st_enrollments st))" and a: "asked_for E op = Some (i, p)"
    and e: "st_enrollments st1 = st_enrollments st" "st_sent st1 = st_sent st"
    and r: "enrollment_recorded E i p home msg st1 = (r, st')"
  shows "enrollment_effect E op st st'"
proof -
  have op: "wait_ended st op = (\<lambda>_ _. False)" "response st op = (\<lambda>_ _. None)"
    using a by (cases op; simp add: fun_eq_iff)+
  have "relay_answers st' = relay_answers st" "st_enrollments st' = st_enrollments st
      \<or> map_of (st_enrollments st) i = None \<and> st_enrollments st' = AList.update i p (st_enrollments st)"
    using r e by (auto simp: enrollment_recorded_def relay_answers_def split: option.splits if_splits)
  with a d show ?thesis
    by (auto simp: enrollment_effect_def op update_conv' intro: distinct_update split: if_splits)
qed

lemma effect_refused:
  assumes "distinct (map fst (st_enrollments st))" "asked_for E op = Some x"
    "st_enrollments st' = st_enrollments st" "st_sent st' = st_sent st"
  shows "enrollment_effect E op st st'"
  using assms(2) by (intro effect_none) (cases op; simp add: assms relay_answers_def)+


lemma effect_asked:
  assumes d: "distinct (map fst (st_enrollments st))" and a: "asked_for E op = Some (i, p)"
    and t: "st_enrollments st1 = st_enrollments st" "st_sent st1 = st_sent st"
    and s: "st' = st1 \<or> (\<exists>home msg r. enrollment_recorded E i p home msg st1 = (r, st'))"
  shows "enrollment_effect E op st st'"
  using s effect_refused [OF d a] effect_recorded [OF d a t] t by blast

lemma effect_enrollment_asked:
  assumes "distinct (map fst (st_enrollments st))"
  shows "op = EnrollmentAsked rnd ev now_unix now fid relay ch request travel session i home json
      \<Longrightarrow> enrollment_effect E op st (server_step E op st)"
    and "op = BootstrapAsked now fid relay ch pv request travel home token json
      \<Longrightarrow> enrollment_effect E op st (server_step E op st)"
    and "op = InstallReported rnd ev now_unix now fid relay ch request travel session i home
      \<Longrightarrow> enrollment_effect E op st (server_step E op st)"
proof -
  obtain r1 st1 where a: "authorize_travel E rnd ev now_unix now i travel session None (Some home) st = (r1, st1)"
    by (meson surj_pair)
  obtain r2 st2 where b: "authorize_travel E rnd ev now_unix now i travel session None None st = (r2, st2)"
    by (meson surj_pair)
  note t = authorize_travel_frame(2, 3)
  show "enrollment_effect E op st (server_step E op st)"
    if "op = EnrollmentAsked rnd ev now_unix now fid relay ch request travel session i home json"
  proof (cases "request = 0 \<or> json = [] \<or> 512 * 1024 < length json")
    case True
    then show ?thesis
      by (intro effect_asked [OF assms, of _ _ request _ st]) (auto simp: that handle_remote_enrollment_submit_def)
  next
    case False
    then show ?thesis
      by (intro effect_asked [OF assms _ t [OF a]])
        (auto simp: that handle_remote_enrollment_submit_def a split: result.splits prod.splits)
  qed
  show "enrollment_effect E op st (server_step E op st)"
    if "op = BootstrapAsked now fid relay ch pv request travel home token json"
    by (intro effect_asked [OF assms, of _ _ request _ st])
      (auto simp: that handle_bootstrap_enrollment_submit_def split: result.splits prod.splits)
  show "enrollment_effect E op st (server_step E op st)"
    if "op = InstallReported rnd ev now_unix now fid relay ch request travel session i home"
  proof (cases "request = 0")
    case True
    then show ?thesis
      by (intro effect_asked [OF assms, of _ _ request _ st]) (auto simp: that handle_remote_enrollment_installed_def)
  next
    case False
    then show ?thesis
      by (intro effect_asked [OF assms _ t [OF b]])
        (auto simp: that handle_remote_enrollment_installed_def b split: result.splits prod.splits)
  qed
qed

lemma distinct_delete: "distinct (map fst xs) \<Longrightarrow> distinct (map fst (AList.delete k xs))"
  by (simp add: distinct_delete)

lemma effect_answered:
  assumes d: "distinct (map fst (st_enrollments st))"
  shows "op = EnrollmentAnswered q now now_send home request accepted json err
      \<Longrightarrow> enrollment_effect E op st (server_step E op st)"
    and "op = InstallAnswered q now now_send home request accepted err
      \<Longrightarrow> enrollment_effect E op st (server_step E op st)"
  using d by (auto simp: enrollment_effect_def complete_remote_enrollment_def complete_remote_enrollment_installed_def
      take_enrollment_response_def Let_def delete_conv' distinct_delete not_le
      simp del: map_of_eq_Some_iff split: option.splits if_splits)

lemma effect_queued:
  assumes d: "distinct (map fst (st_enrollments st))" and op: "op = EnrollmentQueued q now_send fid"
  shows "enrollment_effect E op st (server_step E op st)"
proof (cases "map_of (st_forwarding st) fid")
  case None
  then show ?thesis
    using op by (intro effect_none [OF d]) (auto simp: enrollment_queued_def)
next
  case (Some fw)
  let ?st1 = "st\<lparr>st_forwarding := AList.delete fid (st_forwarding st)\<rparr>"
  obtain r st2 where send: "send_control_until q now_send (fw_expires fw)
      (ToHome (fw_home fw) (EnrollmentForwarded (fw_message fw))) ?st1 = (r, st2)"
    by (meson surj_pair)
  have k: "st_enrollments st2 = st_enrollments st" "relay_answers st2 = relay_answers st"
    using enrollments_send relay_answers_send(1) send by (metis (no_types) relay_answers_update(2) snd_conv
      server_state.select_convs(5) server_state.surjective server_state.update_convs(6))+
  have ok: "r = Ok () \<longleftrightarrow> q = Taken \<and> now_send < fw_expires fw"
    using send by (auto simp: send_control_until_def not_less split: if_splits queue_event.splits)
  have step: "server_step E op st = (case r of Ok _ \<Rightarrow> st2 | Err e \<Rightarrow>
      (case map_of (st_enrollments st2) (fw_request fw) of
         Some p \<Rightarrow> if pe_forwarding_id p = fid
           then st2\<lparr>st_enrollments := AList.delete (fw_request fw) (st_enrollments st2)\<rparr> else st2
       | None \<Rightarrow> st2))"
    by (simp add: op enrollment_queued_def Some send split: result.splits)
  show ?thesis
  proof (cases r)
    case (Ok u)
    then have "q = Taken \<and> now_send < fw_expires fw" using ok by simp
    then show ?thesis
      unfolding step Ok result.case using Some k op by (intro effect_none [OF d]) auto
  next
    case (Err e)
    then have "q \<noteq> Taken \<or> fw_expires fw \<le> now_send" using ok by auto
    then show ?thesis
      unfolding step Err result.case using Some k op d by (auto simp: enrollment_effect_def delete_conv' distinct_delete
          simp del: map_of_eq_Some_iff split: option.splits if_splits)
  qed
qed

lemma effect_cleaned:
  assumes d: "distinct (map fst (st_enrollments st))" and op: "op = PendingCleaned now"
  shows "enrollment_effect E op st (server_step E op st)"
proof -
  have m: "map_of (filter (\<lambda>(i, p). now < pe_expires p) xs) i
      = (case map_of xs i of None \<Rightarrow> None | Some p \<Rightarrow> if now < pe_expires p then Some p else None)"
    if "distinct (map fst xs)" for xs :: "(uuid \<times> pending_enrollment) list" and i
    using that
  proof (induction xs)
    case (Cons x xs)
    have "map_of xs (fst x) = None"
      using Cons.prems by (simp add: map_of_eq_None_iff)
    with Cons show ?case by (cases x) (auto simp del: map_of_eq_Some_iff split: option.splits)
  qed simp
  show ?thesis
    using op d by (auto simp: enrollment_effect_def cleanup_pending_def m relay_answers_def not_less distinct_map_filter
        simp del: map_of_eq_Some_iff split: option.splits if_splits)
qed

lemma enrollment_step:
  assumes d: "distinct (map fst (st_enrollments st))"
  shows "enrollment_effect E op st (server_step E op st)"
proof -
  note quiet = effect_none [OF d]
  show ?thesis
  proof (cases op)
    case (RouteAsked rnd ev now_unix now work secret relay addr req)
    obtain r st1 where a: "authorize_travel E rnd ev now_unix now (rr_credential req) (rr_travel req) (rr_travel_session req)
        None (Some (rr_home req)) st = (r, st1)"
      by (meson surj_pair)
    show ?thesis
      using authorize_travel_frame(2, 3) [OF a] by (intro quiet)
        (auto simp: RouteAsked handle_route_request_def a relay_answers_def Let_def split: result.splits option.splits)
  next
    case (SessionAsked rnd ev now_unix now i travel session lease)
    obtain r st1 where a: "authorize_travel E rnd ev now_unix now i travel session lease None st = (r, st1)"
      by (meson surj_pair)
    show ?thesis
      using authorize_travel_frame(2, 3) [OF a] by (intro quiet) (auto simp: SessionAsked a relay_answers_def)
  next
    case (WorkReady q now now_send relay request work)
    show ?thesis
      by (intro quiet) (auto simp: WorkReady complete_relay_work_def split: result.splits option.splits prod.splits)
  next
    case (CredentialRevoked now ev i reason home)
    show ?thesis
      by (intro quiet) (auto simp: CredentialRevoked revoke_home_credential_def relay_answers_def
          split: result.splits prod.splits bool.splits)
  next
    case EnrollmentAsked
    then show ?thesis by (rule effect_enrollment_asked(1) [OF d])
  next
    case BootstrapAsked
    then show ?thesis by (rule effect_enrollment_asked(2) [OF d])
  next
    case InstallReported
    then show ?thesis by (rule effect_enrollment_asked(3) [OF d])
  next
    case EnrollmentAnswered
    then show ?thesis by (rule effect_answered(1) [OF d])
  next
    case InstallAnswered
    then show ?thesis by (rule effect_answered(2) [OF d])
  next
    case EnrollmentQueued
    then show ?thesis by (rule effect_queued [OF d])
  next
    case PendingCleaned
    then show ?thesis by (rule effect_cleaned [OF d])
  qed (intro quiet; auto simp: relay_session_ended_def import_home_credential_def clear_home_session_def
      record_authorization_ack_def relay_answers_def split: prod.splits option.splits)+
qed


text \<open>A run as its states: before each operation.\<close>

definition state_at :: "routes_env \<Rightarrow> server_op list \<Rightarrow> server_state \<Rightarrow> nat \<Rightarrow> server_state" where
  "state_at E ops st0 k = server_run E (take k ops) st0"

definition entry_at :: "routes_env \<Rightarrow> server_op list \<Rightarrow> server_state \<Rightarrow> nat \<Rightarrow> uuid \<Rightarrow> pending_enrollment option" where
  "entry_at E ops st0 k = map_of (st_enrollments (state_at E ops st0 k))"

text \<open>Since operation \<open>k\<close>, which was accepted when no request of this id was waiting, the request has waited
  unchanged up to operation \<open>l\<close>.\<close>

definition waits_since :: "routes_env \<Rightarrow> server_op list \<Rightarrow> server_state \<Rightarrow> nat \<Rightarrow> nat \<Rightarrow> uuid \<Rightarrow> pending_enrollment \<Rightarrow> bool" where
  "waits_since E ops st0 k l i p \<longleftrightarrow> k < l \<and> l \<le> length ops \<and> asked_for E (ops ! k) = Some (i, p)
     \<and> entry_at E ops st0 k i = None \<and> (\<forall>j. k < j \<and> j \<le> l \<longrightarrow> entry_at E ops st0 j i = Some p)"

lemma state_at_Suc: "l < length ops \<Longrightarrow> state_at E ops st0 (Suc l) = server_step E (ops ! l) (state_at E ops st0 l)"
  by (simp add: state_at_def server_run_def take_Suc_conv_app_nth)

lemma state_at_distinct:
  assumes "st_enrollments st0 = []" and "l \<le> length ops"
  shows "distinct (map fst (st_enrollments (state_at E ops st0 l)))"
  using assms(2)
proof (induction l)
  case 0
  then show ?case by (simp add: state_at_def server_run_def assms(1))
next
  case (Suc l)
  then show ?case
    using enrollment_step [of "state_at E ops st0 l" E "ops ! l"] by (simp add: state_at_Suc enrollment_effect_def)
qed

lemma effect_at:
  assumes "st_enrollments st0 = []" and "l < length ops"
  shows "enrollment_effect E (ops ! l) (state_at E ops st0 l) (state_at E ops st0 (Suc l))"
  using enrollment_step [OF state_at_distinct, OF assms(1)] assms(2) by (simp add: state_at_Suc)

lemma waits_since_some:
  assumes "st_enrollments st0 = []" and "l \<le> length ops" and "entry_at E ops st0 l i = Some p"
  shows "\<exists>k. waits_since E ops st0 k l i p"
  using assms(2, 3)
proof (induction l)
  case 0
  then show ?case by (simp add: entry_at_def state_at_def server_run_def assms(1))
next
  case (Suc l)
  note e = effect_at [OF assms(1), of l ops E, unfolded enrollment_effect_def, folded entry_at_def]
  show ?case
  proof (cases "entry_at E ops st0 l i")
    case None
    with Suc.prems e have "asked_for E (ops ! l) = Some (i, p)" by simp
    with None Suc.prems show ?thesis
      by (intro exI [of _ l]) (auto simp: waits_since_def dest: le_antisym)
  next
    case (Some p')
    with Suc.prems e have "p' = p" by (auto split: if_splits)
    with Some Suc obtain k where "waits_since E ops st0 k l i p" by auto
    with Suc.prems show ?thesis
      by (intro exI [of _ k]) (auto simp: waits_since_def le_Suc_eq)
  qed
qed

lemma response_ends: "response st op i p = Some m \<Longrightarrow> wait_ended st op i p"
  by (cases op) (auto split: if_splits)

lemma unanswered_while_waiting:
  assumes "st_enrollments st0 = []" and "waits_since E ops st0 k l i p" and "k < j" and "j < l"
  shows "response (state_at E ops st0 j) (ops ! j) i p = None"
proof (rule ccontr)
  assume "response (state_at E ops st0 j) (ops ! j) i p \<noteq> None"
  then have w: "wait_ended (state_at E ops st0 j) (ops ! j) i p"
    using response_ends by blast
  have j: "j < length ops" "entry_at E ops st0 j i = Some p" "entry_at E ops st0 (Suc j) i = Some p"
    using assms(2-4) by (simp_all add: waits_since_def)
  show False
    using effect_at [OF assms(1) j(1), of E] j(2, 3) w unfolding enrollment_effect_def entry_at_def by auto
qed


section \<open>Evaluation on a concrete Server\<close>

definition sample_home_catalog :: home_catalog where
  "sample_home_catalog = \<lparr>hc_home_id = ''home-1'', hc_home_alias = ''h'', hc_endpoint_credential = None,
     hc_service_grant = None, hc_services = [\<lparr>svc_id = ''ssh'', svc_alias = ''s'', svc_protocol = Tcp, svc_target = ''t''\<rparr>]\<rparr>"

definition sample_route_request :: route_request_context where
  "sample_route_request = \<lparr>rr_request = 5, rr_travel = ''phone'', rr_travel_session = 7, rr_credential = 11,
     rr_home = ''home-1''\<rparr>"

definition sample_routes_env :: routes_env where
  "sample_routes_env = \<lparr>ro_server = sample_env,
     ro_control = sample_control_env\<lparr>ce_payload_json := \<lparr>to_vec = (\<lambda>_. Some [7]), from_slice = (\<lambda>_. None)\<rparr>\<rparr>,
     ro_work_ttl_secs = 20, ro_max_pending_work = 8, ro_format = (\<lambda>_. ''refused'')\<rparr>"

definition sample_routes_state :: server_state where
  "sample_routes_state = \<lparr>
     st_homes = \<lparr>hr_generation = 1, hr_sessions = [(''home-1'', \<lparr>hs_session_id = 1, hs_tx = 40\<rparr>)],
       hr_catalogs = [(''home-1'', sample_home_catalog)]\<rparr>,
     st_directory = \<lparr>dr_generation = 1, dr_sessions = [(''r1'', \<lparr>rds_session_id = 1,
       rds_endpoint = Some (sample_entry ''r1'' ''a:1'' ''a:2'' CHR ''3'')\<rparr>)]\<rparr>,
     st_travel_sessions = [(''phone'', \<lparr>trs_session_id = 7, trs_leases = [(1, 145)]\<rparr>)],
     st_grants = [], st_enrollments = [], st_forwarding = [], st_authorization = sample_server1, st_acks = [],
     st_signer = sample_signer, st_sent = []\<rparr>"

lemma sample_siblings:
  "sibling_credentials (sample_verified 2 {}) sample_credential ''phone'' 150 = {sample_credential}"
proof -
  have "tc_credential_id sample_credential = 11" "tc_travel_id sample_credential = ''phone''"
    by (simp_all add: sample_credential_def)
  then show ?thesis
    using sample_active(1) [of 2] by (auto simp: sibling_credentials_def sample_verified_def)
qed

lemma sample_travel_catalog:
  "catalog_for_credentials sample_env t 150 (registry_catalog (st_homes sample_routes_state)) {sample_credential}
     = \<lparr>cat_generation = 1, cat_homes = [sample_home_catalog]\<rparr>"
  by (simp add: catalog_for_credentials_def registry_catalog_def sample_routes_state_def List.map_filter_simps
      home_for_credentials_def home_grant_def sample_home_catalog_def service_shown_def allows_home_def
      allows_business_service_def scope_allows_business_service_def sample_credential_def Let_def)

lemma sample_signs:
  "\<exists>snap s. signer_sign sample_crypto (one_json sample_trust) \<lparr>to_vec = (\<lambda>_. Some [7]), from_slice = (\<lambda>_. None)\<rparr>
     (ce_generation_json sample_control_env) [] Stored 150 (registry_directory (st_directory sample_routes_state))
     \<lparr>cat_generation = 1, cat_homes = [sample_home_catalog]\<rparr> ''phone'' (tc_management_spki_sha256 sample_credential)
     sample_signer = (Ok snap, s)"
proof -
  have t: "trust_verify sample_crypto (one_json sample_trust) sample_signed_trust (sample_key 3) 150 = Ok sample_trust"
    by (rule sample_trust_verifies) simp_all
  have k: "server_control_key_of sample_trust ''srv'' 2 = Ok (sample_key 9)"
    by (simp add: server_control_key_of_def sample_trust_def)
  have d: "dt_deployment_id sample_trust = ''dep''"
    by (simp add: sample_trust_def)
  have f: "cs_signed_trust sample_signer = sample_signed_trust" "cs_root_public_key sample_signer = sample_key 3"
    "cs_trust sample_signer = sample_trust" "cs_server_id sample_signer = ''srv''" "cs_signer_epoch sample_signer = 2"
    "cs_key sample_signer = [9]" "cs_ttl_secs sample_signer = 200"
    "\<exists>s. allocate_generation (ce_generation_json sample_control_env) Stored sample_signer = (Ok 5, s)"
    by (simp_all add: sample_signer_def allocate_generation_def sample_control_env_def store_json_atomic_def eval_simps)
  have v: "validate_spki_pin sample_crypto (tc_management_spki_sha256 sample_credential) = Ok ()"
    "validate_relay_directory sample_crypto (registry_directory (st_directory sample_routes_state)) = Ok ()"
    "validate_catalog \<lparr>cat_generation = 1, cat_homes = [sample_home_catalog]\<rparr> = Ok ()"
    by (simp_all add: sample_credential_def digit_val_def validate_relay_directory_def registry_directory_def
        sample_routes_state_def sample_entry_def List.map_filter_simps deployment_consts for_each_fresh_Ok
        validate_catalog_def validate_catalog_home_services_def sample_home_catalog_def)
  obtain s where a: "allocate_generation (ce_generation_json sample_control_env) Stored sample_signer = (Ok 5, s)"
    using f(8) by blast
  show ?thesis
    by (simp add: signer_sign_def f(1-7) a t d control_sign_def control_validate_at_def v k bail_if_def
        deployment_consts eval_simps sample_key_def [of 9, simplified]) (use v(1) in auto)
qed


definition sample_served_ops :: "server_op list" where
  "sample_served_ops = [RouteAsked [] Stored 150 100 88 (replicate 32 2) ''r1'' ''a:2'' sample_route_request,
     WorkReady Taken 101 101 ''r1'' 5 88, WorkReady Taken 102 102 ''r1'' 5 88]"

lemma sample_authorizes:
  "\<exists>snap st. authorize_travel sample_routes_env [] Stored 150 100 11 ''phone'' 7 None (Some ''home-1'') sample_routes_state
     = (Ok snap, st)"
proof -
  have v: "sa_verified (st_authorization sample_routes_state) = sample_verified 2 {}"
    "va_credentials (sample_verified 2 {}) 11 = Some sample_credential" "tc_travel_id sample_credential = ''phone''"
    "allows_home sample_credential ''home-1''"
    by (simp_all add: sample_routes_state_def sample_server1_def sample_server_def sample_verified_def
        sample_credential_def allows_home_def)
  have t: "authorize_session ''phone'' 7 None 100 (st_travel_sessions sample_routes_state)
      = (st_travel_sessions sample_routes_state, Ok ())"
    by (simp add: sample_routes_state_def authorize_session_def prune_sessions_def)
  have same: "sample_routes_state\<lparr>st_travel_sessions := st_travel_sessions sample_routes_state\<rparr> = sample_routes_state"
    by simp
  have e: "ro_server sample_routes_env = sample_env" "ce_crypto (ro_control sample_routes_env) = sample_crypto"
    "ce_trust_json (ro_control sample_routes_env) = one_json sample_trust"
    "ce_payload_json (ro_control sample_routes_env) = \<lparr>to_vec = (\<lambda>_. Some [7]), from_slice = (\<lambda>_. None)\<rparr>"
    "ce_generation_json (ro_control sample_routes_env) = ce_generation_json sample_control_env"
    "st_signer sample_routes_state = sample_signer" "hc_home_id sample_home_catalog = ''home-1''"
    by (simp_all add: sample_routes_env_def sample_control_env_def sample_routes_state_def sample_home_catalog_def)
  obtain snap s where "signer_sign sample_crypto (one_json sample_trust) \<lparr>to_vec = (\<lambda>_. Some [7]), from_slice = (\<lambda>_. None)\<rparr>
     (ce_generation_json sample_control_env) [] Stored 150 (registry_directory (st_directory sample_routes_state))
     \<lparr>cat_generation = 1, cat_homes = [sample_home_catalog]\<rparr> ''phone'' (tc_management_spki_sha256 sample_credential)
     sample_signer = (Ok snap, s)"
    using sample_signs by blast
  then show ?thesis
    by (simp add: authorize_travel_def v sample_siblings t same e sample_travel_catalog Let_def)
qed

lemma sample_served:
  "opened (server_run sample_routes_env sample_served_ops sample_routes_state)
     = [(40, OpenRelayWork 88 (replicate 32 2) 11 ''r1'' ''a:2'' 170)]"
proof -
  obtain snap st1 where a: "authorize_travel sample_routes_env [] Stored 150 100 11 ''phone'' 7 None (Some ''home-1'')
      sample_routes_state = (Ok snap, st1)"
    using sample_authorizes by blast
  have f: "st_grants st1 = []" "st_sent st1 = []" "home_sender ''home-1'' (st_homes st1) = Some 40"
    using authorize_travel_frame [OF a] by (simp_all add: sample_routes_state_def home_sender_def)
  have e: "ro_work_ttl_secs sample_routes_env = 20" "ro_max_pending_work sample_routes_env = 8"
    by (simp_all add: sample_routes_env_def)
  have q: "rr_credential sample_route_request = 11" "rr_travel sample_route_request = ''phone''"
    "rr_travel_session sample_route_request = 7" "rr_home sample_route_request = ''home-1''"
    "rr_request sample_route_request = 5"
    by (simp_all add: sample_route_request_def)
  show ?thesis
    by (simp add: server_run_def sample_served_ops_def handle_route_request_def q a f e complete_relay_work_def
        take_matching_pending_grant_def send_control_until_def opened_def List.map_filter_simps eval_simps)
qed

section \<open>Properties\<close>

text \<open>C7: every order to open a route that the Server hands to a Home goes back to a request that the same
  Relay forwarded while the Travel's session was the one logged in, active credentials of that very
  Travel covered that Home, and the Home showed itself to them: it was registered, its signed
  restriction held if it had one, and one of the credentials was for the whole Home or covered one of
  its services as the restriction assigns them. The order goes to the session the Home had then; an
  order is handed out at most once; and there are never more grants pending than configured. (The
  route is to the Home; which service is used on it is checked by the Home.)\<close>

theorem opened_work_authorized:
  assumes "st_grants st0 = []" and "st_sent st0 = []" and "distinct (asked_works ops)"
    and "st = server_run E ops st0"
  shows "(\<forall>(ch, m) \<in> set (opened st). \<exists>x. rooted E ops st0 ch m x) \<and> distinct (opened_works st)
     \<and> length (st_grants st) \<le> ro_max_pending_work E"
proof -
  have "grants_sound E [] st0 st0"
    using assms(1, 2) by (simp add: grants_sound_def opened_def opened_works_def List.map_filter_simps)
  from grants_soundD [OF sound_server_run [OF this assms(3)]] show ?thesis
    unfolding assms(4) by blast
qed

theorem opened_work_authorized_witness:
  "(\<exists>x. rooted sample_routes_env sample_served_ops sample_routes_state 40
      (OpenRelayWork 88 (replicate 32 2) 11 ''r1'' ''a:2'' 170) x)
   \<and> opened_works (server_run sample_routes_env sample_served_ops sample_routes_state) = [88]"
proof -
  have "st_grants sample_routes_state = []" "st_sent sample_routes_state = []" "distinct (asked_works sample_served_ops)"
    by (simp_all add: sample_routes_state_def sample_served_ops_def)
  from opened_work_authorized [OF this refl, of sample_routes_env] sample_served show ?thesis
    by (simp add: opened_works_def)
qed

text \<open>C27: from a Server with nothing waiting, whatever it handles: a request that waits goes back to one that a
  Relay session sent and that was accepted while none of its id was waiting; its record holds that session's
  channel, the Home it was sent for and its stage, and nothing changes it while it waits. A Relay session is
  passed an enrollment answer only for such a request of its own, which waits no more afterwards, and only
  when the answer comes from the Home it was sent for, in its stage and in time; so a request is answered at
  most once. Every such answer that the Relay's queue takes is passed on. The wait ends only by an answer of
  that Home in that stage, by the cleanup after the expiry, or because the request could not be delivered
  to the Home: an answer of another Home or stage leaves it waiting. There are never more requests
  waiting than configured.\<close>

theorem enrollment_answer_exact:
  assumes "st_enrollments st0 = []" and "l < length ops"
    and "st = state_at E ops st0 l" and "st' = state_at E ops st0 (Suc l)"
  shows "(\<forall>i p. entry_at E ops st0 l i = Some p \<longrightarrow> (\<exists>k. waits_since E ops st0 k l i p)
        \<and> entry_at E ops st0 (Suc l) i = (if wait_ended st (ops ! l) i p then None else Some p))
     \<and> (relay_answers st' = relay_answers st \<or> (\<exists>k i p m. waits_since E ops st0 k l i p
          \<and> response st (ops ! l) i p = Some m \<and> relay_answers st' = relay_answers st @ [(pe_relay p, m)]
          \<and> entry_at E ops st0 (Suc l) i = None))
     \<and> (\<forall>k i p. waits_since E ops st0 k l i p
          \<longrightarrow> (\<forall>m. response st (ops ! l) i p = Some m \<longrightarrow> relay_answers st' = relay_answers st @ [(pe_relay p, m)])
            \<and> (\<forall>j. k < j \<and> j < l \<longrightarrow> response (state_at E ops st0 j) (ops ! j) i p = None))
     \<and> length (st_enrollments st') \<le> ro_max_pending_work E"
proof -
  note e = effect_at [OF assms(1, 2), of E, folded assms(3, 4), unfolded enrollment_effect_def]
  have n: "entry_at E ops st0 l = map_of (st_enrollments st)" "entry_at E ops st0 (Suc l) = map_of (st_enrollments st')"
    by (simp_all add: entry_at_def assms(3, 4))
  have w: "\<exists>k. waits_since E ops st0 k l i p" if "map_of (st_enrollments st) i = Some p" for i p
    using waits_since_some [OF assms(1), of l] assms(2) that n(1) by simp
  have 1: "\<forall>i p. entry_at E ops st0 l i = Some p \<longrightarrow> (\<exists>k. waits_since E ops st0 k l i p)
      \<and> entry_at E ops st0 (Suc l) i = (if wait_ended st (ops ! l) i p then None else Some p)"
    unfolding n using e w by simp
  have 2: "relay_answers st' = relay_answers st \<or> (\<exists>k i p m. waits_since E ops st0 k l i p
      \<and> response st (ops ! l) i p = Some m \<and> relay_answers st' = relay_answers st @ [(pe_relay p, m)]
      \<and> entry_at E ops st0 (Suc l) i = None)"
  proof (cases "relay_answers st' = relay_answers st")
    case False
    with e obtain i p m where r: "map_of (st_enrollments st) i = Some p" "response st (ops ! l) i p = Some m" by blast
    then have "map_of (st_enrollments st') i = None" "relay_answers st' = relay_answers st @ [(pe_relay p, m)]"
      using e response_ends [OF r(2)] by simp_all
    with w [OF r(1)] r(2) n show ?thesis by auto
  qed simp
  have 3: "\<forall>k i p. waits_since E ops st0 k l i p
      \<longrightarrow> (\<forall>m. response st (ops ! l) i p = Some m \<longrightarrow> relay_answers st' = relay_answers st @ [(pe_relay p, m)])
        \<and> (\<forall>j. k < j \<and> j < l \<longrightarrow> response (state_at E ops st0 j) (ops ! j) i p = None)"
  proof (intro allI impI conjI)
    fix k i p m
    assume "waits_since E ops st0 k l i p" and "response st (ops ! l) i p = Some m"
    moreover from this(1) have "map_of (st_enrollments st) i = Some p"
      by (simp add: waits_since_def n(1) [symmetric])
    ultimately show "relay_answers st' = relay_answers st @ [(pe_relay p, m)]"
      using e by simp
  next
    fix k i p j
    assume "waits_since E ops st0 k l i p" and "k < j \<and> j < l"
    then show "response (state_at E ops st0 j) (ops ! j) i p = None"
      using unanswered_while_waiting [OF assms(1)] by blast
  qed
  have "length (st_enrollments st0) \<le> ro_max_pending_work E" by (simp add: assms(1))
  then have "length (st_enrollments st') \<le> ro_max_pending_work E"
    unfolding assms(4) state_at_def by (rule enrollments_run)
  with 1 2 3 show ?thesis by blast
qed

text \<open>A first enrollment is asked for and handed to its Home; another Home's answer changes nothing, the answer
  of its own is passed on.\<close>

definition sample_enrollment_ops :: "server_op list" where
  "sample_enrollment_ops = [BootstrapAsked 100 1 ''r1'' 50 CONTROL_PROTOCOL_VERSION 9 ''phone'' ''home-1'' (replicate 32 4) [8],
     EnrollmentQueued Taken 101 1,
     EnrollmentAnswered Taken 105 105 ''home-2'' 9 True (Some [2]) None,
     EnrollmentAnswered Taken 110 111 ''home-1'' 9 True (Some [1]) None]"

theorem enrollment_answer_exact_witness:
  "entry_at sample_routes_env sample_enrollment_ops sample_routes_state 3 9 \<noteq> None
   \<and> relay_answers (state_at sample_routes_env sample_enrollment_ops sample_routes_state 4)
       = [(50, BootstrapEnrollmentResult 9 True (Some [1]) [''a:1''] None)]
   \<and> entry_at sample_routes_env sample_enrollment_ops sample_routes_state 4 9 = None"
proof -
  let ?E = "sample_routes_env" and ?ops = "sample_enrollment_ops" and ?s = "sample_routes_state"
  define p where "p = \<lparr>pe_forwarding_id = 1, pe_relay_id = ''r1'', pe_travel_id = ''phone'', pe_home_id = ''home-1'',
    pe_relay = 50, pe_bootstrap = True, pe_installed = False, pe_expires = 120\<rparr>"
  have env: "ro_max_pending_work ?E = 8" "enrollment_lifetime ?E = 20"
    by (simp_all add: sample_routes_env_def enrollment_lifetime_def)
  have s: "st_enrollments ?s = []" "st_sent ?s = []" "home_sender ''home-1'' (st_homes ?s) = Some 40"
      "st_forwarding ?s = []"
    by (simp_all add: sample_routes_state_def home_sender_def)
  have st3: "state_at ?E ?ops ?s 3 = ?s\<lparr>st_enrollments := [(9, p)], st_forwarding := [],
      st_sent := [ToHome 40 (EnrollmentForwarded (BootstrapEnrollmentSubmit CONTROL_PROTOCOL_VERSION 9 ''phone'' ''home-1''
        (replicate 32 4) [8]))]\<rparr>"
    by (simp add: state_at_def sample_enrollment_ops_def server_run_def handle_bootstrap_enrollment_submit_def
        enrollment_recorded_def enrollment_queued_def send_control_until_def env s p_def complete_remote_enrollment_def
        take_enrollment_response_def eval_simps numeral_3_eq_3)
  have m: "map re_management_addr (rd_relays (registry_directory (st_directory ?s))) = [''a:1'']"
    by (simp add: sample_routes_state_def registry_directory_def sample_entry_def List.map_filter_simps)
  have e3: "entry_at ?E ?ops ?s 3 9 = Some p" "relay_answers (state_at ?E ?ops ?s 3) = []"
    by (simp_all add: entry_at_def st3 relay_answers_def List.map_filter_simps)
  have op: "?ops ! 3 = EnrollmentAnswered Taken 110 111 ''home-1'' 9 True (Some [1]) None" "3 < length ?ops"
    by (simp_all add: sample_enrollment_ops_def numeral_3_eq_3)
  have r: "response (state_at ?E ?ops ?s 3) (?ops ! 3) 9 p = Some (BootstrapEnrollmentResult 9 True (Some [1]) [''a:1''] None)"
    "wait_ended (state_at ?E ?ops ?s 3) (?ops ! 3) 9 p"
    by (simp_all add: op(1) p_def st3 m)
  note c = enrollment_answer_exact [OF s(1) op(2) refl refl, of ?E]
  from c e3(1) obtain k where "waits_since ?E ?ops ?s k 3 9 p" by blast
  then have "relay_answers (state_at ?E ?ops ?s (Suc 3)) = [(50, BootstrapEnrollmentResult 9 True (Some [1]) [''a:1''] None)]"
    using c r(1) e3(2) by (simp add: p_def)
  moreover have "entry_at ?E ?ops ?s (Suc 3) 9 = None"
    using c e3(1) r(2) by simp
  ultimately show ?thesis
    using e3(1) by (simp add: eval_nat_numeral)
qed

text \<open>Two Relay sessions that advertise the same management address, which the check of an
  advertisement allows, keep the Server from signing any control snapshot for any Travel as long as
  both are registered.\<close>

theorem shared_relay_address_blocks_snapshots:
  assumes "e1 \<in> set (rd_relays (registry_directory r))" and "e2 \<in> set (rd_relays (registry_directory r))"
    and "e1 \<noteq> e2" and "re_management_addr e1 = re_management_addr e2"
  shows "\<not> is_ok (fst (signer_sign C JT JC F rnd ev now (registry_directory r) cat travel_id spki s))"
proof
  assume "is_ok (fst (signer_sign C JT JC F rnd ev now (registry_directory r) cat travel_id spki s))"
  then have "validate_relay_directory C (registry_directory r) = Ok ()"
    by (auto simp: is_ok_iff signer_sign_def control_sign_def control_validate_at_def
        split: result.splits prod.splits if_splits)
  then have "distinct (map re_management_addr (rd_relays (registry_directory r)))"
    by (rule directory_distinct(2))
  then show False
    using assms by (auto simp: distinct_map dest: inj_onD)
qed


theorem shared_relay_address_blocks_snapshots_witness:
  "let r = \<lparr>dr_generation = 3, dr_sessions = [(''r1'', \<lparr>rds_session_id = 1,
         rds_endpoint = Some (sample_entry ''r1'' ''a:1'' ''a:2'' CHR ''1'')\<rparr>), (''r2'', \<lparr>rds_session_id = 2,
         rds_endpoint = Some (sample_entry ''r2'' ''a:1'' ''b:2'' CHR ''2'')\<rparr>)]\<rparr>
   in \<not> is_ok (fst (signer_sign sample_crypto (one_json sample_trust) (one_json sample_payload)
        (ce_generation_json sample_control_env) [] Stored 150 (registry_directory r)
        \<lparr>cat_generation = 1, cat_homes = []\<rparr> ''phone'' (sample_pin CHR ''4'') sample_signer))"
proof -
  let ?r = "\<lparr>dr_generation = 3, dr_sessions = [(''r1'', \<lparr>rds_session_id = 1,
         rds_endpoint = Some (sample_entry ''r1'' ''a:1'' ''a:2'' CHR ''1'')\<rparr>), (''r2'', \<lparr>rds_session_id = 2,
         rds_endpoint = Some (sample_entry ''r2'' ''a:1'' ''b:2'' CHR ''2'')\<rparr>)]\<rparr>"
  have "sample_entry ''r1'' ''a:1'' ''a:2'' CHR ''1'' \<in> set (rd_relays (registry_directory ?r))"
    "sample_entry ''r2'' ''a:1'' ''b:2'' CHR ''2'' \<in> set (rd_relays (registry_directory ?r))"
    by (simp_all add: registry_directory_def List.map_filter_simps)
  from shared_relay_address_blocks_snapshots [OF this] show ?thesis
    unfolding Let_def by (simp add: sample_entry_def)
qed

end
