(* ===== verification/Travel_Control.thy ===== *)
theory Travel_Control
  imports Server_Routes
begin

text \<open>
  Travel's side of the control plane (\<open>flowsplice-travel-core/src/lib.rs\<close>): the durable high-water mark of
  the Server's signed state, the application of a control snapshot, the history of Relays and the
  order in which Travel tries them.
\<close>

section \<open>The high-water mark\<close>

definition CONTROL_TRUST_STATE_OBJECT_TYPE :: string where
  "CONTROL_TRUST_STATE_OBJECT_TYPE = ''flowsplice.travel_control_high_water''"
definition RELAY_HISTORY_VERSION :: u32 where "RELAY_HISTORY_VERSION = 1"

record control_trust_state =
  cts_object_type :: string
  cts_deployment_id :: "string option"
  cts_trust_generation :: u64
  cts_trust_digest_sha256 :: "string option"
  cts_signer_epoch :: u64
  cts_snapshot_generation :: u64
  cts_snapshot_digest_sha256 :: "string option"
  cts_cached_snapshot :: "signed_control_snapshot option"

definition control_trust_state_new :: control_trust_state where
  "control_trust_state_new = \<lparr>cts_object_type = CONTROL_TRUST_STATE_OBJECT_TYPE, cts_deployment_id = None,
     cts_trust_generation = 0, cts_trust_digest_sha256 = None, cts_signer_epoch = 0, cts_snapshot_generation = 0,
     cts_snapshot_digest_sha256 = None, cts_cached_snapshot = None\<rparr>"

definition cts_validate_shape :: "control_trust_state \<Rightarrow> unit res" where
  "cts_validate_shape s =
     rbind (bail_if (cts_object_type s \<noteq> CONTROL_TRUST_STATE_OBJECT_TYPE) (Control StateUnsupported)) (\<lambda>_.
     bail_if (cts_snapshot_generation s = 0 \<and> (cts_signer_epoch s \<noteq> 0 \<or> cts_snapshot_digest_sha256 s \<noteq> None
        \<or> cts_cached_snapshot s \<noteq> None)) (Control StateInconsistent))"

text \<open>The new state and whether it changed.\<close>

definition control_accept :: "control_trust_state \<Rightarrow> verified_control_snapshot \<Rightarrow> (control_trust_state \<times> bool) res" where
  "control_accept s v =
     (let p = vcs_payload v; t = vcs_trust v in
      rbind (cts_validate_shape s) (\<lambda>_.
      rbind (bail_if (case cts_deployment_id s of Some d \<Rightarrow> d \<noteq> dt_deployment_id t | None \<Rightarrow> False) (Control ForeignDeployment)) (\<lambda>_.
      rbind (bail_if (dt_generation t < cts_trust_generation s) (Control TrustRollback)) (\<lambda>_.
      rbind (bail_if (dt_generation t = cts_trust_generation s \<and> cts_trust_digest_sha256 s \<noteq> None
          \<and> cts_trust_digest_sha256 s \<noteq> Some (vcs_trust_digest_sha256 v)) (Control TrustConflict)) (\<lambda>_.
      rbind (bail_if (csp_signer_epoch p < cts_signer_epoch s) (Control SignerRollback)) (\<lambda>_.
      if csp_signer_epoch p = cts_signer_epoch s \<and> csp_generation p < cts_snapshot_generation s then Ok (s, False)
      else if csp_signer_epoch p = cts_signer_epoch s \<and> csp_generation p = cts_snapshot_generation s
      then (if cts_snapshot_digest_sha256 s \<noteq> Some (vcs_digest_sha256 v) then Err (Control SnapshotConflict)
            else Ok (s, False))
      else Ok (s\<lparr>cts_deployment_id := Some (dt_deployment_id t), cts_trust_generation := dt_generation t,
                 cts_trust_digest_sha256 := Some (vcs_trust_digest_sha256 v), cts_signer_epoch := csp_signer_epoch p,
                 cts_snapshot_generation := csp_generation p,
                 cts_snapshot_digest_sha256 := Some (vcs_digest_sha256 v)\<rparr>, True)))))))"

section \<open>Relay history\<close>

record relay_history_record =
  rh_version :: u32
  rh_deployment_id :: string
  rh_relay_id :: string
  rh_management_addr :: string
  rh_management_spki_sha256 :: string
  rh_first_seen_unix_secs :: u64
  rh_last_seen_unix_secs :: u64
  rh_last_directory_generation :: u64
  rh_last_success_unix_secs :: "u64 option"
  rh_last_failure_unix_secs :: "u64 option"
  rh_consecutive_failures :: u32
  rh_current_member :: bool
  rh_operator_disabled :: bool

definition history_record :: "verified_control_snapshot \<Rightarrow> u64 \<Rightarrow> relay_endpoint \<Rightarrow> relay_history_record" where
  "history_record v now e = \<lparr>rh_version = RELAY_HISTORY_VERSION, rh_deployment_id = dt_deployment_id (vcs_trust v),
     rh_relay_id = re_id e, rh_management_addr = re_management_addr e,
     rh_management_spki_sha256 = re_management_spki_sha256 e, rh_first_seen_unix_secs = now,
     rh_last_seen_unix_secs = now,
     rh_last_directory_generation = rd_generation (csp_relay_directory (vcs_payload v)),
     rh_last_success_unix_secs = None, rh_last_failure_unix_secs = None, rh_consecutive_failures = 0,
     rh_current_member = True, rh_operator_disabled = False\<rparr>"

definition relay_history_records :: "verified_control_snapshot \<Rightarrow> u64 \<Rightarrow> relay_history_record list" where
  "relay_history_records v now = map (history_record v now) (rd_relays (csp_relay_directory (vcs_payload v)))"

text \<open>\<open>iter_mut().find\<close>: the first record that fits is changed.\<close>

fun update_first :: "('a \<Rightarrow> bool) \<Rightarrow> ('a \<Rightarrow> 'a) \<Rightarrow> 'a list \<Rightarrow> 'a list option" where
  "update_first p f [] = None"
| "update_first p f (x # xs) = (if p x then Some (f x # xs) else map_option ((#) x) (update_first p f xs))"

definition merge_endpoint :: "verified_control_snapshot \<Rightarrow> u64 \<Rightarrow> relay_history_record list \<Rightarrow> relay_endpoint
    \<Rightarrow> relay_history_record list" where
  "merge_endpoint v now history e =
     (case update_first (\<lambda>r. rh_relay_id r = re_id e)
         (\<lambda>r. r\<lparr>rh_management_addr := re_management_addr e,
                 rh_management_spki_sha256 := re_management_spki_sha256 e, rh_last_seen_unix_secs := now,
                 rh_last_directory_generation := rd_generation (csp_relay_directory (vcs_payload v)),
                 rh_current_member := True, rh_operator_disabled := False\<rparr>) history of
        Some history' \<Rightarrow> history'
      | None \<Rightarrow> history @ [history_record v now e])"

definition merge_history :: "verified_control_snapshot \<Rightarrow> u64 \<Rightarrow> relay_history_record list \<Rightarrow> relay_history_record list" where
  "merge_history v now history =
     foldl (merge_endpoint v now) (map (\<lambda>r. r\<lparr>rh_current_member := False\<rparr>) history)
       (rd_relays (csp_relay_directory (vcs_payload v)))"

text \<open>\<open>rsplit_once\<close> and the standard parser of a \<open>u16\<close>: an optional plus sign, digits, no overflow.\<close>

definition rsplit_once :: "char \<Rightarrow> string \<Rightarrow> (string \<times> string) option" where
  "rsplit_once c str = (if c \<in> set str
     then Some (rev (tl (dropWhile (\<lambda>x. x \<noteq> c) (rev str))), rev (takeWhile (\<lambda>x. x \<noteq> c) (rev str))) else None)"

definition parse_u16 :: "string \<Rightarrow> nat option" where
  "parse_u16 str = (let ds = (case str of CHR ''+'' # r \<Rightarrow> r | _ \<Rightarrow> str);
       n = foldl (\<lambda>n c. 10 * n + (of_char c - 48)) (0 :: nat) ds in
     if ds = [] \<or> \<not> list_all is_ascii_digit ds \<or> 65535 < n then None else Some n)"

definition valid_relay_history_record :: "string \<Rightarrow> relay_history_record \<Rightarrow> bool" where
  "valid_relay_history_record key r \<longleftrightarrow>
     rh_version r = RELAY_HISTORY_VERSION \<and> key = rh_relay_id r \<and> rh_deployment_id r \<noteq> [] \<and> rh_relay_id r \<noteq> []
     \<and> (case rsplit_once CHR '':'' (rh_management_addr r) of
          Some (host, port) \<Rightarrow> host \<noteq> [] \<and> (case parse_u16 port of Some n \<Rightarrow> 0 < n | None \<Rightarrow> False) | None \<Rightarrow> False)
     \<and> length (rh_management_spki_sha256 r) = 64 \<and> list_all is_ascii_hexdigit (rh_management_spki_sha256 r)
     \<and> rh_first_seen_unix_secs r \<le> rh_last_seen_unix_secs r \<and> 0 < rh_last_directory_generation r"

definition address_conflict :: "relay_history_record list \<Rightarrow> string \<Rightarrow> bool" where
  "address_conflict records a \<longleftrightarrow> list_ex (\<lambda>r. list_ex (\<lambda>r'. rh_management_addr r = a \<and> rh_management_addr r' = a
     \<and> (rh_relay_id r, rh_management_spki_sha256 r) \<noteq> (rh_relay_id r', rh_management_spki_sha256 r')) records) records"

text \<open>The rows of the table in key order; a row whose value does not decode is None.\<close>

definition load_relay_history :: "(string \<times> relay_history_record option) list \<Rightarrow> relay_history_record list" where
  "load_relay_history rows =
     (let records = List.map_filter (\<lambda>(key, value). case value of
            Some r \<Rightarrow> if valid_relay_history_record key r then Some r else None | None \<Rightarrow> None)
          (sort_key fst rows)
      in filter (\<lambda>r. \<not> address_conflict records (rh_management_addr r)) records)"

definition record_relay_success :: "string \<Rightarrow> u64 \<Rightarrow> relay_history_record list
    \<Rightarrow> relay_history_record list \<times> relay_history_record option" where
  "record_relay_success relay_id now history =
     (case List.find (\<lambda>r. rh_relay_id r = relay_id) history of
        None \<Rightarrow> (history, None)
      | Some r \<Rightarrow>
          let persist = 0 < rh_consecutive_failures r
                \<or> (case rh_last_success_unix_secs r of None \<Rightarrow> True | Some t \<Rightarrow> 300 \<le> sat_sub now t);
              r' = r\<lparr>rh_last_success_unix_secs := Some now, rh_consecutive_failures := 0\<rparr>
          in (case update_first (\<lambda>r. rh_relay_id r = relay_id) (\<lambda>_. r') history of
                Some h \<Rightarrow> h | None \<Rightarrow> history, if persist then Some r' else None))"

definition is_power_of_two :: "u32 \<Rightarrow> bool" where
  "is_power_of_two n \<longleftrightarrow> list_ex (\<lambda>k. n = push_bit k 1) [0..<32]"

definition should_persist_relay_failure :: "u32 \<Rightarrow> u64 option \<Rightarrow> u64 \<Rightarrow> bool" where
  "should_persist_relay_failure failures previous now \<longleftrightarrow> is_power_of_two failures
     \<or> (case previous of None \<Rightarrow> True | Some t \<Rightarrow> 60 \<le> sat_sub now t)"

record relay_candidate =
  rcd_expected_id :: "string option"
  rcd_management_addr :: string
  rcd_management_spki_sha256 :: "string option"

definition record_relay_failure :: "relay_candidate \<Rightarrow> u64 \<Rightarrow> relay_history_record list
    \<Rightarrow> relay_history_record list \<times> relay_history_record option" where
  "record_relay_failure relay now history =
     (let fits = (\<lambda>r. case rcd_expected_id relay of
            None \<Rightarrow> rh_management_addr r = rcd_management_addr relay | Some i \<Rightarrow> rh_relay_id r = i) in
      case List.find fits history of
        None \<Rightarrow> (history, None)
      | Some r \<Rightarrow>
          let r' = r\<lparr>rh_last_failure_unix_secs := Some now,
                     rh_consecutive_failures := sat_add (rh_consecutive_failures r) 1\<rparr>
          in (case update_first fits (\<lambda>_. r') history of Some h \<Rightarrow> h | None \<Rightarrow> history,
              if should_persist_relay_failure (rh_consecutive_failures r') (rh_last_failure_unix_secs r) now
              then Some r' else None))"

section \<open>Candidates\<close>

record relay_address_override =
  rao_id :: string
  rao_management_addr :: string
  rao_data_addr :: string
  rao_bootstrap_hint :: bool

definition relay_data_addresses :: "string \<Rightarrow> string \<Rightarrow> relay_address_override list \<Rightarrow> string list" where
  "relay_data_addresses relay_id address overrides =
     (case List.find (\<lambda>ov. rao_id ov = relay_id) overrides of
        None \<Rightarrow> [address]
      | Some ov \<Rightarrow> if rao_data_addr ov = address then [address]
          else if rao_bootstrap_hint ov then [address, rao_data_addr ov] else [rao_data_addr ov, address])"

definition relay_management_candidates :: "string \<Rightarrow> string \<Rightarrow> string \<Rightarrow> relay_address_override list
    \<Rightarrow> relay_candidate list" where
  "relay_management_candidates i address pin overrides =
     (let c = \<lparr>rcd_expected_id = Some i, rcd_management_addr = address, rcd_management_spki_sha256 = Some pin\<rparr> in
      case List.find (\<lambda>ov. rao_id ov = i) overrides of
        None \<Rightarrow> [c]
      | Some ov \<Rightarrow> if rao_management_addr ov = address then [c]
          else let c' = c\<lparr>rcd_management_addr := rao_management_addr ov\<rparr>
               in if rao_bootstrap_hint ov then [c, c'] else [c', c])"

definition signed_directory_candidates :: "relay_directory \<Rightarrow> relay_address_override list \<Rightarrow> relay_candidate list" where
  "signed_directory_candidates d overrides = concat (map (\<lambda>e.
     relay_management_candidates (re_id e) (re_management_addr e) (re_management_spki_sha256 e) overrides) (rd_relays d))"

text \<open>Members of the current directory first, then the more recent success, then the more recent sight;
  \<open>sort_by\<close> is stable. The keys are reversed so that larger values come first.\<close>

definition history_rank :: "relay_history_record \<Rightarrow> nat \<times> nat \<times> nat" where
  "history_rank r = (if rh_current_member r then 0 else 1,
     (case rh_last_success_unix_secs r of None \<Rightarrow> 2 ^ 64 | Some t \<Rightarrow> 2 ^ 64 - 1 - unat t),
     2 ^ 64 - 1 - unat (rh_last_seen_unix_secs r))"

fun dedup :: "(string option \<times> string) set \<Rightarrow> relay_candidate list \<Rightarrow> relay_candidate list" where
  "dedup seen [] = []"
| "dedup seen (c # cs) = (let k = (rcd_expected_id c, rcd_management_addr c) in
     if k \<in> seen then dedup seen cs else c # dedup (insert k seen) cs)"

definition bootstrap_candidate_pool :: "relay_directory \<Rightarrow> string \<Rightarrow> relay_history_record list \<Rightarrow> string list
    \<Rightarrow> relay_address_override list \<Rightarrow> relay_candidate list" where
  "bootstrap_candidate_pool d deployment_id history seeds overrides =
     (let current = re_id ` set (rd_relays d);
          past = filter (\<lambda>r. rh_deployment_id r = deployment_id \<and> \<not> rh_operator_disabled r
                    \<and> rh_relay_id r \<notin> current) (sort_key history_rank history)
      in dedup {} (signed_directory_candidates d overrides
           @ concat (map (\<lambda>r. relay_management_candidates (rh_relay_id r) (rh_management_addr r)
               (rh_management_spki_sha256 r) overrides) past)
           @ map (\<lambda>a. \<lparr>rcd_expected_id = None, rcd_management_addr = a, rcd_management_spki_sha256 = None\<rparr>) seeds))"

section \<open>Applying a control snapshot\<close>

definition require_control_snapshot_subject :: "verified_control_snapshot \<Rightarrow> string \<Rightarrow> string \<Rightarrow> unit res" where
  "require_control_snapshot_subject v travel_id spki =
     bail_if (csp_travel_id (vcs_payload v) \<noteq> travel_id
       \<or> \<not> eq_ignore_ascii_case (csp_travel_management_spki_sha256 (vcs_payload v)) spki) (Control OtherSubject)"

definition configured_homes_are_trusted :: "crypto \<Rightarrow> home_endpoint_credential json \<Rightarrow> string list
    \<Rightarrow> deployment_trust \<Rightarrow> catalog \<Rightarrow> u64 \<Rightarrow> unit res" where
  "configured_homes_are_trusted C JE homes t cat now = for_each (\<lambda>home.
     rbind (resolve_home_endpoint C JE t home
       (case List.find (\<lambda>h. hc_home_id h = home) (cat_homes cat) of
          None \<Rightarrow> None | Some h \<Rightarrow> hc_endpoint_credential h) now) (\<lambda>_. Ok ())) homes"

definition require_authenticated_relay_in_snapshot :: "verified_control_snapshot \<Rightarrow> string \<Rightarrow> string \<Rightarrow> unit res" where
  "require_authenticated_relay_in_snapshot v relay_id spki =
     rbind (ok_or (List.find (\<lambda>e. re_id e = relay_id) (rd_relays (csp_relay_directory (vcs_payload v))))
       (Control RelayAbsent)) (\<lambda>e.
     bail_if (\<not> eq_ignore_ascii_case (re_management_spki_sha256 e) spki) (Control RelaySpkiConflict))"

record travel_env =
  tn_crypto :: crypto
  tn_trust_json :: "deployment_trust json"
  tn_payload_json :: "control_snapshot_payload json"
  tn_endpoint_json :: "home_endpoint_credential json"
  tn_root_public_key :: string
  tn_id :: string
  tn_management_spki :: string
  tn_homes :: "string list"

text \<open>The embedded database: the mark, the rows of the Relay history by key, and the digest of a migrated
  legacy file. A batch is one transaction; a commit that reports an error may or may not have reached the disk.\<close>

record travel_store =
  ts_state :: "control_trust_state option"
  ts_history :: "(string \<times> relay_history_record option) list"
  ts_legacy_digest :: "string option"

definition put_history :: "relay_history_record list \<Rightarrow> travel_store \<Rightarrow> travel_store" where
  "put_history records st = st\<lparr>ts_history :=
     foldl (\<lambda>rows r. AList.update (rh_relay_id r) (Some r) rows) (ts_history st) records\<rparr>"

definition apply_immediate :: "store_event \<Rightarrow> 'a \<Rightarrow> 'a \<Rightarrow> unit res \<times> 'a" where
  "apply_immediate ev v old =
     (case ev of Stored \<Rightarrow> (Ok (), v) | StoreFails k written \<Rightarrow> (Err (Io k), if written then v else old))"

text \<open>The shared values are replaced one lock at a time after the mark's lock is released: a snapshot
  that was accepted still has these writes before it.\<close>

datatype shared_write = WriteTrust deployment_trust | WriteDirectory relay_directory | WriteCatalog catalog

record travel_control =
  tv_running :: bool
  tv_trust_state :: control_trust_state
  tv_history :: "relay_history_record list"
  tv_trust :: deployment_trust
  tv_directory :: relay_directory
  tv_catalog :: catalog
  tv_in_flight :: "shared_write list list"
  tv_store :: travel_store
  tv_legacy :: "bytes option"

definition snapshot_writes :: "verified_control_snapshot \<Rightarrow> shared_write list" where
  "snapshot_writes v = [WriteTrust (vcs_trust v), WriteDirectory (csp_relay_directory (vcs_payload v)),
     WriteCatalog (csp_catalog (vcs_payload v))]"

definition shared_write :: "shared_write \<Rightarrow> travel_control \<Rightarrow> travel_control" where
  "shared_write w tv = (case w of WriteTrust t \<Rightarrow> tv\<lparr>tv_trust := t\<rparr> | WriteDirectory d \<Rightarrow> tv\<lparr>tv_directory := d\<rparr>
     | WriteCatalog c \<Rightarrow> tv\<lparr>tv_catalog := c\<rparr>)"

definition check_control_snapshot :: "travel_env \<Rightarrow> signed_control_snapshot \<Rightarrow> string \<Rightarrow> string \<Rightarrow> u64
    \<Rightarrow> verified_control_snapshot res" where
  "check_control_snapshot E snapshot relay_id relay_spki now =
     rbind (control_verify (tn_crypto E) (tn_trust_json E) (tn_payload_json E) snapshot
        (tn_root_public_key E) now) (\<lambda>v.
     rbind (require_control_snapshot_subject v (tn_id E) (tn_management_spki E)) (\<lambda>_.
     rbind (configured_homes_are_trusted (tn_crypto E) (tn_endpoint_json E) (tn_homes E) (vcs_trust v)
        (csp_catalog (vcs_payload v)) now) (\<lambda>_.
     rbind (require_authenticated_relay_in_snapshot v relay_id relay_spki) (\<lambda>_. Ok v))))"

text \<open>The section under the mark's lock, for a snapshot that passed the checks. The writes of an accepted
  snapshot are left to the caller.\<close>

definition accept_control_snapshot :: "travel_env \<Rightarrow> store_event \<Rightarrow> signed_control_snapshot \<Rightarrow> string \<Rightarrow> string
    \<Rightarrow> u64 \<Rightarrow> travel_control \<Rightarrow> shared_write list res \<times> travel_control" where
  "accept_control_snapshot E ev snapshot relay_id relay_spki now tv =
     (case rbind (check_control_snapshot E snapshot relay_id relay_spki now) (\<lambda>v.
           rbind (control_accept (tv_trust_state tv) v) (\<lambda>(s, changed). Ok (v, s, changed))) of
        Err e \<Rightarrow> (Err e, tv)
      | Ok (v, s, False) \<Rightarrow> (Ok [], tv)
      | Ok (v, s, True) \<Rightarrow>
          let proposed = s\<lparr>cts_cached_snapshot := Some snapshot\<rparr>;
              history = merge_history v now (tv_history tv)
          in (case apply_immediate ev (put_history history ((tv_store tv)\<lparr>ts_state := Some proposed\<rparr>)) (tv_store tv) of
                (Err e, store) \<Rightarrow> (Err e, tv\<lparr>tv_store := store\<rparr>)
              | (Ok _, store) \<Rightarrow>
                  (Ok (snapshot_writes v), tv\<lparr>tv_store := store, tv_trust_state := proposed, tv_history := history\<rparr>)))"

text \<open>The whole call, when nothing else runs between its sections.\<close>

definition apply_control_snapshot :: "travel_env \<Rightarrow> store_event \<Rightarrow> signed_control_snapshot \<Rightarrow> string \<Rightarrow> string
    \<Rightarrow> u64 \<Rightarrow> travel_control \<Rightarrow> unit res \<times> travel_control" where
  "apply_control_snapshot E ev snapshot relay_id relay_spki now tv =
     (case accept_control_snapshot E ev snapshot relay_id relay_spki now tv of
        (Err e, tv') \<Rightarrow> (Err e, tv')
      | (Ok ws, tv') \<Rightarrow> (Ok (), fold shared_write ws tv'))"

section \<open>Startup\<close>

definition snapshot_matches_high_water :: "control_trust_state \<Rightarrow> verified_control_snapshot \<Rightarrow> bool" where
  "snapshot_matches_high_water s v \<longleftrightarrow> dt_generation (vcs_trust v) = cts_trust_generation s
     \<and> vcs_trust_digest_sha256 v = (case cts_trust_digest_sha256 s of None \<Rightarrow> [] | Some d \<Rightarrow> d)
     \<and> csp_signer_epoch (vcs_payload v) = cts_signer_epoch s \<and> csp_generation (vcs_payload v) = cts_snapshot_generation s
     \<and> vcs_digest_sha256 v = (case cts_snapshot_digest_sha256 s of None \<Rightarrow> [] | Some d \<Rightarrow> d)"

definition usable_snapshot :: "travel_env \<Rightarrow> control_trust_state \<Rightarrow> verified_control_snapshot res
    \<Rightarrow> verified_control_snapshot option" where
  "usable_snapshot E s r = (case r of
       Ok v \<Rightarrow> if require_control_snapshot_subject v (tn_id E) (tn_management_spki E) = Ok ()
               \<and> snapshot_matches_high_water s v then Some v else None
     | Err e \<Rightarrow> None)"

text \<open>The state to start from: the stored one, the legacy file's, or a new one; then the installed trust.\<close>

definition initial_trust_state :: "(bytes \<Rightarrow> control_trust_state option) \<Rightarrow> deployment_trust \<Rightarrow> string \<Rightarrow> bytes option
    \<Rightarrow> travel_store \<Rightarrow> control_trust_state res" where
  "initial_trust_state parse trust trust_digest legacy store =
     rbind (case ts_state store of Some s \<Rightarrow> Ok s
        | None \<Rightarrow> (case legacy of Some b \<Rightarrow> ok_or (parse b) (Io InvalidData) | None \<Rightarrow> Ok control_trust_state_new)) (\<lambda>s.
     rbind (cts_validate_shape s) (\<lambda>_.
     rbind (bail_if (case cts_deployment_id s of Some d \<Rightarrow> d \<noteq> dt_deployment_id trust | None \<Rightarrow> False) (Control ForeignDeployment)) (\<lambda>_.
     rbind (bail_if (dt_generation trust = cts_trust_generation s \<and> cts_trust_digest_sha256 s \<noteq> None
         \<and> cts_trust_digest_sha256 s \<noteq> Some trust_digest) (Control TrustConflict)) (\<lambda>_.
     Ok (if cts_trust_generation s < dt_generation trust \<or> cts_deployment_id s = None
         then s\<lparr>cts_deployment_id := Some (dt_deployment_id trust), cts_trust_generation := dt_generation trust,
                cts_trust_digest_sha256 := Some trust_digest\<rparr>
         else s)))))"

text \<open>What the start decides before it writes: the state, the trust in use, the cached snapshot when it is
  still usable, and the one of a legacy file that was usable when it was issued.\<close>

definition select_initial_state :: "travel_env \<Rightarrow> (bytes \<Rightarrow> control_trust_state option) \<Rightarrow> signed_deployment_trust \<Rightarrow> u64
    \<Rightarrow> bytes option \<Rightarrow> travel_store \<Rightarrow> (control_trust_state \<times> deployment_trust
         \<times> verified_control_snapshot option \<times> verified_control_snapshot option) res" where
  "select_initial_state E parse installed now legacy store =
     (let C = tn_crypto E; JT = tn_trust_json E; JC = tn_payload_json E; root = tn_root_public_key E in
      rbind (trust_verify C JT installed root now) (\<lambda>trust.
      rbind (trust_payload_digest C installed) (\<lambda>trust_digest.
      rbind (initial_trust_state parse trust trust_digest legacy store) (\<lambda>s.
      let cached = (case cts_cached_snapshot s of None \<Rightarrow> None
            | Some sn \<Rightarrow> usable_snapshot E s (control_verify C JT JC sn root now));
          historical = (case cts_cached_snapshot s of None \<Rightarrow> None
            | Some sn \<Rightarrow> if ts_state store = None \<and> legacy \<noteq> None
                then usable_snapshot E s (verify_at_issuance_for_migration C JT JC sn root) else None);
          runtime = (case cached of None \<Rightarrow> trust | Some v \<Rightarrow> vcs_trust v)
      in rbind (case cached of None \<Rightarrow> Ok () | Some v \<Rightarrow>
           configured_homes_are_trusted C (tn_endpoint_json E) (tn_homes E) runtime (csp_catalog (vcs_payload v)) now) (\<lambda>_.
         Ok (s, runtime, cached, historical))))))"

text \<open>The result, the database and what is left of the legacy file. A commit that succeeds reads back what
  it wrote; \<open>removed\<close> is the outcome of deleting the legacy file.\<close>

definition load_initial_control_trust_state :: "travel_env \<Rightarrow> (bytes \<Rightarrow> control_trust_state option) \<Rightarrow> store_event
    \<Rightarrow> io_kind option \<Rightarrow> signed_deployment_trust \<Rightarrow> u64 \<Rightarrow> bytes option \<Rightarrow> travel_store
    \<Rightarrow> (control_trust_state \<times> deployment_trust \<times> verified_control_snapshot option) res \<times> travel_store \<times> bytes option" where
  "load_initial_control_trust_state E parse ev removed installed now legacy store =
     (case select_initial_state E parse installed now legacy store of
        Err e \<Rightarrow> (Err e, store, legacy)
      | Ok (s, runtime, cached, historical) \<Rightarrow>
          let digest = map_option (\<lambda>b. hex_encode (tn_crypto E) (sha256_digest (tn_crypto E) b)) legacy;
              rows = (case cached of Some v \<Rightarrow> relay_history_records v now
                | None \<Rightarrow> (case historical of Some v \<Rightarrow> relay_history_records v now | None \<Rightarrow> []));
              recorded = (if ts_state store = None \<and> legacy \<noteq> None then digest else ts_legacy_digest store);
              batch = (put_history rows (store\<lparr>ts_state := Some s\<rparr>))\<lparr>ts_legacy_digest := recorded\<rparr>
          in (case apply_immediate ev batch store of
                (Err e, store') \<Rightarrow> (Err e, store', legacy)
              | (Ok _, store') \<Rightarrow>
                  if legacy \<noteq> None \<and> recorded = digest
                  then (case removed of Some k \<Rightarrow> (Err (Io k), store', legacy)
                        | None \<Rightarrow> (Ok (s, runtime, cached), store', None))
                  else (Ok (s, runtime, cached), store', legacy)))"

text \<open>The part of \<open>load_app_state\<close> that concerns the control plane. A start that fails leaves no process.\<close>

definition relay_directory_default :: relay_directory where
  "relay_directory_default = \<lparr>rd_generation = 0, rd_relays = []\<rparr>"
definition catalog_default :: catalog where
  "catalog_default = \<lparr>cat_generation = 0, cat_homes = []\<rparr>"

definition travel_start :: "travel_env \<Rightarrow> (bytes \<Rightarrow> control_trust_state option) \<Rightarrow> store_event \<Rightarrow> io_kind option
    \<Rightarrow> signed_deployment_trust \<Rightarrow> u64 \<Rightarrow> travel_control \<Rightarrow> travel_control" where
  "travel_start E parse ev removed installed now tv =
     (case load_initial_control_trust_state E parse ev removed installed now (tv_legacy tv) (tv_store tv) of
        (Err e, store, legacy) \<Rightarrow> tv\<lparr>tv_running := False, tv_in_flight := [], tv_store := store, tv_legacy := legacy\<rparr>
      | (Ok (s, runtime, cached), store, legacy) \<Rightarrow>
          \<lparr>tv_running = True, tv_trust_state = s, tv_history = load_relay_history (ts_history store), tv_trust = runtime,
           tv_directory = (case cached of None \<Rightarrow> relay_directory_default | Some v \<Rightarrow> csp_relay_directory (vcs_payload v)),
           tv_catalog = (case cached of None \<Rightarrow> catalog_default | Some v \<Rightarrow> csp_catalog (vcs_payload v)),
           tv_in_flight = [], tv_store = store, tv_legacy = legacy\<rparr>)"

section \<open>Travel's control plane as a machine\<close>

text \<open>Snapshots are applied by the catalog subscription and by every route request, concurrently; a start
  may come at any moment, after a stop or a crash.\<close>

datatype travel_op =
    SnapshotReceived store_event signed_control_snapshot string string u64
  | SharedWritten nat
  | RelayReached store_event string u64
  | RelayFailed store_event relay_candidate u64
  | Started store_event "io_kind option" signed_deployment_trust u64

definition store_record :: "store_event \<Rightarrow> relay_history_record list \<times> relay_history_record option \<Rightarrow> travel_control
    \<Rightarrow> travel_control" where
  "store_record ev hr tv = (case hr of
       (h, None) \<Rightarrow> tv\<lparr>tv_history := h\<rparr>
     | (h, Some r) \<Rightarrow> tv\<lparr>tv_history := h,
         tv_store := snd (apply_immediate ev (put_history [r] (tv_store tv)) (tv_store tv))\<rparr>)"

definition travel_control_step :: "travel_env \<Rightarrow> (bytes \<Rightarrow> control_trust_state option) \<Rightarrow> travel_op \<Rightarrow> travel_control
    \<Rightarrow> travel_control" where
  "travel_control_step E parse op tv = (case op of
       Started ev removed installed now \<Rightarrow> travel_start E parse ev removed installed now tv
     | _ \<Rightarrow> if \<not> tv_running tv then tv else (case op of
         SnapshotReceived ev sn relay spki now \<Rightarrow>
           (case accept_control_snapshot E ev sn relay spki now tv of
              (Err e, tv') \<Rightarrow> tv' | (Ok ws, tv') \<Rightarrow> tv'\<lparr>tv_in_flight := tv_in_flight tv' @ [ws]\<rparr>)
       | SharedWritten i \<Rightarrow>
           if i < length (tv_in_flight tv) then (case tv_in_flight tv ! i of [] \<Rightarrow> tv
             | w # ws \<Rightarrow> (shared_write w tv)\<lparr>tv_in_flight := (tv_in_flight tv)[i := ws]\<rparr>) else tv
       | RelayReached ev i now \<Rightarrow> store_record ev (record_relay_success i now (tv_history tv)) tv
       | RelayFailed ev c now \<Rightarrow> store_record ev (record_relay_failure c now (tv_history tv)) tv
       | Started ev removed installed now \<Rightarrow> tv))"

definition travel_run :: "travel_env \<Rightarrow> (bytes \<Rightarrow> control_trust_state option) \<Rightarrow> travel_op list \<Rightarrow> travel_control
    \<Rightarrow> travel_control" where
  "travel_run E parse ops tv = fold (travel_control_step E parse) ops tv"

section \<open>Rollback protection\<close>

definition trust_mark :: "control_trust_state \<Rightarrow> u64 \<times> u64" where
  "trust_mark s = (cts_signer_epoch s, cts_snapshot_generation s)"

text \<open>A later state keeps the deployment, and neither the trust generation nor the pair of signer epoch
  and snapshot generation goes back; the same number keeps the same digest.\<close>

definition trust_advances :: "control_trust_state \<Rightarrow> control_trust_state \<Rightarrow> bool" where
  "trust_advances s s' \<longleftrightarrow>
     (cts_deployment_id s \<noteq> None \<longrightarrow> cts_deployment_id s' = cts_deployment_id s)
     \<and> cts_trust_generation s \<le> cts_trust_generation s'
     \<and> (cts_trust_generation s' = cts_trust_generation s \<and> cts_trust_digest_sha256 s \<noteq> None
          \<longrightarrow> cts_trust_digest_sha256 s' = cts_trust_digest_sha256 s)
     \<and> trust_mark s \<le> trust_mark s'
     \<and> (trust_mark s' = trust_mark s \<longrightarrow> cts_snapshot_digest_sha256 s' = cts_snapshot_digest_sha256 s)"

lemma advances_refl [simp]: "trust_advances s s"
  by (simp add: trust_advances_def)

lemma travel_advances_trans:
  assumes "trust_advances a b" "trust_advances b c"
  shows "trust_advances a c"
proof -
  have "cts_trust_generation b = cts_trust_generation a" if "cts_trust_generation c = cts_trust_generation a"
    using that assms by (auto simp: trust_advances_def)
  moreover have "trust_mark b = trust_mark a" if "trust_mark c = trust_mark a"
    using that assms by (auto simp: trust_advances_def)
  ultimately show ?thesis
    using assms by (auto simp: trust_advances_def)
qed

lemma advances_cached [simp]: "trust_advances a (b\<lparr>cts_cached_snapshot := x\<rparr>) \<longleftrightarrow> trust_advances a b"
  by (simp add: trust_advances_def trust_mark_def)

lemma control_accept_advances:
  "control_accept s v = Ok (s', c) \<Longrightarrow> trust_advances s s' \<and> (c \<longrightarrow> cts_deployment_id s' \<noteq> None)"
  by (auto simp: control_accept_def trust_advances_def trust_mark_def Let_def bail_if_def less_eq_prod_def
      split: if_splits option.splits)

lemma initial_trust_state_advances:
  assumes "initial_trust_state parse trust td legacy store = Ok s"
  shows "cts_deployment_id s \<noteq> None"
    "ts_state store = Some st \<Longrightarrow> cts_deployment_id st \<noteq> None \<Longrightarrow> trust_advances st s"
  using assms by (auto simp: initial_trust_state_def trust_advances_def trust_mark_def bail_if_def
      split: if_splits option.splits)

lemma put_history_state [simp]: "ts_state (put_history rs st) = ts_state st"
  by (simp add: put_history_def)

lemma load_initial_outcome:
  assumes "load_initial_control_trust_state E parse ev removed installed now legacy store = (r, store', legacy')"
  shows "store' = store \<and> (\<exists>e. r = Err e)
     \<or> (\<exists>s rt c h. select_initial_state E parse installed now legacy store = Ok (s, rt, c, h)
          \<and> ts_state store' = Some s \<and> r \<in> insert (Ok (s, rt, c)) (range Err))"
  using assms
  by (auto simp: load_initial_control_trust_state_def apply_immediate_def Let_def
      split: result.splits prod.splits store_event.splits option.splits if_splits)

lemma select_initial_stateD:
  assumes "select_initial_state E parse installed now legacy store = Ok (s, rt, c, h)"
  obtains t d where "trust_verify (tn_crypto E) (tn_trust_json E) installed (tn_root_public_key E) now = Ok t"
    "initial_trust_state parse t d legacy store = Ok s" "rt = (case c of None \<Rightarrow> t | Some v \<Rightarrow> vcs_trust v)"
    "c = (case cts_cached_snapshot s of None \<Rightarrow> None | Some sn \<Rightarrow> usable_snapshot E s
        (control_verify (tn_crypto E) (tn_trust_json E) (tn_payload_json E) sn (tn_root_public_key E) now))"
  using assms by (auto simp: select_initial_state_def Let_def)

definition travel_inv :: "travel_control \<Rightarrow> bool" where
  "travel_inv tv \<longleftrightarrow> cts_deployment_id (tv_trust_state tv) \<noteq> None
     \<and> (\<exists>st. ts_state (tv_store tv) = Some st \<and> trust_advances (tv_trust_state tv) st)"

lemma advances_deployment: "trust_advances s s' \<Longrightarrow> cts_deployment_id s \<noteq> None \<Longrightarrow> cts_deployment_id s' \<noteq> None"
  by (simp add: trust_advances_def)

lemma shared_write_fields [simp]:
  "tv_trust_state (shared_write w tv) = tv_trust_state tv" "tv_store (shared_write w tv) = tv_store tv"
  by (simp_all add: shared_write_def split: shared_write.splits)

lemma store_record_fields [simp]:
  "tv_trust_state (store_record ev hr tv) = tv_trust_state tv"
  "ts_state (tv_store (store_record ev hr tv)) = ts_state (tv_store tv)"
  by (auto simp: store_record_def apply_immediate_def split: prod.splits option.splits store_event.splits)

lemma accept_step:
  assumes "accept_control_snapshot E ev sn relay spki now tv = (r, tv')" "travel_inv tv"
  shows "travel_inv tv'" "trust_advances (tv_trust_state tv) (tv_trust_state tv')"
  using assms
  by (auto simp: accept_control_snapshot_def travel_inv_def apply_immediate_def Let_def
      dest: control_accept_advances split: result.splits prod.splits bool.splits store_event.splits if_splits)

lemma start_step:
  assumes "travel_inv tv"
  shows "travel_inv (travel_start E parse ev removed installed now tv)
    \<and> trust_advances (tv_trust_state tv) (tv_trust_state (travel_start E parse ev removed installed now tv))"
proof -
  obtain r store legacy where l: "load_initial_control_trust_state E parse ev removed installed now (tv_legacy tv)
      (tv_store tv) = (r, store, legacy)"
    by (rule prod_cases3)
  obtain st where st: "ts_state (tv_store tv) = Some st" "trust_advances (tv_trust_state tv) st"
    "cts_deployment_id st \<noteq> None"
    using assms advances_deployment by (auto simp: travel_inv_def)
  have "cts_deployment_id s \<noteq> None \<and> trust_advances (tv_trust_state tv) s"
    if "select_initial_state E parse installed now (tv_legacy tv) (tv_store tv) = Ok (s, rt, c, h)" for s rt c h
    using that travel_advances_trans [OF st(2)] initial_trust_state_advances(2) [OF _ st(1, 3)] initial_trust_state_advances(1)
    by (blast elim: select_initial_stateD)
  then show ?thesis
    using load_initial_outcome [OF l] assms
    by (fastforce simp: travel_start_def l travel_inv_def split: result.splits)
qed

lemma travel_step_inv:
  assumes "travel_inv tv"
  shows "travel_inv (travel_control_step E parse op tv)
    \<and> trust_advances (tv_trust_state tv) (tv_trust_state (travel_control_step E parse op tv))"
proof (cases op)
  case (SnapshotReceived ev sn relay spki now)
  obtain r tv' where a: "accept_control_snapshot E ev sn relay spki now tv = (r, tv')"
    by (meson surj_pair)
  show ?thesis
    using accept_step [OF a assms] assms
    by (auto simp: travel_control_step_def SnapshotReceived a travel_inv_def split: result.splits)
next
  case (Started ev removed installed now)
  then show ?thesis
    using start_step [OF assms] by (simp add: travel_control_step_def)
qed (use assms in \<open>auto simp: travel_control_step_def travel_inv_def split: list.splits\<close>)

interpretation travel_ratchet: ratchet "travel_control_step E parse" travel_inv
    "\<lambda>tv tv'. trust_advances (tv_trust_state tv) (tv_trust_state tv')" for E parse
  by unfold_locales (auto dest: travel_step_inv intro: travel_advances_trans)

text \<open>Where the values in use come from.\<close>

definition genuine :: "travel_env \<Rightarrow> verified_control_snapshot \<Rightarrow> bool" where
  "genuine E v \<longleftrightarrow> (\<exists>sn now. control_verify (tn_crypto E) (tn_trust_json E) (tn_payload_json E) sn
       (tn_root_public_key E) now = Ok v) \<and> csp_travel_id (vcs_payload v) = tn_id E
     \<and> eq_ignore_ascii_case (csp_travel_management_spki_sha256 (vcs_payload v)) (tn_management_spki E)"

definition from_root :: "travel_env \<Rightarrow> deployment_trust \<Rightarrow> bool" where
  "from_root E t \<longleftrightarrow> (\<exists>sd now. trust_verify (tn_crypto E) (tn_trust_json E) sd (tn_root_public_key E) now = Ok t)"

definition write_ok :: "travel_env \<Rightarrow> shared_write \<Rightarrow> bool" where
  "write_ok E w = (case w of WriteTrust t \<Rightarrow> from_root E t
     | WriteDirectory d \<Rightarrow> (\<exists>v. genuine E v \<and> csp_relay_directory (vcs_payload v) = d)
     | WriteCatalog c \<Rightarrow> (\<exists>v. genuine E v \<and> csp_catalog (vcs_payload v) = c))"

definition provenance :: "travel_env \<Rightarrow> travel_control \<Rightarrow> bool" where
  "provenance E tv \<longleftrightarrow> from_root E (tv_trust tv)
     \<and> (tv_directory tv = relay_directory_default
        \<or> (\<exists>v. genuine E v \<and> csp_relay_directory (vcs_payload v) = tv_directory tv))
     \<and> (tv_catalog tv = catalog_default \<or> (\<exists>v. genuine E v \<and> csp_catalog (vcs_payload v) = tv_catalog tv))
     \<and> list_all (list_all (write_ok E)) (tv_in_flight tv)"

lemma genuineI:
  assumes "control_verify (tn_crypto E) (tn_trust_json E) (tn_payload_json E) sn (tn_root_public_key E) now = Ok v"
    "require_control_snapshot_subject v (tn_id E) (tn_management_spki E) = Ok ()"
  shows "genuine E v"
  using assms by (auto simp: genuine_def require_control_snapshot_subject_def)

lemma from_rootI:
  "trust_verify (tn_crypto E) (tn_trust_json E) sd (tn_root_public_key E) now = Ok t \<Longrightarrow> from_root E t"
  by (auto simp: from_root_def)

lemma genuine_from_root: "genuine E v \<Longrightarrow> from_root E (vcs_trust v)"
  by (auto simp: genuine_def from_root_def dest: control_verifyD(1))

lemma snapshot_writes_ok: "genuine E v \<Longrightarrow> list_all (write_ok E) (snapshot_writes v)"
  by (auto simp: snapshot_writes_def write_ok_def genuine_from_root)

lemma check_control_snapshot_genuine: "check_control_snapshot E sn relay spki now = Ok v \<Longrightarrow> genuine E v"
  by (auto simp: check_control_snapshot_def intro: genuineI)

lemma accept_provenance:
  assumes "accept_control_snapshot E ev sn relay spki now tv = (r, tv')" "provenance E tv"
  shows "provenance E tv' \<and> (\<forall>ws. r = Ok ws \<longrightarrow> list_all (write_ok E) ws)"
  using assms
  by (auto simp: accept_control_snapshot_def provenance_def apply_immediate_def Let_def
      intro: snapshot_writes_ok check_control_snapshot_genuine
      split: result.splits prod.splits bool.splits store_event.splits if_splits)

lemma usable_genuine:
  assumes "usable_snapshot E s (control_verify (tn_crypto E) (tn_trust_json E) (tn_payload_json E) sn
      (tn_root_public_key E) now) = Some v"
  shows "genuine E v"
  using assms by (auto simp: usable_snapshot_def intro: genuineI split: result.splits if_splits)

lemma start_provenance:
  assumes "tv_running (travel_start E parse ev removed installed now tv)"
  shows "provenance E (travel_start E parse ev removed installed now tv)"
proof -
  obtain r store legacy where l: "load_initial_control_trust_state E parse ev removed installed now (tv_legacy tv)
      (tv_store tv) = (r, store, legacy)"
    by (rule prod_cases3)
  with assms obtain s rt c where r: "r = Ok (s, rt, c)"
    by (auto simp: travel_start_def split: result.splits)
  then obtain h where "select_initial_state E parse installed now (tv_legacy tv) (tv_store tv) = Ok (s, rt, c, h)"
    using load_initial_outcome [OF l] by auto
  then obtain t d where t: "trust_verify (tn_crypto E) (tn_trust_json E) installed (tn_root_public_key E) now = Ok t"
    "rt = (case c of None \<Rightarrow> t | Some v \<Rightarrow> vcs_trust v)"
    and c: "c = (case cts_cached_snapshot s of None \<Rightarrow> None | Some sn \<Rightarrow> usable_snapshot E s
        (control_verify (tn_crypto E) (tn_trust_json E) (tn_payload_json E) sn (tn_root_public_key E) now))"
    by (rule select_initial_stateD)
  have g: "genuine E v" if "c = Some v" for v
    using that c usable_genuine by (auto split: option.splits)
  then have "from_root E rt"
    using t by (cases c) (auto intro: from_rootI genuine_from_root)
  with g show ?thesis
    by (auto simp: travel_start_def l r provenance_def split: option.splits)
qed

lemma write_provenance:
  assumes "provenance E tv" "i < length (tv_in_flight tv)" "tv_in_flight tv ! i = w # ws"
  shows "provenance E ((shared_write w tv)\<lparr>tv_in_flight := (tv_in_flight tv)[i := ws]\<rparr>)"
proof -
  have "list_all (write_ok E) (w # ws)"
    using assms by (metis list_all_length provenance_def)
  moreover have "list_all (list_all (write_ok E)) ((tv_in_flight tv)[i := ws])"
    using assms(1) calculation
    by (auto simp: provenance_def list_all_iff dest!: set_update_subset_insert [THEN subsetD])
  ultimately show ?thesis
    using assms(1) by (auto simp: provenance_def shared_write_def write_ok_def split: shared_write.splits)
qed

text \<open>A stopped device has nothing in use; \<open>tv_running\<close> guards the provenance of what it last used.\<close>

lemma travel_step_provenance:
  assumes "tv_running tv \<longrightarrow> provenance E tv"
  shows "tv_running (travel_control_step E parse op tv) \<longrightarrow> provenance E (travel_control_step E parse op tv)"
proof (cases op)
  case (SnapshotReceived ev sn relay spki now)
  obtain r tv' where a: "accept_control_snapshot E ev sn relay spki now tv = (r, tv')"
    by (meson surj_pair)
  show ?thesis
  proof (cases "tv_running tv")
    case True
    then show ?thesis
      using accept_provenance [OF a] assms
      by (auto simp: travel_control_step_def SnapshotReceived a provenance_def split: result.splits)
  qed (simp add: travel_control_step_def SnapshotReceived)
next
  case (Started ev removed installed now)
  then show ?thesis
    using start_provenance by (simp add: travel_control_step_def)
next
  case (SharedWritten i)
  then show ?thesis
    using assms write_provenance by (auto simp: travel_control_step_def split: list.splits)
qed (use assms in \<open>auto simp: travel_control_step_def provenance_def store_record_def split: prod.splits option.splits\<close>)

lemma travel_run_provenance:
  "tv_running tv \<longrightarrow> provenance E tv \<Longrightarrow> tv_running (travel_run E parse ops tv)
     \<Longrightarrow> provenance E (travel_run E parse ops tv)"
proof (induction ops arbitrary: tv)
  case (Cons op ops)
  show ?case
    using Cons.IH [OF travel_step_provenance [OF Cons.prems(1), of parse op]] Cons.prems(2) by (simp add: travel_run_def)
qed (simp add: travel_run_def)

lemma started_inv:
  assumes "tv_running (travel_start E parse ev removed installed now tv)"
  shows "travel_inv (travel_start E parse ev removed installed now tv)"
proof -
  obtain r store legacy where l: "load_initial_control_trust_state E parse ev removed installed now (tv_legacy tv)
      (tv_store tv) = (r, store, legacy)"
    by (rule prod_cases3)
  with assms obtain s rt c where r: "r = Ok (s, rt, c)"
    by (auto simp: travel_start_def split: result.splits)
  with load_initial_outcome [OF l] obtain h where
    h: "select_initial_state E parse installed now (tv_legacy tv) (tv_store tv) = Ok (s, rt, c, h)"
    and "ts_state store = Some s"
    by auto
  moreover have "cts_deployment_id s \<noteq> None"
    using h initial_trust_state_advances(1) by (auto elim!: select_initial_stateD)
  ultimately show ?thesis
    by (simp add: travel_start_def l r travel_inv_def)
qed

section \<open>Server and Travel together\<close>

text \<open>Travel is behind a signer when it knows nothing that contradicts the signer's trust and everything it
  has accepted is older than what the signer will sign next.\<close>

definition behind :: "crypto \<Rightarrow> control_signer \<Rightarrow> control_trust_state \<Rightarrow> bool" where
  "behind C s m \<longleftrightarrow> cts_validate_shape m = Ok ()
     \<and> cts_deployment_id m \<in> {None, Some (dt_deployment_id (cs_trust s))}
     \<and> cts_trust_generation m \<le> dt_generation (cs_trust s)
     \<and> (cts_trust_generation m = dt_generation (cs_trust s) \<and> cts_trust_digest_sha256 m \<noteq> None
          \<longrightarrow> trust_payload_digest C (cs_signed_trust s) = Ok (the (cts_trust_digest_sha256 m)))
     \<and> trust_mark m < (cs_signer_epoch s, cs_next_generation s)"

lemma signer_signD:
  assumes "signer_sign C JT JC F rnd ev now d cat travel spki s = (Ok sn, s')"
  obtains p where "control_sign C JC (cs_signed_trust s) (cs_trust s) p (cs_key s) rnd = Ok sn"
    "csp_signer_epoch p = cs_signer_epoch s" "csp_generation p = cs_next_generation s" "csp_travel_id p = travel"
    "csp_travel_management_spki_sha256 p = spki" "csp_issued_at_unix_secs p = now"
    "csp_expires_at_unix_secs p = sat_add now (cs_ttl_secs s)" "csp_relay_directory p = d" "csp_catalog p = cat"
    "cs_next_generation s < cs_next_generation s'"
    "cs_signer_epoch s' = cs_signer_epoch s" "cs_trust s' = cs_trust s" "cs_signed_trust s' = cs_signed_trust s"
proof -
  obtain g where g: "allocate_generation F ev s = (Ok g, s')"
    using assms by (auto simp: signer_sign_def split: result.splits if_splits prod.splits)
  note a = allocate_Ok [OF g]
  have "cs_signer_epoch s' = cs_signer_epoch s" "cs_trust s' = cs_trust s" "cs_signed_trust s' = cs_signed_trust s"
    using g by (auto simp: allocate_generation_def split: option.splits prod.splits result.splits)
  then show thesis
    using assms a g that by (auto simp: signer_sign_def split: result.splits if_splits prod.splits)
qed

lemma accept_behind:
  assumes "behind C s m" "vcs_trust v = cs_trust s" "csp_signer_epoch (vcs_payload v) = cs_signer_epoch s"
    "csp_generation (vcs_payload v) = cs_next_generation s" "csp_generation (vcs_payload v) \<noteq> 0"
    "trust_payload_digest C (cs_signed_trust s) = Ok (vcs_trust_digest_sha256 v)"
  shows "control_accept m v = Ok (m\<lparr>cts_deployment_id := Some (dt_deployment_id (cs_trust s)),
      cts_trust_generation := dt_generation (cs_trust s), cts_trust_digest_sha256 := Some (vcs_trust_digest_sha256 v),
      cts_signer_epoch := cs_signer_epoch s, cts_snapshot_generation := cs_next_generation s,
      cts_snapshot_digest_sha256 := Some (vcs_digest_sha256 v)\<rparr>, True)"
proof -
  have e: "\<not> cs_signer_epoch s < cts_signer_epoch m"
    "\<not> (cs_signer_epoch s = cts_signer_epoch m \<and> cs_next_generation s \<le> cts_snapshot_generation m)"
    using assms(1) by (auto simp: behind_def trust_mark_def less_prod_def)
  then have m: "\<not> (cs_signer_epoch s = cts_signer_epoch m \<and> cs_next_generation s < cts_snapshot_generation m)"
    "\<not> (cs_signer_epoch s = cts_signer_epoch m \<and> cs_next_generation s = cts_snapshot_generation m)"
    by auto
  have t: "cts_validate_shape m = Ok ()"
    "\<not> (case cts_deployment_id m of Some d \<Rightarrow> d \<noteq> dt_deployment_id (cs_trust s) | None \<Rightarrow> False)"
    "\<not> dt_generation (cs_trust s) < cts_trust_generation m"
    "\<not> (dt_generation (cs_trust s) = cts_trust_generation m \<and> cts_trust_digest_sha256 m \<noteq> None
          \<and> cts_trust_digest_sha256 m \<noteq> Some (vcs_trust_digest_sha256 v))"
    using assms(1, 6) by (cases "cts_trust_digest_sha256 m"; auto simp: behind_def)+
  show ?thesis
    by (simp only: control_accept_def Let_def assms(2-4) e(1) m t bail_if_def if_False rbind.simps)
qed

section \<open>A sample device\<close>

definition sample_travel_env :: "control_snapshot_payload json \<Rightarrow> travel_env" where
  "sample_travel_env J = \<lparr>tn_crypto = sample_crypto, tn_trust_json = one_json sample_trust, tn_payload_json = J,
     tn_endpoint_json = one_json (sample_endpoint []), tn_root_public_key = sample_key 3, tn_id = ''phone'',
     tn_management_spki = sample_pin CHR ''4'', tn_homes = [''home-1'']\<rparr>"

definition sample_travel :: travel_control where
  "sample_travel = \<lparr>tv_running = True, tv_trust_state = control_trust_state_new, tv_history = [], tv_trust = sample_trust,
     tv_directory = relay_directory_default, tv_catalog = catalog_default, tv_in_flight = [],
     tv_store = \<lparr>ts_state = None, ts_history = [], ts_legacy_digest = None\<rparr>, tv_legacy = None\<rparr>"

lemma sample_homes: "configured_homes_are_trusted sample_crypto JE [''home-1''] sample_trust
    \<lparr>cat_generation = 1, cat_homes = []\<rparr> now = Ok ()"
  by (simp add: configured_homes_are_trusted_def resolve_home_endpoint_def home_endpoint_def sample_trust_def)

text \<open>A second snapshot of the same signer, with the next generation and a newer directory.\<close>

definition sample_payload2 :: control_snapshot_payload where
  "sample_payload2 = sample_payload\<lparr>csp_generation := 7,
     csp_relay_directory := (csp_relay_directory sample_payload)\<lparr>rd_generation := 2\<rparr>\<rparr>"

definition sample_control2 :: signed_control_snapshot where
  "sample_control2 = \<lparr>scs_trust = sample_signed_trust, scs_payload_hex = tohex [8], scs_signature_hex = tohex [17]\<rparr>"

definition sample_json2 :: "control_snapshot_payload json" where
  "sample_json2 = \<lparr>to_vec = (\<lambda>p. if p = sample_payload then Some [7] else if p = sample_payload2 then Some [8] else None),
     from_slice = (\<lambda>b. if b = [7] then Some sample_payload else if b = [8] then Some sample_payload2 else None)\<rparr>"

lemma sample_check:
  assumes "from_slice J b = Some p" "sn = \<lparr>scs_trust = sample_signed_trust, scs_payload_hex = tohex b,
      scs_signature_hex = tohex [9 + sum_list b]\<rparr>" "length b = 1"
    "p = sample_payload \<or> p = sample_payload2"
  shows "check_control_snapshot (sample_travel_env J) sn ''r1'' (sample_pin CHR ''3'') 1100
    = Ok \<lparr>vcs_trust = sample_trust, vcs_trust_digest_sha256 = tohex (replicate 31 0 @ [7]), vcs_payload = p,
          vcs_digest_sha256 = tohex (replicate 31 0 @ [sum_list b])\<rparr>"
proof -
  have t: "trust_verify sample_crypto (one_json sample_trust) sample_signed_trust (sample_key 3) 1100 = Ok sample_trust"
    by (rule sample_trust_verifies) simp_all
  have v: "control_validate_at sample_crypto p 1100 = Ok ()"
    using assms(4) by (auto simp: control_validate_at_def sample_payload2_def sample_payload_def deployment_consts
        digit_val_def eval_simps validate_relay_directory_def validate_catalog_def for_each_fresh_Ok)
  have k: "server_control_key_of sample_trust (csp_server_id p) (csp_signer_epoch p) = Ok (sample_key 9)"
    "csp_deployment_id p = dt_deployment_id sample_trust"
    using assms(4) by (auto simp: server_control_key_of_def sample_trust_def sample_payload_def sample_payload2_def)
  have d: "csp_travel_id p = ''phone''" "csp_travel_management_spki_sha256 p = sample_pin CHR ''4''"
    "csp_catalog p = \<lparr>cat_generation = 1, cat_homes = []\<rparr>"
    using assms(4) by (auto simp: sample_payload_def sample_payload2_def)
  obtain e where e: "List.find (\<lambda>e. re_id e = ''r1'') (rd_relays (csp_relay_directory p)) = Some e"
    "re_management_spki_sha256 e = sample_pin CHR ''3''"
    using assms(4) by (auto simp: sample_payload_def sample_payload2_def)
  have "trust_payload_digest sample_crypto sample_signed_trust = Ok (tohex (replicate 31 0 @ [7]))"
    by (simp add: trust_payload_digest_def sample_signed_trust_def unhex_tohex)
  then have c: "control_verify sample_crypto (one_json sample_trust) J sn (sample_key 3) 1100
      = Ok \<lparr>vcs_trust = sample_trust, vcs_trust_digest_sha256 = tohex (replicate 31 0 @ [7]), vcs_payload = p,
          vcs_digest_sha256 = tohex (replicate 31 0 @ [sum_list b])\<rparr>"
    using assms(1, 3) t v k
    by (simp add: control_verify_def assms(2) unhex_tohex MAX_CONTROL_SNAPSHOT_PAYLOAD_BYTES_def bail_if_def)
  then show ?thesis
    using d e sample_homes
    by (simp add: check_control_snapshot_def sample_travel_env_def require_control_snapshot_subject_def
        require_authenticated_relay_in_snapshot_def bail_if_def)
qed

section \<open>Properties\<close>

text \<open>C11: whatever Travel receives, in whatever order its snapshots and the writes after them interleave,
  whether commits fail before or after they reach the disk, and however often it is restarted: the mark it
  holds keeps its deployment, neither the trust generation nor the pair of signer epoch and snapshot
  generation ever goes back, the same number always stands for the same content, and the database is never
  behind the mark in use. The trust it runs with was signed by the deployment root, and its directory and
  catalog are empty or came out of a snapshot that verified and that names this Travel and its key.\<close>

theorem travel_never_rolls_back:
  assumes "tv = travel_start E parse ev removed installed now tv0" "tv_running tv"
  shows "trust_advances (tv_trust_state tv) (tv_trust_state (travel_run E parse ops tv))
     \<and> (\<exists>st. ts_state (tv_store (travel_run E parse ops tv)) = Some st
          \<and> trust_advances (tv_trust_state (travel_run E parse ops tv)) st)
     \<and> (tv_running (travel_run E parse ops tv) \<longrightarrow> provenance E (travel_run E parse ops tv))"
proof -
  have i: "travel_inv tv"
    using started_inv assms by simp
  have "provenance E tv"
    using start_provenance assms by simp
  then show ?thesis
    using travel_ratchet.run_le [OF i, of E parse ops] travel_ratchet.run_inv [OF i, of E parse ops]
      travel_run_provenance [of tv E parse ops]
    by (auto simp: travel_run_def travel_inv_def)
qed

theorem travel_never_rolls_back_witness:
  "let tv = travel_start (sample_travel_env sample_json2) (\<lambda>_. None) Stored None sample_signed_trust 1000 sample_travel in
     tv_running tv \<and> trust_advances (tv_trust_state tv) (tv_trust_state (travel_run (sample_travel_env sample_json2) (\<lambda>_. None)
       [SnapshotReceived Stored sample_control ''r1'' (sample_pin CHR ''3'') 1100] tv))"
proof -
  define tv where "tv = travel_start (sample_travel_env sample_json2) (\<lambda>_. None) Stored None sample_signed_trust 1000
      sample_travel"
  have "trust_verify sample_crypto (one_json sample_trust) sample_signed_trust (sample_key 3) 1000 = Ok sample_trust"
    by (rule sample_trust_verifies) simp_all
  then have "tv_running tv"
    by (simp add: tv_def travel_start_def load_initial_control_trust_state_def select_initial_state_def sample_travel_env_def
        sample_travel_def initial_trust_state_def cts_validate_shape_def control_trust_state_new_def bail_if_def
        apply_immediate_def trust_payload_digest_def sample_signed_trust_def unhex_tohex Let_def)
  with travel_never_rolls_back [OF tv_def] show ?thesis
    by (simp add: tv_def [symmetric] Let_def)
qed

text \<open>C13: Travel keeps up with the Server, under these conditions. The Server's signer produces a snapshot for
  this Travel and its management key; Travel receives it, while it is fresh, through a Relay that the signed
  directory lists with that Relay's key; the signer's trust verifies for Travel; the Homes that Travel has
  configured are trusted in the signed catalog; Travel's mark is behind the signer; the commit of the mark to
  the database succeeds (\<open>Stored\<close>); and no other snapshot is being applied between the sections of this one
  (\<open>apply_control_snapshot\<close> runs them one after the other). Then the snapshot is applied: Travel uses exactly the
  directory, the catalog and the trust that were signed, its mark is on disk, and it is again behind the
  signer, so that the same holds for the next snapshot. The last condition is needed: see
  \<open>overtaken_snapshot_stays_in_use\<close>.\<close>

theorem travel_follows_server:
  assumes "hex_ok (tn_crypto E)" "hex_case_ok (tn_crypto E)" "ecdsa_ok (tn_crypto E)" "json_ok (tn_payload_json E)"
    and "signer_sign (tn_crypto E) (tn_trust_json E) (tn_payload_json E) F rnd ev issued d cat (tn_id E) spki s
           = (Ok sn, s')"
    and "eq_ignore_ascii_case spki (tn_management_spki E)"
    and "trust_verify (tn_crypto E) (tn_trust_json E) (cs_signed_trust s) (tn_root_public_key E) now = Ok (cs_trust s)"
    and "issued \<le> sat_add now MAX_CLOCK_SKEW_SECS" "now < sat_add issued (cs_ttl_secs s)"
    and "configured_homes_are_trusted (tn_crypto E) (tn_endpoint_json E) (tn_homes E) (cs_trust s) cat now = Ok ()"
    and "List.find (\<lambda>e. re_id e = relay) (rd_relays d) = Some re"
      "eq_ignore_ascii_case (re_management_spki_sha256 re) relay_spki"
    and "behind (tn_crypto E) s (tv_trust_state tv)"
  shows "\<exists>tv'. apply_control_snapshot E Stored sn relay relay_spki now tv = (Ok (), tv')
     \<and> tv_directory tv' = d \<and> tv_catalog tv' = cat \<and> tv_trust tv' = cs_trust s
     \<and> ts_state (tv_store tv') = Some (tv_trust_state tv') \<and> behind (tn_crypto E) s' (tv_trust_state tv')"
proof -
  from assms(5) obtain p where
    p: "control_sign (tn_crypto E) (tn_payload_json E) (cs_signed_trust s) (cs_trust s) p (cs_key s) rnd = Ok sn"
      "csp_signer_epoch p = cs_signer_epoch s" "csp_generation p = cs_next_generation s" "csp_travel_id p = tn_id E"
      "csp_travel_management_spki_sha256 p = spki" "csp_issued_at_unix_secs p = issued"
      "csp_expires_at_unix_secs p = sat_add issued (cs_ttl_secs s)" "csp_relay_directory p = d" "csp_catalog p = cat"
    and s': "cs_next_generation s < cs_next_generation s'" "cs_signer_epoch s' = cs_signer_epoch s"
      "cs_trust s' = cs_trust s" "cs_signed_trust s' = cs_signed_trust s"
    by (rule signer_signD)
  obtain v where v: "control_verify (tn_crypto E) (tn_trust_json E) (tn_payload_json E) sn (tn_root_public_key E) now = Ok v"
    "vcs_payload v = p" "vcs_trust v = cs_trust s"
    "trust_payload_digest (tn_crypto E) (cs_signed_trust s) = Ok (vcs_trust_digest_sha256 v)"
    using signed_snapshot_verifies [OF assms(1-4) p(1) assms(7)] assms(8, 9) p by auto
  have "csp_generation p \<noteq> 0"
    using control_verifyD(2) [OF v(1)] v(2) by (auto simp: control_validate_at_def)
  note acc = accept_behind [OF assms(13) v(3) _ _ _ v(4), unfolded v(2), OF p(2, 3) this]
  have "check_control_snapshot E sn relay relay_spki now = Ok v"
    using assms(6, 10-12) v p
    by (simp add: check_control_snapshot_def require_control_snapshot_subject_def
        require_authenticated_relay_in_snapshot_def bail_if_def)
  then obtain tv1 where tv1: "accept_control_snapshot E Stored sn relay relay_spki now tv = (Ok (snapshot_writes v), tv1)"
    "ts_state (tv_store tv1) = Some (tv_trust_state tv1)"
    "tv_trust_state tv1 = (tv_trust_state tv)\<lparr>cts_deployment_id := Some (dt_deployment_id (cs_trust s)),
      cts_trust_generation := dt_generation (cs_trust s), cts_trust_digest_sha256 := Some (vcs_trust_digest_sha256 v),
      cts_signer_epoch := cs_signer_epoch s, cts_snapshot_generation := cs_next_generation s,
      cts_snapshot_digest_sha256 := Some (vcs_digest_sha256 v), cts_cached_snapshot := Some sn\<rparr>"
    by (simp add: accept_control_snapshot_def acc apply_immediate_def Let_def)
  moreover have "behind (tn_crypto E) s' (tv_trust_state tv1)"
    using assms(13) \<open>csp_generation p \<noteq> 0\<close> s' v(4) p(3)
    by (auto simp: tv1(3) behind_def cts_validate_shape_def trust_mark_def bail_if_def split: if_splits)
  ultimately show ?thesis
    using v p by (simp add: apply_control_snapshot_def snapshot_writes_def shared_write_def)
qed

theorem travel_follows_server_witness:
  "\<exists>sn s' tv'. signer_sign sample_crypto (one_json sample_trust) (one_json sample_payload)
       (ce_generation_json sample_control_env) [] Stored 1000 (csp_relay_directory sample_payload)
       (csp_catalog sample_payload) ''phone'' (sample_pin CHR ''4'') (sample_signer\<lparr>cs_next_generation := 6\<rparr>) = (Ok sn, s')
     \<and> apply_control_snapshot (sample_travel_env (one_json sample_payload)) Stored sn ''r1'' (sample_pin CHR ''3'') 1100
         sample_travel = (Ok (), tv')
     \<and> tv_directory tv' = csp_relay_directory sample_payload \<and> behind sample_crypto s' (tv_trust_state tv')"
proof -
  let ?s = "sample_signer\<lparr>cs_next_generation := 6\<rparr>"
  have t: "trust_verify sample_crypto (one_json sample_trust) sample_signed_trust (sample_key 3) n = Ok sample_trust"
    if "n \<in> {1000, 1100}" for n
    using that by (auto intro: sample_trust_verifies)
  have "\<lparr>csp_version = CONTROL_SNAPSHOT_VERSION, csp_object_type = CONTROL_SNAPSHOT_OBJECT_TYPE,
      csp_deployment_id = dt_deployment_id sample_trust, csp_server_id = ''srv'', csp_signer_epoch = 2,
      csp_travel_id = ''phone'', csp_travel_management_spki_sha256 = sample_pin CHR ''4'', csp_generation = 6,
      csp_issued_at_unix_secs = 1000, csp_expires_at_unix_secs = sat_add 1000 200,
      csp_relay_directory = csp_relay_directory sample_payload, csp_catalog = csp_catalog sample_payload\<rparr> = sample_payload"
    by (simp add: sample_payload_def sample_trust_def deployment_consts eval_simps)
  then have sign: "\<exists>s'. signer_sign sample_crypto (one_json sample_trust) (one_json sample_payload)
       (ce_generation_json sample_control_env) [] Stored 1000 (csp_relay_directory sample_payload)
       (csp_catalog sample_payload) ''phone'' (sample_pin CHR ''4'') ?s = (Ok sample_control, s')"
    using t [of 1000] sample_control_signed
    by (simp add: signer_sign_def sample_signer_def allocate_generation_def sample_control_env_def store_json_atomic_def
        eval_simps)
  then obtain s' where s': "signer_sign sample_crypto (one_json sample_trust) (one_json sample_payload)
       (ce_generation_json sample_control_env) [] Stored 1000 (csp_relay_directory sample_payload)
       (csp_catalog sample_payload) ''phone'' (sample_pin CHR ''4'') ?s = (Ok sample_control, s')" ..
  have "behind sample_crypto ?s (tv_trust_state sample_travel)"
    by (simp add: behind_def sample_travel_def control_trust_state_new_def cts_validate_shape_def bail_if_def sample_signer_def
        trust_mark_def less_prod_def)
  moreover have "List.find (\<lambda>e. re_id e = ''r1'') (rd_relays (csp_relay_directory sample_payload))
      = Some (hd (rd_relays (csp_relay_directory sample_payload)))"
    by (simp add: sample_payload_def)
  ultimately show ?thesis
    using travel_follows_server [of "sample_travel_env (one_json sample_payload)" "ce_generation_json sample_control_env" "[]"
        Stored 1000 "csp_relay_directory sample_payload" "csp_catalog sample_payload" "sample_pin CHR ''4''" ?s
        sample_control s' 1100 "''r1''" "hd (rd_relays (csp_relay_directory sample_payload))" "sample_pin CHR ''3''"
        sample_travel] s' t [of 1100] sample_homes
    by (auto simp: sample_travel_env_def sample_hex_ok sample_hex_case_ok sample_ecdsa_ok one_json_ok sample_signer_def
        MAX_CLOCK_SKEW_SECS_def eval_simps sample_payload_def)
qed

definition sample_race :: "travel_op list" where
  "sample_race = [SnapshotReceived Stored sample_control ''r1'' (sample_pin CHR ''3'') 1100,
     SnapshotReceived Stored sample_control2 ''r1'' (sample_pin CHR ''3'') 1100,
     SharedWritten 1, SharedWritten 1, SharedWritten 1, SharedWritten 0, SharedWritten 0, SharedWritten 0]"

text \<open>The values in use can go back although the mark does not. Two tasks apply snapshots 6 and 7 of one
  signer; the first is overtaken between the release of the mark's lock and its writes. Afterwards no write is
  left, the mark and the database say 7, and Travel works with the directory of snapshot 6.\<close>

theorem overtaken_snapshot_stays_in_use:
  "\<exists>E parse ops tv tv'. tv_running tv \<and> tv' = travel_run E parse ops tv \<and> list_all (\<lambda>ws. ws = []) (tv_in_flight tv')
     \<and> (\<exists>v v'. genuine E v \<and> genuine E v'
          \<and> csp_signer_epoch (vcs_payload v) = csp_signer_epoch (vcs_payload v')
          \<and> csp_generation (vcs_payload v) < csp_generation (vcs_payload v')
          \<and> snapshot_matches_high_water (tv_trust_state tv') v'
          \<and> tv_directory tv' = csp_relay_directory (vcs_payload v)
          \<and> rd_generation (tv_directory tv') < rd_generation (csp_relay_directory (vcs_payload v')))"
proof -
  let ?E = "sample_travel_env sample_json2" and ?d = "\<lambda>b. tohex (replicate 31 0 @ [b])"
  let ?v = "\<lambda>p b. \<lparr>vcs_trust = sample_trust, vcs_trust_digest_sha256 = ?d 7, vcs_payload = p, vcs_digest_sha256 = ?d b\<rparr>"
  have c1: "check_control_snapshot ?E sample_control ''r1'' (sample_pin CHR ''3'') 1100 = Ok (?v sample_payload 7)"
    using sample_check [of sample_json2 "[7]" sample_payload sample_control]
    by (simp add: sample_json2_def sample_control_def)
  have c2: "check_control_snapshot ?E sample_control2 ''r1'' (sample_pin CHR ''3'') 1100 = Ok (?v sample_payload2 8)"
    using sample_check [of sample_json2 "[8]" sample_payload2 sample_control2]
    by (simp add: sample_json2_def sample_control2_def)
  have g: "genuine ?E (?v sample_payload 7)" "genuine ?E (?v sample_payload2 8)"
    using c1 c2 check_control_snapshot_genuine by blast+
  define tv' where "tv' = travel_run ?E (\<lambda>_. None) sample_race sample_travel"
  have p: "csp_signer_epoch sample_payload = 2" "csp_generation sample_payload = 6" "csp_signer_epoch sample_payload2 = 2"
    "csp_generation sample_payload2 = 7" "dt_deployment_id sample_trust = ''dep''" "dt_generation sample_trust = 4"
    "rd_generation (csp_relay_directory sample_payload) = 1" "rd_generation (csp_relay_directory sample_payload2) = 2"
    by (simp_all add: sample_payload_def sample_payload2_def sample_trust_def)
  have "list_all (\<lambda>ws. ws = []) (tv_in_flight tv') \<and> tv_directory tv' = csp_relay_directory sample_payload
      \<and> snapshot_matches_high_water (tv_trust_state tv') (?v sample_payload2 8)"
    by (simp add: tv'_def travel_run_def sample_race_def travel_control_step_def accept_control_snapshot_def c1 c2
        sample_travel_def control_trust_state_new_def control_accept_def cts_validate_shape_def apply_immediate_def
        Let_def bail_if_def p snapshot_writes_def shared_write_def snapshot_matches_high_water_def)
  moreover have "csp_generation sample_payload < csp_generation sample_payload2"
    "rd_generation (csp_relay_directory sample_payload) < rd_generation (csp_relay_directory sample_payload2)"
    by (simp_all add: p)
  ultimately have "\<exists>v v'. genuine ?E v \<and> genuine ?E v'
      \<and> csp_signer_epoch (vcs_payload v) = csp_signer_epoch (vcs_payload v')
      \<and> csp_generation (vcs_payload v) < csp_generation (vcs_payload v')
      \<and> snapshot_matches_high_water (tv_trust_state tv') v' \<and> tv_directory tv' = csp_relay_directory (vcs_payload v)
      \<and> rd_generation (tv_directory tv') < rd_generation (csp_relay_directory (vcs_payload v'))"
    "list_all (\<lambda>ws. ws = []) (tv_in_flight tv')"
    using g p(1, 3)
    by - (rule exI [of _ "?v sample_payload 7"], rule exI [of _ "?v sample_payload2 8"], simp_all)
  moreover have "tv_running sample_travel"
    by (simp add: sample_travel_def)
  ultimately show ?thesis
    unfolding tv'_def by blast
qed

end
