(* ===== verification/Statistics.thy ===== *)
theory Statistics
  imports Deployment High_Water "HOL-Library.AList" "HOL-Library.Multiset" "HOL-Library.Sublist"
    "HOL-Library.List_Lexorder" "HOL-Library.Char_ord"
begin

text \<open>
  Operational statistics (\<open>internal/flowsplice-core/src/statistics.rs\<close>, the statistics of
  \<open>internal/flowsplice-storage/src/lib.rs\<close>, and their acceptance in \<open>server/src/main.rs\<close>): samples are
  aggregated per five-minute bucket in memory, merged into the local database and signed, kept in an
  outbox until the Server acknowledges them, and accepted by the Server once per revision. BTreeMaps are
  association lists with distinct keys.
\<close>

section \<open>Constants and data\<close>

definition STATISTICS_REPORT_VERSION :: u32 where "STATISTICS_REPORT_VERSION = 1"
definition STATISTICS_METRIC_VERSION :: u32 where "STATISTICS_METRIC_VERSION = 1"
definition FIVE_MINUTE_SECS :: u64 where "FIVE_MINUTE_SECS = 300"
definition MAX_STATISTICS_DIMENSIONS :: nat where "MAX_STATISTICS_DIMENSIONS = 12"
definition MAX_STATISTICS_DIMENSION_BYTES :: nat where "MAX_STATISTICS_DIMENSION_BYTES = 96"
definition LATENCY_HISTOGRAM_BOUNDS_MS :: "u64 list" where
  "LATENCY_HISTOGRAM_BOUNDS_MS = [1, 5, 10, 25, 50, 100, 250, 500, 1000, 2500, 5000, 10000]"

type_synonym dimensions = "(string \<times> string) list"

record metric_value =
  mv_version :: u32
  mv_revision :: u64
  mv_count :: u64
  mv_sum :: u64
  mv_min :: u64
  mv_max :: u64
  mv_histogram :: "u64 list"

record statistics_report_payload =
  srp_version :: u32
  srp_deployment_id :: string
  srp_reporter_role :: role
  srp_reporter_id :: string
  srp_bucket_start_unix_secs :: u64
  srp_bucket_end_unix_secs :: u64
  srp_metric_family :: string
  srp_dimensions :: dimensions
  srp_report_sequence :: u64
  srp_value :: metric_value

record signed_statistics_report =
  ssr_certificate_pem :: string
  ssr_payload_hex :: string
  ssr_signature_hex :: string

record verified_statistics_report =
  vsr_payload :: statistics_report_payload
  vsr_digest_sha256 :: string

record metric_identity =
  mi_metric_family :: string
  mi_dimensions :: dimensions

record metric_point =
  mp_bucket_start_unix_secs :: u64
  mp_identity :: metric_identity
  mp_value :: metric_value

record metric_delta =
  md_count :: u64
  md_sum :: u64
  md_min :: u64
  md_max :: u64
  md_histogram :: "u64 list"

definition metric_delta_default :: metric_delta where
  "metric_delta_default = \<lparr>md_count = 0, md_sum = 0, md_min = 0, md_max = 0, md_histogram = []\<rparr>"

section \<open>Signed reports\<close>

definition report_validate :: "statistics_report_payload \<Rightarrow> unit res" where
  "report_validate p =
     rbind (bail_if (srp_version p \<noteq> STATISTICS_REPORT_VERSION \<or> srp_deployment_id p = [] \<or> srp_reporter_id p = []
         \<or> srp_metric_family p = [] \<or> MAX_STATISTICS_DIMENSION_BYTES < length (srp_metric_family p)
         \<or> srp_bucket_start_unix_secs p mod FIVE_MINUTE_SECS \<noteq> 0
         \<or> srp_bucket_end_unix_secs p \<noteq> sat_add (srp_bucket_start_unix_secs p) FIVE_MINUTE_SECS
         \<or> srp_report_sequence p = 0 \<or> mv_version (srp_value p) \<noteq> STATISTICS_METRIC_VERSION
         \<or> mv_revision (srp_value p) = 0 \<or> MAX_STATISTICS_DIMENSIONS < length (srp_dimensions p)) (Stats ReportShape)) (\<lambda>_.
     rbind (for_each (\<lambda>(k, v). bail_if (k = [] \<or> v = [] \<or> MAX_STATISTICS_DIMENSION_BYTES < length k
         \<or> MAX_STATISTICS_DIMENSION_BYTES < length v) (Stats ReportDimension)) (srp_dimensions p)) (\<lambda>_.
     if mv_count (srp_value p) = 0
     then bail_if (mv_sum (srp_value p) \<noteq> 0 \<or> mv_min (srp_value p) \<noteq> 0 \<or> mv_max (srp_value p) \<noteq> 0) (Stats ReportAggregate)
     else bail_if (mv_max (srp_value p) < mv_min (srp_value p)) (Stats ReportAggregate)))"

definition report_sign :: "crypto \<Rightarrow> statistics_report_payload json \<Rightarrow> statistics_report_payload \<Rightarrow> string \<Rightarrow> bytes \<Rightarrow> bytes
    \<Rightarrow> signed_statistics_report res" where
  "report_sign C J p certificate_pem key rnd =
     rbind (report_validate p) (\<lambda>_.
     rbind (bail_if (certificate_pem = [] \<or> 64 * 1024 < length certificate_pem) (Stats CertificateOversized)) (\<lambda>_.
     rbind (ok_or (to_vec J p) (Auth EncodeFailed)) (\<lambda>bytes.
     rbind (ok_or (ecdsa_sign C key rnd bytes) (Control SigningFailed)) (\<lambda>signature.
     Ok \<lparr>ssr_certificate_pem = certificate_pem, ssr_payload_hex = hex_encode C bytes,
         ssr_signature_hex = hex_encode C signature\<rparr>))))"

definition report_verify :: "crypto \<Rightarrow> statistics_report_payload json \<Rightarrow> signed_statistics_report \<Rightarrow> bytes
    \<Rightarrow> verified_statistics_report res" where
  "report_verify C J r public_key =
     rbind (ok_or (hex_decode C (ssr_payload_hex r)) (Auth NotHexadecimal)) (\<lambda>payload_bytes.
     rbind (ok_or (hex_decode C (ssr_signature_hex r)) (Auth NotHexadecimal)) (\<lambda>signature.
     rbind (bail_if (\<not> ecdsa_verify C public_key payload_bytes signature) (Auth BadSignature)) (\<lambda>_.
     rbind (ok_or (from_slice J payload_bytes) (Auth BadPayload)) (\<lambda>payload.
     rbind (report_validate payload) (\<lambda>_.
     Ok \<lparr>vsr_payload = payload, vsr_digest_sha256 = hex_encode C (sha256_digest C payload_bytes)\<rparr>)))))"

definition report_digest :: "crypto \<Rightarrow> signed_statistics_report \<Rightarrow> string res" where
  "report_digest C r =
     rbind (ok_or (hex_decode C (ssr_payload_hex r)) (Auth NotHexadecimal)) (\<lambda>payload.
     Ok (hex_encode C (sha256_digest C payload)))"

definition five_minute_bucket_start :: "u64 \<Rightarrow> u64" where
  "five_minute_bucket_start unix_secs = unix_secs - unix_secs mod FIVE_MINUTE_SECS"

section \<open>Keys\<close>

definition key_part :: "string \<Rightarrow> bytes res" where
  "key_part part = (if 65535 < length part then Err (Stats KeyPartTooLong)
     else Ok (to_be_bytes (word_of_nat (length part) :: 16 word) @ as_bytes part))"

definition ordered_key :: "string list \<Rightarrow> u64 \<Rightarrow> bytes res" where
  "ordered_key parts timestamp =
     rbind (map_result key_part parts) (\<lambda>encoded. Ok (to_be_bytes timestamp @ concat encoded))"

text \<open>\<open>serde_json::to_string\<close> of the type a key is made of.\<close>

type_synonym 'a to_string = "'a \<Rightarrow> string option"

definition to_string_ok :: "'a to_string \<Rightarrow> bool" where
  "to_string_ok f \<longleftrightarrow> (\<forall>x y str. f x = Some str \<and> f y = Some str \<longrightarrow> x = y)"

definition metric_key :: "metric_identity to_string \<Rightarrow> u64 \<Rightarrow> metric_identity \<Rightarrow> bytes res" where
  "metric_key encode bucket_start identity =
     rbind (ok_or (encode identity) (Auth EncodeFailed)) (\<lambda>str. ordered_key [str] bucket_start)"

fun role_debug :: "role \<Rightarrow> string" where
  "role_debug RServer = ''Server''" | "role_debug RRelay = ''Relay''"
| "role_debug RHome = ''Home''" | "role_debug RTravel = ''Travel''"

definition accepted_report_key :: "dimensions to_string \<Rightarrow> statistics_report_payload \<Rightarrow> bytes res" where
  "accepted_report_key encode p =
     rbind (ok_or (encode (srp_dimensions p)) (Auth EncodeFailed)) (\<lambda>str.
     ordered_key [srp_deployment_id p, role_debug (srp_reporter_role p), srp_reporter_id p, srp_metric_family p, str]
       (srp_bucket_start_unix_secs p))"

section \<open>Aggregation\<close>

fun resize :: "nat \<Rightarrow> u64 list \<Rightarrow> u64 list" where
  "resize n xs = (if length xs < n then xs @ replicate (n - length xs) 0 else xs)"

text \<open>\<open>iter_mut().zip\<close>: the counters both sides have are added, the rest of the target stays.\<close>

fun add_histogram :: "u64 list \<Rightarrow> u64 list \<Rightarrow> u64 list" where
  "add_histogram (t # ts) (s # ss) = sat_add t s # add_histogram ts ss"
| "add_histogram ts _ = ts"

definition histogram_index :: "u64 \<Rightarrow> nat" where
  "histogram_index sample = length (takeWhile (\<lambda>b. \<not> sample \<le> b) LATENCY_HISTOGRAM_BOUNDS_MS)"

text \<open>The update of one delta by one sample, shared by \<open>LocalStatistics::record\<close> and \<open>MetricBatch::record\<close>.\<close>

definition record_sample :: "u64 \<Rightarrow> metric_delta \<Rightarrow> metric_delta" where
  "record_sample v d =
     (let count = sat_add (md_count d) 1 in
      d\<lparr>md_count := count, md_sum := sat_add (md_sum d) v,
        md_min := (if count = 1 then v else min (md_min d) v),
        md_max := (if count = 1 then v else max (md_max d) v)\<rparr>)"

definition record_histogram :: "u64 option \<Rightarrow> metric_delta \<Rightarrow> metric_delta" where
  "record_histogram sample d = (case sample of None \<Rightarrow> d | Some x \<Rightarrow>
     let h = (if md_histogram d = [] then replicate (length LATENCY_HISTOGRAM_BOUNDS_MS + 1) 0 else md_histogram d);
         i = histogram_index x
     in d\<lparr>md_histogram := h[i := sat_add (h ! i) 1]\<rparr>)"

definition merge_pending_delta :: "metric_delta \<Rightarrow> metric_delta \<Rightarrow> metric_delta" where
  "merge_pending_delta t s =
     \<lparr>md_count = sat_add (md_count t) (md_count s), md_sum = sat_add (md_sum t) (md_sum s),
      md_min = (if md_count t = 0 then md_min s else if 0 < md_count s then min (md_min t) (md_min s) else md_min t),
      md_max = (if md_count t = 0 then md_max s else if 0 < md_count s then max (md_max t) (md_max s) else md_max t),
      md_histogram = add_histogram (resize (length (md_histogram s)) (md_histogram t)) (md_histogram s)\<rparr>"

definition empty_metric_value :: metric_value where
  "empty_metric_value = \<lparr>mv_version = STATISTICS_METRIC_VERSION, mv_revision = 0, mv_count = 0, mv_sum = 0,
     mv_min = 0, mv_max = 0, mv_histogram = []\<rparr>"

definition merge_delta :: "metric_value \<Rightarrow> metric_delta \<Rightarrow> metric_value" where
  "merge_delta v d = v\<lparr>mv_count := sat_add (mv_count v) (md_count d), mv_sum := sat_add (mv_sum v) (md_sum d),
     mv_min := (if mv_count v = 0 then md_min d else if 0 < md_count d then min (mv_min v) (md_min d) else mv_min v),
     mv_max := (if mv_count v = 0 then md_max d else if 0 < md_count d then max (mv_max v) (md_max d) else mv_max v),
     mv_histogram := (if md_histogram d = [] then mv_histogram v
        else add_histogram (resize (length (md_histogram d)) (mv_histogram v)) (md_histogram d))\<rparr>"

section \<open>Local statistics\<close>

type_synonym metric_slot = "u64 \<times> metric_identity"

record statistics_env =
  sn_crypto :: crypto
  sn_payload_json :: "statistics_report_payload json"
  sn_identity_string :: "metric_identity to_string"
  sn_deployment_id :: string
  sn_reporter_role :: role
  sn_reporter_id :: string
  sn_certificate_pem :: string
  sn_key :: bytes

text \<open>The accumulator, the detached deltas of a flush that is under way, and the two tables.\<close>

record local_statistics =
  ls_accumulator :: "(metric_slot \<times> metric_delta) list"
  ls_flushing :: "(metric_slot \<times> metric_delta) list"
  ls_dropped :: u64
  ls_metric_5m :: "(bytes \<times> metric_point) list"
  ls_report_outbox :: "(bytes \<times> signed_statistics_report) list"

definition local_statistics_new :: "(bytes \<times> metric_point) list \<Rightarrow> (bytes \<times> signed_statistics_report) list
    \<Rightarrow> local_statistics" where
  "local_statistics_new points outbox = \<lparr>ls_accumulator = [], ls_flushing = [], ls_dropped = 0,
     ls_metric_5m = points, ls_report_outbox = outbox\<rparr>"

text \<open>\<open>BTreeMap::entry(k).or_default()\<close> followed by an update.\<close>

definition update_entry :: "'k \<Rightarrow> (metric_delta \<Rightarrow> metric_delta) \<Rightarrow> ('k \<times> metric_delta) list \<Rightarrow> ('k \<times> metric_delta) list" where
  "update_entry k f m = AList.update k (f (case map_of m k of None \<Rightarrow> metric_delta_default | Some d \<Rightarrow> d)) m"

text \<open>\<open>contended\<close>: the accumulator's lock was taken.\<close>

definition ls_record :: "bool \<Rightarrow> u64 \<Rightarrow> metric_identity \<Rightarrow> u64 \<Rightarrow> u64 option \<Rightarrow> local_statistics \<Rightarrow> local_statistics" where
  "ls_record contended now identity v sample ls =
     (if contended then ls\<lparr>ls_dropped := ls_dropped ls + 1\<rparr>
      else ls\<lparr>ls_accumulator := update_entry (five_minute_bucket_start now, identity)
                (\<lambda>d. record_histogram sample (record_sample v d)) (ls_accumulator ls)\<rparr>)"

text \<open>A batch of samples of one identity, with its bucket and its delta.\<close>

record metric_batch =
  mb_identity :: metric_identity
  mb_bucket_start :: "u64 option"
  mb_delta :: metric_delta

definition metric_batch_new :: "metric_identity \<Rightarrow> metric_batch" where
  "metric_batch_new identity = \<lparr>mb_identity = identity, mb_bucket_start = None, mb_delta = metric_delta_default\<rparr>"

definition batch_flush :: "metric_batch \<Rightarrow> local_statistics \<Rightarrow> metric_batch \<times> local_statistics" where
  "batch_flush b ls =
     (case mb_bucket_start b of
        None \<Rightarrow> (b, ls)
      | Some bucket \<Rightarrow>
          if md_count (mb_delta b) = 0 then (b\<lparr>mb_bucket_start := None\<rparr>, ls)
          else (b\<lparr>mb_bucket_start := None, mb_delta := metric_delta_default\<rparr>,
                ls\<lparr>ls_accumulator := update_entry (bucket, mb_identity b) (\<lambda>d. merge_pending_delta d (mb_delta b))
                     (ls_accumulator ls)\<rparr>))"

definition batch_record :: "u64 \<Rightarrow> u64 \<Rightarrow> metric_batch \<Rightarrow> local_statistics \<Rightarrow> metric_batch \<times> local_statistics" where
  "batch_record now v b ls =
     (let bucket = five_minute_bucket_start now;
          (b1, ls1) = (if mb_bucket_start b \<noteq> Some bucket
             then (case batch_flush b ls of (b', ls') \<Rightarrow> (b'\<lparr>mb_bucket_start := Some bucket\<rparr>, ls')) else (b, ls))
      in (b1\<lparr>mb_delta := record_sample v (mb_delta b1)\<rparr>, ls1))"

definition flush_take :: "local_statistics \<Rightarrow> local_statistics" where
  "flush_take ls = ls\<lparr>ls_accumulator := [], ls_flushing := ls_accumulator ls\<rparr>"

definition restore_deltas :: "local_statistics \<Rightarrow> local_statistics" where
  "restore_deltas ls = ls\<lparr>ls_flushing := [],
     ls_accumulator := foldl (\<lambda>acc (k, d). update_entry k (\<lambda>t. merge_pending_delta t d) acc) (ls_accumulator ls) (ls_flushing ls)\<rparr>"

text \<open>The point and the report for one detached delta.\<close>

definition flush_entry :: "statistics_env \<Rightarrow> bytes \<Rightarrow> (bytes \<times> metric_point) list \<Rightarrow> metric_slot \<times> metric_delta
    \<Rightarrow> (bytes \<times> metric_point \<times> signed_statistics_report) res" where
  "flush_entry E rnd points entry = (case entry of ((bucket_start, identity), delta) \<Rightarrow>
     rbind (metric_key (sn_identity_string E) bucket_start identity) (\<lambda>key.
     let stored = (case map_of points key of None \<Rightarrow> empty_metric_value | Some p \<Rightarrow> mp_value p);
         merged = merge_delta stored delta;
         v = merged\<lparr>mv_revision := sat_add (mv_revision merged) 1\<rparr>;
         payload = \<lparr>srp_version = STATISTICS_REPORT_VERSION, srp_deployment_id = sn_deployment_id E,
            srp_reporter_role = sn_reporter_role E, srp_reporter_id = sn_reporter_id E,
            srp_bucket_start_unix_secs = bucket_start, srp_bucket_end_unix_secs = sat_add bucket_start FIVE_MINUTE_SECS,
            srp_metric_family = mi_metric_family identity, srp_dimensions = mi_dimensions identity,
            srp_report_sequence = mv_revision v, srp_value = v\<rparr>
     in rbind (report_sign (sn_crypto E) (sn_payload_json E) payload (sn_certificate_pem E) (sn_key E) rnd) (\<lambda>report.
        Ok (key, \<lparr>mp_bucket_start_unix_secs = bucket_start, mp_identity = identity, mp_value = v\<rparr>, report))))"

definition build_flush_batch :: "statistics_env \<Rightarrow> bytes \<Rightarrow> local_statistics
    \<Rightarrow> (bytes \<times> metric_point \<times> signed_statistics_report) list res" where
  "build_flush_batch E rnd ls = map_result (flush_entry E rnd (ls_metric_5m ls)) (ls_flushing ls)"

definition flush_commit :: "(bytes \<times> metric_point \<times> signed_statistics_report) list \<Rightarrow> local_statistics \<Rightarrow> local_statistics" where
  "flush_commit rows ls = ls\<lparr>
     ls_metric_5m := foldl (\<lambda>m (k, x). AList.update k (fst x) m) (ls_metric_5m ls) rows,
     ls_report_outbox := foldl (\<lambda>m (k, x). AList.update k (snd x) m) (ls_report_outbox ls) rows\<rparr>"

text \<open>The end of \<open>flush_and_stage\<close>: the number of staged reports, or the error with the deltas put back.
  \<open>fails\<close> is the outcome of the commit; a commit that fails leaves the database as it was.\<close>

definition flush_finish :: "statistics_env \<Rightarrow> bytes \<Rightarrow> io_kind option \<Rightarrow> local_statistics \<Rightarrow> nat res \<times> local_statistics" where
  "flush_finish E rnd fails ls =
     (if ls_flushing ls = [] then (Ok 0, ls)
      else case build_flush_batch E rnd ls of
        Err e \<Rightarrow> (Err e, restore_deltas ls)
      | Ok rows \<Rightarrow> (case fails of
            Some k \<Rightarrow> (Err (Io k), restore_deltas ls)
          | None \<Rightarrow> (Ok (length (ls_flushing ls)), (flush_commit rows ls)\<lparr>ls_flushing := []\<rparr>)))"

definition flush_and_stage :: "statistics_env \<Rightarrow> bytes \<Rightarrow> io_kind option \<Rightarrow> local_statistics \<Rightarrow> nat res \<times> local_statistics" where
  "flush_and_stage E rnd fails ls = flush_finish E rnd fails (flush_take ls)"

definition pending_reports :: "nat \<Rightarrow> local_statistics \<Rightarrow> (bytes \<times> signed_statistics_report) list" where
  "pending_reports limit ls = take limit (sort_key fst (ls_report_outbox ls))"

definition acknowledge_report :: "statistics_env \<Rightarrow> io_kind option \<Rightarrow> bytes \<Rightarrow> string \<Rightarrow> local_statistics
    \<Rightarrow> bool res \<times> local_statistics" where
  "acknowledge_report E fails key digest ls =
     (case map_of (ls_report_outbox ls) key of
        None \<Rightarrow> (Ok False, ls)
      | Some report \<Rightarrow> (case report_digest (sn_crypto E) report of
            Err e \<Rightarrow> (Err e, ls)
          | Ok d \<Rightarrow> if d \<noteq> digest then (Ok False, ls)
              else (case fails of Some k \<Rightarrow> (Err (Io k), ls)
                | None \<Rightarrow> (Ok True, ls\<lparr>ls_report_outbox := AList.delete key (ls_report_outbox ls)\<rparr>))))"

definition statistics_query :: "u64 \<Rightarrow> u64 \<Rightarrow> local_statistics \<Rightarrow> metric_point list" where
  "statistics_query from to ls =
     sort_key (\<lambda>p. (mp_bucket_start_unix_secs p, mi_metric_family (mp_identity p), mi_dimensions (mp_identity p)))
       (filter (\<lambda>p. from \<le> mp_bucket_start_unix_secs p \<and> mp_bucket_start_unix_secs p < to)
          (map snd (sort_key fst (ls_metric_5m ls))))"

text \<open>The dimensions of Travel's flow metrics (\<open>travel-core/src/lib.rs\<close>), in key order.\<close>

record travel_mapping =
  tm_home_id :: string
  tm_service_id :: string
  tm_protocol :: service_protocol
  tm_bind :: string

definition travel_flow_metric_dimensions :: "travel_mapping \<Rightarrow> dimensions" where
  "travel_flow_metric_dimensions mapping =
     [(''home_id'', tm_home_id mapping)]
     @ (if tm_bind mapping \<noteq> [] then [(''mapping'', tm_bind mapping)] else [])
     @ [(''protocol'', case tm_protocol mapping of Tcp \<Rightarrow> ''tcp'' | Udp \<Rightarrow> ''udp''), (''service_id'', tm_service_id mapping)]"

definition travel_udp_metric_dimensions :: "travel_mapping \<Rightarrow> string \<Rightarrow> dimensions" where
  "travel_udp_metric_dimensions mapping relay_id =
     (case travel_flow_metric_dimensions mapping of ds \<Rightarrow> butlast ds @ [(''relay_id'', relay_id), List.last ds])"

section \<open>A reporter as a machine\<close>

text \<open>Samples are recorded directly or through batches by any task; one task flushes, and records may come
  between the moment it detaches the deltas and the end of its commit. \<open>sm_log\<close> is the history of the
  samples that were recorded, by slot.\<close>

record statistics_machine =
  sm_local :: local_statistics
  sm_batches :: "metric_batch list"
  sm_log :: "(metric_slot \<times> u64 \<times> u64 option) list"

datatype statistics_op =
    SampleRecorded bool u64 metric_identity u64 "u64 option"
  | BatchCreated metric_identity
  | BatchRecorded nat u64 u64
  | BatchFlushed nat
  | FlushStarted
  | FlushFinished bytes "io_kind option"
  | ReportAcknowledged "io_kind option" bytes string

definition statistics_start :: statistics_machine where
  "statistics_start = \<lparr>sm_local = local_statistics_new [] [], sm_batches = [], sm_log = []\<rparr>"

fun statistics_step :: "statistics_env \<Rightarrow> statistics_op \<Rightarrow> statistics_machine \<Rightarrow> statistics_machine" where
  "statistics_step E (SampleRecorded contended now identity v t) m =
     m\<lparr>sm_local := ls_record contended now identity v t (sm_local m),
       sm_log := (if contended then sm_log m else ((five_minute_bucket_start now, identity), v, t) # sm_log m)\<rparr>"
| "statistics_step E (BatchCreated identity) m = m\<lparr>sm_batches := sm_batches m @ [metric_batch_new identity]\<rparr>"
| "statistics_step E (BatchRecorded i now v) m =
     (if i < length (sm_batches m) then (case batch_record now v (sm_batches m ! i) (sm_local m) of (b, ls) \<Rightarrow>
        m\<lparr>sm_local := ls, sm_batches := (sm_batches m)[i := b],
          sm_log := ((five_minute_bucket_start now, mb_identity b), v, None) # sm_log m\<rparr>) else m)"
| "statistics_step E (BatchFlushed i) m =
     (if i < length (sm_batches m) then (case batch_flush (sm_batches m ! i) (sm_local m) of (b, ls) \<Rightarrow>
        m\<lparr>sm_local := ls, sm_batches := (sm_batches m)[i := b]\<rparr>) else m)"
| "statistics_step E FlushStarted m =
     (if ls_flushing (sm_local m) = [] then m\<lparr>sm_local := flush_take (sm_local m)\<rparr> else m)"
| "statistics_step E (FlushFinished rnd fails) m = m\<lparr>sm_local := snd (flush_finish E rnd fails (sm_local m))\<rparr>"
| "statistics_step E (ReportAcknowledged fails key digest) m =
     m\<lparr>sm_local := snd (acknowledge_report E fails key digest (sm_local m))\<rparr>"

definition statistics_run :: "statistics_env \<Rightarrow> statistics_op list \<Rightarrow> statistics_machine \<Rightarrow> statistics_machine" where
  "statistics_run E ops m = fold (statistics_step E) ops m"

section \<open>Acceptance on the Server\<close>

record accepted_report =
  ar_digest_sha256 :: string
  ar_payload :: statistics_report_payload

datatype report_acceptance = Inserted | Replaced | Idempotent | Stale

type_synonym accepted_reports = "(bytes \<times> accepted_report) list"

text \<open>One write transaction; when it fails, the table keeps what it had.\<close>

definition store_accept_report :: "dimensions to_string \<Rightarrow> io_kind option \<Rightarrow> verified_statistics_report \<Rightarrow> accepted_reports
    \<Rightarrow> report_acceptance res \<times> accepted_reports" where
  "store_accept_report encode fails r table =
     (case accepted_report_key encode (vsr_payload r) of
        Err e \<Rightarrow> (Err e, table)
      | Ok key \<Rightarrow>
          let revision = mv_revision (srp_value (vsr_payload r));
              acceptance = (case map_of table key of
                 None \<Rightarrow> Ok Inserted
               | Some x \<Rightarrow> if revision < mv_revision (srp_value (ar_payload x)) then Ok Stale
                   else if mv_revision (srp_value (ar_payload x)) = revision
                   then (if ar_digest_sha256 x \<noteq> vsr_digest_sha256 r then Err (Stats ReportConflict) else Ok Idempotent)
                   else Ok Replaced)
          in (case acceptance of
                Err e \<Rightarrow> (Err e, table)
              | Ok a \<Rightarrow> (case fails of Some k \<Rightarrow> (Err (Io k), table)
                  | None \<Rightarrow> (Ok a, if a \<in> {Inserted, Replaced}
                      then AList.update key \<lparr>ar_digest_sha256 = vsr_digest_sha256 r, ar_payload = vsr_payload r\<rparr> table
                      else table))))"

definition validate_statistics_time_window :: "u64 \<Rightarrow> u64 \<Rightarrow> unit res" where
  "validate_statistics_time_window bucket_start now =
     bail_if (sat_add now 300 < bucket_start \<or> 90 * 24 * 60 * 60 < sat_sub now bucket_start) (Stats ReportWindow)"

fun owns_metric :: "role \<Rightarrow> string \<Rightarrow> bool" where
  "owns_metric RTravel family \<longleftrightarrow> prefix ''delivered_download'' family \<or> prefix ''carrier_'' family
     \<or> prefix ''travel_flow_'' family"
| "owns_metric RRelay family \<longleftrightarrow> prefix ''relay_transport_'' family \<or> prefix ''relay_route_'' family"
| "owns_metric RHome family \<longleftrightarrow> prefix ''delivered_upload'' family \<or> prefix ''home_flow_'' family
     \<or> prefix ''target_'' family \<or> prefix ''issuer_'' family"
| "owns_metric RServer family \<longleftrightarrow> False"

definition validate_metric_ownership :: "role \<Rightarrow> string \<Rightarrow> unit res" where
  "validate_metric_ownership role family = bail_if (\<not> owns_metric role family) (Stats ReportOwnership)"

definition authoritative_global_metric :: "accepted_report \<Rightarrow> bool" where
  "authoritative_global_metric r = (let family = srp_metric_family (ar_payload r) in
     case srp_reporter_role (ar_payload r) of
       RTravel \<Rightarrow> prefix ''delivered_download'' family \<or> prefix ''carrier_'' family
     | RHome \<Rightarrow> prefix ''delivered_upload'' family \<or> prefix ''home_flow_accepted'' family
         \<or> prefix ''home_flow_completed'' family \<or> prefix ''home_flow_failed'' family
         \<or> prefix ''target_'' family \<or> prefix ''issuer_'' family
     | RRelay \<Rightarrow> prefix ''relay_'' family
     | RServer \<Rightarrow> False)"

text \<open>The Server's side: the parser of certificates is an argument.\<close>

record acceptance_env =
  an_crypto :: crypto
  an_payload_json :: "statistics_report_payload json"
  an_dimensions_string :: "dimensions to_string"
  an_identity_from_certificate :: "string \<Rightarrow> peer_identity res"
  an_deployment_id :: string

definition check_statistics_report :: "acceptance_env \<Rightarrow> verified_authorization \<Rightarrow> peer_identity
    \<Rightarrow> signed_statistics_report \<Rightarrow> bool \<Rightarrow> u64 \<Rightarrow> verified_statistics_report res" where
  "check_statistics_report E va transport report travel_forwarding_allowed now =
     rbind (an_identity_from_certificate E (ssr_certificate_pem report)) (\<lambda>reporter.
     rbind (report_verify (an_crypto E) (an_payload_json E) report (pi_signing_public_key reporter)) (\<lambda>verified.
     let p = vsr_payload verified in
     rbind (bail_if (srp_deployment_id p \<noteq> an_deployment_id E \<or> srp_reporter_role p \<noteq> pi_role reporter
         \<or> srp_reporter_id p \<noteq> pi_id reporter) (Stats ReporterInconsistent)) (\<lambda>_.
     rbind (if pi_role reporter = RTravel \<and> travel_forwarding_allowed \<and> pi_role transport = RRelay
        then rbind (authorize_management_all va reporter now) (\<lambda>cs. bail_if (cs = []) (Stats ReporterInactive))
        else bail_if (\<not> (pi_role reporter = pi_role transport \<and> pi_id reporter = pi_id transport
           \<and> pi_certificate_sha256 reporter = pi_certificate_sha256 transport)) (Stats ReportUnbound)) (\<lambda>_.
     rbind (validate_metric_ownership (pi_role reporter) (srp_metric_family p)) (\<lambda>_.
     rbind (validate_statistics_time_window (srp_bucket_start_unix_secs p) now) (\<lambda>_. Ok verified))))))"

definition accept_statistics_report :: "acceptance_env \<Rightarrow> io_kind option \<Rightarrow> verified_authorization \<Rightarrow> peer_identity
    \<Rightarrow> signed_statistics_report \<Rightarrow> bool \<Rightarrow> u64 \<Rightarrow> accepted_reports \<Rightarrow> report_acceptance res \<times> accepted_reports" where
  "accept_statistics_report E fails va transport report travel_forwarding_allowed now table =
     (case check_statistics_report E va transport report travel_forwarding_allowed now of
        Err e \<Rightarrow> (Err e, table)
      | Ok verified \<Rightarrow> store_accept_report (an_dimensions_string E) fails verified table)"

definition query_accepted_reports :: "u64 \<Rightarrow> u64 \<Rightarrow> accepted_reports \<Rightarrow> accepted_report list" where
  "query_accepted_reports from to table =
     sort_key (\<lambda>r. (srp_bucket_start_unix_secs (ar_payload r), srp_reporter_id (ar_payload r)))
       (filter (\<lambda>r. from \<le> srp_bucket_start_unix_secs (ar_payload r) \<and> srp_bucket_start_unix_secs (ar_payload r) < to)
          (map snd (sort_key fst table)))"

section \<open>Summaries\<close>

definition accepted_reports_as_metric_points :: "accepted_report list \<Rightarrow> metric_point list" where
  "accepted_reports_as_metric_points rs = map (\<lambda>r. \<lparr>mp_bucket_start_unix_secs = srp_bucket_start_unix_secs (ar_payload r),
     mp_identity = \<lparr>mi_metric_family = srp_metric_family (ar_payload r), mi_dimensions = srp_dimensions (ar_payload r)\<rparr>,
     mp_value = srp_value (ar_payload r)\<rparr>) rs"

record rollup_accumulator =
  ra_bucket_count :: u64
  ra_count :: u64
  ra_sum :: u64
  ra_min :: u64
  ra_max :: u64
  ra_histogram :: "u64 list"

definition rollup_default :: rollup_accumulator where
  "rollup_default = \<lparr>ra_bucket_count = 0, ra_count = 0, ra_sum = 0, ra_min = 0, ra_max = 0, ra_histogram = []\<rparr>"

definition rollup_add :: "metric_value \<Rightarrow> rollup_accumulator \<Rightarrow> rollup_accumulator" where
  "rollup_add v a =
     \<lparr>ra_bucket_count = sat_add (ra_bucket_count a) 1, ra_count = sat_add (ra_count a) (mv_count v),
      ra_sum = sat_add (ra_sum a) (mv_sum v),
      ra_min = (if ra_count a = 0 then mv_min v else if 0 < mv_count v then min (ra_min a) (mv_min v) else ra_min a),
      ra_max = (if ra_count a = 0 then mv_max v else if 0 < mv_count v then max (ra_max a) (mv_max v) else ra_max a),
      ra_histogram = add_histogram (resize (length (mv_histogram v)) (ra_histogram a)) (mv_histogram v)\<rparr>"

text \<open>The rows of \<open>MetricRollup\<close> by key, in key order; its two averages are floating-point quotients of the
  sums and counts here.\<close>

definition summarize_metric_points :: "metric_point list \<Rightarrow> bool \<Rightarrow> ((string \<times> dimensions) \<times> rollup_accumulator) list" where
  "summarize_metric_points points retain_dimensions =
     sort_key fst (foldl (\<lambda>m p.
        let k = (mi_metric_family (mp_identity p), if retain_dimensions then mi_dimensions (mp_identity p) else []);
            a = (case map_of m k of None \<Rightarrow> rollup_default | Some a \<Rightarrow> a)
        in AList.update k (rollup_add (mp_value p) a) m) [] points)"

record node_report_status =
  nrs_reporter_role :: role
  nrs_reporter_id :: string
  nrs_report_count :: u64
  nrs_metric_family_count :: nat
  nrs_bucket_count :: nat
  nrs_missing_five_minute_intervals :: u64
  nrs_last_bucket_start_unix_secs :: u64
  nrs_last_report_age_secs :: u64
  nrs_highest_revision :: u64

definition div_ceil :: "u64 \<Rightarrow> u64 \<Rightarrow> u64" where
  "div_ceil a b = (if a mod b = 0 then a div b else a div b + 1)"

definition node_reports :: "accepted_report list \<Rightarrow> role \<times> string \<Rightarrow> statistics_report_payload list" where
  "node_reports reports node =
     filter (\<lambda>p. (srp_reporter_role p, srp_reporter_id p) = node) (map ar_payload reports)"

definition node_status :: "accepted_report list \<Rightarrow> u64 \<Rightarrow> u64 \<Rightarrow> role \<times> string \<Rightarrow> node_report_status" where
  "node_status reports from now node =
     (let ps = node_reports reports node; buckets = remdups (map srp_bucket_start_unix_secs ps);
          latest = foldl max 0 (map srp_bucket_start_unix_secs ps)
      in \<lparr>nrs_reporter_role = fst node, nrs_reporter_id = snd node,
          nrs_report_count = foldl (\<lambda>n _. sat_add n 1) 0 ps,
          nrs_metric_family_count = length (remdups (map srp_metric_family ps)), nrs_bucket_count = length buckets,
          nrs_missing_five_minute_intervals = sat_sub (div_ceil (sat_sub now from) 300) (word_of_nat (length buckets)),
          nrs_last_bucket_start_unix_secs = latest, nrs_last_report_age_secs = sat_sub now (sat_add latest 300),
          nrs_highest_revision = foldl max 0 (map (\<lambda>p. mv_revision (srp_value p)) ps)\<rparr>)"

definition node_report_status :: "accepted_report list \<Rightarrow> u64 \<Rightarrow> u64 \<Rightarrow> node_report_status list" where
  "node_report_status reports from now =
     map (node_status reports from now) (sort_key (\<lambda>(r, i). (role_debug r, i))
       (remdups (map (\<lambda>r. (srp_reporter_role (ar_payload r), srp_reporter_id (ar_payload r))) reports)))"

section \<open>What an aggregate stands for\<close>

text \<open>A sample is its value and, for a latency, the measured time. An aggregate is a function of the multiset
  of its samples; every counter saturates at the largest \<open>u64\<close>.\<close>

type_synonym sample = "u64 \<times> u64 option"

definition sat :: "nat \<Rightarrow> u64" where
  "sat n = word_of_nat (min n (2 ^ 64 - 1))"

lemma unat_sat: "unat (sat n) = min n (2 ^ 64 - 1)"
  by (simp add: sat_def unat_of_nat)

lemma sat_add_sat: "sat_add (sat a) (sat b) = sat (a + b)"
  by (simp add: word_unat_eq_iff unat_sat_add unat_sat)

lemma sat_Suc: "sat_add (sat a) 1 = sat (Suc a)"
  by (simp add: word_unat_eq_iff unat_sat_add unat_sat)

lemma sat_eq_0 [simp]: "sat n = 0 \<longleftrightarrow> n = 0"
  by (simp add: word_unat_eq_iff unat_sat min_def)

lemma sat_0 [simp]: "sat 0 = 0"
  by simp

lemma sat_Suc_eq_1: "sat (Suc n) = 1 \<longleftrightarrow> n = 0"
  by (simp add: word_unat_eq_iff unat_sat min_def)

definition mset_min :: "u64 multiset \<Rightarrow> u64" where
  "mset_min V = (if V = {#} then 0 else Min_mset V)"

definition mset_max :: "u64 multiset \<Rightarrow> u64" where
  "mset_max V = (if V = {#} then 0 else Max_mset V)"

definition in_slot :: "nat \<Rightarrow> sample \<Rightarrow> bool" where
  "in_slot i x = (case snd x of None \<Rightarrow> False | Some t \<Rightarrow> histogram_index t = i)"

definition histogram_of :: "sample multiset \<Rightarrow> u64 list" where
  "histogram_of A = (if filter_mset (\<lambda>x. snd x \<noteq> None) A = {#} then []
     else map (\<lambda>i. sat (size (filter_mset (in_slot i) A))) [0..<13])"

definition delta_of :: "sample multiset \<Rightarrow> metric_delta" where
  "delta_of A = \<lparr>md_count = sat (size A), md_sum = sat (sum_mset (image_mset (\<lambda>x. unat (fst x)) A)),
     md_min = mset_min (image_mset fst A), md_max = mset_max (image_mset fst A), md_histogram = histogram_of A\<rparr>"

definition value_of :: "u64 \<Rightarrow> sample multiset \<Rightarrow> metric_value" where
  "value_of revision A = \<lparr>mv_version = STATISTICS_METRIC_VERSION, mv_revision = revision, mv_count = sat (size A),
     mv_sum = sat (sum_mset (image_mset (\<lambda>x. unat (fst x)) A)), mv_min = mset_min (image_mset fst A),
     mv_max = mset_max (image_mset fst A), mv_histogram = histogram_of A\<rparr>"

lemma mset_min_union: "mset_min (A + B) = (if A = {#} then mset_min B else if B = {#} then mset_min A
    else min (mset_min A) (mset_min B))"
  by (auto simp: mset_min_def Min_Un)

lemma mset_max_union: "mset_max (A + B) = (if A = {#} then mset_max B else if B = {#} then mset_max A
    else max (mset_max A) (mset_max B))"
  by (auto simp: mset_max_def Max_Un)

lemma add_histogram_map:
  "add_histogram (map f xs) (map g xs) = map (\<lambda>i. sat_add (f i) (g i)) xs"
  by (induction xs) auto

lemma histogram_length: "length (histogram_of A) \<in> {0, 13}"
  by (simp add: histogram_of_def)

lemma no_latencies_slot: "filter_mset (\<lambda>x. snd x \<noteq> None) A = {#} \<Longrightarrow> filter_mset (in_slot i) A = {#}"
  by (auto simp: in_slot_def split: option.splits)

lemma zeros: "map (\<lambda>i. 0) [0..<n] = replicate n 0"
  by (simp add: map_replicate_const)

lemma add_histogram_Nil [simp]: "add_histogram t [] = t"
  by (cases t) auto

lemma histogram_merge: "add_histogram (resize (length (histogram_of B)) (histogram_of A)) (histogram_of B) = histogram_of (A + B)"
proof (cases "filter_mset (\<lambda>x. snd x \<noteq> None) B = {#}")
  case True
  then show ?thesis
    by (simp add: histogram_of_def no_latencies_slot)
next
  case B: False
  have "resize 13 (histogram_of A) = map (\<lambda>i. sat (size (filter_mset (in_slot i) A))) [0..<13]"
    by (simp add: histogram_of_def no_latencies_slot zeros)
  moreover have "histogram_of B = map (\<lambda>i. sat (size (filter_mset (in_slot i) B))) [0..<13]"
    "histogram_of (A + B) = map (\<lambda>i. sat (size (filter_mset (in_slot i) (A + B)))) [0..<13]"
    using B by (auto simp: histogram_of_def)
  ultimately show ?thesis
    by (simp add: add_histogram_map sat_add_sat del: resize.simps)
qed

lemma merge_delta_of: "merge_pending_delta (delta_of A) (delta_of B) = delta_of (A + B)"
  by (auto simp: merge_pending_delta_def delta_of_def sat_add_sat mset_min_union mset_max_union histogram_merge
      word_neq_0_conv [symmetric] simp del: resize.simps)

lemma merge_value_of: "merge_delta (value_of r A) (delta_of B) = value_of r (A + B)"
proof -
  have "histogram_of B = [] \<Longrightarrow> histogram_of (A + B) = histogram_of A"
    using histogram_merge [of B A] by simp
  then show ?thesis
    by (auto simp: merge_delta_def delta_of_def value_of_def sat_add_sat mset_min_union mset_max_union histogram_merge
        word_neq_0_conv [symmetric] simp del: resize.simps)
qed

lemma delta_of_empty: "delta_of {#} = metric_delta_default"
  by (simp add: delta_of_def metric_delta_default_def mset_min_def mset_max_def histogram_of_def)

lemma value_of_empty: "value_of 0 {#} = empty_metric_value"
  by (simp add: value_of_def empty_metric_value_def mset_min_def mset_max_def histogram_of_def)

lemma histogram_index_less: "histogram_index t < 13"
  using length_takeWhile_le [of "\<lambda>b. \<not> t \<le> b" LATENCY_HISTOGRAM_BOUNDS_MS]
  by (simp add: histogram_index_def LATENCY_HISTOGRAM_BOUNDS_MS_def)

lemma bounds_length: "length LATENCY_HISTOGRAM_BOUNDS_MS + 1 = 13"
  by (simp add: LATENCY_HISTOGRAM_BOUNDS_MS_def)

lemma update_map_upt: "i < n \<Longrightarrow> (map f [0..<n])[i := v] = map (\<lambda>j. if j = i then v else f j) [0..<n]"
  by (rule nth_equalityI) auto

lemma record_sample_of: "record_sample v (delta_of A) = (delta_of (add_mset (v, None) A))"
proof -
  have "histogram_of (add_mset (v, None) A) = histogram_of A"
    by (simp add: histogram_of_def in_slot_def)
  moreover have "mset_min (add_mset v (image_mset fst A)) = (if A = {#} then v else min (mset_min (image_mset fst A)) v)"
    "mset_max (add_mset v (image_mset fst A)) = (if A = {#} then v else max (mset_max (image_mset fst A)) v)"
    using mset_min_union [of "image_mset fst A" "{#v#}"] mset_max_union [of "image_mset fst A" "{#v#}"]
    by (auto simp: mset_min_def mset_max_def)
  moreover have "sat_add (sat (sum_mset (image_mset (\<lambda>x. unat (fst x)) A))) v
      = sat (unat v + sum_mset (image_mset (\<lambda>x. unat (fst x)) A))"
    using unat_lt2p [of v] by (simp add: word_unat_eq_iff unat_sat_add unat_sat)
  ultimately show ?thesis
    by (simp add: record_sample_def delta_of_def sat_Suc sat_Suc_eq_1 Let_def)
qed

lemma record_histogram_of: "record_histogram t (delta_of (add_mset (v, None) A)) = delta_of (add_mset (v, t) A)"
proof (cases t)
  case (Some x)
  let ?h = "map (\<lambda>i. sat (size (filter_mset (in_slot i) A))) [0..<13]"
  have "(if histogram_of (add_mset (v, None) A) = [] then replicate (length LATENCY_HISTOGRAM_BOUNDS_MS + 1) 0
      else histogram_of (add_mset (v, None) A)) = ?h"
    unfolding bounds_length by (auto simp: histogram_of_def in_slot_def no_latencies_slot zeros)
  moreover have "?h[histogram_index x := sat_add (?h ! histogram_index x) 1] = histogram_of (add_mset (v, Some x) A)"
    using histogram_index_less [of x] by (simp add: update_map_upt sat_Suc histogram_of_def in_slot_def)
  moreover have "md_histogram (delta_of B) = histogram_of B" for B
    by (simp add: delta_of_def)
  ultimately show ?thesis
    by (simp only: record_histogram_def Some option.case Let_def) (simp add: delta_of_def)
qed (simp add: record_histogram_def)

section \<open>Keys are unambiguous\<close>

lemma key_bytes_inj:
  "to_be_bytes (a :: 16 word) = to_be_bytes b \<Longrightarrow> a = b" "to_be_bytes (t :: u64) = to_be_bytes u \<Longrightarrow> t = u"
proof -
  show "a = b" if "to_be_bytes (a :: 16 word) = to_be_bytes b"
    using arg_cong [OF that, of "from_be_bytes :: bytes \<Rightarrow> 16 word"] by (simp add: from_to_be_bytes)
  show "t = u" if "to_be_bytes (t :: u64) = to_be_bytes u"
    using arg_cong [OF that, of "from_be_bytes :: bytes \<Rightarrow> u64"] by (simp add: from_to_be_bytes)
qed

lemma key_part_inj:
  assumes "key_part a = Ok x" "key_part b = Ok y" "x @ xs = y @ ys"
  shows "a = b \<and> xs = ys"
proof -
  have l: "length a \<le> 65535" "length b \<le> 65535"
    and x: "x = to_be_bytes (word_of_nat (length a) :: 16 word) @ as_bytes a"
    and y: "y = to_be_bytes (word_of_nat (length b) :: 16 word) @ as_bytes b"
    using assms(1, 2) by (auto simp: key_part_def split: if_splits)
  have e: "to_be_bytes (word_of_nat (length a) :: 16 word) = to_be_bytes (word_of_nat (length b) :: 16 word)"
    "as_bytes a @ xs = as_bytes b @ ys"
    using assms(3) by (auto simp: x y)
  from e(1) have "(word_of_nat (length a) :: 16 word) = word_of_nat (length b)"
    by (rule key_bytes_inj)
  then have "unat (word_of_nat (length a) :: 16 word) = unat (word_of_nat (length b) :: 16 word)"
    by simp
  then have "length (as_bytes a) = length (as_bytes b)"
    using l by (simp add: unat_of_nat as_bytes_def)
  with e(2) as_bytes_inj show ?thesis by simp
qed

lemma key_parts_inj:
  "map_result key_part ps = Ok xs \<Longrightarrow> map_result key_part qs = Ok ys \<Longrightarrow> length ps = length qs
     \<Longrightarrow> concat xs = concat ys \<Longrightarrow> ps = qs"
proof (induction ps arbitrary: qs xs ys)
  case (Cons p ps)
  then obtain q qs' where "qs = q # qs'" by (cases qs) auto
  with Cons.prems obtain x xs' y ys' where "key_part p = Ok x" "key_part q = Ok y" "xs = x # xs'" "ys = y # ys'"
    "map_result key_part ps = Ok xs'" "map_result key_part qs' = Ok ys'"
    by auto
  moreover from this have "p = q" "concat xs' = concat ys'"
    using key_part_inj [of p x q y "concat xs'" "concat ys'"] Cons.prems(4) by simp_all
  ultimately show ?case
    using Cons.IH Cons.prems(3) \<open>qs = q # qs'\<close> by (metis length_Cons nat.inject)
qed simp

text \<open>Keys of the same number of parts are equal only when the parts and the time are: no two slots, and
  no two reporters, share a row.\<close>

lemma ordered_key_inj:
  assumes "ordered_key ps t = Ok k" "ordered_key qs u = Ok k" "length ps = length qs"
  shows "ps = qs" "t = u"
proof -
  obtain xs ys where "map_result key_part ps = Ok xs" "map_result key_part qs = Ok ys"
    "to_be_bytes t @ concat xs = to_be_bytes u @ concat ys"
    using assms(1, 2) by (auto simp: ordered_key_def)
  moreover from this have "to_be_bytes t = to_be_bytes u" "concat xs = concat ys"
    by auto
  ultimately show "ps = qs" "t = u"
    using key_parts_inj assms(3) key_bytes_inj(2) by blast+
qed

lemma metric_key_inj:
  assumes "to_string_ok f" "metric_key f b i = Ok k" "metric_key f b' i' = Ok k"
  shows "(b, i) = (b', i')"
proof -
  obtain x y where "f i = Some x" "f i' = Some y" "ordered_key [x] b = Ok k" "ordered_key [y] b' = Ok k"
    using assms(2, 3) by (auto simp: metric_key_def)
  with ordered_key_inj [of "[x]" b k "[y]" b'] assms(1) show ?thesis
    by (auto simp: to_string_ok_def)
qed

section \<open>Conservation of samples\<close>

definition entry :: "'k \<Rightarrow> ('k \<times> metric_delta) list \<Rightarrow> metric_delta" where
  "entry k m = (case map_of m k of None \<Rightarrow> metric_delta_default | Some d \<Rightarrow> d)"

definition stored_value :: "statistics_env \<Rightarrow> (bytes \<times> metric_point) list \<Rightarrow> metric_slot \<Rightarrow> metric_value" where
  "stored_value E points k = (case metric_key (sn_identity_string E) (fst k) (snd k) of
       Err e \<Rightarrow> empty_metric_value
     | Ok key \<Rightarrow> (case map_of points key of None \<Rightarrow> empty_metric_value | Some p \<Rightarrow> mp_value p))"

text \<open>The tables and maps hold the aggregates of the multisets \<open>S\<close> (stored), \<open>F\<close> (being flushed) and \<open>A\<close>
  (accumulated), slot by slot.\<close>

definition holds_samples :: "statistics_env \<Rightarrow> local_statistics \<Rightarrow> (metric_slot \<Rightarrow> sample multiset)
    \<Rightarrow> (metric_slot \<Rightarrow> sample multiset) \<Rightarrow> (metric_slot \<Rightarrow> sample multiset) \<Rightarrow> bool" where
  "holds_samples E ls S F A \<longleftrightarrow> distinct (map fst (ls_accumulator ls)) \<and> distinct (map fst (ls_flushing ls))
     \<and> (\<forall>k. \<exists>r. stored_value E (ls_metric_5m ls) k = value_of r (S k))
     \<and> (\<forall>k. entry k (ls_flushing ls) = delta_of (F k)) \<and> (\<forall>k. entry k (ls_accumulator ls) = delta_of (A k))"

lemma delta_of_default_iff: "delta_of A = metric_delta_default \<longleftrightarrow> A = {#}"
proof
  assume "delta_of A = metric_delta_default"
  then have "md_count (delta_of A) = 0"
    by (simp add: metric_delta_default_def)
  then show "A = {#}"
    by (simp add: delta_of_def)
qed (simp add: delta_of_empty)

lemma entry_update: "entry k' (update_entry k f m) = (if k' = k then f (entry k m) else entry k' m)"
  by (simp add: entry_def update_entry_def update_conv')

lemma distinct_update_entry: "distinct (map fst m) \<Longrightarrow> distinct (map fst (update_entry k f m))"
  by (simp add: update_entry_def distinct_update)

lemma holds_samplesD:
  assumes "holds_samples E ls S F A"
  shows "distinct (map fst (ls_accumulator ls))" "distinct (map fst (ls_flushing ls))"
    "\<exists>r. stored_value E (ls_metric_5m ls) k = value_of r (S k)"
    "entry k (ls_flushing ls) = delta_of (F k)" "entry k (ls_accumulator ls) = delta_of (A k)"
  using assms unfolding holds_samples_def by blast+

lemma holds_samplesI:
  assumes "distinct (map fst (ls_accumulator ls))" "distinct (map fst (ls_flushing ls))"
    "\<And>k. \<exists>r. stored_value E (ls_metric_5m ls) k = value_of r (S k)"
    "\<And>k. entry k (ls_flushing ls) = delta_of (F k)" "\<And>k. entry k (ls_accumulator ls) = delta_of (A k)"
  shows "holds_samples E ls S F A"
  using assms unfolding holds_samples_def by blast

lemma entry_Nil: "entry k [] = delta_of {#}"
  by (simp add: entry_def delta_of_empty)

lemma entry_absent: "entry k m = delta_of F \<Longrightarrow> map_of m k = None \<Longrightarrow> F = {#}"
  using delta_of_default_iff [of F] by (simp add: entry_def)

lemma accumulate:
  assumes "holds_samples E ls S F A" "\<And>B. f (delta_of B) = delta_of (B + C)"
  shows "holds_samples E (ls\<lparr>ls_accumulator := update_entry k f (ls_accumulator ls)\<rparr>) S F (A(k := A k + C))"
  by (rule holds_samplesI)
    (simp_all add: holds_samplesD [OF assms(1)] entry_update distinct_update_entry assms(2))

lemma entry_restored:
  "distinct (map fst fl) \<Longrightarrow> entry k (foldl (\<lambda>acc (k, d). update_entry k (\<lambda>t. merge_pending_delta t d) acc) acc fl)
     = (case map_of fl k of None \<Rightarrow> entry k acc | Some d \<Rightarrow> merge_pending_delta (entry k acc) d)"
proof (induction fl arbitrary: acc)
  case (Cons x fl)
  obtain k' d where x: "x = (k', d)" by (cases x)
  with Cons.prems have "map_of fl k' = None"
    by (simp add: map_of_eq_None_iff)
  with Cons x show ?case
    by (auto simp: entry_update split: option.splits)
qed simp

lemma distinct_restored: "distinct (map fst acc) \<Longrightarrow> distinct (map fst
    (foldl (\<lambda>acc (k, d). update_entry k (\<lambda>t. merge_pending_delta t d) acc) acc fl))"
  by (induction fl arbitrary: acc) (auto simp: distinct_update_entry)

lemma restore_holds:
  assumes "holds_samples E ls S F A"
  shows "holds_samples E (restore_deltas ls) S (\<lambda>_. {#}) (\<lambda>k. A k + F k)"
proof (rule holds_samplesI)
  note d = holds_samplesD [OF assms]
  fix k
  show "entry k (ls_accumulator (restore_deltas ls)) = delta_of (A k + F k)"
  proof (cases "map_of (ls_flushing ls) k")
    case None
    then show ?thesis
      using d(2) d(4, 5) [of k] entry_absent [OF d(4)] by (simp add: restore_deltas_def entry_restored)
  next
    case (Some x)
    then have "x = delta_of (F k)"
      using d(4) [of k] by (simp add: entry_def)
    then show ?thesis
      using d(2, 5) Some by (simp add: restore_deltas_def entry_restored merge_delta_of)
  qed
qed (simp_all add: restore_deltas_def distinct_restored entry_Nil holds_samplesD [OF assms])

lemma take_holds:
  assumes "holds_samples E ls S F A" "ls_flushing ls = []"
  shows "holds_samples E (flush_take ls) S A (\<lambda>_. {#})" "F k = {#}"
proof -
  show "holds_samples E (flush_take ls) S A (\<lambda>_. {#})"
    by (rule holds_samplesI) (simp_all add: flush_take_def entry_Nil holds_samplesD [OF assms(1)])
  show "F k = {#}"
    using entry_absent [OF holds_samplesD(4) [OF assms(1)]] assms(2) by simp
qed

lemma map_of_updates:
  "distinct (map fst rows) \<Longrightarrow> map_of (foldl (\<lambda>m (k, x). AList.update k (g x) m) m rows) key
     = (case map_of rows key of None \<Rightarrow> map_of m key | Some x \<Rightarrow> Some (g x))"
proof (induction rows arbitrary: m)
  case (Cons row rows)
  obtain k x where row: "row = (k, x)" by (cases row)
  with Cons.prems have "map_of rows k = None"
    by (simp add: map_of_eq_None_iff)
  with Cons row show ?case
    by (auto simp: update_conv' split: option.splits)
qed simp

lemma flush_entry_Ok:
  assumes "flush_entry E rnd points (k, d) = Ok (key, p, r)"
  shows "metric_key (sn_identity_string E) (fst k) (snd k) = Ok key"
    "mp_value p = (merge_delta (stored_value E points k) d)\<lparr>mv_revision := sat_add (mv_revision (stored_value E points k)) 1\<rparr>"
  using assms by (auto simp: flush_entry_def stored_value_def Let_def merge_delta_def split: prod.splits)

lemma flush_rows:
  assumes "to_string_ok (sn_identity_string E)" "list_all2 (\<lambda>x y. flush_entry E rnd points x = Ok y) fl rows"
    "distinct (map fst fl)"
  shows "distinct (map fst rows)"
    "k \<in> fst ` set fl \<longleftrightarrow> (\<exists>key. metric_key (sn_identity_string E) (fst k) (snd k) = Ok key \<and> key \<in> fst ` set rows)"
  using assms(2, 3)
proof (induction fl rows arbitrary: k rule: list_all2_induct)
  case (Cons x fl row rows)
  obtain k0 d where x0: "x = (k0, d)" by (cases x)
  obtain key p r where row: "row = (key, p, r)" by (cases row) auto
  note x = x0 row
  have "flush_entry E rnd points (k0, d) = Ok (key, p, r)"
    using Cons.hyps(1) x by simp
  note key = flush_entry_Ok(1) [OF this]
  have same: "k = k0" if "metric_key (sn_identity_string E) (fst k) (snd k) = Ok key" for k
    using metric_key_inj [OF assms(1) that key] by simp
  case 1
  then show ?case
    using Cons.IH(1) Cons.IH(2) [of k0] key x by auto
  case 2
  then have i: "k \<in> fst ` set fl \<longleftrightarrow>
      (\<exists>key. metric_key (sn_identity_string E) (fst k) (snd k) = Ok key \<and> key \<in> fst ` set rows)"
    using Cons.IH(2) by simp
  show ?case
  proof (cases "k = k0")
    case False
    then have "metric_key (sn_identity_string E) (fst k) (snd k) \<noteq> Ok key"
      using same by blast
    then show ?thesis
      using False i x by auto
  qed (simp add: x key)
qed simp_all

lemma commit_holds:
  assumes "holds_samples E ls S F A" "to_string_ok (sn_identity_string E)" "build_flush_batch E rnd ls = Ok rows"
  shows "holds_samples E ((flush_commit rows ls)\<lparr>ls_flushing := []\<rparr>) (\<lambda>k. S k + F k) (\<lambda>_. {#}) A"
proof (rule holds_samplesI)
  note d = holds_samplesD [OF assms(1)]
  have rows: "list_all2 (\<lambda>x y. flush_entry E rnd (ls_metric_5m ls) x = Ok y) (ls_flushing ls) rows"
    using assms(3) by (simp add: build_flush_batch_def map_result_Ok)
  note fr = flush_rows [OF assms(2) rows d(2)]
  fix k
  show "\<exists>r. stored_value E (ls_metric_5m ((flush_commit rows ls)\<lparr>ls_flushing := []\<rparr>)) k = value_of r (S k + F k)"
  proof (cases "map_of (ls_flushing ls) k")
    case None
    then have "k \<notin> fst ` set (ls_flushing ls)"
      by (simp add: map_of_eq_None_iff)
    then have "stored_value E (ls_metric_5m (flush_commit rows ls)) k = stored_value E (ls_metric_5m ls) k"
      using fr(1) fr(2) [of k] by (auto simp: stored_value_def flush_commit_def map_of_updates map_of_eq_None_iff [THEN iffD2]
          split: result.splits)
    then show ?thesis
      using d(3) [of k] entry_absent [OF d(4) None] by simp
  next
    case (Some x)
    then have x: "x = delta_of (F k)"
      using d(4) [of k] by (simp add: entry_def)
    obtain i where i: "i < length (ls_flushing ls)" "ls_flushing ls ! i = (k, x)"
      using map_of_SomeD [OF Some] by (meson in_set_conv_nth)
    obtain key p r where row: "rows ! i = (key, p, r)"
      by (cases "rows ! i") auto
    then have f: "flush_entry E rnd (ls_metric_5m ls) (k, x) = Ok (key, p, r)" and "i < length rows"
      using rows i by (auto simp: list_all2_conv_all_nth)
    then have "map_of rows key = Some (p, r)"
      using fr(1) row by (metis map_of_is_SomeI nth_mem)
    then have "stored_value E (ls_metric_5m (flush_commit rows ls)) k = mp_value p"
      using flush_entry_Ok(1) [OF f] fr(1) by (simp add: stored_value_def flush_commit_def map_of_updates)
    moreover obtain r0 where "stored_value E (ls_metric_5m ls) k = value_of r0 (S k)"
      using d(3) by blast
    then have "mp_value p = value_of (sat_add r0 1) (S k + F k)"
      using flush_entry_Ok(2) [OF f] x by (simp add: merge_value_of) (simp add: value_of_def)
    ultimately show ?thesis by auto
  qed
qed (simp_all add: flush_commit_def entry_Nil holds_samplesD [OF assms(1)])

subsection \<open>Batches\<close>

definition batch_slot :: "metric_batch \<Rightarrow> metric_slot option" where
  "batch_slot b = map_option (\<lambda>t. (t, mb_identity b)) (mb_bucket_start b)"

definition batch_share :: "metric_slot \<Rightarrow> metric_batch \<Rightarrow> sample multiset \<Rightarrow> sample multiset" where
  "batch_share k b B = (if batch_slot b = Some k then B else {#})"

definition batch_holds :: "metric_batch \<Rightarrow> sample multiset \<Rightarrow> bool" where
  "batch_holds b B \<longleftrightarrow> mb_delta b = delta_of B \<and> (mb_bucket_start b = None \<longrightarrow> B = {#})"

lemma batch_flush_holds:
  assumes "holds_samples E ls S F A" "batch_holds b B" "batch_flush b ls = (b', ls')"
  obtains A' where "holds_samples E ls' S F A'" "batch_holds b' {#}" "mb_bucket_start b' = None"
    "mb_identity b' = mb_identity b" "\<And>k. A' k = A k + batch_share k b B"
proof (cases "mb_bucket_start b = None \<or> md_count (mb_delta b) = 0")
  case True
  then have "B = {#}"
    using assms(2) by (auto simp: batch_holds_def delta_of_def)
  with True assms that show thesis
    by (auto simp: batch_flush_def batch_holds_def batch_share_def split: option.splits if_splits)
next
  case False
  then obtain t where t: "mb_bucket_start b = Some t" by auto
  have d: "mb_delta b = delta_of B"
    using assms(2) by (simp add: batch_holds_def)
  have "holds_samples E ls' S F (A((t, mb_identity b) := A (t, mb_identity b) + B))"
    using accumulate [OF assms(1), of "\<lambda>x. merge_pending_delta x (mb_delta b)" B] assms(3) False t
    by (auto simp: batch_flush_def d merge_delta_of)
  moreover have "b' = b\<lparr>mb_bucket_start := None, mb_delta := metric_delta_default\<rparr>"
    using assms(3) False t by (auto simp: batch_flush_def)
  ultimately show thesis
    by (intro that [of "A((t, mb_identity b) := A (t, mb_identity b) + B)"])
      (auto simp: batch_holds_def delta_of_empty batch_share_def batch_slot_def t)
qed

lemma batch_record_holds:
  assumes "holds_samples E ls S F A" "batch_holds b B" "batch_record now v b ls = (b', ls')"
  obtains A' B' where "holds_samples E ls' S F A'" "batch_holds b' B'" "mb_identity b' = mb_identity b"
    "\<And>k. A' k + batch_share k b' B' = A k + batch_share k b B
       + (if k = (five_minute_bucket_start now, mb_identity b) then {#(v, None)#} else {#})"
proof (cases "mb_bucket_start b = Some (five_minute_bucket_start now)")
  case True
  with assms that [of A "add_mset (v, None) B"] show thesis
    by (auto simp: batch_record_def batch_holds_def record_sample_of batch_share_def batch_slot_def)
next
  case False
  obtain b1 ls1 where f: "batch_flush b ls = (b1, ls1)" by (meson surj_pair)
  obtain A' where A': "holds_samples E ls1 S F A'" "batch_holds b1 {#}" "mb_bucket_start b1 = None"
    "mb_identity b1 = mb_identity b" "\<And>k. A' k = A k + batch_share k b B"
    using batch_flush_holds [OF assms(1, 2) f] by blast
  have "b' = b1\<lparr>mb_bucket_start := Some (five_minute_bucket_start now), mb_delta := record_sample v (mb_delta b1)\<rparr>"
    "ls' = ls1"
    using assms(3) False f by (auto simp: batch_record_def Let_def)
  with A' show thesis
    by (intro that [of A' "{#(v, None)#}"])
      (auto simp: batch_holds_def record_sample_of batch_share_def batch_slot_def)
qed

subsection \<open>The machine\<close>

definition samples :: "statistics_machine \<Rightarrow> metric_slot \<Rightarrow> sample multiset" where
  "samples m k = mset (map snd (filter (\<lambda>x. fst x = k) (sm_log m)))"

definition statistics_inv :: "statistics_env \<Rightarrow> statistics_machine \<Rightarrow> bool" where
  "statistics_inv E m \<longleftrightarrow> (\<exists>S F A Bs. holds_samples E (sm_local m) S F A \<and> list_all2 batch_holds (sm_batches m) Bs
     \<and> (\<forall>k. samples m k = S k + F k + A k + sum_list (map2 (batch_share k) (sm_batches m) Bs)))"

lemma sum_list_update_mset: "i < length xs \<Longrightarrow> sum_list (xs[i := y]) + xs ! i = sum_list xs + (y :: 'a multiset)"
proof (induction xs arbitrary: i)
  case (Cons x xs)
  then show ?case
    by (cases i) (auto simp: ac_simps)
qed simp

lemma batches_update:
  assumes "list_all2 batch_holds bs Bs" "i < length bs" "batch_holds b B"
  shows "list_all2 batch_holds (bs[i := b]) (Bs[i := B])"
    "sum_list (map2 (batch_share k) (bs[i := b]) (Bs[i := B])) + batch_share k (bs ! i) (Bs ! i)
       = sum_list (map2 (batch_share k) bs Bs) + batch_share k b B"
proof -
  have l: "length bs = length Bs"
    using assms(1) by (rule list_all2_lengthD)
  show "list_all2 batch_holds (bs[i := b]) (Bs[i := B])"
    using assms by (simp add: list_all2_update_cong)
  have "map2 (batch_share k) (bs[i := b]) (Bs[i := B]) = (map2 (batch_share k) bs Bs)[i := batch_share k b B]"
    by (simp add: zip_update map_update)
  then show "sum_list (map2 (batch_share k) (bs[i := b]) (Bs[i := B])) + batch_share k (bs ! i) (Bs ! i)
       = sum_list (map2 (batch_share k) bs Bs) + batch_share k b B"
    using sum_list_update_mset [of i "map2 (batch_share k) bs Bs"] assms(2) l by simp
qed

lemma statistics_invI:
  assumes "holds_samples E (sm_local m) S F A" "list_all2 batch_holds (sm_batches m) Bs"
    "\<And>k. samples m k = S k + F k + A k + sum_list (map2 (batch_share k) (sm_batches m) Bs)"
  shows "statistics_inv E m"
  using assms unfolding statistics_inv_def by blast

lemma record_inv:
  assumes "statistics_inv E m"
  shows "statistics_inv E (statistics_step E (SampleRecorded contended now identity v x) m)"
proof -
  obtain S F A Bs where h: "holds_samples E (sm_local m) S F A" and b: "list_all2 batch_holds (sm_batches m) Bs"
    and t: "\<And>k. samples m k = S k + F k + A k + sum_list (map2 (batch_share k) (sm_batches m) Bs)"
    using assms unfolding statistics_inv_def by blast
  let ?k = "(five_minute_bucket_start now, identity)"
  show ?thesis
  proof (cases contended)
    case True
    have "holds_samples E (ls_record True now identity v x (sm_local m)) S F A"
      using h by (simp add: ls_record_def holds_samples_def)
    then show ?thesis
      by (intro statistics_invI [where Bs = Bs and S = S and F = F and A = A]) (use b t True in \<open>simp_all add: samples_def\<close>)
  next
    case False
    have "holds_samples E (ls_record False now identity v x (sm_local m)) S F (A(?k := A ?k + {#(v, x)#}))"
      using accumulate [OF h, of "\<lambda>d. record_histogram x (record_sample v d)" "{#(v, x)#}" ?k]
      by (simp add: ls_record_def record_sample_of record_histogram_of)
    then show ?thesis
      by (intro statistics_invI [where Bs = Bs and S = S and F = F and A = "A(?k := A ?k + {#(v, x)#})"])
        (use b t False in \<open>simp_all add: samples_def\<close>)
  qed
qed

text \<open>A step that replaces one batch and moves samples between it and the accumulator.\<close>

lemma replace_batch_inv:
  assumes "list_all2 batch_holds (sm_batches m) Bs" "i < length (sm_batches m)" "batch_holds b' B'"
    and t: "\<And>k. samples m k = S k + F k + A k + sum_list (map2 (batch_share k) (sm_batches m) Bs)"
    and m': "holds_samples E (sm_local m') S F A'" "sm_batches m' = (sm_batches m)[i := b']"
    and D: "\<And>k. A' k + batch_share k b' B' = A k + batch_share k (sm_batches m ! i) (Bs ! i) + D k"
      "\<And>k. samples m' k = samples m k + D k"
  shows "statistics_inv E m'"
proof (rule statistics_invI [OF m'(1), of "Bs[i := B']"])
  note u = batches_update [OF assms(1-3)]
  show "list_all2 batch_holds (sm_batches m') (Bs[i := B'])"
    using u(1) m'(2) by simp
  fix k
  let ?X = "sum_list (map2 (batch_share k) (sm_batches m) Bs)"
  let ?X' = "sum_list (map2 (batch_share k) (sm_batches m') (Bs[i := B']))"
  have "A' k + ?X' + batch_share k (sm_batches m ! i) (Bs ! i) = A' k + (?X + batch_share k b' B')"
    using u(2) [of k] m'(2) by (simp add: add.assoc)
  also have "\<dots> = (A' k + batch_share k b' B') + ?X"
    by (simp add: ac_simps)
  also have "\<dots> = (A k + ?X + D k) + batch_share k (sm_batches m ! i) (Bs ! i)"
    unfolding D(1) by (simp add: ac_simps)
  finally have "A' k + ?X' = A k + ?X + D k"
    by simp
  then show "samples m' k = S k + F k + A' k + ?X'"
    using t [of k] D(2) [of k] by (metis (no_types, lifting) add.assoc)
qed

lemma batch_inv:
  assumes "statistics_inv E m" "op = BatchRecorded i now v \<or> op = BatchFlushed i" "i < length (sm_batches m)"
  shows "statistics_inv E (statistics_step E op m)"
proof -
  obtain S F A Bs where h: "holds_samples E (sm_local m) S F A" and b: "list_all2 batch_holds (sm_batches m) Bs"
    and t: "\<And>k. samples m k = S k + F k + A k + sum_list (map2 (batch_share k) (sm_batches m) Bs)"
    using assms(1) unfolding statistics_inv_def by blast
  have bi: "batch_holds (sm_batches m ! i) (Bs ! i)"
    using b assms(3) by (simp add: list_all2_conv_all_nth)
  from assms(2) show ?thesis
  proof
    assume op: "op = BatchRecorded i now v"
    obtain b' ls' where r: "batch_record now v (sm_batches m ! i) (sm_local m) = (b', ls')"
      by (meson surj_pair)
    obtain A' B' where A': "holds_samples E ls' S F A'" "batch_holds b' B'" "mb_identity b' = mb_identity (sm_batches m ! i)"
      "\<And>k. A' k + batch_share k b' B' = A k + batch_share k (sm_batches m ! i) (Bs ! i)
         + (if k = (five_minute_bucket_start now, mb_identity (sm_batches m ! i)) then {#(v, None)#} else {#})"
      using batch_record_holds [OF h bi r] by blast
    show ?thesis
      by (rule replace_batch_inv [OF b assms(3) A'(2) t _ _ A'(4)]) (use A' assms(3) r op in \<open>simp_all add: samples_def\<close>)
  next
    assume op: "op = BatchFlushed i"
    obtain b' ls' where r: "batch_flush (sm_batches m ! i) (sm_local m) = (b', ls')"
      by (meson surj_pair)
    obtain A' where A': "holds_samples E ls' S F A'" "batch_holds b' {#}"
      "\<And>k. A' k = A k + batch_share k (sm_batches m ! i) (Bs ! i)"
      using batch_flush_holds [OF h bi r] by blast
    show ?thesis
      by (rule replace_batch_inv [OF b assms(3) A'(2) t, of E _ A' "\<lambda>_. {#}"])
        (use A' assms(3) r op in \<open>simp_all add: samples_def batch_share_def\<close>)
  qed
qed

lemma finish_holds:
  assumes "holds_samples E ls S F A" "to_string_ok (sn_identity_string E)"
  obtains S' F' A' where "holds_samples E (snd (flush_finish E rnd fails ls)) S' F' A'"
    "\<And>k. S' k + F' k + A' k = S k + F k + A k"
proof -
  consider "snd (flush_finish E rnd fails ls) = ls" | "snd (flush_finish E rnd fails ls) = restore_deltas ls"
    | rows where "build_flush_batch E rnd ls = Ok rows"
      "snd (flush_finish E rnd fails ls) = (flush_commit rows ls)\<lparr>ls_flushing := []\<rparr>"
    by (cases "ls_flushing ls = []"; cases "build_flush_batch E rnd ls"; cases fails) (auto simp: flush_finish_def)
  then show thesis
  proof cases
    case 1
    then show thesis using that assms(1) by simp
  next
    case 2
    then show thesis using that [of S "\<lambda>_. {#}" "\<lambda>k. A k + F k"] restore_holds [OF assms(1)] by (simp add: ac_simps)
  next
    case 3
    then show thesis using that [of "\<lambda>k. S k + F k" "\<lambda>_. {#}" A] commit_holds [OF assms] by simp
  qed
qed

lemma statistics_step_inv:
  assumes "to_string_ok (sn_identity_string E)" "statistics_inv E m"
  shows "statistics_inv E (statistics_step E op m)"
proof -
  obtain S F A Bs where h: "holds_samples E (sm_local m) S F A" and b: "list_all2 batch_holds (sm_batches m) Bs"
    and t: "\<And>k. samples m k = S k + F k + A k + sum_list (map2 (batch_share k) (sm_batches m) Bs)"
    using assms(2) unfolding statistics_inv_def by blast
  have keep: "statistics_inv E (m\<lparr>sm_local := ls\<rparr>)"
    if "holds_samples E ls S' F' A'" "\<And>k. S' k + F' k + A' k = S k + F k + A k" for ls S' F' A'
    by (rule statistics_invI [where Bs = Bs and S = S' and F = F' and A = A']) (use that b t in \<open>simp_all add: samples_def\<close>)
  show ?thesis
  proof (cases op)
    case (BatchCreated identity)
    have "list_all2 batch_holds (sm_batches m @ [metric_batch_new identity]) (Bs @ [{#}])"
      using b by (auto simp: metric_batch_new_def batch_holds_def delta_of_empty intro: list_all2_appendI)
    then show ?thesis
      by (intro statistics_invI [where Bs = "Bs @ [{#}]" and S = S and F = F and A = A])
        (use h t BatchCreated list_all2_lengthD [OF b] in \<open>simp_all add: samples_def batch_share_def\<close>)
  next
    case FlushStarted
    then show ?thesis
      using keep [OF take_holds(1) [OF h]] take_holds(2) [OF h] assms(2) by (simp add: ac_simps)
  next
    case (FlushFinished rnd fails)
    then show ?thesis
      using finish_holds [OF h assms(1)] keep by (metis statistics_step.simps(6))
  next
    case (ReportAcknowledged fails key digest)
    have "holds_samples E (snd (acknowledge_report E fails key digest (sm_local m))) S F A"
      using h by (simp add: acknowledge_report_def holds_samples_def split: option.splits result.splits)
    then show ?thesis
      using keep ReportAcknowledged by simp
  next
    case (BatchRecorded i now v)
    then show ?thesis
      using batch_inv [OF assms(2), of op i now v] assms(2) by (cases "i < length (sm_batches m)") simp_all
  next
    case (BatchFlushed i)
    then show ?thesis
      using batch_inv [OF assms(2), of op i] assms(2) by (cases "i < length (sm_batches m)") simp_all
  qed (use assms(2) record_inv in blast)
qed

subsection \<open>The outbox\<close>

definition point_payload :: "statistics_env \<Rightarrow> metric_point \<Rightarrow> statistics_report_payload" where
  "point_payload E p = \<lparr>srp_version = STATISTICS_REPORT_VERSION, srp_deployment_id = sn_deployment_id E,
     srp_reporter_role = sn_reporter_role E, srp_reporter_id = sn_reporter_id E,
     srp_bucket_start_unix_secs = mp_bucket_start_unix_secs p,
     srp_bucket_end_unix_secs = sat_add (mp_bucket_start_unix_secs p) FIVE_MINUTE_SECS,
     srp_metric_family = mi_metric_family (mp_identity p), srp_dimensions = mi_dimensions (mp_identity p),
     srp_report_sequence = mv_revision (mp_value p), srp_value = mp_value p\<rparr>"

definition signs_point :: "statistics_env \<Rightarrow> metric_point \<Rightarrow> signed_statistics_report \<Rightarrow> bool" where
  "signs_point E p r \<longleftrightarrow> (\<exists>rnd. report_sign (sn_crypto E) (sn_payload_json E) (point_payload E p) (sn_certificate_pem E)
     (sn_key E) rnd = Ok r)"

definition outbox_current :: "statistics_env \<Rightarrow> local_statistics \<Rightarrow> bool" where
  "outbox_current E ls \<longleftrightarrow> (\<forall>key r. map_of (ls_report_outbox ls) key = Some r
     \<longrightarrow> (\<exists>p. map_of (ls_metric_5m ls) key = Some p \<and> signs_point E p r))"

lemma flush_entry_signs: "flush_entry E rnd points x = Ok (key, p, r) \<Longrightarrow> signs_point E p r"
  by (auto simp: flush_entry_def Let_def signs_point_def point_payload_def split: prod.splits)

lemma commit_outbox:
  assumes "outbox_current E ls" "distinct (map fst (ls_flushing ls))" "to_string_ok (sn_identity_string E)"
    "build_flush_batch E rnd ls = Ok rows"
  shows "outbox_current E (flush_commit rows ls)"
proof -
  have rows: "list_all2 (\<lambda>x y. flush_entry E rnd (ls_metric_5m ls) x = Ok y) (ls_flushing ls) rows"
    using assms(4) by (simp add: build_flush_batch_def map_result_Ok)
  note fr = flush_rows(1) [OF assms(3) rows assms(2)]
  have "signs_point E p r" if row: "(key, p, r) \<in> set rows" for key p r
  proof -
    obtain i where i: "i < length rows" "rows ! i = (key, p, r)"
      using row by (meson in_set_conv_nth)
    then have "flush_entry E rnd (ls_metric_5m ls) (ls_flushing ls ! i) = Ok (key, p, r)"
      using rows by (simp add: list_all2_conv_all_nth)
    then show ?thesis by (rule flush_entry_signs)
  qed
  then show ?thesis
    using assms(1) fr
    by (auto simp: outbox_current_def flush_commit_def map_of_updates dest: map_of_SomeD split: option.splits)
qed

lemma outbox_keep: "outbox_current E ls \<Longrightarrow> ls_metric_5m ls' = ls_metric_5m ls
    \<Longrightarrow> map_of (ls_report_outbox ls') \<subseteq>\<^sub>m map_of (ls_report_outbox ls) \<Longrightarrow> outbox_current E ls'"
  unfolding outbox_current_def map_le_def by (metis domI)

lemma batch_tables:
  "batch_flush b ls = (b', ls') \<Longrightarrow> ls_metric_5m ls' = ls_metric_5m ls \<and> ls_report_outbox ls' = ls_report_outbox ls"
  "batch_record now v b ls = (b', ls') \<Longrightarrow> ls_metric_5m ls' = ls_metric_5m ls \<and> ls_report_outbox ls' = ls_report_outbox ls"
proof -
  show f: "ls_metric_5m ls' = ls_metric_5m ls \<and> ls_report_outbox ls' = ls_report_outbox ls"
    if "batch_flush b ls = (b', ls')" for b'
    using that by (auto simp: batch_flush_def split: option.splits if_splits)
  obtain b1 ls1 where "batch_flush b ls = (b1, ls1)" by (meson surj_pair)
  then show "ls_metric_5m ls' = ls_metric_5m ls \<and> ls_report_outbox ls' = ls_report_outbox ls"
    if "batch_record now v b ls = (b', ls')"
    using that f by (auto simp: batch_record_def Let_def split: if_splits)
qed

lemma statistics_step_outbox:
  assumes "to_string_ok (sn_identity_string E)" "statistics_inv E m" "outbox_current E (sm_local m)"
  shows "outbox_current E (sm_local (statistics_step E op m))"
proof (cases op)
  case (FlushFinished rnd fails)
  have "distinct (map fst (ls_flushing (sm_local m)))"
    using assms(2) by (auto simp: statistics_inv_def dest: holds_samplesD(2))
  then have "outbox_current E ((flush_commit rows (sm_local m))\<lparr>ls_flushing := []\<rparr>)"
    if "build_flush_batch E rnd (sm_local m) = Ok rows" for rows
    using commit_outbox [OF assms(3) _ assms(1) that] by (simp add: outbox_current_def)
  moreover have "outbox_current E (restore_deltas (sm_local m))"
    using assms(3) by (simp add: outbox_current_def restore_deltas_def)
  ultimately show ?thesis
    using assms(3) FlushFinished by (auto simp: flush_finish_def split: result.splits option.splits)
next
  case (ReportAcknowledged fails key digest)
  have "map_of (ls_report_outbox (snd (acknowledge_report E fails key digest (sm_local m)))) \<subseteq>\<^sub>m map_of (ls_report_outbox (sm_local m))"
    "ls_metric_5m (snd (acknowledge_report E fails key digest (sm_local m))) = ls_metric_5m (sm_local m)"
    by (auto simp: acknowledge_report_def delete_conv' map_le_def split: option.splits result.splits)
  then show ?thesis
    using outbox_keep [OF assms(3)] ReportAcknowledged by simp
next
  case (BatchRecorded i now v)
  obtain b' ls' where "batch_record now v (sm_batches m ! i) (sm_local m) = (b', ls')" by (meson surj_pair)
  then show ?thesis
    using batch_tables(2) outbox_keep [OF assms(3), of ls'] assms(3) BatchRecorded by simp
next
  case (BatchFlushed i)
  obtain b' ls' where "batch_flush (sm_batches m ! i) (sm_local m) = (b', ls')" by (meson surj_pair)
  then show ?thesis
    using batch_tables(1) outbox_keep [OF assms(3), of ls'] assms(3) BatchFlushed by simp
qed (use assms in \<open>simp_all add: outbox_current_def ls_record_def flush_take_def\<close>)

lemma statistics_run_inv:
  assumes "to_string_ok (sn_identity_string E)"
  shows "statistics_inv E (statistics_run E ops statistics_start)
    \<and> outbox_current E (sm_local (statistics_run E ops statistics_start))"
  unfolding statistics_run_def
proof (rule fold_invariant [where Q = "\<lambda>_. True"])
  show "statistics_inv E statistics_start \<and> outbox_current E (sm_local statistics_start)"
    by (intro conjI statistics_invI [of E _ "\<lambda>_. {#}" "\<lambda>_. {#}" "\<lambda>_. {#}" "[]"] holds_samplesI)
      (auto simp: statistics_start_def local_statistics_new_def samples_def entry_Nil outbox_current_def stored_value_def
        value_of_empty [symmetric] split: result.splits)
qed (use assms statistics_step_inv statistics_step_outbox in blast)+

text \<open>The deltas of a slot that are not in the database yet.\<close>

definition unflushed :: "statistics_machine \<Rightarrow> metric_slot \<Rightarrow> metric_delta list" where
  "unflushed m k = [entry k (ls_flushing (sm_local m)), entry k (ls_accumulator (sm_local m))]
     @ map mb_delta (filter (\<lambda>b. batch_slot b = Some k) (sm_batches m))"

lemma merge_batches:
  "list_all2 batch_holds bs Bs \<Longrightarrow> foldl merge_delta (value_of r X) (map mb_delta (filter (\<lambda>b. batch_slot b = Some k) bs))
     = value_of r (X + sum_list (map2 (batch_share k) bs Bs))"
proof (induction bs Bs arbitrary: X rule: list_all2_induct)
  case (Cons b bs B Bs)
  then show ?case
    by (simp add: batch_share_def batch_holds_def merge_value_of add.assoc)
qed simp

section \<open>Signed reports and their acceptance\<close>

lemma report_verifies:
  assumes "hex_ok C" "ecdsa_ok C" "json_ok J" "report_sign C J p pem key rnd = Ok r"
  shows "\<exists>v. report_verify C J r (ecdsa_public C key) = Ok v \<and> vsr_payload v = p"
  using assms by (auto simp: report_sign_def report_verify_def json_ok_def dest: ecdsa_verifies)

definition revision_at :: "bytes \<Rightarrow> accepted_reports \<Rightarrow> u64" where
  "revision_at key table = (case map_of table key of None \<Rightarrow> 0 | Some r \<Rightarrow> mv_revision (srp_value (ar_payload r)))"

definition digest_at :: "bytes \<Rightarrow> accepted_reports \<Rightarrow> string option" where
  "digest_at key table = map_option ar_digest_sha256 (map_of table key)"

datatype acceptance_call = ReportReceived "io_kind option" verified_authorization peer_identity signed_statistics_report bool u64

definition acceptance_step :: "acceptance_env \<Rightarrow> acceptance_call \<Rightarrow> accepted_reports \<Rightarrow> accepted_reports" where
  "acceptance_step E c table = (case c of ReportReceived fails va transport report allowed now \<Rightarrow>
     snd (accept_statistics_report E fails va transport report allowed now table))"

text \<open>Who may have sent a report of this reporter: the reporter itself, authenticated by the same certificate, or,
  for a Travel and where forwarding is allowed, a Relay while the Travel has an active credential for its
  management key (one of the snapshot that the authorization was verified from).\<close>

definition sent_for :: "verified_authorization \<Rightarrow> peer_identity \<Rightarrow> peer_identity \<Rightarrow> bool \<Rightarrow> u64 \<Rightarrow> bool" where
  "sent_for va transport reporter allowed now \<longleftrightarrow>
     pi_role transport = pi_role reporter \<and> pi_id transport = pi_id reporter
       \<and> pi_certificate_sha256 transport = pi_certificate_sha256 reporter
     \<or> pi_role reporter = RTravel \<and> allowed \<and> pi_role transport = RRelay
       \<and> (\<exists>cs. authorize_management_all va reporter now = Ok cs \<and> cs \<noteq> [])
       \<and> (\<forall>C J JS snap auths dep. authorization_verify C J JS snap auths dep = Ok va
            \<longrightarrow> identity_active_at reporter now \<and> entitled C J snap auths dep management_key reporter now \<noteq> {})"

text \<open>The row comes from this call: its report verifies under the key of the certificate it carries, names that
  certificate's holder and this deployment, was sent for that holder, and is recent.\<close>

definition accepted_from :: "acceptance_env \<Rightarrow> acceptance_call \<Rightarrow> accepted_report \<Rightarrow> bool" where
  "accepted_from E c r \<longleftrightarrow> (case c of ReportReceived fails va transport report allowed now \<Rightarrow>
     (\<exists>reporter v. an_identity_from_certificate E (ssr_certificate_pem report) = Ok reporter
       \<and> report_verify (an_crypto E) (an_payload_json E) report (pi_signing_public_key reporter) = Ok v
       \<and> vsr_payload v = ar_payload r \<and> vsr_digest_sha256 v = ar_digest_sha256 r
       \<and> srp_deployment_id (ar_payload r) = an_deployment_id E \<and> srp_reporter_id (ar_payload r) = pi_id reporter
       \<and> srp_reporter_role (ar_payload r) = pi_role reporter
       \<and> sent_for va transport reporter allowed now
       \<and> owns_metric (pi_role reporter) (srp_metric_family (ar_payload r))
       \<and> srp_bucket_start_unix_secs (ar_payload r) \<le> sat_add now 300))"

lemma check_statistics_reportD:
  assumes "check_statistics_report E va transport report allowed now = Ok v"
  shows "accepted_from E (ReportReceived fails va transport report allowed now)
      \<lparr>ar_digest_sha256 = vsr_digest_sha256 v, ar_payload = vsr_payload v\<rparr>"
    "0 < mv_revision (srp_value (vsr_payload v))"
proof -
  obtain reporter where r: "an_identity_from_certificate E (ssr_certificate_pem report) = Ok reporter"
    and v: "report_verify (an_crypto E) (an_payload_json E) report (pi_signing_public_key reporter) = Ok v"
    and o: "srp_deployment_id (vsr_payload v) = an_deployment_id E" "srp_reporter_id (vsr_payload v) = pi_id reporter"
      "srp_reporter_role (vsr_payload v) = pi_role reporter" "owns_metric (pi_role reporter) (srp_metric_family (vsr_payload v))"
      "srp_bucket_start_unix_secs (vsr_payload v) \<le> sat_add now 300"
    and b: "(if pi_role reporter = RTravel \<and> allowed \<and> pi_role transport = RRelay
        then rbind (authorize_management_all va reporter now) (\<lambda>cs. bail_if (cs = []) (Stats ReporterInactive))
        else bail_if (\<not> (pi_role reporter = pi_role transport \<and> pi_id reporter = pi_id transport
           \<and> pi_certificate_sha256 reporter = pi_certificate_sha256 transport)) (Stats ReportUnbound)) = Ok ()"
    using assms by (auto simp: check_statistics_report_def Let_def validate_metric_ownership_def
        validate_statistics_time_window_def rbind_eq_Ok not_less)
  have "sent_for va transport reporter allowed now"
  proof (cases "pi_role reporter = RTravel \<and> allowed \<and> pi_role transport = RRelay")
    case True
    with b obtain cs where cs: "authorize_management_all va reporter now = Ok cs" "cs \<noteq> []"
      by (auto simp: rbind_eq_Ok)
    have "identity_active_at reporter now \<and> entitled C J snap auths dep management_key reporter now \<noteq> {}"
      if "authorization_verify C J JS snap auths dep = Ok va" for C J JS snap auths dep
      using authorize_all_entitled(1) [OF that _ cs(1) [unfolded authorize_management_all_def], of management_key] cs(2)
      by auto
    with True cs show ?thesis unfolding sent_for_def by blast
  next
    case False
    with b show ?thesis by (auto simp: sent_for_def split: if_splits)
  qed
  with r v o show "accepted_from E (ReportReceived fails va transport report allowed now)
      \<lparr>ar_digest_sha256 = vsr_digest_sha256 v, ar_payload = vsr_payload v\<rparr>"
    by (simp add: accepted_from_def)
  show "0 < mv_revision (srp_value (vsr_payload v))"
    using v by (auto simp: report_verify_def report_validate_def word_neq_0_conv)
qed

text \<open>What one call does to the table: nothing, or one row for the checked report, whose revision is higher
  than what the row had.\<close>

lemma store_accept_outcome:
  assumes "0 < mv_revision (srp_value (vsr_payload v))"
  shows "snd (store_accept_report encode fails v table) = table
    \<or> (\<exists>key. snd (store_accept_report encode fails v table)
          = AList.update key \<lparr>ar_digest_sha256 = vsr_digest_sha256 v, ar_payload = vsr_payload v\<rparr> table
        \<and> revision_at key table < mv_revision (srp_value (vsr_payload v)))"
proof (cases "accepted_report_key encode (vsr_payload v)")
  case (Ok key)
  have "revision_at key table < mv_revision (srp_value (vsr_payload v))"
    if "snd (store_accept_report encode fails v table) \<noteq> table"
    using assms that Ok
    by (auto simp: store_accept_report_def revision_at_def Let_def split: option.splits if_splits)
  moreover have "snd (store_accept_report encode fails v table) \<in> {table,
      AList.update key \<lparr>ar_digest_sha256 = vsr_digest_sha256 v, ar_payload = vsr_payload v\<rparr> table}"
    using Ok by (auto simp: store_accept_report_def Let_def split: option.splits result.splits)
  ultimately show ?thesis by blast
qed (simp add: store_accept_report_def)

lemma acceptance_step_outcome:
  "acceptance_step E c table = table
   \<or> (\<exists>key r. acceptance_step E c table = AList.update key r table \<and> accepted_from E c r
        \<and> revision_at key table < mv_revision (srp_value (ar_payload r)))"
proof -
  obtain fails va transport report allowed now where c: "c = ReportReceived fails va transport report allowed now"
    by (cases c)
  show ?thesis
  proof (cases "check_statistics_report E va transport report allowed now")
    case (Ok v)
    define r where "r = \<lparr>ar_digest_sha256 = vsr_digest_sha256 v, ar_payload = vsr_payload v\<rparr>"
    have d: "accepted_from E c r" "0 < mv_revision (srp_value (ar_payload r))"
      using check_statistics_reportD [OF Ok] by (simp_all add: r_def c)
    have "acceptance_step E c table = table \<or> (\<exists>key. acceptance_step E c table = AList.update key r table
        \<and> revision_at key table < mv_revision (srp_value (ar_payload r)))"
      using store_accept_outcome [of v "an_dimensions_string E" fails table] d(2) Ok
      by (simp add: acceptance_step_def c accept_statistics_report_def r_def)
    then show ?thesis using d(1) by blast
  next
    case (Err e)
    then show ?thesis
      by (simp add: acceptance_step_def c accept_statistics_report_def)
  qed
qed

lemma at_update:
  "revision_at k (AList.update k' r table) = (if k = k' then mv_revision (srp_value (ar_payload r)) else revision_at k table)"
  "digest_at k (AList.update k' r table) = (if k = k' then Some (ar_digest_sha256 r) else digest_at k table)"
  by (simp_all add: revision_at_def digest_at_def update_conv')

interpretation accepted: high_water "\<lambda>table c. Ok (acceptance_step E c table) :: (accepted_reports, error) result"
    "revision_at key" "digest_at key" "\<lambda>_ _. True" "\<lambda>table. dom (map_of table)" for E key
proof
  fix table c table'
  assume "(Ok (acceptance_step E c table) :: (accepted_reports, error) result) = Ok table'"
  then have t: "table' = table \<or> (\<exists>key r. table' = AList.update key r table \<and> accepted_from E c r
        \<and> revision_at key table < mv_revision (srp_value (ar_payload r)))"
    using acceptance_step_outcome [of E c table] by simp
  show "revision_at key table \<le> revision_at key table'"
    using t by (auto simp: at_update)
  show "dom (map_of table) \<subseteq> dom (map_of table')"
    using t by (auto simp: update_conv')
  show "digest_at key table' = digest_at key table" if "revision_at key table' = revision_at key table"
    using that t by (auto simp: at_update split: if_splits)
qed

section \<open>A report that cannot be signed\<close>

definition oversized :: "metric_identity \<Rightarrow> bool" where
  "oversized identity \<longleftrightarrow> list_ex (\<lambda>(k, v). MAX_STATISTICS_DIMENSION_BYTES < length v) (mi_dimensions identity)"

definition slots :: "('k \<times> 'v) list \<Rightarrow> 'k set" where
  "slots m = fst ` set m"

lemma slots_simps [simp]: "slots [] = {}" "slots (x # m) = insert (fst x) (slots m)"
  by (simp_all add: slots_def)

text \<open>The slot is in what the next commit would write.\<close>

definition blocked :: "metric_slot \<Rightarrow> local_statistics \<Rightarrow> bool" where
  "blocked k ls \<longleftrightarrow> k \<in> slots (ls_flushing ls) \<or> ls_flushing ls = [] \<and> k \<in> slots (ls_accumulator ls)"

lemma report_validate_oversized:
  assumes "oversized \<lparr>mi_metric_family = f, mi_dimensions = srp_dimensions p\<rparr>"
  shows "report_validate p \<noteq> Ok u"
proof
  assume "report_validate p = Ok u"
  then have "length v \<le> MAX_STATISTICS_DIMENSION_BYTES" if "(k, v) \<in> set (srp_dimensions p)" for k v
    using that by (fastforce simp: report_validate_def)
  with assms show False
    by (auto simp: oversized_def list_ex_iff not_less [symmetric])
qed

lemma flush_entry_oversized: "oversized (snd k) \<Longrightarrow> flush_entry E rnd points (k, d) \<noteq> Ok x"
  using report_validate_oversized [of "mi_metric_family (snd k)"]
  by (auto simp: flush_entry_def report_sign_def oversized_def Let_def split: prod.splits)

lemma build_oversized:
  assumes "oversized (snd k)" "k \<in> slots (ls_flushing ls)"
  shows "\<exists>e. build_flush_batch E rnd ls = Err e"
proof (cases "build_flush_batch E rnd ls")
  case (Ok rows)
  then have rows: "list_all2 (\<lambda>x y. flush_entry E rnd (ls_metric_5m ls) x = Ok y) (ls_flushing ls) rows"
    by (simp add: build_flush_batch_def map_result_Ok)
  obtain i d where "i < length (ls_flushing ls)" "ls_flushing ls ! i = (k, d)"
    using assms(2) by (force simp: slots_def in_set_conv_nth)
  then show ?thesis
    using list_all2_nthD [OF rows, of i] flush_entry_oversized [OF assms(1), of E rnd "ls_metric_5m ls" d] by auto
qed simp

lemma update_entry_keys: "slots (update_entry k f m) = insert k (slots m)"
  by (simp add: slots_def update_entry_def dom_update)

lemma restored_keys: "slots (foldl (\<lambda>acc (k, d). update_entry k (\<lambda>t. merge_pending_delta t d) acc) acc fl)
    = slots acc \<union> slots fl"
proof (induction fl arbitrary: acc)
  case (Cons x fl)
  show ?case
    using Cons.IH [of "update_entry (fst x) (\<lambda>t. merge_pending_delta t (snd x)) acc"]
    by (cases x) (auto simp: update_entry_keys)
qed simp

lemma finish_blocked:
  assumes "oversized (snd k)" "blocked k ls"
  shows "blocked k (snd (flush_finish E rnd fails ls))"
    "ls_metric_5m (snd (flush_finish E rnd fails ls)) = ls_metric_5m ls"
proof -
  have "flush_finish E rnd fails ls = (Ok 0, ls) \<or> (\<exists>e. flush_finish E rnd fails ls = (Err e, restore_deltas ls))"
    using build_oversized [OF assms(1), of ls E rnd] assms(2)
    by (cases "ls_flushing ls = []") (auto simp: flush_finish_def blocked_def)
  moreover have "ls_flushing ls = [] \<Longrightarrow> restore_deltas ls = ls"
    by (simp add: restore_deltas_def)
  ultimately show "blocked k (snd (flush_finish E rnd fails ls))"
    "ls_metric_5m (snd (flush_finish E rnd fails ls)) = ls_metric_5m ls"
    using assms(2) by (auto simp: blocked_def restore_deltas_def restored_keys)
qed

lemma batch_keys:
  "batch_flush b ls = (b', ls') \<Longrightarrow> slots (ls_accumulator ls) \<subseteq> slots (ls_accumulator ls') \<and> ls_flushing ls' = ls_flushing ls"
  "batch_record now v b ls = (b', ls') \<Longrightarrow> slots (ls_accumulator ls) \<subseteq> slots (ls_accumulator ls') \<and> ls_flushing ls' = ls_flushing ls"
proof -
  show f: "slots (ls_accumulator ls) \<subseteq> slots (ls_accumulator ls') \<and> ls_flushing ls' = ls_flushing ls"
    if "batch_flush b ls = (b', ls')" for b'
    using that by (auto simp: batch_flush_def update_entry_keys split: option.splits if_splits)
  obtain b1 ls1 where "batch_flush b ls = (b1, ls1)" by (meson surj_pair)
  then show "slots (ls_accumulator ls) \<subseteq> slots (ls_accumulator ls') \<and> ls_flushing ls' = ls_flushing ls"
    if "batch_record now v b ls = (b', ls')"
    using that f by (auto simp: batch_record_def Let_def split: if_splits)
qed

lemma blocked_step:
  assumes "oversized (snd k)" "blocked k (sm_local m)"
  shows "blocked k (sm_local (statistics_step E op m))
    \<and> ls_metric_5m (sm_local (statistics_step E op m)) = ls_metric_5m (sm_local m)"
proof (cases op)
  case (SampleRecorded contended now identity v t)
  then show ?thesis
    using assms(2) by (auto simp: ls_record_def blocked_def update_entry_keys)
next
  case (BatchRecorded i now v)
  obtain b' ls' where r: "batch_record now v (sm_batches m ! i) (sm_local m) = (b', ls')" by (meson surj_pair)
  show ?thesis
    using batch_tables(2) [OF r] batch_keys(2) [OF r] r assms(2) BatchRecorded by (auto simp: blocked_def)
next
  case (BatchFlushed i)
  obtain b' ls' where r: "batch_flush (sm_batches m ! i) (sm_local m) = (b', ls')" by (meson surj_pair)
  show ?thesis
    using batch_tables(1) [OF r] batch_keys(1) [OF r] r assms(2) BatchFlushed by (auto simp: blocked_def)
next
  case (FlushFinished rnd fails)
  then show ?thesis
    using finish_blocked [OF assms] by simp
qed (use assms in \<open>auto simp: blocked_def flush_take_def acknowledge_report_def split: option.splits result.splits\<close>)

lemma blocked_run:
  assumes "oversized (snd k)" "blocked k (sm_local m)"
  shows "blocked k (sm_local (statistics_run E ops m))
    \<and> ls_metric_5m (sm_local (statistics_run E ops m)) = ls_metric_5m (sm_local m)"
  unfolding statistics_run_def
  by (rule fold_invariant [where Q = "\<lambda>_. True"]) (use assms blocked_step in \<open>auto\<close>)

lemma blocked_flush_fails:
  assumes "oversized (snd k)" "blocked k ls" "ls_flushing ls = []"
  shows "\<exists>e. fst (flush_and_stage E rnd fails ls) = Err e"
proof -
  have "k \<in> slots (ls_flushing (flush_take ls))"
    using assms(2, 3) by (simp add: blocked_def flush_take_def)
  then show ?thesis
    using build_oversized [OF assms(1), of "flush_take ls" E rnd]
    by (auto simp: flush_and_stage_def flush_finish_def)
qed

section \<open>A sample reporter\<close>

definition sample_metric :: metric_identity where
  "sample_metric = \<lparr>mi_metric_family = ''carrier_open'', mi_dimensions = [(''relay_id'', ''r1'')]\<rparr>"

definition sample_statistics_env :: statistics_env where
  "sample_statistics_env = \<lparr>sn_crypto = sample_crypto,
     sn_payload_json = \<lparr>to_vec = (\<lambda>p. Some [ucast (mv_revision (srp_value p))]), from_slice = (\<lambda>_. None)\<rparr>,
     sn_identity_string = (\<lambda>i. if i = sample_metric then Some ''k'' else None),
     sn_deployment_id = ''dep'', sn_reporter_role = RTravel, sn_reporter_id = ''phone'', sn_certificate_pem = ''pem'',
     sn_key = [9]\<rparr>"

lemma sample_to_string: "to_string_ok (sn_identity_string sample_statistics_env)"
  by (simp add: to_string_ok_def sample_statistics_env_def)

definition sample_report_payload :: statistics_report_payload where
  "sample_report_payload = \<lparr>srp_version = 1, srp_deployment_id = ''dep'', srp_reporter_role = RRelay, srp_reporter_id = ''r1'',
     srp_bucket_start_unix_secs = 600, srp_bucket_end_unix_secs = 900, srp_metric_family = ''relay_route_opened'',
     srp_dimensions = [], srp_report_sequence = 1,
     srp_value = \<lparr>mv_version = 1, mv_revision = 1, mv_count = 1, mv_sum = 1, mv_min = 1, mv_max = 1, mv_histogram = []\<rparr>\<rparr>"

definition sample_reporter :: peer_identity where
  "sample_reporter = \<lparr>pi_role = RRelay, pi_id = ''r1'', pi_certificate_sha256 = ''c'', pi_spki_sha256 = ''s'',
     pi_signing_public_key = [9], pi_not_before_unix_secs = 0, pi_not_after_unix_secs = 9000\<rparr>"

definition sample_acceptance_env :: acceptance_env where
  "sample_acceptance_env = \<lparr>an_crypto = sample_crypto, an_payload_json = one_json sample_report_payload,
     an_dimensions_string = (\<lambda>d. if d = [] then Some ''{}'' else None),
     an_identity_from_certificate = (\<lambda>_. Ok sample_reporter), an_deployment_id = ''dep''\<rparr>"

definition sample_report :: signed_statistics_report where
  "sample_report = \<lparr>ssr_certificate_pem = ''pem'', ssr_payload_hex = tohex [7], ssr_signature_hex = tohex [16]\<rparr>"

lemma sample_report_checks:
  "check_statistics_report sample_acceptance_env va sample_reporter sample_report False 700
     = Ok \<lparr>vsr_payload = sample_report_payload, vsr_digest_sha256 = tohex (replicate 31 0 @ [7])\<rparr>"
proof -
  have "report_validate sample_report_payload = Ok ()"
    by (simp add: report_validate_def sample_report_payload_def STATISTICS_REPORT_VERSION_def STATISTICS_METRIC_VERSION_def
        FIVE_MINUTE_SECS_def MAX_STATISTICS_DIMENSIONS_def MAX_STATISTICS_DIMENSION_BYTES_def bail_if_def eval_simps)
  then have "report_verify sample_crypto (one_json sample_report_payload) sample_report [9]
      = Ok \<lparr>vsr_payload = sample_report_payload, vsr_digest_sha256 = tohex (replicate 31 0 @ [7])\<rparr>"
    by (simp add: report_verify_def sample_report_def unhex_tohex sample_crypto_def one_json_def bail_if_def)
  then show ?thesis
    by (simp add: check_statistics_report_def sample_acceptance_env_def sample_reporter_def sample_report_payload_def
        validate_metric_ownership_def validate_statistics_time_window_def bail_if_def eval_simps Let_def)
qed

section \<open>Properties\<close>



text \<open>C29: the Server's table of accepted reports is monotone and authentic. Over any sequence of received
  reports, the revision of a row never goes back, one revision never changes its content, no row is lost, and
  every row that was not there before comes from one of these calls: its report is signed with the key of the
  certificate of the reporter that it names, for this deployment, in a metric family that the reporter's role
  owns, and the peer that sent it, as the transport authenticated it, was that reporter with that very
  certificate, or a Relay that forwarded it for a Travel that then had an active credential.\<close>

theorem accepted_statistics_monotone:
  assumes "table' = fold (acceptance_step E) calls table"
  shows "revision_at key table \<le> revision_at key table'
     \<and> (revision_at key table' = revision_at key table \<longrightarrow> digest_at key table' = digest_at key table)
     \<and> dom (map_of table) \<subseteq> dom (map_of table')
     \<and> (\<forall>r. map_of table' key = Some r \<longrightarrow> map_of table key = Some r \<or> (\<exists>c \<in> set calls. accepted_from E c r))"
proof -
  have run: "accepted.offer_all E t calls = fold (acceptance_step E) calls t" for t
    by (induction calls arbitrary: t) simp_all
  have "\<forall>r. map_of (fold (acceptance_step E) calls table) key = Some r
      \<longrightarrow> map_of table key = Some r \<or> (\<exists>c \<in> set calls. accepted_from E c r)"
  proof (rule fold_invariant [where Q = "\<lambda>c. c \<in> set calls"])
    fix c t
    assume "c \<in> set calls"
      and "\<forall>r. map_of t key = Some r \<longrightarrow> map_of table key = Some r \<or> (\<exists>c \<in> set calls. accepted_from E c r)"
    then show "\<forall>r. map_of (acceptance_step E c t) key = Some r
        \<longrightarrow> map_of table key = Some r \<or> (\<exists>c \<in> set calls. accepted_from E c r)"
      using acceptance_step_outcome [of E c t] by (auto simp: update_conv' split: if_splits)
  qed simp_all
  then show ?thesis
    using accepted.offer_all_mark [of key table E calls] accepted.offer_all_content [of key E table calls]
      accepted.offer_all_recorded [of table E calls] assms
    by (simp add: run)
qed

theorem accepted_statistics_monotone_witness:
  "\<exists>key r. let table = fold (acceptance_step sample_acceptance_env)
       [ReportReceived None (sample_verified 1 {}) sample_reporter sample_report False 700] [] in
     map_of table key = Some r \<and> revision_at key [] \<le> revision_at key table
     \<and> accepted_from sample_acceptance_env (ReportReceived None (sample_verified 1 {}) sample_reporter sample_report False 700) r"
proof -
  let ?calls = "[ReportReceived None (sample_verified 1 {}) sample_reporter sample_report False 700]"
  define table where "table = fold (acceptance_step sample_acceptance_env) ?calls []"
  obtain key where "accepted_report_key (\<lambda>d. if d = [] then Some ''{}'' else None) sample_report_payload = Ok key"
    by (simp add: accepted_report_key_def ordered_key_def key_part_def sample_report_payload_def)
  then have "map_of table key = Some \<lparr>ar_digest_sha256 = tohex (replicate 31 0 @ [7]), ar_payload = sample_report_payload\<rparr>"
    by (simp add: table_def acceptance_step_def accept_statistics_report_def sample_report_checks store_accept_report_def)
      (simp add: sample_acceptance_env_def)
  with accepted_statistics_monotone [OF table_def, of key] show ?thesis
    unfolding table_def [symmetric] Let_def by auto
qed

text \<open>One oversized dimension stops all statistics. A service id of 97 to 128 bytes is accepted in a
  catalog; once Travel has recorded one sample for a mapping to such a service while no flush is under way,
  the database never receives another aggregate and every later flush fails, whatever else is recorded.\<close>

theorem long_service_id_blocks_statistics:
  assumes "MAX_STATISTICS_DIMENSION_BYTES < length (tm_service_id mapping)" "ls_flushing (sm_local m) = []"
    and "m' = statistics_run E ops (statistics_step E (SampleRecorded False now
           \<lparr>mi_metric_family = family, mi_dimensions = travel_flow_metric_dimensions mapping\<rparr> v t) m)"
  shows "ls_metric_5m (sm_local m') = ls_metric_5m (sm_local m)
     \<and> (ls_flushing (sm_local m') = [] \<longrightarrow> (\<forall>rnd fails. \<exists>e. fst (flush_and_stage E rnd fails (sm_local m')) = Err e))"
proof -
  let ?i = "\<lparr>mi_metric_family = family, mi_dimensions = travel_flow_metric_dimensions mapping\<rparr>"
  let ?k = "(five_minute_bucket_start now, ?i)"
  have o: "oversized (snd ?k)"
    using assms(1) by (auto simp: oversized_def travel_flow_metric_dimensions_def)
  have "blocked ?k (sm_local (statistics_step E (SampleRecorded False now ?i v t) m))"
    using assms(2) by (simp add: blocked_def ls_record_def update_entry_keys)
  from blocked_run [OF o this, of E ops] blocked_flush_fails [OF o] show ?thesis
    by (auto simp: assms(3) ls_record_def)
qed

theorem long_service_id_blocks_statistics_witness:
  "let i = replicate 100 CHR ''s'';
       mapping = \<lparr>tm_home_id = ''home-1'', tm_service_id = i, tm_protocol = Tcp, tm_bind = []\<rparr>;
       m = statistics_step sample_statistics_env (SampleRecorded False 601
           \<lparr>mi_metric_family = ''carrier_open'', mi_dimensions = travel_flow_metric_dimensions mapping\<rparr> 1 None) statistics_start
   in validate_catalog_home_services [\<lparr>svc_id = i, svc_alias = ''a'', svc_protocol = Tcp, svc_target = ''t''\<rparr>] = Ok ()
      \<and> (\<exists>e. fst (flush_and_stage sample_statistics_env [] None (sm_local m)) = Err e)"
proof -
  let ?i = "replicate 100 CHR ''s''"
  let ?mapping = "\<lparr>tm_home_id = ''home-1'', tm_service_id = ?i, tm_protocol = Tcp, tm_bind = []\<rparr>"
  let ?m = "statistics_step sample_statistics_env (SampleRecorded False 601
           \<lparr>mi_metric_family = ''carrier_open'', mi_dimensions = travel_flow_metric_dimensions ?mapping\<rparr> 1 None) statistics_start"
  have "validate_catalog_home_services [\<lparr>svc_id = ?i, svc_alias = ''a'', svc_protocol = Tcp, svc_target = ''t''\<rparr>] = Ok ()"
    by (simp add: validate_catalog_home_services_def for_each_fresh_Ok MAX_ID_BYTES_def MAX_DISPLAY_OR_TARGET_BYTES_def)
  moreover have "ls_flushing (sm_local ?m) = []"
    by (simp add: statistics_start_def local_statistics_new_def ls_record_def)
  ultimately show ?thesis
    using long_service_id_blocks_statistics [of ?mapping statistics_start ?m sample_statistics_env "[]" 601 "''carrier_open''" 1 None]
    by (simp add: MAX_STATISTICS_DIMENSION_BYTES_def statistics_run_def Let_def)
      (simp add: statistics_start_def local_statistics_new_def)
qed

end
