(* ===== verification/Certificates.thy ===== *)
theory Certificates
  imports Trust_Base
begin

text \<open>
  Peer identities and certificates (\<open>internal/flowsplice-core/src/tls.rs\<close>): the identity URI a certificate
  carries, the checks of a peer against its role, id and pin, the certificate verifiers built around the TLS
  library, and the guards of a private key file. Parsing, chain building and signing are the libraries
  \<open>x509_parser\<close>, \<open>rustls\<close> and \<open>rcgen\<close>, functions of the record \<open>x509\<close> with their documented laws.
\<close>

section \<open>The X.509 libraries\<close>

datatype general_name = UriName string | OtherName
datatype cert_extension = SubjectAlternativeName "general_name list" | OtherExtension

text \<open>A parsed certificate; the timestamps are those of \<open>ASN1Time::timestamp\<close>.\<close>

record certificate =
  xc_extensions :: "cert_extension list"
  xc_spki :: bytes
  xc_key_data :: bytes
  xc_not_before :: int
  xc_not_after :: int
  xc_extended_key_usage :: "(bool \<times> bool) option option"

text \<open>A certificate signing request whose proof of possession verified: whether its key is P-256 with
  SHA-256, its names, its key.\<close>

record csr =
  rq_p256 :: bool
  rq_subject_alt_names :: "general_name list"
  rq_spki :: bytes

record leaf_params =
  lf_common_name :: string
  lf_subject_alt_names :: "general_name list"
  lf_is_ca :: bool
  lf_digital_signature :: bool
  lf_client_auth :: bool
  lf_not_before :: u64
  lf_not_after :: u64

text \<open>\<open>pem_slice\<close> is what \<open>CertificateDer::pem_slice_iter\<close> yields, \<open>None\<close> where an item does not decode;
  \<open>client_chain\<close> and \<open>server_chain\<close> are the chain checks for client and for server authentication, from
  trust anchors, intermediates, a leaf and the time; \<open>key_spki\<close> is the public key of a private key that
  \<open>rcgen\<close> can read, \<open>pkcs8_key\<close> the signing key \<open>aws_lc_rs\<close> reads; \<open>sign_leaf\<close> signs parameters for a public
  key with the certificate and key of an authority.\<close>

record x509 =
  csr_from_pem :: "string \<Rightarrow> csr option"
  pem_slice :: "string \<Rightarrow> bytes option list"
  parse_certificate :: "bytes \<Rightarrow> certificate option"
  root_parsable :: "bytes \<Rightarrow> bool"
  client_chain :: "bytes list \<Rightarrow> bytes list \<Rightarrow> bytes \<Rightarrow> u64 \<Rightarrow> bool"
  server_chain :: "bytes list \<Rightarrow> bytes list \<Rightarrow> bytes \<Rightarrow> u64 \<Rightarrow> bool"
  date_in_range :: "u64 \<Rightarrow> bool"
  key_spki :: "bytes \<Rightarrow> bytes option"
  pkcs8_key :: "bytes \<Rightarrow> bytes option"
  ca_issuer_ok :: "string \<Rightarrow> bytes \<Rightarrow> bool"
  sign_leaf :: "string \<Rightarrow> bytes \<Rightarrow> leaf_params \<Rightarrow> bytes \<Rightarrow> bytes \<Rightarrow> string option"

section \<open>Identity URIs\<close>

fun split_on :: "char \<Rightarrow> string \<Rightarrow> string list" where
  "split_on c [] = [[]]"
| "split_on c (x # xs) =
     (if x = c then [] # split_on c xs
      else case split_on c xs of [] \<Rightarrow> [[x]] | y # ys \<Rightarrow> (x # y) # ys)"

definition strip_prefix :: "string \<Rightarrow> string \<Rightarrow> string option" where
  "strip_prefix p s = (if take (length p) s = p then Some (drop (length p) s) else None)"

definition role_of_uri :: "string option \<Rightarrow> role res" where
  "role_of_uri part =
     (if part = Some ''server'' then Ok RServer
      else if part = Some ''relay'' then Ok RRelay
      else if part = Some ''home'' then Ok RHome
      else if part = Some ''travel'' then Ok RTravel
      else Err (Enroll IdentityRole))"

definition first_part :: "'a list \<Rightarrow> 'a option" where
  "first_part xs = (case xs of [] \<Rightarrow> None | x # _ \<Rightarrow> Some x)"

text \<open>The body of the loop over the names of a certificate, for an identity URI.\<close>

definition read_identity :: "(role \<times> string) option \<Rightarrow> string \<Rightarrow> (role \<times> string) res" where
  "read_identity found rest =
     (let parts = split_on CHR ''/'' rest in
      rbind (role_of_uri (first_part parts)) (\<lambda>role.
      rbind (ok_or (first_part (tl parts)) (Enroll IdentityEmpty)) (\<lambda>i.
      rbind (bail_if (i = []) (Enroll IdentityEmpty)) (\<lambda>_.
      rbind (bail_if (first_part (tl (tl parts)) \<noteq> None \<or> found \<noteq> None) (Enroll IdentityRepeated)) (\<lambda>_.
      Ok (role, i))))))"

definition IDENTITY_PREFIX :: string where "IDENTITY_PREFIX = ''flowsplice://identity/''"

fun identity_of_names :: "(role \<times> string) option \<Rightarrow> general_name list \<Rightarrow> (role \<times> string) option res" where
  "identity_of_names found [] = Ok found"
| "identity_of_names found (OtherName # names) = identity_of_names found names"
| "identity_of_names found (UriName uri # names) =
     (case strip_prefix IDENTITY_PREFIX uri of
        None \<Rightarrow> identity_of_names found names
      | Some rest \<Rightarrow> rbind (read_identity found rest) (\<lambda>identity. identity_of_names (Some identity) names))"

fun extension_names :: "cert_extension \<Rightarrow> general_name list" where
  "extension_names (SubjectAlternativeName names) = names"
| "extension_names OtherExtension = []"

definition certificate_names :: "certificate \<Rightarrow> general_name list" where
  "certificate_names cert = concat (map extension_names (xc_extensions cert))"

definition peer_identity_of :: "crypto \<Rightarrow> x509 \<Rightarrow> bytes list option \<Rightarrow> peer_identity res" where
  "peer_identity_of C X certs =
     rbind (ok_or (case certs of None \<Rightarrow> None | Some items \<Rightarrow> first_part items) (Enroll NoPeerCertificate)) (\<lambda>leaf.
     rbind (ok_or (parse_certificate X leaf) (Enroll CertificateUnreadable)) (\<lambda>cert.
     rbind (identity_of_names None (certificate_names cert)) (\<lambda>found.
     rbind (ok_or found (Enroll IdentityMissing)) (\<lambda>(role, i).
     rbind (bail_if (xc_not_before cert < 0) (Enroll ValidityBeforeEpoch)) (\<lambda>_.
     rbind (bail_if (xc_not_after cert < 0) (Enroll ValidityBeforeEpoch)) (\<lambda>_.
     Ok \<lparr>pi_role = role, pi_id = i,
         pi_certificate_sha256 = hex_encode C (sha256_digest C leaf),
         pi_spki_sha256 = hex_encode C (sha256_digest C (xc_spki cert)),
         pi_signing_public_key = xc_key_data cert,
         pi_not_before_unix_secs = word_of_int (xc_not_before cert),
         pi_not_after_unix_secs = word_of_int (xc_not_after cert)\<rparr>))))))"

text \<open>\<open>identity_from_certificate_pem\<close> reads the first certificate of a PEM text.\<close>

definition identity_from_certificate_pem :: "crypto \<Rightarrow> x509 \<Rightarrow> string \<Rightarrow> peer_identity res" where
  "identity_from_certificate_pem C X pem =
     rbind (ok_or (case pem_slice X pem of Some der # _ \<Rightarrow> Some der | _ \<Rightarrow> None) (Enroll PemUnreadable)) (\<lambda>der.
     peer_identity_of C X (Some [der]))"

definition require_peer :: "peer_identity \<Rightarrow> role \<Rightarrow> string option \<Rightarrow> string list \<Rightarrow> unit res" where
  "require_peer identity role expected_id allowed_spki =
     rbind (bail_if (pi_role identity \<noteq> role) (Serving PeerRoleMismatch)) (\<lambda>_.
     rbind (bail_if (case expected_id of None \<Rightarrow> False | Some i \<Rightarrow> i \<noteq> pi_id identity) (Serving PeerIdMismatch)) (\<lambda>_.
     bail_if (allowed_spki \<noteq> [] \<and> \<not> list_ex (\<lambda>pin. to_ascii_lowercase pin = to_ascii_lowercase (pi_spki_sha256 identity))
         allowed_spki) (Serving PeerSpkiMismatch)))"

section \<open>Trust anchors and verifiers\<close>

definition all_decoded :: "bytes option list \<Rightarrow> bytes list res" where
  "all_decoded items = map_result (\<lambda>item. ok_or item (Enroll PemUnreadable)) items"

definition roots_from_certificates :: "x509 \<Rightarrow> bytes list \<Rightarrow> bytes list res" where
  "roots_from_certificates X certs =
     (let added = filter (root_parsable X) certs in
      rbind (bail_if (added = [] \<or> length added \<noteq> length certs) (Enroll TrustAnchorInvalid)) (\<lambda>_. Ok added))"

definition roots_from_pem :: "x509 \<Rightarrow> string \<Rightarrow> bytes list res" where
  "roots_from_pem X pem =
     rbind (all_decoded (pem_slice X pem)) (\<lambda>certs.
     rbind (bail_if (certs = []) (Enroll NoCertificateInPem)) (\<lambda>_.
     roots_from_certificates X certs))"

text \<open>\<open>ManagementIdentityClientVerifier\<close>: a client certificate, or the server certificate of a Relay.\<close>

definition management_client_verify :: "crypto \<Rightarrow> x509 \<Rightarrow> bytes list \<Rightarrow> bytes \<Rightarrow> bytes list \<Rightarrow> u64 \<Rightarrow> unit res" where
  "management_client_verify C X roots end_entity intermediates now =
     (if client_chain X roots intermediates end_entity now then Ok ()
      else
        rbind (ok_or (parse_certificate X end_entity) (Enroll CertificateUnreadable)) (\<lambda>_.
        rbind (bail_if (\<not> server_chain X roots intermediates end_entity now) (Enroll NotChained)) (\<lambda>_.
        rbind (peer_identity_of C X (Some [end_entity])) (\<lambda>identity.
        bail_if (pi_role identity \<noteq> RRelay) (Enroll IdentityRole)))))"

text \<open>\<open>verify_discovery_certificate\<close>, with the time of \<open>UnixTime::now\<close>.\<close>

definition verify_discovery_certificate :: "x509 \<Rightarrow> bytes list option \<Rightarrow> string \<Rightarrow> u64 \<Rightarrow> unit res" where
  "verify_discovery_certificate X certs trusted_ca_pem now =
     rbind (ok_or (case certs of Some (leaf # intermediates) \<Rightarrow> Some (leaf, intermediates) | _ \<Rightarrow> None)
         (Enroll NoPeerCertificate)) (\<lambda>(leaf, intermediates).
     rbind (roots_from_pem X trusted_ca_pem) (\<lambda>roots.
     rbind (ok_or (parse_certificate X leaf) (Enroll CertificateUnreadable)) (\<lambda>_.
     bail_if (\<not> server_chain X roots intermediates leaf now) (Enroll NotChained))))"

text \<open>\<open>validate_certificate_extended_key_usage\<close>: the usages of the leaf, \<open>None\<close> when the extension is malformed,
  \<open>Some None\<close> when it is absent, otherwise client and server authentication.\<close>

definition validate_extended_key_usage :: "x509 \<Rightarrow> string res \<Rightarrow> bool \<Rightarrow> bool \<Rightarrow> unit res" where
  "validate_extended_key_usage X pem_file require_client require_server =
     rbind pem_file (\<lambda>pem.
     rbind (all_decoded (pem_slice X pem)) (\<lambda>certs.
     rbind (ok_or (first_part certs) (Enroll NoCertificateInPem)) (\<lambda>leaf.
     rbind (ok_or (parse_certificate X leaf) (Enroll CertificateUnreadable)) (\<lambda>cert.
     rbind (ok_or (xc_extended_key_usage cert) (Enroll KeyUsageInvalid)) (\<lambda>present.
     rbind (ok_or present (Enroll KeyUsageInvalid)) (\<lambda>(client, server).
     rbind (bail_if (require_client \<and> \<not> client) (Enroll KeyUsageInvalid)) (\<lambda>_.
     bail_if (require_server \<and> \<not> server) (Enroll KeyUsageInvalid))))))))"

section \<open>Private key files\<close>

text \<open>What the file system says of a private key path, opened without following links.\<close>

record key_file =
  kf_regular :: bool
  kf_mode :: u32
  kf_uid :: u32
  kf_len :: u64
  kf_content :: "bytes res"

definition read_private_key_file :: "u32 \<Rightarrow> key_file res \<Rightarrow> bytes res" where
  "read_private_key_file euid opened =
     rbind opened (\<lambda>f.
     rbind (bail_if (\<not> kf_regular f) (Enroll KeyFileUnsafe)) (\<lambda>_.
     rbind (bail_if (and (kf_mode f) 63 \<noteq> 0) (Enroll KeyFileUnsafe)) (\<lambda>_.
     rbind (bail_if (kf_uid f \<noteq> euid) (Enroll KeyFileUnsafe)) (\<lambda>_.
     rbind (bail_if (1024 * 1024 < kf_len f) (Enroll KeyFileUnsafe)) (\<lambda>_.
     kf_content f)))))"

section \<open>What an identity says\<close>

definition identity_uri :: "role \<Rightarrow> string \<Rightarrow> string" where
  "identity_uri role i = IDENTITY_PREFIX @ as_uri_part role @ ''/'' @ i"

fun is_identity_name :: "general_name \<Rightarrow> bool" where
  "is_identity_name (UriName uri) = (strip_prefix IDENTITY_PREFIX uri \<noteq> None)"
| "is_identity_name OtherName = False"

lemma split_on_neq_Nil [simp]: "split_on c s \<noteq> []"
  by (induction s) (auto split: list.splits)

lemma split_on_none: "c \<notin> set s \<Longrightarrow> split_on c s = [s]"
  by (induction s) auto

lemma split_on_append: "c \<notin> set a \<Longrightarrow> split_on c (a @ c # b) = a # split_on c b"
  by (induction a) auto

lemma split_on_single: "split_on c s = [a] \<Longrightarrow> s = a \<and> c \<notin> set s"
proof (induction s arbitrary: a)
  case (Cons x s)
  obtain q qs where q: "split_on c s = q # qs"
    by (cases "split_on c s") auto
  with Cons.prems have "x \<noteq> c" "a = x # q" "qs = []"
    by (auto split: if_splits)
  with Cons.IH [of q] q show ?case by auto
qed simp

lemma split_on_Cons: "split_on c s = a # p # ps \<Longrightarrow> \<exists>b. s = a @ c # b \<and> c \<notin> set a \<and> split_on c b = p # ps"
proof (induction s arbitrary: a)
  case (Cons x s)
  show ?case
  proof (cases "x = c")
    case True
    with Cons.prems show ?thesis by (intro exI [of _ s]) auto
  next
    case False
    obtain q qs where q: "split_on c s = q # qs"
      by (cases "split_on c s") auto
    with False Cons.prems have a: "a = x # q" and "split_on c s = q # p # ps"
      by auto
    from Cons.IH [OF this(2)] obtain b where "s = q @ c # b" "c \<notin> set q" "split_on c b = p # ps"
      by blast
    with a False show ?thesis by (intro exI [of _ b]) auto
  qed
qed simp

lemma strip_prefix_append [simp]: "strip_prefix p (p @ r) = Some r"
  by (simp add: strip_prefix_def)

lemma strip_prefix_SomeD: "strip_prefix p s = Some r \<Longrightarrow> s = p @ r"
  by (auto simp: strip_prefix_def split: if_splits) (metis append_take_drop_id)

lemma role_of_uri_Ok: "role_of_uri part = Ok r \<longleftrightarrow> part = Some (as_uri_part r)"
  by (cases r) (auto simp: role_of_uri_def)

lemma no_slash_in_role: "CHR ''/'' \<notin> set (as_uri_part r)"
  by (cases r) auto

lemma read_identity_Ok:
  "read_identity found rest = Ok (r, i) \<longleftrightarrow>
     found = None \<and> rest = as_uri_part r @ ''/'' @ i \<and> i \<noteq> [] \<and> CHR ''/'' \<notin> set i"
  (is "?l = ?r")
proof
  assume ?l
  then have "\<exists>ps. split_on CHR ''/'' rest = as_uri_part r # i # ps \<and> ps = [] \<and> found = None \<and> i \<noteq> []"
    by (cases found) (auto simp: read_identity_def Let_def role_of_uri_Ok first_part_def split: list.splits)
  then have c: "split_on CHR ''/'' rest = as_uri_part r # i # []" and n: "found = None" "i \<noteq> []"
    by auto
  obtain b where "rest = as_uri_part r @ CHR ''/'' # b" "split_on CHR ''/'' b = [i]"
    using split_on_Cons [OF c] by blast
  with n show ?r
    using split_on_single by auto
next
  assume ?r
  then show ?l
    by (auto simp: read_identity_def Let_def role_of_uri_Ok first_part_def split_on_append split_on_none
        no_slash_in_role bail_if_def)
qed

lemma identity_of_names_Ok:
  "identity_of_names found names = Ok (Some (r, i)) \<longleftrightarrow>
     (filter is_identity_name names = [] \<and> found = Some (r, i))
     \<or> (found = None \<and> i \<noteq> [] \<and> CHR ''/'' \<notin> set i
          \<and> filter is_identity_name names = [UriName (identity_uri r i)])"
proof (induction found names rule: identity_of_names.induct)
  case (3 found uri names)
  show ?case
  proof (cases "strip_prefix IDENTITY_PREFIX uri")
    case None
    then show ?thesis using "3.IH"(1) by auto
  next
    case (Some rest)
    note uri = strip_prefix_SomeD [OF Some]
    have step: "identity_of_names found (UriName uri # names)
        = rbind (read_identity found rest) (\<lambda>v. identity_of_names (Some v) names)"
      using Some by simp
    have "read_identity found rest = Ok v \<Longrightarrow> identity_of_names (Some v) names = Ok (Some (r, i)) \<longleftrightarrow>
        (filter is_identity_name names = [] \<and> v = (r, i))" for v
      using "3.IH"(2) [OF Some] by auto
    then have "identity_of_names found (UriName uri # names) = Ok (Some (r, i)) \<longleftrightarrow>
        read_identity found rest = Ok (r, i) \<and> filter is_identity_name names = []"
      unfolding step rbind_eq_Ok by blast
    moreover have "filter is_identity_name (UriName uri # names) = UriName uri # filter is_identity_name names"
      using Some by simp
    moreover have "uri = identity_uri r i \<longleftrightarrow> rest = as_uri_part r @ ''/'' @ i"
      by (simp add: uri identity_uri_def)
    ultimately show ?thesis
      unfolding read_identity_Ok by auto
  qed
qed auto

lemma identity_of_names_None: "identity_of_names found names = Ok None \<Longrightarrow> found = None"
  by (induction found names rule: identity_of_names.induct) (auto split: option.splits)


text \<open>The identity read from a certificate, when its names contain exactly one identity URI.\<close>

definition identity_in :: "crypto \<Rightarrow> bytes \<Rightarrow> certificate \<Rightarrow> role \<Rightarrow> string \<Rightarrow> peer_identity" where
  "identity_in C der cert role i =
     \<lparr>pi_role = role, pi_id = i, pi_certificate_sha256 = hex_encode C (sha256_digest C der),
      pi_spki_sha256 = hex_encode C (sha256_digest C (xc_spki cert)), pi_signing_public_key = xc_key_data cert,
      pi_not_before_unix_secs = word_of_int (xc_not_before cert),
      pi_not_after_unix_secs = word_of_int (xc_not_after cert)\<rparr>"

lemma peer_identity_of_Ok:
  "peer_identity_of C X (Some (der # chain)) = Ok p \<longleftrightarrow>
     (\<exists>cert role i. parse_certificate X der = Some cert
        \<and> filter is_identity_name (certificate_names cert) = [UriName (identity_uri role i)]
        \<and> i \<noteq> [] \<and> CHR ''/'' \<notin> set i \<and> 0 \<le> xc_not_before cert \<and> 0 \<le> xc_not_after cert
        \<and> p = identity_in C der cert role i)"
  by (auto simp: peer_identity_of_def first_part_def identity_of_names_Ok identity_in_def not_less)

lemma require_peer_Ok:
  "require_peer p role expected [] = Ok u \<longleftrightarrow>
     pi_role p = role \<and> (case expected of None \<Rightarrow> True | Some i \<Rightarrow> pi_id p = i)"
  by (auto simp: require_peer_def split: option.splits)

text \<open>C39: the identity of a peer is exactly what its leaf certificate says: it is accepted if and only if the
  certificate parses, has exactly one FlowSplice identity URI among all its names, with a known role and a
  single non-empty id, and a validity that starts after 1970; role, id, pins and validity are then those of
  that certificate, whatever else the peer sends in the chain.\<close>

theorem peer_identity_exact:
  "peer_identity_of C X (Some (der # chain)) = Ok p \<longleftrightarrow>
     (\<exists>cert. parse_certificate X der = Some cert
        \<and> filter is_identity_name (certificate_names cert) = [UriName (identity_uri (pi_role p) (pi_id p))]
        \<and> pi_id p \<noteq> [] \<and> CHR ''/'' \<notin> set (pi_id p) \<and> 0 \<le> xc_not_before cert \<and> 0 \<le> xc_not_after cert
        \<and> pi_certificate_sha256 p = hex_encode C (sha256_digest C der)
        \<and> pi_spki_sha256 p = hex_encode C (sha256_digest C (xc_spki cert))
        \<and> pi_signing_public_key p = xc_key_data cert
        \<and> pi_not_before_unix_secs p = word_of_int (xc_not_before cert)
        \<and> pi_not_after_unix_secs p = word_of_int (xc_not_after cert))"
  (is "_ \<longleftrightarrow> ?r")
proof
  assume "peer_identity_of C X (Some (der # chain)) = Ok p"
  then show ?r
    unfolding peer_identity_of_Ok by (auto simp: identity_in_def)
next
  assume ?r
  then obtain cert where c: "parse_certificate X der = Some cert"
    "filter is_identity_name (certificate_names cert) = [UriName (identity_uri (pi_role p) (pi_id p))]"
    "pi_id p \<noteq> []" "CHR ''/'' \<notin> set (pi_id p)" "0 \<le> xc_not_before cert" "0 \<le> xc_not_after cert"
    "p = identity_in C der cert (pi_role p) (pi_id p)"
    by (auto simp: identity_in_def)
  then show "peer_identity_of C X (Some (der # chain)) = Ok p"
    unfolding peer_identity_of_Ok by blast
qed

section \<open>The management verifier\<close>

text \<open>Only a Relay can authenticate with a certificate that is not good for client authentication.\<close>

lemma management_client_verify_Ok:
  assumes "management_client_verify C X roots leaf intermediates now = Ok ()"
  shows "client_chain X roots intermediates leaf now
     \<or> (server_chain X roots intermediates leaf now
        \<and> (\<exists>p. peer_identity_of C X (Some [leaf]) = Ok p \<and> pi_role p = RRelay))"
  using assms by (auto simp: management_client_verify_def split: if_splits)

lemma all_decoded_Ok: "all_decoded items = Ok ders \<longleftrightarrow> items = map Some ders"
proof -
  have "list_all2 (\<lambda>x y. x = Some y) items ders \<longleftrightarrow> items = map Some ders"
    by (induction items arbitrary: ders) (auto simp: list_all2_Cons1)
  then show ?thesis
    by (simp add: all_decoded_def map_result_Ok)
qed

lemma roots_from_pem_Ok:
  "roots_from_pem X pem = Ok roots \<Longrightarrow> roots \<noteq> [] \<and> list_all (root_parsable X) roots \<and> pem_slice X pem = map Some roots"
proof -
  assume "roots_from_pem X pem = Ok roots"
  then obtain certs where d: "all_decoded (pem_slice X pem) = Ok certs"
    and r: "filter (root_parsable X) certs \<noteq> []" "length (filter (root_parsable X) certs) = length certs"
      "roots = filter (root_parsable X) certs"
    by (auto simp: roots_from_pem_def roots_from_certificates_def Let_def)
  from d have "pem_slice X pem = map Some certs"
    by (simp add: all_decoded_Ok)
  moreover have "filter (root_parsable X) certs = certs"
    using r(2) length_filter_less [of _ certs "root_parsable X"] by (metis filter_True nat_neq_iff)
  ultimately show ?thesis
    using r by (simp add: list_all_iff filter_id_conv)
qed

end
