(* ===== verification/Home_Serving.thy ===== *)
theory Home_Serving
  imports Certificates Business Relay Home_Flow High_Water "HOL-Library.Multiset"
begin

text \<open>
  The serving side of a Home (\<open>crates/flowsplice-home-core/src\<close>: \<open>lib.rs\<close>, \<open>control.rs\<close>, \<open>lifetime.rs\<close>,
  \<open>tasks.rs\<close> and the registry of \<open>tcp_flow.rs\<close>): the work a Relay assigns, from its credential check to
  a TCP flow or a UDP association; the registry of TCP flows with its permits; the authorization snapshot
  that is applied while flows run; and the shutdown. A flow's task carries the state of \<open>run_flow\<close> of the
  theory of Home flows. Handlers are cut at their await points, so that the steps of concurrent tasks may
  come in any order; clocks, fresh identifiers and I/O outcomes are arguments.
\<close>

section \<open>State\<close>

record incoming_carrier =
  ic_carrier_id :: uuid
  ic_relay_id :: string
  ic_data_codec :: data_frame_codec

text \<open>A \<open>FlowHandle\<close> holds, besides these fields, the sending ends of the channels to the flow's task and
  the semaphore of its Carriers; they are found in the runtime under the instance id.\<close>

record flow_handle =
  fh_instance_id :: uuid
  fh_service_id :: string

text \<open>The task of a flow: the value of its \<open>shutdown\<close> channel, and the loop's variables once the target is
  connected.\<close>

record flow_task =
  ft_key :: flow_key
  ft_service :: service
  ft_not_after :: u64
  ft_shutdown :: bool
  ft_flow :: "home_flow option"

text \<open>A Carrier with its two permits: waiting in \<open>tx.send\<close>, in the flow's channel, or with its pump.\<close>

datatype carrier_stage = Attaching | Queued | Pumped

record held_carrier =
  hc_instance :: uuid
  hc_carrier :: incoming_carrier
  hc_stage :: carrier_stage

text \<open>Assigned work before and after the check of its peer, while the \<open>OPEN\<close> frame is awaited, and a running UDP
  association; \<open>seen\<close> is the version of the authorization channel its receiver has seen.\<close>

record work_assignment =
  wa_credential_id :: uuid
  wa_relay_id :: string
  wa_expires_at :: u64
  wa_seen :: nat

record home_work =
  hw_credential :: travel_credential
  hw_identity :: peer_identity
  hw_relay_id :: string
  hw_seen :: nat

record udp_association =
  ua_flow_id :: uuid
  ua_carrier_id :: uuid
  ua_credential_id :: uuid
  ua_data_codec :: data_frame_codec
  ua_not_after :: u64
  ua_seen :: nat
  ua_connected :: bool
  ua_send_sequence :: u64
  ua_receive_sequence :: u64
  ua_sent :: "data_frame list"
  ua_delivered :: "bytes list"

text \<open>\<open>ua_sent\<close> are the frames written to Travel, \<open>ua_delivered\<close> the datagrams given to the application.\<close>

record home_flow_config =
  hfc_id :: string
  hfc_services :: "service list"
  hfc_business_services :: "business_service list"

record home_runtime =
  hr_permits :: nat
  hr_carrier_permits :: nat
  hr_max_carriers_per_flow :: nat
  hr_max_unacked_bytes :: nat
  hr_detach_timeout :: nat
  hr_flows :: "(flow_key \<times> flow_handle) list"
  hr_tasks :: "(uuid \<times> flow_task) list"
  hr_slots :: "(uuid \<times> nat) list"
  hr_carriers :: "held_carrier list"
  hr_returned :: "(flow_key \<times> uuid) list"
  hr_assigned :: "work_assignment list"
  hr_works :: "home_work list"
  hr_udp :: "udp_association list"
  hr_authorization :: "verified_authorization option"
  hr_authorization_version :: nat
  hr_applying :: "verified_authorization option"
  hr_cache :: authorization_cache
  hr_cache_file :: state_file
  hr_trust :: deployment_trust
  hr_stopped :: bool
  hr_outcomes :: "(flow_key \<times> string \<times> unit res) list"

text \<open>\<open>hr_tasks\<close> are the running flows by instance, \<open>hr_slots\<close> the free permits of each instance's Carrier
  semaphore, \<open>hr_returned\<close> the tasks between the end of \<open>run_flow\<close> and \<open>remove\<close>, \<open>hr_applying\<close> a snapshot
  between \<open>revoke_inactive\<close> and \<open>send_replace\<close>, \<open>hr_outcomes\<close> the recorded ends of flows.\<close>

definition home_runtime_new :: "nat \<Rightarrow> nat \<Rightarrow> nat \<Rightarrow> nat \<Rightarrow> nat \<Rightarrow> authorization_cache \<Rightarrow> state_file
    \<Rightarrow> deployment_trust \<Rightarrow> home_runtime" where
  "home_runtime_new max_active_flows max_active_carriers per_flow max_unacked detach cache f trust =
     \<lparr>hr_permits = max_active_flows, hr_carrier_permits = max_active_carriers,
      hr_max_carriers_per_flow = per_flow, hr_max_unacked_bytes = max_unacked, hr_detach_timeout = detach,
      hr_flows = [], hr_tasks = [], hr_slots = [], hr_carriers = [], hr_returned = [], hr_assigned = [], hr_works = [],
      hr_udp = [], hr_authorization = None, hr_authorization_version = 0, hr_applying = None,
      hr_cache = cache, hr_cache_file = f, hr_trust = trust, hr_stopped = False, hr_outcomes = []\<rparr>"

section \<open>Carrier permits\<close>

definition free_slots :: "home_runtime \<Rightarrow> uuid \<Rightarrow> nat" where
  "free_slots st i = (case map_of (hr_slots st) i of None \<Rightarrow> 0 | Some n \<Rightarrow> n)"

text \<open>The two \<open>try_acquire_owned\<close> of \<open>attach\<close>; when the second fails, the Carrier is dropped with the first
  permit.\<close>

definition hold_carrier :: "uuid \<Rightarrow> incoming_carrier \<Rightarrow> home_runtime \<Rightarrow> uuid res \<times> home_runtime" where
  "hold_carrier i carrier st =
     (if hr_carrier_permits st = 0 then (Err (Flow CarrierLimit), st)
      else if free_slots st i = 0 then (Err (Flow PerFlowCarrierLimit), st)
      else (Ok i, st\<lparr>hr_carrier_permits := hr_carrier_permits st - 1,
                    hr_slots := AList.update i (free_slots st i - 1) (hr_slots st),
                    hr_carriers := hr_carriers st @ [\<lparr>hc_instance = i, hc_carrier = carrier, hc_stage = Attaching\<rparr>]\<rparr>))"

text \<open>Carriers that are dropped give both permits back.\<close>

definition release_carrier :: "held_carrier \<Rightarrow> home_runtime \<Rightarrow> home_runtime" where
  "release_carrier c st =
     (if c \<in> set (hr_carriers st)
      then st\<lparr>hr_carriers := remove1 c (hr_carriers st), hr_carrier_permits := hr_carrier_permits st + 1,
              hr_slots := AList.update (hc_instance c) (free_slots st (hc_instance c) + 1) (hr_slots st)\<rparr>
      else st)"

definition set_stage :: "held_carrier \<Rightarrow> carrier_stage \<Rightarrow> home_runtime \<Rightarrow> home_runtime" where
  "set_stage c s st = st\<lparr>hr_carriers := remove1 c (hr_carriers st) @ [c\<lparr>hc_stage := s\<rparr>]\<rparr>"

definition queued_carriers :: "uuid \<Rightarrow> home_runtime \<Rightarrow> held_carrier list" where
  "queued_carriers i st = filter (\<lambda>c. hc_instance c = i \<and> hc_stage c = Queued) (hr_carriers st)"

section \<open>The registry of TCP flows\<close>

text \<open>Creation of a flow, with \<open>Tasks::spawn\<close>, which refuses after \<open>stop\<close>: the entry is taken out again and
  the dropped task gives its permit back.\<close>

definition create_flow :: "flow_key \<Rightarrow> service \<Rightarrow> u64 \<Rightarrow> uuid \<Rightarrow> home_runtime \<Rightarrow> uuid res \<times> home_runtime" where
  "create_flow key service not_after i st =
     (if hr_permits st = 0 then (Err (Flow FlowLimit), st)
      else
        let inserted = AList.update key \<lparr>fh_instance_id = i, fh_service_id = svc_id service\<rparr> (hr_flows st)
        in if hr_stopped st
           then (Err (Flow RuntimeStopped),
                 st\<lparr>hr_flows := filter (\<lambda>(k, h). fh_instance_id h \<noteq> i) inserted\<rparr>)
           else (Ok i, st\<lparr>hr_permits := hr_permits st - 1, hr_flows := inserted,
                  hr_slots := AList.update i (hr_max_carriers_per_flow st) (hr_slots st),
                  hr_tasks := hr_tasks st @ [(i, \<lparr>ft_key = key, ft_service = service, ft_not_after = not_after,
                                                 ft_shutdown = False, ft_flow = None\<rparr>)]\<rparr>))"

text \<open>\<open>attach\<close> up to the send of the Carrier to the flow; \<open>i\<close> is the instance id a new flow gets.\<close>

definition attach :: "travel_credential \<Rightarrow> string \<Rightarrow> uuid \<Rightarrow> service \<Rightarrow> incoming_carrier \<Rightarrow> u64 \<Rightarrow> uuid
    \<Rightarrow> home_runtime \<Rightarrow> uuid res \<times> home_runtime" where
  "attach credential travel_id flow_id service carrier not_after i st =
     (let key = \<lparr>fk_credential_id = tc_credential_id credential, fk_travel_id = travel_id, fk_flow_id = flow_id\<rparr>;
          (r, st1) = (case map_of (hr_flows st) key of
              Some existing \<Rightarrow>
                (if fh_service_id existing \<noteq> svc_id service then (Err (Flow FlowChangedService), st)
                 else (Ok (fh_instance_id existing), st))
            | None \<Rightarrow> create_flow key service not_after i st)
      in case r of Err e \<Rightarrow> (Err e, st1) | Ok j \<Rightarrow> hold_carrier j carrier st1)"

text \<open>\<open>tx.send(carrier)\<close>: refused when the task is gone, pending (no result) while 16 Carriers are queued.\<close>

definition attach_send :: "held_carrier \<Rightarrow> home_runtime \<Rightarrow> unit res option \<times> home_runtime" where
  "attach_send c st =
     (if c \<notin> set (hr_carriers st) \<or> hc_stage c \<noteq> Attaching then (None, st)
      else if map_of (hr_tasks st) (hc_instance c) = None
      then (Some (Err (Flow FlowClosedAttaching)), release_carrier c st)
      else if 16 \<le> length (queued_carriers (hc_instance c) st) then (None, st)
      else (Some (Ok ()), set_stage c Queued st))"

definition registry_remove :: "flow_key \<Rightarrow> uuid \<Rightarrow> home_runtime \<Rightarrow> home_runtime" where
  "registry_remove key i st =
     (case map_of (hr_flows st) key of
        Some h \<Rightarrow> if fh_instance_id h = i then st\<lparr>hr_flows := AList.delete key (hr_flows st)\<rparr> else st
      | None \<Rightarrow> st)"

text \<open>\<open>revoke_inactive\<close> sends \<open>true\<close> on the shutdown channel of every registered flow whose credential is not
  active.\<close>

definition revoked_instances :: "verified_authorization \<Rightarrow> u64 \<Rightarrow> home_runtime \<Rightarrow> uuid list" where
  "revoked_instances va now st =
     map (\<lambda>(key, h). fh_instance_id h) (filter (\<lambda>(key, h). \<not> is_active va (fk_credential_id key) now) (hr_flows st))"

definition revoke_inactive :: "verified_authorization \<Rightarrow> u64 \<Rightarrow> home_runtime \<Rightarrow> home_runtime" where
  "revoke_inactive va now st =
     st\<lparr>hr_tasks := map (\<lambda>(i, t). (i, if i \<in> set (revoked_instances va now st) then t\<lparr>ft_shutdown := True\<rparr> else t))
                      (hr_tasks st)\<rparr>"

section \<open>The life of a flow's task\<close>

text \<open>The end of \<open>run_flow\<close>: its channel with the queued Carriers and its permit are dropped; the result is
  recorded (the family of the metric is chosen by a text search in the error message). A task that
  \<open>Tasks::spawn\<close> cancels at the shutdown neither records its outcome nor calls \<open>remove\<close>.\<close>

definition drop_flow :: "uuid \<Rightarrow> home_runtime \<Rightarrow> home_runtime" where
  "drop_flow i st =
     (fold release_carrier (queued_carriers i st) st)\<lparr>hr_tasks := AList.delete i (hr_tasks st),
        hr_permits := hr_permits st + 1\<rparr>"

definition end_flow :: "uuid \<Rightarrow> flow_task \<Rightarrow> unit res \<Rightarrow> home_runtime \<Rightarrow> home_runtime" where
  "end_flow i t r st =
     (let st1 = drop_flow i st
      in st1\<lparr>hr_returned := hr_returned st1 @ [(ft_key t, i)],
             hr_outcomes := hr_outcomes st1 @ [(ft_key t, svc_id (ft_service t), r)]\<rparr>)"

datatype connect_outcome = Reached | Refused | TooSlow

datatype flow_action =
    Waits                                             \<comment> \<open>nothing is ready\<close>
  | Connected connect_outcome instant                    \<comment> \<open>\<open>connect_tcp\<close> answers\<close>
  | TakesCarrier "(unit, io_kind) result" bool        \<comment> \<open>\<open>incoming.recv()\<close>\<close>
  | HandlesEvent home_io home_event                   \<comment> \<open>\<open>events.recv()\<close>\<close>
  | DeadlinePassed instant                            \<comment> \<open>\<open>sleep_until(detached_deadline)\<close>\<close>
  | Drains bool                                       \<comment> \<open>\<open>drain_carriers\<close> after the last acknowledgement\<close>

definition task_config :: "home_runtime \<Rightarrow> flow_task \<Rightarrow> home_config" where
  "task_config st t = \<lparr>hcf_key = ft_key t, hcf_service_id = svc_id (ft_service t),
     hcf_max_unacked_bytes = hr_max_unacked_bytes st, hcf_detach_timeout = hr_detach_timeout st\<rparr>"

definition update_flow :: "uuid \<Rightarrow> flow_task \<Rightarrow> home_flow \<Rightarrow> home_runtime \<Rightarrow> home_runtime" where
  "update_flow i t h st = st\<lparr>hr_tasks := AList.update i (t\<lparr>ft_flow := Some h\<rparr>) (hr_tasks st)\<rparr>"

text \<open>A step of the loop that stays or ends with an error.\<close>

definition settle :: "uuid \<Rightarrow> flow_task \<Rightarrow> home_flow \<times> unit res \<Rightarrow> home_runtime \<Rightarrow> home_runtime" where
  "settle i t hr st = (case hr of (h, Ok _) \<Rightarrow> update_flow i t h st | (h, Err e) \<Rightarrow> end_flow i t (Err e) st)"

definition take_carrier :: "uuid \<Rightarrow> flow_task \<Rightarrow> home_flow \<Rightarrow> (unit, io_kind) result \<Rightarrow> bool \<Rightarrow> home_runtime
    \<Rightarrow> home_runtime" where
  "take_carrier i t h opened spawned st =
     (case queued_carriers i st of
        [] \<Rightarrow> st
      | c # _ \<Rightarrow>
          (case home_attach (task_config st t) (ic_carrier_id (hc_carrier c)) (ic_relay_id (hc_carrier c))
                  (version (ic_data_codec (hc_carrier c))) opened spawned h of
             (h', sent, r) \<Rightarrow>
               settle i t (h', r) (if sent \<noteq> None \<and> r = Ok () then set_stage c Pumped st else release_carrier c st)))"

definition flow_act :: "uuid \<Rightarrow> flow_task \<Rightarrow> flow_action \<Rightarrow> home_runtime \<Rightarrow> home_runtime" where
  "flow_act i t action st =
     (case ft_flow t of
        None \<Rightarrow> (case action of
            Connected Reached now \<Rightarrow> update_flow i t (home_init (task_config st t) now) st
          | Connected Refused now \<Rightarrow> end_flow i t (Err (Serving (ServiceConnectFailed (svc_id (ft_service t))))) st
          | Connected TooSlow now \<Rightarrow> end_flow i t (Err (Serving TargetConnectTimeout)) st
          | _ \<Rightarrow> st)
      | Some h \<Rightarrow>
          if home_finished h
          then (case action of
                  Drains ok \<Rightarrow> end_flow i t (if ok then Ok () else Err (Serving DrainTimeout)) st
                | _ \<Rightarrow> st)
          else (case action of
                  TakesCarrier opened spawned \<Rightarrow> take_carrier i t h opened spawned st
                | HandlesEvent io event \<Rightarrow> settle i t (home_handle_event (task_config st t) io event h) st
                | DeadlinePassed now \<Rightarrow> settle i t (h, home_on_deadline now h) st
                | _ \<Rightarrow> st))"

text \<open>One poll of the task: the shutdown of the runtime first, then, in the order of the biased \<open>select!\<close> of
  \<open>lifetime::guard\<close>, the revocation, the expiry and the flow itself.\<close>

definition poll_flow :: "uuid \<Rightarrow> u64 \<Rightarrow> flow_action \<Rightarrow> home_runtime \<Rightarrow> home_runtime" where
  "poll_flow i now action st =
     (case map_of (hr_tasks st) i of
        None \<Rightarrow> st
      | Some t \<Rightarrow>
          if hr_stopped st then drop_flow i st
          else if ft_shutdown t then end_flow i t (Err (Serving CredentialRevoked)) st
          else if ft_not_after t \<le> now then end_flow i t (Err (Serving CredentialExpired)) st
          else flow_act i t action st)"

section \<open>The authorization snapshot\<close>

text \<open>The part of \<open>apply_authorization_snapshot\<close> that verifies a snapshot and makes the accepted cache
  durable.\<close>

definition accept_snapshot :: "crypto \<Rightarrow> home_endpoint_credential json \<Rightarrow> travel_credential json
    \<Rightarrow> travel_authorization_snapshot json \<Rightarrow> authorization_cache file_json \<Rightarrow> store_event
    \<Rightarrow> travel_authorization_snapshot \<Rightarrow> home_runtime \<Rightarrow> verified_authorization res \<times> home_runtime" where
  "accept_snapshot C JE J JS F ev snap st =
     (case rbind (travel_authorities_with_home_delegations C JE (hr_trust st)
              (tas_home_endpoint_credentials snap)) (\<lambda>auths.
           rbind (authorization_verify C J JS snap auths (dt_deployment_id (hr_trust st))) (\<lambda>va.
           rbind (cache_accept (hr_cache st) va) (\<lambda>cache. Ok (va, cache)))) of
        Err e \<Rightarrow> (Err e, st)
      | Ok (va, cache) \<Rightarrow>
          if cache \<noteq> hr_cache st
          then (case store_json_atomic F ev (hr_cache_file st) cache of
                  (Err e, f) \<Rightarrow> (Err e, st\<lparr>hr_cache_file := f\<rparr>)
                | (Ok _, f) \<Rightarrow> (Ok va, st\<lparr>hr_cache := cache, hr_cache_file := f\<rparr>))
          else (Ok va, st))"

text \<open>Up to \<open>revoke_inactive\<close>, and from \<open>send_replace\<close> on: the lock of the registry is released between
  them.\<close>

definition apply_authorization_snapshot :: "crypto \<Rightarrow> home_endpoint_credential json \<Rightarrow> travel_credential json
    \<Rightarrow> travel_authorization_snapshot json \<Rightarrow> authorization_cache file_json \<Rightarrow> store_event
    \<Rightarrow> travel_authorization_snapshot \<Rightarrow> u64 \<Rightarrow> home_runtime \<Rightarrow> u64 res \<times> home_runtime" where
  "apply_authorization_snapshot C JE J JS F ev snap now st =
     (case accept_snapshot C JE J JS F ev snap st of
        (Err e, st1) \<Rightarrow> (Err e, st1)
      | (Ok va, st1) \<Rightarrow> (Ok (va_generation va), (revoke_inactive va now st1)\<lparr>hr_applying := Some va\<rparr>))"

definition publish_authorization :: "home_runtime \<Rightarrow> home_runtime" where
  "publish_authorization st =
     (case hr_applying st of
        None \<Rightarrow> st
      | Some va \<Rightarrow> st\<lparr>hr_authorization := Some va, hr_authorization_version := hr_authorization_version st + 1,
                        hr_applying := None\<rparr>)"

section \<open>Work from a Relay\<close>

definition authorize_business_identity :: "peer_identity \<Rightarrow> verified_authorization option \<Rightarrow> uuid \<Rightarrow> u64
    \<Rightarrow> travel_credential res" where
  "authorize_business_identity identity authorization i now =
     rbind (ok_or authorization (AuthUse NotSynchronized)) (\<lambda>va. authorize_business_credential va identity i now)"

definition home_ensure_credential_active :: "verified_authorization option \<Rightarrow> uuid \<Rightarrow> u64 \<Rightarrow> u64 res" where
  "home_ensure_credential_active authorization i now =
     rbind (ok_or authorization (AuthUse NotSynchronized)) (\<lambda>va.
     rbind (bail_if (\<not> is_active va i now) (AuthUse CredentialInactive)) (\<lambda>_.
     ok_or (map_option tc_not_after_unix_secs (va_credentials va i)) (AuthUse UnknownCredential)))"

text \<open>\<open>OpenRelayWork\<close>: the credential must be active, a task is spawned, and it subscribes to the
  authorization.\<close>

definition open_relay_work :: "uuid \<Rightarrow> string \<Rightarrow> u64 \<Rightarrow> u64 \<Rightarrow> home_runtime \<Rightarrow> unit res \<times> home_runtime" where
  "open_relay_work i relay_id expires_at now st =
     (case rbind (home_ensure_credential_active (hr_authorization st) i now) (\<lambda>_.
           bail_if (hr_stopped st) (Flow RuntimeStopped)) of
        Err e \<Rightarrow> (Err e, st)
      | Ok _ \<Rightarrow> (Ok (), st\<lparr>hr_assigned := hr_assigned st @ [\<lparr>wa_credential_id = i, wa_relay_id = relay_id,
            wa_expires_at = expires_at, wa_seen = hr_authorization_version st\<rparr>]\<rparr>))"

text \<open>\<open>run_work\<close> up to the wait for \<open>OPEN\<close>: after the connection and the TLS handshake, the business certificate
  of the peer is checked against the routed credential.\<close>

definition run_work :: "work_assignment \<Rightarrow> peer_identity \<Rightarrow> u64 \<Rightarrow> u64 \<Rightarrow> home_runtime
    \<Rightarrow> unit res \<times> home_runtime" where
  "run_work w identity started now st =
     (if w \<notin> set (hr_assigned st) then (Ok (), st)
      else
        let st1 = st\<lparr>hr_assigned := remove1 w (hr_assigned st)\<rparr>
        in case rbind (bail_if (wa_expires_at w \<le> started) (Serving WorkExpired)) (\<lambda>_.
                rbind (require_peer identity RTravel None []) (\<lambda>_.
                authorize_business_identity identity (hr_authorization st1) (wa_credential_id w) now)) of
             Err e \<Rightarrow> (Err e, st1)
           | Ok credential \<Rightarrow> (Ok (), st1\<lparr>hr_works := hr_works st1 @ [\<lparr>hw_credential = credential,
                 hw_identity = identity, hw_relay_id = wa_relay_id w, hw_seen = wa_seen w\<rparr>]\<rparr>))"

text \<open>The service an \<open>OPEN\<close> frame asks for.\<close>

definition opened_service :: "home_flow_config \<Rightarrow> travel_credential \<Rightarrow> string \<Rightarrow> service_protocol \<Rightarrow> service res" where
  "opened_service cfg credential service_id protocol =
     rbind (ok_or (List.find (\<lambda>s. svc_id s = service_id \<and> svc_protocol s = protocol) (hfc_services cfg))
         (Serving UnknownService)) (\<lambda>service.
     rbind (bail_if (\<not> allows_business_service credential (hfc_id cfg) (svc_id service) (svc_protocol service)
         (List.find (\<lambda>b. bs_service_id b = svc_id service) (hfc_business_services cfg))) (Serving ServiceNotAuthorized)) (\<lambda>_.
     Ok service))"

text \<open>The rest of \<open>run_work\<close>: a TCP Carrier is attached; a UDP association takes a flow permit and starts
  \<open>serve_udp\<close>, which checks the credential again and the clock.\<close>

definition open_udp :: "home_work \<Rightarrow> uuid \<Rightarrow> uuid \<Rightarrow> data_frame_codec \<Rightarrow> u64 \<Rightarrow> u64 \<Rightarrow> home_runtime
    \<Rightarrow> unit res \<times> home_runtime" where
  "open_udp w flow_id carrier_id codec not_after now st =
     (if hr_permits st = 0 then (Err (Flow FlowLimit), st)
      else case rbind (home_ensure_credential_active (hr_authorization st) (tc_credential_id (hw_credential w)) now) (\<lambda>_.
                bail_if (not_after \<le> now) (Serving CredentialExpired)) of
             Err e \<Rightarrow> (Err e, st)
           | Ok _ \<Rightarrow> (Ok (), st\<lparr>hr_permits := hr_permits st - 1, hr_udp := hr_udp st @
               [\<lparr>ua_flow_id = flow_id, ua_carrier_id = carrier_id,
                 ua_credential_id = tc_credential_id (hw_credential w), ua_data_codec = codec, ua_not_after = not_after,
                 ua_seen = hw_seen w, ua_connected = False, ua_send_sequence = 0, ua_receive_sequence = 0,
                 ua_sent = [], ua_delivered = []\<rparr>]\<rparr>))"

definition open_work :: "home_flow_config \<Rightarrow> home_work \<Rightarrow> data_frame \<Rightarrow> uuid \<Rightarrow> u64 \<Rightarrow> home_runtime
    \<Rightarrow> unit res \<times> home_runtime" where
  "open_work cfg w frame i now st =
     (if w \<notin> set (hr_works st) then (Ok (), st)
      else
        let st1 = st\<lparr>hr_works := remove1 w (hr_works st)\<rparr>;
            not_after = min (tc_not_after_unix_secs (hw_credential w)) (pi_not_after_unix_secs (hw_identity w))
        in case frame of
             Open flow_id carrier_id service_id protocol offered \<Rightarrow>
               (case opened_service cfg (hw_credential w) service_id protocol of
                  Err e \<Rightarrow> (Err e, st1)
                | Ok service \<Rightarrow>
                    (case protocol of
                       Tcp \<Rightarrow> (case attach (hw_credential w) (pi_id (hw_identity w)) flow_id service
                                  \<lparr>ic_carrier_id = carrier_id, ic_relay_id = hw_relay_id w,
                                   ic_data_codec = negotiate offered\<rparr> not_after i st1 of
                                (Ok _, st2) \<Rightarrow> (Ok (), st2) | (Err e, st2) \<Rightarrow> (Err e, st2))
                     | Udp \<Rightarrow> open_udp w flow_id carrier_id (negotiate offered) not_after now st1))
           | _ \<Rightarrow> (Err (Serving FirstFrameNotOpen), st1))"

section \<open>UDP associations\<close>

datatype udp_action =
    UdpWaits
  | UdpConnects "unit res" "unit res"                 \<comment> \<open>\<open>connect_udp\<close>, and the write of \<open>OpenOk\<close>\<close>
  | UdpReceives "bytes res" "unit res"                \<comment> \<open>\<open>socket.recv()\<close>, and the write of the frame\<close>
  | UdpReads "data_frame res" "unit res"              \<comment> \<open>\<open>tls_reader.read()\<close>, and \<open>socket.send\<close>\<close>
  | UdpIdles

text \<open>One arm of the loop of \<open>serve_udp\<close>; a result ends the association.\<close>

definition udp_receives :: "bytes \<Rightarrow> unit res \<Rightarrow> udp_association \<Rightarrow> udp_association \<times> unit res option" where
  "udp_receives bs written a =
     (case written of
        Err e \<Rightarrow> (a, Some (Err e))
      | Ok _ \<Rightarrow> (a\<lparr>ua_sent := ua_sent a @ [Datagram (ua_flow_id a) (ua_send_sequence a) bs],
                    ua_send_sequence := ua_send_sequence a + 1\<rparr>, None))"

definition udp_reads :: "data_frame \<Rightarrow> unit res \<Rightarrow> udp_association \<Rightarrow> udp_association \<times> unit res option" where
  "udp_reads frame sent a =
     (case frame of
        Datagram i sequence bs \<Rightarrow>
          if i = ua_flow_id a \<and> ua_receive_sequence a \<le> sequence \<and> length bs \<le> 65507
          then (if sequence = ua_receive_sequence a
                then (case sent of
                        Err e \<Rightarrow> (a, Some (Err e))
                      | Ok _ \<Rightarrow> (a\<lparr>ua_delivered := ua_delivered a @ [bs],
                                    ua_receive_sequence := ua_receive_sequence a + 1\<rparr>, None))
                else (a, None))
          else (a, Some (Err (Serving InvalidUdpFrame)))
      | Close i reason \<Rightarrow> (a, Some (if i = ua_flow_id a then Ok () else Err (Serving InvalidUdpFrame)))
      | _ \<Rightarrow> (a, Some (Err (Serving InvalidUdpFrame))))"

definition udp_act :: "udp_action \<Rightarrow> udp_association \<Rightarrow> udp_association \<times> unit res option" where
  "udp_act action a =
     (if \<not> ua_connected a
      then (case action of
              UdpConnects r w \<Rightarrow> (case rbind r (\<lambda>_. w) of
                  Err e \<Rightarrow> (a, Some (Err e))
                | Ok _ \<Rightarrow> (a\<lparr>ua_connected := True,
                      ua_sent := [OpenOk (ua_flow_id a) (ua_carrier_id a) 0 0 (version (ua_data_codec a))]\<rparr>, None))
            | _ \<Rightarrow> (a, None))
      else (case action of
              UdpReceives (Err e) w \<Rightarrow> (a, Some (Err e))
            | UdpReceives (Ok bs) w \<Rightarrow> udp_receives bs w a
            | UdpReads (Err e) s \<Rightarrow> (a, Some (Err e))
            | UdpReads (Ok frame) s \<Rightarrow> udp_reads frame s a
            | UdpIdles \<Rightarrow> (a, Some (Err (Serving UdpIdle)))
            | _ \<Rightarrow> (a, None)))"

text \<open>One poll of the association: the shutdown of the runtime, then \<open>authorization_rx.changed()\<close> with the check
  of the credential, the expiry, and the loop.\<close>

definition poll_association :: "bool \<Rightarrow> verified_authorization option \<Rightarrow> nat \<Rightarrow> u64 \<Rightarrow> udp_action
    \<Rightarrow> udp_association \<Rightarrow> udp_association \<times> unit res option" where
  "poll_association stopped authorization current now action a =
     (if stopped then (a, Some (Err (Flow RuntimeStopped)))
      else case (if ua_seen a = current then Ok 0
                 else home_ensure_credential_active authorization (ua_credential_id a) now) of
             Err e \<Rightarrow> (a, Some (Err e))
           | Ok _ \<Rightarrow> (if ua_not_after a \<le> now then (a, Some (Err (Serving CredentialExpired)))
                       else udp_act action (a\<lparr>ua_seen := current\<rparr>)))"

definition poll_udp :: "udp_association \<Rightarrow> u64 \<Rightarrow> udp_action \<Rightarrow> home_runtime \<Rightarrow> home_runtime" where
  "poll_udp a now action st =
     (if a \<notin> set (hr_udp st) then st
      else case poll_association (hr_stopped st) (hr_authorization st) (hr_authorization_version st) now action a of
             (a', None) \<Rightarrow> st\<lparr>hr_udp := remove1 a (hr_udp st) @ [a']\<rparr>
           | (a', Some r) \<Rightarrow> st\<lparr>hr_udp := remove1 a (hr_udp st), hr_permits := hr_permits st + 1\<rparr>)"

section \<open>The serving Home as a machine\<close>

text \<open>\<open>TcpFlowRegistry::shutdown\<close>: when \<open>finish\<close> has stopped the runtime and every task is gone, the registry
  is cleared.\<close>

definition drained :: "home_runtime \<Rightarrow> bool" where
  "drained st \<longleftrightarrow> hr_tasks st = [] \<and> hr_udp st = [] \<and> hr_carriers st = [] \<and> hr_works st = [] \<and> hr_assigned st = []"

definition registry_shutdown :: "home_runtime \<Rightarrow> home_runtime" where
  "registry_shutdown st = (if hr_stopped st \<and> drained st then st\<lparr>hr_flows := []\<rparr> else st)"

record home_env =
  hv_crypto :: crypto
  hv_endpoint_json :: "home_endpoint_credential json"
  hv_credential_json :: "travel_credential json"
  hv_snapshot_json :: "travel_authorization_snapshot json"
  hv_cache_json :: "authorization_cache file_json"
  hv_config :: home_flow_config

datatype home_op =
    SnapshotArrives store_event travel_authorization_snapshot u64
  | SnapshotPublishes
  | WorkAssigned uuid string u64 u64
  | WorkConnects work_assignment peer_identity u64 u64
  | WorkOpens home_work data_frame uuid u64
  | WorkFails home_work
  | AssignmentFails work_assignment
  | CarrierSends held_carrier
  | CarrierStops held_carrier
  | FlowPolls uuid u64 flow_action
  | FlowReturns flow_key uuid
  | UdpPolls udp_association u64 udp_action
  | Stops
  | Clears

text \<open>The control session handles one message at a time, so that a snapshot waits for the one before. A pump
  stops and gives its permits back at any time; a task cancelled while it waits in \<open>tx.send\<close> drops its
  Carrier. \<open>remove\<close> follows the end of a flow's task. A task of a work that is polled after the stop is
  cancelled.\<close>

fun home_step :: "home_env \<Rightarrow> home_op \<Rightarrow> home_runtime \<Rightarrow> home_runtime" where
  "home_step E (SnapshotArrives ev snap now) st =
     (if hr_applying st = None
      then snd (apply_authorization_snapshot (hv_crypto E) (hv_endpoint_json E) (hv_credential_json E)
             (hv_snapshot_json E) (hv_cache_json E) ev snap now st)
      else st)"
| "home_step E SnapshotPublishes st = publish_authorization st"
| "home_step E (WorkAssigned i relay_id expires_at now) st = snd (open_relay_work i relay_id expires_at now st)"
| "home_step E (WorkConnects w identity started now) st =
     (if hr_stopped st then st\<lparr>hr_assigned := remove1 w (hr_assigned st)\<rparr> else snd (run_work w identity started now st))"
| "home_step E (AssignmentFails w) st = st\<lparr>hr_assigned := remove1 w (hr_assigned st)\<rparr>"
| "home_step E (WorkOpens w frame i now) st =
     (if hr_stopped st then st\<lparr>hr_works := remove1 w (hr_works st)\<rparr> else snd (open_work (hv_config E) w frame i now st))"
| "home_step E (WorkFails w) st = st\<lparr>hr_works := remove1 w (hr_works st)\<rparr>"
| "home_step E (CarrierSends c) st = snd (attach_send c st)"
| "home_step E (CarrierStops c) st =
     (if hc_stage c = Pumped \<or> hc_stage c = Attaching \<and> hr_stopped st then release_carrier c st else st)"
| "home_step E (FlowPolls i now action) st = poll_flow i now action st"
| "home_step E (FlowReturns key i) st =
     (if (key, i) \<in> set (hr_returned st)
      then registry_remove key i (st\<lparr>hr_returned := remove1 (key, i) (hr_returned st)\<rparr>) else st)"
| "home_step E (UdpPolls a now action) st = poll_udp a now action st"
| "home_step E Stops st = st\<lparr>hr_stopped := True\<rparr>"
| "home_step E Clears st = registry_shutdown st"

definition home_run :: "home_env \<Rightarrow> home_op list \<Rightarrow> home_runtime \<Rightarrow> home_runtime" where
  "home_run E ops st = fold (home_step E) ops st"

section \<open>Well-formedness and capacity\<close>

definition held :: "uuid \<Rightarrow> held_carrier list \<Rightarrow> nat" where
  "held i cs = length (filter (\<lambda>c. hc_instance c = i) cs)"

definition queued :: "uuid \<Rightarrow> held_carrier list \<Rightarrow> nat" where
  "queued i cs = length (filter (\<lambda>c. hc_instance c = i \<and> hc_stage c = Queued) cs)"

text \<open>Free permits and held Carriers of every instance add up to the limit.\<close>

definition slots_ok :: "nat \<Rightarrow> (uuid \<times> nat) list \<Rightarrow> held_carrier list \<Rightarrow> bool" where
  "slots_ok m slots cs \<longleftrightarrow> (\<forall>c \<in> set cs. map_of slots (hc_instance c) \<noteq> None)
     \<and> (\<forall>i n. map_of slots i = Some n \<longrightarrow> n + held i cs = m) \<and> (\<forall>i. queued i cs \<le> 16)"

text \<open>A running flow is found in the registry under its key, with its own instance and service, and a task that
  has returned is not running.\<close>

definition registered :: "(flow_key \<times> flow_handle) list \<Rightarrow> (uuid \<times> flow_task) list \<Rightarrow> (flow_key \<times> uuid) list \<Rightarrow> bool" where
  "registered flows tasks returned \<longleftrightarrow> distinct (map fst tasks)
     \<and> (\<forall>i t. map_of tasks i = Some t \<longrightarrow> (\<exists>h. map_of flows (ft_key t) = Some h \<and> fh_instance_id h = i
          \<and> fh_service_id h = svc_id (ft_service t)))
     \<and> (\<forall>(k, i) \<in> set returned. map_of tasks i = None)"

text \<open>Instance ids in use have a Carrier semaphore.\<close>

definition instances :: "home_runtime \<Rightarrow> uuid set" where
  "instances st = fst ` set (hr_tasks st) \<union> snd ` set (hr_returned st) \<union> (\<lambda>(k, h). fh_instance_id h) ` set (hr_flows st)"

definition known :: "home_runtime \<Rightarrow> bool" where
  "known st \<longleftrightarrow> instances st \<subseteq> dom (map_of (hr_slots st))"

definition flow_permits :: "home_runtime \<Rightarrow> nat" where
  "flow_permits st = hr_permits st + length (hr_tasks st) + length (hr_udp st)"

definition carrier_permits :: "home_runtime \<Rightarrow> nat" where
  "carrier_permits st = hr_carrier_permits st + length (hr_carriers st)"

definition home_wf :: "nat \<Rightarrow> nat \<Rightarrow> nat \<Rightarrow> uuid set \<Rightarrow> home_runtime \<Rightarrow> bool" where
  "home_wf n m k used st \<longleftrightarrow> flow_permits st = n \<and> carrier_permits st = m \<and> hr_max_carriers_per_flow st = k
     \<and> slots_ok k (hr_slots st) (hr_carriers st) \<and> registered (hr_flows st) (hr_tasks st) (hr_returned st)
     \<and> known st \<and> dom (map_of (hr_slots st)) \<subseteq> used"

lemma held_simps [simp]:
  "held i [] = 0" "held i (cs @ ds) = held i cs + held i ds"
  "held i [c] = (if hc_instance c = i then 1 else 0)"
  by (simp_all add: held_def)

lemma queued_simps [simp]:
  "queued i [] = 0" "queued i (cs @ ds) = queued i cs + queued i ds"
  "queued i [c] = (if hc_instance c = i \<and> hc_stage c = Queued then 1 else 0)"
  by (simp_all add: queued_def)

lemma length_filter_remove1:
  "c \<in> set cs \<Longrightarrow> length (filter P (remove1 c cs)) + (if P c then 1 else 0) = length (filter P cs)"
  by (induction cs) auto

lemma held_remove1: "c \<in> set cs \<Longrightarrow> held i (remove1 c cs) + (if hc_instance c = i then 1 else 0) = held i cs"
  unfolding held_def by (rule length_filter_remove1)

lemma queued_remove1: "c \<in> set cs \<Longrightarrow>
    queued i (remove1 c cs) + (if hc_instance c = i \<and> hc_stage c = Queued then 1 else 0) = queued i cs"
  unfolding queued_def by (rule length_filter_remove1)

lemma length_remove1_add: "c \<in> set cs \<Longrightarrow> Suc (length (remove1 c cs)) = length cs"
  using length_remove1 [of c cs] length_pos_if_in_set [of c cs] by simp

lemma length_delete_present:
  "distinct (map fst xs) \<Longrightarrow> map_of xs k = Some v \<Longrightarrow> Suc (length (AList.delete k xs)) = length xs"
proof (induction xs)
  case (Cons x xs)
  have "AList.delete k xs = xs" if "fst x = k"
    using Cons.prems(1) that by (intro delete_id) auto
  with Cons show ?case
    by (cases x) auto
qed simp

lemma slots_okD: "slots_ok m s cs \<Longrightarrow> map_of s i = Some n \<Longrightarrow> n + held i cs = m"
  by (simp add: slots_ok_def)

lemma slots_ok_acquire:
  assumes "slots_ok m s cs" "map_of s i = Some (Suc n)" "hc_instance c = i" "hc_stage c = Attaching"
  shows "slots_ok m (AList.update i n s) (cs @ [c])"
  using assms slots_okD [OF assms(1, 2)] by (auto simp: slots_ok_def update_conv')

lemma slots_ok_release:
  assumes "slots_ok m s cs" "c \<in> set cs" "map_of s (hc_instance c) = Some n"
  shows "slots_ok m (AList.update (hc_instance c) (Suc n) s) (remove1 c cs)"
  unfolding slots_ok_def
proof (intro conjI allI ballI impI)
  show "map_of (AList.update (hc_instance c) (Suc n) s) (hc_instance d) \<noteq> None" if "d \<in> set (remove1 c cs)" for d
    using assms(1) that notin_set_remove1 by (fastforce simp: slots_ok_def update_conv')
  show "k + held i (remove1 c cs) = m" if "map_of (AList.update (hc_instance c) (Suc n) s) i = Some k" for i k
    using that held_remove1 [OF assms(2), of i] slots_okD [OF assms(1, 3)] slots_okD [OF assms(1), of i k]
    by (cases "i = hc_instance c") (auto simp: update_conv')
  show "queued i (remove1 c cs) \<le> 16" for i
    using assms(1) queued_remove1 [OF assms(2), of i] by (auto simp: slots_ok_def split: if_splits elim: allE [of _ i])
qed

lemma slots_ok_stage:
  assumes "slots_ok m s cs" "c \<in> set cs" "stage = Queued \<Longrightarrow> queued (hc_instance c) cs < 16" "stage = Queued \<Longrightarrow> hc_stage c \<noteq> Queued"
  shows "slots_ok m s (remove1 c cs @ [c\<lparr>hc_stage := stage\<rparr>])"
  unfolding slots_ok_def
proof (intro conjI allI ballI impI)
  show "map_of s (hc_instance d) \<noteq> None" if "d \<in> set (remove1 c cs @ [c\<lparr>hc_stage := stage\<rparr>])" for d
    using assms(1, 2) that notin_set_remove1 by (fastforce simp: slots_ok_def)
  show "k + held i (remove1 c cs @ [c\<lparr>hc_stage := stage\<rparr>]) = m" if "map_of s i = Some k" for i k
    using assms(1) that held_remove1 [OF assms(2), of i] by (auto simp: slots_ok_def split: if_splits)
  show "queued i (remove1 c cs @ [c\<lparr>hc_stage := stage\<rparr>]) \<le> 16" for i
    using assms(1, 3, 4) queued_remove1 [OF assms(2), of i] by (auto simp: slots_ok_def split: if_splits elim: allE [of _ i])
qed

lemma slots_ok_create:
  assumes "slots_ok m s cs" "map_of s i = None"
  shows "slots_ok m (AList.update i m s) cs"
proof -
  have "held i cs = 0"
    using assms by (auto simp: slots_ok_def held_def filter_empty_conv)
  with assms show ?thesis
    by (auto simp: slots_ok_def update_conv')
qed

text \<open>Releasing, queueing and pumping Carriers.\<close>

lemma release_carrier_wf:
  assumes "home_wf n m k used st"
  shows "home_wf n m k used (release_carrier c st)"
proof (cases "c \<in> set (hr_carriers st)")
  case True
  then obtain f where f: "map_of (hr_slots st) (hc_instance c) = Some f" "free_slots st (hc_instance c) = f"
    using assms by (auto simp: home_wf_def slots_ok_def free_slots_def)
  have "dom (map_of (AList.update (hc_instance c) (Suc f) (hr_slots st))) = dom (map_of (hr_slots st))"
    using f by (auto simp: update_conv')
  then show ?thesis
    using assms True f slots_ok_release [OF _ True f(1)] length_remove1_add [OF True]
    by (auto simp: home_wf_def release_carrier_def flow_permits_def carrier_permits_def known_def instances_def update_conv')
qed (use assms in \<open>simp add: release_carrier_def\<close>)

lemma fold_release_wf: "home_wf n m k used st \<Longrightarrow> home_wf n m k used (fold release_carrier cs st)"
  by (induction cs arbitrary: st) (auto intro: release_carrier_wf)

lemma set_stage_wf:
  assumes "home_wf n m k used st" "c \<in> set (hr_carriers st)" "s = Queued \<Longrightarrow> queued (hc_instance c) (hr_carriers st) < 16"
    "s = Queued \<Longrightarrow> hc_stage c \<noteq> Queued"
  shows "home_wf n m k used (set_stage c s st)"
  using assms slots_ok_stage [OF _ assms(2-4)] length_remove1_add [OF assms(2)]
  by (auto simp: home_wf_def set_stage_def flow_permits_def carrier_permits_def known_def instances_def)

lemma hold_carrier_wf:
  assumes "home_wf n m k used st"
  shows "home_wf n m k used (snd (hold_carrier i c st))"
proof (cases "hr_carrier_permits st = 0 \<or> free_slots st i = 0")
  case False
  then obtain f where f: "map_of (hr_slots st) i = Some (Suc f)" "free_slots st i = Suc f"
    by (auto simp: free_slots_def gr0_conv_Suc split: option.splits)
  have "dom (map_of (AList.update i f (hr_slots st))) = dom (map_of (hr_slots st))"
    using f by (auto simp: update_conv')
  then show ?thesis
    using assms False f slots_ok_acquire [OF _ f(1)]
    by (auto simp: home_wf_def hold_carrier_def flow_permits_def carrier_permits_def known_def instances_def update_conv')
qed (use assms in \<open>auto simp: hold_carrier_def\<close>)

text \<open>Creating and ending flows.\<close>

lemma update_absent: "map_of xs q = None \<Longrightarrow> AList.update q v xs = xs @ [(q, v)]"
  by (induction xs) (auto split: if_splits)

lemma home_wf_flow:
  assumes "home_wf n m k used st" "hr_slots st' = hr_slots st" "hr_carriers st' = hr_carriers st"
    "hr_carrier_permits st' = hr_carrier_permits st" "hr_max_carriers_per_flow st' = hr_max_carriers_per_flow st"
    "flow_permits st' = flow_permits st" "registered (hr_flows st') (hr_tasks st') (hr_returned st')" "known st'"
  shows "home_wf n m k used st'"
  using assms by (simp add: home_wf_def carrier_permits_def)

lemma home_wf_cong:
  assumes "home_wf n m k used st" "hr_slots st' = hr_slots st" "hr_carriers st' = hr_carriers st"
    "hr_carrier_permits st' = hr_carrier_permits st" "hr_max_carriers_per_flow st' = hr_max_carriers_per_flow st"
    "hr_permits st' + length (hr_udp st') = hr_permits st + length (hr_udp st)" "hr_flows st' = hr_flows st" "hr_tasks st' = hr_tasks st"
    "hr_returned st' = hr_returned st"
  shows "home_wf n m k used st'"
  using assms by (intro home_wf_flow [OF assms(1-5)]) (auto simp: home_wf_def flow_permits_def known_def instances_def)

lemma registered_create:
  assumes r: "registered f ts rs" and new: "map_of f key = None" "i \<notin> fst ` set ts" "i \<notin> snd ` set rs"
    and h: "fh_instance_id h = i" "fh_service_id h = svc_id (ft_service t)" "ft_key t = key"
  shows "registered (AList.update key h f) (ts @ [(i, t)]) rs"
  unfolding registered_def
proof (intro conjI allI impI ballI)
  have i: "map_of ts i = None"
    using new(2) by (simp add: map_of_eq_None_iff)
  show "distinct (map fst (ts @ [(i, t)]))"
    using r new(2) by (simp add: registered_def)
  show "\<exists>x. map_of (AList.update key h f) (ft_key u) = Some x \<and> fh_instance_id x = j \<and> fh_service_id x = svc_id (ft_service u)"
    if u: "map_of (ts @ [(i, t)]) j = Some u" for j u
  proof (cases "j = i")
    case True
    then show ?thesis
      using u h i by (simp add: update_conv' map_add_def)
  next
    case False
    then obtain x where "map_of f (ft_key u) = Some x" "fh_instance_id x = j" "fh_service_id x = svc_id (ft_service u)"
      using u r by (auto simp: registered_def map_add_def split: option.splits if_splits)
    with new(1) show ?thesis
      by (cases "ft_key u = key") (auto simp: update_conv')
  qed
  show "case x of (q, j) \<Rightarrow> map_of (ts @ [(i, t)]) j = None" if x: "x \<in> set rs" for x
    using r x new(3) by (cases x) (force simp: registered_def map_add_def split: option.splits)
qed

lemma create_flow_wf:
  assumes w: "home_wf n m k used st" and i: "i \<notin> used" and key: "map_of (hr_flows st) key = None"
  shows "home_wf n m k (insert i used) (snd (create_flow key service not_after i st))"
proof -
  have wi: "home_wf n m k (insert i used) st"
    using w by (auto simp: home_wf_def)
  have fresh: "map_of (hr_slots st) i = None"
    using w i by (auto simp: home_wf_def)
  then have new: "i \<notin> fst ` set (hr_tasks st)" "i \<notin> snd ` set (hr_returned st)"
      "\<forall>(q, h) \<in> set (hr_flows st). fh_instance_id h \<noteq> i"
    using w by (auto simp: home_wf_def known_def instances_def)
  have keep: "filter (\<lambda>(q, h). fh_instance_id h \<noteq> i)
      (AList.update key \<lparr>fh_instance_id = i, fh_service_id = svc_id service\<rparr> (hr_flows st)) = hr_flows st"
    using new(3) by (auto simp: update_absent [OF key] filter_id_conv)
  show ?thesis
  proof (cases "hr_permits st = 0 \<or> hr_stopped st")
    case True
    then show ?thesis
      using wi keep by (auto simp: create_flow_def Let_def intro: home_wf_cong)
  next
    case False
    let ?t = "\<lparr>ft_key = key, ft_service = service, ft_not_after = not_after, ft_shutdown = False, ft_flow = None\<rparr>"
    let ?f = "AList.update key \<lparr>fh_instance_id = i, fh_service_id = svc_id service\<rparr> (hr_flows st)"
    have "registered ?f (hr_tasks st @ [(i, ?t)]) (hr_returned st)"
      using w key new by (intro registered_create) (simp_all add: home_wf_def)
    moreover have "known (st\<lparr>hr_flows := ?f, hr_tasks := hr_tasks st @ [(i, ?t)], hr_slots := AList.update i k (hr_slots st)\<rparr>)"
      using w by (auto simp: home_wf_def known_def instances_def update_conv' update_absent [OF key])
    ultimately show ?thesis
      using w False slots_ok_create [OF _ fresh]
      by (auto simp: home_wf_def create_flow_def Let_def flow_permits_def carrier_permits_def known_def instances_def update_conv')
  qed
qed

lemma release_carrier_sel [simp]:
  "hr_permits (release_carrier c st) = hr_permits st"
  "hr_max_carriers_per_flow (release_carrier c st) = hr_max_carriers_per_flow st"
  "hr_max_unacked_bytes (release_carrier c st) = hr_max_unacked_bytes st"
  "hr_detach_timeout (release_carrier c st) = hr_detach_timeout st"
  "hr_flows (release_carrier c st) = hr_flows st"
  "hr_tasks (release_carrier c st) = hr_tasks st"
  "hr_returned (release_carrier c st) = hr_returned st"
  "hr_assigned (release_carrier c st) = hr_assigned st"
  "hr_works (release_carrier c st) = hr_works st"
  "hr_udp (release_carrier c st) = hr_udp st"
  "hr_authorization (release_carrier c st) = hr_authorization st"
  "hr_authorization_version (release_carrier c st) = hr_authorization_version st"
  "hr_applying (release_carrier c st) = hr_applying st"
  "hr_cache (release_carrier c st) = hr_cache st"
  "hr_cache_file (release_carrier c st) = hr_cache_file st"
  "hr_trust (release_carrier c st) = hr_trust st"
  "hr_stopped (release_carrier c st) = hr_stopped st"
  "hr_outcomes (release_carrier c st) = hr_outcomes st"
  by (simp_all add: release_carrier_def)

lemma fold_release_sel [simp]:
  "hr_permits (fold release_carrier cs st) = hr_permits st"
  "hr_max_carriers_per_flow (fold release_carrier cs st) = hr_max_carriers_per_flow st"
  "hr_max_unacked_bytes (fold release_carrier cs st) = hr_max_unacked_bytes st"
  "hr_detach_timeout (fold release_carrier cs st) = hr_detach_timeout st"
  "hr_flows (fold release_carrier cs st) = hr_flows st"
  "hr_tasks (fold release_carrier cs st) = hr_tasks st"
  "hr_returned (fold release_carrier cs st) = hr_returned st"
  "hr_assigned (fold release_carrier cs st) = hr_assigned st"
  "hr_works (fold release_carrier cs st) = hr_works st"
  "hr_udp (fold release_carrier cs st) = hr_udp st"
  "hr_authorization (fold release_carrier cs st) = hr_authorization st"
  "hr_authorization_version (fold release_carrier cs st) = hr_authorization_version st"
  "hr_applying (fold release_carrier cs st) = hr_applying st"
  "hr_cache (fold release_carrier cs st) = hr_cache st"
  "hr_cache_file (fold release_carrier cs st) = hr_cache_file st"
  "hr_trust (fold release_carrier cs st) = hr_trust st"
  "hr_stopped (fold release_carrier cs st) = hr_stopped st"
  "hr_outcomes (fold release_carrier cs st) = hr_outcomes st"
  by (induction cs arbitrary: st; simp)+

lemma known_shrink: "known st \<Longrightarrow> instances st' \<subseteq> instances st \<Longrightarrow> hr_slots st' = hr_slots st \<Longrightarrow> known st'"
  unfolding known_def by simp

lemma wf_known: "home_wf n m k used st \<Longrightarrow> known st"
  by (simp add: home_wf_def)

lemma wf_registered: "home_wf n m k used st \<Longrightarrow> map_of (hr_tasks st) i = Some t
    \<Longrightarrow> \<exists>h. map_of (hr_flows st) (ft_key t) = Some h \<and> fh_instance_id h = i \<and> fh_service_id h = svc_id (ft_service t)"
  by (simp add: home_wf_def registered_def)

lemma drop_flow_wf:
  assumes w: "home_wf n m k used st" and t: "map_of (hr_tasks st) i = Some t"
  shows "home_wf n m k used (drop_flow i st)"
proof -
  let ?st = "fold release_carrier (queued_carriers i st) st"
  have f: "home_wf n m k used ?st"
    using w by (rule fold_release_wf)
  have d: "distinct (map fst (hr_tasks st))"
    using w by (simp add: home_wf_def registered_def)
  have "registered (hr_flows st) (AList.delete i (hr_tasks st)) (hr_returned st)"
    using w by (auto simp: home_wf_def registered_def delete_conv' distinct_delete split: if_splits)
  moreover have "known (drop_flow i st)"
  proof (rule known_shrink)
    show "known ?st" using f by (simp add: home_wf_def)
    show "instances (drop_flow i st) \<subseteq> instances ?st"
      unfolding instances_def by (intro Un_mono) (simp_all add: drop_flow_def dom_delete_subset)
  qed (simp add: drop_flow_def)
  ultimately show ?thesis
    using length_delete_present [OF d t]
    by (intro home_wf_flow [OF f]) (simp_all add: drop_flow_def flow_permits_def)
qed

lemma end_flow_wf:
  assumes w: "home_wf n m k used st" and t: "map_of (hr_tasks st) i = Some t"
  shows "home_wf n m k used (end_flow i t' r st)"
proof -
  note f = drop_flow_wf [OF w t]
  have k: "map_of (hr_slots (drop_flow i st)) i \<noteq> None"
  proof -
    have "i \<in> fst ` set (hr_tasks st)"
      using map_of_SomeD [OF t] by force
    moreover have "known (fold release_carrier (queued_carriers i st) st)"
      using fold_release_wf [OF w] by (simp add: home_wf_def)
    ultimately show ?thesis
      unfolding known_def instances_def drop_flow_def by auto
  qed
  have "registered (hr_flows (drop_flow i st)) (hr_tasks (drop_flow i st)) (hr_returned (drop_flow i st) @ [(ft_key t', i)])"
    using f by (auto simp: home_wf_def registered_def drop_flow_def delete_conv')
  with f k show ?thesis
    unfolding end_flow_def Let_def
    by (intro home_wf_flow [OF f]) (auto simp: flow_permits_def home_wf_def known_def instances_def)
qed

lemma update_flow_wf:
  assumes w: "home_wf n m k used st" and t: "map_of (hr_tasks st) i = Some t"
  shows "home_wf n m k used (update_flow i t h st)"
proof -
  have "fst ` set (AList.update i v (hr_tasks st)) = fst ` set (hr_tasks st)" for v
    using t by (rule update_keys)
  moreover have "length (AList.update i v (hr_tasks st)) = length (hr_tasks st)" for v
    using t by (simp add: length_update_present)
  moreover have "registered (hr_flows st) (AList.update i (t\<lparr>ft_flow := Some h\<rparr>) (hr_tasks st)) (hr_returned st)"
    using w t by (fastforce simp: home_wf_def registered_def update_conv' distinct_update split: if_splits)
  ultimately show ?thesis
    using w by (intro home_wf_flow [OF w]) (auto simp: update_flow_def flow_permits_def home_wf_def known_def instances_def)
qed

lemma settle_wf: "home_wf n m k used st \<Longrightarrow> map_of (hr_tasks st) i = Some t \<Longrightarrow> home_wf n m k used (settle i t hr st)"
  by (auto simp: settle_def update_flow_wf end_flow_wf split: prod.splits result.splits)

lemma queued_carriersD: "c \<in> set (queued_carriers i st) \<Longrightarrow> c \<in> set (hr_carriers st) \<and> hc_instance c = i \<and> hc_stage c = Queued"
  by (simp add: queued_carriers_def)

lemma take_carrier_wf:
  assumes w: "home_wf n m k used st" and t: "map_of (hr_tasks st) i = Some t"
  shows "home_wf n m k used (take_carrier i t h opened spawned st)"
proof (cases "queued_carriers i st")
  case (Cons c cs)
  then have "c \<in> set (hr_carriers st)"
    using queued_carriersD [of c i st] by simp
  then have "home_wf n m k used (set_stage c Pumped st)"
    using w by (intro set_stage_wf) simp_all
  moreover have "map_of (hr_tasks (set_stage c Pumped st)) i = Some t"
    using t by (simp add: set_stage_def)
  ultimately show ?thesis
    using w t release_carrier_wf [OF w, of c]
    by (auto simp: take_carrier_def Cons intro!: settle_wf split: prod.splits)
qed (use w in \<open>simp add: take_carrier_def\<close>)

lemma flow_act_wf:
  "home_wf n m k used st \<Longrightarrow> map_of (hr_tasks st) i = Some t \<Longrightarrow> home_wf n m k used (flow_act i t action st)"
  by (auto simp: flow_act_def update_flow_wf end_flow_wf settle_wf take_carrier_wf
      split: option.splits flow_action.splits connect_outcome.splits)

lemma poll_flow_wf: "home_wf n m k used st \<Longrightarrow> home_wf n m k used (poll_flow i now action st)"
  by (auto simp: poll_flow_def drop_flow_wf end_flow_wf flow_act_wf split: option.splits)

lemma home_wf_used: "home_wf n m k used st \<Longrightarrow> used \<subseteq> used' \<Longrightarrow> home_wf n m k used' st"
  by (auto simp: home_wf_def)

lemma attach_wf:
  assumes "home_wf n m k used st" "i \<notin> used"
  shows "home_wf n m k (insert i used) (snd (attach credential travel_id flow_id service carrier not_after i st))"
proof -
  have "home_wf n m k (insert i used) st"
    using assms(1) by (rule home_wf_used) auto
  then show ?thesis
    using create_flow_wf [OF assms]
    by (auto simp: attach_def Let_def hold_carrier_wf split: option.splits result.splits prod.splits)
      (metis hold_carrier_wf snd_conv)+
qed

lemma open_work_wf:
  assumes "home_wf n m k used st" "i \<notin> used"
  shows "home_wf n m k (insert i used) (snd (open_work cfg w frame i now st))"
proof -
  have u: "home_wf n m k (insert i used) st"
    using assms(1) by (rule home_wf_used) auto
  have r: "home_wf n m k used (st\<lparr>hr_works := ws\<rparr>)" for ws
    using assms(1) by (rule home_wf_cong) simp_all
  have ru: "home_wf n m k (insert i used) (st\<lparr>hr_works := ws\<rparr>)" for ws
    using u by (rule home_wf_cong) simp_all
  have udp: "home_wf n m k (insert i used) (snd (open_udp w fl ca co na now' (st\<lparr>hr_works := ws\<rparr>)))" for fl ca co na now' ws
    using ru [of ws] by (auto simp: open_udp_def intro: home_wf_cong split: result.splits)
  note a = attach_wf [OF r assms(2)]
  show ?thesis
  proof (cases "w \<in> set (hr_works st)")
    case True
    then show ?thesis
      using u ru udp a by (auto simp: open_work_def Let_def split: data_frame.splits result.splits service_protocol.splits prod.splits)
        (metis a snd_conv)+
  qed (use u in \<open>simp add: open_work_def\<close>)
qed

lemma attach_send_wf:
  assumes "home_wf n m k used st"
  shows "home_wf n m k used (snd (attach_send c st))"
proof -
  have "queued (hc_instance c) (hr_carriers st) = length (queued_carriers (hc_instance c) st)"
    by (simp add: queued_def queued_carriers_def)
  then show ?thesis
    using assms by (auto simp: attach_send_def release_carrier_wf intro!: set_stage_wf)
qed

lemma revoke_inactive_sel [simp]:
  "map fst (hr_tasks (revoke_inactive va now st)) = map fst (hr_tasks st)"
  "hr_flows (revoke_inactive va now st) = hr_flows st" "hr_slots (revoke_inactive va now st) = hr_slots st"
  "hr_carriers (revoke_inactive va now st) = hr_carriers st" "hr_returned (revoke_inactive va now st) = hr_returned st"
  "hr_permits (revoke_inactive va now st) = hr_permits st" "hr_udp (revoke_inactive va now st) = hr_udp st"
  "hr_carrier_permits (revoke_inactive va now st) = hr_carrier_permits st"
  "hr_max_carriers_per_flow (revoke_inactive va now st) = hr_max_carriers_per_flow st"
  "hr_works (revoke_inactive va now st) = hr_works st" "hr_cache (revoke_inactive va now st) = hr_cache st"
  "hr_assigned (revoke_inactive va now st) = hr_assigned st" "hr_cache_file (revoke_inactive va now st) = hr_cache_file st"
  "hr_authorization (revoke_inactive va now st) = hr_authorization st" "hr_stopped (revoke_inactive va now st) = hr_stopped st"
  "hr_authorization_version (revoke_inactive va now st) = hr_authorization_version st"
  by (auto simp: revoke_inactive_def)

lemma revoke_inactive_task:
  "map_of (hr_tasks (revoke_inactive va now st)) i =
     map_option (\<lambda>t. if i \<in> set (revoked_instances va now st) then t\<lparr>ft_shutdown := True\<rparr> else t) (map_of (hr_tasks st) i)"
proof -
  have "map_of (map (\<lambda>(j, t). (j, g j t)) xs) i = map_option (g i) (map_of xs i)" for g :: "uuid \<Rightarrow> flow_task \<Rightarrow> flow_task" and xs
    by (induction xs) auto
  then show ?thesis
    by (simp add: revoke_inactive_def)
qed

lemma revoke_inactive_wf:
  assumes w: "home_wf n m k used st"
  shows "home_wf n m k used (revoke_inactive va now st)"
proof -
  have "map fst (hr_tasks (revoke_inactive va now st)) = map fst (hr_tasks st)"
    by simp
  then have k: "fst ` set (hr_tasks (revoke_inactive va now st)) = fst ` set (hr_tasks st)"
    by (metis set_map)
  have "registered (hr_flows st) (hr_tasks (revoke_inactive va now st)) (hr_returned st)"
    using w by (fastforce simp: home_wf_def registered_def revoke_inactive_task)
  moreover have "length (hr_tasks (revoke_inactive va now st)) = length (hr_tasks st)"
    by (simp add: revoke_inactive_def)
  ultimately show ?thesis
    using w k by (intro home_wf_flow [OF w]) (simp_all add: flow_permits_def home_wf_def known_def instances_def)
qed

lemma accept_snapshot_fields:
  "accept_snapshot C JE J JS F ev snap st = (r, st') \<Longrightarrow> st' = st\<lparr>hr_cache := hr_cache st', hr_cache_file := hr_cache_file st'\<rparr>"
  by (auto simp: accept_snapshot_def split: result.splits prod.splits if_splits)

lemma apply_snapshot_wf:
  assumes "home_wf n m k used st"
  shows "home_wf n m k used (snd (apply_authorization_snapshot C JE J JS F ev snap now st))"
proof -
  obtain r st1 where a: "accept_snapshot C JE J JS F ev snap st = (r, st1)"
    by (meson surj_pair)
  have s: "home_wf n m k used st1"
    by (subst accept_snapshot_fields [OF a], rule home_wf_cong [OF assms]) simp_all
  have "home_wf n m k used ((revoke_inactive va now st1)\<lparr>hr_applying := x\<rparr>)" for va x
    using revoke_inactive_wf [OF s] by (rule home_wf_cong) simp_all
  with s show ?thesis
    by (auto simp: apply_authorization_snapshot_def a split: result.splits)
qed

lemma registry_remove_wf:
  assumes w: "home_wf n m k used st" and r: "map_of (hr_tasks st) i = None"
  shows "home_wf n m k used (registry_remove key i st)"
proof (cases "\<exists>h. map_of (hr_flows st) key = Some h \<and> fh_instance_id h = i")
  case True
  have "registered (AList.delete key (hr_flows st)) (hr_tasks st) (hr_returned st)"
    using w r True by (fastforce simp: home_wf_def registered_def delete_conv' split: if_splits)
  moreover have "set (AList.delete key (hr_flows st)) \<subseteq> set (hr_flows st)"
    by (auto simp: AList.delete_eq)
  then have "instances (registry_remove key i st) \<subseteq> instances st"
    using True unfolding instances_def by (intro Un_mono) (auto simp: registry_remove_def)
  then have "known (registry_remove key i st)"
    by (rule known_shrink [OF wf_known [OF w]]) (use True in \<open>auto simp: registry_remove_def\<close>)
  ultimately show ?thesis
    using True by (intro home_wf_flow [OF w]) (auto simp: registry_remove_def flow_permits_def)
qed (use w in \<open>auto simp: registry_remove_def split: option.splits\<close>)

lemma poll_udp_wf: "home_wf n m k used st \<Longrightarrow> home_wf n m k used (poll_udp a now action st)"
  by (auto simp: poll_udp_def length_remove1_add intro: home_wf_cong split: prod.splits option.splits)

text \<open>The instance ids that \<open>Uuid::new_v4\<close> gave.\<close>

fun issued_instances :: "home_op list \<Rightarrow> uuid list" where
  "issued_instances [] = []"
| "issued_instances (WorkOpens w frame i now # ops) = i # issued_instances ops"
| "issued_instances (op # ops) = issued_instances ops"

lemma home_step_wf:
  assumes w: "home_wf n m k used st" and fresh: "set (issued_instances [op]) \<inter> used = {}"
  shows "home_wf n m k (used \<union> set (issued_instances [op])) (home_step E op st)"
proof -
  have r: "registered (hr_flows st) (hr_tasks st) (hr_returned st)"
    using w by (simp add: home_wf_def)
  have remove: "home_wf n m k used (registry_remove key i (st\<lparr>hr_returned := remove1 (key, i) (hr_returned st)\<rparr>))"
    if "(key, i) \<in> set (hr_returned st)" for key i
  proof -
    have "map_of (hr_tasks st) i = None"
      using r that by (auto simp: registered_def)
    moreover have "home_wf n m k used (st\<lparr>hr_returned := remove1 (key, i) (hr_returned st)\<rparr>)"
    proof (rule home_wf_flow [OF w])
      show "registered (hr_flows (st\<lparr>hr_returned := remove1 (key, i) (hr_returned st)\<rparr>))
          (hr_tasks (st\<lparr>hr_returned := remove1 (key, i) (hr_returned st)\<rparr>))
          (hr_returned (st\<lparr>hr_returned := remove1 (key, i) (hr_returned st)\<rparr>))"
        using r by (auto simp: registered_def dest: notin_set_remove1)
      show "known (st\<lparr>hr_returned := remove1 (key, i) (hr_returned st)\<rparr>)"
      proof (rule known_shrink [OF wf_known [OF w]])
        show "instances (st\<lparr>hr_returned := remove1 (key, i) (hr_returned st)\<rparr>) \<subseteq> instances st"
          unfolding instances_def by (intro Un_mono) (simp_all add: image_mono set_remove1_subset)
      qed simp
    qed (simp_all add: flow_permits_def)
    ultimately show ?thesis
      by (intro registry_remove_wf) simp_all
  qed
  show ?thesis
  proof (cases op)
    case (WorkOpens x frame i now)
    then show ?thesis
      using open_work_wf [OF w, of i] home_wf_cong [OF home_wf_used [OF w, of "insert i used"], of "st\<lparr>hr_works := remove1 x (hr_works st)\<rparr>"]
        fresh by auto
  next
    case Clears
    have "home_wf n m k used (st\<lparr>hr_flows := []\<rparr>)" if "hr_tasks st = []"
      using w that by (intro home_wf_flow [OF w]) (auto simp: registered_def home_wf_def flow_permits_def known_def instances_def)
    then show ?thesis
      using Clears w by (auto simp: registry_shutdown_def drained_def)
  qed (use w remove in \<open>auto simp: apply_snapshot_wf publish_authorization_def open_relay_work_def run_work_def Let_def
        attach_send_wf release_carrier_wf poll_flow_wf poll_udp_wf intro: home_wf_cong split: option.splits result.splits\<close>)
qed

lemma issued_instances_Cons: "issued_instances (op # ops) = issued_instances [op] @ issued_instances ops"
  by (cases op) auto

lemma home_run_wf:
  "home_wf n m k used st \<Longrightarrow> distinct (issued_instances ops) \<Longrightarrow> set (issued_instances ops) \<inter> used = {}
     \<Longrightarrow> \<exists>used'. home_wf n m k used' (home_run E ops st)"
proof (induction ops arbitrary: st used)
  case (Cons op ops)
  have e: "home_run E (op # ops) st = home_run E ops (home_step E op st)"
    by (simp add: home_run_def)
  have "home_wf n m k (used \<union> set (issued_instances [op])) (home_step E op st)"
    using Cons.prems by (intro home_step_wf) (auto simp: issued_instances_Cons [of op ops])
  from Cons.IH [OF this] Cons.prems(2, 3) show ?case
    unfolding e by (auto simp: issued_instances_Cons [of op ops])
qed (auto simp: home_run_def)

lemma home_new_wf: "home_wf n m k {} (home_runtime_new n m k u d cache f trust)"
  by (auto simp: home_wf_def home_runtime_new_def flow_permits_def carrier_permits_def slots_ok_def registered_def
      known_def instances_def)

lemma reachable_wf: "distinct (issued_instances ops) \<Longrightarrow>
    \<exists>used. home_wf n m k used (home_run E ops (home_runtime_new n m k u d cache f trust))"
  by (rule home_run_wf [OF home_new_wf]) auto

section \<open>Revocation\<close>

text \<open>What the operations of the registry and of the flows leave unchanged.\<close>

definition outer :: "home_runtime \<Rightarrow> work_assignment list \<times> home_work list \<times> udp_association list
    \<times> verified_authorization option \<times> nat \<times> verified_authorization option \<times> authorization_cache \<times> state_file \<times> bool" where
  "outer st = (hr_assigned st, hr_works st, hr_udp st, hr_authorization st, hr_authorization_version st,
     hr_applying st, hr_cache st, hr_cache_file st, hr_stopped st)"

lemma outer_simps [simp]:
  "outer (release_carrier c st) = outer st" "outer (fold release_carrier cs st) = outer st"
  "outer (set_stage c s st) = outer st" "outer (drop_flow i st) = outer st" "outer (end_flow i t r st) = outer st"
  "outer (update_flow i t h st) = outer st" "outer (snd (hold_carrier i carrier st)) = outer st"
  "outer (snd (create_flow key service not_after i st)) = outer st" "outer (registry_remove key i st) = outer st"
  by (auto simp: outer_def set_stage_def drop_flow_def end_flow_def update_flow_def hold_carrier_def create_flow_def
      registry_remove_def Let_def split: option.splits)

lemma outer_settle [simp]: "outer (settle i t hr st) = outer st"
  by (auto simp: settle_def split: prod.splits result.splits)

lemma outer_take [simp]: "outer (take_carrier i t h opened spawned st) = outer st"
  by (auto simp: take_carrier_def split: list.splits prod.splits)

lemma outer_poll [simp]: "outer (poll_flow i now action st) = outer st"
  by (auto simp: poll_flow_def flow_act_def split: option.splits flow_action.splits connect_outcome.splits)

lemma outer_attach [simp]: "outer (snd (attach credential travel_id flow_id service carrier not_after i st)) = outer st"
proof -
  have "outer st1 = outer st" if "create_flow key service not_after i st = (r, st1)" for key r st1
    using that outer_simps(8) by (metis snd_conv)
  moreover have "outer (snd (hold_carrier j carrier st1)) = outer st1" for j st1
    by simp
  ultimately show ?thesis
    by (auto simp: attach_def Let_def split: option.splits result.splits prod.splits)
qed

lemma outer_send [simp]: "outer (snd (attach_send c st)) = outer st"
  by (simp add: attach_send_def)

text \<open>A receiver of the authorization has seen at most the current version, and authorizations are verified.\<close>

definition receivers_ok :: "home_runtime \<Rightarrow> bool" where
  "receivers_ok st \<longleftrightarrow> (\<forall>a \<in> set (hr_udp st). ua_seen a \<le> hr_authorization_version st)
     \<and> (\<forall>w \<in> set (hr_works st). hw_seen w \<le> hr_authorization_version st)
     \<and> (\<forall>w \<in> set (hr_assigned st). wa_seen w \<le> hr_authorization_version st)
     \<and> (\<forall>va \<in> set_option (hr_authorization st) \<union> set_option (hr_applying st). va_wf va)"

text \<open>No flow of the credentials runs without having been told to stop.\<close>

definition quiet :: "uuid set \<Rightarrow> home_runtime \<Rightarrow> bool" where
  "quiet R st \<longleftrightarrow> (\<forall>i t. map_of (hr_tasks st) i = Some t \<longrightarrow> fk_credential_id (ft_key t) \<in> R \<longrightarrow> ft_shutdown t)"

lemma receivers_ok_cong: "outer st' = outer st \<Longrightarrow> receivers_ok st' = receivers_ok st"
  by (simp add: receivers_ok_def outer_def)

lemma quiet_cong: "hr_tasks st' = hr_tasks st \<Longrightarrow> quiet R st' = quiet R st"
  by (simp add: quiet_def)

lemma quiet_drop: "quiet R st \<Longrightarrow> quiet R (drop_flow i st)"
  by (auto simp: quiet_def drop_flow_def delete_conv' split: if_splits)

lemma quiet_end: "quiet R st \<Longrightarrow> quiet R (end_flow i t r st)"
  using quiet_drop [of R st i] by (simp add: quiet_def end_flow_def Let_def)

lemma quiet_update: "quiet R st \<Longrightarrow> map_of (hr_tasks st) i = Some t \<Longrightarrow> quiet R (update_flow i t h st)"
  by (auto simp: quiet_def update_flow_def update_conv' split: if_splits)

lemma quiet_settle: "quiet R st \<Longrightarrow> map_of (hr_tasks st) i = Some t \<Longrightarrow> quiet R (settle i t hr st)"
  by (auto simp: settle_def quiet_update quiet_end split: prod.splits result.splits)

lemma quiet_take:
  assumes "quiet R st" "map_of (hr_tasks st) i = Some t"
  shows "quiet R (take_carrier i t h opened spawned st)"
proof -
  have "quiet R (settle i t hr (if b then set_stage c Pumped st else release_carrier c st))" for hr b c
    using assms by (intro quiet_settle) (auto simp: quiet_def set_stage_def)
  with assms(1) show ?thesis
    by (auto simp: take_carrier_def split: list.splits prod.splits)
qed

lemma quiet_poll: "quiet R st \<Longrightarrow> quiet R (poll_flow i now action st)"
  by (auto simp: poll_flow_def flow_act_def quiet_drop quiet_end quiet_update quiet_settle quiet_take
      split: option.splits flow_action.splits connect_outcome.splits)

lemma quiet_attach:
  assumes "quiet R st" "tc_credential_id credential \<notin> R"
  shows "quiet R (snd (attach credential travel_id flow_id service carrier not_after i st))"
proof -
  have c: "quiet R (snd (create_flow key service not_after i st))" if "fk_credential_id key \<notin> R" for key
    using assms(1) that by (auto simp: quiet_def create_flow_def Let_def map_add_def split: option.splits if_splits)
  have h: "quiet R (snd (hold_carrier j carrier st1)) = quiet R st1" for j st1
    by (simp add: hold_carrier_def quiet_def)
  show ?thesis
    using assms c [of "\<lparr>fk_credential_id = tc_credential_id credential, fk_travel_id = travel_id, fk_flow_id = flow_id\<rparr>"]
    by (auto simp: attach_def Let_def h split: option.splits result.splits prod.splits)
qed

lemma quiet_revoke: "quiet R st \<Longrightarrow> quiet R (revoke_inactive va now st)"
  by (auto simp: quiet_def revoke_inactive_task)

lemma accept_snapshot_cases:
  assumes "accept_snapshot C JE J JS F ev snap st = (r, st')"
  obtains (refused) e where "r = Err e" "st' = st"
  | (unstored) e va c where "r = Err e" "cache_accept (hr_cache st) va = Ok c"
      "st' = st\<lparr>hr_cache_file := snd (store_json_atomic F ev (hr_cache_file st) c)\<rparr>"
  | (accepted) auths va c f where "r = Ok va" "authorization_verify C J JS snap auths (dt_deployment_id (hr_trust st)) = Ok va"
      "cache_accept (hr_cache st) va = Ok c" "c = hr_cache st \<and> f = hr_cache_file st \<or> store_json_atomic F ev (hr_cache_file st) c = (Ok (), f)"
      "st' = st\<lparr>hr_cache := c, hr_cache_file := f\<rparr>"
proof -
  let ?r = "rbind (travel_authorities_with_home_delegations C JE (hr_trust st) (tas_home_endpoint_credentials snap)) (\<lambda>auths.
           rbind (authorization_verify C J JS snap auths (dt_deployment_id (hr_trust st))) (\<lambda>va.
           rbind (cache_accept (hr_cache st) va) (\<lambda>cache. Ok (va, cache))))"
  show thesis
  proof (cases ?r)
    case (Err e)
    then show thesis
      using assms by (intro refused [of e]) (simp_all add: accept_snapshot_def)
  next
    case (Ok x)
    then obtain auths va c where x: "?r = Ok (va, c)"
      and v: "authorization_verify C J JS snap auths (dt_deployment_id (hr_trust st)) = Ok va"
        "cache_accept (hr_cache st) va = Ok c"
      by auto
    show thesis
    proof (cases "c = hr_cache st")
      case True
      then show thesis
        using assms v by (intro accepted [of va auths c "hr_cache_file st"]) (simp_all add: accept_snapshot_def x)
    next
      case False
      obtain q f where q: "store_json_atomic F ev (hr_cache_file st) c = (q, f)"
        by (meson surj_pair)
      show thesis
      proof (cases q)
        case (Ok u)
        then show thesis
          using assms v q False by (intro accepted [of va auths c f]) (simp_all add: accept_snapshot_def x)
      next
        case (Err e)
        then show thesis
          using assms v q False by (intro unstored [of e va c]) (simp_all add: accept_snapshot_def x)
      qed
    qed
  qed
qed

text \<open>The state in which some credentials are shut out.\<close>

definition shut :: "authorization_cache file_json \<Rightarrow> uuid set \<Rightarrow> home_runtime \<Rightarrow> bool" where
  "shut F R st \<longleftrightarrow> receivers_ok st \<and> quiet R st
     \<and> keeps_revoked F R (hr_cache st) (hr_cache_file st) (hr_authorization st) \<and> (R = {} \<or> hr_authorization st \<noteq> None)
     \<and> (\<forall>va \<in> set_option (hr_applying st). R \<subseteq> va_revoked_credentials va)
     \<and> (\<forall>w \<in> set (hr_works st). tc_credential_id (hw_credential w) \<notin> R)
     \<and> (\<forall>a \<in> set (hr_udp st). ua_credential_id a \<in> R \<longrightarrow> ua_seen a < hr_authorization_version st)"

lemma shut_cong: "outer st' = outer st \<Longrightarrow> quiet R st' = quiet R st \<Longrightarrow> shut F R st' = shut F R st"
  by (simp add: shut_def receivers_ok_def outer_def)

lemma ensure_revoked: "home_ensure_credential_active (Some va) i now = Ok n \<Longrightarrow> i \<notin> va_revoked_credentials va"
  by (auto simp: home_ensure_credential_active_def is_active_def split: option.splits)

lemma business_not_revoked:
  assumes "va_wf va" "authorize_business_credential va identity i now = Ok c"
  shows "tc_credential_id c = i" "i \<notin> va_revoked_credentials va"
proof -
  obtain cs where cs: "authorize_all va identity now (va_business_index va) = Ok cs"
    and c: "List.find (\<lambda>c. tc_credential_id c = i) cs = Some c"
    using assms(2) by (auto simp: authorize_business_credential_def)
  then show i: "tc_credential_id c = i"
    by (auto simp: find_Some_iff)
  have "c \<in> set cs"
    using c by (auto simp: find_Some_iff)
  then have "c \<in> active_for va business_key identity now"
    using authorize_all_spec(1) [OF _ _ cs] assms(1) by (auto simp: va_wf_def)
  then show "i \<notin> va_revoked_credentials va"
    using i by (auto simp: active_for_def is_active_def split: option.splits)
qed

lemma udp_act_sel: "udp_act action a = (a', r) \<Longrightarrow> ua_seen a' = ua_seen a \<and> ua_credential_id a' = ua_credential_id a"
  by (auto simp: udp_act_def udp_receives_def udp_reads_def split: udp_action.splits result.splits data_frame.splits if_splits)

lemma poll_association_sel:
  assumes "poll_association stopped authorization current now action a = (a', r)"
  shows "ua_credential_id a' = ua_credential_id a" "ua_seen a' = ua_seen a \<or> ua_seen a' = current"
    "r = None \<Longrightarrow> ua_seen a' = current"
  using assms udp_act_sel [of action "a\<lparr>ua_seen := current\<rparr>" a' r]
  by (auto simp: poll_association_def split: result.splits if_splits)

lemma poll_association_revoked:
  assumes "ua_seen a \<noteq> current" "ua_credential_id a \<in> va_revoked_credentials va"
  shows "\<exists>e. poll_association stopped (Some va) current now action a = (a, Some (Err e))"
proof (cases "home_ensure_credential_active (Some va) (ua_credential_id a) now")
  case (Ok n)
  then show ?thesis
    using ensure_revoked assms(2) by blast
qed (use assms(1) in \<open>auto simp: poll_association_def\<close>)

text \<open>What an applied snapshot, before its publication, has done.\<close>

definition applies :: "authorization_cache file_json \<Rightarrow> travel_authorization_snapshot \<Rightarrow> u64 \<Rightarrow> home_runtime
    \<Rightarrow> verified_authorization \<Rightarrow> home_runtime \<Rightarrow> bool" where
  "applies F snap now st va st' \<longleftrightarrow> hr_applying st' = Some va \<and> va_wf va
     \<and> va_revoked_credentials va = rv_credential_id ` set (tas_revocations snap)
     \<and> keeps_revoked F (va_revoked_credentials va) (hr_cache st') (hr_cache_file st') (Some va)
     \<and> hr_tasks st' = hr_tasks (revoke_inactive va now st) \<and> hr_assigned st' = hr_assigned st
     \<and> hr_works st' = hr_works st \<and> hr_udp st' = hr_udp st \<and> hr_authorization st' = hr_authorization st
     \<and> hr_authorization_version st' = hr_authorization_version st"

lemma snapshot_applies:
  assumes r: "receivers_ok st" and k: "keeps_revoked F R (hr_cache st) (hr_cache_file st) (hr_authorization st)"
    and F: "file_json_ok F" and a: "apply_authorization_snapshot C JE J JS F ev snap now st = (res, st')"
  obtains (refused) e where "res = Err e" "receivers_ok st'" "hr_tasks st' = hr_tasks st" "hr_applying st' = hr_applying st"
      "keeps_revoked F R (hr_cache st') (hr_cache_file st') (hr_authorization st')" "hr_works st' = hr_works st"
      "hr_udp st' = hr_udp st" "hr_authorization st' = hr_authorization st" "hr_authorization_version st' = hr_authorization_version st"
  | (applied) va where "res = Ok (va_generation va)" "applies F snap now st va st'" "receivers_ok st'"
      "keeps_revoked F R (hr_cache st') (hr_cache_file st') (hr_authorization st')" "R \<subseteq> va_revoked_credentials va"
proof -
  obtain q st1 where q: "accept_snapshot C JE J JS F ev snap st = (q, st1)"
    by (meson surj_pair)
  then show thesis
  proof (cases rule: accept_snapshot_cases)
    case (refused e)
    then have "res = Err e" "st' = st"
      using a q by (simp_all add: apply_authorization_snapshot_def)
    then show thesis
      using r k by (intro that(1)) simp_all
  next
    case (unstored e va c)
    then have "res = Err e" "st' = st1"
      using a q by (simp_all add: apply_authorization_snapshot_def)
    then show thesis
      using unstored(3) r keeps_revoked_refused [OF k F unstored(2), of ev]
      by (intro that(1)) (simp_all add: receivers_ok_def)
  next
    case (accepted auths va c f)
    have st': "st' = (revoke_inactive va now st1)\<lparr>hr_applying := Some va\<rparr>" "res = Ok (va_generation va)"
      using a q accepted(1) by (simp_all add: apply_authorization_snapshot_def)
    have R: "R \<subseteq> va_revoked_credentials va"
      using k accept_revoked [OF accepted(3)] by (auto simp: keeps_revoked_def)
    note n = keeps_revoked_applied [OF k F accepted(3, 4)]
    have "keeps_revoked F (va_revoked_credentials va) c f (Some va)"
      using n by (rule keeps_revoked_subset) simp
    moreover have "hr_tasks (revoke_inactive va now st1) = hr_tasks (revoke_inactive va now st)"
      using accepted(5) by (simp add: revoke_inactive_def revoked_instances_def)
    ultimately have "applies F snap now st va st'"
      using authorization_verifyD(1, 4) [OF accepted(2)] accepted(5) by (simp add: applies_def st')
    moreover have "receivers_ok st'"
      using r authorization_verifyD(1) [OF accepted(2)] accepted(5) by (simp add: st' receivers_ok_def)
    moreover have "keeps_revoked F R c f (hr_authorization st)"
      using n k by (auto simp: keeps_revoked_def)
    ultimately show thesis
      using R st'(2) accepted(5) by (intro that(2)) (simp_all add: st')
  qed
qed

lemma shut_snapshot:
  assumes s: "shut F R st" and F: "file_json_ok F" and a: "apply_authorization_snapshot C JE J JS F ev snap now st = (res, st')"
  shows "shut F R st'"
proof -
  have r: "receivers_ok st" "keeps_revoked F R (hr_cache st) (hr_cache_file st) (hr_authorization st)"
    using s by (simp_all add: shut_def)
  from r F a show ?thesis
  proof (cases rule: snapshot_applies)
    case (refused e)
    then show ?thesis
      using s by (simp add: shut_def quiet_def)
  next
    case (applied va)
    then have "quiet R st'"
      using s quiet_revoke [of R st va now] by (simp add: applies_def shut_def quiet_def)
    with applied show ?thesis
      using s by (simp add: shut_def applies_def)
  qed
qed

lemma shut_publish: "shut F R st \<Longrightarrow> shut F R (publish_authorization st)"
  by (auto simp: shut_def publish_authorization_def receivers_ok_def keeps_revoked_def quiet_def split: option.splits)

lemma shut_udp:
  assumes s: "shut F R st"
  shows "shut F R (poll_udp a now action st)"
proof (cases "a \<in> set (hr_udp st)")
  case True
  obtain a' r where p: "poll_association (hr_stopped st) (hr_authorization st) (hr_authorization_version st) now action a = (a', r)"
    by (meson surj_pair)
  have sub: "set (remove1 a (hr_udp st)) \<subseteq> set (hr_udp st)"
    by (rule set_remove1_subset)
  show ?thesis
  proof (cases r)
    case None
    have "ua_credential_id a' \<notin> R"
    proof
      assume c: "ua_credential_id a' \<in> R"
      obtain va where va: "hr_authorization st = Some va" "R \<subseteq> va_revoked_credentials va"
        using s c by (auto simp: shut_def keeps_revoked_def)
      have "ua_seen a \<noteq> hr_authorization_version st" "ua_credential_id a \<in> R"
        using s True c poll_association_sel(1) [OF p] by (auto simp: shut_def)
      then show False
        using poll_association_revoked [of a "hr_authorization_version st" va "hr_stopped st" now action] p va None by auto
    qed
    moreover have "ua_seen a' = hr_authorization_version st"
      using poll_association_sel(3) [OF p None] .
    ultimately show ?thesis
      using s True sub p None by (auto simp: poll_udp_def shut_def receivers_ok_def quiet_def)
  next
    case (Some x)
    then show ?thesis
      using s True sub p by (auto simp: poll_udp_def shut_def receivers_ok_def quiet_def)
  qed
qed (use s in \<open>simp add: poll_udp_def\<close>)

lemma shut_assigned: "shut F R st \<Longrightarrow> shut F R (snd (open_relay_work i relay_id expires_at now st))"
  by (auto simp: open_relay_work_def shut_def receivers_ok_def quiet_def split: result.splits)

lemma shut_shrink: "shut F R st \<Longrightarrow> set ws \<subseteq> set (hr_works st) \<Longrightarrow> set as \<subseteq> set (hr_assigned st)
    \<Longrightarrow> shut F R (st\<lparr>hr_works := ws, hr_assigned := as\<rparr>)"
  by (auto simp: shut_def receivers_ok_def quiet_def)

lemma shut_works: "shut F R st \<Longrightarrow> shut F R (st\<lparr>hr_works := remove1 w (hr_works st)\<rparr>)"
  using shut_shrink [of F R st "remove1 w (hr_works st)" "hr_assigned st"] set_remove1_subset [of w "hr_works st"] by simp

lemma shut_assignments: "shut F R st \<Longrightarrow> shut F R (st\<lparr>hr_assigned := remove1 w (hr_assigned st)\<rparr>)"
  using shut_shrink [of F R st "hr_works st" "remove1 w (hr_assigned st)"] set_remove1_subset [of w "hr_assigned st"] by simp

lemma shut_run_work:
  assumes s: "shut F R st"
  shows "shut F R (snd (run_work w identity started now st))"
proof (cases "w \<in> set (hr_assigned st)")
  case True
  let ?st = "st\<lparr>hr_assigned := remove1 w (hr_assigned st)\<rparr>"
  let ?r = "rbind (bail_if (wa_expires_at w \<le> started) (Serving WorkExpired)) (\<lambda>_.
      rbind (require_peer identity RTravel None []) (\<lambda>_.
      authorize_business_identity identity (hr_authorization ?st) (wa_credential_id w) now))"
  have s1: "shut F R ?st"
    using s by (rule shut_assignments)
  show ?thesis
  proof (cases ?r)
    case (Err e)
    then show ?thesis
      using s1 True by (simp add: run_work_def)
  next
    case (Ok c)
    then obtain va where "hr_authorization st = Some va" and c: "authorize_business_credential va identity (wa_credential_id w) now = Ok c"
      by (auto simp: authorize_business_identity_def)
    then have va: "R \<subseteq> va_revoked_credentials va" "va_wf va"
      using s by (auto simp: shut_def keeps_revoked_def receivers_ok_def)
    have "tc_credential_id c \<notin> R"
      using business_not_revoked [OF va(2) c] va(1) by auto
    moreover have "wa_seen w \<le> hr_authorization_version st"
      using s True by (auto simp: shut_def receivers_ok_def)
    moreover have "run_work w identity started now st = (Ok (), ?st\<lparr>hr_works := hr_works st @ [\<lparr>hw_credential = c,
                 hw_identity = identity, hw_relay_id = wa_relay_id w, hw_seen = wa_seen w\<rparr>]\<rparr>)"
      using True Ok by (simp add: run_work_def bail_if_def)
    ultimately show ?thesis
      using s1 by (auto simp: shut_def receivers_ok_def quiet_def)
  qed
qed (use s in \<open>simp add: run_work_def\<close>)

lemma shut_attach:
  assumes "shut F R st" "tc_credential_id credential \<notin> R"
  shows "shut F R (snd (attach credential travel_id flow_id service carrier not_after i st))"
  using assms quiet_attach [OF _ assms(2), of st] outer_attach [of credential travel_id flow_id service carrier not_after i st]
  unfolding shut_def outer_def receivers_ok_def by simp

lemma shut_open_udp:
  assumes "shut F R st" "tc_credential_id (hw_credential w) \<notin> R" "hw_seen w \<le> hr_authorization_version st"
  shows "shut F R (snd (open_udp w flow_id carrier_id codec not_after now st))"
  using assms by (auto simp: open_udp_def shut_def receivers_ok_def quiet_def split: result.splits)

lemma shut_open_work:
  assumes s: "shut F R st"
  shows "shut F R (snd (open_work cfg w frame i now st))"
proof (cases "w \<in> set (hr_works st)")
  case True
  then have w: "tc_credential_id (hw_credential w) \<notin> R" "hw_seen w \<le> hr_authorization_version st"
    using s by (auto simp: shut_def receivers_ok_def)
  note s1 = shut_works [OF s, of w]
  note udp = shut_open_udp [OF s1 w(1)]
  have tcp: "shut F R st2" if "attach (hw_credential w) t f v c n i (st\<lparr>hr_works := remove1 w (hr_works st)\<rparr>) = (r, st2)"
    for t f v c n r st2
    using shut_attach [OF s1 w(1), of t f v c n i] that by simp
  show ?thesis
    using True s1 udp w(2) tcp
    by (auto simp: open_work_def Let_def split: data_frame.splits result.splits service_protocol.splits prod.splits)
qed (use s in \<open>simp add: open_work_def\<close>)

lemma quiet_release [simp]: "quiet R (release_carrier c st) = quiet R st"
  by (simp add: quiet_def)

lemma quiet_send [simp]: "quiet R (snd (attach_send c st)) = quiet R st"
  by (simp add: attach_send_def quiet_def set_stage_def)

lemma registry_remove_tasks [simp]: "hr_tasks (registry_remove key i st) = hr_tasks st"
  by (simp add: registry_remove_def split: option.splits)

lemma shut_step:
  assumes s: "shut (hv_cache_json E) R st" and F: "file_json_ok (hv_cache_json E)"
  shows "shut (hv_cache_json E) R (home_step E op st)"
proof (cases op)
  case (SnapshotArrives ev snap now)
  obtain r st' where a: "apply_authorization_snapshot (hv_crypto E) (hv_endpoint_json E) (hv_credential_json E)
      (hv_snapshot_json E) (hv_cache_json E) ev snap now st = (r, st')"
    by (meson surj_pair)
  then show ?thesis
    using shut_snapshot [OF s F a] s SnapshotArrives by simp
next
  case (FlowPolls i now action)
  have "quiet R (poll_flow i now action st) = quiet R st"
    using s quiet_poll by (simp add: shut_def)
  then show ?thesis
    using s FlowPolls shut_cong [OF outer_poll [of i now action st]] by simp
next
  case (FlowReturns key i)
  have "quiet R (registry_remove key i (st\<lparr>hr_returned := x\<rparr>)) = quiet R st" for x
    by (simp add: quiet_def)
  moreover have "outer (registry_remove key i (st\<lparr>hr_returned := x\<rparr>)) = outer st" for x
    using outer_simps(9) [of key i "st\<lparr>hr_returned := x\<rparr>"] by (simp add: outer_def)
  ultimately show ?thesis
    using s FlowReturns shut_cong [of "registry_remove key i (st\<lparr>hr_returned := remove1 (key, i) (hr_returned st)\<rparr>)" st] by simp
next
  case (CarrierSends c)
  then show ?thesis
    using s shut_cong [OF outer_send quiet_send, of "hv_cache_json E" R c st] by simp
next
  case (CarrierStops c)
  then show ?thesis
    using s shut_cong [OF outer_simps(1) quiet_release, of "hv_cache_json E" R c st] by simp
next
  case Stops
  have "shut (hv_cache_json E) R (st\<lparr>hr_stopped := True\<rparr>) = shut (hv_cache_json E) R st"
    by (simp add: shut_def receivers_ok_def quiet_def)
  then show ?thesis
    using s Stops by simp
next
  case Clears
  have "shut (hv_cache_json E) R (st\<lparr>hr_flows := []\<rparr>) = shut (hv_cache_json E) R st"
    by (rule shut_cong) (simp_all add: outer_def quiet_def)
  then show ?thesis
    using s Clears by (simp add: registry_shutdown_def)
qed (use s in \<open>simp_all add: shut_publish shut_assigned shut_works shut_assignments shut_run_work shut_open_work shut_udp\<close>)

text \<open>What a run never takes back: the stop and the versions of the authorization.\<close>

lemma home_step_outer:
  "hr_stopped st \<longrightarrow> hr_stopped (home_step E op st)" (is ?stop)
  "hr_authorization_version st \<le> hr_authorization_version (home_step E op st)" (is ?version)
proof -
  have "?stop \<and> ?version"
  proof (cases op)
    case (SnapshotArrives ev snap now)
    obtain q st1 where "accept_snapshot (hv_crypto E) (hv_endpoint_json E) (hv_credential_json E)
        (hv_snapshot_json E) (hv_cache_json E) ev snap st = (q, st1)"
      by (meson surj_pair)
    with accept_snapshot_fields [OF this] show ?thesis
      using SnapshotArrives by (cases q; cases st1) (auto simp: apply_authorization_snapshot_def)
  next
    case (WorkOpens w frame i now)
    have "hr_stopped st2 = hr_stopped st \<and> hr_authorization_version st2 = hr_authorization_version st"
      if "attach a b c d e f g (st\<lparr>hr_works := ws\<rparr>) = (r, st2)" for a b c d e f g ws r st2
      using outer_attach [of a b c d e f g "st\<lparr>hr_works := ws\<rparr>"] that by (simp add: outer_def)
    then show ?thesis
      using WorkOpens by (auto simp: open_work_def open_udp_def Let_def
          split: data_frame.splits result.splits service_protocol.splits prod.splits)
  next
    case (FlowReturns key i)
    show ?thesis
      using FlowReturns outer_simps(9) [of key i "st\<lparr>hr_returned := remove1 (key, i) (hr_returned st)\<rparr>"]
      by (auto simp: outer_def)
  next
    case (FlowPolls i now action)
    then show ?thesis
      using outer_poll [of i now action st] by (simp add: outer_def)
  next
    case (CarrierSends c)
    then show ?thesis
      using outer_send [of c st] by (simp add: outer_def)
  qed (auto simp: publish_authorization_def open_relay_work_def run_work_def poll_udp_def registry_shutdown_def Let_def
        split: option.splits result.splits prod.splits)
  then show ?stop ?version by simp_all
qed

interpretation serving: ratchet "home_step E" "\<lambda>st. file_json_ok (hv_cache_json E) \<and> shut (hv_cache_json E) R st"
    "\<lambda>st st'. (hr_stopped st \<longrightarrow> hr_stopped st') \<and> hr_authorization_version st \<le> hr_authorization_version st'"
  by unfold_locales (auto intro: shut_step dest: home_step_outer(1) [THEN mp] order_trans [OF _ home_step_outer(2)]
      simp: home_step_outer(2))

lemma shut_run:
  "shut (hv_cache_json E) R st \<Longrightarrow> file_json_ok (hv_cache_json E) \<Longrightarrow> shut (hv_cache_json E) R (home_run E ops st)"
  unfolding home_run_def using serving.run_inv [of E R st ops] by blast

lemma shut_new:
  "load_json F f = Ok cache \<Longrightarrow> shut F {} (home_runtime_new n m k u d cache f trust)"
  by (simp add: shut_def home_runtime_new_def receivers_ok_def quiet_def keeps_revoked_def)

text \<open>Applying and publishing a snapshot shuts the revoked credentials out, unless work for one of them has
  passed its check and waits for \<open>OPEN\<close>.\<close>

lemma shut_applied:
  assumes s: "shut F {} st" and w: "home_wf n m k used st" and F: "file_json_ok F"
    and a: "apply_authorization_snapshot C JE J JS F ev snap now st = (Ok g, st')"
    and rv: "rv \<in> set (tas_revocations snap)"
    and idle: "\<forall>x \<in> set (hr_works st). tc_credential_id (hw_credential x) \<noteq> rv_credential_id rv"
  shows "shut F {rv_credential_id rv} (publish_authorization st')"
proof -
  let ?c = "rv_credential_id rv"
  have r: "receivers_ok st" "keeps_revoked F {} (hr_cache st) (hr_cache_file st) (hr_authorization st)"
    using s by (simp_all add: shut_def)
  from r F a obtain va where va: "applies F snap now st va st'" "receivers_ok st'"
    by (rule snapshot_applies) auto
  have c: "?c \<in> va_revoked_credentials va"
    using va(1) rv by (simp add: applies_def)
  then have "keeps_revoked F {?c} (hr_cache st') (hr_cache_file st') (Some va)"
    using va(1) by (auto simp: applies_def intro: keeps_revoked_subset)
  moreover have "quiet {?c} st'"
    unfolding quiet_def
  proof (intro allI impI)
    fix i t assume t: "map_of (hr_tasks st') i = Some t" "fk_credential_id (ft_key t) \<in> {?c}"
    then obtain t0 where t0: "map_of (hr_tasks st) i = Some t0"
      and e: "t = (if i \<in> set (revoked_instances va now st) then t0\<lparr>ft_shutdown := True\<rparr> else t0)"
      using va(1) by (auto simp: applies_def revoke_inactive_task)
    obtain h where h: "map_of (hr_flows st) (ft_key t0) = Some h" "fh_instance_id h = i"
      using wf_registered [OF w t0] by blast
    have "ft_key t0 = ft_key t"
      using e by simp
    then have "\<not> is_active va (fk_credential_id (ft_key t0)) now"
      using c t(2) by (auto simp: is_active_def split: option.splits)
    then have "i \<in> set (revoked_instances va now st)"
      using map_of_SomeD [OF h(1)] h(2) by (force simp: revoked_instances_def)
    then show "ft_shutdown t"
      using e by simp
  qed
  ultimately show ?thesis
    using va idle r(1) c by (auto simp: shut_def applies_def publish_authorization_def receivers_ok_def quiet_def le_imp_less_Suc)
qed

section \<open>Shutdown\<close>

text \<open>A queued Carrier waits for a running flow.\<close>

definition queues_live :: "home_runtime \<Rightarrow> bool" where
  "queues_live st \<longleftrightarrow> (\<forall>c \<in> set (hr_carriers st). hc_stage c = Queued \<longrightarrow> map_of (hr_tasks st) (hc_instance c) \<noteq> None)"

lemma queues_live_mono:
  assumes "queues_live st" "set (hr_carriers st') \<subseteq> set (hr_carriers st) \<union> {c. hc_stage c \<noteq> Queued}"
    "dom (map_of (hr_tasks st)) \<subseteq> dom (map_of (hr_tasks st'))"
  shows "queues_live st'"
  using assms unfolding queues_live_def by blast

lemma release_carriers [simp]: "hr_carriers (release_carrier c st) = remove1 c (hr_carriers st)"
  by (simp add: release_carrier_def remove1_idem)

lemma fold_release_carriers: "hr_carriers (fold release_carrier cs st) = fold remove1 cs (hr_carriers st)"
  by (induction cs arbitrary: st) simp_all

lemma mset_fold_remove1: "mset (fold remove1 cs xs) = mset xs - mset cs"
  by (induction cs arbitrary: xs) (simp_all add: mset_remove1)

text \<open>Ending a flow drops all its queued Carriers.\<close>

lemma drop_flow_carriers: "mset (hr_carriers (drop_flow i st)) =
    filter_mset (\<lambda>c. \<not> (hc_instance c = i \<and> hc_stage c = Queued)) (mset (hr_carriers st))"
proof -
  let ?P = "\<lambda>c. hc_instance c = i \<and> hc_stage c = Queued" and ?m = "mset (hr_carriers st)"
  have "?m - filter_mset ?P ?m = filter_mset (\<lambda>c. \<not> ?P c) ?m"
    by (rule multiset_eqI) simp
  then show ?thesis
    by (simp add: drop_flow_def fold_release_carriers mset_fold_remove1 queued_carriers_def mset_filter)
qed

lemma drop_flow_held: "c \<in> set (hr_carriers (drop_flow i st)) \<longleftrightarrow> c \<in> set (hr_carriers st) \<and> \<not> (hc_instance c = i \<and> hc_stage c = Queued)"
  using arg_cong [OF drop_flow_carriers, of set_mset i st] by auto

lemma queues_live_drop: "queues_live st \<Longrightarrow> queues_live (drop_flow i st)"
proof -
  have "map_of (hr_tasks (drop_flow i st)) = (map_of (hr_tasks st))(i := None)"
    by (simp add: drop_flow_def delete_conv')
  then show "queues_live st \<Longrightarrow> queues_live (drop_flow i st)"
    by (simp add: queues_live_def drop_flow_held)
qed

lemma end_flow_sel [simp]: "hr_carriers (end_flow i t r st) = hr_carriers (drop_flow i st)" "hr_tasks (end_flow i t r st) = hr_tasks (drop_flow i st)"
  by (simp_all add: end_flow_def Let_def)

lemma queues_live_end: "queues_live st \<Longrightarrow> queues_live (end_flow i t r st)"
  using queues_live_drop [of st i] by (simp add: queues_live_def)

lemma queues_live_update: "queues_live st \<Longrightarrow> queues_live (update_flow i t h st)"
  by (rule queues_live_mono) (auto simp: update_flow_def update_conv')

lemma queues_live_release: "queues_live st \<Longrightarrow> queues_live (release_carrier c st)"
  by (rule queues_live_mono) (auto dest: notin_set_remove1)

lemma queues_live_pump: "queues_live st \<Longrightarrow> queues_live (set_stage c Pumped st)"
  by (rule queues_live_mono) (auto simp: set_stage_def dest: notin_set_remove1)

lemma queues_live_settle: "queues_live st \<Longrightarrow> queues_live (settle i t hr st)"
  by (auto simp: settle_def queues_live_update queues_live_end split: prod.splits result.splits)

lemma queues_live_poll:
  assumes "queues_live st"
  shows "queues_live (poll_flow i now action st)"
proof -
  have "queues_live (take_carrier i t h opened spawned st)" for t h opened spawned
    using assms by (auto simp: take_carrier_def queues_live_settle queues_live_pump queues_live_release split: list.splits prod.splits)
  with assms show ?thesis
    by (auto simp: poll_flow_def flow_act_def queues_live_drop queues_live_end queues_live_update queues_live_settle
        split: option.splits flow_action.splits connect_outcome.splits)
qed

lemma queues_live_send: "queues_live st \<Longrightarrow> queues_live (snd (attach_send c st))"
  by (auto simp: attach_send_def queues_live_release) (auto simp: queues_live_def set_stage_def dest: notin_set_remove1)

lemma attach_cases:
  obtains st1 r where "st1 = st \<or> (\<exists>key. create_flow key d f i st = (r, st1))"
    "snd (attach a b c d e f i st) = st1 \<or> (\<exists>j. snd (attach a b c d e f i st) = snd (hold_carrier j e st1))"
proof -
  let ?key = "\<lparr>fk_credential_id = tc_credential_id a, fk_travel_id = b, fk_flow_id = c\<rparr>"
  obtain r st1 where rs: "(case map_of (hr_flows st) ?key of
              Some existing \<Rightarrow> (if fh_service_id existing \<noteq> svc_id d then (Err (Flow FlowChangedService), st)
                 else (Ok (fh_instance_id existing), st))
            | None \<Rightarrow> create_flow ?key d f i st) = (r, st1)"
    by (meson surj_pair)
  show thesis
  proof (rule that [of st1 r])
    show "st1 = st \<or> (\<exists>key. create_flow key d f i st = (r, st1))"
      using rs by (auto split: option.splits if_splits)
    show "snd (attach a b c d e f i st) = st1 \<or> (\<exists>j. snd (attach a b c d e f i st) = snd (hold_carrier j e st1))"
      unfolding attach_def Let_def rs by (cases r) auto
  qed
qed

lemma hold_carrier_carriers:
  "set (hr_carriers (snd (hold_carrier j e st))) \<subseteq> set (hr_carriers st) \<union> {c. hc_stage c \<noteq> Queued}"
  "hr_tasks (snd (hold_carrier j e st)) = hr_tasks st"
  by (auto simp: hold_carrier_def)

lemma create_flow_carriers:
  "create_flow key d f i st = (r, st1) \<Longrightarrow> hr_carriers st1 = hr_carriers st \<and> dom (map_of (hr_tasks st)) \<subseteq> dom (map_of (hr_tasks st1))"
  by (auto simp: create_flow_def Let_def map_add_def split: if_splits)

lemma queues_live_attach:
  assumes "queues_live st"
  shows "queues_live (snd (attach a b c d e f i st))"
proof (rule attach_cases [of st d f i a b c e])
  fix st1 r assume c: "st1 = st \<or> (\<exists>key. create_flow key d f i st = (r, st1))"
    "snd (attach a b c d e f i st) = st1 \<or> (\<exists>j. snd (attach a b c d e f i st) = snd (hold_carrier j e st1))"
  have "hr_carriers st1 = hr_carriers st" "dom (map_of (hr_tasks st)) \<subseteq> dom (map_of (hr_tasks st1))"
    using c(1) create_flow_carriers by blast+
  then have "queues_live st1"
    by (intro queues_live_mono [OF assms]) auto
  then have "queues_live (snd (hold_carrier j e st1))" for j
    by (rule queues_live_mono) (use hold_carrier_carriers in auto)
  with \<open>queues_live st1\<close> show ?thesis
    using c(2) by metis
qed

lemma queues_live_step:
  assumes q: "queues_live st"
  shows "queues_live (home_step E op st)"
proof -
  have cong: "queues_live st'" if "hr_carriers st' = hr_carriers st" "map fst (hr_tasks st') = map fst (hr_tasks st)" for st'
  proof (rule queues_live_mono [OF q])
    have "dom (map_of (hr_tasks st')) = set (map fst (hr_tasks st'))" "dom (map_of (hr_tasks st)) = set (map fst (hr_tasks st))"
      by (simp_all add: dom_map_of_conv_image_fst)
    then show "dom (map_of (hr_tasks st)) \<subseteq> dom (map_of (hr_tasks st'))"
      using that(2) by simp
  qed (use that(1) in simp)
  show ?thesis
  proof (cases op)
    case (SnapshotArrives ev snap now)
    obtain x st1 where a: "accept_snapshot (hv_crypto E) (hv_endpoint_json E) (hv_credential_json E)
        (hv_snapshot_json E) (hv_cache_json E) ev snap st = (x, st1)"
      by (meson surj_pair)
    have "hr_carriers st1 = hr_carriers st" "hr_tasks st1 = hr_tasks st"
      by (subst accept_snapshot_fields [OF a], simp)+
    with q show ?thesis
      using SnapshotArrives by (auto simp: apply_authorization_snapshot_def a intro!: cong split: result.splits)
  next
    case (WorkOpens w frame i now)
    have "queues_live (st\<lparr>hr_works := ws\<rparr>)" for ws
      by (rule cong) simp_all
    then have t: "queues_live st2" if "attach a b c d e f i (st\<lparr>hr_works := ws\<rparr>) = (r, st2)" for a b c d e f ws r st2
      using queues_live_attach [of "st\<lparr>hr_works := ws\<rparr>" a b c d e f i] that by simp
    show ?thesis
      using WorkOpens q by (auto simp: open_work_def open_udp_def Let_def intro: cong t
          split: data_frame.splits result.splits service_protocol.splits prod.splits)
  next
    case (FlowReturns key i)
    have "hr_carriers (registry_remove key i (st\<lparr>hr_returned := x\<rparr>)) = hr_carriers st" for x
      by (simp add: registry_remove_def split: option.splits)
    then show ?thesis
      using FlowReturns q by (auto intro: cong)
  qed (use q in \<open>auto simp: queues_live_send queues_live_release queues_live_poll publish_authorization_def open_relay_work_def
        run_work_def poll_udp_def registry_shutdown_def Let_def intro: cong split: option.splits result.splits prod.splits\<close>)
qed

text \<open>The work \<open>finish\<close> waits for, and the polls that make progress on it: of a task, of an association, of a work,
  and of a Carrier outside a flow's queue.\<close>

definition outstanding :: "home_runtime \<Rightarrow> nat" where
  "outstanding st = length (hr_tasks st) + length (hr_udp st) + length (hr_carriers st) + length (hr_works st)
     + length (hr_assigned st)"

fun polls :: "home_runtime \<Rightarrow> home_op \<Rightarrow> bool" where
  "polls st (FlowPolls i now action) = (map_of (hr_tasks st) i \<noteq> None)"
| "polls st (UdpPolls a now action) = (a \<in> set (hr_udp st))"
| "polls st (WorkOpens w frame i now) = (w \<in> set (hr_works st))"
| "polls st (WorkConnects w identity started now) = (w \<in> set (hr_assigned st))"
| "polls st (CarrierStops c) = (c \<in> set (hr_carriers st) \<and> hc_stage c \<noteq> Queued)"
| "polls st op = False"

lemma length_drop_flow:
  assumes "map_of (hr_tasks st) i = Some t" "distinct (map fst (hr_tasks st))"
  shows "outstanding (drop_flow i st) < outstanding st"
proof -
  have "size (mset (hr_carriers (drop_flow i st))) \<le> size (mset (hr_carriers st))"
    unfolding drop_flow_carriers by (rule size_filter_mset_lesseq)
  then have "length (hr_carriers (drop_flow i st)) \<le> length (hr_carriers st)"
    by simp
  moreover have "hr_udp (drop_flow i st) = hr_udp st" "hr_works (drop_flow i st) = hr_works st" "hr_assigned (drop_flow i st) = hr_assigned st"
    "hr_tasks (drop_flow i st) = AList.delete i (hr_tasks st)"
    by (simp_all add: drop_flow_def)
  ultimately show ?thesis
    using length_delete_present [OF assms(2, 1)] by (simp add: outstanding_def)
qed

lemma polls_decrease:
  assumes "hr_stopped st" "distinct (map fst (hr_tasks st))" "polls st op"
  shows "outstanding (home_step E op st) < outstanding st"
proof (cases op)
  case (FlowPolls i now action)
  then show ?thesis
    using assms length_drop_flow by (auto simp: poll_flow_def)
next
  case (CarrierStops c)
  then show ?thesis
    using assms length_remove1_add [of c "hr_carriers st"] by (cases "hc_stage c") (auto simp: outstanding_def)
next
  case (UdpPolls a now action)
  then show ?thesis
    using assms length_remove1_add [of a "hr_udp st"] by (auto simp: poll_udp_def poll_association_def outstanding_def)
next
  case (WorkOpens w frame i now)
  then show ?thesis
    using assms length_remove1_add [of w "hr_works st"] by (simp add: outstanding_def)
next
  case (WorkConnects w identity started now)
  then show ?thesis
    using assms length_remove1_add [of w "hr_assigned st"] by (simp add: outstanding_def)
qed (use assms in simp_all)

lemma undrained_polls:
  assumes "queues_live st" "\<not> drained st"
  shows "\<exists>op. polls st op"
proof -
  consider (task) i t ts where "hr_tasks st = (i, t) # ts" | (udp) a where "a \<in> set (hr_udp st)"
    | (work) w where "w \<in> set (hr_works st)" | (assigned) w where "w \<in> set (hr_assigned st)"
    | (carrier) c where "c \<in> set (hr_carriers st)" "hr_tasks st = []"
    using assms(2) unfolding drained_def by (metis list.set_intros(1) neq_Nil_conv surj_pair)
  then show ?thesis
  proof cases
    case task
    then show ?thesis by (intro exI [of _ "FlowPolls i 0 Waits"]) simp
  next
    case udp
    then show ?thesis by (intro exI [of _ "UdpPolls a 0 UdpWaits"]) simp
  next
    case work
    then show ?thesis by (intro exI [of _ "WorkOpens w (Ping 0) 0 0"]) simp
  next
    case assigned
    then show ?thesis by (intro exI [of _ "WorkConnects w undefined 0 0"]) simp
  next
    case carrier
    then have "hc_stage c \<noteq> Queued"
      using assms(1) by (auto simp: queues_live_def)
    with carrier show ?thesis by (intro exI [of _ "CarrierStops c"]) simp
  qed
qed

lemma stopped_step_wf:
  assumes "hr_stopped st" "home_wf n m k used st"
  shows "home_wf n m k used (home_step E op st)"
proof (cases op)
  case (WorkOpens w frame i now)
  then show ?thesis
    using assms by (auto intro: home_wf_cong)
qed (use assms(2) home_step_wf [OF assms(2), of op E] in simp_all)

text \<open>Nothing that still happens after the stop adds to it.\<close>

lemma stopped_outstanding:
  assumes "hr_stopped st" "distinct (map fst (hr_tasks st))"
  shows "outstanding (home_step E op st) \<le> outstanding st"
proof (cases "polls st op")
  case True
  then show ?thesis
    using polls_decrease [OF assms] by (simp add: less_imp_le)
next
  case False
  show ?thesis
  proof (cases op)
    case (SnapshotArrives ev snap now)
    obtain x st1 where a: "accept_snapshot (hv_crypto E) (hv_endpoint_json E) (hv_credential_json E)
        (hv_snapshot_json E) (hv_cache_json E) ev snap st = (x, st1)"
      by (meson surj_pair)
    have "outstanding st1 = outstanding st"
      by (subst accept_snapshot_fields [OF a], simp add: outstanding_def)
    moreover have "outstanding ((revoke_inactive va now st1)\<lparr>hr_applying := y\<rparr>) = outstanding st1" for va y
      by (simp add: outstanding_def revoke_inactive_def)
    ultimately show ?thesis
      using SnapshotArrives by (auto simp: apply_authorization_snapshot_def a split: result.splits)
  next
    case (CarrierSends c)
    have "length (remove1 c (hr_carriers st)) \<le> length (hr_carriers st)"
      by (simp add: length_remove1)
    then show ?thesis
      using CarrierSends length_remove1_add [of c "hr_carriers st"]
      by (auto simp: attach_send_def outstanding_def set_stage_def split: if_splits)
  next
    case (FlowReturns key i)
    have "outstanding (registry_remove key i (st\<lparr>hr_returned := x\<rparr>)) = outstanding st" for x
      by (simp add: registry_remove_def outstanding_def split: option.splits)
    then show ?thesis
      using FlowReturns by simp
  next
    case (WorkAssigned i relay_id expires_at now)
    then show ?thesis
      using assms(1) by (cases "home_ensure_credential_active (hr_authorization st) i now")
        (simp_all add: open_relay_work_def bail_if_def)
  qed (use False assms(1) in \<open>auto simp: outstanding_def publish_authorization_def poll_flow_def poll_udp_def registry_shutdown_def
        remove1_idem length_remove1 split: option.splits\<close>)
qed

fun polling :: "home_env \<Rightarrow> home_runtime \<Rightarrow> home_op list \<Rightarrow> bool" where
  "polling E st [] = True"
| "polling E st (op # ops) = (polls st op \<and> polling E (home_step E op st) ops)"

lemma wf_distinct: "home_wf n m k used st \<Longrightarrow> distinct (map fst (hr_tasks st))"
  by (simp add: home_wf_def registered_def)

lemma polling_run:
  assumes "hr_stopped st" "home_wf n m k used st" "queues_live st" "polling E st ops"
  shows "length ops + outstanding (home_run E ops st) \<le> outstanding st" (is ?length)
    and "hr_stopped (home_run E ops st) \<and> home_wf n m k used (home_run E ops st) \<and> queues_live (home_run E ops st)" (is ?inv)
proof -
  from assms have "?length \<and> ?inv"
  proof (induction ops arbitrary: st)
    case (Cons op ops)
    have s: "hr_stopped (home_step E op st)" "home_wf n m k used (home_step E op st)" "queues_live (home_step E op st)"
      using Cons.prems home_step_outer(1) stopped_step_wf queues_live_step by blast+
    have "outstanding (home_step E op st) < outstanding st"
      using Cons.prems wf_distinct by (intro polls_decrease) auto
    with Cons.IH [OF s] Cons.prems(4) show ?case
      by (simp add: home_run_def)
  qed (simp add: home_run_def)
  then show ?length ?inv by simp_all
qed

lemma queues_live_run: "queues_live st \<Longrightarrow> queues_live (home_run E ops st)"
  unfolding home_run_def by (induction ops arbitrary: st) (simp_all add: queues_live_step)

section \<open>Evaluation on a concrete Home\<close>

text \<open>Generation 4 revokes the one credential of generation 3.\<close>

definition sample_home_json :: "travel_authorization_snapshot json" where
  "sample_home_json = \<lparr>to_vec = (\<lambda>s. if s = sample_snapshot 3 [] then Some [7]
       else if s = sample_snapshot 4 [sample_revoke] then Some [3, 4] else None),
     from_slice = (\<lambda>b. if b = [7] then Some (sample_snapshot 3 [])
       else if b = [3, 4] then Some (sample_snapshot 4 [sample_revoke]) else None)\<rparr>"

definition sample_service :: service where
  "sample_service = \<lparr>svc_id = ''ssh'', svc_alias = ''shell'', svc_protocol = Tcp, svc_target = ''127.0.0.1:22''\<rparr>"

definition sample_home_env :: home_env where
  "sample_home_env = \<lparr>hv_crypto = sample_crypto, hv_endpoint_json = one_json (sample_endpoint []),
     hv_credential_json = one_json sample_credential, hv_snapshot_json = sample_home_json,
     hv_cache_json = sample_cache_json,
     hv_config = \<lparr>hfc_id = ''home-1'', hfc_services = [sample_service], hfc_business_services = []\<rparr>\<rparr>"

definition sample_home :: home_runtime where
  "sample_home = home_runtime_new 2 3 2 1000 60 cache_default (Some [0, 10])
     (sample_trust\<lparr>dt_travel_authorities := [sample_authority 5]\<rparr>)"

lemma sample_home_verifies:
  assumes "g \<noteq> 0" "index_revocations [11 \<mapsto> sample_credential] {} revs = Ok R"
    "to_vec sample_home_json (sample_snapshot g revs) = Some b" "sum_list b = 7"
  shows "authorization_verify sample_crypto (one_json sample_credential) sample_home_json (sample_snapshot g revs)
     [sample_authority 5] ''dep'' = Ok (sample_verified g R)"
proof -
  have "sha256_digest sample_crypto b = sha256_digest sample_crypto [7]"
    using assms(4) by (simp add: sample_crypto_def)
  moreover have "to_vec (one_json (sample_snapshot g revs)) (sample_snapshot g revs) = Some [7]"
    by (simp add: one_json_def)
  ultimately show ?thesis
    using sample_verifies [OF assms(1, 2)] assms(3) by (simp add: authorization_verify_def split: prod.splits)
qed

text \<open>The Home with an applied and published snapshot.\<close>

definition synced_home :: "u64 \<Rightarrow> uuid set \<Rightarrow> byte \<Rightarrow> nat \<Rightarrow> home_runtime \<Rightarrow> home_runtime" where
  "synced_home g R b v st = st\<lparr>hr_cache := sample_cached g R, hr_cache_file := Some [b, 10],
     hr_authorization := Some (sample_verified g R), hr_authorization_version := v\<rparr>"

lemma sample_snapshots_differ: "sample_snapshot 4 revs \<noteq> sample_snapshot 3 revs'"
  by (simp add: sample_snapshot_def)

lemma sample_caches_differ: "sample_cached 4 R \<noteq> sample_cached 3 R'" "sample_cached 4 R \<noteq> cache_default"
    "sample_cached 3 R \<noteq> cache_default" "sample_cached 3 R \<noteq> sample_cached 4 R'"
  by (simp_all add: sample_cached_def cache_default_def)

lemma sample_home_accepts:
  assumes "hr_trust st = sample_trust\<lparr>dt_travel_authorities := [sample_authority 5]\<rparr>"
    and "cache_accept (hr_cache st) (sample_verified g R) = Ok (sample_cached g R)" "sample_cached g R \<noteq> hr_cache st"
    and "authorization_verify sample_crypto (one_json sample_credential) sample_home_json (sample_snapshot g revs)
       [sample_authority 5] ''dep'' = Ok (sample_verified g R)"
    and "to_vec_pretty sample_cache_json (sample_cached g R) = Some [b]"
  shows "accept_snapshot sample_crypto (one_json (sample_endpoint [])) (one_json sample_credential) sample_home_json
      sample_cache_json Stored (sample_snapshot g revs) st
    = (Ok (sample_verified g R), st\<lparr>hr_cache := sample_cached g R, hr_cache_file := Some [b, 10]\<rparr>)"
proof -
  have t: "tas_home_endpoint_credentials (sample_snapshot g revs) = []" "dt_deployment_id sample_trust = ''dep''"
    by (simp_all add: sample_snapshot_def sample_trust_def)
  have "store_json_atomic sample_cache_json Stored (hr_cache_file st) (sample_cached g R) = (Ok (), Some [b, 10])"
    using assms(5) by (simp add: store_json_atomic_def)
  then show ?thesis
    using assms sample_relay_authorities by (simp add: accept_snapshot_def t)
qed

definition sample_assignment :: work_assignment where
  "sample_assignment = \<lparr>wa_credential_id = 11, wa_relay_id = ''relay-1'', wa_expires_at = 180, wa_seen = 1\<rparr>"

definition sample_work :: home_work where
  "sample_work = \<lparr>hw_credential = sample_credential, hw_identity = sample_identity (sample_pin CHR ''5''),
     hw_relay_id = ''relay-1'', hw_seen = 1\<rparr>"

lemma sample_home_syncs:
  "home_run sample_home_env [SnapshotArrives Stored (sample_snapshot 3 []) 150, SnapshotPublishes] sample_home
     = synced_home 3 {} 3 (Suc 0) sample_home"
proof -
  have v: "authorization_verify sample_crypto (one_json sample_credential) sample_home_json (sample_snapshot 3 [])
       [sample_authority 5] ''dep'' = Ok (sample_verified 3 {})"
    by (rule sample_home_verifies [where b = "[7]"]) (simp_all add: sample_home_json_def)
  have "cache_accept cache_default (sample_verified 3 {}) = Ok (sample_cached 3 {})"
    by (simp add: cache_accept_def cache_default_def sample_verified_def bail_if_def sample_cached_def)
  then have "accept_snapshot sample_crypto (one_json (sample_endpoint [])) (one_json sample_credential) sample_home_json
      sample_cache_json Stored (sample_snapshot 3 []) sample_home
    = (Ok (sample_verified 3 {}), sample_home\<lparr>hr_cache := sample_cached 3 {}, hr_cache_file := Some [3, 10]\<rparr>)"
    using v sample_caches_differ
    by (intro sample_home_accepts) (simp_all add: sample_home_def home_runtime_new_def sample_cache_json_def)
  then show ?thesis
    by (simp add: home_run_def sample_home_env_def apply_authorization_snapshot_def publish_authorization_def
        sample_home_def home_runtime_new_def revoke_inactive_def synced_home_def)
qed

lemma home_run_Cons: "home_run E (op # ops) st = home_run E ops (home_step E op st)"
  by (simp add: home_run_def)

lemma home_run_Nil [simp]: "home_run E [] st = st"
  by (simp add: home_run_def)

lemma home_run_append: "home_run E (ops @ ops') st = home_run E ops' (home_run E ops st)"
  by (simp add: home_run_def)

lemma sample_home_active: "home_ensure_credential_active (Some (sample_verified g {})) 11 150 = Ok 200"
  using sample_active [of g] by (simp add: home_ensure_credential_active_def bail_if_def sample_active)
    (simp add: sample_credential_def)

lemma sample_business: "authorize_business_identity (sample_identity (sample_pin CHR ''5'')) (Some (sample_verified g {})) 11 150
    = Ok sample_credential"
  by (simp add: authorize_business_identity_def authorize_business_credential_def authorize_all_def sample_identity_def
      sample_verified_def identity_active_at_def bail_if_def sample_credential_def credential_active_at_def is_active_def)

lemma sample_peer_role: "pi_role (sample_identity pin) = RTravel"
  by (simp add: sample_identity_def)

lemma sample_work_admitted:
  "home_run sample_home_env [WorkAssigned 11 ''relay-1'' 180 150,
      WorkConnects sample_assignment (sample_identity (sample_pin CHR ''5'')) 150 150] (synced_home 3 {} 3 (Suc 0) sample_home)
     = (synced_home 3 {} 3 (Suc 0) sample_home)\<lparr>hr_works := [sample_work]\<rparr>"
  by (simp add: home_run_Cons open_relay_work_def run_work_def sample_home_active sample_business synced_home_def
      sample_home_def home_runtime_new_def sample_assignment_def sample_work_def require_peer_def bail_if_def sample_peer_role Let_def)

lemma sample_home_accepts4:
  assumes "hr_trust st = sample_trust\<lparr>dt_travel_authorities := [sample_authority 5]\<rparr>" "hr_cache st = sample_cached 3 {}"
  shows "accept_snapshot sample_crypto (one_json (sample_endpoint [])) (one_json sample_credential) sample_home_json
      sample_cache_json Stored (sample_snapshot 4 [sample_revoke]) st
    = (Ok (sample_verified 4 {11}), st\<lparr>hr_cache := sample_cached 4 {11}, hr_cache_file := Some [4, 10]\<rparr>)"
proof -
  have "index_revocations [11 \<mapsto> sample_credential] {} [sample_revoke] = Ok {11}"
    by (simp add: sample_revoke_def bail_if_def)
  then have v: "authorization_verify sample_crypto (one_json sample_credential) sample_home_json (sample_snapshot 4 [sample_revoke])
       [sample_authority 5] ''dep'' = Ok (sample_verified 4 {11})"
    by (intro sample_home_verifies [where b = "[3, 4]"]) (simp_all add: sample_home_json_def sample_snapshots_differ)
  have "cache_accept (sample_cached 3 {}) (sample_verified 4 {11}) = Ok (sample_cached 4 {11})"
    by (simp add: cache_accept_def sample_verified_def bail_if_def sample_cached_def)
  then show ?thesis
    using v assms sample_caches_differ by (intro sample_home_accepts) (simp_all add: sample_cache_json_def)
qed

lemma sample_home_revokes:
  assumes "st = (synced_home 3 {} 3 (Suc 0) sample_home)\<lparr>hr_works := ws\<rparr>"
  shows "home_run sample_home_env [SnapshotArrives Stored (sample_snapshot 4 [sample_revoke]) 150, SnapshotPublishes] st
     = (synced_home 4 {11} 4 2 sample_home)\<lparr>hr_works := ws\<rparr>"
proof -
  have "accept_snapshot sample_crypto (one_json (sample_endpoint [])) (one_json sample_credential) sample_home_json
      sample_cache_json Stored (sample_snapshot 4 [sample_revoke]) st
    = (Ok (sample_verified 4 {11}), st\<lparr>hr_cache := sample_cached 4 {11}, hr_cache_file := Some [4, 10]\<rparr>)"
    by (rule sample_home_accepts4) (simp_all add: assms synced_home_def sample_home_def home_runtime_new_def)
  then show ?thesis
    by (simp add: home_run_def sample_home_env_def apply_authorization_snapshot_def publish_authorization_def
        sample_home_def home_runtime_new_def revoke_inactive_def synced_home_def assms)
qed

definition sample_held :: "carrier_stage \<Rightarrow> held_carrier" where
  "sample_held s = \<lparr>hc_instance = 41, hc_carrier = \<lparr>ic_carrier_id = 31, ic_relay_id = ''relay-1'', ic_data_codec = BinaryV1\<rparr>,
     hc_stage = s\<rparr>"

definition sample_key :: flow_key where
  "sample_key = \<lparr>fk_credential_id = 11, fk_travel_id = ''phone'', fk_flow_id = 21\<rparr>"

definition sample_task :: "home_flow option \<Rightarrow> flow_task" where
  "sample_task h = \<lparr>ft_key = sample_key, ft_service = sample_service, ft_not_after = 200, ft_shutdown = False, ft_flow = h\<rparr>"

definition sample_serving :: "carrier_stage \<Rightarrow> home_flow option \<Rightarrow> home_runtime \<Rightarrow> home_runtime" where
  "sample_serving s h st = st\<lparr>hr_permits := 1, hr_carrier_permits := 2, hr_works := [],
     hr_flows := [(sample_key, \<lparr>fh_instance_id = 41, fh_service_id = ''ssh''\<rparr>)], hr_tasks := [(41, sample_task h)],
     hr_slots := [(41, 1)], hr_carriers := [sample_held s]\<rparr>"

lemma sample_work_opens:
  "home_run sample_home_env [WorkOpens sample_work (Open 21 31 ''ssh'' Tcp 1) 41 150, CarrierSends (sample_held Attaching),
      FlowPolls 41 150 (Connected Reached 5)] ((synced_home g R b v sample_home)\<lparr>hr_works := [sample_work]\<rparr>)
     = sample_serving Queued (Some (home_init \<lparr>hcf_key = sample_key, hcf_service_id = ''ssh'', hcf_max_unacked_bytes = 1000,
         hcf_detach_timeout = 60\<rparr> 5)) (synced_home g R b v sample_home)"
  by (simp add: home_run_Cons open_work_def opened_service_def sample_home_env_def sample_service_def allows_business_service_def
      scope_allows_business_service_def sample_work_def sample_credential_def attach_def create_flow_def hold_carrier_def
      free_slots_def synced_home_def sample_home_def home_runtime_new_def attach_send_def queued_carriers_def set_stage_def
      poll_flow_def flow_act_def update_flow_def task_config_def sample_held_def sample_key_def sample_task_def sample_serving_def
      sample_identity_def negotiate_def DATA_PROTOCOL_BINARY_V1_def bail_if_def Let_def)

definition sample_io :: home_io where
  "sample_io = \<lparr>io_now = 6, io_unix = Some 150, io_target = IoDone\<rparr>"

text \<open>Travel's Carrier is selected by a race and carries one byte of data.\<close>

definition sample_transfer :: "home_op list" where
  "sample_transfer = [FlowPolls 41 150 (TakesCarrier (Ok ()) True),
     FlowPolls 41 150 (HandlesEvent sample_io (CarrierFrame 31 (Race 21 51 0))),
     FlowPolls 41 150 (HandlesEvent sample_io (CarrierFrame 31 (Data 21 0 [65])))]"

lemma sample_transfers:
  assumes "cfg = \<lparr>hcf_key = sample_key, hcf_service_id = ''ssh'', hcf_max_unacked_bytes = 1000, hcf_detach_timeout = 60\<rparr>"
  shows "map_option (\<lambda>t. (fk_credential_id (ft_key t), ft_shutdown t, map_option hf_target_written (ft_flow t)))
      (map_of (hr_tasks (home_run sample_home_env sample_transfer
        (sample_serving Queued (Some (home_init cfg 5)) (synced_home g R b v sample_home)))) 41) = Some (11, False, Some [65])"
  by (simp add: assms sample_transfer_def home_run_Cons poll_flow_def sample_serving_def synced_home_def sample_home_def
      home_runtime_new_def sample_task_def flow_act_def home_init_def home_finished_def take_carrier_def queued_carriers_def
      sample_held_def home_attach_def task_config_def sample_key_def sample_service_def settle_def update_flow_def set_stage_def
      home_handle_event_def home_on_frame_def home_on_race_def home_on_data_def write_target_def sample_io_def MAX_DATA_PAYLOAD_def Let_def)

section \<open>Properties\<close>

text \<open>C28: whatever a Home handles, the flow permits in use and free add up to the limit, as do the Carrier permits; no
  flow holds more Carriers than its own limit or queues more than 16; and every running flow is registered under its
  key with its own instance and service, so that a revocation finds it.\<close>

theorem home_runtime_well_formed:
  assumes "distinct (issued_instances ops)" and "st = home_run E ops (home_runtime_new n m k u d cache f trust)"
  shows "hr_permits st + length (hr_tasks st) + length (hr_udp st) = n
     \<and> hr_carrier_permits st + length (hr_carriers st) = m
     \<and> (\<forall>i. length (filter (\<lambda>c. hc_instance c = i) (hr_carriers st)) \<le> k \<and> length (queued_carriers i st) \<le> 16)
     \<and> (\<forall>i t. map_of (hr_tasks st) i = Some t \<longrightarrow> (\<exists>h. map_of (hr_flows st) (ft_key t) = Some h
          \<and> fh_instance_id h = i \<and> fh_service_id h = svc_id (ft_service t)))"
proof -
  obtain used where w: "home_wf n m k used st"
    using reachable_wf [OF assms(1)] assms(2) by blast
  then have s: "slots_ok k (hr_slots st) (hr_carriers st)"
    by (simp add: home_wf_def)
  have "held i (hr_carriers st) \<le> k" for i
  proof (cases "map_of (hr_slots st) i")
    case None
    then have "held i (hr_carriers st) = 0"
      using s by (auto simp: slots_ok_def held_def filter_empty_conv)
    then show ?thesis by simp
  next
    case (Some a)
    then show ?thesis using slots_okD [OF s Some] by simp
  qed
  moreover have "queued i (hr_carriers st) \<le> 16" for i
    using s by (simp add: slots_ok_def)
  moreover have "flow_permits st = n" "carrier_permits st = m"
    using w by (simp_all add: home_wf_def)
  ultimately show ?thesis
    using wf_registered [OF w] by (simp add: held_def queued_def queued_carriers_def flow_permits_def carrier_permits_def)
qed

definition sample_opening :: "home_op list" where
  "sample_opening = [SnapshotArrives Stored (sample_snapshot 3 []) 150, SnapshotPublishes,
     WorkAssigned 11 ''relay-1'' 180 150, WorkConnects sample_assignment (sample_identity (sample_pin CHR ''5'')) 150 150,
     WorkOpens sample_work (Open 21 31 ''ssh'' Tcp 1) 41 150, CarrierSends (sample_held Attaching),
     FlowPolls 41 150 (Connected Reached 5)]"

definition sample_config :: home_config where
  "sample_config = \<lparr>hcf_key = sample_key, hcf_service_id = ''ssh'', hcf_max_unacked_bytes = 1000, hcf_detach_timeout = 60\<rparr>"

lemma sample_opened: "home_run sample_home_env sample_opening sample_home
    = sample_serving Queued (Some (home_init sample_config 5)) (synced_home 3 {} 3 (Suc 0) sample_home)"
proof -
  have e: "sample_opening = [SnapshotArrives Stored (sample_snapshot 3 []) 150, SnapshotPublishes]
     @ [WorkAssigned 11 ''relay-1'' 180 150, WorkConnects sample_assignment (sample_identity (sample_pin CHR ''5'')) 150 150]
     @ [WorkOpens sample_work (Open 21 31 ''ssh'' Tcp 1) 41 150, CarrierSends (sample_held Attaching),
        FlowPolls 41 150 (Connected Reached 5)]"
    by (simp add: sample_opening_def)
  show ?thesis
    unfolding e by (simp only: home_run_append sample_home_syncs sample_work_admitted sample_work_opens sample_config_def)
qed

lemma sample_serving_sel:
  "hr_permits (sample_serving s h st) = 1" "hr_tasks (sample_serving s h st) = [(41, sample_task h)]"
  "hr_carrier_permits (sample_serving s h st) = 2" "hr_carriers (sample_serving s h st) = [sample_held s]"
  "hr_udp (sample_serving s h st) = hr_udp st" "hr_works (sample_serving s h st) = []"
  "hr_flows (sample_serving s h st) = [(sample_key, \<lparr>fh_instance_id = 41, fh_service_id = ''ssh''\<rparr>)]"
  "hr_cache (sample_serving s h st) = hr_cache st" "hr_trust (sample_serving s h st) = hr_trust st"
  "hr_slots (sample_serving s h st) = [(41, 1)]" "hr_assigned (sample_serving s h st) = hr_assigned st"
  by (simp_all add: sample_serving_def)

lemma sample_home_run: "home_run E ops sample_home = home_run E ops (home_runtime_new 2 3 2 1000 60 cache_default (Some [0, 10])
    (sample_trust\<lparr>dt_travel_authorities := [sample_authority 5]\<rparr>))"
  by (simp add: sample_home_def)

theorem home_runtime_well_formed_witness:
  "let st = home_run sample_home_env sample_opening sample_home
   in hr_permits st + length (hr_tasks st) + length (hr_udp st) = 2 \<and> hr_carrier_permits st + length (hr_carriers st) = 3
     \<and> map fst (hr_tasks st) = [41] \<and> hr_carriers st = [sample_held Queued]"
proof -
  have "distinct (issued_instances sample_opening)"
    by (simp add: sample_opening_def)
  note w = home_runtime_well_formed [OF this sample_home_run]
  have "map fst (hr_tasks (home_run sample_home_env sample_opening sample_home)) = [41]"
    "hr_carriers (home_run sample_home_env sample_opening sample_home) = [sample_held Queued]"
    by (simp_all add: sample_opened sample_serving_sel)
  with w show ?thesis
    unfolding Let_def by blast
qed


text \<open>C19: once a Home has applied and published a snapshot that revokes a credential, and no work for it had passed its
  check, then whatever happens next: a TCP flow of the credential ends the next time it is polled, a UDP association
  too, no new work for it passes its check, and the cache that a restart loads still holds the revocation.\<close>

theorem home_revocation_final:
  assumes "file_json_ok (hv_cache_json E)" and "load_json (hv_cache_json E) f = Ok cache" and "distinct (issued_instances ops)"
    and "st = home_run E ops (home_runtime_new n m k u d cache f trust)"
    and "apply_authorization_snapshot (hv_crypto E) (hv_endpoint_json E) (hv_credential_json E) (hv_snapshot_json E)
       (hv_cache_json E) ev snap now st = (Ok g, st1)"
    and "rv \<in> set (tas_revocations snap)"
    and "\<forall>w \<in> set (hr_works st). tc_credential_id (hw_credential w) \<noteq> rv_credential_id rv"
    and "st2 = home_run E ops' (publish_authorization st1)"
  shows "(\<forall>i t now action. map_of (hr_tasks st2) i = Some t \<longrightarrow> fk_credential_id (ft_key t) = rv_credential_id rv
         \<longrightarrow> map_of (hr_tasks (poll_flow i now action st2)) i = None)
     \<and> (\<forall>a now action. a \<in> set (hr_udp st2) \<longrightarrow> ua_credential_id a = rv_credential_id rv
         \<longrightarrow> hr_udp (poll_udp a now action st2) = remove1 a (hr_udp st2))
     \<and> (\<forall>w \<in> set (hr_works st2). tc_credential_id (hw_credential w) \<noteq> rv_credential_id rv)
     \<and> (\<exists>c. load_json (hv_cache_json E) (hr_cache_file st2) = Ok c \<and> rv_credential_id rv \<in> ac_revoked_credentials c)"
proof -
  let ?c = "rv_credential_id rv"
  obtain used where w: "home_wf n m k used st"
    using reachable_wf [OF assms(3)] assms(4) by blast
  have "shut (hv_cache_json E) {} st"
    using shut_run [OF shut_new [OF assms(2)] assms(1)] assms(4) by simp
  from shut_applied [OF this w assms(1, 5, 6, 7)] have s: "shut (hv_cache_json E) {?c} st2"
    using shut_run assms(1, 8) by blast
  obtain va where va: "hr_authorization st2 = Some va" "?c \<in> va_revoked_credentials va"
    using s by (auto simp: shut_def keeps_revoked_def)
  have "hr_udp (poll_udp a now action st2) = remove1 a (hr_udp st2)"
    if a: "a \<in> set (hr_udp st2)" "ua_credential_id a = ?c" for a now action
  proof -
    have "ua_seen a \<noteq> hr_authorization_version st2"
      using s a by (auto simp: shut_def)
    then obtain e where "poll_association (hr_stopped st2) (hr_authorization st2) (hr_authorization_version st2) now action a = (a, Some (Err e))"
      using poll_association_revoked [of a "hr_authorization_version st2" va "hr_stopped st2" now action] va a(2) by auto
    then show ?thesis
      using a(1) by (simp add: poll_udp_def)
  qed
  moreover have "map_of (hr_tasks (poll_flow i now action st2)) i = None"
    if "map_of (hr_tasks st2) i = Some t" "fk_credential_id (ft_key t) = ?c" for i t now action
  proof -
    have "ft_shutdown t"
      using s that by (auto simp: shut_def quiet_def)
    then show ?thesis
      using that(1) by (simp add: poll_flow_def drop_flow_def delete_conv')
  qed
  ultimately show ?thesis
    using s by (auto simp: shut_def keeps_revoked_def)
qed

lemma sample_revokes:
  "apply_authorization_snapshot sample_crypto (one_json (sample_endpoint [])) (one_json sample_credential) sample_home_json
      sample_cache_json Stored (sample_snapshot 4 [sample_revoke]) 150
      (sample_serving Queued h (synced_home 3 {} 3 (Suc 0) sample_home))
    = (Ok 4, (sample_serving Queued h (synced_home 3 {} 3 (Suc 0) sample_home))\<lparr>hr_cache := sample_cached 4 {11},
        hr_cache_file := Some [4, 10], hr_tasks := [(41, (sample_task h)\<lparr>ft_shutdown := True\<rparr>)],
        hr_applying := Some (sample_verified 4 {11})\<rparr>)"
proof -
  let ?st = "sample_serving Queued h (synced_home 3 {} 3 (Suc 0) sample_home)"
  have "accept_snapshot sample_crypto (one_json (sample_endpoint [])) (one_json sample_credential) sample_home_json
      sample_cache_json Stored (sample_snapshot 4 [sample_revoke]) ?st
    = (Ok (sample_verified 4 {11}), ?st\<lparr>hr_cache := sample_cached 4 {11}, hr_cache_file := Some [4, 10]\<rparr>)"
    by (rule sample_home_accepts4) (simp_all add: sample_serving_sel synced_home_def sample_home_def home_runtime_new_def)
  moreover have "\<not> is_active (sample_verified 4 {11}) 11 150" and g: "va_generation (sample_verified 4 {11}) = 4"
    by (simp_all add: is_active_def sample_verified_def)
  then have "revoked_instances (sample_verified 4 {11}) 150 (?st\<lparr>hr_cache := c, hr_cache_file := f\<rparr>) = [41]" for c f
    by (simp add: revoked_instances_def sample_serving_sel sample_key_def)
  ultimately show ?thesis
    by (simp add: apply_authorization_snapshot_def revoke_inactive_def sample_serving_sel g)
qed

theorem home_revocation_final_witness:
  "let st = home_run sample_home_env sample_opening sample_home;
       st1 = publish_authorization (home_step sample_home_env (SnapshotArrives Stored (sample_snapshot 4 [sample_revoke]) 150) st)
   in map fst (hr_tasks st1) = [41] \<and> map_of (hr_tasks (poll_flow 41 150 Waits st1)) 41 = None"
proof -
  let ?st = "home_run sample_home_env sample_opening sample_home"
  let ?st1 = "snd (apply_authorization_snapshot sample_crypto (one_json (sample_endpoint [])) (one_json sample_credential)
      sample_home_json sample_cache_json Stored (sample_snapshot 4 [sample_revoke]) 150 ?st)"
  have c: "load_json sample_cache_json (Some [0, 10]) = Ok cache_default" "distinct (issued_instances sample_opening)"
    "sample_revoke \<in> set (tas_revocations (sample_snapshot 4 [sample_revoke]))"
    by (simp_all add: load_json_def sample_cache_json_def sample_opening_def sample_snapshot_def)
  have i: "\<forall>w \<in> set (hr_works ?st). tc_credential_id (hw_credential w) \<noteq> rv_credential_id sample_revoke"
    by (simp add: sample_opened sample_serving_sel)
  have a: "apply_authorization_snapshot sample_crypto (one_json (sample_endpoint [])) (one_json sample_credential)
      sample_home_json sample_cache_json Stored (sample_snapshot 4 [sample_revoke]) 150 ?st = (Ok 4, ?st1)"
    by (simp add: sample_opened sample_revokes)
  have E: "hv_cache_json sample_home_env = sample_cache_json" "hv_crypto sample_home_env = sample_crypto"
    "hv_endpoint_json sample_home_env = one_json (sample_endpoint [])" "hv_credential_json sample_home_env = one_json sample_credential"
    "hv_snapshot_json sample_home_env = sample_home_json"
    by (simp_all add: sample_home_env_def)
  have t: "hr_tasks (publish_authorization ?st1) = [(41, (sample_task (Some (home_init sample_config 5)))\<lparr>ft_shutdown := True\<rparr>)]"
    by (simp add: sample_opened sample_revokes publish_authorization_def)
  have "hr_applying ?st = None"
    unfolding sample_opened by (simp add: sample_serving_def synced_home_def sample_home_def home_runtime_new_def)
  moreover have "map_of (hr_tasks (poll_flow 41 150 Waits (publish_authorization ?st1))) 41 = None"
    using home_revocation_final [where E = sample_home_env and ops = sample_opening and ops' = "[]" and st = ?st and ?st1.0 = ?st1
        and rv = sample_revoke and cache = cache_default and f = "Some [0, 10]" and n = 2 and m = 3 and k = 2 and u = 1000 and d = 60
        and trust = "sample_trust\<lparr>dt_travel_authorities := [sample_authority 5]\<rparr>" and snap = "sample_snapshot 4 [sample_revoke]"
        and ev = Stored and now = 150 and g = 4 and ?st2.0 = "publish_authorization ?st1"]
      c i a E sample_cache_json_ok t sample_home_run [of sample_home_env sample_opening]
    by (simp add: sample_task_def sample_key_def sample_revoke_def)
  ultimately show ?thesis
    using t by (simp add: Let_def E)
qed


text \<open>C32: a Home that has been told to stop terminates. Nothing that still happens adds to the outstanding tasks, works,
  associations and Carriers; each poll of one of them removes it, so that there are at most as many polls as
  outstanding items; and when none is left to poll, everything is drained, every permit is back, and the registry is
  cleared.\<close>

theorem home_shutdown_terminates:
  assumes "distinct (issued_instances ops)" and "st = home_run E (ops @ [Stops]) (home_runtime_new n m k u d cache f trust)"
    and "polling E st schedule" and "st' = home_run E schedule st"
  shows "length schedule + outstanding st' \<le> outstanding st
     \<and> (\<forall>op. outstanding (home_step E op st') \<le> outstanding st')
     \<and> ((\<forall>op. \<not> polls st' op) \<longrightarrow> drained st' \<and> hr_permits st' = n \<and> hr_carrier_permits st' = m
          \<and> hr_flows (home_step E Clears st') = [])"
proof -
  let ?s0 = "home_run E ops (home_runtime_new n m k u d cache f trust)"
  have st: "st = ?s0\<lparr>hr_stopped := True\<rparr>"
    by (simp add: assms(2) home_run_append home_run_Cons)
  obtain used where "home_wf n m k used ?s0"
    using reachable_wf [OF assms(1)] by blast
  then have w: "home_wf n m k used st"
    unfolding st by (rule home_wf_cong) simp_all
  have q: "queues_live st"
    unfolding assms(2) by (rule queues_live_run) (simp add: queues_live_def home_runtime_new_def)
  have stop: "hr_stopped st"
    by (simp add: st)
  note r = polling_run [OF stop w q assms(3), folded assms(4)]
  have "drained st' \<and> hr_permits st' = n \<and> hr_carrier_permits st' = m \<and> hr_flows (home_step E Clears st') = []"
    if none: "\<forall>op. \<not> polls st' op"
  proof -
    have "drained st'"
      using undrained_polls r(2) none by blast
    moreover have "flow_permits st' = n" "carrier_permits st' = m"
      using r(2) by (simp_all add: home_wf_def)
    ultimately show ?thesis
      using r(2) by (simp add: drained_def registry_shutdown_def flow_permits_def carrier_permits_def)
  qed
  moreover have "\<forall>op. outstanding (home_step E op st') \<le> outstanding st'"
    using stopped_outstanding wf_distinct r(2) by blast
  ultimately show ?thesis
    using r(1) by blast
qed

lemma drained_polls: "drained st \<Longrightarrow> \<not> polls st op"
  by (cases op) (simp_all add: drained_def)

theorem home_shutdown_terminates_witness:
  "let st = home_run sample_home_env (sample_opening @ [Stops]) sample_home; st' = poll_flow 41 150 Waits st
   in outstanding st = 2 \<and> drained st' \<and> hr_permits st' = 2 \<and> hr_carrier_permits st' = 3"
proof -
  let ?st = "home_run sample_home_env (sample_opening @ [Stops]) sample_home"
  have st: "?st = (sample_serving Queued (Some (home_init sample_config 5)) (synced_home 3 {} 3 (Suc 0) sample_home))\<lparr>hr_stopped := True\<rparr>"
    by (simp add: home_run_append home_run_Cons sample_opened)
  have o: "outstanding ?st = 2"
    unfolding st by (simp add: outstanding_def sample_serving_sel synced_home_def sample_home_def home_runtime_new_def)
  have d: "drained (poll_flow 41 150 Waits ?st)"
    unfolding st by (simp add: drained_def poll_flow_def sample_serving_sel drop_flow_def queued_carriers_def sample_held_def
        synced_home_def sample_home_def home_runtime_new_def)
  have i: "distinct (issued_instances sample_opening)"
    by (simp add: sample_opening_def)
  have p: "polling sample_home_env ?st [FlowPolls 41 150 Waits]"
    unfolding st by (simp add: sample_serving_sel)
  from home_shutdown_terminates [OF i sample_home_run p refl] drained_polls [OF d] o d show ?thesis
    by (simp add: Let_def home_run_Cons)
qed

definition late_open :: "home_op list" where
  "late_open = [SnapshotArrives Stored (sample_snapshot 3 []) 150, SnapshotPublishes,
     WorkAssigned 11 ''relay-1'' 180 150, WorkConnects sample_assignment (sample_identity (sample_pin CHR ''5'')) 150 150,
     SnapshotArrives Stored (sample_snapshot 4 [sample_revoke]) 150, SnapshotPublishes,
     WorkOpens sample_work (Open 21 31 ''ssh'' Tcp 1) 41 150, CarrierSends (sample_held Attaching),
     FlowPolls 41 150 (Connected Reached 5)]"

lemma sample_late_open: "home_run sample_home_env late_open sample_home
    = sample_serving Queued (Some (home_init sample_config 5)) (synced_home 4 {11} 4 2 sample_home)"
proof -
  have e: "late_open = [SnapshotArrives Stored (sample_snapshot 3 []) 150, SnapshotPublishes]
     @ [WorkAssigned 11 ''relay-1'' 180 150, WorkConnects sample_assignment (sample_identity (sample_pin CHR ''5'')) 150 150]
     @ [SnapshotArrives Stored (sample_snapshot 4 [sample_revoke]) 150, SnapshotPublishes]
     @ [WorkOpens sample_work (Open 21 31 ''ssh'' Tcp 1) 41 150, CarrierSends (sample_held Attaching),
        FlowPolls 41 150 (Connected Reached 5)]"
    by (simp add: late_open_def)
  show ?thesis
    unfolding e by (simp only: home_run_append sample_home_syncs sample_work_admitted sample_home_revokes [OF refl]
        sample_work_opens sample_config_def)
qed

text \<open>A TCP flow of a revoked credential keeps running. Travel's work passes its check, the Home applies and publishes
  the snapshot that revokes the credential, and then the \<open>OPEN\<close> frame arrives: the flow is registered after
  \<open>revoke_inactive\<close> has gone over the registry, it is not checked again, and a byte that Travel sends afterwards reaches
  the target while the credential is revoked in the authorization the Home works with.\<close>

theorem revoked_flow_survives:
  "let st = home_run sample_home_env (late_open @ sample_transfer) sample_home
   in hr_authorization st = Some (sample_verified 4 {11}) \<and> \<not> is_active (sample_verified 4 {11}) 11 150
     \<and> map_option (\<lambda>t. (fk_credential_id (ft_key t), ft_shutdown t, map_option hf_target_written (ft_flow t)))
        (map_of (hr_tasks st) 41) = Some (11, False, Some [65])"
proof -
  let ?st = "home_run sample_home_env late_open sample_home"
  have "outer (home_run sample_home_env sample_transfer ?st) = outer ?st"
    by (simp add: sample_transfer_def home_run_Cons)
  then have "hr_authorization (home_run sample_home_env sample_transfer ?st) = hr_authorization ?st"
    by (simp add: outer_def)
  moreover have "hr_authorization ?st = Some (sample_verified 4 {11})"
    unfolding sample_late_open by (simp add: sample_serving_def synced_home_def)
  moreover have "\<not> is_active (sample_verified 4 {11}) 11 150"
    by (simp add: is_active_def sample_verified_def)
  ultimately show ?thesis
    using sample_transfers [OF sample_config_def, of 4 "{11}" 4 2]
    unfolding Let_def home_run_append sample_late_open by simp
qed

end
