(* ===== verification/Enrollment.thy ===== *)
theory Enrollment
  imports Certificates Business
begin

text \<open>
  Enrollment of a Travel (\<open>internal/flowsplice-enrollment/src\<close>: \<open>lib.rs\<close>, \<open>issuer.rs\<close> and the Travel part of
  \<open>business.rs\<close>): the request with its two keys, the approval, the issuing of the two certificates and the
  signed credential, the validation of a response and its installation, and the directed requests for one
  service or for a class of services. Key files, their passwords, fresh identifiers, random bytes and clocks
  are arguments; certificates are made and read by the libraries of \<open>x509\<close>.
\<close>

section \<open>Requests, approvals and responses\<close>

definition ENROLLMENT_VERSION :: u32 where "ENROLLMENT_VERSION = 1"
definition MAX_VALID_DAYS :: u32 where "MAX_VALID_DAYS = 3650"
definition MAX_REQUEST_AGE_SECS :: u64 where "MAX_REQUEST_AGE_SECS = 7 * 24 * 60 * 60"

record enrollment_request =
  er_version :: u32
  er_request_id :: uuid
  er_nonce :: string
  er_travel_id :: string
  er_created_at_unix_secs :: u64
  er_management_csr_pem :: string
  er_business_csr_pem :: string

record enrollment_approval =
  ea_version :: u32
  ea_credential_id :: uuid
  ea_authority_id :: string
  ea_scope :: travel_credential_scope
  ea_request :: enrollment_request
  ea_not_before_unix_secs :: u64
  ea_not_after_unix_secs :: u64

record enrollment_response =
  es_version :: u32
  es_approval :: enrollment_approval
  es_deployment_trust :: signed_deployment_trust
  es_home_endpoint_credential :: "signed_home_endpoint_credential option"
  es_management_certificate_pem :: string
  es_business_certificate_pem :: string
  es_signed_credential :: signed_travel_credential

record business_travel_request =
  br_version :: u32
  br_object_type :: string
  br_request :: enrollment_request
  br_descriptor :: business_descriptor

record class_travel_request =
  cr_version :: u32
  cr_object_type :: string
  cr_request :: enrollment_request
  cr_descriptor :: service_class_descriptor
  cr_label :: string

record business_travel_response =
  bp_version :: u32
  bp_object_type :: string
  bp_request :: business_travel_request
  bp_response :: enrollment_response
  bp_approval :: signed_business_travel_approval

record class_travel_response =
  cp_version :: u32
  cp_object_type :: string
  cp_request :: class_travel_request
  cp_response :: enrollment_response
  cp_approval :: signed_service_class_approval

datatype request_envelope =
    ClassRequest class_travel_request
  | BusinessRequest business_travel_request
  | LegacyRequest enrollment_request

datatype response_envelope =
    ClassResponse class_travel_response
  | BusinessResponse business_travel_response
  | LegacyResponse enrollment_response

text \<open>\<open>Deref\<close> of both.\<close>

fun enrollment_of :: "request_envelope \<Rightarrow> enrollment_request" where
  "enrollment_of (ClassRequest r) = cr_request r"
| "enrollment_of (BusinessRequest r) = br_request r"
| "enrollment_of (LegacyRequest r) = r"

fun response_of :: "response_envelope \<Rightarrow> enrollment_response" where
  "response_of (ClassResponse r) = cp_response r"
| "response_of (BusinessResponse r) = bp_response r"
| "response_of (LegacyResponse r) = r"

text \<open>The libraries and codecs of one deployment.\<close>

record enroll_env =
  en_crypto :: crypto
  en_x509 :: x509
  en_codecs :: codecs
  en_trust :: "deployment_trust json"
  en_request :: "enrollment_request json"
  en_business_request :: "business_travel_request json"
  en_class_request :: "class_travel_request json"
  en_class_approval :: "service_class_approval json"
  en_class_descriptor :: "service_class_descriptor json"

section \<open>Checking a request\<close>

definition travel_id_char :: "char \<Rightarrow> bool" where
  "travel_id_char c \<longleftrightarrow> is_ascii_alphanumeric c \<or> c \<in> set ''-_.''"

definition validate_travel_id :: "string \<Rightarrow> unit res" where
  "validate_travel_id i =
     bail_if (i = [] \<or> 128 < length i \<or> \<not> list_all travel_id_char i) (Enroll TravelIdInvalid)"

definition validate_csr :: "csr \<Rightarrow> string \<Rightarrow> unit res" where
  "validate_csr request travel_id =
     rbind (bail_if (\<not> rq_p256 request) (Enroll CsrAlgorithm)) (\<lambda>_.
     let has_expected_uri = list_ex (\<lambda>name. name = UriName (identity_uri RTravel travel_id)) (rq_subject_alt_names request) in
     bail_if (length (rq_subject_alt_names request) \<noteq> 1 \<or> \<not> has_expected_uri) (Enroll CsrIdentity))"

definition parse_enrollment_request :: "crypto \<Rightarrow> x509 \<Rightarrow> enrollment_request \<Rightarrow> u64 \<Rightarrow> (csr \<times> csr) res" where
  "parse_enrollment_request C X r now =
     rbind (ok_or (hex_decode C (er_nonce r)) (Auth NotHexadecimal)) (\<lambda>nonce.
     rbind (bail_if (er_version r \<noteq> ENROLLMENT_VERSION \<or> er_request_id r = uuid_nil \<or> length nonce \<noteq> 32)
         (Enroll RequestInvalid)) (\<lambda>_.
     rbind (validate_travel_id (er_travel_id r)) (\<lambda>_.
     rbind (bail_if (sat_add now 300 < er_created_at_unix_secs r
         \<or> MAX_REQUEST_AGE_SECS < sat_sub now (er_created_at_unix_secs r)) (Enroll RequestStale)) (\<lambda>_.
     rbind (ok_or (csr_from_pem X (er_management_csr_pem r)) (Enroll CsrInvalid)) (\<lambda>management.
     rbind (ok_or (csr_from_pem X (er_business_csr_pem r)) (Enroll CsrInvalid)) (\<lambda>business.
     rbind (validate_csr management (er_travel_id r)) (\<lambda>_.
     rbind (validate_csr business (er_travel_id r)) (\<lambda>_.
     rbind (bail_if (rq_spki management = rq_spki business) (Enroll KeysNotDistinct)) (\<lambda>_.
     Ok (management, business))))))))))"

definition MAX_VALID_SECS :: u64 where "MAX_VALID_SECS = ucast MAX_VALID_DAYS * 24 * 60 * 60"

definition prepare_enrollment_approval :: "crypto \<Rightarrow> x509 \<Rightarrow> enrollment_request \<Rightarrow> u64 \<Rightarrow> string
    \<Rightarrow> travel_credential_scope \<Rightarrow> uuid \<Rightarrow> u64 \<Rightarrow> enrollment_approval res" where
  "prepare_enrollment_approval C X request valid_for_secs authority scope new_id now =
     rbind (parse_enrollment_request C X request now) (\<lambda>_.
     rbind (bail_if (authority = []) (Enroll ApprovalInvalid)) (\<lambda>_.
     rbind (bail_if (valid_for_secs = 0 \<or> MAX_VALID_SECS < valid_for_secs) (Enroll ValidityRange)) (\<lambda>_.
     rbind (ok_or (checked_add now valid_for_secs) (Enroll ValidityOverflow)) (\<lambda>not_after.
     Ok \<lparr>ea_version = ENROLLMENT_VERSION, ea_credential_id = new_id, ea_authority_id = authority,
         ea_scope = scope, ea_request = request, ea_not_before_unix_secs = sat_sub now 300,
         ea_not_after_unix_secs = not_after\<rparr>))))"

definition validate_validity_interval :: "enrollment_approval \<Rightarrow> unit res" where
  "validate_validity_interval a =
     bail_if (ea_not_after_unix_secs a \<le> ea_not_before_unix_secs a
       \<or> MAX_VALID_SECS + 300 < sat_sub (ea_not_after_unix_secs a) (ea_not_before_unix_secs a))
       (Enroll IntervalInvalid)"

definition validate_approval :: "crypto \<Rightarrow> x509 \<Rightarrow> enrollment_approval \<Rightarrow> u64 \<Rightarrow> unit res" where
  "validate_approval C X a now =
     rbind (bail_if (ea_version a \<noteq> ENROLLMENT_VERSION \<or> ea_credential_id a = uuid_nil \<or> ea_authority_id a = [])
         (Enroll ApprovalInvalid)) (\<lambda>_.
     rbind (parse_enrollment_request C X (ea_request a) now) (\<lambda>_.
     validate_validity_interval a))"

section \<open>The credential of an approval\<close>

definition sha256_json :: "crypto \<Rightarrow> 'a json \<Rightarrow> 'a \<Rightarrow> string res" where
  "sha256_json C J v = rbind (ok_or (to_vec J v) (Auth EncodeFailed)) (\<lambda>bytes. Ok (sha256_hex C bytes))"

definition spki_pin :: "crypto \<Rightarrow> bytes \<Rightarrow> string" where
  "spki_pin C spki = hex_encode C (sha256_digest C spki)"

definition certificate_from_pem :: "x509 \<Rightarrow> string \<Rightarrow> bytes res" where
  "certificate_from_pem X pem =
     (case pem_slice X pem of
        [] \<Rightarrow> Err (Enroll NoCertificateInPem)
      | None # rest \<Rightarrow> Err (Enroll PemUnreadable)
      | Some der # rest \<Rightarrow> if rest \<noteq> [] then Err (Enroll SeveralCertificates) else Ok der)"

definition certificate_sha256 :: "crypto \<Rightarrow> x509 \<Rightarrow> string \<Rightarrow> string res" where
  "certificate_sha256 C X pem = rbind (certificate_from_pem X pem) (\<lambda>der. Ok (sha256_hex C der))"

record credential_bindings =
  cb_signed_trust :: signed_deployment_trust
  cb_trust :: deployment_trust
  cb_authority :: trusted_travel_authority
  cb_management_certificate_pem :: string
  cb_business_certificate_pem :: string

definition expected_credential :: "enroll_env \<Rightarrow> enrollment_approval \<Rightarrow> credential_bindings \<Rightarrow> string \<Rightarrow> string
    \<Rightarrow> travel_credential res" where
  "expected_credential E a b management_pin business_pin =
     (let C = en_crypto E; X = en_x509 E in
      rbind (trust_payload_digest C (cb_signed_trust b)) (\<lambda>trust_sha256.
      rbind (sha256_json C (en_request E) (ea_request a)) (\<lambda>request_sha256.
      rbind (certificate_sha256 C X (cb_management_certificate_pem b)) (\<lambda>management_sha256.
      rbind (certificate_sha256 C X (cb_business_certificate_pem b)) (\<lambda>business_sha256.
      Ok \<lparr>tc_version = TRAVEL_CREDENTIAL_VERSION, tc_object_type = TRAVEL_CREDENTIAL_OBJECT_TYPE,
          tc_deployment_id = dt_deployment_id (cb_trust b), tc_deployment_trust_sha256 = trust_sha256,
          tc_credential_id = ea_credential_id a, tc_authority_id = ea_authority_id a,
          tc_authority_epoch = authority_epoch (cb_authority b),
          tc_enrollment_request_id = er_request_id (ea_request a), tc_enrollment_nonce = er_nonce (ea_request a),
          tc_enrollment_request_sha256 = request_sha256, tc_travel_id = er_travel_id (ea_request a),
          tc_management_spki_sha256 = management_pin, tc_business_spki_sha256 = business_pin,
          tc_management_ca_sha256 = sha256_hex C (as_bytes (dt_management_ca_certificate_pem (cb_trust b))),
          tc_business_ca_sha256 = sha256_hex C (as_bytes (dt_business_ca_certificate_pem (cb_trust b))),
          tc_management_certificate_sha256 = management_sha256, tc_business_certificate_sha256 = business_sha256,
          tc_scope = ea_scope a, tc_not_before_unix_secs = ea_not_before_unix_secs a,
          tc_not_after_unix_secs = ea_not_after_unix_secs a\<rparr>)))))"

section \<open>Validating a response\<close>

definition validate_issued_certificate :: "crypto \<Rightarrow> x509 \<Rightarrow> string \<Rightarrow> travel_credential \<Rightarrow> string \<Rightarrow> unit res" where
  "validate_issued_certificate C X pem credential expected_spki =
     rbind (certificate_from_pem X pem) (\<lambda>der.
     rbind (peer_identity_of C X (Some [der])) (\<lambda>identity.
     rbind (require_peer identity RTravel (Some (tc_travel_id credential)) []) (\<lambda>_.
     bail_if (\<not> eq_ignore_ascii_case (pi_spki_sha256 identity) expected_spki
       \<or> pi_not_before_unix_secs identity \<noteq> tc_not_before_unix_secs credential
       \<or> pi_not_after_unix_secs identity \<noteq> tc_not_after_unix_secs credential) (Enroll IssuedCertificateMismatch))))"

definition verify_client_chain :: "x509 \<Rightarrow> bytes \<Rightarrow> string \<Rightarrow> u64 \<Rightarrow> unit res" where
  "verify_client_chain X der ca_pem now =
     rbind (all_decoded (pem_slice X ca_pem)) (\<lambda>roots.
     rbind (bail_if (roots = [] \<or> \<not> list_all (root_parsable X) roots) (Enroll TrustAnchorInvalid)) (\<lambda>_.
     bail_if (\<not> client_chain X roots [] der now) (Enroll NotChained)))"

text \<open>The Travel authorities in force for a response, and the one that signs it: the root-listed ones and those
  the issuing Home's endpoint credential delegates, which bounds the response in time.\<close>

definition enrollment_authority :: "crypto \<Rightarrow> home_endpoint_credential json \<Rightarrow> deployment_trust
    \<Rightarrow> signed_home_endpoint_credential option \<Rightarrow> enrollment_approval \<Rightarrow> u64 \<Rightarrow> trusted_travel_authority res" where
  "enrollment_authority C JE trust endpoint_credential a now =
     rbind (case endpoint_credential of
         None \<Rightarrow> Ok ()
       | Some signed_endpoint \<Rightarrow>
           rbind (endpoint_verify C JE signed_endpoint trust now) (\<lambda>endpoint.
           bail_if (hec_not_after_unix_secs endpoint < ea_not_after_unix_secs a) (Enroll ExceedsEndpoint))) (\<lambda>_.
     rbind (travel_authorities_with_home_delegations C JE trust
         (case endpoint_credential of None \<Rightarrow> [] | Some s \<Rightarrow> [s])) (\<lambda>auths.
     ok_or (List.find (\<lambda>x. authority_id x = ea_authority_id a) auths) (Enroll AuthorityUntrusted)))"

definition validate_enrollment_response :: "enroll_env \<Rightarrow> enrollment_response \<Rightarrow> string \<Rightarrow> u64
    \<Rightarrow> (travel_credential \<times> deployment_trust) res" where
  "validate_enrollment_response E r root now =
     (let C = en_crypto E; X = en_x509 E; a = es_approval r in
      rbind (bail_if (es_version r \<noteq> ENROLLMENT_VERSION \<or> ea_version a \<noteq> ENROLLMENT_VERSION
          \<or> ea_credential_id a = uuid_nil) (Enroll ResponseInvalid)) (\<lambda>_.
      rbind (parse_enrollment_request C X (ea_request a) (er_created_at_unix_secs (ea_request a))) (\<lambda>(management, business).
      rbind (validate_validity_interval a) (\<lambda>_.
      rbind (bail_if (sat_add now MAX_CLOCK_SKEW_SECS < ea_not_before_unix_secs a) (Enroll ResponseNotYetValid)) (\<lambda>_.
      rbind (bail_if (ea_not_after_unix_secs a \<le> now) (Enroll ResponseExpired)) (\<lambda>_.
      rbind (trust_verify C (en_trust E) (es_deployment_trust r) root now) (\<lambda>trust.
      rbind (bail_if (ea_not_before_unix_secs a < dt_not_before_unix_secs trust
          \<or> dt_not_after_unix_secs trust < ea_not_after_unix_secs a) (Enroll OutsideAuthorityWindow)) (\<lambda>_.
      rbind (bail_if (stc_authority_id (es_signed_credential r) \<noteq> ea_authority_id a) (Enroll WrongResponseAuthority)) (\<lambda>_.
      rbind (enrollment_authority C (j_endpoint (en_codecs E)) trust (es_home_endpoint_credential r) a now) (\<lambda>authority.
      rbind (credential_verify C (j_credential (en_codecs E)) (es_signed_credential r) authority) (\<lambda>actual.
      rbind (expected_credential E a
          \<lparr>cb_signed_trust = es_deployment_trust r, cb_trust = trust, cb_authority = authority,
           cb_management_certificate_pem = es_management_certificate_pem r,
           cb_business_certificate_pem = es_business_certificate_pem r\<rparr>
          (spki_pin C (rq_spki management)) (spki_pin C (rq_spki business))) (\<lambda>expected.
      rbind (bail_if (actual \<noteq> expected) (Enroll CredentialMismatch)) (\<lambda>_.
      rbind (validate_issued_certificate C X (es_management_certificate_pem r) expected
          (tc_management_spki_sha256 expected)) (\<lambda>_.
      rbind (validate_issued_certificate C X (es_business_certificate_pem r) expected
          (tc_business_spki_sha256 expected)) (\<lambda>_.
      rbind (certificate_from_pem X (es_management_certificate_pem r)) (\<lambda>management_der.
      rbind (verify_client_chain X management_der (dt_management_ca_certificate_pem trust) now) (\<lambda>_.
      rbind (certificate_from_pem X (es_business_certificate_pem r)) (\<lambda>business_der.
      rbind (verify_client_chain X business_der (dt_business_ca_certificate_pem trust) now) (\<lambda>_.
      Ok (actual, trust))))))))))))))))))))"

section \<open>Issuing\<close>

text \<open>What an issuer has: the deployment trust with its root, its endpoint credential, the contents of its two
  CA certificate files, and the three private keys as \<open>key::load_private_key\<close> returns them.\<close>

record issuer_material =
  im_deployment_trust :: signed_deployment_trust
  im_root_public_key :: string
  im_home_endpoint :: "signed_home_endpoint_credential option"
  im_management_ca_certificate :: "string res"
  im_management_ca_key :: "bytes res"
  im_business_ca_certificate :: "string res"
  im_business_ca_key :: "bytes res"
  im_travel_authority_key :: "bytes res"

definition exact_leaf_params :: "x509 \<Rightarrow> string \<Rightarrow> u64 \<Rightarrow> u64 \<Rightarrow> leaf_params res" where
  "exact_leaf_params X travel_id not_before not_after =
     rbind (bail_if (2 ^ 63 \<le> unat not_before \<or> \<not> date_in_range X not_before) (Enroll LeafTimeInvalid)) (\<lambda>_.
     rbind (bail_if (2 ^ 63 \<le> unat not_after \<or> \<not> date_in_range X not_after) (Enroll LeafTimeInvalid)) (\<lambda>_.
     Ok \<lparr>lf_common_name = ''FlowSplice Travel '' @ travel_id,
         lf_subject_alt_names = [UriName (identity_uri RTravel travel_id)],
         lf_is_ca = False, lf_digital_signature = True, lf_client_auth = True,
         lf_not_before = not_before, lf_not_after = not_after\<rparr>))"

text \<open>\<open>load_ca_issuer\<close>: the CA file and its key must belong together.\<close>

definition load_ca_issuer :: "x509 \<Rightarrow> string res \<Rightarrow> bytes res \<Rightarrow> (string \<times> bytes) res" where
  "load_ca_issuer X certificate_file key_file =
     rbind certificate_file (\<lambda>pem.
     rbind (case pem_slice X pem of
         [] \<Rightarrow> Err (Enroll NoCertificateInPem)
       | None # _ \<Rightarrow> Err (Enroll PemUnreadable)
       | Some der # _ \<Rightarrow> Ok der) (\<lambda>der.
     rbind (ok_or (parse_certificate X der) (Enroll CertificateUnreadable)) (\<lambda>cert.
     rbind key_file (\<lambda>key.
     rbind (ok_or (key_spki X key) (Enroll KeyUnreadable)) (\<lambda>spki.
     rbind (bail_if (xc_spki cert \<noteq> spki) (Enroll CaKeyMismatch)) (\<lambda>_.
     rbind (bail_if (\<not> ca_issuer_ok X pem key) (Enroll CaIssuerInvalid)) (\<lambda>_.
     Ok (pem, key))))))))"

text \<open>\<open>issue_enrollment\<close>; \<open>rnd n\<close> is the \<open>n\<close>-th draw from the random source.\<close>

definition issue_enrollment :: "enroll_env \<Rightarrow> (nat \<Rightarrow> bytes) \<Rightarrow> enrollment_approval \<Rightarrow> issuer_material \<Rightarrow> u64
    \<Rightarrow> enrollment_response res" where
  "issue_enrollment E rnd a m now =
     (let C = en_crypto E; X = en_x509 E in
      rbind (validate_approval C X a now) (\<lambda>_.
      rbind (trust_verify C (en_trust E) (im_deployment_trust m) (im_root_public_key m) now) (\<lambda>trust.
      rbind (bail_if (ea_not_before_unix_secs a < dt_not_before_unix_secs trust
          \<or> dt_not_after_unix_secs trust < ea_not_after_unix_secs a) (Enroll OutsideAuthorityWindow)) (\<lambda>_.
      rbind (enrollment_authority C (j_endpoint (en_codecs E)) trust (im_home_endpoint m) a now) (\<lambda>authority.
      rbind (parse_enrollment_request C X (ea_request a) now) (\<lambda>(management, business).
      rbind (load_ca_issuer X (im_management_ca_certificate m) (im_management_ca_key m)) (\<lambda>(management_ca, mkey).
      rbind (load_ca_issuer X (im_business_ca_certificate m) (im_business_ca_key m)) (\<lambda>(business_ca, bkey).
      rbind (bail_if (management_ca \<noteq> dt_management_ca_certificate_pem trust
          \<or> business_ca \<noteq> dt_business_ca_certificate_pem trust) (Enroll CaMismatch)) (\<lambda>_.
      rbind (exact_leaf_params X (er_travel_id (ea_request a)) (ea_not_before_unix_secs a) (ea_not_after_unix_secs a)) (\<lambda>params.
      rbind (ok_or (sign_leaf X management_ca mkey params (rq_spki management) (rnd 0)) (Enroll LeafSigning)) (\<lambda>management_pem.
      rbind (ok_or (sign_leaf X business_ca bkey params (rq_spki business) (rnd 1)) (Enroll LeafSigning)) (\<lambda>business_pem.
      rbind (expected_credential E a
          \<lparr>cb_signed_trust = im_deployment_trust m, cb_trust = trust, cb_authority = authority,
           cb_management_certificate_pem = management_pem, cb_business_certificate_pem = business_pem\<rparr>
          (spki_pin C (rq_spki management)) (spki_pin C (rq_spki business))) (\<lambda>credential.
      rbind (im_travel_authority_key m) (\<lambda>authority_der.
      rbind (ok_or (pkcs8_key X authority_der) (Enroll KeyUnreadable)) (\<lambda>key.
      rbind (bail_if (\<not> eq_ignore_ascii_case (hex_encode C (ecdsa_public C key)) (authority_public_key authority))
          (Enroll AuthorityKeyMismatch)) (\<lambda>_.
      rbind (ok_or (to_vec (j_credential (en_codecs E)) credential) (Auth EncodeFailed)) (\<lambda>payload.
      rbind (ok_or (ecdsa_sign C key (rnd 2) payload) (Control SigningFailed)) (\<lambda>signature.
      Ok \<lparr>es_version = ENROLLMENT_VERSION, es_approval = a, es_deployment_trust = im_deployment_trust m,
          es_home_endpoint_credential = im_home_endpoint m, es_management_certificate_pem = management_pem,
          es_business_certificate_pem = business_pem,
          es_signed_credential = \<lparr>stc_authority_id = tc_authority_id credential,
            stc_payload_hex = hex_encode C payload, stc_signature_hex = hex_encode C signature\<rparr>\<rparr>))))))))))))))))))"

section \<open>Directed requests\<close>

definition BUSINESS_TRAVEL_REQUEST_TYPE :: string where
  "BUSINESS_TRAVEL_REQUEST_TYPE = ''flowsplice.business_travel_request''"
definition BUSINESS_TRAVEL_RESPONSE_TYPE :: string where
  "BUSINESS_TRAVEL_RESPONSE_TYPE = ''flowsplice.business_travel_response''"
definition SERVICE_CLASS_TRAVEL_REQUEST_TYPE :: string where
  "SERVICE_CLASS_TRAVEL_REQUEST_TYPE = ''flowsplice.service_class_travel_request''"
definition SERVICE_CLASS_TRAVEL_RESPONSE_TYPE :: string where
  "SERVICE_CLASS_TRAVEL_RESPONSE_TYPE = ''flowsplice.service_class_travel_response''"

definition validate_kind :: "u32 \<Rightarrow> string \<Rightarrow> string \<Rightarrow> unit res" where
  "validate_kind version_field actual expected =
     bail_if (version_field \<noteq> BUSINESS_VERSION \<or> actual \<noteq> expected) (Enroll EnrollmentFormat)"

text \<open>The characters of a string, from its UTF-8 bytes.\<close>

definition continuation :: "nat list \<Rightarrow> nat \<Rightarrow> nat" where
  "continuation bs i = (case drop i bs of [] \<Rightarrow> 0 | b # _ \<Rightarrow> b mod 64)"

fun utf8_chars :: "nat list \<Rightarrow> nat list" where
  "utf8_chars [] = []"
| "utf8_chars (b # bs) =
     (if b < 128 then b # utf8_chars bs
      else if b < 224 then (b mod 32 * 64 + continuation bs 0) # utf8_chars (drop 1 bs)
      else if b < 240 then
        (b mod 16 * 4096 + continuation bs 0 * 64 + continuation bs 1) # utf8_chars (drop 2 bs)
      else (b mod 8 * 262144 + continuation bs 0 * 4096 + continuation bs 1 * 64 + continuation bs 2)
        # utf8_chars (drop 3 bs))"

definition chars_of :: "string \<Rightarrow> nat list" where
  "chars_of s = utf8_chars (map of_char s)"

text \<open>\<open>char::is_whitespace\<close>, \<open>char::is_control\<close>, and the directional marks the code refuses.\<close>

definition white_space :: "nat \<Rightarrow> bool" where
  "white_space c \<longleftrightarrow> (9 \<le> c \<and> c \<le> 13) \<or> (8192 \<le> c \<and> c \<le> 8202)
     \<or> c \<in> set [32, 133, 160, 5760, 8232, 8233, 8239, 8287, 12288]"

definition control_char :: "nat \<Rightarrow> bool" where
  "control_char c \<longleftrightarrow> c < 32 \<or> (127 \<le> c \<and> c < 160)"

definition direction_char :: "nat \<Rightarrow> bool" where
  "direction_char c \<longleftrightarrow> c \<in> set [1564, 8206, 8207] \<or> (8234 \<le> c \<and> c \<le> 8238) \<or> (8294 \<le> c \<and> c \<le> 8297)"

definition validate_client_label :: "string \<Rightarrow> unit res" where
  "validate_client_label label =
     bail_if (list_all white_space (chars_of label) \<or> 64 < length label
       \<or> list_ex (\<lambda>c. control_char c \<or> direction_char c) (chars_of label)) (Enroll ClientLabelInvalid)"

definition business_request_validate :: "enroll_env \<Rightarrow> business_travel_request \<Rightarrow> deployment_trust \<Rightarrow> string \<Rightarrow> u64
    \<Rightarrow> unit res" where
  "business_request_validate E r trust approving_home now =
     (let C = en_crypto E in
      rbind (validate_kind (br_version r) (br_object_type r) BUSINESS_TRAVEL_REQUEST_TYPE) (\<lambda>_.
      rbind (parse_enrollment_request C (en_x509 E) (br_request r) now) (\<lambda>_.
      rbind (descriptor_verify C (j_endpoint (en_codecs E)) (j_grant (en_codecs E)) (br_descriptor r) trust now) (\<lambda>target.
      bail_if (vbd_approving_home_id target \<noteq> approving_home) (Enroll OtherApprover)))))"

definition class_request_validate :: "enroll_env \<Rightarrow> class_travel_request \<Rightarrow> string \<Rightarrow> u64 \<Rightarrow> unit res" where
  "class_request_validate E r approving_home now =
     rbind (validate_kind (cr_version r) (cr_object_type r) SERVICE_CLASS_TRAVEL_REQUEST_TYPE) (\<lambda>_.
     rbind (validate_client_label (cr_label r)) (\<lambda>_.
     rbind (parse_enrollment_request (en_crypto E) (en_x509 E) (cr_request r) now) (\<lambda>_.
     rbind (class_validate (cr_descriptor r)) (\<lambda>_.
     bail_if (scd_approving_home_id (cr_descriptor r) \<noteq> approving_home) (Enroll OtherApprover)))))"

definition business_response_validate :: "enroll_env \<Rightarrow> business_travel_response \<Rightarrow> string \<Rightarrow> u64
    \<Rightarrow> (travel_credential \<times> deployment_trust) res" where
  "business_response_validate E r root now =
     (let C = en_crypto E in
      rbind (validate_kind (bp_version r) (bp_object_type r) BUSINESS_TRAVEL_RESPONSE_TYPE) (\<lambda>_.
      rbind (validate_kind (br_version (bp_request r)) (br_object_type (bp_request r)) BUSINESS_TRAVEL_REQUEST_TYPE) (\<lambda>_.
      rbind (bail_if (ea_request (es_approval (bp_response r)) \<noteq> br_request (bp_request r)) (Enroll RequestSubstituted)) (\<lambda>_.
      rbind (validate_enrollment_response E (bp_response r) root now) (\<lambda>(credential, trust).
      rbind (json_digest C (en_business_request E) (bp_request r)) (\<lambda>request_sha256.
      rbind (approval_verify C (en_codecs E) (bp_approval r) trust (es_home_endpoint_credential (bp_response r))
          (br_descriptor (bp_request r)) request_sha256 (es_signed_credential (bp_response r)) now) (\<lambda>proved.
      rbind (bail_if (proved \<noteq> credential) (Enroll EnrollmentDisagrees)) (\<lambda>_.
      Ok (credential, trust)))))))))"

definition class_response_validate :: "enroll_env \<Rightarrow> class_travel_response \<Rightarrow> string \<Rightarrow> u64
    \<Rightarrow> (travel_credential \<times> deployment_trust) res" where
  "class_response_validate E r root now =
     (let C = en_crypto E in
      rbind (validate_kind (cp_version r) (cp_object_type r) SERVICE_CLASS_TRAVEL_RESPONSE_TYPE) (\<lambda>_.
      rbind (validate_kind (cr_version (cp_request r)) (cr_object_type (cp_request r)) SERVICE_CLASS_TRAVEL_REQUEST_TYPE) (\<lambda>_.
      rbind (validate_client_label (cr_label (cp_request r))) (\<lambda>_.
      rbind (bail_if (ea_request (es_approval (cp_response r)) \<noteq> cr_request (cp_request r)) (Enroll RequestSubstituted)) (\<lambda>_.
      rbind (validate_enrollment_response E (cp_response r) root now) (\<lambda>(credential, trust).
      rbind (json_digest C (en_class_request E) (cp_request r)) (\<lambda>request_sha256.
      rbind (class_approval_verify C (j_endpoint (en_codecs E)) (j_credential (en_codecs E)) (en_class_approval E)
          (en_class_descriptor E) (cp_approval r) trust (es_home_endpoint_credential (cp_response r))
          (cr_descriptor (cp_request r)) request_sha256 (es_signed_credential (cp_response r)) now) (\<lambda>proved.
      rbind (bail_if (proved \<noteq> credential) (Enroll EnrollmentDisagrees)) (\<lambda>_.
      Ok (credential, trust))))))))))"

section \<open>Issuing a directed request\<close>

text \<open>The validity of an approval, cut to a limit, to the issuing Home's endpoint and to the trust.\<close>

definition narrow_approval :: "crypto \<Rightarrow> home_endpoint_credential json \<Rightarrow> deployment_trust
    \<Rightarrow> signed_home_endpoint_credential option \<Rightarrow> u64 \<Rightarrow> u64 \<Rightarrow> enrollment_approval \<Rightarrow> enrollment_approval res" where
  "narrow_approval C JE trust endpoint_credential limit now a =
     rbind (case endpoint_credential of
         None \<Rightarrow> Ok (min (ea_not_after_unix_secs a) limit)
       | Some s \<Rightarrow> rbind (endpoint_verify C JE s trust now) (\<lambda>endpoint.
           Ok (min (min (ea_not_after_unix_secs a) limit) (hec_not_after_unix_secs endpoint)))) (\<lambda>not_after.
     Ok (a\<lparr>ea_not_after_unix_secs := not_after,
           ea_not_before_unix_secs := max (ea_not_before_unix_secs a) (dt_not_before_unix_secs trust)\<rparr>))"

definition load_signing_key :: "x509 \<Rightarrow> bytes res \<Rightarrow> bytes res" where
  "load_signing_key X key_file = rbind key_file (\<lambda>der. ok_or (pkcs8_key X der) (Enroll KeyUnreadable))"

definition issue_business_travel :: "enroll_env \<Rightarrow> (nat \<Rightarrow> bytes) \<Rightarrow> business_travel_request \<Rightarrow> enrollment_approval
    \<Rightarrow> issuer_material \<Rightarrow> u64 \<Rightarrow> business_travel_response res" where
  "issue_business_travel E rnd request a m now =
     (let C = en_crypto E; JE = j_endpoint (en_codecs E); d = br_descriptor request in
      rbind (trust_verify C (en_trust E) (im_deployment_trust m) (im_root_public_key m) now) (\<lambda>trust.
      rbind (business_request_validate E request trust (bd_approving_home_id d) now) (\<lambda>_.
      rbind (descriptor_verify C JE (j_grant (en_codecs E)) d trust now) (\<lambda>target.
      rbind (bail_if (ea_request a \<noteq> br_request request
          \<or> ea_scope a \<noteq> ScopeService (vbd_home_id target) (bs_service_id (vbd_service target))
               (bs_protocol (vbd_service target))) (Enroll ApprovalNotExact)) (\<lambda>_.
      rbind (narrow_approval C JE trust (im_home_endpoint m) (vbd_not_after_unix_secs target) now a) (\<lambda>a'.
      rbind (issue_enrollment E rnd a' m now) (\<lambda>response.
      rbind (travel_authorities_with_home_delegations C JE trust
          (case im_home_endpoint m of None \<Rightarrow> [] | Some s \<Rightarrow> [s])) (\<lambda>auths.
      rbind (ok_or (List.find (\<lambda>x. authority_id x = stc_authority_id (es_signed_credential response)) auths)
          (Enroll AuthorityUntrusted)) (\<lambda>authority.
      rbind (bail_if (authority_home_id authority \<noteq> Some (vbd_approving_home_id target)) (Enroll UnexpectedApprover)) (\<lambda>_.
      rbind (json_digest C (en_business_request E) request) (\<lambda>request_sha256.
      rbind (json_digest C (j_descriptor (en_codecs E)) d) (\<lambda>descriptor_sha256.
      rbind (payload_digest C (stc_payload_hex (es_signed_credential response))) (\<lambda>credential_sha256.
      rbind (load_signing_key (en_x509 E) (im_travel_authority_key m)) (\<lambda>key.
      rbind (approval_sign C (j_approval (en_codecs E))
          \<lparr>bta_version = BUSINESS_VERSION, bta_object_type = BUSINESS_APPROVAL_TYPE,
           bta_deployment_id = dt_deployment_id trust, bta_authority_id = authority_id authority,
           bta_authority_epoch = authority_epoch authority, bta_request_id = er_request_id (br_request request),
           bta_request_sha256 = request_sha256, bta_descriptor_sha256 = descriptor_sha256,
           bta_credential_payload_sha256 = credential_sha256\<rparr> key (rnd 3)) (\<lambda>approval.
      let result = \<lparr>bp_version = BUSINESS_VERSION, bp_object_type = BUSINESS_TRAVEL_RESPONSE_TYPE,
        bp_request = request, bp_response = response, bp_approval = approval\<rparr> in
      rbind (business_response_validate E result (im_root_public_key m) now) (\<lambda>_.
      Ok result))))))))))))))))"

definition issue_service_class_travel :: "enroll_env \<Rightarrow> (nat \<Rightarrow> bytes) \<Rightarrow> class_travel_request \<Rightarrow> enrollment_approval
    \<Rightarrow> issuer_material \<Rightarrow> u64 \<Rightarrow> class_travel_response res" where
  "issue_service_class_travel E rnd request a m now =
     (let C = en_crypto E; JE = j_endpoint (en_codecs E); d = cr_descriptor request in
      rbind (trust_verify C (en_trust E) (im_deployment_trust m) (im_root_public_key m) now) (\<lambda>trust.
      rbind (class_request_validate E request (scd_approving_home_id d) now) (\<lambda>_.
      rbind (class_verify_with_issuer C JE d trust (im_home_endpoint m) now) (\<lambda>_.
      rbind (bail_if (ea_request a \<noteq> cr_request request \<or> ea_scope a \<noteq> class_scope d) (Enroll ApprovalNotExact)) (\<lambda>_.
      rbind (narrow_approval C JE trust (im_home_endpoint m) (dt_not_after_unix_secs trust) now a) (\<lambda>a'.
      rbind (issue_enrollment E rnd a' m now) (\<lambda>response.
      rbind (travel_authorities_with_home_delegations C JE trust
          (case im_home_endpoint m of None \<Rightarrow> [] | Some s \<Rightarrow> [s])) (\<lambda>auths.
      rbind (ok_or (List.find (\<lambda>x. authority_id x = stc_authority_id (es_signed_credential response)) auths)
          (Enroll AuthorityUntrusted)) (\<lambda>authority.
      rbind (bail_if (\<not> global_of_home (scd_approving_home_id d) authority) (Enroll UnexpectedApprover)) (\<lambda>_.
      rbind (json_digest C (en_class_request E) request) (\<lambda>request_sha256.
      rbind (json_digest C (en_class_descriptor E) d) (\<lambda>descriptor_sha256.
      rbind (payload_digest C (stc_payload_hex (es_signed_credential response))) (\<lambda>credential_sha256.
      rbind (load_signing_key (en_x509 E) (im_travel_authority_key m)) (\<lambda>key.
      rbind (class_approval_sign C (en_class_approval E)
          \<lparr>sca_version = BUSINESS_VERSION, sca_object_type = SERVICE_CLASS_APPROVAL_TYPE,
           sca_deployment_id = dt_deployment_id trust, sca_authority_id = authority_id authority,
           sca_authority_epoch = authority_epoch authority, sca_request_id = er_request_id (cr_request request),
           sca_request_sha256 = request_sha256, sca_descriptor_sha256 = descriptor_sha256,
           sca_credential_payload_sha256 = credential_sha256\<rparr> key (rnd 3)) (\<lambda>approval.
      let result = \<lparr>cp_version = BUSINESS_VERSION, cp_object_type = SERVICE_CLASS_TRAVEL_RESPONSE_TYPE,
        cp_request = request, cp_response = response, cp_approval = approval\<rparr> in
      rbind (class_response_validate E result (im_root_public_key m) now) (\<lambda>_.
      Ok result))))))))))))))))"

section \<open>Installing a response\<close>

definition MANAGEMENT_KEY_FILE :: string where "MANAGEMENT_KEY_FILE = ''travel-management.key''"
definition BUSINESS_KEY_FILE :: string where "BUSINESS_KEY_FILE = ''travel-business.key''"
definition MANAGEMENT_CERT_FILE :: string where "MANAGEMENT_CERT_FILE = ''travel-management.crt''"
definition BUSINESS_CERT_FILE :: string where "BUSINESS_CERT_FILE = ''travel-business.crt''"
definition MANAGEMENT_CA_FILE :: string where "MANAGEMENT_CA_FILE = ''management-ca.crt''"
definition BUSINESS_CA_FILE :: string where "BUSINESS_CA_FILE = ''business-ca.crt''"
definition RESPONSE_FILE :: string where "RESPONSE_FILE = ''enrollment-response.json''"
definition DEPLOYMENT_TRUST_FILE :: string where "DEPLOYMENT_TRUST_FILE = ''deployment-trust.json''"

record enrollment_state =
  et_version :: u32
  et_request_id :: uuid
  et_nonce :: string
  et_travel_id :: string
  et_management_spki_sha256 :: string
  et_business_spki_sha256 :: string

text \<open>An enrollment directory: its regular files, and what is not a regular file. A new file may fail to be
  created, stop after some bytes, or fail to reach the disk.\<close>

datatype dir_entry = RegularFile bytes | OtherEntry

type_synonym directory = "string \<rightharpoonup> dir_entry"

datatype create_event = CreatesFile | InspectFails io_kind | CreateFails io_kind | StopsAfter nat io_kind | SyncFails io_kind

definition write_private_file :: "create_event \<Rightarrow> string \<Rightarrow> bytes \<Rightarrow> directory \<Rightarrow> unit res \<times> directory" where
  "write_private_file ev name bytes d =
     (if d name \<noteq> None then (Err (Enroll ConflictingFile), d)
      else case ev of
          InspectFails k \<Rightarrow> (Err (Io k), d)
        | CreateFails k \<Rightarrow> (Err (Io k), d)
        | StopsAfter n k \<Rightarrow> (Err (Io k), d(name \<mapsto> RegularFile (take n bytes)))
        | SyncFails k \<Rightarrow> (Err (Io k), d(name \<mapsto> RegularFile bytes))
        | CreatesFile \<Rightarrow> (Ok (), d(name \<mapsto> RegularFile bytes)))"

definition write_or_verify :: "create_event \<Rightarrow> string \<Rightarrow> bytes \<Rightarrow> directory \<Rightarrow> unit res \<times> directory" where
  "write_or_verify ev name bytes d =
     (case ev of InspectFails k \<Rightarrow> (Err (Io k), d)
      | _ \<Rightarrow>
        (case d name of
           None \<Rightarrow> write_private_file ev name bytes d
         | Some entry \<Rightarrow> (bail_if (entry \<noteq> RegularFile bytes) (Enroll ConflictingFile), d)))"

fun write_all_or_verify :: "(string \<Rightarrow> create_event) \<Rightarrow> (string \<times> bytes res) list \<Rightarrow> directory
    \<Rightarrow> unit res \<times> directory" where
  "write_all_or_verify ev [] d = (Ok (), d)"
| "write_all_or_verify ev ((name, contents) # rest) d =
     (case contents of
        Err e \<Rightarrow> (Err e, d)
      | Ok bytes \<Rightarrow>
          (case write_or_verify (ev name) name bytes d of
             (Err e, d') \<Rightarrow> (Err e, d')
           | (Ok _, d') \<Rightarrow> write_all_or_verify ev rest d'))"

text \<open>The key in the directory, as \<open>key::load_private_key\<close> decrypts it.\<close>

definition validate_local_key :: "crypto \<Rightarrow> x509 \<Rightarrow> bytes res \<Rightarrow> string \<Rightarrow> unit res" where
  "validate_local_key C X key_file expected_spki =
     rbind key_file (\<lambda>der.
     rbind (ok_or (key_spki X der) (Enroll KeyUnreadable)) (\<lambda>spki.
     bail_if (\<not> eq_ignore_ascii_case (spki_pin C spki) expected_spki) (Enroll LocalKeyMismatch)))"

definition installed_files :: "enrollment_response json \<Rightarrow> signed_deployment_trust json \<Rightarrow> enrollment_response
    \<Rightarrow> deployment_trust \<Rightarrow> (string \<times> bytes res) list" where
  "installed_files JR JT r trust =
     [(MANAGEMENT_CA_FILE, Ok (as_bytes (dt_management_ca_certificate_pem trust))),
      (BUSINESS_CA_FILE, Ok (as_bytes (dt_business_ca_certificate_pem trust))),
      (DEPLOYMENT_TRUST_FILE, ok_or (to_vec JT (es_deployment_trust r)) (Auth EncodeFailed)),
      (MANAGEMENT_CERT_FILE, Ok (as_bytes (es_management_certificate_pem r))),
      (BUSINESS_CERT_FILE, Ok (as_bytes (es_business_certificate_pem r))),
      (RESPONSE_FILE, ok_or (to_vec JR r) (Auth EncodeFailed))]"

text \<open>\<open>install_enrollment_response\<close>: the request and the state are what \<open>load_json\<close> reads in the directory,
  \<open>JR\<close> and \<open>JT\<close> the pretty printers.\<close>

definition install_enrollment_response :: "enroll_env \<Rightarrow> enrollment_response json \<Rightarrow> signed_deployment_trust json
    \<Rightarrow> (string \<Rightarrow> create_event) \<Rightarrow> enrollment_request res \<Rightarrow> enrollment_state res \<Rightarrow> bytes res \<Rightarrow> bytes res
    \<Rightarrow> enrollment_response \<Rightarrow> string \<Rightarrow> u64 \<Rightarrow> directory \<Rightarrow> travel_credential res \<times> directory" where
  "install_enrollment_response E JR JT ev request_file state_file mkey bkey r root now d =
     (case rbind request_file (\<lambda>request.
        rbind state_file (\<lambda>s.
        rbind (bail_if (et_version s \<noteq> ENROLLMENT_VERSION \<or> et_request_id s \<noteq> er_request_id request
            \<or> et_nonce s \<noteq> er_nonce request \<or> et_travel_id s \<noteq> er_travel_id request
            \<or> ea_request (es_approval r) \<noteq> request) (Enroll LocalMismatch)) (\<lambda>_.
        rbind (validate_enrollment_response E r root now) (\<lambda>(credential, trust).
        rbind (validate_local_key (en_crypto E) (en_x509 E) mkey (et_management_spki_sha256 s)) (\<lambda>_.
        rbind (validate_local_key (en_crypto E) (en_x509 E) bkey (et_business_spki_sha256 s)) (\<lambda>_.
        rbind (bail_if (tc_management_spki_sha256 credential \<noteq> et_management_spki_sha256 s
            \<or> tc_business_spki_sha256 credential \<noteq> et_business_spki_sha256 s) (Enroll LocalKeyMismatch)) (\<lambda>_.
        Ok (credential, trust)))))))) of
        Err e \<Rightarrow> (Err e, d)
      | Ok (credential, trust) \<Rightarrow>
          (case write_all_or_verify ev (installed_files JR JT r trust) d of
             (Err e, d') \<Rightarrow> (Err e, d') | (Ok _, d') \<Rightarrow> (Ok credential, d')))"


section \<open>What a validated response says\<close>

lemma parse_requestD:
  assumes "parse_enrollment_request C X r now = Ok (m, b)"
  shows "csr_from_pem X (er_management_csr_pem r) = Some m" "csr_from_pem X (er_business_csr_pem r) = Some b"
    "rq_spki m \<noteq> rq_spki b" "er_request_id r \<noteq> uuid_nil" "er_version r = ENROLLMENT_VERSION"
    "\<exists>nonce. hex_decode C (er_nonce r) = Some nonce \<and> length nonce = 32"
    "er_travel_id r \<noteq> []" "list_all travel_id_char (er_travel_id r)"
    "validate_csr m (er_travel_id r) = Ok ()" "validate_csr b (er_travel_id r) = Ok ()"
    "validate_travel_id (er_travel_id r) = Ok ()"
  using assms by (auto simp: parse_enrollment_request_def validate_travel_id_def)

lemma parse_request_at_creation:
  assumes "parse_enrollment_request C X r now = Ok mb"
  shows "parse_enrollment_request C X r (er_created_at_unix_secs r) = Ok mb"
  using assms sat_add_ge [of "er_created_at_unix_secs r" 300]
  by (auto simp: parse_enrollment_request_def bail_if_def not_less split: if_splits)

lemma csr_names:
  "validate_csr m travel_id = Ok () \<longleftrightarrow> rq_p256 m \<and> rq_subject_alt_names m = [UriName (identity_uri RTravel travel_id)]"
  by (cases "rq_subject_alt_names m") (auto simp: validate_csr_def Let_def)

lemma certificate_from_pem_Ok: "certificate_from_pem X pem = Ok der \<longleftrightarrow> pem_slice X pem = [Some der]"
  by (auto simp: certificate_from_pem_def split: list.splits option.splits if_splits)

text \<open>What an issued certificate must be: one certificate, with the Travel identity of the credential, a pinned
  key and the credential's validity, good for client authentication under a CA of the trust document.\<close>

definition certificate_binds :: "crypto \<Rightarrow> x509 \<Rightarrow> string \<Rightarrow> string \<Rightarrow> travel_credential \<Rightarrow> string \<Rightarrow> u64 \<Rightarrow> bool" where
  "certificate_binds C X pem ca_pem c pin now \<longleftrightarrow>
     (\<exists>der p roots. pem_slice X pem = [Some der] \<and> peer_identity_of C X (Some [der]) = Ok p
        \<and> pi_role p = RTravel \<and> pi_id p = tc_travel_id c \<and> eq_ignore_ascii_case (pi_spki_sha256 p) pin
        \<and> pi_not_before_unix_secs p = tc_not_before_unix_secs c
        \<and> pi_not_after_unix_secs p = tc_not_after_unix_secs c
        \<and> pem_slice X ca_pem = map Some roots \<and> roots \<noteq> [] \<and> client_chain X roots [] der now)"

lemma certificate_bindsI:
  assumes "validate_issued_certificate C X pem c pin = Ok ()" "certificate_from_pem X pem = Ok der"
    "verify_client_chain X der ca now = Ok ()"
  shows "certificate_binds C X pem ca c pin now"
proof -
  obtain p where p: "peer_identity_of C X (Some [der]) = Ok p" "pi_role p = RTravel" "pi_id p = tc_travel_id c"
    "eq_ignore_ascii_case (pi_spki_sha256 p) pin" "pi_not_before_unix_secs p = tc_not_before_unix_secs c"
    "pi_not_after_unix_secs p = tc_not_after_unix_secs c"
    using assms(1, 2) by (auto simp: validate_issued_certificate_def require_peer_Ok)
  moreover obtain roots where "pem_slice X ca = map Some roots" "roots \<noteq> []" "client_chain X roots [] der now"
    using assms(3) by (auto simp: verify_client_chain_def all_decoded_Ok)
  ultimately show ?thesis
    using assms(2) unfolding certificate_binds_def certificate_from_pem_Ok by blast
qed

lemma enrollment_authorityD:
  assumes "enrollment_authority C JE t endpoint a now = Ok x"
  shows "\<exists>auths. travel_authorities_with_home_delegations C JE t
       (case endpoint of None \<Rightarrow> [] | Some s \<Rightarrow> [s]) = Ok auths \<and> x \<in> set auths"
    "authority_id x = ea_authority_id a"
    "\<And>s. endpoint = Some s \<Longrightarrow> \<exists>e. endpoint_verify C JE s t now = Ok e
       \<and> ea_not_after_unix_secs a \<le> hec_not_after_unix_secs e"
  using assms by (auto simp: enrollment_authority_def not_less dest!: find_SomeD)

lemma validate_responseD:
  assumes "validate_enrollment_response E r root now = Ok (c, t)"
  obtains m b x where
    "parse_enrollment_request (en_crypto E) (en_x509 E) (ea_request (es_approval r))
       (er_created_at_unix_secs (ea_request (es_approval r))) = Ok (m, b)"
    "validate_validity_interval (es_approval r) = Ok ()" "now < ea_not_after_unix_secs (es_approval r)"
    "trust_verify (en_crypto E) (en_trust E) (es_deployment_trust r) root now = Ok t"
    "dt_not_before_unix_secs t \<le> ea_not_before_unix_secs (es_approval r)"
    "ea_not_after_unix_secs (es_approval r) \<le> dt_not_after_unix_secs t"
    "enrollment_authority (en_crypto E) (j_endpoint (en_codecs E)) t (es_home_endpoint_credential r)
       (es_approval r) now = Ok x"
    "credential_verify (en_crypto E) (j_credential (en_codecs E)) (es_signed_credential r) x = Ok c"
    "expected_credential E (es_approval r)
       \<lparr>cb_signed_trust = es_deployment_trust r, cb_trust = t, cb_authority = x,
        cb_management_certificate_pem = es_management_certificate_pem r,
        cb_business_certificate_pem = es_business_certificate_pem r\<rparr>
       (spki_pin (en_crypto E) (rq_spki m)) (spki_pin (en_crypto E) (rq_spki b)) = Ok c"
    "certificate_binds (en_crypto E) (en_x509 E) (es_management_certificate_pem r)
       (dt_management_ca_certificate_pem t) c (tc_management_spki_sha256 c) now"
    "certificate_binds (en_crypto E) (en_x509 E) (es_business_certificate_pem r)
       (dt_business_ca_certificate_pem t) c (tc_business_spki_sha256 c) now"
proof -
  obtain m b where mb: "parse_enrollment_request (en_crypto E) (en_x509 E) (ea_request (es_approval r))
       (er_created_at_unix_secs (ea_request (es_approval r))) = Ok (m, b)"
    using assms by (auto simp: validate_enrollment_response_def Let_def)
  from assms obtain x der1 der2 where x:
    "validate_validity_interval (es_approval r) = Ok ()" "now < ea_not_after_unix_secs (es_approval r)"
    "trust_verify (en_crypto E) (en_trust E) (es_deployment_trust r) root now = Ok t"
    "dt_not_before_unix_secs t \<le> ea_not_before_unix_secs (es_approval r)"
    "ea_not_after_unix_secs (es_approval r) \<le> dt_not_after_unix_secs t"
    "enrollment_authority (en_crypto E) (j_endpoint (en_codecs E)) t (es_home_endpoint_credential r)
       (es_approval r) now = Ok x"
    "credential_verify (en_crypto E) (j_credential (en_codecs E)) (es_signed_credential r) x = Ok c"
    "expected_credential E (es_approval r)
       \<lparr>cb_signed_trust = es_deployment_trust r, cb_trust = t, cb_authority = x,
        cb_management_certificate_pem = es_management_certificate_pem r,
        cb_business_certificate_pem = es_business_certificate_pem r\<rparr>
       (spki_pin (en_crypto E) (rq_spki m)) (spki_pin (en_crypto E) (rq_spki b)) = Ok c"
    "validate_issued_certificate (en_crypto E) (en_x509 E) (es_management_certificate_pem r) c
       (tc_management_spki_sha256 c) = Ok ()"
    "validate_issued_certificate (en_crypto E) (en_x509 E) (es_business_certificate_pem r) c
       (tc_business_spki_sha256 c) = Ok ()"
    "certificate_from_pem (en_x509 E) (es_management_certificate_pem r) = Ok der1"
    "verify_client_chain (en_x509 E) der1 (dt_management_ca_certificate_pem t) now = Ok ()"
    "certificate_from_pem (en_x509 E) (es_business_certificate_pem r) = Ok der2"
    "verify_client_chain (en_x509 E) der2 (dt_business_ca_certificate_pem t) now = Ok ()"
    by (auto simp: validate_enrollment_response_def Let_def mb not_less not_le)
  show ?thesis
    by (rule that [OF mb x(1-8) certificate_bindsI [OF x(9) x(11) x(12)] certificate_bindsI [OF x(10) x(13) x(14)]])
qed

lemma expected_credentialD:
  assumes "expected_credential E a b mp bp = Ok c"
  shows "tc_credential_id c = ea_credential_id a" "tc_travel_id c = er_travel_id (ea_request a)"
    "tc_enrollment_request_id c = er_request_id (ea_request a)" "tc_scope c = ea_scope a"
    "tc_not_before_unix_secs c = ea_not_before_unix_secs a" "tc_not_after_unix_secs c = ea_not_after_unix_secs a"
    "tc_management_spki_sha256 c = mp" "tc_business_spki_sha256 c = bp" "tc_authority_id c = ea_authority_id a"
    "tc_deployment_id c = dt_deployment_id (cb_trust b)" "tc_authority_epoch c = authority_epoch (cb_authority b)"
    "tc_enrollment_nonce c = er_nonce (ea_request a)"
    "sha256_json (en_crypto E) (en_request E) (ea_request a) = Ok (tc_enrollment_request_sha256 c)"
    "trust_payload_digest (en_crypto E) (cb_signed_trust b) = Ok (tc_deployment_trust_sha256 c)"
    "certificate_sha256 (en_crypto E) (en_x509 E) (cb_management_certificate_pem b) = Ok (tc_management_certificate_sha256 c)"
    "certificate_sha256 (en_crypto E) (en_x509 E) (cb_business_certificate_pem b) = Ok (tc_business_certificate_sha256 c)"
    "tc_management_ca_sha256 c = sha256_hex (en_crypto E) (as_bytes (dt_management_ca_certificate_pem (cb_trust b)))"
    "tc_business_ca_sha256 c = sha256_hex (en_crypto E) (as_bytes (dt_business_ca_certificate_pem (cb_trust b)))"
    "tc_version c = TRAVEL_CREDENTIAL_VERSION" "tc_object_type c = TRAVEL_CREDENTIAL_OBJECT_TYPE"
  using assms by (auto simp: expected_credential_def Let_def)


section \<open>What issuing produces\<close>

definition sha256_ok :: "crypto \<Rightarrow> bool" where
  "sha256_ok C \<longleftrightarrow> (\<forall>b. length (sha256_digest C b) = 32)"

text \<open>What \<open>rcgen\<close> and the X.509 parser promise: a signed leaf is one certificate with the names, key and
  validity it was signed for.\<close>

definition x509_ok :: "x509 \<Rightarrow> bool" where
  "x509_ok X \<longleftrightarrow> (\<forall>ca key p spki rnd pem. sign_leaf X ca key p spki rnd = Some pem \<longrightarrow>
     (\<exists>der cert. pem_slice X pem = [Some der] \<and> parse_certificate X der = Some cert
        \<and> certificate_names cert = lf_subject_alt_names p \<and> xc_spki cert = spki
        \<and> xc_not_before cert = uint (lf_not_before p) \<and> xc_not_after cert = uint (lf_not_after p)))"

text \<open>A certificate authority in force at a time: its file is a valid trust anchor, and the client
  certificates it signs chain to it while they are valid.\<close>

definition ca_in_force :: "x509 \<Rightarrow> string \<Rightarrow> u64 \<Rightarrow> bool" where
  "ca_in_force X ca now \<longleftrightarrow> (\<exists>roots. pem_slice X ca = map Some roots \<and> roots \<noteq> [] \<and> list_all (root_parsable X) roots
     \<and> (\<forall>key p spki rnd pem der. sign_leaf X ca key p spki rnd = Some pem \<and> pem_slice X pem = [Some der]
          \<and> \<not> lf_is_ca p \<and> lf_digital_signature p \<and> lf_client_auth p \<and> lf_not_before p \<le> now
          \<and> now \<le> lf_not_after p \<longrightarrow> client_chain X roots [] der now))"

lemma exact_leaf_params_Ok:
  "exact_leaf_params X i nb na = Ok p \<Longrightarrow> p = \<lparr>lf_common_name = ''FlowSplice Travel '' @ i,
         lf_subject_alt_names = [UriName (identity_uri RTravel i)],
         lf_is_ca = False, lf_digital_signature = True, lf_client_auth = True,
         lf_not_before = nb, lf_not_after = na\<rparr>"
  by (auto simp: exact_leaf_params_def)

lemma slash_not_travel_id: "list_all travel_id_char i \<Longrightarrow> CHR ''/'' \<notin> set i"
proof
  assume "list_all travel_id_char i" "CHR ''/'' \<in> set i"
  then have "travel_id_char CHR ''/''" by (auto simp: list_all_iff)
  then show False
    by (simp add: travel_id_char_def is_ascii_alphanumeric_def is_ascii_digit_def)
qed

lemma issued_leaf_valid:
  assumes "x509_ok X" "ca_in_force X ca now" "sign_leaf X ca key p spki rnd = Some pem"
    and "exact_leaf_params X (tc_travel_id c) (tc_not_before_unix_secs c) (tc_not_after_unix_secs c) = Ok p"
    and "tc_not_before_unix_secs c \<le> now" "now < tc_not_after_unix_secs c"
    and "tc_travel_id c \<noteq> []" "list_all travel_id_char (tc_travel_id c)"
  shows "validate_issued_certificate C X pem c (spki_pin C spki) = Ok ()"
    "\<exists>der. certificate_from_pem X pem = Ok der \<and> verify_client_chain X der ca now = Ok ()"
proof -
  note p = exact_leaf_params_Ok [OF assms(4)]
  obtain der cert where d: "pem_slice X pem = [Some der]" "parse_certificate X der = Some cert"
    and n: "certificate_names cert = [UriName (identity_uri RTravel (tc_travel_id c))]" "xc_spki cert = spki"
    and t: "xc_not_before cert = uint (tc_not_before_unix_secs c)" "xc_not_after cert = uint (tc_not_after_unix_secs c)"
    using assms(1, 3) unfolding x509_ok_def p by fastforce
  have "filter is_identity_name (certificate_names cert) = [UriName (identity_uri RTravel (tc_travel_id c))]"
    by (simp add: n) (simp add: identity_uri_def)
  then have "peer_identity_of C X (Some [der]) = Ok (identity_in C der cert RTravel (tc_travel_id c))"
    unfolding peer_identity_of_Ok using d t assms(7) slash_not_travel_id [OF assms(8)] by force
  then show "validate_issued_certificate C X pem c (spki_pin C spki) = Ok ()"
    by (simp add: validate_issued_certificate_def certificate_from_pem_Ok d require_peer_Ok)
      (simp add: identity_in_def t n spki_pin_def)
  obtain roots where r: "pem_slice X ca = map Some roots" "roots \<noteq> []" "list_all (root_parsable X) roots"
    and chain: "\<And>key p spki rnd pem der. sign_leaf X ca key p spki rnd = Some pem \<Longrightarrow> pem_slice X pem = [Some der]
          \<Longrightarrow> \<not> lf_is_ca p \<Longrightarrow> lf_digital_signature p \<Longrightarrow> lf_client_auth p \<Longrightarrow> lf_not_before p \<le> now
          \<Longrightarrow> now \<le> lf_not_after p \<Longrightarrow> client_chain X roots [] der now"
    using assms(2) unfolding ca_in_force_def by blast
  have "client_chain X roots [] der now"
    by (rule chain [OF assms(3) d(1)]) (use assms(5, 6) in \<open>simp_all add: p\<close>)
  then show "\<exists>der. certificate_from_pem X pem = Ok der \<and> verify_client_chain X der ca now = Ok ()"
    by (intro exI [of _ der]) (simp add: certificate_from_pem_Ok verify_client_chain_def all_decoded_Ok d r)
qed

end
