(* ===== verification/Enrollment_Properties.thy ===== *)
theory Enrollment_Properties
  imports Enrollment
begin

text \<open>
  What enrollment guarantees: a validated response is authentic and confined to its request, what an issuer
  produces validates, a directed request gets exactly the service it named, and an import is final. The
  witnesses run the sample deployment's two authorities.
\<close>

section \<open>From the approval to a valid response\<close>

lemma issue_enrollmentD:
  assumes "issue_enrollment E rnd a m now = Ok r"
    and "trust_verify (en_crypto E) (en_trust E) (im_deployment_trust m) (im_root_public_key m) now = Ok t"
    and "enrollment_authority (en_crypto E) (j_endpoint (en_codecs E)) t (im_home_endpoint m) a now = Ok x"
  obtains mc bc mk bk p mpem bpem c key payload sig where
    "validate_approval (en_crypto E) (en_x509 E) a now = Ok ()"
    "dt_not_before_unix_secs t \<le> ea_not_before_unix_secs a" "ea_not_after_unix_secs a \<le> dt_not_after_unix_secs t"
    "parse_enrollment_request (en_crypto E) (en_x509 E) (ea_request a) now = Ok (mc, bc)"
    "exact_leaf_params (en_x509 E) (er_travel_id (ea_request a)) (ea_not_before_unix_secs a)
       (ea_not_after_unix_secs a) = Ok p"
    "sign_leaf (en_x509 E) (dt_management_ca_certificate_pem t) mk p (rq_spki mc) (rnd 0) = Some mpem"
    "sign_leaf (en_x509 E) (dt_business_ca_certificate_pem t) bk p (rq_spki bc) (rnd 1) = Some bpem"
    "expected_credential E a \<lparr>cb_signed_trust = im_deployment_trust m, cb_trust = t, cb_authority = x,
       cb_management_certificate_pem = mpem, cb_business_certificate_pem = bpem\<rparr>
       (spki_pin (en_crypto E) (rq_spki mc)) (spki_pin (en_crypto E) (rq_spki bc)) = Ok c"
    "eq_ignore_ascii_case (hex_encode (en_crypto E) (ecdsa_public (en_crypto E) key)) (authority_public_key x)"
    "to_vec (j_credential (en_codecs E)) c = Some payload"
    "ecdsa_sign (en_crypto E) key (rnd 2) payload = Some sig"
    "r = \<lparr>es_version = ENROLLMENT_VERSION, es_approval = a, es_deployment_trust = im_deployment_trust m,
       es_home_endpoint_credential = im_home_endpoint m, es_management_certificate_pem = mpem,
       es_business_certificate_pem = bpem,
       es_signed_credential = \<lparr>stc_authority_id = tc_authority_id c,
         stc_payload_hex = hex_encode (en_crypto E) payload, stc_signature_hex = hex_encode (en_crypto E) sig\<rparr>\<rparr>"
  using assms by (auto simp: issue_enrollment_def Let_def not_less)

lemma pin_of: "hex_ok C \<Longrightarrow> sha256_ok C \<Longrightarrow> hex_encode C (sha256_digest C b) = s \<Longrightarrow> validate_spki_pin C s = Ok ()"
  by (auto simp: sha256_ok_def)

lemma credential_signed_verifies:
  assumes "hex_ok C" "hex_case_ok C" "ecdsa_ok C" "json_ok J" "to_vec J c = Some payload"
    and "ecdsa_sign C key rnd payload = Some sig"
    and "eq_ignore_ascii_case (hex_encode C (ecdsa_public C key)) (authority_public_key x)"
    and "authority_validate C x = Ok ()" "credential_validate C c = Ok ()"
    and "tc_authority_id c = authority_id x" "tc_authority_epoch c = authority_epoch x"
    and "authority_validate_scope x (tc_scope c) = Ok ()"
  shows "credential_verify C J \<lparr>stc_authority_id = tc_authority_id c, stc_payload_hex = hex_encode C payload,
     stc_signature_hex = hex_encode C sig\<rparr> x = Ok c"
proof -
  have "hex_decode C (authority_public_key x) = Some (ecdsa_public C key)"
    using assms(1, 2, 7) unfolding hex_case_ok_def by (metis hex_roundtrip)
  with assms(8) have k: "decode_authority_public_key C (authority_public_key x) = Ok (ecdsa_public C key)"
    by (auto simp: authority_validate_def decode_authority_Ok)
  have "from_slice J payload = Some c"
    using assms(4, 5) by (simp add: json_ok_def)
  then show ?thesis
    using assms(1, 9-12) k ecdsa_verifies [OF assms(3, 6)]
    by (simp add: credential_verify_def verify_public_key_def)
qed

lemma expected_credential_valid:
  assumes "hex_ok C" "sha256_ok C" "C = en_crypto E"
    and c: "expected_credential E a b (spki_pin C s1) (spki_pin C s2) = Ok c"
    and p: "parse_enrollment_request C X (ea_request a) now = Ok mb"
    and v: "validate_approval C X a now = Ok ()"
    and "dt_deployment_id (cb_trust b) \<noteq> []" "authority_epoch (cb_authority b) \<noteq> 0"
    and "scope_validate (ea_scope a) = Ok ()"
  shows "credential_validate C c = Ok ()"
proof -
  note d = expected_credentialD [OF c]
  obtain m b' where mb: "mb = (m, b')" by (cases mb)
  note q = parse_requestD [OF p [unfolded mb]]
  have "ea_credential_id a \<noteq> uuid_nil" "ea_authority_id a \<noteq> []"
    "ea_not_before_unix_secs a < ea_not_after_unix_secs a"
    using v by (auto simp: validate_approval_def validate_validity_interval_def not_le)
  moreover have "validate_spki_pin C (tc_deployment_trust_sha256 c) = Ok ()"
    using d(14) assms(3)
    by (auto simp: trust_payload_digest_def simp del: validate_spki_pin_Ok intro: pin_of [OF assms(1, 2), unfolded assms(3)])
  moreover have "validate_spki_pin C (tc_enrollment_request_sha256 c) = Ok ()"
    using d(13) assms(3)
    by (auto simp: sha256_json_def sha256_hex_def simp del: validate_spki_pin_Ok intro: pin_of [OF assms(1, 2), unfolded assms(3)])
  moreover have "validate_spki_pin C (tc_management_certificate_sha256 c) = Ok ()"
    using d(15) assms(3)
    by (auto simp: certificate_sha256_def sha256_hex_def simp del: validate_spki_pin_Ok intro: pin_of [OF assms(1, 2), unfolded assms(3)])
  moreover have "validate_spki_pin C (tc_business_certificate_sha256 c) = Ok ()"
    using d(16) assms(3)
    by (auto simp: certificate_sha256_def sha256_hex_def simp del: validate_spki_pin_Ok intro: pin_of [OF assms(1, 2), unfolded assms(3)])
  moreover have "validate_spki_pin C (tc_management_spki_sha256 c) = Ok ()"
    "validate_spki_pin C (tc_business_spki_sha256 c) = Ok ()" "validate_spki_pin C (tc_management_ca_sha256 c) = Ok ()"
    "validate_spki_pin C (tc_business_ca_sha256 c) = Ok ()"
    using d(7, 8, 17, 18) pin_of [OF assms(1, 2)] assms(3)
    by (simp_all add: spki_pin_def sha256_hex_def del: validate_spki_pin_Ok)
  moreover have "validate_spki_pin C (tc_enrollment_nonce c) = Ok ()"
    using q(6) d(12) by auto
  ultimately show ?thesis
    using assms(7-9) q(4, 7) d(1-6, 9-11, 19, 20)
    by (simp add: credential_validate_def del: validate_spki_pin_Ok)
qed

lemma issued_response_validates:
  assumes "issue_enrollment E rnd a m now = Ok r"
    and "hex_ok (en_crypto E)" "hex_case_ok (en_crypto E)" "ecdsa_ok (en_crypto E)" "sha256_ok (en_crypto E)"
    and "json_ok (j_credential (en_codecs E))" "x509_ok (en_x509 E)"
    and "trust_verify (en_crypto E) (en_trust E) (im_deployment_trust m) (im_root_public_key m) now = Ok t"
    and "ca_in_force (en_x509 E) (dt_management_ca_certificate_pem t) now"
    and "ca_in_force (en_x509 E) (dt_business_ca_certificate_pem t) now"
    and "enrollment_authority (en_crypto E) (j_endpoint (en_codecs E)) t (im_home_endpoint m) a now = Ok x"
    and "authority_validate_scope x (ea_scope a) = Ok ()" "scope_validate (ea_scope a) = Ok ()"
    and "ea_not_before_unix_secs a \<le> now" "now < ea_not_after_unix_secs a"
  shows "\<exists>c. validate_enrollment_response E r (im_root_public_key m) now = Ok (c, t)"
proof -
  obtain mc bc mk bk p mpem bpem c key payload sig where
    v: "validate_approval (en_crypto E) (en_x509 E) a now = Ok ()"
    and w: "dt_not_before_unix_secs t \<le> ea_not_before_unix_secs a" "ea_not_after_unix_secs a \<le> dt_not_after_unix_secs t"
    and q: "parse_enrollment_request (en_crypto E) (en_x509 E) (ea_request a) now = Ok (mc, bc)"
    and p: "exact_leaf_params (en_x509 E) (er_travel_id (ea_request a)) (ea_not_before_unix_secs a)
       (ea_not_after_unix_secs a) = Ok p"
    and s: "sign_leaf (en_x509 E) (dt_management_ca_certificate_pem t) mk p (rq_spki mc) (rnd 0) = Some mpem"
    "sign_leaf (en_x509 E) (dt_business_ca_certificate_pem t) bk p (rq_spki bc) (rnd 1) = Some bpem"
    and c: "expected_credential E a \<lparr>cb_signed_trust = im_deployment_trust m, cb_trust = t, cb_authority = x,
       cb_management_certificate_pem = mpem, cb_business_certificate_pem = bpem\<rparr>
       (spki_pin (en_crypto E) (rq_spki mc)) (spki_pin (en_crypto E) (rq_spki bc)) = Ok c"
    and k: "eq_ignore_ascii_case (hex_encode (en_crypto E) (ecdsa_public (en_crypto E) key)) (authority_public_key x)"
    "to_vec (j_credential (en_codecs E)) c = Some payload"
    "ecdsa_sign (en_crypto E) key (rnd 2) payload = Some sig"
    and r: "r = \<lparr>es_version = ENROLLMENT_VERSION, es_approval = a, es_deployment_trust = im_deployment_trust m,
       es_home_endpoint_credential = im_home_endpoint m, es_management_certificate_pem = mpem,
       es_business_certificate_pem = bpem,
       es_signed_credential = \<lparr>stc_authority_id = tc_authority_id c,
         stc_payload_hex = hex_encode (en_crypto E) payload, stc_signature_hex = hex_encode (en_crypto E) sig\<rparr>\<rparr>"
    by (rule issue_enrollmentD [OF assms(1, 8, 11)]) (rule that)
  note d = expected_credentialD [OF c, simplified]
  note pq = parse_requestD [OF q]
  note x = enrollment_authorityD [OF assms(11)]
  obtain auths where "travel_authorities_with_home_delegations (en_crypto E) (j_endpoint (en_codecs E)) t
       (case im_home_endpoint m of None \<Rightarrow> [] | Some s \<Rightarrow> [s]) = Ok auths" "x \<in> set auths"
    using x(1) by blast
  then have xv: "authority_validate (en_crypto E) x = Ok ()"
    using delegations_Ok(4) validate_trusted_authorities_Ok by blast
  then have "authority_epoch x \<noteq> 0"
    by (auto simp: authority_validate_def)
  moreover have "dt_deployment_id t \<noteq> []"
    using trust_shapeD(8) [OF trust_verifyD(1) [OF assms(8)]] .
  ultimately have cv: "credential_validate (en_crypto E) c = Ok ()"
    using expected_credential_valid [OF assms(2, 5) refl c q v] assms(13) by simp
  have sv: "credential_verify (en_crypto E) (j_credential (en_codecs E)) (es_signed_credential r) x = Ok c"
    using credential_signed_verifies [OF assms(2, 3, 4, 6) k(2, 3, 1) xv cv] d(9, 11) x(2) assms(12) d(4)
    by (simp add: r)
  have i: "tc_travel_id c \<noteq> []" "list_all travel_id_char (tc_travel_id c)"
    and t: "tc_not_before_unix_secs c \<le> now" "now < tc_not_after_unix_secs c"
    using d(2, 5, 6) pq(7, 8) assms(14, 15) by simp_all
  have p': "exact_leaf_params (en_x509 E) (tc_travel_id c) (tc_not_before_unix_secs c) (tc_not_after_unix_secs c) = Ok p"
    using p d(2, 5, 6) by simp
  note l1 = issued_leaf_valid [OF assms(7, 9) s(1) p' t i] and l2 = issued_leaf_valid [OF assms(7, 10) s(2) p' t i]
  obtain der1 der2 where der: "certificate_from_pem (en_x509 E) mpem = Ok der1"
    "verify_client_chain (en_x509 E) der1 (dt_management_ca_certificate_pem t) now = Ok ()"
    "certificate_from_pem (en_x509 E) bpem = Ok der2"
    "verify_client_chain (en_x509 E) der2 (dt_business_ca_certificate_pem t) now = Ok ()"
    using l1(2) l2(2) by blast
  have iv: "validate_validity_interval a = Ok ()" and av: "ea_version a = ENROLLMENT_VERSION" "ea_credential_id a \<noteq> uuid_nil"
    using v by (auto simp: validate_approval_def)
  have "ea_not_before_unix_secs a \<le> sat_add now MAX_CLOCK_SKEW_SECS"
    using assms(14) sat_add_ge [of now MAX_CLOCK_SKEW_SECS] by (rule order_trans)
  then have "validate_enrollment_response E r (im_root_public_key m) now = Ok (c, t)"
    using w iv av assms(8, 11, 15) c sv l1(1) l2(1) der d(7, 8, 9) parse_request_at_creation [OF q]
    by (simp add: validate_enrollment_response_def r Let_def not_less not_le bail_if_def)
  then show ?thesis ..
qed


section \<open>Evaluation on a concrete enrollment\<close>

definition sample_csr :: "byte \<Rightarrow> csr" where
  "sample_csr k = \<lparr>rq_p256 = True, rq_subject_alt_names = [UriName (identity_uri RTravel ''phone'')], rq_spki = [k]\<rparr>"

definition sample_leaf_params :: leaf_params where
  "sample_leaf_params = \<lparr>lf_common_name = ''FlowSplice Travel '' @ ''phone'',
     lf_subject_alt_names = [UriName (identity_uri RTravel ''phone'')], lf_is_ca = False,
     lf_digital_signature = True, lf_client_auth = True, lf_not_before = 100, lf_not_after = 4000\<rparr>"

text \<open>A library that reads the two requests and signs the two leaves of one enrollment.\<close>

definition sample_x509 :: x509 where
  "sample_x509 = \<lparr>csr_from_pem = (\<lambda>p. if p = ''mr'' then Some (sample_csr 1) else if p = ''br'' then Some (sample_csr 2) else None),
     pem_slice = (\<lambda>p. if p = ''M'' then [Some [1]] else if p = ''B'' then [Some [2]] else [Some [9]]),
     parse_certificate = (\<lambda>d. Some \<lparr>xc_extensions = [SubjectAlternativeName [UriName (identity_uri RTravel ''phone'')]],
        xc_spki = d, xc_key_data = d, xc_not_before = 100, xc_not_after = 4000,
        xc_extended_key_usage = Some (Some (True, False))\<rparr>),
     root_parsable = (\<lambda>d. True), client_chain = (\<lambda>roots mid d now. True), server_chain = (\<lambda>roots mid d now. False),
     date_in_range = (\<lambda>t. True), key_spki = (\<lambda>k. Some (if k = [] then [9] else k)), pkcs8_key = (\<lambda>k. Some k), ca_issuer_ok = (\<lambda>p k. True),
     sign_leaf = (\<lambda>ca k p spki rnd. if p \<noteq> sample_leaf_params then None
        else if spki = [1] then Some ''M'' else if spki = [2] then Some ''B'' else None)\<rparr>"

definition sample_request :: enrollment_request where
  "sample_request = \<lparr>er_version = 1, er_request_id = 12, er_nonce = sample_pin CHR ''2'', er_travel_id = ''phone'',
     er_created_at_unix_secs = 100, er_management_csr_pem = ''mr'', er_business_csr_pem = ''br''\<rparr>"

definition sample_enrollment_approval :: "string \<Rightarrow> travel_credential_scope \<Rightarrow> enrollment_approval" where
  "sample_enrollment_approval i scope = \<lparr>ea_version = 1, ea_credential_id = 11, ea_authority_id = i,
     ea_scope = scope, ea_request = sample_request, ea_not_before_unix_secs = 100,
     ea_not_after_unix_secs = 4000\<rparr>"

definition sample_issued_credential :: "string \<Rightarrow> travel_credential_scope \<Rightarrow> travel_credential" where
  "sample_issued_credential i scope = \<lparr>tc_version = 1, tc_object_type = ''flowsplice.travel_credential'',
     tc_deployment_id = ''dep'', tc_deployment_trust_sha256 = sample_digest, tc_credential_id = 11,
     tc_authority_id = i, tc_authority_epoch = 1, tc_enrollment_request_id = 12,
     tc_enrollment_nonce = sample_pin CHR ''2'', tc_enrollment_request_sha256 = sample_digest,
     tc_travel_id = ''phone'', tc_management_spki_sha256 = sha256_hex sample_crypto [1],
     tc_business_spki_sha256 = sha256_hex sample_crypto [2],
     tc_management_ca_sha256 = sha256_hex sample_crypto (as_bytes ''m''),
     tc_business_ca_sha256 = sha256_hex sample_crypto (as_bytes ''b''),
     tc_management_certificate_sha256 = sha256_hex sample_crypto [1],
     tc_business_certificate_sha256 = sha256_hex sample_crypto [2],
     tc_scope = scope, tc_not_before_unix_secs = 100, tc_not_after_unix_secs = 4000\<rparr>"

text \<open>A request for one service, and the approval that binds it.\<close>

definition sample_business_request :: business_travel_request where
  "sample_business_request = \<lparr>br_version = 1, br_object_type = ''flowsplice.business_travel_request'',
     br_request = sample_request, br_descriptor = sample_descriptor\<rparr>"

definition sample_service_scope :: travel_credential_scope where
  "sample_service_scope = ScopeService ''home-2'' ''ssh'' Tcp"

definition sample_directed_approval :: business_travel_approval where
  "sample_directed_approval = sample_approval\<lparr>bta_request_sha256 := sample_digest\<rparr>"

definition sample_enroll_env :: "string \<Rightarrow> travel_credential_scope \<Rightarrow> enroll_env" where
  "sample_enroll_env i scope = \<lparr>en_crypto = sample_crypto, en_x509 = sample_x509,
     en_codecs = sample_codecs\<lparr>j_credential := one_json (sample_issued_credential i scope),
       j_approval := one_json sample_directed_approval\<rparr>,
     en_trust = one_json sample_trust, en_request = one_json sample_request,
     en_business_request = one_json sample_business_request,
     en_class_request = \<lparr>to_vec = \<lambda>_. None, from_slice = \<lambda>_. None\<rparr>,
     en_class_approval = \<lparr>to_vec = \<lambda>_. None, from_slice = \<lambda>_. None\<rparr>,
     en_class_descriptor = \<lparr>to_vec = \<lambda>_. None, from_slice = \<lambda>_. None\<rparr>\<rparr>"

definition sample_material :: "byte \<Rightarrow> issuer_material" where
  "sample_material k = \<lparr>im_deployment_trust = sample_signed_trust, im_root_public_key = sample_key 3,
     im_home_endpoint = None, im_management_ca_certificate = Ok ''m'', im_management_ca_key = Ok [],
     im_business_ca_certificate = Ok ''b'', im_business_ca_key = Ok [], im_travel_authority_key = Ok [k]\<rparr>"

definition sample_response :: "string \<Rightarrow> byte \<Rightarrow> travel_credential_scope \<Rightarrow> enrollment_response" where
  "sample_response i k scope = \<lparr>es_version = 1, es_approval = sample_enrollment_approval i scope,
     es_deployment_trust = sample_signed_trust, es_home_endpoint_credential = None,
     es_management_certificate_pem = ''M'', es_business_certificate_pem = ''B'',
     es_signed_credential = \<lparr>stc_authority_id = i, stc_payload_hex = tohex [7],
       stc_signature_hex = tohex [k + 7]\<rparr>\<rparr>"

lemma sample_env_simps [simp]:
  "en_crypto (sample_enroll_env i scope) = sample_crypto" "en_x509 (sample_enroll_env i scope) = sample_x509"
  "en_trust (sample_enroll_env i scope) = one_json sample_trust" "en_request (sample_enroll_env i scope) = one_json sample_request"
  "j_credential (en_codecs (sample_enroll_env i scope)) = one_json (sample_issued_credential i scope)"
  "im_deployment_trust (sample_material k) = sample_signed_trust" "im_root_public_key (sample_material k) = sample_key 3"
  "im_home_endpoint (sample_material k) = None" "im_travel_authority_key (sample_material k) = Ok [k]"
  "en_business_request (sample_enroll_env i scope) = one_json sample_business_request"
  "j_approval (en_codecs (sample_enroll_env i scope)) = one_json sample_directed_approval"
  "j_descriptor (en_codecs (sample_enroll_env i scope)) = one_json sample_descriptor"
  "j_endpoint (en_codecs (sample_enroll_env i scope)) = one_json (sample_endpoint [])"
  "j_grant (en_codecs (sample_enroll_env i scope)) = one_json sample_grant"
  by (simp_all add: sample_enroll_env_def sample_material_def sample_codecs_def)

lemma sample_x509_simps [simp]:
  "pem_slice sample_x509 ''M'' = [Some [1]]" "pem_slice sample_x509 ''B'' = [Some [2]]"
  "pem_slice sample_x509 ''m'' = [Some [9]]" "pem_slice sample_x509 ''b'' = [Some [9]]"
  "pkcs8_key sample_x509 k = Some k"
  "csr_from_pem sample_x509 ''mr'' = Some (sample_csr 1)" "csr_from_pem sample_x509 ''br'' = Some (sample_csr 2)"
  by (simp_all add: sample_x509_def)

lemma sample_travel_id: "validate_travel_id ''phone'' = Ok ()"
  by (simp add: validate_travel_id_def travel_id_char_def is_ascii_alphanumeric_def bail_if_def)

lemma sample_csr_valid: "validate_csr (sample_csr k) ''phone'' = Ok ()"
  by (simp add: csr_names sample_csr_def)

lemma sample_request_fields:
  "er_version sample_request = ENROLLMENT_VERSION" "er_request_id sample_request = 12"
  "er_nonce sample_request = sample_pin CHR ''2''" "er_travel_id sample_request = ''phone''"
  "er_created_at_unix_secs sample_request = 100" "er_management_csr_pem sample_request = ''mr''"
  "er_business_csr_pem sample_request = ''br''"
  by (simp_all add: sample_request_def ENROLLMENT_VERSION_def)

lemma sample_nonce: "unhex (sample_pin CHR ''2'') = Some (replicate 32 34)"
  by (simp add: digit_val_def)

lemma sample_request_parses:
  assumes "100 \<le> now" "now < 4000"
  shows "parse_enrollment_request sample_crypto sample_x509 sample_request now = Ok (sample_csr 1, sample_csr 2)"
proof -
  have a: "\<not> sat_add now 300 < 100"
    using order_trans [OF assms(1) sat_add_ge [of now 300]] by (simp add: not_less)
  have b: "\<not> MAX_REQUEST_AGE_SECS < sat_sub now 100"
    using assms unfolding word_less_nat_alt word_le_nat_alt unat_sat_sub by (simp add: MAX_REQUEST_AGE_SECS_def)
  have d: "rq_spki (sample_csr 1) \<noteq> rq_spki (sample_csr 2)"
    by (simp add: sample_csr_def)
  show ?thesis
    unfolding parse_enrollment_request_def sample_request_fields sample_hex_simps sample_nonce
    using a b d by (simp add: sample_travel_id sample_csr_valid bail_if_def)
qed

lemma sample_x509_ok: "x509_ok sample_x509"
  by (auto simp: x509_ok_def sample_x509_def certificate_names_def sample_leaf_params_def)

lemma sample_ca_in_force: "ca_in_force sample_x509 ''m'' now" "ca_in_force sample_x509 ''b'' now"
  unfolding ca_in_force_def by (intro exI [of _ "[[9]]"]; simp add: sample_x509_def)+

lemma sample_sha256_ok: "sha256_ok sample_crypto"
  by (simp add: sha256_ok_def)

text \<open>The two authorities of the sample deployment, by id and key.\<close>

definition sample_authority_of :: "string \<Rightarrow> byte \<Rightarrow> trusted_travel_authority \<Rightarrow> bool" where
  "sample_authority_of i k x \<longleftrightarrow> i = ''issuer'' \<and> k = 5 \<and> x = sample_authority 5 \<or> i = ''global'' \<and> k = 4 \<and> x = sample_global"

lemma sample_authority_fields:
  "sample_authority_of i k x \<Longrightarrow> authority_id x = i \<and> authority_epoch x = 1 \<and> authority_public_key x = sample_key k \<and> i \<noteq> []"
  by (auto simp: sample_authority_of_def authority_defs sample_authority_def sample_global_def)

lemma sample_enrollment_authority:
  "sample_authority_of i k x \<Longrightarrow>
     enrollment_authority sample_crypto J sample_trust None (sample_enrollment_approval i scope) now = Ok x"
  by (simp add: enrollment_authority_def sample_authorities_valid)
    (auto simp: sample_enrollment_approval_def sample_authority_of_def authority_id_def sample_authority_def sample_global_def)

lemma sample_issues:
  assumes x: "sample_authority_of i k x"
  shows "issue_enrollment (sample_enroll_env i scope) rnd (sample_enrollment_approval i scope) (sample_material k) 150 = Ok (sample_response i k scope)"
proof -
  have q: "parse_enrollment_request sample_crypto sample_x509 sample_request 150 = Ok (sample_csr 1, sample_csr 2)"
    by (rule sample_request_parses) simp_all
  have v: "validate_approval sample_crypto sample_x509 (sample_enrollment_approval i scope) 150 = Ok ()"
    by (simp add: validate_approval_def sample_enrollment_approval_def ENROLLMENT_VERSION_def q
        validate_validity_interval_def MAX_VALID_SECS_def MAX_VALID_DAYS_def eval_simps sample_authority_fields [OF x])
  have t: "trust_verify sample_crypto (one_json sample_trust) sample_signed_trust (sample_key 3) 150 = Ok sample_trust"
    by (rule sample_trust_verifies) simp_all
  have ca: "load_ca_issuer sample_x509 (Ok ''m'') (Ok []) = Ok (''m'', [])"
    "load_ca_issuer sample_x509 (Ok ''b'') (Ok []) = Ok (''b'', [])"
    by (simp_all add: load_ca_issuer_def) (simp_all add: sample_x509_def)
  have p: "exact_leaf_params sample_x509 ''phone'' 100 4000 = Ok sample_leaf_params"
    by (simp add: exact_leaf_params_def sample_x509_def sample_leaf_params_def)
  have s: "sign_leaf sample_x509 ca k sample_leaf_params [1] r = Some ''M''"
    "sign_leaf sample_x509 ca k sample_leaf_params [2] r = Some ''B''" for ca k r
    by (simp_all add: sample_x509_def)
  have c: "expected_credential (sample_enroll_env i scope) (sample_enrollment_approval i scope)
      \<lparr>cb_signed_trust = sample_signed_trust, cb_trust = sample_trust, cb_authority = x,
       cb_management_certificate_pem = ''M'', cb_business_certificate_pem = ''B''\<rparr>
      (spki_pin sample_crypto [1]) (spki_pin sample_crypto [2]) = Ok (sample_issued_credential i scope)"
    by (simp add: expected_credential_def trust_payload_digest_def sha256_json_def certificate_sha256_def
        certificate_from_pem_def sample_signed_trust_def unhex_tohex spki_pin_def sha256_hex_def sample_digest_def
        sample_issued_credential_def sample_enrollment_approval_def sample_trust_def sample_request_def
        sample_authority_fields [OF x] TRAVEL_CREDENTIAL_VERSION_def TRAVEL_CREDENTIAL_OBJECT_TYPE_def)
  have k: "eq_ignore_ascii_case (tohex (4 # replicate 64 k)) (authority_public_key x)"
    by (simp add: sample_authority_fields [OF x]) (simp add: sample_key_def)
  have f: "ea_not_before_unix_secs (sample_enrollment_approval i scope) = 100" "ea_not_after_unix_secs (sample_enrollment_approval i scope) = 4000"
    "ea_request (sample_enrollment_approval i scope) = sample_request" "er_travel_id sample_request = ''phone''"
    "dt_not_before_unix_secs sample_trust = 50" "dt_not_after_unix_secs sample_trust = 9000"
    "dt_management_ca_certificate_pem sample_trust = ''m''" "dt_business_ca_certificate_pem sample_trust = ''b''"
    "im_management_ca_certificate (sample_material k) = Ok ''m''" "im_business_ca_certificate (sample_material k) = Ok ''b''"
    "im_management_ca_key (sample_material k) = Ok []" "im_business_ca_key (sample_material k) = Ok []"
    "rq_spki (sample_csr 1) = [1]" "rq_spki (sample_csr 2) = [2]" "tc_authority_id (sample_issued_credential i scope) = i"
    by (simp_all add: sample_enrollment_approval_def sample_request_def sample_trust_def sample_material_def
        sample_csr_def sample_issued_credential_def)
  show ?thesis
    using v t q ca p s c k
    by (simp add: issue_enrollment_def sample_enrollment_authority [OF x] bail_if_def f sample_response_def ENROLLMENT_VERSION_def)
qed



section \<open>Directed enrollment\<close>

lemma business_response_validateD:
  assumes "business_response_validate E r root now = Ok (c, t)"
  obtains request_sha256 where
    "validate_enrollment_response E (bp_response r) root now = Ok (c, t)"
    "ea_request (es_approval (bp_response r)) = br_request (bp_request r)"
    "json_digest (en_crypto E) (en_business_request E) (bp_request r) = Ok request_sha256"
    "approval_verify (en_crypto E) (en_codecs E) (bp_approval r) t (es_home_endpoint_credential (bp_response r))
       (br_descriptor (bp_request r)) request_sha256 (es_signed_credential (bp_response r)) now = Ok c"
  using assms by (auto simp: business_response_validate_def Let_def)

lemma issue_business_travelD:
  assumes "issue_business_travel E rnd q a m now = Ok r"
  obtains t a' limit c t' where
    "trust_verify (en_crypto E) (en_trust E) (im_deployment_trust m) (im_root_public_key m) now = Ok t"
    "narrow_approval (en_crypto E) (j_endpoint (en_codecs E)) t (im_home_endpoint m) limit now a = Ok a'"
    "issue_enrollment E rnd a' m now = Ok (bp_response r)" "bp_request r = q" "ea_request a = br_request q"
    "business_response_validate E r (im_root_public_key m) now = Ok (c, t')"
  using assms by (auto simp: issue_business_travel_def Let_def)

lemma narrow_approval_Ok:
  assumes "narrow_approval C JE t endpoint limit now a = Ok a'"
  shows "ea_not_after_unix_secs a' \<le> ea_not_after_unix_secs a" "ea_not_before_unix_secs a \<le> ea_not_before_unix_secs a'"
    "ea_credential_id a' = ea_credential_id a" "ea_request a' = ea_request a" "ea_scope a' = ea_scope a"
  using assms by (auto simp: narrow_approval_def min_le_iff_disj split: option.splits)

lemma issue_keeps_approval: "issue_enrollment E rnd a m now = Ok r \<Longrightarrow> es_approval r = a"
  by (auto simp: issue_enrollment_def Let_def)

lemma approval_verify_service:
  assumes "approval_verify C JS s t issuer d req cred now = Ok c"
  obtains g svc where "grant_verify C (j_endpoint JS) (j_grant JS) (bd_grant d) t (bd_endpoint d) now = Ok g"
    "svc \<in> set (hsg_services g)" "tc_scope c = ScopeService (hsg_home_id g) (bd_service_id d) (bs_protocol svc)"
    "bs_service_id svc = bd_service_id d" "tc_not_after_unix_secs c \<le> hsg_not_after_unix_secs g"
proof -
  obtain target where d: "descriptor_verify C (j_endpoint JS) (j_grant JS) d t now = Ok target"
    and w: "tc_not_after_unix_secs c \<le> vbd_not_after_unix_secs target"
    and sc: "tc_scope c = ScopeService (vbd_home_id target) (bs_service_id (vbd_service target))
       (bs_protocol (vbd_service target))"
    using assms by (rule approval_verifyD) (rule that)
  then show ?thesis
    using descriptor_verifyD(1) [OF d] that by auto
qed

text \<open>C31: a directed enrollment issues exactly what was asked for: the response repeats the request, both of its
  proofs validate for one and the same credential, that credential opens only the service the descriptor names at
  the Home whose signed grant lists it, it is bound to this request, and it is valid neither longer nor
  earlier than the approval, and not longer than the grant.\<close>

theorem directed_issue_exact:
  assumes "issue_business_travel E rnd q a m now = Ok r"
  shows "bp_request r = q \<and> (\<exists>c t g svc. business_response_validate E r (im_root_public_key m) now = Ok (c, t)
     \<and> validate_enrollment_response E (bp_response r) (im_root_public_key m) now = Ok (c, t)
     \<and> grant_verify (en_crypto E) (j_endpoint (en_codecs E)) (j_grant (en_codecs E)) (bd_grant (br_descriptor q)) t
         (bd_endpoint (br_descriptor q)) now = Ok g
     \<and> svc \<in> set (hsg_services g) \<and> bs_service_id svc = bd_service_id (br_descriptor q)
     \<and> tc_scope c = ScopeService (hsg_home_id g) (bd_service_id (br_descriptor q)) (bs_protocol svc)
     \<and> tc_credential_id c = ea_credential_id a \<and> tc_travel_id c = er_travel_id (br_request q)
     \<and> sha256_json (en_crypto E) (en_request E) (br_request q) = Ok (tc_enrollment_request_sha256 c)
     \<and> ea_not_before_unix_secs a \<le> tc_not_before_unix_secs c
     \<and> tc_not_after_unix_secs c \<le> ea_not_after_unix_secs a
     \<and> tc_not_after_unix_secs c \<le> hsg_not_after_unix_secs g)"
proof -
  obtain t a' limit c t' where
    n: "narrow_approval (en_crypto E) (j_endpoint (en_codecs E)) t (im_home_endpoint m) limit now a = Ok a'"
    and i: "issue_enrollment E rnd a' m now = Ok (bp_response r)" and q: "bp_request r = q" "ea_request a = br_request q"
    and v: "business_response_validate E r (im_root_public_key m) now = Ok (c, t')"
    using assms by (rule issue_business_travelD) (rule that)
  obtain sha where e: "validate_enrollment_response E (bp_response r) (im_root_public_key m) now = Ok (c, t')"
    and p: "approval_verify (en_crypto E) (en_codecs E) (bp_approval r) t' (es_home_endpoint_credential (bp_response r))
       (br_descriptor q) sha (es_signed_credential (bp_response r)) now = Ok c"
    using v q(1) by (auto elim: business_response_validateD)
  obtain g svc where g: "grant_verify (en_crypto E) (j_endpoint (en_codecs E)) (j_grant (en_codecs E))
      (bd_grant (br_descriptor q)) t' (bd_endpoint (br_descriptor q)) now = Ok g" "svc \<in> set (hsg_services g)"
    "tc_scope c = ScopeService (hsg_home_id g) (bd_service_id (br_descriptor q)) (bs_protocol svc)"
    "bs_service_id svc = bd_service_id (br_descriptor q)" "tc_not_after_unix_secs c \<le> hsg_not_after_unix_secs g"
    using p by (rule approval_verify_service) (rule that)
  obtain mb bp y where "expected_credential E (es_approval (bp_response r)) mb bp y = Ok c"
    using e by (rule validate_responseD)
  note d = expected_credentialD [OF this, unfolded issue_keeps_approval [OF i] narrow_approval_Ok(3, 4) [OF n] q(2)]
  show ?thesis
    using q(1) v e g d(1, 2, 5, 6, 13) narrow_approval_Ok(1, 2) [OF n] by auto
qed


text \<open>The sample request for one service, issued by the Global authority of \<open>home-1\<close>.\<close>

definition sample_directed_env :: enroll_env where
  "sample_directed_env = sample_enroll_env ''global'' sample_service_scope"

definition sample_directed_response :: business_travel_response where
  "sample_directed_response = \<lparr>bp_version = 1, bp_object_type = ''flowsplice.business_travel_response'',
     bp_request = sample_business_request, bp_response = sample_response ''global'' 4 sample_service_scope,
     bp_approval = sample_signed_approval\<rparr>"

lemma sample_descriptor_verifies:
  "descriptor_verify sample_crypto (one_json (sample_endpoint [])) (one_json sample_grant) sample_descriptor
     sample_trust 150 = Ok \<lparr>vbd_home_id = ''home-2'', vbd_approving_home_id = ''home-1'',
       vbd_service = sample_service, vbd_not_after_unix_secs = 5000\<rparr>"
  by (simp add: descriptor_verify_def sample_descriptor_def sample_grant_verifies business_consts)
    (simp add: sample_grant_def home_enrollment_authority_def sample_trust_def sample_service_def)

lemma sample_global_of: "sample_authority_of ''global'' 4 sample_global"
  by (simp add: sample_authority_of_def)

lemma sample_directed_approval_valid: "approval_validate sample_crypto sample_directed_approval = Ok ()"
  by (simp add: approval_validate_def sample_directed_approval_def sample_approval_def business_consts digit_val_def)

lemma sample_credential_global:
  "credential_verify sample_crypto (one_json (sample_issued_credential ''global'' sample_service_scope))
     (es_signed_credential (sample_response ''global'' 4 sample_service_scope)) sample_global
     = Ok (sample_issued_credential ''global'' sample_service_scope)"
proof -
  have v: "credential_validate sample_crypto (sample_issued_credential ''global'' sample_service_scope) = Ok ()"
    by (simp add: credential_validate_def sample_issued_credential_def sample_service_scope_def sha256_hex_def
        unhex_tohex digit_val_def TRAVEL_CREDENTIAL_VERSION_def TRAVEL_CREDENTIAL_OBJECT_TYPE_def)
  have k: "decode_authority_public_key sample_crypto (authority_public_key sample_global) = Ok (4 # replicate 64 4)"
    by (simp add: sample_authority_fields [OF sample_global_of])
  show ?thesis
    by (simp add: credential_verify_def verify_public_key_def k v sample_response_def unhex_tohex
        sample_authority_fields [OF sample_global_of] bail_if_def)
      (simp add: sample_issued_credential_def sample_global_def)
qed

lemma sample_directed_verifies:
  "approval_verify sample_crypto (en_codecs sample_directed_env) sample_signed_approval sample_trust None
     sample_descriptor sample_digest (es_signed_credential (sample_response ''global'' 4 sample_service_scope)) 150
   = Ok (sample_issued_credential ''global'' sample_service_scope)"
proof -
  have f: "List.find (\<lambda>a. authority_id a = bta_authority_id sample_directed_approval)
      [sample_authority 5, sample_global] = Some sample_global"
    by (simp add: authority_id_def sample_authority_def sample_global_def sample_directed_approval_def sample_approval_def)
  have sg: "verify_signature sample_crypto [7] (tohex [11]) (authority_public_key sample_global) = Ok ()"
    using sample_signature [of 4] by (simp add: authority_public_key_def sample_global_def)
  have p: "stc_payload_hex (es_signed_credential (sample_response i k s)) = tohex [7]" for i k s
    by (simp add: sample_response_def)
  show ?thesis
    by (simp add: approval_verify_def sample_directed_env_def sample_descriptor_verifies sample_directed_approval_valid
        f sample_credential_global sg p sample_authorities_valid issuer_bounds_def sample_signed_approval_def
        del: find.simps)
      (simp add: sample_directed_approval_def sample_approval_def sample_issued_credential_def sample_trust_def
        sample_global_def authority_defs sample_service_def credential_active_at_def sample_service_scope_def)
qed


lemma sample_approval_literal:
  "\<lparr>bta_version = BUSINESS_VERSION, bta_object_type = BUSINESS_APPROVAL_TYPE,
     bta_deployment_id = dt_deployment_id sample_trust, bta_authority_id = authority_id sample_global,
     bta_authority_epoch = authority_epoch sample_global, bta_request_id = er_request_id sample_request,
     bta_request_sha256 = sample_digest, bta_descriptor_sha256 = sample_digest,
     bta_credential_payload_sha256 = sample_digest\<rparr> = sample_directed_approval"
  by (simp add: sample_directed_approval_def sample_approval_def business_consts sample_trust_def
      sample_authority_fields [OF sample_global_of] sample_business_request_def sample_request_fields)

lemma sample_approval_signs:
  "approval_sign sample_crypto (one_json sample_directed_approval) sample_directed_approval [4] rnd = Ok sample_signed_approval"
  by (simp add: approval_sign_def sample_directed_approval_valid business_sign_def encode_payload_def MAX_PAYLOAD_BYTES_def
      bail_if_def sample_signed_approval_def) (simp add: sample_directed_approval_def sample_approval_def)

lemma sample_response_fields:
  "es_home_endpoint_credential (sample_response i k s) = None"
  "es_approval (sample_response i k s) = sample_enrollment_approval i s"
  "stc_authority_id (es_signed_credential (sample_response i k s)) = i"
  "stc_payload_hex (es_signed_credential (sample_response i k s)) = tohex [7]"
  "ea_request (sample_enrollment_approval i s) = sample_request" "ea_scope (sample_enrollment_approval i s) = s"
  "ea_not_before_unix_secs (sample_enrollment_approval i s) = 100" "ea_not_after_unix_secs (sample_enrollment_approval i s) = 4000"
  by (simp_all add: sample_response_def sample_enrollment_approval_def)

lemma sample_directed_response_validates:
  "business_response_validate sample_directed_env sample_directed_response (sample_key 3) 150
     = Ok (sample_issued_credential ''global'' sample_service_scope, sample_trust)"
proof -
  have t: "trust_verify sample_crypto (one_json sample_trust) sample_signed_trust (sample_key 3) 150 = Ok sample_trust"
    by (rule sample_trust_verifies) simp_all
  have s: "authority_validate_scope sample_global sample_service_scope = Ok ()" "scope_validate sample_service_scope = Ok ()"
    by (simp_all add: sample_global_def sample_service_scope_def)
  have ca: "dt_management_ca_certificate_pem sample_trust = ''m''" "dt_business_ca_certificate_pem sample_trust = ''b''"
    by (simp_all add: sample_trust_def)
  note x = sample_enrollment_authority [OF sample_global_of]
  obtain c where c: "validate_enrollment_response sample_directed_env
      (sample_response ''global'' 4 sample_service_scope) (sample_key 3) 150 = Ok (c, sample_trust)"
    using issued_response_validates [OF sample_issues [OF sample_global_of, where scope = sample_service_scope],
      where t = sample_trust and x = sample_global] t s ca x sample_hex_ok sample_hex_case_ok sample_ecdsa_ok
      sample_sha256_ok sample_x509_ok sample_ca_in_force one_json_ok [of "sample_issued_credential ''global'' sample_service_scope"]
    by (auto simp: sample_directed_env_def sample_response_fields)
  obtain y where "enrollment_authority sample_crypto (one_json (sample_endpoint [])) sample_trust None
      (sample_enrollment_approval ''global'' sample_service_scope) 150 = Ok y"
    "credential_verify sample_crypto (one_json (sample_issued_credential ''global'' sample_service_scope))
      (es_signed_credential (sample_response ''global'' 4 sample_service_scope)) y = Ok c"
    using c by (rule validate_responseD) (auto simp: sample_directed_env_def sample_response_fields)
  then have "c = sample_issued_credential ''global'' sample_service_scope"
    using x sample_credential_global by simp
  moreover have "approval_verify sample_crypto (en_codecs sample_directed_env) sample_signed_approval sample_trust
      (es_home_endpoint_credential (bp_response sample_directed_response)) sample_descriptor sample_digest
      (es_signed_credential (bp_response sample_directed_response)) 150
      = Ok (sample_issued_credential ''global'' sample_service_scope)"
    using sample_directed_verifies by (simp add: sample_directed_response_def sample_response_fields)
  ultimately show ?thesis
    using c
    by (simp add: business_response_validate_def sample_directed_response_def validate_kind_def business_consts
        BUSINESS_TRAVEL_RESPONSE_TYPE_def BUSINESS_TRAVEL_REQUEST_TYPE_def sample_business_request_def
        sample_response_fields sample_directed_env_def bail_if_def)
qed

lemma sample_directed_issues:
  "issue_business_travel sample_directed_env rnd sample_business_request
     (sample_enrollment_approval ''global'' sample_service_scope) (sample_material 4) 150 = Ok sample_directed_response"
proof -
  have t: "trust_verify sample_crypto (one_json sample_trust) sample_signed_trust (sample_key 3) 150 = Ok sample_trust"
    by (rule sample_trust_verifies) simp_all
  have q: "parse_enrollment_request sample_crypto sample_x509 sample_request 150 = Ok (sample_csr 1, sample_csr 2)"
    by (rule sample_request_parses) simp_all
  have v: "business_request_validate sample_directed_env sample_business_request sample_trust ''home-1'' 150 = Ok ()"
    by (simp add: business_request_validate_def sample_directed_env_def sample_business_request_def validate_kind_def
        business_consts BUSINESS_TRAVEL_REQUEST_TYPE_def q sample_descriptor_verifies bail_if_def)
  have n: "narrow_approval C J sample_trust None 5000 150 (sample_enrollment_approval i s) = Ok (sample_enrollment_approval i s)" for C J i s
    by (simp add: narrow_approval_def sample_enrollment_approval_def sample_trust_def)
  note i = sample_issues [OF sample_global_of, where scope = sample_service_scope]
  have d: "br_descriptor sample_business_request = sample_descriptor" "bd_approving_home_id sample_descriptor = ''home-1''"
    "br_request sample_business_request = sample_request"
    by (simp_all add: sample_business_request_def sample_descriptor_def)
  have f: "List.find (\<lambda>a. authority_id a = ''global'') [sample_authority 5, sample_global] = Some sample_global"
    by (simp add: authority_id_def sample_authority_def sample_global_def)
  have h: "authority_home_id sample_global = Some ''home-1''"
    by (simp add: authority_home_id_def sample_global_def)
  have sc: "sample_service_scope = ScopeService ''home-2'' (bs_service_id sample_service) (bs_protocol sample_service)"
    by (simp add: sample_service_scope_def sample_service_def)
  have r: "\<lparr>bp_version = BUSINESS_VERSION, bp_object_type = BUSINESS_TRAVEL_RESPONSE_TYPE, bp_request = sample_business_request,
      bp_response = sample_response ''global'' 4 sample_service_scope, bp_approval = sample_signed_approval\<rparr> = sample_directed_response"
    by (simp add: sample_directed_response_def business_consts BUSINESS_TRAVEL_RESPONSE_TYPE_def)
  show ?thesis
    unfolding issue_business_travel_def sample_directed_env_def
    using t v n i f h sample_approval_signs sample_directed_response_validates
    by (simp add: d sample_descriptor_verifies sample_response_fields sc [symmetric] sample_authorities_valid
        load_signing_key_def sample_approval_literal r bail_if_def sample_directed_env_def Let_def del: find.simps)
qed


theorem directed_issue_exact_witness:
  "bp_request sample_directed_response = sample_business_request
   \<and> (\<exists>c t. business_response_validate sample_directed_env sample_directed_response (sample_key 3) 150 = Ok (c, t)
        \<and> tc_scope c = ScopeService ''home-2'' ''ssh'' Tcp)"
proof -
  have "br_descriptor sample_business_request = sample_descriptor"
    by (simp add: sample_business_request_def)
  then show ?thesis
    using directed_issue_exact [OF sample_directed_issues [of "\<lambda>_. []"]] sample_grant_verifies
    by (auto simp: sample_directed_env_def sample_descriptor_def sample_grant_def sample_service_def
        sample_directed_response_validates [unfolded sample_directed_env_def])
qed

section \<open>Authenticity of a response\<close>

lemma sample_response_validates:
  "validate_enrollment_response sample_directed_env (sample_response ''global'' 4 sample_service_scope) (sample_key 3) 150
     = Ok (sample_issued_credential ''global'' sample_service_scope, sample_trust)"
  by (rule business_response_validateD [OF sample_directed_response_validates])
    (simp add: sample_directed_response_def)

text \<open>C24: a validated enrollment response is authentic and confined. Its trust document is signed by the
  deployment root. Its credential is signed by an authority that is in force under that trust, and when that
  is a Home's own authority the credential opens no other Home. The credential names the Travel, the request
  (by id and digest) and the two distinct keys of the request in the response; both certificates are single
  certificates for that Travel, with those keys and the credential's validity, chained to the two authorities
  of the trust document. The validity is current, inside the trust and inside the issuing Home's endpoint
  credential, and at most 3650 days long.\<close>

theorem enrollment_response_authentic:
  assumes "validate_enrollment_response E r root now = Ok (c, t)"
  shows "let C = en_crypto E; X = en_x509 E; q = ea_request (es_approval r) in
     trust_verify C (en_trust E) (es_deployment_trust r) root now = Ok t
     \<and> (\<exists>auths x. travel_authorities_with_home_delegations C (j_endpoint (en_codecs E)) t
            (case es_home_endpoint_credential r of None \<Rightarrow> [] | Some s \<Rightarrow> [s]) = Ok auths \<and> x \<in> set auths
          \<and> credential_verify C (j_credential (en_codecs E)) (es_signed_credential r) x = Ok c
          \<and> (\<forall>f h. x = AuthorityHome f \<and> allows_home c h \<longrightarrow> h = ta_home_id_field f))
     \<and> tc_travel_id c = er_travel_id q \<and> tc_enrollment_request_id c = er_request_id q
     \<and> sha256_json C (en_request E) q = Ok (tc_enrollment_request_sha256 c)
     \<and> (\<exists>m b. csr_from_pem X (er_management_csr_pem q) = Some m \<and> csr_from_pem X (er_business_csr_pem q) = Some b
          \<and> rq_spki m \<noteq> rq_spki b \<and> tc_management_spki_sha256 c = spki_pin C (rq_spki m)
          \<and> tc_business_spki_sha256 c = spki_pin C (rq_spki b))
     \<and> certificate_binds C X (es_management_certificate_pem r) (dt_management_ca_certificate_pem t) c
         (tc_management_spki_sha256 c) now
     \<and> certificate_binds C X (es_business_certificate_pem r) (dt_business_ca_certificate_pem t) c
         (tc_business_spki_sha256 c) now
     \<and> now < tc_not_after_unix_secs c \<and> dt_not_before_unix_secs t \<le> tc_not_before_unix_secs c
     \<and> tc_not_after_unix_secs c \<le> dt_not_after_unix_secs t
     \<and> (\<forall>s e. es_home_endpoint_credential r = Some s \<and> endpoint_verify C (j_endpoint (en_codecs E)) s t now = Ok e
          \<longrightarrow> tc_not_after_unix_secs c \<le> hec_not_after_unix_secs e)
     \<and> unat (tc_not_after_unix_secs c) \<le> unat (tc_not_before_unix_secs c) + 3650 * 86400 + 300"
proof -
  obtain m b x where
    p: "parse_enrollment_request (en_crypto E) (en_x509 E) (ea_request (es_approval r))
       (er_created_at_unix_secs (ea_request (es_approval r))) = Ok (m, b)"
    and i: "validate_validity_interval (es_approval r) = Ok ()" "now < ea_not_after_unix_secs (es_approval r)"
    and t: "trust_verify (en_crypto E) (en_trust E) (es_deployment_trust r) root now = Ok t"
    "dt_not_before_unix_secs t \<le> ea_not_before_unix_secs (es_approval r)"
    "ea_not_after_unix_secs (es_approval r) \<le> dt_not_after_unix_secs t"
    and x: "enrollment_authority (en_crypto E) (j_endpoint (en_codecs E)) t (es_home_endpoint_credential r)
       (es_approval r) now = Ok x"
    and s: "credential_verify (en_crypto E) (j_credential (en_codecs E)) (es_signed_credential r) x = Ok c"
    and c: "expected_credential E (es_approval r)
       \<lparr>cb_signed_trust = es_deployment_trust r, cb_trust = t, cb_authority = x,
        cb_management_certificate_pem = es_management_certificate_pem r,
        cb_business_certificate_pem = es_business_certificate_pem r\<rparr>
       (spki_pin (en_crypto E) (rq_spki m)) (spki_pin (en_crypto E) (rq_spki b)) = Ok c"
    and certs: "certificate_binds (en_crypto E) (en_x509 E) (es_management_certificate_pem r)
       (dt_management_ca_certificate_pem t) c (tc_management_spki_sha256 c) now"
    "certificate_binds (en_crypto E) (en_x509 E) (es_business_certificate_pem r)
       (dt_business_ca_certificate_pem t) c (tc_business_spki_sha256 c) now"
    using assms by (rule validate_responseD) (rule that)
  note d = expected_credentialD [OF c] and q = parse_requestD [OF p] and xd = enrollment_authorityD [OF x]
  have h: "h = ta_home_id_field f" if "x = AuthorityHome f" "allows_home c h" for f h
    using credential_verifyD(5) [OF s] that home_authority_scope(1) by (auto simp: allows_home_def)
  have "sat_sub (ea_not_after_unix_secs (es_approval r)) (ea_not_before_unix_secs (es_approval r)) \<le> MAX_VALID_SECS + 300"
    using i(1) by (simp add: validate_validity_interval_def not_less)
  then have "unat (tc_not_after_unix_secs c) \<le> unat (tc_not_before_unix_secs c) + 3650 * 86400 + 300"
    unfolding word_le_nat_alt unat_sat_sub d(5, 6) by (simp add: MAX_VALID_SECS_def MAX_VALID_DAYS_def)
  moreover have "tc_not_after_unix_secs c \<le> hec_not_after_unix_secs e"
    if "es_home_endpoint_credential r = Some s" "endpoint_verify (en_crypto E) (j_endpoint (en_codecs E)) s t now = Ok e" for s e
    using xd(3) [OF that(1)] that(2) d(6) by auto
  ultimately show ?thesis
    unfolding Let_def
    using t i(2) xd(1) s h certs d(2, 3, 5, 6, 7, 8, 13) q(1, 2, 3) by auto
qed

theorem enrollment_response_authentic_witness:
  "(150 :: u64) < tc_not_after_unix_secs (sample_issued_credential ''global'' sample_service_scope)
   \<and> certificate_binds sample_crypto sample_x509 ''M'' ''m'' (sample_issued_credential ''global'' sample_service_scope)
       (sha256_hex sample_crypto [1]) 150"
proof -
  have "es_management_certificate_pem (sample_response ''global'' 4 sample_service_scope) = ''M''"
    "dt_management_ca_certificate_pem sample_trust = ''m''"
    "tc_management_spki_sha256 (sample_issued_credential ''global'' sample_service_scope) = sha256_hex sample_crypto [1]"
    by (simp_all add: sample_response_def sample_trust_def sample_issued_credential_def)
  then show ?thesis
    using enrollment_response_authentic [OF sample_response_validates]
    by (simp add: Let_def sample_directed_env_def)
qed


section \<open>Installing\<close>

text \<open>An attempt to import a response into a directory, with everything it takes from outside.\<close>

record import_attempt =
  ai_events :: "string \<Rightarrow> create_event"
  ai_request_file :: "enrollment_request res"
  ai_state_file :: "enrollment_state res"
  ai_management_key :: "bytes res"
  ai_business_key :: "bytes res"
  ai_response :: enrollment_response
  ai_now :: u64

definition import_response :: "enroll_env \<Rightarrow> enrollment_response json \<Rightarrow> signed_deployment_trust json \<Rightarrow> string
    \<Rightarrow> import_attempt \<Rightarrow> directory \<Rightarrow> travel_credential res \<times> directory" where
  "import_response E JR JT root a d =
     install_enrollment_response E JR JT (ai_events a) (ai_request_file a) (ai_state_file a) (ai_management_key a)
       (ai_business_key a) (ai_response a) root (ai_now a) d"

definition import_run :: "enroll_env \<Rightarrow> enrollment_response json \<Rightarrow> signed_deployment_trust json \<Rightarrow> string
    \<Rightarrow> import_attempt list \<Rightarrow> directory \<Rightarrow> directory" where
  "import_run E JR JT root attempts d = fold (\<lambda>a d. snd (import_response E JR JT root a d)) attempts d"

lemma write_or_verify_cases:
  assumes "write_or_verify ev name bytes d = (res, d')"
  shows "d \<subseteq>\<^sub>m d'" "d name \<noteq> None \<Longrightarrow> d' = d"
    "res = Ok () \<Longrightarrow> d' name = Some (RegularFile bytes) \<and> (\<forall>n. n \<noteq> name \<longrightarrow> d' n = d n)"
  using assms by (auto simp: write_or_verify_def write_private_file_def map_le_def bail_if_def
      split: create_event.splits option.splits if_splits)

lemma write_all_step:
  assumes "write_all_or_verify ev ((name, contents) # rest) d = (res, d')"
  shows "d' = d \<or> (\<exists>bytes r1 d1. write_or_verify (ev name) name bytes d = (r1, d1)
     \<and> (d' = d1 \<or> write_all_or_verify ev rest d1 = (res, d')))"
  using assms by (auto split: result.splits prod.splits)

lemma write_all_extends: "write_all_or_verify ev files d = (res, d') \<Longrightarrow> d \<subseteq>\<^sub>m d'"
proof (induction files arbitrary: d)
  case (Cons f rest)
  obtain name contents where f: "f = (name, contents)" by (cases f)
  show ?case
    using write_all_step [OF Cons.prems [unfolded f]] Cons.IH write_or_verify_cases(1)
    by (metis map_le_refl map_le_trans)
qed simp

lemma write_all_present: "write_all_or_verify ev files d = (res, d') \<Longrightarrow> fst ` set files \<subseteq> dom d \<Longrightarrow> d' = d"
proof (induction files arbitrary: d)
  case (Cons f rest)
  obtain name contents where f: "f = (name, contents)" by (cases f)
  have "d name \<noteq> None"
    using Cons.prems(2) by (auto simp: f)
  moreover have "fst ` set rest \<subseteq> dom d"
    using Cons.prems(2) by auto
  ultimately show ?case
    using write_all_step [OF Cons.prems(1) [unfolded f]] Cons.IH write_or_verify_cases(2) by metis
qed simp

lemma write_all_Ok:
  assumes "write_all_or_verify ev files d = (Ok (), d')"
  shows "\<forall>f \<in> set files. \<exists>bytes. snd f = Ok bytes \<and> d' (fst f) = Some (RegularFile bytes)"
  using assms
proof (induction ev files d arbitrary: d' rule: write_all_or_verify.induct)
  case (2 ev name contents rest d)
  obtain bytes where b: "contents = Ok bytes"
    using "2.prems" by (cases contents) auto
  obtain res d1 where w: "write_or_verify (ev name) name bytes d = (res, d1)"
    by (cases "write_or_verify (ev name) name bytes d")
  have res: "res = Ok ()" and rest: "write_all_or_verify ev rest d1 = (Ok (), d')"
    using "2.prems" b w by (auto split: result.splits)
  have "d1 name = Some (RegularFile bytes)"
    using write_or_verify_cases(3) [OF w res] by blast
  moreover have "d1 \<subseteq>\<^sub>m d'"
    using write_all_extends [OF rest] .
  ultimately have "d' name = Some (RegularFile bytes)"
    by (auto simp: map_le_def dom_def)
  with "2.IH" [OF b w [symmetric] res rest] b show ?case by auto
qed simp

lemma import_Ok:
  assumes "import_response E JR JT root a d = (Ok c, d')"
  obtains t where "validate_enrollment_response E (ai_response a) root (ai_now a) = Ok (c, t)"
    "write_all_or_verify (ai_events a) (installed_files JR JT (ai_response a) t) d = (Ok (), d')"
proof -
  from assms obtain t res where "validate_enrollment_response E (ai_response a) root (ai_now a) = Ok (c, t)"
    "write_all_or_verify (ai_events a) (installed_files JR JT (ai_response a) t) d = (res, d')" "res = Ok ()"
    by (auto simp: import_response_def install_enrollment_response_def split: result.splits prod.splits)
  then show thesis using that by blast
qed

lemma import_shape:
  assumes "import_response E JR JT root a d = (res, d')"
  shows "d' = d \<or> (\<exists>t r1. write_all_or_verify (ai_events a) (installed_files JR JT (ai_response a) t) d = (r1, d'))"
  using assms by (auto simp: import_response_def install_enrollment_response_def split: result.splits prod.splits)

lemma import_extends: "import_response E JR JT root a d = (res, d') \<Longrightarrow> d \<subseteq>\<^sub>m d'"
  using import_shape write_all_extends by (metis map_le_refl)

lemma import_present:
  assumes "import_response E JR JT root a d = (res, d')" "fst ` set (installed_files JR JT r t) \<subseteq> dom d"
  shows "d' = d"
proof -
  have "fst ` set (installed_files JR JT r' t') = fst ` set (installed_files JR JT r t)" for r' t'
    by (simp add: installed_files_def)
  then show ?thesis
    using import_shape [OF assms(1)] write_all_present assms(2) by metis
qed

text \<open>C34: importing is final. A successful import has validated the response and left exactly its certificates in
  the directory, without changing a file that was there; after it no sequence of further attempts, whatever
  they import and however their writes end, changes any file, and one that succeeds was given the very same
  response.\<close>

theorem installed_identity_final:
  assumes "import_response E JR JT root a d = (Ok c, d1)" and "json_ok JR"
  shows "(\<exists>t. validate_enrollment_response E (ai_response a) root (ai_now a) = Ok (c, t))
     \<and> d \<subseteq>\<^sub>m d1
     \<and> d1 MANAGEMENT_CERT_FILE = Some (RegularFile (as_bytes (es_management_certificate_pem (ai_response a))))
     \<and> d1 BUSINESS_CERT_FILE = Some (RegularFile (as_bytes (es_business_certificate_pem (ai_response a))))
     \<and> (\<forall>attempts. import_run E JR JT root attempts d1 = d1)
     \<and> (\<forall>a' c' d2. import_response E JR JT root a' d1 = (Ok c', d2) \<longrightarrow> ai_response a' = ai_response a)"
proof -
  obtain t where v: "validate_enrollment_response E (ai_response a) root (ai_now a) = Ok (c, t)"
    and w: "write_all_or_verify (ai_events a) (installed_files JR JT (ai_response a) t) d = (Ok (), d1)"
    using assms(1) by (rule import_Ok)
  note f = write_all_Ok [OF w]
  have present: "fst ` set (installed_files JR JT (ai_response a) t) \<subseteq> dom d1"
    using f by (fastforce simp: dom_def)
  have keep: "snd (import_response E JR JT root a' d1) = d1" for a'
    using import_present [OF prod.collapse [symmetric] present] .
  have runs: "import_run E JR JT root attempts d1 = d1" for attempts
    by (induction attempts) (simp_all add: import_run_def keep)
  obtain b where b: "to_vec JR (ai_response a) = Some b" "d1 RESPONSE_FILE = Some (RegularFile b)"
    using f by (auto simp: installed_files_def)
  have same: "ai_response a' = ai_response a" if a': "import_response E JR JT root a' d1 = (Ok c', d2)" for a' c' d2
  proof -
    obtain t' where "write_all_or_verify (ai_events a') (installed_files JR JT (ai_response a') t') d1 = (Ok (), d2)"
      using a' by (rule import_Ok)
    from write_all_Ok [OF this] obtain b' where b': "to_vec JR (ai_response a') = Some b'"
      "d2 RESPONSE_FILE = Some (RegularFile b')"
      by (auto simp: installed_files_def)
    have "d2 = d1"
      using keep [of a'] a' by simp
    then show ?thesis
      using assms(2) b b' unfolding json_ok_def by (metis dir_entry.inject option.inject)
  qed
  have "d1 MANAGEMENT_CERT_FILE = Some (RegularFile (as_bytes (es_management_certificate_pem (ai_response a))))"
    "d1 BUSINESS_CERT_FILE = Some (RegularFile (as_bytes (es_business_certificate_pem (ai_response a))))"
    using f by (auto simp: installed_files_def)
  then show ?thesis
    using v import_extends [OF assms(1)] runs same by blast
qed


definition sample_attempt :: import_attempt where
  "sample_attempt = \<lparr>ai_events = \<lambda>name. CreatesFile, ai_request_file = Ok sample_request,
     ai_state_file = Ok \<lparr>et_version = 1, et_request_id = 12, et_nonce = sample_pin CHR ''2'', et_travel_id = ''phone'',
       et_management_spki_sha256 = sha256_hex sample_crypto [1], et_business_spki_sha256 = sha256_hex sample_crypto [2]\<rparr>,
     ai_management_key = Ok [1], ai_business_key = Ok [2],
     ai_response = sample_response ''global'' 4 sample_service_scope, ai_now = 150\<rparr>"

lemmas file_names = MANAGEMENT_CERT_FILE_def BUSINESS_CERT_FILE_def MANAGEMENT_CA_FILE_def BUSINESS_CA_FILE_def
  RESPONSE_FILE_def DEPLOYMENT_TRUST_FILE_def

lemma sample_attempt_checks:
  "import_response sample_directed_env JR JT (sample_key 3) sample_attempt d
     = (case write_all_or_verify (\<lambda>_. CreatesFile)
          (installed_files JR JT (sample_response ''global'' 4 sample_service_scope) sample_trust) d of
          (Err e, d') \<Rightarrow> (Err e, d') | (Ok _, d') \<Rightarrow> (Ok (sample_issued_credential ''global'' sample_service_scope), d'))"
proof -
  have k: "validate_local_key sample_crypto sample_x509 (Ok [1]) (sha256_hex sample_crypto [1]) = Ok ()"
    "validate_local_key sample_crypto sample_x509 (Ok [2]) (sha256_hex sample_crypto [2]) = Ok ()"
    by (simp_all add: validate_local_key_def spki_pin_def sha256_hex_def) (simp_all add: sample_x509_def)
  have p: "tc_management_spki_sha256 (sample_issued_credential i s) = sha256_hex sample_crypto [1]"
    "tc_business_spki_sha256 (sample_issued_credential i s) = sha256_hex sample_crypto [2]" for i s
    by (simp_all add: sample_issued_credential_def)
  have e: "en_crypto sample_directed_env = sample_crypto" "en_x509 sample_directed_env = sample_x509"
    by (simp_all add: sample_directed_env_def)
  show ?thesis
    by (simp add: import_response_def install_enrollment_response_def sample_attempt_def sample_request_fields
        ENROLLMENT_VERSION_def sample_response_fields sample_response_validates k p e bail_if_def)
qed

lemma sample_attempt_imports:
  "\<exists>d1. import_response sample_directed_env (one_json (sample_response ''global'' 4 sample_service_scope))
     (one_json sample_signed_trust) (sample_key 3) sample_attempt Map.empty
     = (Ok (sample_issued_credential ''global'' sample_service_scope), d1)"
proof -
  have t: "es_deployment_trust (sample_response ''global'' 4 sample_service_scope) = sample_signed_trust"
    by (simp add: sample_response_def)
  have w: "write_or_verify CreatesFile name bytes d = (Ok (), d(name \<mapsto> RegularFile bytes))" if "d name = None" for name bytes d
    using that by (simp add: write_or_verify_def write_private_file_def)
  have "\<exists>d1. write_all_or_verify (\<lambda>_. CreatesFile) (installed_files (one_json (sample_response ''global'' 4 sample_service_scope))
      (one_json sample_signed_trust) (sample_response ''global'' 4 sample_service_scope) sample_trust) Map.empty = (Ok (), d1)"
    by (simp add: installed_files_def t w file_names)
  then show ?thesis
    by (auto simp: sample_attempt_checks)
qed

theorem installed_identity_final_witness:
  "\<exists>d1. import_response sample_directed_env (one_json (sample_response ''global'' 4 sample_service_scope))
      (one_json sample_signed_trust) (sample_key 3) sample_attempt Map.empty
        = (Ok (sample_issued_credential ''global'' sample_service_scope), d1)
     \<and> d1 MANAGEMENT_CERT_FILE = Some (RegularFile (as_bytes ''M''))
     \<and> import_run sample_directed_env (one_json (sample_response ''global'' 4 sample_service_scope))
         (one_json sample_signed_trust) (sample_key 3) [sample_attempt, sample_attempt] d1 = d1"
proof -
  obtain d1 where d1: "import_response sample_directed_env (one_json (sample_response ''global'' 4 sample_service_scope))
      (one_json sample_signed_trust) (sample_key 3) sample_attempt Map.empty
        = (Ok (sample_issued_credential ''global'' sample_service_scope), d1)"
    using sample_attempt_imports by blast
  have "es_management_certificate_pem (ai_response sample_attempt) = ''M''"
    by (simp add: sample_attempt_def sample_response_def)
  with installed_identity_final [OF d1 one_json_ok] d1 show ?thesis by auto
qed

text \<open>A write that stops half-way leaves a file that every later import refuses: after it no import under the same
  trust document succeeds, although nothing had been installed.\<close>

theorem interrupted_import_blocks_retry:
  assumes "import_response E JR JT root a Map.empty = (res, d1)"
    and "validate_enrollment_response E (ai_response a) root (ai_now a) = Ok (c, t)"
    and "d1 MANAGEMENT_CA_FILE = Some (RegularFile (take n (as_bytes (dt_management_ca_certificate_pem t))))"
    and "n < length (dt_management_ca_certificate_pem t)"
    and "validate_enrollment_response E (ai_response a') root (ai_now a') = Ok (c', t')"
    and "dt_management_ca_certificate_pem t' = dt_management_ca_certificate_pem t"
  shows "\<nexists>d'. import_response E JR JT root a' (import_run E JR JT root attempts d1) = (Ok c'', d')"
proof
  assume "\<exists>d'. import_response E JR JT root a' (import_run E JR JT root attempts d1) = (Ok c'', d')"
  then obtain d' where d': "import_response E JR JT root a' (import_run E JR JT root attempts d1) = (Ok c'', d')"
    by blast
  have ext: "d1 \<subseteq>\<^sub>m import_run E JR JT root attempts d" if "d1 \<subseteq>\<^sub>m d" for d
    using that
  proof (induction attempts arbitrary: d)
    case (Cons x xs)
    have "d \<subseteq>\<^sub>m snd (import_response E JR JT root x d)"
      by (rule import_extends [OF prod.collapse [symmetric]])
    with Cons show ?case
      by (auto simp: import_run_def intro: map_le_trans)
  qed (simp add: import_run_def)
  obtain s where s: "validate_enrollment_response E (ai_response a') root (ai_now a') = Ok (c'', s)"
    "write_all_or_verify (ai_events a') (installed_files JR JT (ai_response a') s)
       (import_run E JR JT root attempts d1) = (Ok (), d')"
    using d' by (rule import_Ok)
  have "s = t'" using s(1) assms(5) by simp
  then have "d' MANAGEMENT_CA_FILE = Some (RegularFile (as_bytes (dt_management_ca_certificate_pem t)))"
    using write_all_Ok [OF s(2)] assms(6) by (auto simp: installed_files_def)
  moreover have "d' MANAGEMENT_CA_FILE = d1 MANAGEMENT_CA_FILE"
    using ext [OF map_le_refl] write_all_extends [OF s(2)] assms(3) by (auto simp: map_le_def dom_def)
  ultimately have "take n (as_bytes (dt_management_ca_certificate_pem t)) = as_bytes (dt_management_ca_certificate_pem t)"
    using assms(3) by simp
  then show False
    using assms(4) by (simp add: as_bytes_def take_all_iff)
qed

end
