(* ===== verification/Issuance.thy ===== *)
theory Issuance
  imports Enrollment_Properties State_File
begin

text \<open>
  Issuing of Travel credentials by a Home (\<open>homeagent/src/issuance_ledger.rs\<close> and
  \<open>issue_from_home_with_password\<close> with its helpers in \<open>homeagent/src/main.rs\<close>): the ledger of issued
  enrollments, its file, the decision between a new credential and the one issued before, and revocation.
  Files, clocks, the random source, the answer of the Server and the outcome of a write are arguments. The
  lock of the ledger is held from the lookup to the answer, so an issue is one step; a crash inside it is the
  step in which the rest fails, followed by a restart.
\<close>

section \<open>The ledger\<close>

definition LEDGER_VERSION :: u32 where "LEDGER_VERSION = 1"

record issuance_record =
  ir_request_id :: uuid
  ir_request_sha256 :: string
  ir_authority_id :: string
  ir_scope :: travel_credential_scope
  ir_valid_for_secs :: u64
  ir_enrollment :: response_envelope
  ir_published_generation :: "u64 option"

definition ir_credential_id :: "issuance_record \<Rightarrow> uuid" where
  "ir_credential_id r = ea_credential_id (es_approval (response_of (ir_enrollment r)))"

fun envelope_matches :: "response_envelope \<Rightarrow> request_envelope \<Rightarrow> bool" where
  "envelope_matches (LegacyResponse response) (LegacyRequest q) \<longleftrightarrow> ea_request (es_approval response) = q"
| "envelope_matches (BusinessResponse response) (BusinessRequest q) \<longleftrightarrow> bp_request response = q"
| "envelope_matches (ClassResponse response) (ClassRequest q) \<longleftrightarrow> cp_request response = q"
| "envelope_matches _ _ \<longleftrightarrow> False"

definition matches_request_envelope :: "issuance_record \<Rightarrow> request_envelope \<Rightarrow> bool" where
  "matches_request_envelope r request = envelope_matches (ir_enrollment r) request"

definition matches_intent :: "issuance_record \<Rightarrow> string \<Rightarrow> travel_credential_scope \<Rightarrow> u64 \<Rightarrow> bool" where
  "matches_intent r authority scope valid \<longleftrightarrow>
     ir_authority_id r = authority \<and> ir_scope r = scope \<and> ir_valid_for_secs r = valid"

record ledger_state =
  ls_version :: u32
  ls_records :: "issuance_record list"

record issuance_ledger =
  il_file :: state_file
  il_state :: ledger_state

definition request_fingerprint :: "crypto \<Rightarrow> enrollment_request json \<Rightarrow> enrollment_request \<Rightarrow> string res" where
  "request_fingerprint C J r =
     rbind (ok_or (to_vec J r) (Auth EncodeFailed)) (\<lambda>encoded. Ok (hex_encode C (sha256_digest C encoded)))"

definition record_validate :: "crypto \<Rightarrow> enrollment_request json \<Rightarrow> issuance_record \<Rightarrow> unit res" where
  "record_validate C J r =
     rbind (bail_if (case ir_enrollment r of
          ClassResponse p \<Rightarrow> cr_request (cp_request p) \<noteq> ea_request (es_approval (cp_response p)) | _ \<Rightarrow> False)
        (Ledger LedgerInconsistent)) (\<lambda>_.
     rbind (bail_if (case ir_enrollment r of
          BusinessResponse p \<Rightarrow> br_request (bp_request p) \<noteq> ea_request (es_approval (bp_response p)) | _ \<Rightarrow> False)
        (Ledger LedgerInconsistent)) (\<lambda>_.
     let approval = es_approval (response_of (ir_enrollment r)) in
     rbind (bail_if (ir_request_id r = uuid_nil \<or> length (ir_request_sha256 r) \<noteq> 64 \<or> ir_authority_id r = []
         \<or> ir_valid_for_secs r = 0 \<or> ea_credential_id approval = uuid_nil
         \<or> er_request_id (ea_request approval) \<noteq> ir_request_id r \<or> ea_authority_id approval \<noteq> ir_authority_id r
         \<or> ea_scope approval \<noteq> ir_scope r) (Ledger LedgerInvalidRecord)) (\<lambda>_.
     rbind (request_fingerprint C J (ea_request approval)) (\<lambda>fingerprint.
     bail_if (fingerprint \<noteq> ir_request_sha256 r \<or> ir_published_generation r = Some 0) (Ledger LedgerInvalidRecord)))))"

text \<open>The loop of \<open>validate_state\<close>, with its sets of credential ids and fingerprints and its map of request
  ids.\<close>

fun records_validate :: "crypto \<Rightarrow> enrollment_request json \<Rightarrow> uuid set \<Rightarrow> string set \<Rightarrow> (uuid \<rightharpoonup> string)
    \<Rightarrow> issuance_record list \<Rightarrow> unit res" where
  "records_validate C J ids fingerprints requests [] = Ok ()"
| "records_validate C J ids fingerprints requests (r # rs) =
     rbind (record_validate C J r) (\<lambda>_.
     rbind (bail_if (ir_credential_id r \<in> ids) (Ledger LedgerDuplicateCredential)) (\<lambda>_.
     rbind (bail_if (ir_request_sha256 r \<in> fingerprints) (Ledger LedgerDuplicateRequest)) (\<lambda>_.
     rbind (bail_if (case requests (ir_request_id r) of None \<Rightarrow> False | Some f \<Rightarrow> f \<noteq> ir_request_sha256 r)
         (Ledger RequestIdReused)) (\<lambda>_.
     records_validate C J (insert (ir_credential_id r) ids) (insert (ir_request_sha256 r) fingerprints)
       (requests(ir_request_id r \<mapsto> ir_request_sha256 r)) rs))))"

definition validate_state :: "crypto \<Rightarrow> enrollment_request json \<Rightarrow> ledger_state \<Rightarrow> unit res" where
  "validate_state C J s =
     rbind (bail_if (ls_version s \<noteq> LEDGER_VERSION) (Ledger LedgerVersion)) (\<lambda>_.
     records_validate C J {} {} Map.empty (ls_records s))"

definition ledger_load :: "crypto \<Rightarrow> enrollment_request json \<Rightarrow> ledger_state file_json \<Rightarrow> state_file
    \<Rightarrow> issuance_ledger res" where
  "ledger_load C J F f =
     rbind (case f of None \<Rightarrow> Ok \<lparr>ls_version = LEDGER_VERSION, ls_records = []\<rparr> | Some _ \<Rightarrow> load_json F f) (\<lambda>s.
     rbind (validate_state C J s) (\<lambda>_. Ok \<lparr>il_file = f, il_state = s\<rparr>))"

text \<open>\<open>find\<close>: the id of another request must not come back, and the fingerprint decides.\<close>

definition ledger_find :: "crypto \<Rightarrow> enrollment_request json \<Rightarrow> enrollment_request \<Rightarrow> issuance_ledger
    \<Rightarrow> issuance_record option res" where
  "ledger_find C J request l =
     rbind (request_fingerprint C J request) (\<lambda>fingerprint.
     rbind (for_each (\<lambda>r. bail_if (ir_request_id r = er_request_id request \<and> ir_request_sha256 r \<noteq> fingerprint)
         (Ledger RequestIdReused)) (ls_records (il_state l))) (\<lambda>_.
     Ok (List.find (\<lambda>r. ir_request_sha256 r = fingerprint) (ls_records (il_state l)))))"

text \<open>The same steps as \<open>store_json_atomic\<close>, on a file only its owner can read.\<close>

definition store_private_json_atomic :: "ledger_state file_json \<Rightarrow> store_event \<Rightarrow> state_file \<Rightarrow> ledger_state
    \<Rightarrow> unit res \<times> state_file" where
  "store_private_json_atomic F ev f v =
     (case to_vec_pretty F v of
        None \<Rightarrow> (Err (Auth EncodeFailed), f)
      | Some b \<Rightarrow> (case ev of
            Stored \<Rightarrow> (Ok (), Some (b @ [10]))
          | StoreFails k renamed \<Rightarrow> (Err (Io k), if renamed then Some (b @ [10]) else f)))"

definition ledger_persist :: "ledger_state file_json \<Rightarrow> store_event \<Rightarrow> issuance_ledger \<Rightarrow> unit res \<times> issuance_ledger" where
  "ledger_persist F ev l =
     (let (r, f) = store_private_json_atomic F ev (il_file l) (il_state l) in (r, l\<lparr>il_file := f\<rparr>))"

text \<open>The record is in memory before the write, and stays there when the write fails.\<close>

definition insert_pending :: "crypto \<Rightarrow> enrollment_request json \<Rightarrow> ledger_state file_json \<Rightarrow> store_event
    \<Rightarrow> enrollment_request \<Rightarrow> string \<Rightarrow> travel_credential_scope \<Rightarrow> u64 \<Rightarrow> response_envelope \<Rightarrow> issuance_ledger
    \<Rightarrow> issuance_record res \<times> issuance_ledger" where
  "insert_pending C J F ev request authority scope valid enrollment l =
     (case rbind (ledger_find C J request l) (\<lambda>found.
           rbind (bail_if (found \<noteq> None) (Ledger AlreadyInLedger)) (\<lambda>_.
           rbind (request_fingerprint C J request) (\<lambda>fingerprint.
           let r = \<lparr>ir_request_id = er_request_id request, ir_request_sha256 = fingerprint, ir_authority_id = authority,
             ir_scope = scope, ir_valid_for_secs = valid, ir_enrollment = enrollment, ir_published_generation = None\<rparr>
           in rbind (record_validate C J r) (\<lambda>_. Ok r)))) of
        Err e \<Rightarrow> (Err e, l)
      | Ok r \<Rightarrow>
          (case ledger_persist F ev (l\<lparr>il_state := il_state l\<lparr>ls_records := ls_records (il_state l) @ [r]\<rparr>\<rparr>) of
             (Ok _, l') \<Rightarrow> (Ok r, l') | (Err e, l') \<Rightarrow> (Err e, l')))"

fun set_generation :: "uuid \<Rightarrow> u64 \<Rightarrow> issuance_record list \<Rightarrow> issuance_record list" where
  "set_generation i g [] = []"
| "set_generation i g (r # rs) =
     (if ir_credential_id r = i then r\<lparr>ir_published_generation := Some g\<rparr> # rs else r # set_generation i g rs)"

definition mark_published :: "ledger_state file_json \<Rightarrow> store_event \<Rightarrow> uuid \<Rightarrow> u64 \<Rightarrow> issuance_ledger
    \<Rightarrow> unit res \<times> issuance_ledger" where
  "mark_published F ev i generation l =
     (if generation = 0 then (Err (Ledger LedgerGenerationZero), l)
      else if \<not> list_ex (\<lambda>r. ir_credential_id r = i) (ls_records (il_state l)) then (Err (Ledger NotInLedger), l)
      else ledger_persist F ev (l\<lparr>il_state := il_state l\<lparr>ls_records := set_generation i generation (ls_records (il_state l))\<rparr>\<rparr>))"

section \<open>The issuer\<close>

record signing_authority =
  sig_id :: string
  sig_private_key :: string

record issuer_config =
  icf_home_id :: string
  icf_services :: "service list"
  icf_management_ca_key :: string
  icf_business_ca_key :: string
  icf_home_authority :: signing_authority
  icf_global_authority :: "signing_authority option"
  icf_home_enrollment_authority :: "signing_authority option"
  icf_default_valid_days :: u32
  icf_allow_unencrypted :: bool

text \<open>What the files of the configuration give: the (trimmed) root key, the deployment trust, the two CA
  certificates, and a private key by its path, as \<open>key::load_private_key\<close> decrypts it with the password of the
  operation.\<close>

record home_files =
  hm_root_public_key :: "string res"
  hm_deployment_trust :: "signed_deployment_trust res"
  hm_management_ca :: "string res"
  hm_business_ca :: "string res"
  hm_private_key :: "string \<Rightarrow> bytes res"

definition load_home_trust :: "enroll_env \<Rightarrow> home_files \<Rightarrow> u64 \<Rightarrow> (string \<times> deployment_trust) res" where
  "load_home_trust E files now =
     rbind (hm_root_public_key files) (\<lambda>root.
     rbind (hm_deployment_trust files) (\<lambda>signed_trust.
     rbind (trust_verify (en_crypto E) (en_trust E) signed_trust root now) (\<lambda>trust.
     Ok (root, trust))))"

definition validate_signing_authority :: "issuer_config \<Rightarrow> trusted_travel_authority list \<Rightarrow> signing_authority \<Rightarrow> bool
    \<Rightarrow> unit res" where
  "validate_signing_authority cfg auths sa is_global =
     rbind (ok_or (List.find (\<lambda>x. authority_id x = sig_id sa) auths) (Ledger IssuerUntrusted)) (\<lambda>trusted.
     let correct_kind = (case trusted of AuthorityGlobal _ \<Rightarrow> is_global | AuthorityHome _ \<Rightarrow> \<not> is_global) in
     bail_if (\<not> correct_kind \<or> authority_home_id trusted \<noteq> Some (icf_home_id cfg)) (Ledger IssuerWrongAuthority))"

text \<open>\<open>listen\<close> is the parsed address of the pages: none when it does not parse, else whether it is a loopback
  address; \<open>test_env\<close> whether the environment enables test keys.\<close>

definition validate_issuer_config :: "enroll_env \<Rightarrow> issuer_config \<Rightarrow> home_files \<Rightarrow> signed_home_endpoint_credential option
    \<Rightarrow> bool option \<Rightarrow> bool \<Rightarrow> u64 \<Rightarrow> u64 \<Rightarrow> unit res" where
  "validate_issuer_config E cfg files endpoint listen test_env now1 now2 =
     rbind (ok_or listen (Ledger ListenInvalid)) (\<lambda>loopback.
     rbind (bail_if (\<not> loopback) (Ledger ListenNotLoopback)) (\<lambda>_.
     rbind (bail_if (icf_default_valid_days cfg = 0 \<or> MAX_VALID_DAYS < icf_default_valid_days cfg)
         (Ledger DefaultValidityRange)) (\<lambda>_.
     rbind (load_home_trust E files now1) (\<lambda>(_, trust).
     rbind (hm_management_ca files) (\<lambda>management_ca.
     rbind (if management_ca \<noteq> dt_management_ca_certificate_pem trust then Err (Ledger IssuerCaMismatch)
            else rbind (hm_business_ca files) (\<lambda>business_ca.
              bail_if (business_ca \<noteq> dt_business_ca_certificate_pem trust) (Ledger IssuerCaMismatch))) (\<lambda>_.
     rbind (travel_authorities_with_home_delegations (en_crypto E) (j_endpoint (en_codecs E)) trust
         (case endpoint of None \<Rightarrow> [] | Some s \<Rightarrow> [s])) (\<lambda>auths.
     rbind (validate_signing_authority cfg auths (icf_home_authority cfg) False) (\<lambda>_.
     rbind (case icf_global_authority cfg of
         None \<Rightarrow> Ok ()
       | Some g \<Rightarrow> rbind (validate_signing_authority cfg auths g True) (\<lambda>_.
           bail_if (icf_home_enrollment_authority cfg = None) (Ledger EnrollmentAuthorityMissing))) (\<lambda>_.
     rbind (case icf_home_enrollment_authority cfg of
         None \<Rightarrow> Ok ()
       | Some a \<Rightarrow>
           rbind (ok_or (List.find (\<lambda>x. hea_id x = sig_id a) (dt_home_enrollment_authorities trust))
               (Ledger EnrollmentAuthorityUntrusted)) (\<lambda>trusted.
           let dynamically_global = list_ex (\<lambda>x. case x of AuthorityGlobal d \<Rightarrow> ta_home_id_field d = icf_home_id cfg
                 | AuthorityHome d \<Rightarrow> False) auths in
           bail_if (hea_issuer_home_id trusted \<noteq> icf_home_id cfg \<and> \<not> dynamically_global)
             (Ledger EnrollmentAuthorityForeign))) (\<lambda>_.
     bail_if (icf_allow_unencrypted cfg \<and> \<not> test_env) (Ledger TestKeysDisabled)))))))))))"

definition issuer_key_targets :: "issuer_config \<Rightarrow> (string \<times> string) list" where
  "issuer_key_targets cfg =
     [(''management CA'', icf_management_ca_key cfg), (''business CA'', icf_business_ca_key cfg),
      (''Home authorization'', sig_private_key (icf_home_authority cfg))]
     @ (case icf_global_authority cfg of None \<Rightarrow> [] | Some a \<Rightarrow> [(''global authorization'', sig_private_key a)])
     @ (case icf_home_enrollment_authority cfg of None \<Rightarrow> []
        | Some a \<Rightarrow> [(''Home enrollment authorization'', sig_private_key a)])"

section \<open>Issuing\<close>

definition requested_validity_secs :: "u32 option \<Rightarrow> u32 option \<Rightarrow> u32 \<Rightarrow> u64 res" where
  "requested_validity_secs valid_days valid_minutes default_valid_days =
     rbind (bail_if (valid_days \<noteq> None \<and> valid_minutes \<noteq> None) (Ledger ValidityBoth)) (\<lambda>_.
     (case valid_minutes of
        Some minutes \<Rightarrow>
          rbind (ok_or (checked_mul (ucast minutes) 60) (Ledger MinutesOverflow)) (\<lambda>seconds.
          rbind (bail_if (minutes = 0 \<or> ucast MAX_VALID_DAYS * 24 * 60 * 60 < seconds) (Ledger RequestedValidityRange)) (\<lambda>_.
          Ok seconds))
      | None \<Rightarrow>
          let days = (case valid_days of Some d \<Rightarrow> d | None \<Rightarrow> default_valid_days) in
          rbind (bail_if (days = 0 \<or> MAX_VALID_DAYS < days) (Ledger RequestedValidityRange)) (\<lambda>_.
          Ok (ucast days * 24 * 60 * 60))))"

definition validate_requested_scope :: "issuer_config \<Rightarrow> travel_credential_scope \<Rightarrow> unit res" where
  "validate_requested_scope cfg scope =
     (case scope of
        ScopeServiceClass p q \<Rightarrow> Err (Ledger ClassNeedsRequest)
      | ScopeGlobal \<Rightarrow> bail_if (icf_global_authority cfg = None) (Ledger GlobalMissing)
      | ScopeHome home \<Rightarrow> bail_if (home \<noteq> icf_home_id cfg) (Ledger ScopeRefused)
      | ScopeService home sid proto \<Rightarrow>
          bail_if (home \<noteq> icf_home_id cfg \<or> \<not> list_ex (\<lambda>s. svc_id s = sid \<and> svc_protocol s = proto) (icf_services cfg))
            (Ledger ScopeRefused))"

text \<open>The arguments of one issue: the request and what the user chose, the readings of the clock, the files, the
  authorization the Home works with, whether the permit for sensitive operations is free, the fresh credential
  id and random draws, the answer of \<open>recover_private_key_password_rotation\<close>, the write of a new record, the
  answer of the Server, and the write that marks the record published.\<close>

record issue_args =
  ia_request :: request_envelope
  ia_valid_days :: "u32 option"
  ia_valid_minutes :: "u32 option"
  ia_scope :: travel_credential_scope
  ia_password :: string
  ia_clock :: "nat \<Rightarrow> u64"
  ia_files :: home_files
  ia_endpoint :: "signed_home_endpoint_credential option"
  ia_authorization :: "verified_authorization option"
  ia_permit_free :: bool
  ia_new_id :: uuid
  ia_random :: "nat \<Rightarrow> bytes"
  ia_recover :: "unit res"
  ia_insert_event :: store_event
  ia_answer :: "u64 res"
  ia_mark_event :: store_event

text \<open>The first half of \<open>issue_from_home_with_password\<close>: the authority that signs.\<close>

definition select_authority :: "enroll_env \<Rightarrow> issuer_config \<Rightarrow> issue_args \<Rightarrow> signing_authority res" where
  "select_authority E cfg a =
     (case ia_request a of
        ClassRequest r \<Rightarrow>
          rbind (load_home_trust E (ia_files a) (ia_clock a 0)) (\<lambda>_.
          rbind (class_request_validate E r (icf_home_id cfg) (ia_clock a 1)) (\<lambda>_.
          rbind (bail_if (ia_scope a \<noteq> class_scope (cr_descriptor r)) (Ledger ScopeNotRequested)) (\<lambda>_.
          ok_or (icf_global_authority cfg) (Ledger GlobalMissing))))
      | BusinessRequest r \<Rightarrow>
          rbind (load_home_trust E (ia_files a) (ia_clock a 0)) (\<lambda>(_, trust).
          rbind (business_request_validate E r trust (icf_home_id cfg) (ia_clock a 1)) (\<lambda>_.
          rbind (descriptor_verify (en_crypto E) (j_endpoint (en_codecs E)) (j_grant (en_codecs E)) (br_descriptor r) trust
              (ia_clock a 2)) (\<lambda>target.
          rbind (bail_if (ia_scope a \<noteq> ScopeService (vbd_home_id target) (bs_service_id (vbd_service target))
                   (bs_protocol (vbd_service target))) (Ledger ScopeNotRequested)) (\<lambda>_.
          ok_or (icf_global_authority cfg) (Ledger GlobalMissing)))))
      | LegacyRequest r \<Rightarrow>
          rbind (validate_requested_scope cfg (ia_scope a)) (\<lambda>_.
          (case ia_scope a of
             ScopeGlobal \<Rightarrow> ok_or (icf_global_authority cfg) (Ledger GlobalMissing)
           | ScopeServiceClass p q \<Rightarrow> ok_or (icf_global_authority cfg) (Ledger GlobalMissing)
           | _ \<Rightarrow> Ok (icf_home_authority cfg))))"

definition ensure_record_not_revoked :: "verified_authorization option \<Rightarrow> u64 \<Rightarrow> issuance_record \<Rightarrow> unit res" where
  "ensure_record_not_revoked authorization now r =
     (case authorization of
        None \<Rightarrow> Ok ()
      | Some va \<Rightarrow> bail_if (va_credentials va (ir_credential_id r) \<noteq> None \<and> \<not> is_active va (ir_credential_id r) now)
                    (Ledger RecordInactive))"

text \<open>A new credential: the guards, the approval, the material, the signatures.\<close>

definition issue_new :: "enroll_env \<Rightarrow> issuer_config \<Rightarrow> issue_args \<Rightarrow> signing_authority \<Rightarrow> u64 \<Rightarrow> response_envelope res" where
  "issue_new E cfg a authority valid =
     rbind (bail_if (\<not> ia_permit_free a) (Ledger IssuerBusy)) (\<lambda>_.
     rbind (bail_if (ia_password a = [] \<and> \<not> icf_allow_unencrypted cfg) (Ledger PasswordEmpty)) (\<lambda>_.
     rbind (prepare_enrollment_approval (en_crypto E) (en_x509 E) (enrollment_of (ia_request a)) valid (sig_id authority)
         (ia_scope a) (ia_new_id a) (ia_clock a 3)) (\<lambda>approval.
     rbind (hm_root_public_key (ia_files a)) (\<lambda>root.
     rbind (hm_deployment_trust (ia_files a)) (\<lambda>trust.
     let material = \<lparr>im_deployment_trust = trust, im_root_public_key = root, im_home_endpoint = ia_endpoint a,
       im_management_ca_certificate = hm_management_ca (ia_files a),
       im_management_ca_key = hm_private_key (ia_files a) (icf_management_ca_key cfg),
       im_business_ca_certificate = hm_business_ca (ia_files a),
       im_business_ca_key = hm_private_key (ia_files a) (icf_business_ca_key cfg),
       im_travel_authority_key = hm_private_key (ia_files a) (sig_private_key authority)\<rparr> in
     rbind (ia_recover a) (\<lambda>_.
     (case ia_request a of
        ClassRequest r \<Rightarrow>
          rbind (issue_service_class_travel E (ia_random a) r approval material (ia_clock a 4)) (\<lambda>p. Ok (ClassResponse p))
      | BusinessRequest r \<Rightarrow>
          rbind (issue_business_travel E (ia_random a) r approval material (ia_clock a 4)) (\<lambda>p. Ok (BusinessResponse p))
      | LegacyRequest r \<Rightarrow>
          rbind (issue_enrollment E (ia_random a) approval material (ia_clock a 4)) (\<lambda>p. Ok (LegacyResponse p)))))))))"

text \<open>\<open>publish_enrollment\<close> with \<open>mark_published\<close>; \<open>ia_answer\<close> is what comes back, or why nothing did.\<close>

definition publish_record :: "ledger_state file_json \<Rightarrow> issue_args \<Rightarrow> issuance_record \<Rightarrow> issuance_ledger
    \<Rightarrow> u64 res \<times> issuance_ledger" where
  "publish_record F a r l =
     (case ia_answer a of
        Err e \<Rightarrow> (Err e, l)
      | Ok generation \<Rightarrow>
          (case mark_published F (ia_mark_event a) (ir_credential_id r) generation l of
             (Ok _, l') \<Rightarrow> (Ok generation, l') | (Err e, l') \<Rightarrow> (Err e, l')))"

text \<open>The second half, under the lock of the ledger: the answer (generation, enrollment, reused), the ledger, and
  the record that was sent to the Server.\<close>

definition issue_locked :: "enroll_env \<Rightarrow> issuer_config \<Rightarrow> ledger_state file_json \<Rightarrow> issue_args \<Rightarrow> signing_authority \<Rightarrow> u64
    \<Rightarrow> issuance_ledger \<Rightarrow> (u64 \<times> response_envelope \<times> bool) res \<times> issuance_ledger \<times> issuance_record option" where
  "issue_locked E cfg F a authority valid l =
     (let C = en_crypto E; J = en_request E; request = enrollment_of (ia_request a) in
      case ledger_find C J request l of
        Err e \<Rightarrow> (Err e, l, None)
      | Ok (Some r) \<Rightarrow>
          (case rbind (bail_if (\<not> matches_intent r (sig_id authority) (ia_scope a) valid
                     \<or> \<not> matches_request_envelope r (ia_request a)) (Ledger IntentMismatch)) (\<lambda>_.
                 ensure_record_not_revoked (ia_authorization a) (ia_clock a 5) r) of
             Err e \<Rightarrow> (Err e, l, None)
           | Ok _ \<Rightarrow>
               (case ir_published_generation r of
                  Some generation \<Rightarrow> (Ok (generation, ir_enrollment r, True), l, None)
                | None \<Rightarrow>
                    (case publish_record F a r l of
                       (Ok generation, l') \<Rightarrow> (Ok (generation, ir_enrollment r, True), l', Some r)
                     | (Err e, l') \<Rightarrow> (Err e, l', Some r))))
      | Ok None \<Rightarrow>
          (case issue_new E cfg a authority valid of
             Err e \<Rightarrow> (Err e, l, None)
           | Ok enrollment \<Rightarrow>
               (case insert_pending C J F (ia_insert_event a) request (sig_id authority) (ia_scope a) valid enrollment l of
                  (Err e, l') \<Rightarrow> (Err e, l', None)
                | (Ok r, l') \<Rightarrow>
                    (case publish_record F a r l' of
                       (Ok generation, l'') \<Rightarrow> (Ok (generation, ir_enrollment r, False), l'', Some r)
                     | (Err e, l'') \<Rightarrow> (Err e, l'', Some r)))))"

text \<open>An issuer: its configuration, the file of the ledger and the ledger in memory, none when it could not be
  loaded (the Home does not serve then), and every record it has sent to the Server.\<close>

record issuer_env =
  ie_enroll :: enroll_env
  ie_file_json :: "ledger_state file_json"
  ie_config :: issuer_config

record issuer =
  is_file :: state_file
  is_ledger :: "issuance_ledger option"
  is_published :: "issuance_record list"

definition issue_from_home :: "issuer_env \<Rightarrow> issue_args \<Rightarrow> issuer
    \<Rightarrow> (u64 \<times> response_envelope \<times> bool) res \<times> issuer" where
  "issue_from_home E a s =
     (case rbind (requested_validity_secs (ia_valid_days a) (ia_valid_minutes a) (icf_default_valid_days (ie_config E))) (\<lambda>valid.
           rbind (select_authority (ie_enroll E) (ie_config E) a) (\<lambda>authority.
           rbind (ok_or (is_ledger s) (Ledger NotInLedger)) (\<lambda>l. Ok (valid, authority, l)))) of
        Err e \<Rightarrow> (Err e, s)
      | Ok (valid, authority, l) \<Rightarrow>
          (case issue_locked (ie_enroll E) (ie_config E) (ie_file_json E) a authority valid l of
             (r, l', sent) \<Rightarrow>
               (r, s\<lparr>is_ledger := Some l', is_file := il_file l',
                     is_published := is_published s @ (case sent of None \<Rightarrow> [] | Some x \<Rightarrow> [x])\<rparr>)))"

definition issuer_restart :: "issuer_env \<Rightarrow> issuer \<Rightarrow> issuer" where
  "issuer_restart E s =
     s\<lparr>is_ledger := (case ledger_load (en_crypto (ie_enroll E)) (en_request (ie_enroll E)) (ie_file_json E) (is_file s) of
          Ok l \<Rightarrow> Some l | Err e \<Rightarrow> None)\<rparr>"

text \<open>An issue, an issue in which the process dies, or a restart.\<close>

datatype issuer_op = Issues issue_args | Crashes issue_args | Restarts

fun issuer_step :: "issuer_env \<Rightarrow> issuer_op \<Rightarrow> issuer \<Rightarrow> issuer" where
  "issuer_step E (Issues a) s = snd (issue_from_home E a s)"
| "issuer_step E (Crashes a) s = issuer_restart E (snd (issue_from_home E a s))"
| "issuer_step E Restarts s = issuer_restart E s"

definition issuer_run :: "issuer_env \<Rightarrow> issuer_op list \<Rightarrow> issuer \<Rightarrow> issuer" where
  "issuer_run E ops s = fold (issuer_step E) ops s"

definition issuer_start :: "issuer_env \<Rightarrow> state_file \<Rightarrow> issuer" where
  "issuer_start E f = issuer_restart E \<lparr>is_file = f, is_ledger = None, is_published = []\<rparr>"

section \<open>Revocation by the issuer\<close>

text \<open>\<open>str::trim\<close>, on the characters of a string as chunks of bytes.\<close>

definition char_bytes :: "char \<Rightarrow> nat" where
  "char_bytes c = (if of_char c < (128 :: nat) then 1 else if of_char c < (224 :: nat) then 2
     else if of_char c < (240 :: nat) then 3 else 4)"

fun char_chunks :: "nat \<Rightarrow> string \<Rightarrow> string list" where
  "char_chunks 0 s = []"
| "char_chunks (Suc n) [] = []"
| "char_chunks (Suc n) (c # s) = take (char_bytes c) (c # s) # char_chunks n (drop (char_bytes c) (c # s))"

definition trim :: "string \<Rightarrow> string" where
  "trim s = (let blank = (\<lambda>chunk. list_all white_space (chars_of chunk)) in
     concat (rev (dropWhile blank (rev (dropWhile blank (char_chunks (length s) s))))))"

record revoke_args =
  rv_credential_id :: uuid
  rv_reason :: string
  rv_password :: string
  rv_permit_free :: bool
  rv_files :: home_files
  rv_authorization :: "verified_authorization option"
  rv_answer :: "u64 res"

text \<open>The answer, and the revocation that was sent to the Server.\<close>

definition issuer_revokes :: "issuer_config \<Rightarrow> revoke_args \<Rightarrow> (uuid \<times> string) res" where
  "issuer_revokes cfg a =
     (let reason = trim (rv_reason a) in
      rbind (bail_if (reason = [] \<or> 256 < length reason) (Ledger RevocationReason)) (\<lambda>_.
      rbind (bail_if (\<not> rv_permit_free a) (Ledger IssuerBusy)) (\<lambda>_.
      rbind (bail_if (rv_password a = [] \<and> \<not> icf_allow_unencrypted cfg) (Ledger PasswordEmpty)) (\<lambda>_.
      rbind (ok_or (rv_authorization a) (Ledger IssuerNotSynchronized)) (\<lambda>va.
      rbind (ok_or (va_credentials va (rv_credential_id a)) (Ledger RevokedUnknown)) (\<lambda>credential.
      rbind (if tc_authority_id credential = sig_id (icf_home_authority cfg)
             then Ok (sig_private_key (icf_home_authority cfg))
             else case icf_global_authority cfg of
                 None \<Rightarrow> Err (Ledger RevokedElsewhere)
               | Some g \<Rightarrow> if sig_id g = tc_authority_id credential then Ok (sig_private_key g)
                           else Err (Ledger RevokedElsewhere)) (\<lambda>authority_key.
      rbind (hm_private_key (rv_files a) authority_key) (\<lambda>_.
      Ok (rv_credential_id a, reason)))))))))"

definition issuer_revoke :: "issuer_config \<Rightarrow> revoke_args \<Rightarrow> u64 res \<times> (uuid \<times> string) option" where
  "issuer_revoke cfg a = (case issuer_revokes cfg a of
       Err e \<Rightarrow> (Err e, None)
     | Ok message \<Rightarrow> (rv_answer a, Some message))"

section \<open>One credential per request\<close>

text \<open>A record without the generation of its publication: what identifies an issue.\<close>

definition bare :: "issuance_record \<Rightarrow> issuance_record" where
  "bare r = r\<lparr>ir_published_generation := None\<rparr>"

definition file_records :: "ledger_state file_json \<Rightarrow> state_file \<Rightarrow> issuance_record list" where
  "file_records F f = (case f of None \<Rightarrow> [] | Some _ \<Rightarrow>
     (case load_json F f of Ok st \<Rightarrow> map bare (ls_records st) | Err e \<Rightarrow> []))"

abbreviation ledger_records :: "issuance_ledger \<Rightarrow> issuance_record list" where
  "ledger_records l \<equiv> ls_records (il_state l)"

definition agrees :: "ledger_state file_json \<Rightarrow> issuance_ledger \<Rightarrow> bool" where
  "agrees F l \<longleftrightarrow> file_records F (il_file l) = map bare (ledger_records l)"

definition issue_key :: "issuance_record \<Rightarrow> string \<times> uuid" where
  "issue_key r = (ir_request_sha256 r, ir_credential_id r)"

lemma bare_simps [simp]:
  "ir_request_sha256 (bare r) = ir_request_sha256 r" "ir_authority_id (bare r) = ir_authority_id r"
  "ir_scope (bare r) = ir_scope r" "ir_enrollment (bare r) = ir_enrollment r" "ir_credential_id (bare r) = ir_credential_id r"
  "issue_key (bare r) = issue_key r" "ir_published_generation r = None \<Longrightarrow> bare r = r"
  by (simp_all add: bare_def ir_credential_id_def issue_key_def)

lemma map_bare_key: "map bare xs = map bare ys \<Longrightarrow> map ir_request_sha256 xs = map ir_request_sha256 ys"
  by (metis (no_types, lifting) bare_simps(1) list.map_comp list.map_cong0 comp_apply)

lemma store_private_is_store: "store_private_json_atomic = store_json_atomic"
  by (intro ext) (simp add: store_private_json_atomic_def store_json_atomic_def)

lemma persist_cases:
  assumes "ledger_persist F ev l = (r, l')" and F: "file_json_ok F"
  shows "il_state l' = il_state l" and "r = Ok () \<Longrightarrow> agrees F l'" and "il_file l' = il_file l \<or> agrees F l'"
proof -
  obtain f where f: "store_json_atomic F ev (il_file l) (il_state l) = (r, f)" "l' = l\<lparr>il_file := f\<rparr>"
    using assms(1) by (auto simp: ledger_persist_def store_private_is_store split: prod.splits)
  have some: "load_json F f = Ok (il_state l) \<Longrightarrow> agrees F l'"
    using f(2) by (auto simp: agrees_def file_records_def load_json_def split: option.splits)
  show "il_state l' = il_state l" using f(2) by simp
  show "r = Ok () \<Longrightarrow> agrees F l'" using load_stored [OF F] f(1) some by simp
  show "il_file l' = il_file l \<or> agrees F l'" using store_outcomes [OF f(1) F] some f(2) by auto
qed

lemma set_generation_bare: "map bare (set_generation i g rs) = map bare rs"
  by (induction rs) (simp_all add: bare_def)

text \<open>What happens to the file while the records in memory stay the same but for their generations.\<close>

lemma mark_published_kept:
  assumes "mark_published F ev i g l = (r, l')" "file_json_ok F"
  shows "map bare (ledger_records l') = map bare (ledger_records l)" and "agrees F l \<Longrightarrow> agrees F l'"
    and "il_file l' = il_file l \<or> agrees F l'"
proof -
  let ?l = "l\<lparr>il_state := il_state l\<lparr>ls_records := set_generation i g (ledger_records l)\<rparr>\<rparr>"
  consider "l' = l" | "ledger_persist F ev ?l = (r, l')"
    using assms(1) by (auto simp: mark_published_def split: if_splits)
  hence "map bare (ledger_records l') = map bare (ledger_records l) \<and> (agrees F l \<longrightarrow> agrees F l')
      \<and> (il_file l' = il_file l \<or> agrees F l')"
  proof cases
    case 1
    thus ?thesis by simp
  next
    case 2
    note p = persist_cases [OF 2 assms(2)]
    show ?thesis using p(1,3) by (auto simp: agrees_def set_generation_bare)
  qed
  thus "map bare (ledger_records l') = map bare (ledger_records l)" "agrees F l \<Longrightarrow> agrees F l'"
    "il_file l' = il_file l \<or> agrees F l'" by simp_all
qed

lemma publish_record_kept:
  assumes "publish_record F a r l = (res, l')" "file_json_ok F"
  shows "map bare (ledger_records l') = map bare (ledger_records l)" and "agrees F l \<Longrightarrow> agrees F l'"
    and "il_file l' = il_file l \<or> agrees F l'"
  using assms mark_published_kept [of F "ia_mark_event a" "ir_credential_id r" _ l]
  by (fastforce simp: publish_record_def split: result.splits prod.splits)+

lemma request_fingerprint_total: "(\<exists>f. request_fingerprint C J r = Ok f) \<or> (\<exists>e. request_fingerprint C J r = Err e)"
  by (cases "request_fingerprint C J r") auto

lemma ledger_find_None:
  assumes "ledger_find C J request l = Ok None"
  obtains f where "request_fingerprint C J request = Ok f" "f \<notin> set (map ir_request_sha256 (ledger_records l))"
  using assms by (auto simp: ledger_find_def rbind_eq_Ok find_None_iff)

lemma ledger_find_Some:
  assumes "ledger_find C J request l = Ok (Some r)"
  shows "r \<in> set (ledger_records l)" "request_fingerprint C J request = Ok (ir_request_sha256 r)"
  using assms by (auto simp: ledger_find_def rbind_eq_Ok find_Some_iff)

text \<open>What \<open>insert_pending\<close> can do; a failure after the record was put in memory leaves it there.\<close>

lemma insert_pendingD:
  assumes "insert_pending C J F ev request authority scope valid enrollment l = (res, l')" and F: "file_json_ok F"
  obtains (refused) e where "res = Err e" "l' = l"
  | (added) r where "ledger_records l' = ledger_records l @ [r]" "ls_version (il_state l') = ls_version (il_state l)"
      "ir_request_sha256 r \<notin> set (map ir_request_sha256 (ledger_records l))" "record_validate C J r = Ok ()"
      "request_fingerprint C J request = Ok (ir_request_sha256 r)" "ir_authority_id r = authority" "ir_scope r = scope"
      "ir_enrollment r = enrollment" "ir_published_generation r = None"
      "res = Ok r \<and> agrees F l' \<or> (\<exists>e. res = Err e) \<and> (il_file l' = il_file l \<or> agrees F l')"
proof (cases "rbind (ledger_find C J request l) (\<lambda>found.
           rbind (bail_if (found \<noteq> None) (Ledger AlreadyInLedger)) (\<lambda>_.
           rbind (request_fingerprint C J request) (\<lambda>fingerprint.
           let r = \<lparr>ir_request_id = er_request_id request, ir_request_sha256 = fingerprint, ir_authority_id = authority,
             ir_scope = scope, ir_valid_for_secs = valid, ir_enrollment = enrollment, ir_published_generation = None\<rparr>
           in rbind (record_validate C J r) (\<lambda>_. Ok r))))")
  case (Err e)
  show thesis by (rule refused [of e]) (use assms(1) [unfolded insert_pending_def Err] in simp_all)
next
  case (Ok r)
  let ?l = "l\<lparr>il_state := il_state l\<lparr>ls_records := ledger_records l @ [r]\<rparr>\<rparr>"
  obtain f where f: "ledger_find C J request l = Ok None" "request_fingerprint C J request = Ok f"
    "r = \<lparr>ir_request_id = er_request_id request, ir_request_sha256 = f, ir_authority_id = authority,
             ir_scope = scope, ir_valid_for_secs = valid, ir_enrollment = enrollment, ir_published_generation = None\<rparr>"
    "record_validate C J r = Ok ()"
    using Ok by (auto simp: rbind_eq_Ok Let_def)
  obtain p where p: "ledger_persist F ev ?l = (p, l')" "res = (case p of Ok _ \<Rightarrow> Ok r | Err e \<Rightarrow> Err e)"
    using assms(1) [unfolded insert_pending_def Ok] by (auto split: prod.splits result.splits)
  note c = persist_cases [OF p(1) F]
  have s: "ledger_records l' = ledger_records l @ [r]" "ls_version (il_state l') = ls_version (il_state l)" using c(1) by simp_all
  have fresh: "ir_request_sha256 r \<notin> set (map ir_request_sha256 (ledger_records l))"
    using f(2,3) by (auto intro: ledger_find_None [OF f(1)])
  have e: "res = Ok r \<and> agrees F l' \<or> (\<exists>e. res = Err e) \<and> (il_file l' = il_file l \<or> agrees F l')"
    using p(2) c(2,3) by (cases p) auto
  show thesis using added [OF s fresh f(4)] f(2,3) e by simp
qed

text \<open>What the issuer signs: its own Home's scopes with the Home authority, everything else only with the global
  authority, and a class only for a class request that names this Home.\<close>

definition issued_within :: "issuer_config \<Rightarrow> issuance_record \<Rightarrow> bool" where
  "issued_within cfg r \<longleftrightarrow>
     ea_authority_id (es_approval (response_of (ir_enrollment r))) = ir_authority_id r
     \<and> ea_scope (es_approval (response_of (ir_enrollment r))) = ir_scope r
     \<and> ((ir_authority_id r = sig_id (icf_home_authority cfg)
           \<and> (ir_scope r = ScopeHome (icf_home_id cfg)
              \<or> (\<exists>s \<in> set (icf_services cfg). ir_scope r = ScopeService (icf_home_id cfg) (svc_id s) (svc_protocol s))))
        \<or> (\<exists>g. icf_global_authority cfg = Some g \<and> ir_authority_id r = sig_id g))
     \<and> (\<forall>p q. ir_scope r = ScopeServiceClass p q \<longrightarrow> (\<exists>c. ir_enrollment r = ClassResponse c
           \<and> class_scope (cr_descriptor (cp_request c)) = ir_scope r
           \<and> scd_approving_home_id (cr_descriptor (cp_request c)) = icf_home_id cfg))"

lemma issued_within_bare [simp]: "issued_within cfg (bare r) = issued_within cfg r"
  by (simp add: issued_within_def)

lemma record_validate_approval: "record_validate C J r = Ok () \<Longrightarrow>
    ea_authority_id (es_approval (response_of (ir_enrollment r))) = ir_authority_id r
    \<and> ea_scope (es_approval (response_of (ir_enrollment r))) = ir_scope r"
  by (auto simp: record_validate_def rbind_eq_Ok Let_def)

lemma issue_new_class:
  assumes "issue_new E cfg a authority valid = Ok e" "ia_request a = ClassRequest r"
  obtains c where "e = ClassResponse c" "cp_request c = r"
  using assms by (auto simp: issue_new_def issue_service_class_travel_def rbind_eq_Ok Let_def)

lemma select_authority_within:
  assumes "select_authority E cfg a = Ok authority" "issue_new E cfg a authority valid = Ok (ir_enrollment r)"
    "record_validate C J r = Ok ()" "ir_authority_id r = sig_id authority" "ir_scope r = ia_scope a"
  shows "issued_within cfg r"
proof (cases "ia_request a")
  case (ClassRequest q)
  obtain c where c: "ir_enrollment r = ClassResponse c" "cp_request c = q"
    by (rule issue_new_class [OF assms(2) ClassRequest])
  show ?thesis using assms(1,4,5) record_validate_approval [OF assms(3)] c ClassRequest
    by (auto simp: select_authority_def issued_within_def rbind_eq_Ok class_request_validate_def)
next
  case (BusinessRequest q)
  thus ?thesis using assms(1,4,5) record_validate_approval [OF assms(3)]
    by (auto simp: select_authority_def issued_within_def rbind_eq_Ok)
next
  case (LegacyRequest q)
  thus ?thesis using assms(1,4,5) record_validate_approval [OF assms(3)]
    by (cases "ia_scope a") (auto simp: select_authority_def validate_requested_scope_def issued_within_def
        rbind_eq_Ok list_ex_iff)
qed

subsection \<open>The invariant of a run\<close>

text \<open>Sent once: whatever the ledger in memory is, it has one record for a request; what was sent is in the file,
  with one credential for a request.\<close>

definition sent_once :: "issuer_env \<Rightarrow> issuer \<Rightarrow> bool" where
  "sent_once E s \<longleftrightarrow> single_valued (issue_key ` set (is_published s))
     \<and> bare ` set (is_published s) \<subseteq> set (file_records (ie_file_json E) (is_file s))
     \<and> (\<forall>l. is_ledger s = Some l \<longrightarrow> il_file l = is_file s \<and> distinct (map ir_request_sha256 (ledger_records l)))"

text \<open>The file holds the records of the ledger in memory. This fails only after a failed write of a new record,
  which stays in memory, and holds again after a restart.\<close>

definition ledger_saved :: "issuer_env \<Rightarrow> issuer \<Rightarrow> bool" where
  "ledger_saved E s \<longleftrightarrow> (\<forall>l. is_ledger s = Some l \<longrightarrow> agrees (ie_file_json E) l)"

text \<open>Every issue of the run, crashing or not, begins with a saved ledger.\<close>

fun issues_saved :: "issuer_env \<Rightarrow> issuer_op list \<Rightarrow> issuer \<Rightarrow> bool" where
  "issues_saved E [] s = True"
| "issues_saved E (op # ops) s =
     ((case op of Restarts \<Rightarrow> True | _ \<Rightarrow> ledger_saved E s) \<and> issues_saved E ops (issuer_step E op s))"

text \<open>Within the configuration: what is in memory, in the file and sent.\<close>

definition all_within :: "issuer_env \<Rightarrow> issuer \<Rightarrow> bool" where
  "all_within E s \<longleftrightarrow> (\<forall>r \<in> set (is_published s). issued_within (ie_config E) r)
     \<and> (\<forall>r \<in> set (file_records (ie_file_json E) (is_file s)). issued_within (ie_config E) r)
     \<and> (\<forall>l. is_ledger s = Some l \<longrightarrow> il_file l = is_file s \<and> (\<forall>r \<in> set (ledger_records l). issued_within (ie_config E) r))"

lemma single_valued_keys:
  assumes "distinct (map ir_request_sha256 rs)" "bare ` X \<subseteq> bare ` set rs"
  shows "single_valued (issue_key ` X)"
proof (rule single_valuedI)
  fix f i j assume a: "(f, i) \<in> issue_key ` X" "(f, j) \<in> issue_key ` X"
  have k: "\<exists>r \<in> set rs. issue_key r = k" if "k \<in> issue_key ` X" for k
    using that assms(2) by (metis (no_types, lifting) bare_simps(6) image_iff subsetD)
  obtain r q where "r \<in> set rs" "q \<in> set rs" "issue_key r = (f, i)" "issue_key q = (f, j)"
    using k [OF a(1)] k [OF a(2)] by blast
  thus "i = j" using assms(1) by (auto simp: issue_key_def distinct_map dest: inj_onD)
qed

lemma records_distinct:
  "records_validate C J ids fps reqs rs = Ok () \<Longrightarrow>
    distinct (map ir_request_sha256 rs) \<and> set (map ir_request_sha256 rs) \<inter> fps = {}"
proof (induction rs arbitrary: ids fps reqs)
  case (Cons r rs)
  have "ir_request_sha256 r \<notin> fps" using Cons.prems by (auto simp: rbind_eq_Ok)
  moreover obtain ids' reqs' where "records_validate C J ids' (insert (ir_request_sha256 r) fps) reqs' rs = Ok ()"
    using Cons.prems by (auto simp: rbind_eq_Ok)
  ultimately show ?case using Cons.IH by fastforce
qed simp

lemma ledger_loadD:
  assumes "ledger_load C J F f = Ok l"
  shows "il_file l = f" "agrees F l" "distinct (map ir_request_sha256 (ledger_records l))"
  using assms records_distinct [of C J "{}" "{}" Map.empty "ledger_records l"]
  by (auto simp: ledger_load_def validate_state_def rbind_eq_Ok agrees_def file_records_def load_json_def
      split: option.splits)

lemma restart_saved: "ledger_saved E (issuer_restart E s)"
  using ledger_loadD(2) [where F = "ie_file_json E" and f = "is_file s"]
  by (auto simp: ledger_saved_def issuer_restart_def split: result.splits)

lemma restart_once: "sent_once E s \<Longrightarrow> sent_once E (issuer_restart E s)"
  using ledger_loadD [where F = "ie_file_json E" and f = "is_file s"]
  by (auto simp: sent_once_def issuer_restart_def split: result.splits)

lemma agrees_set: "agrees F l \<Longrightarrow> set (file_records F (il_file l)) = bare ` set (ledger_records l)"
  by (simp add: agrees_def)

lemma restart_within: "all_within E s \<Longrightarrow> all_within E (issuer_restart E s)"
proof -
  assume a: "all_within E s"
  have "issued_within (ie_config E) r" if "ledger_load (en_crypto (ie_enroll E)) (en_request (ie_enroll E)) (ie_file_json E)
      (is_file s) = Ok l" "r \<in> set (ledger_records l)" for l r
    using a that(2) ledger_loadD(1) [OF that(1)] agrees_set [OF ledger_loadD(2) [OF that(1)]]
    by (auto simp: all_within_def)
  with a show ?thesis
    using ledger_loadD(1) by (auto simp: all_within_def issuer_restart_def split: result.splits)
qed

text \<open>How the locked part of an issue ends: nothing new, a known record sent again, a new record written and
  sent, or a new record whose write failed.\<close>

lemma issue_lockedD:
  assumes "issue_locked E cfg F a authority valid l = (res, l', sent)" and F: "file_json_ok F"
  obtains (same) "l' = l" "sent = None"
  | (known) r where "r \<in> set (ledger_records l)" "sent = Some r" "agrees F l \<longrightarrow> agrees F l'"
      "il_file l' = il_file l \<or> agrees F l'" "map bare (ledger_records l') = map bare (ledger_records l)"
  | (new) r where "ir_request_sha256 r \<notin> set (map ir_request_sha256 (ledger_records l))" "sent = Some r \<and> agrees F l'
        \<or> sent = None \<and> (il_file l' = il_file l \<or> agrees F l')"
      "map bare (ledger_records l') = map bare (ledger_records l @ [r])"
      "issue_new E cfg a authority valid = Ok (ir_enrollment r)" "record_validate (en_crypto E) (en_request E) r = Ok ()"
      "ir_authority_id r = sig_id authority" "ir_scope r = ia_scope a"
proof (cases "ledger_find (en_crypto E) (en_request E) (enrollment_of (ia_request a)) l")
  case (Err e)
  thus thesis using assms(1) same by (simp add: issue_locked_def Let_def)
next
  case (Ok found)
  show thesis
  proof (cases found)
    case (Some r)
    note m = ledger_find_Some(1) [OF Ok [unfolded Some]]
    show thesis
    proof (cases "sent")
      case None
      thus thesis using assms(1) Ok Some same
        by (auto simp: issue_locked_def Let_def split: result.splits option.splits prod.splits)
    next
      case (Some q)
      hence "q = r \<and> (\<exists>p. publish_record F a r l = (p, l'))" using assms(1) Ok \<open>found = Some r\<close>
        by (auto simp: issue_locked_def Let_def split: result.splits option.splits prod.splits)
      then obtain p where "publish_record F a r l = (p, l')" by blast
      from publish_record_kept [OF this F] show thesis using known [OF m] Some \<open>q = r \<and> (\<exists>p. publish_record F a r l = (p, l'))\<close> by simp
    qed
  next
    case None
    show thesis
    proof (cases "issue_new E cfg a authority valid")
      case (Err e)
      thus thesis using assms(1) same Ok None by (simp add: issue_locked_def Let_def)
    next
      case e: (Ok enrollment)
      obtain p l1 where i: "insert_pending (en_crypto E) (en_request E) F (ia_insert_event a)
          (enrollment_of (ia_request a)) (sig_id authority) (ia_scope a) valid enrollment l = (p, l1)" by fastforce
      from i F show thesis
      proof (cases rule: insert_pendingD)
        case (refused x)
        thus thesis using assms(1) same Ok None e i by (simp add: issue_locked_def Let_def)
      next
        case (added r)
        note r = added(3,4,6,7)
        show thesis
        proof (cases p)
          case p: (Ok q)
          hence q: "q = r" "agrees F l1" using added(10) by auto
          obtain y where y: "publish_record F a r l1 = (y, l')" "sent = Some r"
            using assms(1) Ok None e i p q(1) by (auto simp: issue_locked_def Let_def split: result.splits prod.splits)
          show thesis using publish_record_kept(1,2) [OF y(1) F] q(2) added y(2) e
            by (intro new [of r]) simp_all
        next
          case p: (Err x)
          hence y: "l' = l1" "sent = None"
            using assms(1) Ok None e i by (auto simp: issue_locked_def Let_def)
          thus thesis using added p e by (intro new [of r]) auto
        qed
      qed
    qed
  qed
qed

lemma issue_from_home_cases:
  assumes "issue_from_home E a s = (res, s')"
  obtains (refused) "s' = s"
  | (locked) l l' authority valid sent where "is_ledger s = Some l" "select_authority (ie_enroll E) (ie_config E) a = Ok authority"
      "issue_locked (ie_enroll E) (ie_config E) (ie_file_json E) a authority valid l = (res, l', sent)"
      "s' = s\<lparr>is_ledger := Some l', is_file := il_file l',
          is_published := is_published s @ (case sent of None \<Rightarrow> [] | Some x \<Rightarrow> [x])\<rparr>"
proof (cases "rbind (requested_validity_secs (ia_valid_days a) (ia_valid_minutes a) (icf_default_valid_days (ie_config E))) (\<lambda>valid.
           rbind (select_authority (ie_enroll E) (ie_config E) a) (\<lambda>authority.
           rbind (ok_or (is_ledger s) (Ledger NotInLedger)) (\<lambda>l. Ok (valid, authority, l))))")
  case (Err e)
  show thesis by (rule refused) (use assms [unfolded issue_from_home_def Err] in simp)
next
  case (Ok x)
  obtain valid authority l where x: "x = (valid, authority, l)" by (cases x)
  obtain r l' sent where i: "issue_locked (ie_enroll E) (ie_config E) (ie_file_json E) a authority valid l
      = (r, l', sent)" by (metis prod.exhaust)
  show thesis by (rule locked [of l authority valid l' sent])
      (use assms [unfolded issue_from_home_def Ok x] Ok x i in \<open>auto simp: rbind_eq_Ok ok_or_Ok\<close>)
qed

text \<open>How an issue changes the records: those in memory keep their order and get at most one new one, which is
  within the configuration and for a new request; what is sent is in memory; the file stays or gets what is in
  memory, and a record that is sent from a saved ledger is saved.\<close>

lemma issue_from_homeD:
  assumes "issue_from_home E a s = (res, s')" and F: "file_json_ok (ie_file_json E)"
  obtains (refused) "s' = s"
  | (locked) l l' rs sent where "is_ledger s = Some l" "is_ledger s' = Some l'" "is_file s' = il_file l'"
      "is_published s' = is_published s @ sent" "map bare (ledger_records l') = map bare (ledger_records l @ rs)"
      "\<forall>r \<in> set rs. issued_within (ie_config E) r"
      "distinct (map ir_request_sha256 (ledger_records l)) \<Longrightarrow> distinct (map ir_request_sha256 (ledger_records l'))"
      "bare ` set sent \<subseteq> bare ` set (ledger_records l')" "il_file l' = il_file l \<or> agrees (ie_file_json E) l'"
      "sent = [] \<or> \<not> agrees (ie_file_json E) l \<or> agrees (ie_file_json E) l'"
  using assms(1)
proof (cases rule: issue_from_home_cases)
  case refused
  then show thesis by (rule that(1))
next
  case (locked l l' authority valid sent)
  let ?sent = "case sent of None \<Rightarrow> [] | Some x \<Rightarrow> [x]"
  have s': "is_ledger s' = Some l'" "is_file s' = il_file l'" "is_published s' = is_published s @ ?sent"
    using locked(4) by simp_all
  note rule = that(2) [OF locked(1) s']
  from locked(3) F show thesis
  proof (cases rule: issue_lockedD)
    case same
    then show thesis by (intro rule [of "[]"]) simp_all
  next
    case (known r)
    have "bare ` set (ledger_records l') = bare ` set (ledger_records l)"
      using arg_cong [OF known(5), of set] by simp
    with known map_bare_key [OF known(5)] show thesis by (intro rule [of "[]"]) auto
  next
    case (new r)
    have m: "bare ` set (ledger_records l') = insert (bare r) (bare ` set (ledger_records l))"
      using arg_cong [OF new(3), of set] by simp
    have w: "issued_within (ie_config E) r" by (rule select_authority_within [OF locked(2) new(4-7)])
    from new(1,2) m w map_bare_key [OF new(3)] show thesis
      by (intro rule [of "[r]"]) (auto simp: new(3))
  qed
qed

lemma issue_once:
  assumes i: "issue_from_home E a s = (res, s')" and F: "file_json_ok (ie_file_json E)"
    and inv: "sent_once E s" and saved: "ledger_saved E s"
  shows "sent_once E s'"
  using i F
proof (cases rule: issue_from_homeD)
  case refused
  with inv show ?thesis by simp
next
  case (locked l l' rs sent)
  let ?F = "ie_file_json E"
  have l: "il_file l = is_file s" "agrees ?F l" "distinct (map ir_request_sha256 (ledger_records l))"
    using inv saved locked(1) by (simp_all add: sent_once_def ledger_saved_def)
  have pub: "bare ` set (is_published s) \<subseteq> bare ` set (ledger_records l)"
    using inv agrees_set [OF l(2)] l(1) by (simp add: sent_once_def)
  have m: "bare ` set (ledger_records l) \<subseteq> bare ` set (ledger_records l')"
    using arg_cong [OF locked(5), of set] by auto
  have sub: "bare ` set (is_published s') \<subseteq> bare ` set (ledger_records l')"
    using pub m locked(4,8) by (auto simp: image_Un)
  have "bare ` set (is_published s') \<subseteq> set (file_records ?F (is_file s'))"
  proof (cases "agrees ?F l'")
    case True
    with sub agrees_set [OF True] locked(3) show ?thesis by simp
  next
    case False
    with locked(9,10) l(2) have "sent = []" "il_file l' = il_file l" by auto
    with inv locked(3,4) l(1) show ?thesis by (simp add: sent_once_def)
  qed
  with single_valued_keys [OF locked(7) [OF l(3)] sub] locked(2,3,7) l(3) show ?thesis
    by (simp add: sent_once_def)
qed

lemma issue_within:
  assumes i: "issue_from_home E a s = (res, s')" and F: "file_json_ok (ie_file_json E)" and inv: "all_within E s"
  shows "all_within E s'"
  using i F
proof (cases rule: issue_from_homeD)
  case refused
  with inv show ?thesis by simp
next
  case (locked l l' rs sent)
  let ?W = "issued_within (ie_config E)"
  have l: "il_file l = is_file s" "\<forall>x \<in> bare ` set (ledger_records l). ?W x"
    using inv locked(1) by (simp_all add: all_within_def)
  have m: "bare ` set (ledger_records l') = bare ` set (ledger_records l) \<union> bare ` set rs"
    using arg_cong [OF locked(5), of set] by auto
  have w: "\<forall>x \<in> bare ` set (ledger_records l'). ?W x"
    unfolding m using l(2) locked(6) by auto
  then have "\<forall>x \<in> bare ` set sent. ?W x" using locked(8) by blast
  moreover have "\<forall>x \<in> set (file_records (ie_file_json E) (is_file s')). ?W x"
    using locked(9)
  proof
    assume "il_file l' = il_file l"
    with inv locked(3) l(1) show ?thesis by (simp add: all_within_def)
  next
    assume "agrees (ie_file_json E) l'"
    from agrees_set [OF this] w locked(3) show ?thesis by simp
  qed
  ultimately show ?thesis using w inv locked(2-4) by (auto simp: all_within_def)
qed

lemma issuer_run_once:
  assumes "file_json_ok (ie_file_json E)"
  shows "sent_once E s \<Longrightarrow> issues_saved E ops s \<Longrightarrow> sent_once E (issuer_run E ops s)"
proof (induction ops arbitrary: s)
  case (Cons op ops)
  have "sent_once E (issuer_step E op s)"
    using Cons.prems issue_once [OF surjective_pairing assms] restart_once by (cases op) auto
  with Cons show ?case by (simp add: issuer_run_def)
qed (simp add: issuer_run_def)

lemma issuer_run_within:
  assumes "file_json_ok (ie_file_json E)"
  shows "all_within E s \<Longrightarrow> all_within E (issuer_run E ops s)"
proof (induction ops arbitrary: s)
  case (Cons op ops)
  have "all_within E (issuer_step E op s)"
    using Cons.prems issue_within [OF surjective_pairing assms] restart_within by (cases op) auto
  with Cons show ?case by (simp add: issuer_run_def)
qed (simp add: issuer_run_def)

section \<open>Properties\<close>

text \<open>C23: A Home issues, fails, crashes and restarts, and every issue begins while the ledger file holds what the
  ledger in memory holds (\<open>issues_saved\<close>: only a failed write of a new record breaks this, until the next
  restart). Then it never sends two different credentials for one enrollment request to the Server, and
  whatever it has sent is in the ledger file, so a later retry finds it. Without the condition both fail: see
  \<open>unsaved_record_published\<close>.\<close>

theorem issuance_once:
  assumes "file_json_ok (ie_file_json E)" and "issues_saved E ops (issuer_start E f)"
    and "s = issuer_run E ops (issuer_start E f)"
  shows "single_valued (issue_key ` set (is_published s))
     \<and> bare ` set (is_published s) \<subseteq> set (file_records (ie_file_json E) (is_file s))"
proof -
  have "sent_once E (issuer_start E f)"
    unfolding issuer_start_def by (rule restart_once) (simp add: sent_once_def)
  from issuer_run_once [OF assms(1) this assms(2)] show ?thesis
    unfolding assms(3) sent_once_def by blast
qed

text \<open>C30: A Home that starts without a ledger file, or with one whose records are within its configuration, only
  ever sends the Server approvals within it, whatever writes fail, crash or succeed: scopes of this Home and its
  configured services under the Home authority, anything else only under the global authority, and a class only
  for a class request that names this Home as approver. The same holds for all that it keeps in the ledger, in
  memory and in the file.\<close>

theorem issuance_confined:
  assumes "file_json_ok (ie_file_json E)" and "s = issuer_run E ops (issuer_start E f)"
    and "\<forall>r \<in> set (file_records (ie_file_json E) f). issued_within (ie_config E) r"
  shows "(\<forall>r \<in> set (is_published s). issued_within (ie_config E) r)
     \<and> (\<forall>r \<in> set (file_records (ie_file_json E) (is_file s)). issued_within (ie_config E) r)
     \<and> (\<forall>l. is_ledger s = Some l \<longrightarrow> (\<forall>r \<in> set (ledger_records l). issued_within (ie_config E) r))"
proof -
  have "all_within E (issuer_start E f)"
    unfolding issuer_start_def by (rule restart_within) (simp add: all_within_def assms(3))
  from issuer_run_within [OF assms(1) this] show ?thesis
    unfolding assms(2) all_within_def by blast
qed

section \<open>Evaluation on a concrete issue\<close>

text \<open>The Home of the sample deployment issues the sample enrollment for itself; the file format knows the ledger
  before and after the publication.\<close>

definition sample_scope :: travel_credential_scope where "sample_scope = ScopeHome ''home-1''"

definition sample_record :: "u64 option \<Rightarrow> issuance_record" where
  "sample_record g = \<lparr>ir_request_id = 12, ir_request_sha256 = sample_digest, ir_authority_id = ''issuer'',
     ir_scope = sample_scope, ir_valid_for_secs = 3600,
     ir_enrollment = LegacyResponse (sample_response ''issuer'' 5 sample_scope), ir_published_generation = g\<rparr>"

definition sample_ledger :: "u64 option \<Rightarrow> ledger_state" where
  "sample_ledger g = \<lparr>ls_version = 1, ls_records = [sample_record g]\<rparr>"

definition sample_ledger_json :: "ledger_state file_json" where
  "sample_ledger_json = \<lparr>to_vec_pretty = (\<lambda>st. if st = sample_ledger None then Some [1]
       else if st = sample_ledger (Some 7) then Some [2] else None),
     parse_file = (\<lambda>b. if b = [1, 10] then Some (sample_ledger None)
       else if b = [2, 10] then Some (sample_ledger (Some 7)) else None)\<rparr>"

definition sample_issuer_config :: issuer_config where
  "sample_issuer_config = \<lparr>icf_home_id = ''home-1'', icf_services = [], icf_management_ca_key = ''mk'',
     icf_business_ca_key = ''bk'', icf_home_authority = \<lparr>sig_id = ''issuer'', sig_private_key = ''ak''\<rparr>,
     icf_global_authority = None, icf_home_enrollment_authority = None, icf_default_valid_days = 365,
     icf_allow_unencrypted = False\<rparr>"

definition sample_issuer_env :: issuer_env where
  "sample_issuer_env = \<lparr>ie_enroll = sample_enroll_env ''issuer'' sample_scope, ie_file_json = sample_ledger_json,
     ie_config = sample_issuer_config\<rparr>"

definition sample_files :: home_files where
  "sample_files = \<lparr>hm_root_public_key = Ok (sample_key 3), hm_deployment_trust = Ok sample_signed_trust,
     hm_management_ca = Ok ''m'', hm_business_ca = Ok ''b'',
     hm_private_key = (\<lambda>p. if p = ''ak'' then Ok [5] else Ok [])\<rparr>"

definition sample_issue :: "store_event \<Rightarrow> u64 res \<Rightarrow> issue_args" where
  "sample_issue ev answer = \<lparr>ia_request = LegacyRequest sample_request, ia_valid_days = None, ia_valid_minutes = Some 60,
     ia_scope = sample_scope, ia_password = ''secret'', ia_clock = (\<lambda>n. if n = 3 then 400 else 150), ia_files = sample_files,
     ia_endpoint = None, ia_authorization = None, ia_permit_free = True, ia_new_id = 11, ia_random = (\<lambda>n. []),
     ia_recover = Ok (), ia_insert_event = ev, ia_answer = answer, ia_mark_event = Stored\<rparr>"

lemma sample_ledger_distinct [simp]: "sample_ledger (Some 7) \<noteq> sample_ledger None" "sample_ledger None \<noteq> sample_ledger (Some 7)"
  by (simp_all add: sample_ledger_def sample_record_def)

lemma sample_ledger_json_ok: "file_json_ok sample_ledger_json"
  by (auto simp: file_json_ok_def sample_ledger_json_def)

lemma sample_issue_sel [simp]:
  "ia_request (sample_issue ev x) = LegacyRequest sample_request" "ia_scope (sample_issue ev x) = sample_scope"
  "ia_authorization (sample_issue ev x) = None" "ia_insert_event (sample_issue ev x) = ev"
  "ia_answer (sample_issue ev x) = x" "ia_mark_event (sample_issue ev x) = Stored"
  "ie_enroll sample_issuer_env = sample_enroll_env ''issuer'' sample_scope" "ie_file_json sample_issuer_env = sample_ledger_json"
  "ie_config sample_issuer_env = sample_issuer_config"
  by (simp_all add: sample_issue_def sample_issuer_env_def)

lemma sample_requested_validity:
  "requested_validity_secs (ia_valid_days (sample_issue ev x)) (ia_valid_minutes (sample_issue ev x)) d = Ok 3600"
  by (simp add: requested_validity_secs_def sample_issue_def bail_if_def checked_mul_def MAX_VALID_DAYS_def)

lemma sample_selects: "select_authority E sample_issuer_config (sample_issue ev x) = Ok (icf_home_authority sample_issuer_config)"
  by (simp add: select_authority_def validate_requested_scope_def sample_scope_def bail_if_def)
    (simp add: sample_issuer_config_def)

lemma sample_home_authority [simp]: "sig_id (icf_home_authority sample_issuer_config) = ''issuer''"
  by (simp add: sample_issuer_config_def)

lemma sample_issue_new:
  "issue_new (sample_enroll_env ''issuer'' sample_scope) sample_issuer_config (sample_issue ev x)
     (icf_home_authority sample_issuer_config) 3600 = Ok (LegacyResponse (sample_response ''issuer'' 5 sample_scope))"
proof -
  let ?a = "sample_issue ev x" and ?m = "\<lparr>im_deployment_trust = sample_signed_trust, im_root_public_key = sample_key 3,
     im_home_endpoint = None, im_management_ca_certificate = Ok ''m'', im_management_ca_key = Ok [],
     im_business_ca_certificate = Ok ''b'', im_business_ca_key = Ok [], im_travel_authority_key = Ok [5]\<rparr>"
  have p: "prepare_enrollment_approval sample_crypto sample_x509 sample_request 3600 ''issuer'' sample_scope 11 400
      = Ok (sample_enrollment_approval ''issuer'' sample_scope)"
    using sample_request_parses [of 400]
    by (simp add: prepare_enrollment_approval_def bail_if_def MAX_VALID_SECS_def MAX_VALID_DAYS_def checked_add_def
        sample_enrollment_approval_def ENROLLMENT_VERSION_def sat_sub_def)
  have s: "sample_authority_of ''issuer'' 5 (sample_authority 5)" by (simp add: sample_authority_of_def)
  have i: "issue_enrollment (sample_enroll_env ''issuer'' sample_scope) (\<lambda>n. []) (sample_enrollment_approval ''issuer'' sample_scope)
      ?m 150 = Ok (sample_response ''issuer'' 5 sample_scope)"
    using sample_issues [OF s, of sample_scope "\<lambda>n. []"] by (simp only: sample_material_def)
  have f: "ia_permit_free ?a" "ia_password ?a \<noteq> []" "ia_new_id ?a = 11" "ia_clock ?a 3 = 400" "ia_clock ?a 4 = 150"
    "ia_files ?a = sample_files" "ia_endpoint ?a = None" "ia_recover ?a = Ok ()" "ia_random ?a = (\<lambda>n. [])"
    "hm_root_public_key sample_files = Ok (sample_key 3)" "hm_deployment_trust sample_files = Ok sample_signed_trust"
    "hm_management_ca sample_files = Ok ''m''" "hm_business_ca sample_files = Ok ''b''"
    "hm_private_key sample_files (icf_management_ca_key sample_issuer_config) = Ok []"
    "hm_private_key sample_files (icf_business_ca_key sample_issuer_config) = Ok []"
    "hm_private_key sample_files (sig_private_key (icf_home_authority sample_issuer_config)) = Ok [5]"
    by (simp_all add: sample_issue_def sample_files_def sample_issuer_config_def)
  show ?thesis by (simp add: issue_new_def f p i bail_if_def)
qed


lemma sample_fingerprint: "request_fingerprint sample_crypto (one_json sample_request) sample_request = Ok sample_digest"
  by (simp add: request_fingerprint_def sample_digest_def)

lemma length_sample_digest: "length sample_digest = 64"
  by (simp add: sample_digest_def length_tohex)

lemma sample_record_valid: "record_validate sample_crypto (one_json sample_request) (sample_record None) = Ok ()"
  using sample_fingerprint length_sample_digest
  by (simp add: record_validate_def sample_record_def sample_response_def sample_enrollment_approval_def bail_if_def
      sample_request_def)

text \<open>Before the first issue, with the record in memory and in the file, and with its publication marked; the
  published records come last.\<close>

definition sample_issuer :: "state_file \<Rightarrow> issuance_record list \<Rightarrow> issuance_record list \<Rightarrow> issuer" where
  "sample_issuer f rs sent = \<lparr>is_file = f, is_ledger = Some \<lparr>il_file = f, il_state = \<lparr>ls_version = 1, ls_records = rs\<rparr>\<rparr>,
     is_published = sent\<rparr>"

lemma sample_starts: "issuer_start sample_issuer_env None = sample_issuer None [] []"
  by (simp add: issuer_start_def issuer_restart_def ledger_load_def validate_state_def LEDGER_VERSION_def bail_if_def
      sample_issuer_def)

lemma sample_restarts:
  "issuer_restart sample_issuer_env (sample_issuer None rs sent) = sample_issuer None [] sent"
  "issuer_restart sample_issuer_env (sample_issuer (Some [1, 10]) rs sent) = sample_issuer (Some [1, 10]) [sample_record None] sent"
  by (simp_all add: issuer_restart_def ledger_load_def validate_state_def LEDGER_VERSION_def bail_if_def sample_issuer_def
      load_json_def sample_ledger_json_def sample_ledger_def sample_record_valid)

lemma sample_inserts:
  "insert_pending sample_crypto (one_json sample_request) sample_ledger_json ev sample_request ''issuer'' sample_scope 3600
       (LegacyResponse (sample_response ''issuer'' 5 sample_scope)) \<lparr>il_file = None, il_state = \<lparr>ls_version = 1, ls_records = []\<rparr>\<rparr>
     = (case store_json_atomic sample_ledger_json ev None (sample_ledger None) of
          (r, f) \<Rightarrow> (rbind r (\<lambda>_. Ok (sample_record None)), \<lparr>il_file = f, il_state = sample_ledger None\<rparr>))"
proof -
  let ?r = "\<lparr>ir_request_id = er_request_id sample_request, ir_request_sha256 = sample_digest, ir_authority_id = ''issuer'',
     ir_scope = sample_scope, ir_valid_for_secs = 3600,
     ir_enrollment = LegacyResponse (sample_response ''issuer'' 5 sample_scope), ir_published_generation = None\<rparr>"
  have r: "?r = sample_record None" by (simp add: sample_record_def sample_request_fields)
  have l: "\<lparr>ls_version = 1, ls_records = [sample_record None]\<rparr> = sample_ledger None" by (simp add: sample_ledger_def)
  show ?thesis
    by (simp add: insert_pending_def ledger_find_def sample_fingerprint r sample_record_valid bail_if_def ledger_persist_def
        store_private_is_store l Let_def split: prod.splits result.splits)
qed

lemma sample_marks:
  "mark_published sample_ledger_json Stored 11 7 \<lparr>il_file = f, il_state = sample_ledger None\<rparr>
     = (Ok (), \<lparr>il_file = Some [2, 10], il_state = sample_ledger (Some 7)\<rparr>)"
proof -
  have i: "ir_credential_id (sample_record None) = 11"
    by (simp add: ir_credential_id_def sample_record_def sample_response_def sample_enrollment_approval_def)
  have g: "(sample_record None)\<lparr>ir_published_generation := Some 7\<rparr> = sample_record (Some 7)" by (simp add: sample_record_def)
  have s: "ls_records (sample_ledger None) = [sample_record None]"
    "(sample_ledger None)\<lparr>ls_records := [sample_record (Some 7)]\<rparr> = sample_ledger (Some 7)" by (simp_all add: sample_ledger_def)
  have w: "store_json_atomic sample_ledger_json Stored f (sample_ledger (Some 7)) = (Ok (), Some [2, 10])"
    by (simp add: store_json_atomic_def sample_ledger_json_def)
  show ?thesis
    by (simp add: mark_published_def i g s ledger_persist_def store_private_is_store w)
qed

text \<open>The first issue, whose answer is lost, and a retry.\<close>

lemma sample_credential_id [simp]: "ir_credential_id (sample_record g) = 11"
  by (simp add: ir_credential_id_def sample_record_def sample_response_def sample_enrollment_approval_def)

lemma sample_first_issue:
  "issue_from_home sample_issuer_env (sample_issue ev (Err e)) (sample_issuer None [] sent) =
     (case store_json_atomic sample_ledger_json ev None (sample_ledger None) of
        (Ok _, f) \<Rightarrow> (Err e, sample_issuer f [sample_record None] (sent @ [sample_record None]))
      | (Err x, f) \<Rightarrow> (Err x, sample_issuer f [sample_record None] sent))"
  by (simp add: issue_from_home_def sample_requested_validity sample_selects sample_issuer_def issue_locked_def Let_def
      ledger_find_def sample_fingerprint sample_issue_new sample_inserts publish_record_def sample_ledger_def
      split: prod.splits result.splits)

lemma sample_retry:
  "issue_from_home sample_issuer_env (sample_issue ev x) (sample_issuer f [sample_record None] sent) =
     (case x of Err e \<Rightarrow> (Err e, sample_issuer f [sample_record None] (sent @ [sample_record None]))
      | Ok g \<Rightarrow> (case mark_published sample_ledger_json Stored 11 g \<lparr>il_file = f, il_state = sample_ledger None\<rparr> of
            (Ok _, l) \<Rightarrow> (Ok (g, ir_enrollment (sample_record None), True),
               \<lparr>is_file = il_file l, is_ledger = Some l, is_published = sent @ [sample_record None]\<rparr>)
          | (Err e, l) \<Rightarrow> (Err e, \<lparr>is_file = il_file l, is_ledger = Some l, is_published = sent @ [sample_record None]\<rparr>)))"
proof -
  have d: "ir_request_id (sample_record None) = er_request_id sample_request" "ir_request_sha256 (sample_record None) = sample_digest"
    "ir_published_generation (sample_record None) = None"
    by (simp_all add: sample_record_def sample_request_fields)
  have fd: "ledger_find sample_crypto (one_json sample_request) sample_request \<lparr>il_file = f, il_state = sample_ledger None\<rparr>
      = Ok (Some (sample_record None))"
    by (simp add: ledger_find_def sample_fingerprint sample_ledger_def d bail_if_def)
  have m: "matches_intent (sample_record None) ''issuer'' sample_scope 3600"
    "matches_request_envelope (sample_record None) (LegacyRequest sample_request)"
    by (simp_all add: matches_intent_def matches_request_envelope_def sample_record_def sample_response_def
        sample_enrollment_approval_def)
  have l: "\<lparr>ls_version = 1, ls_records = [sample_record None]\<rparr> = sample_ledger None" by (simp add: sample_ledger_def)
  show ?thesis
    unfolding sample_issuer_def l
    by (simp add: issue_from_home_def sample_requested_validity sample_selects issue_locked_def Let_def fd m bail_if_def
        ensure_record_not_revoked_def d publish_record_def split: prod.splits result.splits)
qed


text \<open>A Home that crashes while it waits for the Server's answer and then issues again.\<close>

definition sample_issuer_ops :: "issuer_op list" where
  "sample_issuer_ops = [Crashes (sample_issue Stored (Err (Ledger PublicationFailed))), Issues (sample_issue Stored (Ok 7))]"

definition sample_issued :: issuer where
  "sample_issued = \<lparr>is_file = Some [2, 10], is_ledger = Some \<lparr>il_file = Some [2, 10], il_state = sample_ledger (Some 7)\<rparr>,
     is_published = [sample_record None, sample_record None]\<rparr>"

lemma sample_stores: "store_json_atomic sample_ledger_json Stored None (sample_ledger None) = (Ok (), Some [1, 10])"
  by (simp add: store_json_atomic_def sample_ledger_json_def)

lemma sample_issuer_runs:
  "issuer_run sample_issuer_env sample_issuer_ops (issuer_start sample_issuer_env None) = sample_issued"
  by (simp add: issuer_run_def sample_issuer_ops_def sample_starts sample_first_issue sample_stores sample_restarts
      sample_retry sample_marks sample_issued_def)

lemma sample_saved:
  "ledger_saved sample_issuer_env (sample_issuer None [] sent)"
  "ledger_saved sample_issuer_env (sample_issuer (Some [1, 10]) [sample_record None] sent)"
  by (simp_all add: ledger_saved_def agrees_def sample_issuer_def file_records_def load_json_def sample_issuer_env_def
      sample_ledger_json_def sample_ledger_def)

lemma sample_issues_saved: "issues_saved sample_issuer_env sample_issuer_ops (issuer_start sample_issuer_env None)"
  by (simp add: sample_issuer_ops_def sample_starts sample_first_issue sample_stores sample_restarts sample_saved)

theorem issuance_once_witness:
  "issuer_run sample_issuer_env sample_issuer_ops (issuer_start sample_issuer_env None) = sample_issued
   \<and> is_published sample_issued = [sample_record None, sample_record None]
   \<and> single_valued (issue_key ` set (is_published sample_issued))
   \<and> bare ` set (is_published sample_issued) \<subseteq> set (file_records sample_ledger_json (is_file sample_issued))"
  using issuance_once [of sample_issuer_env, OF _ sample_issues_saved refl] sample_ledger_json_ok sample_issuer_runs
  by (simp add: sample_issued_def)

theorem issuance_confined_witness:
  "issuer_run sample_issuer_env sample_issuer_ops (issuer_start sample_issuer_env None) = sample_issued
   \<and> issued_within sample_issuer_config (sample_record None) \<and> ir_scope (sample_record None) = ScopeHome ''home-1''"
  using issuance_confined [of sample_issuer_env, OF _ refl, of None sample_issuer_ops]
    sample_ledger_json_ok sample_issuer_runs
  by (simp add: sample_issued_def file_records_def) (simp add: sample_record_def sample_scope_def)

text \<open>The condition of \<open>issuance_once\<close> is needed: \<open>insert_pending\<close> puts the record in memory before it writes the
  file. When the write fails, a retry finds the record and sends it to the Server although no file holds it; after
  a crash the file does not know the request, and the next issue would sign a second credential for it.\<close>

lemma unsaved_record_published:
  "issuer_run sample_issuer_env
       [Issues (sample_issue (StoreFails OtherIo False) (Err (Ledger PublicationFailed))),
        Crashes (sample_issue (StoreFails OtherIo False) (Err (Ledger PublicationFailed)))]
       (issuer_start sample_issuer_env None) = sample_issuer None [] [sample_record None]
   \<and> ledger_find sample_crypto (one_json sample_request) sample_request \<lparr>il_file = None, il_state = \<lparr>ls_version = 1, ls_records = []\<rparr>\<rparr>
       = Ok None"
proof -
  have w: "store_json_atomic sample_ledger_json (StoreFails OtherIo False) None (sample_ledger None) = (Err (Io OtherIo), None)"
    by (simp add: store_json_atomic_def sample_ledger_json_def)
  show ?thesis
    by (simp add: issuer_run_def sample_starts sample_first_issue w sample_retry sample_restarts ledger_find_def sample_fingerprint)
qed

section \<open>The answer of an issue belongs to its request\<close>

lemma issue_new_business:
  assumes "issue_new E cfg a authority valid = Ok e" "ia_request a = BusinessRequest r"
  obtains c where "e = BusinessResponse c" "bp_request c = r"
  using assms
  by (auto simp: issue_new_def rbind_eq_Ok Let_def issue_business_travel_def)

lemma issue_new_matches:
  assumes "issue_new E cfg a authority valid = Ok e"
  shows "envelope_matches e (ia_request a)"
proof (cases "ia_request a")
  case (ClassRequest r)
  show ?thesis by (rule issue_new_class [OF assms ClassRequest]) (simp add: ClassRequest)
next
  case (BusinessRequest r)
  show ?thesis by (rule issue_new_business [OF assms BusinessRequest]) (simp add: BusinessRequest)
next
  case (LegacyRequest r)
  thus ?thesis using assms
    by (auto simp: issue_new_def rbind_eq_Ok Let_def prepare_enrollment_approval_def dest!: issue_keeps_approval)
qed

lemma insert_pending_enrollment:
  assumes "insert_pending C J F ev request authority scope valid enrollment l = (Ok r, l')"
  shows "ir_enrollment r = enrollment"
  using assms by (auto simp: insert_pending_def rbind_eq_Ok Let_def split: result.splits prod.splits)

lemma issue_locked_matches:
  assumes "issue_locked E cfg F a authority valid l = (Ok (g, e, reused), rest)"
  shows "envelope_matches e (ia_request a)"
proof (cases "ledger_find (en_crypto E) (en_request E) (enrollment_of (ia_request a)) l")
  case (Err x)
  thus ?thesis using assms by (simp add: issue_locked_def Let_def)
next
  case (Ok found)
  show ?thesis
  proof (cases found)
    case None
    obtain enrollment where n: "issue_new E cfg a authority valid = Ok enrollment"
      using assms Ok None by (auto simp: issue_locked_def Let_def split: result.splits)
    obtain p l1 where i: "insert_pending (en_crypto E) (en_request E) F (ia_insert_event a)
          (enrollment_of (ia_request a)) (sig_id authority) (ia_scope a) valid enrollment l = (p, l1)" by fastforce
    obtain r where r: "p = Ok r" "e = ir_enrollment r"
      using assms Ok None n i by (auto simp: issue_locked_def Let_def split: result.splits prod.splits)
    show ?thesis using issue_new_matches [OF n] insert_pending_enrollment [OF i [unfolded r(1)]] r(2) by simp
  next
    case (Some r)
    have "matches_request_envelope r (ia_request a) \<and> e = ir_enrollment r"
      using assms Ok Some
      by (auto simp: issue_locked_def Let_def bail_if_def split: result.splits prod.splits option.splits if_splits)
    thus ?thesis by (simp add: matches_request_envelope_def)
  qed
qed

lemma issue_from_home_matches:
  assumes "issue_from_home E a s = (Ok (g, e, reused), rest)"
  shows "envelope_matches e (ia_request a)"
  using assms issue_locked_matches
  by (fastforce simp: issue_from_home_def split: result.splits prod.splits)

end
