(* ===== verification/Enrollment_Inbox.thy ===== *)
theory Enrollment_Inbox
  imports Issuance
begin

text \<open>
  The enrollment inbox of a Home (\<open>homeagent/src/main.rs\<close>): requests that arrive through the Server, their
  approval with the issuer, the answer to a repeated submission, the acknowledgement of an installation and
  the retention; and the guards of the local pages. A handler runs as a task whose reads and writes of the
  store are separate steps, so tasks interleave between them. A record is written and read back as JSON by
  the store; a write takes effect or changes nothing.
\<close>

section \<open>Records and submissions\<close>

definition REMOTE_ENROLLMENT_VERSION :: u32 where "REMOTE_ENROLLMENT_VERSION = 1"
definition MAX_REMOTE_ENROLLMENT_INBOX_RECORDS :: nat where "MAX_REMOTE_ENROLLMENT_INBOX_RECORDS = 1024"
definition REMOTE_ENROLLMENT_PENDING_RETENTION_SECS :: u64 where
  "REMOTE_ENROLLMENT_PENDING_RETENTION_SECS = 7 * 24 * 60 * 60"
definition REMOTE_ENROLLMENT_INSTALLED_RETENTION_SECS :: u64 where
  "REMOTE_ENROLLMENT_INSTALLED_RETENTION_SECS = 24 * 60 * 60"

record inbox_record =
  nr_version :: u32
  nr_travel_id :: string
  nr_home_id :: string
  nr_received_at_unix_secs :: u64
  nr_request :: request_envelope
  nr_response :: "response_envelope option"
  nr_bootstrap_token_sha256 :: "string option"
  nr_verification_code :: "string option"
  nr_installed_credential_id :: "uuid option"
  nr_installed_at_unix_secs :: "u64 option"

text \<open>The arguments of \<open>persist_remote_enrollment_request\<close>.\<close>

record submission =
  sm_request_id :: uuid
  sm_travel_id :: string
  sm_home_id :: string
  sm_request_json :: bytes
  sm_bootstrap_token :: "bytes option"

record agent_env =
  ag_issuer_env :: issuer_env
  ag_envelope_json :: "request_envelope json"
  ag_home_id :: string
  ag_has_global :: bool

definition ascii_uppercase :: "char \<Rightarrow> char" where
  "ascii_uppercase c = (if of_char c \<in> {97..122 :: nat} then char_of (of_char c - 32 :: nat) else c)"

definition bootstrap_verification_code :: "crypto \<Rightarrow> bytes \<Rightarrow> bytes \<Rightarrow> string" where
  "bootstrap_verification_code C request_json token =
     (let encoded = map ascii_uppercase (hex_encode C (sha256_digest C (request_json @ token))) in
      take 4 encoded @ ''-'' @ take 4 (drop 4 encoded) @ ''-'' @ take 4 (drop 8 encoded))"

text \<open>The checks before the store is touched; \<open>clock n\<close> is the \<open>n\<close>-th reading.\<close>

definition read_submission :: "agent_env \<Rightarrow> home_files \<Rightarrow> (nat \<Rightarrow> u64) \<Rightarrow> submission \<Rightarrow> request_envelope res" where
  "read_submission A files clock s =
     (let E = ie_enroll (ag_issuer_env A) in
      rbind (bail_if (sm_request_id s = uuid_nil \<or> sm_request_json s = [] \<or> 512 * 1024 < length (sm_request_json s))
          (Inbox InboxRequestInvalid)) (\<lambda>_.
      rbind (bail_if (sm_home_id s \<noteq> ag_home_id A) (Inbox InboxOtherHome)) (\<lambda>_.
      rbind (ok_or (from_slice (ag_envelope_json A) (sm_request_json s)) (Inbox InboxRequestInvalid)) (\<lambda>request.
      rbind (bail_if (er_request_id (enrollment_of request) \<noteq> sm_request_id s
          \<or> er_travel_id (enrollment_of request) \<noteq> sm_travel_id s) (Inbox InboxIdentityMismatch)) (\<lambda>_.
      rbind (bail_if (case sm_bootstrap_token s of None \<Rightarrow> False | Some token \<Rightarrow> length token \<noteq> 32) (Inbox InboxTokenLength)) (\<lambda>_.
      rbind (case request of
          ClassRequest r \<Rightarrow>
            rbind (load_home_trust E files (clock 0)) (\<lambda>_.
            rbind (class_request_validate E r (ag_home_id A) (clock 1)) (\<lambda>_.
            bail_if (\<not> ag_has_global A) (Inbox InboxNeedsGlobal)))
        | BusinessRequest r \<Rightarrow>
            rbind (load_home_trust E files (clock 0)) (\<lambda>(_, trust).
            rbind (business_request_validate E r trust (ag_home_id A) (clock 1)) (\<lambda>_.
            bail_if (\<not> ag_has_global A) (Inbox InboxNeedsGlobal)))
        | LegacyRequest r \<Rightarrow> rbind (parse_enrollment_request (en_crypto E) (en_x509 E) r (clock 1)) (\<lambda>_. Ok ())) (\<lambda>_.
      Ok request)))))))"

definition token_sha256 :: "crypto \<Rightarrow> submission \<Rightarrow> string option" where
  "token_sha256 C s = map_option (\<lambda>token. hex_encode C (sha256_digest C token)) (sm_bootstrap_token s)"

definition submitted_record :: "crypto \<Rightarrow> submission \<Rightarrow> request_envelope \<Rightarrow> u64 \<Rightarrow> inbox_record" where
  "submitted_record C s request now =
     \<lparr>nr_version = REMOTE_ENROLLMENT_VERSION, nr_travel_id = sm_travel_id s, nr_home_id = sm_home_id s,
      nr_received_at_unix_secs = now, nr_request = request, nr_response = None,
      nr_bootstrap_token_sha256 = token_sha256 C s,
      nr_verification_code = map_option (bootstrap_verification_code C (sm_request_json s)) (sm_bootstrap_token s),
      nr_installed_credential_id = None, nr_installed_at_unix_secs = None\<rparr>"

text \<open>A record under the id of the submission: its response, if it is of the same request and token.\<close>

definition existing_response :: "crypto \<Rightarrow> submission \<Rightarrow> request_envelope \<Rightarrow> inbox_record \<Rightarrow> response_envelope option res" where
  "existing_response C s request r =
     rbind (bail_if (nr_version r \<noteq> REMOTE_ENROLLMENT_VERSION \<or> nr_travel_id r \<noteq> sm_travel_id s
         \<or> nr_home_id r \<noteq> sm_home_id s \<or> nr_request r \<noteq> request \<or> nr_bootstrap_token_sha256 r \<noteq> token_sha256 C s)
         (Inbox InboxConflict)) (\<lambda>_. Ok (nr_response r))"

definition remote_enrollment_capacity_available :: "nat \<Rightarrow> nat \<Rightarrow> bool" where
  "remote_enrollment_capacity_available current maximum \<longleftrightarrow> current < maximum"

definition remote_enrollment_inbox_expired :: "u64 \<Rightarrow> u64 option \<Rightarrow> u64 \<Rightarrow> bool" where
  "remote_enrollment_inbox_expired received_at installed_at now =
     (case installed_at of
        None \<Rightarrow> REMOTE_ENROLLMENT_PENDING_RETENTION_SECS \<le> sat_sub now received_at
      | Some t \<Rightarrow> REMOTE_ENROLLMENT_INSTALLED_RETENTION_SECS \<le> sat_sub now t)"

text \<open>\<open>acknowledge_remote_enrollment_installed\<close> on the record it reads: nothing to write, or the new record.\<close>

definition acknowledged_record :: "uuid \<Rightarrow> string \<Rightarrow> string \<Rightarrow> uuid \<Rightarrow> u64 \<Rightarrow> inbox_record \<Rightarrow> inbox_record option res" where
  "acknowledged_record request_id travel_id home_id credential_id now r =
     rbind (bail_if (nr_travel_id r \<noteq> travel_id \<or> nr_home_id r \<noteq> home_id) (Inbox InboxAckIdentity)) (\<lambda>_.
     (case nr_installed_credential_id r of
        Some installed \<Rightarrow> rbind (bail_if (installed \<noteq> credential_id) (Inbox InboxAckConflict)) (\<lambda>_. Ok None)
      | None \<Rightarrow>
          rbind (ok_or (nr_response r) (Inbox InboxNotApproved)) (\<lambda>response.
          let a = es_approval (response_of response) in
          rbind (bail_if (er_request_id (ea_request a) \<noteq> request_id \<or> er_travel_id (ea_request a) \<noteq> travel_id
              \<or> ea_credential_id a \<noteq> credential_id) (Inbox InboxCredentialMismatch)) (\<lambda>_.
          Ok (Some (r\<lparr>nr_response := None, nr_verification_code := None,
                 nr_installed_credential_id := Some credential_id, nr_installed_at_unix_secs := Some now\<rparr>))))))"

section \<open>The tasks\<close>

text \<open>What a task does next: look a submission up, count the records and make the new one, issue for the record
  it has read, write a record, or delete the expired ones.\<close>

datatype inbox_task =
    Looking submission request_envelope u64
  | Inserting submission request_envelope u64
  | Issuing uuid inbox_record issue_args
  | Storing uuid inbox_record
  | Deleting "uuid list"

record agent =
  ag_issuer :: issuer
  ag_table :: "(uuid \<times> inbox_record) list"
  ag_tasks :: "inbox_task list"
  ag_answers :: "(submission \<times> response_envelope) list"

definition start_task :: "inbox_task \<Rightarrow> agent \<Rightarrow> agent" where
  "start_task t st = st\<lparr>ag_tasks := ag_tasks st @ [t]\<rparr>"

text \<open>\<open>persist_remote_enrollment_request\<close> up to its first access to the table (its pruning is a task of its own).\<close>

definition submit :: "agent_env \<Rightarrow> home_files \<Rightarrow> (nat \<Rightarrow> u64) \<Rightarrow> submission \<Rightarrow> agent \<Rightarrow> unit res \<times> agent" where
  "submit A files clock s st =
     (case read_submission A files clock s of
        Err e \<Rightarrow> (Err e, st)
      | Ok request \<Rightarrow> (Ok (), start_task (Looking s request (clock 2)) st))"

definition acknowledge_installed :: "agent_env \<Rightarrow> uuid \<Rightarrow> string \<Rightarrow> uuid \<Rightarrow> string \<Rightarrow> u64 \<Rightarrow> agent \<Rightarrow> unit res \<times> agent" where
  "acknowledge_installed A request_id travel_id credential_id home_id now st =
     (case rbind (bail_if (home_id \<noteq> ag_home_id A) (Inbox InboxOtherHome)) (\<lambda>_.
           rbind (ok_or (map_of (ag_table st) request_id) (Inbox InboxUnknown)) (\<lambda>r.
           acknowledged_record request_id travel_id home_id credential_id now r)) of
        Err e \<Rightarrow> (Err e, st)
      | Ok None \<Rightarrow> (Ok (), st)
      | Ok (Some r) \<Rightarrow> (Ok (), start_task (Storing request_id r) st))"

text \<open>\<open>approve_remote_enrollment\<close> up to the issue.\<close>

definition approve_remote_enrollment :: "agent_env \<Rightarrow> uuid \<Rightarrow> issue_args \<Rightarrow> agent \<Rightarrow> unit res \<times> agent" where
  "approve_remote_enrollment A request_id a st =
     (case rbind (ok_or (map_of (ag_table st) request_id) (Inbox InboxUnknown)) (\<lambda>r.
           rbind (bail_if (nr_travel_id r \<noteq> er_travel_id (enrollment_of (nr_request r)) \<or> nr_home_id r \<noteq> ag_home_id A)
             (Inbox InboxBindingInvalid)) (\<lambda>_. Ok r)) of
        Err e \<Rightarrow> (Err e, st)
      | Ok r \<Rightarrow> (Ok (), start_task (Issuing request_id r (a\<lparr>ia_request := nr_request r\<rparr>)) st))"

definition prune_remote_enrollment_inbox :: "u64 \<Rightarrow> agent \<Rightarrow> agent" where
  "prune_remote_enrollment_inbox now st =
     start_task (Deleting (map fst (filter (\<lambda>(i, r). remote_enrollment_inbox_expired (nr_received_at_unix_secs r)
       (nr_installed_at_unix_secs r) now) (ag_table st)))) st"

text \<open>The next access of a task to the store or the issuer; \<open>committed\<close> is whether a write took effect.\<close>

fun run_task :: "agent_env \<Rightarrow> bool \<Rightarrow> inbox_task \<Rightarrow> agent \<Rightarrow> agent" where
  "run_task A committed (Looking s request now) st =
     (case map_of (ag_table st) (sm_request_id s) of
        None \<Rightarrow> start_task (Inserting s request now) st
      | Some r \<Rightarrow> (case existing_response (en_crypto (ie_enroll (ag_issuer_env A))) s request r of
            Ok (Some response) \<Rightarrow> st\<lparr>ag_answers := ag_answers st @ [(s, response)]\<rparr>
          | _ \<Rightarrow> st))"
| "run_task A committed (Inserting s request now) st =
     (if remote_enrollment_capacity_available (length (ag_table st)) MAX_REMOTE_ENROLLMENT_INBOX_RECORDS
      then start_task (Storing (sm_request_id s)
        (submitted_record (en_crypto (ie_enroll (ag_issuer_env A))) s request now)) st
      else st)"
| "run_task A committed (Issuing request_id r a) st =
     (case issue_from_home (ag_issuer_env A) a (ag_issuer st) of
        (Err e, issuer) \<Rightarrow> st\<lparr>ag_issuer := issuer\<rparr>
      | (Ok (generation, enrollment, reused), issuer) \<Rightarrow>
          start_task (Storing request_id (r\<lparr>nr_response := Some enrollment\<rparr>)) (st\<lparr>ag_issuer := issuer\<rparr>))"
| "run_task A committed (Storing request_id r) st =
     (if committed then st\<lparr>ag_table := AList.update request_id r (ag_table st)\<rparr> else st)"
| "run_task A committed (Deleting ids) st =
     (if committed then st\<lparr>ag_table := filter (\<lambda>(i, r). i \<notin> set ids) (ag_table st)\<rparr> else st)"

datatype agent_op =
    Submits home_files "nat \<Rightarrow> u64" submission
  | Acknowledges uuid string uuid string u64
  | Approves uuid issue_args
  | Prunes u64
  | Proceeds nat bool
  | Reboots

fun agent_step :: "agent_env \<Rightarrow> agent_op \<Rightarrow> agent \<Rightarrow> agent" where
  "agent_step A (Submits files clock s) st = snd (submit A files clock s st)"
| "agent_step A (Acknowledges i travel cred home now) st = snd (acknowledge_installed A i travel cred home now st)"
| "agent_step A (Approves i a) st = snd (approve_remote_enrollment A i a st)"
| "agent_step A (Prunes now) st = prune_remote_enrollment_inbox now st"
| "agent_step A (Proceeds n committed) st =
     (if n < length (ag_tasks st)
      then run_task A committed (ag_tasks st ! n) (st\<lparr>ag_tasks := take n (ag_tasks st) @ drop (Suc n) (ag_tasks st)\<rparr>)
      else st)"
| "agent_step A Reboots st = st\<lparr>ag_issuer := issuer_restart (ag_issuer_env A) (ag_issuer st), ag_tasks := []\<rparr>"

definition agent_run :: "agent_env \<Rightarrow> agent_op list \<Rightarrow> agent \<Rightarrow> agent" where
  "agent_run A ops st = fold (agent_step A) ops st"

definition agent_new :: "issuer \<Rightarrow> agent" where
  "agent_new s = \<lparr>ag_issuer = s, ag_table = [], ag_tasks = [], ag_answers = []\<rparr>"

section \<open>The pages\<close>

record 'a paged_response =
  pg_items :: "'a list"
  pg_page :: nat
  pg_page_size :: nat
  pg_total :: nat
  pg_total_pages :: nat

definition DEFAULT_LIST_PAGE_SIZE :: nat where "DEFAULT_LIST_PAGE_SIZE = 20"
definition MAX_LIST_PAGE_SIZE :: nat where "MAX_LIST_PAGE_SIZE = 100"

definition pagination_values :: "nat option \<Rightarrow> nat option \<Rightarrow> (nat \<times> nat) res" where
  "pagination_values page page_size =
     (let p = (case page of None \<Rightarrow> 1 | Some x \<Rightarrow> x); n = (case page_size of None \<Rightarrow> DEFAULT_LIST_PAGE_SIZE | Some x \<Rightarrow> x) in
      rbind (bail_if (p = 0) (Inbox PageInvalid)) (\<lambda>_.
      rbind (bail_if (\<not> (1 \<le> n \<and> n \<le> MAX_LIST_PAGE_SIZE)) (Inbox PageInvalid)) (\<lambda>_.
      Ok (p, n))))"

definition paginate :: "'a list \<Rightarrow> nat \<Rightarrow> nat \<Rightarrow> 'a paged_response" where
  "paginate items page page_size =
     (let total = length items; total_pages = max ((total + page_size - 1) div page_size) 1; p = min page total_pages in
      \<lparr>pg_items = take page_size (drop ((p - 1) * page_size) items), pg_page = p, pg_page_size = page_size,
       pg_total = total, pg_total_pages = total_pages\<rparr>)"

text \<open>A request to the local pages: its method and the headers the guard reads, none when a header is missing or
  not text; \<open>listen\<close> is the parsed address, with whether it is a loopback address and its text.\<close>

datatype http_method = GET | HEAD | OtherMethod

record ui_request =
  ur_method :: http_method
  ur_host :: "string option"
  ur_sec_fetch_site :: "string option"
  ur_origin :: "string option"

definition local_ui_request_allowed :: "ui_request \<Rightarrow> (bool \<times> string) option \<Rightarrow> bool" where
  "local_ui_request_allowed r listen =
     (case listen of
        None \<Rightarrow> False
      | Some (loopback, authority) \<Rightarrow>
          loopback \<and> ur_host r = Some authority
          \<and> (case ur_sec_fetch_site r of None \<Rightarrow> True | Some site \<Rightarrow> site \<in> {''same-origin'', ''none''})
          \<and> (ur_method r \<in> {GET, HEAD} \<or> ur_origin r = Some (''http://'' @ authority)))"

definition pending_records :: "(uuid \<times> inbox_record) list \<Rightarrow> inbox_record list" where
  "pending_records table = filter (\<lambda>r. nr_response r = None \<and> nr_installed_credential_id r = None)
     (sort_key nr_received_at_unix_secs (map snd table))"

section \<open>A response belongs to its request\<close>

definition record_bound :: "uuid \<Rightarrow> inbox_record \<Rightarrow> bool" where
  "record_bound i r \<longleftrightarrow> (\<forall>e. nr_response r = Some e \<longrightarrow> envelope_matches e (nr_request r))"

definition submission_reads :: "agent_env \<Rightarrow> submission \<Rightarrow> request_envelope \<Rightarrow> bool" where
  "submission_reads A s q \<longleftrightarrow> from_slice (ag_envelope_json A) (sm_request_json s) = Some q
     \<and> er_request_id (enrollment_of q) = sm_request_id s \<and> er_travel_id (enrollment_of q) = sm_travel_id s"

fun task_bound :: "agent_env \<Rightarrow> inbox_task \<Rightarrow> bool" where
  "task_bound A (Looking s q now) = submission_reads A s q"
| "task_bound A (Inserting s q now) = submission_reads A s q"
| "task_bound A (Issuing i r a) = (ia_request a = nr_request r)"
| "task_bound A (Storing i r) = record_bound i r"
| "task_bound A (Deleting ids) = True"

definition agent_inv :: "agent_env \<Rightarrow> agent \<Rightarrow> bool" where
  "agent_inv A st \<longleftrightarrow> (\<forall>(i, r) \<in> set (ag_table st). record_bound i r) \<and> (\<forall>t \<in> set (ag_tasks st). task_bound A t)
     \<and> (\<forall>(s, e) \<in> set (ag_answers st). \<exists>q. submission_reads A s q \<and> envelope_matches e q)"

lemma read_submission_reads: "read_submission A files clock s = Ok q \<Longrightarrow> submission_reads A s q"
  by (auto simp: read_submission_def submission_reads_def Let_def rbind_eq_Ok)

lemma acknowledged_bound: "acknowledged_record i travel home cred now r = Ok (Some r') \<Longrightarrow> record_bound i r'"
  by (auto simp: acknowledged_record_def record_bound_def rbind_eq_Ok Let_def split: option.splits)

lemma start_task_inv: "agent_inv A st \<Longrightarrow> task_bound A t \<Longrightarrow> agent_inv A (start_task t st)"
  by (auto simp: agent_inv_def start_task_def)

lemma start_task_answers [simp]: "ag_answers (start_task t st) = ag_answers st" "ag_table (start_task t st) = ag_table st"
  by (simp_all add: start_task_def)

lemma table_record: "agent_inv A st \<Longrightarrow> map_of (ag_table st) i = Some r \<Longrightarrow> record_bound i r"
  by (auto simp: agent_inv_def dest: map_of_SomeD)

lemma set_update_subset: "set (AList.update i r t) \<subseteq> insert (i, r) (set t)"
  by (induction t) auto

lemma run_task_inv:
  assumes inv: "agent_inv A st" and t: "task_bound A t"
  shows "agent_inv A (run_task A committed t st)" and "\<exists>xs. ag_answers (run_task A committed t st) = ag_answers st @ xs"
proof -
  have "agent_inv A (run_task A committed t st) \<and> (\<exists>xs. ag_answers (run_task A committed t st) = ag_answers st @ xs)"
  proof (cases t)
    case (Looking s q now)
    show ?thesis
    proof (cases "map_of (ag_table st) (sm_request_id s)")
      case None
      thus ?thesis using inv t Looking by (simp add: start_task_inv)
    next
      case (Some r)
      have e: "envelope_matches e q" if "existing_response C s q r = Ok (Some e)" for C e
        using that table_record [OF inv Some] by (auto simp: existing_response_def record_bound_def rbind_eq_Ok)
      have a: "agent_inv A (st\<lparr>ag_answers := ag_answers st @ [(s, e)]\<rparr>)" if "existing_response C s q r = Ok (Some e)" for C e
        using inv t Looking e [OF that] by (auto simp: agent_inv_def)
      show ?thesis using inv a Looking Some by (auto split: result.splits option.splits)
    qed
  next
    case (Inserting s q now)
    have "record_bound (sm_request_id s) (submitted_record C s q now)" for C
      by (simp add: record_bound_def submitted_record_def)
    thus ?thesis using inv Inserting by (simp add: start_task_inv)
  next
    case (Issuing i r a)
    obtain res issuer where h: "issue_from_home (ag_issuer_env A) a (ag_issuer st) = (res, issuer)"
      by (metis prod.exhaust)
    have i: "agent_inv A (st\<lparr>ag_issuer := issuer\<rparr>)" using inv by (simp add: agent_inv_def)
    have m: "record_bound i (r\<lparr>nr_response := Some e\<rparr>)" if "res = Ok (g, e, reused)" for g e reused
      using issue_from_home_matches [OF h [unfolded that]] t Issuing by (simp add: record_bound_def)
    show ?thesis using i m Issuing h by (auto simp: start_task_inv split: result.splits prod.splits)
  next
    case (Storing i r)
    have "agent_inv A (st\<lparr>ag_table := AList.update i r (ag_table st)\<rparr>)"
      using inv t Storing set_update_subset [of i r "ag_table st"] by (fastforce simp: agent_inv_def)
    thus ?thesis using inv Storing by simp
  next
    case (Deleting ids)
    thus ?thesis using inv by (auto simp: agent_inv_def)
  qed
  thus "agent_inv A (run_task A committed t st)" "\<exists>xs. ag_answers (run_task A committed t st) = ag_answers st @ xs" by simp_all
qed

lemma agent_step_inv:
  assumes inv: "agent_inv A st"
  shows "agent_inv A (agent_step A op st)" and "\<exists>xs. ag_answers (agent_step A op st) = ag_answers st @ xs"
proof -
  have "agent_inv A (agent_step A op st) \<and> (\<exists>xs. ag_answers (agent_step A op st) = ag_answers st @ xs)"
  proof (cases op)
    case (Submits files clock s)
    thus ?thesis using inv by (auto simp: submit_def start_task_inv read_submission_reads split: result.splits)
  next
    case (Acknowledges i travel cred home now)
    thus ?thesis using inv
      by (auto simp: acknowledge_installed_def start_task_inv rbind_eq_Ok acknowledged_bound split: result.splits option.splits)
  next
    case (Approves i a)
    thus ?thesis using inv by (auto simp: approve_remote_enrollment_def start_task_inv split: result.splits)
  next
    case (Prunes now)
    thus ?thesis using inv by (auto simp: prune_remote_enrollment_inbox_def start_task_inv)
  next
    case (Proceeds n committed)
    let ?st = "st\<lparr>ag_tasks := take n (ag_tasks st) @ drop (Suc n) (ag_tasks st)\<rparr>"
    have i: "agent_inv A ?st" using inv by (auto simp: agent_inv_def dest: in_set_takeD in_set_dropD)
    have "task_bound A (ag_tasks st ! n)" if "n < length (ag_tasks st)" using inv that by (auto simp: agent_inv_def)
    thus ?thesis using run_task_inv [OF i, of "ag_tasks st ! n" committed] inv Proceeds by simp
  next
    case Reboots
    thus ?thesis using inv by (auto simp: agent_inv_def)
  qed
  thus "agent_inv A (agent_step A op st)" "\<exists>xs. ag_answers (agent_step A op st) = ag_answers st @ xs" by simp_all
qed

interpretation agent: ratchet "agent_step A" "agent_inv A" "\<lambda>st st'. \<exists>xs. ag_answers st' = ag_answers st @ xs"
  by unfold_locales (auto dest: agent_step_inv)

text \<open>C37: Through any interleaving of submissions, approvals, acknowledgements, pruning, failed writes and restarts,
  the inbox answers a submission only with an enrollment that was issued for exactly the request it carries, under
  the request id and the Travel id the transport authenticated.\<close>

theorem inbox_answers_own_request:
  assumes "(s, e) \<in> set (ag_answers (agent_run A ops (agent_new issuer)))"
  shows "\<exists>q. from_slice (ag_envelope_json A) (sm_request_json s) = Some q \<and> envelope_matches e q
     \<and> er_request_id (enrollment_of q) = sm_request_id s \<and> er_travel_id (enrollment_of q) = sm_travel_id s"
proof -
  have "agent_inv A (agent_new issuer)" by (simp add: agent_inv_def agent_new_def)
  hence "agent_inv A (agent_run A ops (agent_new issuer))" unfolding agent_run_def by (rule agent.run_inv)
  thus ?thesis using assms by (auto simp: agent_inv_def submission_reads_def)
qed

section \<open>Pages\<close>

text \<open>The pages of a list, in order, are the list.\<close>

lemma pages_cover:
  assumes "0 < n"
  shows "concat (map (\<lambda>p. pg_items (paginate items (Suc p) n)) [0..<pg_total_pages (paginate items 1 n)]) = items"
    and "length (pg_items (paginate items p n)) \<le> n"
proof -
  let ?pages = "pg_total_pages (paginate items 1 n)"
  have pages: "?pages = max ((length items + n - 1) div n) 1" by (simp add: paginate_def Let_def)
  have all: "concat (map (\<lambda>p. take n (drop (p * n) items)) [0..<k]) = take (k * n) items" for k
    by (induction k) (simp_all add: take_add [symmetric] add.commute)
  have m: "map (\<lambda>p. pg_items (paginate items (Suc p) n)) [0..<?pages] = map (\<lambda>p. take n (drop (p * n) items)) [0..<?pages]"
  proof (rule map_cong [OF refl])
    fix p assume "p \<in> set [0..<?pages]"
    hence "min (Suc p) ?pages = Suc p" by simp
    thus "pg_items (paginate items (Suc p) n) = take n (drop (p * n) items)" by (simp add: paginate_def Let_def)
  qed
  have "length items \<le> ?pages * n"
  proof -
    have "length items \<le> (length items + n - 1) div n * n"
      using assms div_mult_mod_eq [of "length items + n - 1" n] mod_less_divisor [OF assms, of "length items + n - 1"] by linarith
    thus ?thesis unfolding pages by (meson le_trans max.cobounded1 mult_le_mono1)
  qed
  thus "concat (map (\<lambda>p. pg_items (paginate items (Suc p) n)) [0..<?pages]) = items"
    unfolding m all by simp
  show "length (pg_items (paginate items p n)) \<le> n" by (simp add: paginate_def Let_def)
qed

section \<open>Evaluation on a concrete inbox\<close>

definition sample_agent_env :: agent_env where
  "sample_agent_env = \<lparr>ag_issuer_env = sample_issuer_env, ag_envelope_json = one_json (LegacyRequest sample_request),
     ag_home_id = ''home-1'', ag_has_global = False\<rparr>"

definition sample_submission :: submission where
  "sample_submission = \<lparr>sm_request_id = 12, sm_travel_id = ''phone'', sm_home_id = ''home-1'', sm_request_json = [7],
     sm_bootstrap_token = None\<rparr>"

definition sample_inbox_record :: inbox_record where
  "sample_inbox_record = \<lparr>nr_version = 1, nr_travel_id = ''phone'', nr_home_id = ''home-1'', nr_received_at_unix_secs = 150,
     nr_request = LegacyRequest sample_request, nr_response = None, nr_bootstrap_token_sha256 = None,
     nr_verification_code = None, nr_installed_credential_id = None, nr_installed_at_unix_secs = None\<rparr>"

definition sample_approved :: inbox_record where
  "sample_approved = sample_inbox_record\<lparr>nr_response := Some (ir_enrollment (sample_record None))\<rparr>"

definition sample_installed :: inbox_record where
  "sample_installed = sample_inbox_record\<lparr>nr_installed_credential_id := Some 11, nr_installed_at_unix_secs := Some 160\<rparr>"

text \<open>An agent whose issuer has the sample record in its ledger.\<close>

definition sample_agent :: "issuer \<Rightarrow> inbox_record list \<Rightarrow> inbox_task list \<Rightarrow> (submission \<times> response_envelope) list \<Rightarrow> agent" where
  "sample_agent s rs ts xs = \<lparr>ag_issuer = s, ag_table = map (Pair 12) rs, ag_tasks = ts, ag_answers = xs\<rparr>"

definition sample_issuer_marked :: "issuance_record list \<Rightarrow> issuer" where
  "sample_issuer_marked sent = \<lparr>is_file = Some [2, 10],
     is_ledger = Some \<lparr>il_file = Some [2, 10], il_state = sample_ledger (Some 7)\<rparr>, is_published = sent\<rparr>"

lemma sample_agent_sel [simp]:
  "ag_issuer_env sample_agent_env = sample_issuer_env" "ag_home_id sample_agent_env = ''home-1''"
  "ag_tasks (sample_agent s rs ts xs) = ts" "ag_answers (sample_agent s rs ts xs) = xs"
  "ag_table (sample_agent s rs ts xs) = map (Pair 12) rs" "ag_issuer (sample_agent s rs ts xs) = s"
  "(sample_agent s rs ts xs)\<lparr>ag_tasks := ts'\<rparr> = sample_agent s rs ts' xs"
  "(sample_agent s rs ts xs)\<lparr>ag_issuer := s'\<rparr> = sample_agent s' rs ts xs"
  "(sample_agent s rs ts xs)\<lparr>ag_answers := xs'\<rparr> = sample_agent s rs ts xs'"
  "start_task t (sample_agent s rs ts xs) = sample_agent s rs (ts @ [t]) xs"
  by (simp_all add: sample_agent_def sample_agent_env_def start_task_def)

lemma sample_submission_reads:
  "read_submission sample_agent_env files (\<lambda>n. 150) sample_submission = Ok (LegacyRequest sample_request)"
  using sample_request_parses [of 150]
  by (simp add: read_submission_def sample_submission_def sample_request_fields bail_if_def Let_def)
    (simp add: sample_agent_env_def)

lemma sample_submits:
  "agent_step sample_agent_env (Submits files (\<lambda>n. 150) sample_submission) (sample_agent s rs ts xs)
     = sample_agent s rs (ts @ [Looking sample_submission (LegacyRequest sample_request) 150]) xs"
  by (simp add: submit_def sample_submission_reads)

lemma sample_looks:
  "run_task sample_agent_env ok (Looking sample_submission (LegacyRequest sample_request) 150) (sample_agent s [] ts xs)
     = sample_agent s [] (ts @ [Inserting sample_submission (LegacyRequest sample_request) 150]) xs"
  "run_task sample_agent_env ok (Looking sample_submission (LegacyRequest sample_request) 150) (sample_agent s [sample_approved] ts xs)
     = sample_agent s [sample_approved] ts (xs @ [(sample_submission, ir_enrollment (sample_record None))])"
  by (simp_all add: sample_submission_def)
    (simp add: existing_response_def sample_approved_def sample_inbox_record_def token_sha256_def bail_if_def
      REMOTE_ENROLLMENT_VERSION_def)

lemma sample_stores_record:
  "run_task sample_agent_env ok (Inserting sample_submission (LegacyRequest sample_request) 150) (sample_agent s [] ts xs)
     = sample_agent s [] (ts @ [Storing 12 sample_inbox_record]) xs"
  "run_task sample_agent_env True (Storing 12 r) (sample_agent s [] ts xs) = sample_agent s [r] ts xs"
  "run_task sample_agent_env True (Storing 12 r) (sample_agent s [q] ts xs) = sample_agent s [r] ts xs"
  by (simp_all add: remote_enrollment_capacity_available_def MAX_REMOTE_ENROLLMENT_INBOX_RECORDS_def submitted_record_def
      sample_submission_def sample_inbox_record_def token_sha256_def REMOTE_ENROLLMENT_VERSION_def sample_agent_def start_task_def)

lemma sample_approves:
  assumes "r \<in> {sample_inbox_record, sample_approved, sample_installed}"
  shows "agent_step sample_agent_env (Approves 12 (sample_issue Stored (Ok 7))) (sample_agent s [r] ts xs)
     = sample_agent s [r] (ts @ [Issuing 12 r (sample_issue Stored (Ok 7))]) xs"
proof -
  have "(sample_issue ev x)\<lparr>ia_request := LegacyRequest sample_request\<rparr> = sample_issue ev x" for ev x by (simp add: sample_issue_def)
  thus ?thesis using assms
    by (auto simp: approve_remote_enrollment_def sample_approved_def sample_installed_def sample_inbox_record_def
        sample_request_fields bail_if_def)
qed

lemma sample_issues_again:
  "issue_from_home sample_issuer_env (sample_issue ev x) (sample_issuer_marked sent)
     = (Ok (7, ir_enrollment (sample_record None), True), sample_issuer_marked sent)"
proof -
  have d: "ir_request_id (sample_record (Some 7)) = er_request_id sample_request"
    "ir_request_sha256 (sample_record (Some 7)) = sample_digest" "ir_published_generation (sample_record (Some 7)) = Some 7"
    "ir_enrollment (sample_record (Some 7)) = ir_enrollment (sample_record None)"
    by (simp_all add: sample_record_def sample_request_fields)
  have fd: "ledger_find sample_crypto (one_json sample_request) sample_request
      \<lparr>il_file = f, il_state = sample_ledger (Some 7)\<rparr> = Ok (Some (sample_record (Some 7)))" for f
    by (simp add: ledger_find_def sample_fingerprint sample_ledger_def d bail_if_def)
  have m: "matches_intent (sample_record (Some 7)) ''issuer'' sample_scope 3600"
    "matches_request_envelope (sample_record (Some 7)) (LegacyRequest sample_request)"
    by (simp_all add: matches_intent_def matches_request_envelope_def sample_record_def sample_response_def
        sample_enrollment_approval_def)
  show ?thesis
    by (simp add: issue_from_home_def sample_requested_validity sample_selects issue_locked_def Let_def fd m bail_if_def
        ensure_record_not_revoked_def d sample_issuer_marked_def)
qed

lemma sample_issues_first:
  "issue_from_home sample_issuer_env (sample_issue Stored (Ok 7)) (sample_issuer (Some [1, 10]) [sample_record None] sent)
     = (Ok (7, ir_enrollment (sample_record None), True), sample_issuer_marked (sent @ [sample_record None]))"
  by (simp add: sample_retry sample_marks sample_issuer_marked_def)

lemma sample_issue_tasks:
  "r \<in> {sample_inbox_record, sample_approved} \<Longrightarrow>
   run_task sample_agent_env ok (Issuing 12 r (sample_issue Stored (Ok 7))) (sample_agent (sample_issuer (Some [1, 10]) [sample_record None] sent) rs ts xs)
     = sample_agent (sample_issuer_marked (sent @ [sample_record None])) rs (ts @ [Storing 12 sample_approved]) xs"
  "r \<in> {sample_inbox_record, sample_approved} \<Longrightarrow>
   run_task sample_agent_env ok (Issuing 12 r (sample_issue Stored (Ok 7))) (sample_agent (sample_issuer_marked sent) rs ts xs)
     = sample_agent (sample_issuer_marked sent) rs (ts @ [Storing 12 sample_approved]) xs"
  by (auto simp: sample_issues_first sample_issues_again sample_approved_def)

text \<open>A request that is submitted, stored, approved, and answered when it is submitted again.\<close>

definition sample_agent_ops :: "agent_op list" where
  "sample_agent_ops = [Submits sample_files (\<lambda>n. 150) sample_submission, Proceeds 0 True, Proceeds 0 True, Proceeds 0 True,
     Approves 12 (sample_issue Stored (Ok 7)), Proceeds 0 True, Proceeds 0 True,
     Submits sample_files (\<lambda>n. 150) sample_submission, Proceeds 0 True]"

lemma agent_proceeds:
  "n < length ts \<Longrightarrow> agent_step A (Proceeds n ok) (sample_agent s rs ts xs)
     = run_task A ok (ts ! n) (sample_agent s rs (take n ts @ drop (Suc n) ts) xs)"
  by simp

lemmas sample_agent_steps = sample_submits sample_looks sample_stores_record sample_approves sample_issue_tasks agent_proceeds

lemma sample_agent_new: "agent_new s = sample_agent s [] [] []"
  by (simp add: agent_new_def sample_agent_def)

lemma sample_agent_runs:
  "agent_run sample_agent_env sample_agent_ops (agent_new (sample_issuer (Some [1, 10]) [sample_record None] []))
     = sample_agent (sample_issuer_marked [sample_record None]) [sample_approved] [] [(sample_submission, ir_enrollment (sample_record None))]"
  by (simp add: agent_run_def sample_agent_ops_def sample_agent_new sample_agent_steps del: agent_step.simps run_task.simps)

theorem inbox_answers_own_request_witness:
  "(sample_submission, ir_enrollment (sample_record None))
     \<in> set (ag_answers (agent_run sample_agent_env sample_agent_ops (agent_new (sample_issuer (Some [1, 10]) [sample_record None] []))))
   \<and> (\<exists>q. from_slice (one_json (LegacyRequest sample_request)) [7] = Some q \<and> envelope_matches (ir_enrollment (sample_record None)) q
        \<and> er_request_id (enrollment_of q) = 12 \<and> er_travel_id (enrollment_of q) = ''phone'')"
proof -
  have m: "(sample_submission, ir_enrollment (sample_record None)) \<in> set (ag_answers (agent_run sample_agent_env sample_agent_ops
      (agent_new (sample_issuer (Some [1, 10]) [sample_record None] []))))"
    by (simp add: sample_agent_runs)
  show ?thesis using inbox_answers_own_request [OF m] m
    by (simp add: sample_agent_env_def sample_submission_def)
qed

text \<open>The approval writes the record it read before the issue. When a second approval of the request is under way
  while Travel fetches, installs and acknowledges the first one's response, its write brings the response back
  and erases the acknowledged installation.\<close>

lemma acknowledgement_lost:
  "let st = sample_agent (sample_issuer (Some [1, 10]) [sample_record None] []) [sample_inbox_record] [] [];
       approve = Approves 12 (sample_issue Stored (Ok 7));
       acknowledged = agent_run sample_agent_env [approve, approve, Proceeds 0 True, Proceeds 1 True,
         Acknowledges 12 ''phone'' 11 ''home-1'' 160, Proceeds 1 True] st
   in ag_table acknowledged = [(12, sample_installed)]
      \<and> ag_table (agent_run sample_agent_env [Proceeds 0 True, Proceeds 0 True] acknowledged) = [(12, sample_approved)]"
proof -
  have r: "acknowledged_record 12 ''phone'' ''home-1'' 11 160 sample_approved = Ok (Some sample_installed)"
    by (simp add: acknowledged_record_def bail_if_def Let_def sample_approved_def sample_inbox_record_def sample_installed_def
        sample_record_def sample_response_def sample_enrollment_approval_def sample_request_fields)
  have a: "agent_step sample_agent_env (Acknowledges 12 ''phone'' 11 ''home-1'' 160) (sample_agent s [sample_approved] ts xs)
      = sample_agent s [sample_approved] (ts @ [Storing 12 sample_installed]) xs" for s ts xs
    by (simp add: acknowledge_installed_def r bail_if_def)
  show ?thesis
    by (simp add: agent_run_def sample_agent_steps a del: agent_step.simps run_task.simps)
qed

end
