(* ===== verification/Spec2Isabelle.thy ===== *)
theory Spec2Isabelle
  imports Flow_Properties Travel_Control Statistics Home_Serving Enrollment_Inbox Key_Rotation
begin

text \<open>
  FlowSplice: verified model of the Rust implementation.

  FlowSplice lets a roaming client (\<^emph>\<open>Travel\<close>) reach TCP and UDP services of a machine at home (\<^emph>\<open>Home\<close>)
  through \<^emph>\<open>Relays\<close> that only splice sockets, under a \<^emph>\<open>Server\<close> that keeps the directory and the
  authorization state. Every party acts on signed documents: an offline root signs the deployment trust, a
  Home (or a global authority) signs the credentials of its Travels, the Server signs the control snapshots and
  the Relays verify a MAC before they join two sockets. This library models that logic, function by function,
  and proves what makes each part correct; a definition has the name of the Rust function or type it translates
  wherever Isabelle allows it. Paths below are relative to \<open>src/\<close>.

  \<^bold>\<open>How the parts interact.\<close> Travel asks the Server for a route to a service (\<open>Server_Routes\<close>, on the
  authorization state of \<open>Server_Authorization\<close>); the Server grants it to a Relay, the Relay reports it ready,
  and the Server sends the work to the Home. Travel and Home then connect to the Relay, which checks the route
  preface (\<open>Route\<close>) of either side and pairs them (\<open>Relay\<close>). Over the spliced Carrier both ends run TLS, check
  each other's certificate (\<open>Certificates\<close>) and credential (\<open>Authorization\<close>), exchange frames (\<open>Frame\<close>) and
  attach the Carrier to a TCP flow or UDP association (\<open>Home_Serving\<close>), whose bytes are carried by the flow
  protocol (\<open>Travel_Flow\<close> and \<open>Home_Flow\<close>). Meanwhile the Server distributes signed snapshots (\<open>Server_Control\<close>,
  \<open>Deployment\<close>) that Travel, Home and Relay apply behind durable high-water marks (\<open>Travel_Control\<close>,
  \<open>Home_Serving\<close>, \<open>Relay\<close>, \<open>State_File\<close>), and collects signed statistics (\<open>Statistics\<close>). A Travel comes into
  being by an enrollment: its request reaches the inbox of a Home (\<open>Enrollment_Inbox\<close>), the Home's issuer signs a
  credential once and publishes it through the Server (\<open>Issuance\<close>), and Travel validates and installs the response
  (\<open>Enrollment\<close>).
\<close>

text \<open>
  \<^bold>\<open>The theories.\<close> In the order of their imports:

  \<^item> \<open>Prelude\<close>: the \<open>Result\<close> type with \<open>?\<close> as \<open>rbind\<close>, loops that stop at the first error, words with checked and
    saturating operations, big-endian bytes, maps with fresh keys. \<open>Errors\<close>: one constructor per \<open>bail!\<close> of the
    modelled code, a datatype per component, all in the sum \<open>error\<close>; \<open>'a res\<close> is a result with such an error.
  \<^item> \<open>Protocol\<close> (\<open>internal/flowsplice-core/src/protocol.rs\<close>): protocols, services, tunnel frames, work.
  \<^item> \<open>Frame\<close> (\<open>.../frame.rs\<close>): length-prefixed frames with a resumable reader and the negotiated codec of data
    frames. The transport is a list of what each read returns; a read that is dropped and started again is
    a second call on the reader's state. \<open>data_stream_roundtrip\<close> and \<open>data_read_cancellation_safe\<close>; the locale
    \<open>frame_codec\<close> holds the proof once, for the JSON and the binary codec.
  \<^item> \<open>Route\<close> (\<open>.../route.rs\<close>): the preface of a spliced route; \<open>preface_roundtrip\<close>.
  \<^item> \<open>Flow_Window\<close>, \<open>Home_Flow\<close>, \<open>Travel_Flow\<close>, \<open>Flow_System\<close>, \<open>Flow_Properties\<close>
    (\<open>crates/flowsplice-home-core/src/tcp_flow.rs\<close>, \<open>crates/flowsplice-travel-core/src/tcp_flow.rs\<close>): the window of
    unacknowledged segments (locales \<open>send_window\<close> and \<open>stream_receiver\<close>, interpreted on both ends), every arm of
    Home's \<open>run_flow\<close> loop and of Travel's \<open>run_inner\<close>, \<open>perform_race\<close> and their helpers as functions on the state
    between two awaits, and the two ends with the Carriers between them as a step relation. \<open>sys_inv\<close> is the
    simulation with the two byte streams, proved for every step; the properties are read off it:
    exactly-once in-order delivery, exact retransmission buffers, complete success, recovery of an upload.
    Home's registry starts a flow anew, at offset 0 and with a new connection to the target, when a Carrier comes
    for a flow that has ended there (\<open>home_reopen\<close>): \<open>sy_epoch\<close> counts these incarnations. Towards the target the
    properties hold in each incarnation; towards Travel they hold in the first, and
    \<open>recreated_flow_mixes_targets\<close> is a run in which Travel is given bytes of two connections as one stream.
    \<open>home_race_decided_once\<close> follows Home's verdicts through whole runs.
  \<^item> \<open>Trust_Base\<close>, \<open>Certificates\<close> (\<open>.../tls.rs\<close>): the cryptographic and X.509 libraries as records of functions
    with their documented laws, key and pin decoding, the identity of a peer certificate
    (\<open>peer_identity_exact\<close>), the peer checks, the management client verifier, the guards of key files.
  \<^item> \<open>High_Water\<close>: the locales \<open>high_water\<close> (an accept operation that never goes back) and \<open>ratchet\<close> (an
    invariant and a preorder kept by every step), interpreted on the authorization cache, the Relay
    directory, the accepted statistics, the Home, its inbox and Travel's control state.
  \<^item> \<open>Authorization\<close>, \<open>Deployment\<close>, \<open>Business\<close> (\<open>.../authorization.rs\<close>, \<open>deployment.rs\<close>, \<open>business.rs\<close>,
    \<open>business/service_class.rs\<close>): the signed documents, their signing and verification, the indexes built from a snapshot
    and every decision made with them. The decisions equal specifications read off the signed documents.
  \<^item> \<open>State_File\<close> (\<open>.../authorization.rs\<close>): atomic JSON files; a write ends stored, failed before the rename, or
    failed after it.
  \<^item> \<open>Enrollment\<close>, \<open>Enrollment_Properties\<close> (\<open>internal/flowsplice-enrollment/src/lib.rs\<close>, \<open>issuer.rs\<close>, \<open>business.rs\<close>):
    requests, approvals, issuing, validation and installation of a response, and directed requests.
  \<^item> \<open>Issuance\<close> (\<open>homeagent/src/issuance_ledger.rs\<close>, \<open>homeagent/src/main.rs\<close>): the ledger of issued enrollments with
    its file, \<open>issue_from_home_with_password\<close> from its checks to the publication, revocation by the issuer, the checks
    of the issuer's configuration; runs with failed writes, crashes and restarts (\<open>issuance_confined\<close>, and
    \<open>issuance_once\<close> as long as every issue begins with a saved ledger).
  \<^item> \<open>Enrollment_Inbox\<close> (\<open>homeagent/src/main.rs\<close>): submissions, approvals, acknowledgements and retention as tasks that
    interleave between their accesses to the store (\<open>inbox_answers_own_request\<close>), pagination and the guard of the
    local pages.
  \<^item> \<open>Key_Rotation\<close> (\<open>internal/flowsplice-enrollment/src/key.rs\<close>): private key files and the rotation of their password
    with staged files and a recovery journal; every operation on a file may fail or end the process. \<open>fs_holds\<close> is a
    Hoare triple with a crash invariant, \<open>fs_runs\<close> says that an undisturbed run succeeds; with them
    \<open>rotation_all_or_nothing\<close> follows through every crash, repeated crashes of the recovery included.
  \<^item> \<open>Server_Authorization\<close> (\<open>server/src/authorization.rs\<close>), \<open>Server_Control\<close>, \<open>Server_Routes\<close> (\<open>server/src/main.rs\<close>):
    the durable authorization snapshot and its changes; the snapshot signer, the session registries and the
    published Relay directory; route requests, enrollment forwarding, acknowledgement tracking, revocation. A
    forwarded enrollment is recorded in one step and handed to its Home in a later one (\<open>st_forwarding\<close>);
    \<open>enrollment_effect\<close> says what every step does to the waiting requests.
  \<^item> \<open>Relay\<close> (\<open>relay/src/main.rs\<close>): pending routes with their permits, pairing, expiry. A received authorization
    is applied in three steps, under three locks: it is accepted into the cache, the routes it revokes are
    dropped, and it is published; the sessions of two Servers may interleave between them.
  \<^item> \<open>Travel_Control\<close> (\<open>crates/flowsplice-travel-core/src/lib.rs\<close>): the durable mark, startup and migration,
    application of snapshots in the sections between the locks, Relay history and candidate order.
  \<^item> \<open>Home_Serving\<close> (\<open>crates/flowsplice-home-core/src/lib.rs\<close>, \<open>control.rs\<close>, \<open>lifetime.rs\<close>, \<open>tasks.rs\<close> and the flow
    registry of \<open>tcp_flow.rs\<close>): work, permits, flows, revocation and shutdown.
  \<^item> \<open>Statistics\<close> (\<open>internal/flowsplice-core/src/statistics.rs\<close>, \<open>internal/flowsplice-storage/src/lib.rs\<close>,
    \<open>server/src/main.rs\<close>): aggregation, the signed outbox, acceptance and queries.
\<close>

text \<open>
  \<^bold>\<open>How the code is rendered.\<close> A struct is a record with a short prefix on its fields, an enum a datatype,
  a machine integer a word of its width; addition that the code checks or saturates is \<open>checked_add\<close> or
  \<open>sat_add\<close>. A \<open>Result\<close> is \<open>Ok\<close> or \<open>Err\<close>. A handler is a function from its arguments and the state to its
  answer and the new state; where an asynchronous function releases a lock or awaits, it is cut into one function
  per section, and the operations of a component's step function are those sections, so a run is an
  arbitrary interleaving of them. What the environment decides (clocks, fresh identifiers, random bytes, the
  outcome of a write, the result of an await) is an argument of the step. A transaction of the state store that
  fails leaves the store unchanged; a file replacement may fail on either side of its rename.

  \<^bold>\<open>Parameters and their laws.\<close> \<open>crypto\<close>: \<open>hex_ok\<close> (decoding inverts encoding, of twice the length),
  \<open>ecdsa_ok\<close> (a made signature verifies), SHA-256 as a function, with injectivity named where a property needs
  it; no unforgeability is assumed: authenticity is stated as \<open>the signature verifies under this key\<close>. \<open>json\<close> and
  \<open>file_json\<close>: what was encoded decodes to itself. \<open>x509\<close>: a certificate made with given parameters reads back
  with them (\<open>x509_ok\<close>). The HMAC of the route preface is a function; a collision is named in the conclusion.
  Every property with such a hypothesis has a witness on the sample deployment of its theory, where the laws are
  proved of concrete functions.

  \<^bold>\<open>Bounds.\<close> Stream positions are 64-bit words; the flow properties hold for streams shorter than \<open>2 ^ 64\<close> bytes
  (\<open>stream_ok\<close>), at which the code's saturating positions stop. Each Carrier of \<open>Flow_System\<close> is the list of all
  frames ever sent on it, and any of them may arrive in any order and number, which includes every real Carrier. A
  flow queues at most 16 Carriers and Home remembers 32 races, as in the code. Loops are structural recursions;
  the receive loops run over the finite list of what the transport delivers, and \<open>home_shutdown_terminates\<close>
  gives the measure of the one loop that waits for others.
\<close>

text \<open>
  \<^bold>\<open>The groups of lemmas.\<close> Per operation, lemmas named \<open>..._Ok\<close> or \<open>...D\<close> say when it succeeds and with what; lemmas
  named \<open>..._sel\<close> or \<open>..._simps\<close> say which fields it leaves alone; lemmas named \<open>..._inv\<close>, \<open>..._wf\<close>, \<open>shut_...\<close>,
  \<open>quiet_...\<close> and \<open>queues_live_...\<close> say that it keeps the invariant of its component. The properties are
  stated after them, each with a witness that evaluates the model on a concrete input.

  \<^bold>\<open>What modelling showed.\<close> Some theorems are runs in which the code does not do what it means to:
  \<open>recreated_flow_mixes_targets\<close>, \<open>handover_closes_healthy_flow\<close>, \<open>stale_open_ends_healthy_flow\<close>, \<open>shared_relay_address_blocks_snapshots\<close>,
  \<open>stale_directory_stays_published\<close>, \<open>overtaken_snapshot_splices_revoked\<close>, \<open>overtaken_snapshot_stays_in_use\<close>, \<open>long_service_id_blocks_statistics\<close>,
  \<open>revoked_flow_survives\<close>, \<open>interrupted_import_blocks_retry\<close>, \<open>unsaved_record_published\<close> and \<open>acknowledgement_lost\<close>.

  \<^bold>\<open>Not modelled.\<close> The sockets, TLS handshakes, timers and task spawning of tokio and rustls, which the steps
  take as events; \<open>internal/flowsplice-transport\<close> and the accept and connection loops of Server, Relay, Home and
  Travel around the modelled handlers (the dispatch of a received message to its handler, hello exchanges,
  reconnection delays); the copying of bytes between two spliced sockets; Travel's local listeners, mappings and
  UDP associations; the rendering of the pages, the axum routers and the installation of a Home; the generation
  of private keys and the enrollment of Homes (\<open>internal/flowsplice-enrollment/src/home.rs\<close>); the trust command line; the engine
  of the state store (redb), which is a map that changes atomically; configuration files, logging and metrics
  export; the bindings for Android and Apple and the demonstration programs. They are I/O, presentation or calls
  into libraries whose code is not part of the repository.
\<close>

end
